(* ===== verification/Jeed_Base.thy ===== *)
theory Jeed_Base
  imports "HOL-Library.Word" "HOL-Library.Signed_Division"
begin

text \<open>
  Shared vocabulary of the development: the machine integers of the Rust sources, results and
  panics as values, little-endian byte strings, and the decimal reading of ASCII digits that
  every parser of the repository is measured against.

  Conventions used by every theory:
  \<^item> \<open>u8\<close> \<dots> \<open>u128\<close> and \<open>i8\<close> \<dots> \<open>i128\<close> are words of that width; a signed value is the same
    word read by \<open>sint\<close>. Rust's \<open>as\<close> casts are \<open>ucast\<close>/\<open>scast\<close>. Arithmetic that Rust leaves
    unchecked is word arithmetic, that is, the wrap-around of the release build.
  \<^item> \<open>usize\<close> values (lengths, indices) are \<open>nat\<close>.
  \<^item> \<open>Result<T, E>\<close> is \<open>E + T\<close> with \<open>Inl\<close> for the error. Where the source can also panic (an
    \<open>assert!\<close>, a slice out of range), the error is \<open>E fault\<close> and a panic is \<open>Inl Panic\<close>.
\<close>

unbundle bit_operations_syntax

subsection \<open>Machine integers\<close>

type_synonym u8 = "8 word"
type_synonym u16 = "16 word"
type_synonym u32 = "32 word"
type_synonym u64 = "64 word"
type_synonym u128 = "128 word"
type_synonym i8 = "8 word"
type_synonym i16 = "16 word"
type_synonym i32 = "32 word"
type_synonym i64 = "64 word"
type_synonym i128 = "128 word"
type_synonym bytes = "u8 list"

text \<open>\<open>checked_add\<close>, \<open>saturating_add\<close>, \<open>saturating_mul\<close> and \<open>saturating_sub\<close> of Rust's unsigned integers.\<close>

definition checked_add :: "'a::len word \<Rightarrow> 'a word \<Rightarrow> 'a word option" where
  "checked_add x y = (if unat x + unat y < 2 ^ LENGTH('a) then Some (x + y) else None)"

definition saturating_add :: "'a::len word \<Rightarrow> 'a word \<Rightarrow> 'a word" where
  "saturating_add x y = (case checked_add x y of Some z \<Rightarrow> z | None \<Rightarrow> - 1)"

definition saturating_mul :: "'a::len word \<Rightarrow> 'a word \<Rightarrow> 'a word" where
  "saturating_mul x y = (if unat x * unat y < 2 ^ LENGTH('a) then x * y else - 1)"

definition saturating_sub :: "'a::len word \<Rightarrow> 'a word \<Rightarrow> 'a word" where
  "saturating_sub x y = (if x \<le> y then 0 else x - y)"

lemma unat_saturating_sub [simp]: "unat (saturating_sub x y) = unat x - unat y"
  by (auto simp: saturating_sub_def word_le_nat_alt unat_sub)

lemma saturating_sub_le: "saturating_sub x y \<le> x"
  by (simp add: word_le_nat_alt)

subsection \<open>Results and panics\<close>

datatype 'e fault = Err 'e | Panic

type_synonym ('e, 'a) res = "'e fault + 'a"

text \<open>\<open>and_then\<close> is Rust's \<open>?\<close>: an error ends the function with that error.\<close>

definition and_then :: "'e + 'a \<Rightarrow> ('a \<Rightarrow> 'e + 'b) \<Rightarrow> 'e + 'b" where
  "and_then r f = (case r of Inl e \<Rightarrow> Inl e | Inr x \<Rightarrow> f x)"

definition map_ok :: "('a \<Rightarrow> 'b) \<Rightarrow> 'e + 'a \<Rightarrow> 'e + 'b" where
  "map_ok f r = (case r of Inl e \<Rightarrow> Inl e | Inr x \<Rightarrow> Inr (f x))"

lemma and_then_simps [simp]:
  "and_then (Inl e) f = Inl e"
  "and_then (Inr x) f = f x"
  by (simp_all add: and_then_def)

lemma map_ok_simps [simp]:
  "map_ok g (Inl e) = Inl e"
  "map_ok g (Inr x) = Inr (g x)"
  by (simp_all add: map_ok_def)

lemma and_then_Inr_iff: "and_then r f = Inr y \<longleftrightarrow> (\<exists>x. r = Inr x \<and> f x = Inr y)"
  by (cases r) auto

lemma and_then_Inl_iff: "and_then r f = Inl e \<longleftrightarrow> r = Inl e \<or> (\<exists>x. r = Inr x \<and> f x = Inl e)"
  by (cases r) auto

lemma map_ok_Inr_iff: "map_ok g r = Inr y \<longleftrightarrow> (\<exists>x. r = Inr x \<and> y = g x)"
  by (cases r) auto

lemma map_ok_Inl_iff [simp]: "map_ok g r = Inl e \<longleftrightarrow> r = Inl e"
  by (cases r) auto

lemmas result_iffs = and_then_Inr_iff and_then_Inl_iff map_ok_Inr_iff map_ok_Inl_iff

lemma and_then_cong [fundef_cong]:
  "r = r' \<Longrightarrow> (\<And>x. r' = Inr x \<Longrightarrow> f x = g x) \<Longrightarrow> and_then r f = and_then r' g"
  by (cases r') auto

text \<open>No branch of a computation panics.\<close>

definition no_panic :: "('e, 'a) res \<Rightarrow> bool" where
  "no_panic r \<longleftrightarrow> r \<noteq> Inl Panic"

lemma no_panic_simps [simp]:
  "no_panic (Inr x)" "no_panic (Inl (Err e))" "\<not> no_panic (Inl Panic)"
  by (simp_all add: no_panic_def)

lemma no_panic_map_ok [simp]: "no_panic (map_ok g r) = no_panic r"
  by (simp add: no_panic_def)

lemma no_panic_and_then: "no_panic r \<Longrightarrow> (\<And>x. r = Inr x \<Longrightarrow> no_panic (f x)) \<Longrightarrow> no_panic (and_then r f)"
  by (cases r) (auto simp: no_panic_def)

text \<open>
  Total correctness of a computation: it does not panic, and what it returns satisfies \<open>P\<close>. An error
  is allowed; the rules follow the code through \<open>?\<close>.
\<close>

definition returns :: "('e, 'a) res \<Rightarrow> ('a \<Rightarrow> bool) \<Rightarrow> bool" where
  "returns r P \<longleftrightarrow> no_panic r \<and> (\<forall>x. r = Inr x \<longrightarrow> P x)"

lemma returns_simps [simp]:
  "returns (Inr x) P = P x" "returns (Inl (Err e)) P" "\<not> returns (Inl Panic) P"
  by (simp_all add: returns_def)

lemma returns_and_then: "returns r P \<Longrightarrow> (\<And>x. P x \<Longrightarrow> returns (f x) Q) \<Longrightarrow> returns (and_then r f) Q"
  by (cases r) (auto simp: returns_def no_panic_def)

lemma returns_mono: "returns r P \<Longrightarrow> (\<And>x. P x \<Longrightarrow> Q x) \<Longrightarrow> returns r Q"
  by (simp add: returns_def)

lemma returns_no_panic: "no_panic r \<Longrightarrow> returns r (\<lambda>_. True)"
  by (simp add: returns_def)

lemma returns_any: "no_panic r \<Longrightarrow> (\<And>x. P x) \<Longrightarrow> returns r P"
  by (simp add: returns_def)

lemma returns_if: "(b \<Longrightarrow> returns r P) \<Longrightarrow> (\<not> b \<Longrightarrow> returns s P) \<Longrightarrow> returns (if b then r else s) P"
  by simp

lemma returns_Inr: "returns r P \<Longrightarrow> r = Inr x \<Longrightarrow> P x"
  by (simp add: returns_def)

subsection \<open>Little-endian byte strings\<close>

text \<open>The number a byte string denotes, least significant byte first.\<close>

fun le_val :: "bytes \<Rightarrow> nat" where
  "le_val [] = 0"
| "le_val (b # bs) = unat b + 256 * le_val bs"

text \<open>Rust's \<open>from_le_bytes\<close> and \<open>to_le_bytes\<close> (the width in bytes is an argument).\<close>

definition from_le_bytes :: "bytes \<Rightarrow> 'a::len word" where
  "from_le_bytes bs = word_of_nat (le_val bs)"

fun nat_to_le :: "nat \<Rightarrow> nat \<Rightarrow> bytes" where
  "nat_to_le 0 v = []"
| "nat_to_le (Suc n) v = word_of_nat (v mod 256) # nat_to_le n (v div 256)"

definition to_le_bytes :: "nat \<Rightarrow> 'a::len word \<Rightarrow> bytes" where
  "to_le_bytes n w = nat_to_le n (unat w)"

lemma unat_u8_less [simp]: "unat (b :: u8) < 256"
  using unsigned_less [of b] by simp

lemma le_val_less: "le_val bs < 256 ^ length bs"
proof (induction bs)
  case (Cons b bs)
  have "unat b + 256 * le_val bs < 256 * (1 + le_val bs)"
    by simp
  also have "\<dots> \<le> 256 * 256 ^ length bs"
    using Cons by (intro mult_le_mono2) simp
  finally show ?case by simp
qed simp

lemma le_val_append: "le_val (xs @ ys) = le_val xs + 256 ^ length xs * le_val ys"
  by (induction xs) (simp_all add: algebra_simps)

lemma length_nat_to_le [simp]: "length (nat_to_le n v) = n"
  by (induction n arbitrary: v) simp_all

lemma length_to_le_bytes [simp]: "length (to_le_bytes n w) = n"
  by (simp add: to_le_bytes_def)

lemma nat_to_le_le_val: "nat_to_le (length bs) (le_val bs) = bs"
  by (induction bs) (simp_all add: unsigned_of_nat)

lemma le_val_nat_to_le: "v < 256 ^ n \<Longrightarrow> le_val (nat_to_le n v) = v"
proof (induction n arbitrary: v)
  case (Suc n)
  then have "v div 256 < 256 ^ n"
    by (simp add: less_mult_imp_div_less mult.commute)
  with Suc.IH show ?case
    by (simp add: unat_of_nat)
qed simp

lemma from_le_bytes_to_le_bytes:
  fixes w :: "'a::len word"
  assumes "LENGTH('a) = 8 * n"
  shows "from_le_bytes (to_le_bytes n w) = w"
proof -
  have "unat w < 256 ^ n"
    using unsigned_less [of w] assms by (simp add: power_mult)
  then show ?thesis
    by (simp add: from_le_bytes_def to_le_bytes_def le_val_nat_to_le)
qed

lemma unat_from_le_bytes:
  assumes "LENGTH('a::len) = 8 * length bs"
  shows "unat (from_le_bytes bs :: 'a word) = le_val bs"
  using le_val_less [of bs] assms
  by (simp add: from_le_bytes_def unat_of_nat take_bit_eq_mod power_mult)

lemma to_le_bytes_from_le_bytes:
  assumes "LENGTH('a::len) = 8 * length bs" and "n = length bs"
  shows "to_le_bytes n (from_le_bytes bs :: 'a word) = bs"
  using assms by (simp add: to_le_bytes_def unat_from_le_bytes nat_to_le_le_val)

subsection \<open>ASCII digits and their decimal reading\<close>

definition is_digit :: "u8 \<Rightarrow> bool" where
  "is_digit b \<longleftrightarrow> 48 \<le> b \<and> b \<le> 57"

definition digits :: "bytes \<Rightarrow> bool" where
  "digits bs \<longleftrightarrow> list_all is_digit bs"

text \<open>
  The specification of a decimal parser: the digits read left to right. It is written over the
  low nibble of every byte, which is the digit's value for \<open>'0'\<close> to \<open>'9'\<close>.
\<close>

definition dec_value :: "bytes \<Rightarrow> nat" where
  "dec_value bs = foldl (\<lambda>v b. 10 * v + unat b mod 16) 0 bs"

lemma foldl_dec_shift:
  "foldl (\<lambda>v b. 10 * v + unat (b :: u8) mod 16) a bs
   = a * 10 ^ length bs + foldl (\<lambda>v b. 10 * v + unat b mod 16) 0 bs"
proof (induction bs arbitrary: a)
  case (Cons b bs)
  show ?case
    by (simp add: Cons.IH [of "10 * a + unat b mod 16"] Cons.IH [of "unat b mod 16"])
      (simp add: algebra_simps)
qed simp

lemma dec_value_Nil [simp]: "dec_value [] = 0"
  by (simp add: dec_value_def)

lemma dec_value_Cons: "dec_value (b # bs) = unat b mod 16 * 10 ^ length bs + dec_value bs"
  by (simp add: dec_value_def foldl_dec_shift [of "unat b mod 16"])

lemma dec_value_append: "dec_value (xs @ ys) = dec_value xs * 10 ^ length ys + dec_value ys"
  by (simp add: dec_value_def foldl_dec_shift [of "foldl _ 0 xs"])

lemma digit_nibble: "is_digit b \<Longrightarrow> unat b mod 16 = unat b - 48"
proof -
  assume "is_digit b"
  then have "48 \<le> unat b" "unat b \<le> 57"
    by (simp_all add: is_digit_def word_le_nat_alt)
  then have "unat b = 48 + (unat b - 48)" "unat b - 48 < 16"
    by simp_all
  then have "unat b mod 16 = (48 + (unat b - 48)) mod 16"
    by simp
  also have "\<dots> = (unat b - 48) mod 16"
    by (simp add: mod_simps mod_add_eq flip: mod_add_left_eq)
  finally show ?thesis
    using \<open>unat b - 48 < 16\<close> by simp
qed

lemma digit_nibble_le: "is_digit b \<Longrightarrow> unat b mod 16 \<le> 9"
  by (simp add: digit_nibble) (auto simp: is_digit_def word_le_nat_alt)

lemma digits_simps [simp]:
  "digits []"
  "digits (b # bs) \<longleftrightarrow> is_digit b \<and> digits bs"
  "digits (xs @ ys) \<longleftrightarrow> digits xs \<and> digits ys"
  by (simp_all add: digits_def)

lemma digits_take [simp]: "digits bs \<Longrightarrow> digits (take n bs)"
  by (metis append_take_drop_id digits_simps(3))

lemma digits_drop [simp]: "digits bs \<Longrightarrow> digits (drop n bs)"
  by (metis append_take_drop_id digits_simps(3))

lemma dec_value_less: "digits bs \<Longrightarrow> dec_value bs < 10 ^ length bs"
proof (induction bs)
  case (Cons b bs)
  then have "unat b mod 16 \<le> 9" and IH: "dec_value bs < 10 ^ length bs"
    by (simp_all add: digit_nibble_le)
  then have "unat b mod 16 * 10 ^ length bs \<le> 9 * 10 ^ length bs"
    by (intro mult_le_mono1)
  with IH have "unat b mod 16 * 10 ^ length bs + dec_value bs < 9 * 10 ^ length bs + 10 ^ length bs"
    by linarith
  then show ?case
    by (simp add: dec_value_Cons)
qed simp

lemma dec_value_replicate_zero [simp]: "dec_value (replicate n 48) = 0"
  by (induction n) (simp_all add: dec_value_Cons)

lemma digits_replicate_zero [simp]: "digits (replicate n 48)"
  by (induction n) (simp_all add: is_digit_def)

end
