(* ===== verification/Swar.thy ===== *)
theory Swar
  imports Jeed_Base
begin

text \<open>
  \<open>crates/jeed-convert/src/decimal_core\<close>: digit checks, digit folding and point removal on a
  whole machine word at a time (SWAR), and the checked conversions built from them. The lemmas
  give each routine its meaning on the byte string it was loaded from: the folds compute
  \<open>dec_value\<close>, and the digit check accepts exactly the strings characterised by \<open>swar_accepts\<close>.
\<close>

subsection \<open>Errors (error.rs)\<close>

datatype parse_err =
    Empty | InvalidDigit | Overflow | NegOverflow | UnsignedNotAllowed | InvalidPointIndex
  | InvalidPointLocation | InvalidLength | DivideByZero | Precision

type_synonym 'a parsed = "(parse_err, 'a) res"

subsection \<open>Loading bytes (le\_bytes.rs)\<close>

text \<open>
  A shorter input is padded with zero bytes in front. A longer one fails the \<open>assert!\<close>.
\<close>

definition pad_front :: "nat \<Rightarrow> u8 \<Rightarrow> bytes \<Rightarrow> bytes" where
  "pad_front n c input = replicate (n - length input) c @ input"

definition le_bytes_to_u128 :: "bytes \<Rightarrow> u128 parsed" where
  "le_bytes_to_u128 input =
     (if length input \<le> 16 then Inr (from_le_bytes (pad_front 16 0 input)) else Inl Panic)"

definition le_bytes_to_u64 :: "bytes \<Rightarrow> u64 parsed" where
  "le_bytes_to_u64 input =
     (if length input \<le> 8 then Inr (from_le_bytes (pad_front 8 0 input)) else Inl Panic)"

definition le_bytes_to_u32 :: "bytes \<Rightarrow> u32 parsed" where
  "le_bytes_to_u32 input =
     (if length input \<le> 4 then Inr (from_le_bytes (pad_front 4 0 input)) else Inl Panic)"

definition le_bytes_to_u16 :: "bytes \<Rightarrow> u16 parsed" where
  "le_bytes_to_u16 input =
     (if length input \<le> 2 then Inr (from_le_bytes (pad_front 2 0 input)) else Inl Panic)"

subsection \<open>Folding digits (bcd.rs)\<close>

definition two_to_u16_decimal :: "u16 \<Rightarrow> u16" where
  "two_to_u16_decimal chunk = drop_bit 8 (chunk AND 0x0f00) + (chunk AND 0x000f) * 10"

definition four_to_u32 :: "u32 \<Rightarrow> u32" where
  "four_to_u32 chunk0 =
     (let lower_digits = drop_bit 8 (chunk0 AND 0x0f000f00);
          upper_digits = (chunk0 AND 0x000f000f) * 10;
          chunk1 = lower_digits + upper_digits;
          lower_digits = drop_bit 16 (chunk1 AND 0x00ff0000);
          upper_digits = (chunk1 AND 0x000000ff) * 100
      in lower_digits + upper_digits)"

definition eight_to_u64 :: "u64 \<Rightarrow> u64" where
  "eight_to_u64 chunk0 =
     (let lower_digits = drop_bit 8 (chunk0 AND 0x0f000f000f000f00);
          upper_digits = (chunk0 AND 0x000f000f000f000f) * 10;
          chunk1 = lower_digits + upper_digits;
          lower_digits = drop_bit 16 (chunk1 AND 0x00ff000000ff0000);
          upper_digits = (chunk1 AND 0x000000ff000000ff) * 100;
          chunk2 = lower_digits + upper_digits;
          lower_digits = drop_bit 32 (chunk2 AND 0x0000ffff00000000);
          upper_digits = (chunk2 AND 0x000000000000ffff) * 10000
      in lower_digits + upper_digits)"

definition sixteen_to_u128 :: "u128 \<Rightarrow> u128" where
  "sixteen_to_u128 chunk0 =
     (let lower_digits = drop_bit 8 (chunk0 AND 0x0f000f000f000f000f000f000f000f00);
          upper_digits = (chunk0 AND 0x000f000f000f000f000f000f000f000f) * 10;
          chunk1 = lower_digits + upper_digits;
          lower_digits = drop_bit 16 (chunk1 AND 0x00ff000000ff000000ff000000ff0000);
          upper_digits = (chunk1 AND 0x000000ff000000ff000000ff000000ff) * 100;
          chunk2 = lower_digits + upper_digits;
          lower_digits = drop_bit 32 (chunk2 AND 0x0000ffff000000000000ffff00000000);
          upper_digits = (chunk2 AND 0x000000000000ffff000000000000ffff) * 10000;
          chunk3 = lower_digits + upper_digits;
          lower_digits = drop_bit 64 (chunk3 AND 0x00000000ffffffff0000000000000000);
          upper_digits = (chunk3 AND 0x000000000000000000000000ffffffff) * 100000000
      in lower_digits + upper_digits)"

subsection \<open>Checking digits (check.rs)\<close>

definition check_decimal_bit_u16_optimal :: "u16 \<Rightarrow> bool" where
  "check_decimal_bit_u16_optimal chunk \<longleftrightarrow>
     (let not_above = chunk - 0x3A3A; not_below = 0x2F2F - chunk
      in not_above AND not_below AND 0x8080 = 0x8080)"

definition check_decimal_bit_u32_optimal :: "u32 \<Rightarrow> bool" where
  "check_decimal_bit_u32_optimal chunk \<longleftrightarrow>
     (let not_above = chunk - 0x3A3A3A3A; not_below = 0x2F2F2F2F - chunk
      in not_above AND not_below AND 0x80808080 = 0x80808080)"

definition check_decimal_bit_u64_optimal :: "u64 \<Rightarrow> bool" where
  "check_decimal_bit_u64_optimal chunk \<longleftrightarrow>
     (let not_above = chunk - 0x3A3A3A3A3A3A3A3A; not_below = 0x2F2F2F2F2F2F2F2F - chunk
      in not_above AND not_below AND 0x8080808080808080 = 0x8080808080808080)"

definition check_decimal_bit_u128_optimal :: "u128 \<Rightarrow> bool" where
  "check_decimal_bit_u128_optimal chunk \<longleftrightarrow>
     (let not_above = chunk - 0x3A3A3A3A3A3A3A3A3A3A3A3A3A3A3A3A;
          not_below = 0x2F2F2F2F2F2F2F2F2F2F2F2F2F2F2F2F - chunk
      in not_above AND not_below AND 0x80808080808080808080808080808080
         = 0x80808080808080808080808080808080)"

subsection \<open>Checked conversions (checked\_conversion.rs)\<close>

definition checked_conversion_u8 :: "bytes \<Rightarrow> u8 parsed" where
  "checked_conversion_u8 input =
     (case input of
        [] \<Rightarrow> Inl (Err Empty)
      | byte # _ \<Rightarrow>
          if 0x30 \<le> byte \<and> byte \<le> 0x39 then Inr (byte - 0x30) else Inl (Err InvalidDigit))"

definition checked_conversion_u16 :: "bytes \<Rightarrow> u16 parsed" where
  "checked_conversion_u16 input =
     and_then (le_bytes_to_u16 input) (\<lambda>chunk.
       if check_decimal_bit_u16_optimal chunk then Inr (two_to_u16_decimal chunk)
       else Inl (Err InvalidDigit))"

definition checked_conversion_u32 :: "bytes \<Rightarrow> u32 parsed" where
  "checked_conversion_u32 input =
     and_then (le_bytes_to_u32 input) (\<lambda>chunk.
       if check_decimal_bit_u32_optimal chunk then Inr (four_to_u32 chunk)
       else Inl (Err InvalidDigit))"

definition checked_conversion_u64 :: "bytes \<Rightarrow> u64 parsed" where
  "checked_conversion_u64 input =
     and_then (le_bytes_to_u64 input) (\<lambda>chunk.
       if check_decimal_bit_u64_optimal chunk then Inr (eight_to_u64 chunk)
       else Inl (Err InvalidDigit))"

definition checked_conversion_u128 :: "bytes \<Rightarrow> u128 parsed" where
  "checked_conversion_u128 input =
     and_then (le_bytes_to_u128 input) (\<lambda>chunk.
       if check_decimal_bit_u128_optimal chunk then Inr (sixteen_to_u128 chunk)
       else Inl (Err InvalidDigit))"

subsection \<open>Lanes: a word as a sequence of fields of \<open>k\<close> bits\<close>

text \<open>
  \<open>lane k a x\<close> is the number whose low \<open>k\<close> bits are \<open>a\<close> and whose other bits are \<open>x\<close>. It is kept
  folded, so that the masks and shifts of the source act on it field by field.
\<close>

definition lane :: "nat \<Rightarrow> nat \<Rightarrow> nat \<Rightarrow> nat" where
  "lane k a x = a + 2 ^ k * x"

lemma small_nat_bit: "a < 2 ^ k \<Longrightarrow> k \<le> n \<Longrightarrow> \<not> bit (a :: nat) n"
  by (metis bit_take_bit_iff not_less take_bit_nat_eq_self)

lemma bit_lane: "a < 2 ^ k \<Longrightarrow> bit (lane k a x) n \<longleftrightarrow> (if n < k then bit a n else bit x (n - k))"
proof -
  assume a: "a < 2 ^ k"
  have "lane k a x = a OR push_bit k x"
    unfolding lane_def push_bit_eq_mult mult.commute [of "2 ^ k"]
    by (rule disjunctive_add)
      (use small_nat_bit [OF a] in \<open>auto simp: bit_push_bit_iff simp flip: push_bit_eq_mult\<close>)
  then show ?thesis
    using small_nat_bit [OF a] by (auto simp: bit_or_iff bit_push_bit_iff)
qed

lemma and_less: "a < 2 ^ k \<Longrightarrow> a AND m < (2 ^ k :: nat)"
proof -
  assume a: "a < 2 ^ k"
  have "take_bit k (a AND m) = a AND m"
    by (rule bit_eqI) (use small_nat_bit [OF a] in \<open>auto simp: bit_take_bit_iff bit_and_iff not_le [symmetric]\<close>)
  then show ?thesis
    by (metis take_bit_nat_less_exp)
qed

lemma lane_and:
  assumes "a < 2 ^ k"
  shows "lane k a x AND m = lane k (a AND m mod 2 ^ k) (x AND m div 2 ^ k)"
proof (rule bit_eqI)
  fix n
  have "m div 2 ^ k = drop_bit k m" "m mod 2 ^ k = take_bit k m"
    by (simp_all add: drop_bit_eq_div take_bit_eq_mod)
  then show "bit (lane k a x AND m) n \<longleftrightarrow> bit (lane k (a AND m mod 2 ^ k) (x AND m div 2 ^ k)) n"
    using assms by (auto simp: bit_and_iff bit_lane and_less bit_take_bit_iff bit_drop_bit_eq)
qed

lemma lane_div [simp]: "a < 2 ^ k \<Longrightarrow> lane k a x div 2 ^ k = x"
  by (simp add: lane_def)

lemma lane_mod: "a < 2 ^ k \<Longrightarrow> lane k a x mod 2 ^ k = a"
  by (simp add: lane_def)

lemma lane_add: "lane k a x + lane k b y = lane k (a + b) (x + y)"
  by (simp add: lane_def algebra_simps)

lemma lane_mult: "lane k a x * c = lane k (a * c) (x * c)"
  by (simp add: lane_def algebra_simps)

lemma lane_zero [simp]: "lane k a 0 = a"
  by (simp add: lane_def)

lemma lane_less: "a < 2 ^ k \<Longrightarrow> x < 2 ^ l \<Longrightarrow> lane k a x < 2 ^ (k + l)"
proof -
  assume a: "a < 2 ^ k" and x: "x < 2 ^ l"
  have "lane k a x < 2 ^ k * (1 + x)"
    using a by (simp add: lane_def)
  also have "\<dots> \<le> 2 ^ k * 2 ^ l"
    using x by (intro mult_le_mono2) simp
  finally show ?thesis
    by (simp add: power_add)
qed

lemma le_val_lane: "le_val (b # bs) = lane 8 (unat b) (le_val bs)"
  by (simp add: lane_def)

text \<open>Constant masks on a single field, and bounds of a lane.\<close>

lemma field_mask:
  "(x :: nat) < 256 \<Longrightarrow> x AND 15 = x mod 16"
  "x < 256 \<Longrightarrow> x AND 255 = x"
  "x < 65536 \<Longrightarrow> x AND 65535 = x"
  "x < 4294967296 \<Longrightarrow> x AND 4294967295 = x"
  using take_bit_eq_mask [of 4 x] take_bit_eq_mask [of 8 x] take_bit_eq_mask [of 16 x]
    take_bit_eq_mask [of 32 x]
  by (simp_all add: take_bit_eq_mod mask_eq_exp_minus_1)

lemma lane_lessI: "a < 2 ^ k \<Longrightarrow> x < N div 2 ^ k \<Longrightarrow> lane k a x < N"
proof -
  assume a: "a < 2 ^ k" and x: "x < N div 2 ^ k"
  have "lane k a x < 2 ^ k * Suc x"
    using a by (simp add: lane_def)
  also have "\<dots> \<le> 2 ^ k * (N div 2 ^ k)"
    using x by (intro mult_le_mono2) simp
  also have "\<dots> \<le> N"
    by simp
  finally show ?thesis .
qed

lemma lane_shift:
  "a < 256 \<Longrightarrow> lane 8 a x div 256 = x"
  "a < 65536 \<Longrightarrow> lane 16 a x div 65536 = x"
  "a < 4294967296 \<Longrightarrow> lane 32 a x div 4294967296 = x"
  "a < 18446744073709551616 \<Longrightarrow> lane 64 a x div 18446744073709551616 = x"
  by (simp_all add: lane_def)

lemma lane_double:
  "lane 8 a (lane 8 0 x) = lane 16 a x"
  "lane 16 a (lane 16 0 x) = lane 32 a x"
  "lane 32 a (lane 32 0 x) = lane 64 a x"
  by (simp_all add: lane_def)

lemmas lane_ops = lane_and lane_add lane_mult lane_lessI lane_shift lane_double field_mask

text \<open>The word operations of the source, on words given by a natural number.\<close>

lemma drop_bit_word_of_nat:
  "n < 2 ^ LENGTH('a) \<Longrightarrow> drop_bit k (word_of_nat n :: 'a::len word) = word_of_nat (n div 2 ^ k)"
proof -
  assume n: "n < 2 ^ LENGTH('a)"
  then have "n div 2 ^ k < 2 ^ LENGTH('a)"
    by (rule order.strict_trans1 [OF div_le_dividend])
  with n show ?thesis
    by (simp add: word_unat_eq_iff unat_drop_bit_eq unat_of_nat take_bit_nat_eq_self)
      (simp add: drop_bit_eq_div)
qed

lemma numeral_word_of_nat: "(numeral m :: 'a::len word) = word_of_nat (numeral m)"
  by simp

lemma and_numeral_word_of_nat:
  "(word_of_nat n :: 'a::len word) AND numeral m = word_of_nat (n AND numeral m)"
proof -
  have "(numeral m :: 'a word) = word_of_nat (numeral m)"
    by simp
  then show ?thesis
    by (simp only: of_nat_and_eq)
qed

lemma mult_numeral_word_of_nat:
  "(word_of_nat n :: 'a::len word) * numeral m = word_of_nat (n * numeral m)"
  by simp

lemma add_word_of_nat: "(word_of_nat m :: 'a::len word) + word_of_nat n = word_of_nat (m + n)"
  by simp

lemmas word_of_nat_ops =
  drop_bit_word_of_nat and_numeral_word_of_nat mult_numeral_word_of_nat add_word_of_nat

subsection \<open>The folds compute the decimal value\<close>





lemma le_list2: "length bs = 2 \<Longrightarrow> \<exists>a b. bs = [a, b]"
  by (auto simp: numeral_eq_Suc length_Suc_conv)

lemma le_list4: "length bs = 4 \<Longrightarrow> \<exists>a b c d. bs = [a, b, c, d]"
  by (auto simp: numeral_eq_Suc length_Suc_conv)

lemma le_list8: "length bs = 8 \<Longrightarrow> \<exists>a b c d e f g h. bs = [a, b, c, d, e, f, g, h]"
  by (auto simp: numeral_eq_Suc length_Suc_conv)

lemma le_list16:
  "length bs = 16 \<Longrightarrow>
   \<exists>a b c d e f g h i j k l m n p q. bs = [a, b, c, d, e, f, g, h, i, j, k, l, m, n, p, q]"
  by (auto simp: numeral_eq_Suc length_Suc_conv)

lemmas swar_eval = from_le_bytes_def le_val_lane dec_value_Cons Let_def word_of_nat_ops lane_ops

lemma two_to_u16_decimal_value:
  assumes "length bs = 2"
  shows "two_to_u16_decimal (from_le_bytes bs) = word_of_nat (dec_value bs)"
proof -
  obtain a b where bs: "bs = [a, b]"
    using le_list2 [OF assms] by blast
  show ?thesis
    by (simp add: bs two_to_u16_decimal_def swar_eval del: of_nat_add of_nat_mult le_val.simps(2))
      (simp add: algebra_simps)
qed

lemma four_to_u32_value:
  assumes "length bs = 4"
  shows "four_to_u32 (from_le_bytes bs) = word_of_nat (dec_value bs)"
proof -
  obtain a b c d where bs: "bs = [a, b, c, d]"
    using le_list4 [OF assms] by blast
  show ?thesis
    by (simp add: bs four_to_u32_def swar_eval del: of_nat_add of_nat_mult le_val.simps(2))
      (simp add: algebra_simps)
qed

lemma eight_to_u64_value:
  assumes "length bs = 8"
  shows "eight_to_u64 (from_le_bytes bs) = word_of_nat (dec_value bs)"
proof -
  obtain a b c d e f g h where bs: "bs = [a, b, c, d, e, f, g, h]"
    using le_list8 [OF assms] by blast
  show ?thesis
    by (simp add: bs eight_to_u64_def swar_eval del: of_nat_add of_nat_mult le_val.simps(2))
      (simp add: algebra_simps)
qed

lemma sixteen_to_u128_value:
  assumes "length bs = 16"
  shows "sixteen_to_u128 (from_le_bytes bs) = word_of_nat (dec_value bs)"
proof -
  obtain a b c d e f g h i j k l m n p q
    where bs: "bs = [a, b, c, d, e, f, g, h, i, j, k, l, m, n, p, q]"
    using le_list16 [OF assms] by blast
  show ?thesis
    by (simp add: bs sixteen_to_u128_def swar_eval del: of_nat_add of_nat_mult le_val.simps(2))
      (simp add: algebra_simps)
qed

subsection \<open>What the digit check accepts\<close>

text \<open>
  The check subtracts whole words, and the borrow of the first byte reaches every later one. So it
  accepts exactly the strings whose first byte is a digit and whose other bytes are between
  \<open>'/'\<close> (0x2F) and \<open>':'\<close> (0x3A): one code point too many on each side.
\<close>

fun swar_accepts :: "bytes \<Rightarrow> bool" where
  "swar_accepts [] \<longleftrightarrow> True"
| "swar_accepts (b # bs) \<longleftrightarrow> is_digit b \<and> list_all (\<lambda>c. 0x2F \<le> c \<and> c \<le> 0x3A) bs"

text \<open>
  \<open>rep c n\<close> is the number with \<open>n\<close> bytes \<open>c\<close>; \<open>tops n x\<close> says that the top bit of each of the
  low \<open>n\<close> bytes of \<open>x\<close> is set. Both recurse byte by byte, which carries the borrow.
\<close>

fun rep :: "int \<Rightarrow> nat \<Rightarrow> int" where
  "rep c 0 = 0"
| "rep c (Suc n) = c + 256 * rep c n"

definition tops :: "nat \<Rightarrow> int \<Rightarrow> bool" where
  "tops n x \<longleftrightarrow> (\<forall>i<n. bit x (8 * i + 7))"

lemma tops_0 [simp]: "tops 0 x"
  by (simp add: tops_def)

lemma bit_shift_byte: "bit (x :: int) (8 + n) \<longleftrightarrow> bit (x div 256) n"
  using bit_drop_bit_eq [of 8 x] by (simp add: drop_bit_eq_div)

lemma tops_Suc:
  assumes "0 \<le> r" "r < 256"
  shows "tops (Suc n) (r + 256 * x) \<longleftrightarrow> 128 \<le> r \<and> tops n x"
proof -
  have "(r + 256 * x) div 128 = r div 128 + 2 * x"
    using div_mult_self2 [of 128 r "2 * x"] by simp
  moreover have "r div 128 = (if 128 \<le> r then 1 else 0)"
    using assms by (auto simp: div_pos_pos_trivial intro: int_div_pos_eq [where r = "r - 128"])
  ultimately have "bit (r + 256 * x) 7 \<longleftrightarrow> 128 \<le> r"
    by (simp add: bit_iff_odd)
  moreover have "bit (r + 256 * x) (8 * Suc i + 7) \<longleftrightarrow> bit x (8 * i + 7)" for i
    using bit_shift_byte [of "r + 256 * x" "8 * i + 7"] assms by simp
  ultimately show ?thesis
    by (auto simp: tops_def All_less_Suc2)
qed

lemma bit_rep_128: "bit (rep 128 n) j \<longleftrightarrow> j < 8 * n \<and> j mod 8 = 7"
proof (induction n arbitrary: j)
  case (Suc n)
  show ?case
  proof (cases "j < 8")
    case True
    have "bit (rep 128 (Suc n)) j \<longleftrightarrow> bit (take_bit 8 (rep 128 (Suc n))) j"
      using True by (simp add: bit_take_bit_iff)
    also have "take_bit 8 (rep 128 (Suc n)) = 2 ^ 7"
      by (simp add: take_bit_eq_mod)
    finally show ?thesis
      using True bit_exp_iff [of 7 j, where 'a = int] by auto
  next
    case False
    then obtain k where k: "j = 8 + k"
      by (metis le_Suc_ex not_less)
    show ?thesis
      using Suc.IH [of k] by (simp add: k bit_shift_byte)
  qed
qed simp

lemma and_rep_128:
  assumes "LENGTH('a::len) = 8 * n"
  shows "(word_of_int x :: 'a word) AND word_of_int y AND word_of_int (rep 128 n)
           = word_of_int (rep 128 n) \<longleftrightarrow> tops n x \<and> tops n y"
proof -
  have "(word_of_int x :: 'a word) AND word_of_int y AND word_of_int (rep 128 n) = word_of_int (rep 128 n)
    \<longleftrightarrow> (\<forall>j<8 * n. j mod 8 = 7 \<longrightarrow> bit x j \<and> bit y j)"
    unfolding bit_eq_iff [where 'a = "'a word"] using assms by (auto simp: bit_and_iff bit_word_of_int_iff bit_rep_128)
  also have "\<dots> \<longleftrightarrow> (\<forall>i<n. bit x (8 * i + 7) \<and> bit y (8 * i + 7))"
  proof -
    have "\<exists>i<n. j = 8 * i + 7" if "j < 8 * n" "j mod 8 = 7" for j
      using that div_mult_mod_eq [of j 8] by (intro exI [of _ "j div 8"]) linarith
    then show ?thesis
      by fastforce
  qed
  finally show ?thesis
    by (auto simp: tops_def)
qed

text \<open>
  One byte of a subtraction: \<open>byte_above\<close> for \<open>value - 0x3A\<dots>\<close> and \<open>byte_below\<close> for
  \<open>0x2F\<dots> - value\<close>, with borrow \<open>c\<close> coming in and borrow \<open>d\<close> going out.
\<close>

lemma byte_above:
  assumes x: "x = int (unat b)"
    and "0 \<le> x - 58 - c + 256 * d" "x - 58 - c + 256 * d < 256"
  shows "tops (Suc n) (int (le_val (b # bs)) - rep 58 (Suc n) - c) \<longleftrightarrow>
         128 \<le> x - 58 - c + 256 * d \<and> tops n (int (le_val bs) - rep 58 n - d)"
proof -
  have "int (le_val (b # bs)) - rep 58 (Suc n) - c
      = (x - 58 - c + 256 * d) + 256 * (int (le_val bs) - rep 58 n - d)"
    by (simp add: x)
  then show ?thesis
    using tops_Suc [OF assms(2,3)] by metis
qed

lemma byte_below:
  assumes x: "x = int (unat b)"
    and "0 \<le> 47 - x - c + 256 * d" "47 - x - c + 256 * d < 256"
  shows "tops (Suc n) (rep 47 (Suc n) - int (le_val (b # bs)) - c) \<longleftrightarrow>
         128 \<le> 47 - x - c + 256 * d \<and> tops n (rep 47 n - int (le_val bs) - d)"
proof -
  have "rep 47 (Suc n) - int (le_val (b # bs)) - c
      = (47 - x - c + 256 * d) + 256 * (rep 47 n - int (le_val bs) - d)"
    by (simp add: x)
  then show ?thesis
    using tops_Suc [OF assms(2,3)] by metis
qed

text \<open>
  One byte of both: they go on with a borrow exactly on \<open>'0' - c\<close> .. \<open>'9' + c\<close>, else one of them fails.
\<close>

lemma byte_both:
  assumes x: "x = int (unat b)" and c: "c = 0 \<or> c = 1"
  shows "tops (Suc n) (int (le_val (b # bs)) - rep 58 (Suc n) - c) \<and>
         tops (Suc n) (rep 47 (Suc n) - int (le_val (b # bs)) - c) \<longleftrightarrow>
         (48 - c \<le> x \<and> x \<le> 57 + c) \<and>
         tops n (int (le_val bs) - rep 58 n - 1) \<and> tops n (rep 47 n - int (le_val bs) - 1)"
proof -
  have b: "0 \<le> x" "x < 256"
    using unsigned_less [where 'a = int, of b] by (simp_all add: x)
  consider "48 - c \<le> x" "x \<le> 57 + c" | "x < 48 - c" | "57 + c < x" "x < 186 + c" | "186 + c \<le> x"
    by linarith
  then show ?thesis
  proof cases
    case 1
    then show ?thesis
      using c b byte_above [OF x, of c 1 n bs] byte_below [OF x, of c 1 n bs]
      by (auto simp del: le_val.simps rep.simps)
  next
    case 2
    then show ?thesis
      using c b byte_below [OF x, of c 0 n bs] by (auto simp del: le_val.simps rep.simps)
  next
    case 3
    then show ?thesis
      using c b byte_above [OF x, of c 0 n bs] by (auto simp del: le_val.simps rep.simps)
  next
    case 4
    then show ?thesis
      using c b byte_below [OF x, of c 1 n bs] by (auto simp del: le_val.simps rep.simps)
  qed
qed

lemma tops_borrow:
  "tops (length bs) (int (le_val bs) - rep 58 (length bs) - 1) \<and>
   tops (length bs) (rep 47 (length bs) - int (le_val bs) - 1) \<longleftrightarrow>
   list_all (\<lambda>c. 0x2F \<le> c \<and> c \<le> 0x3A) bs"
proof (induction bs)
  case (Cons b bs)
  have "0x2F \<le> b \<and> b \<le> 0x3A \<longleftrightarrow> 47 \<le> int (unat b) \<and> int (unat b) \<le> 58"
    by (simp add: word_le_def)
  then show ?case
    using byte_both [OF refl, of 1 "length bs" b bs] Cons.IH by simp
qed simp

lemma tops_no_borrow:
  "tops (length bs) (int (le_val bs) - rep 58 (length bs)) \<and>
   tops (length bs) (rep 47 (length bs) - int (le_val bs)) \<longleftrightarrow> swar_accepts bs"
proof (cases bs)
  case (Cons b cs)
  have "is_digit b \<longleftrightarrow> 48 \<le> int (unat b) \<and> int (unat b) \<le> 57"
    by (simp add: is_digit_def word_le_def)
  then show ?thesis
    using byte_both [OF refl, of 0 "length cs" b cs] tops_borrow [of cs] by (simp add: Cons)
qed simp

lemma swar_check:
  assumes "LENGTH('a::len) = 8 * length bs"
  shows "((from_le_bytes bs :: 'a word) - word_of_int (rep 58 (length bs)))
           AND (word_of_int (rep 47 (length bs)) - from_le_bytes bs)
           AND word_of_int (rep 128 (length bs)) = word_of_int (rep 128 (length bs))
         \<longleftrightarrow> swar_accepts bs"
proof -
  have "(from_le_bytes bs :: 'a word) = word_of_int (int (le_val bs))"
    by (simp add: from_le_bytes_def)
  then show ?thesis
    using and_rep_128 [OF assms, of "int (le_val bs) - rep 58 (length bs)"
        "rep 47 (length bs) - int (le_val bs)"] tops_no_borrow [of bs]
    by simp
qed

lemma rep_Suc_numeral: "rep c (numeral k) = c + 256 * rep c (pred_numeral k)"
  by (simp add: numeral_eq_Suc)

lemma rep_values:
  "rep 58 2 = 0x3A3A" "rep 47 2 = 0x2F2F" "rep 128 2 = 0x8080"
  "rep 58 4 = 0x3A3A3A3A" "rep 47 4 = 0x2F2F2F2F" "rep 128 4 = 0x80808080"
  "rep 58 8 = 0x3A3A3A3A3A3A3A3A" "rep 47 8 = 0x2F2F2F2F2F2F2F2F" "rep 128 8 = 0x8080808080808080"
  "rep 58 16 = 0x3A3A3A3A3A3A3A3A3A3A3A3A3A3A3A3A"
  "rep 47 16 = 0x2F2F2F2F2F2F2F2F2F2F2F2F2F2F2F2F"
  "rep 128 16 = 0x80808080808080808080808080808080"
  by (simp_all add: rep_Suc_numeral)

lemma check_u16_iff:
  "length bs = 2 \<Longrightarrow> check_decimal_bit_u16_optimal (from_le_bytes bs) \<longleftrightarrow> swar_accepts bs"
  using swar_check [where 'a = 16, of bs]
  by (simp add: check_decimal_bit_u16_optimal_def rep_values)

lemma check_u32_iff:
  "length bs = 4 \<Longrightarrow> check_decimal_bit_u32_optimal (from_le_bytes bs) \<longleftrightarrow> swar_accepts bs"
  using swar_check [where 'a = 32, of bs]
  by (simp add: check_decimal_bit_u32_optimal_def rep_values)

lemma check_u64_iff:
  "length bs = 8 \<Longrightarrow> check_decimal_bit_u64_optimal (from_le_bytes bs) \<longleftrightarrow> swar_accepts bs"
  using swar_check [where 'a = 64, of bs]
  by (simp add: check_decimal_bit_u64_optimal_def rep_values)

lemma check_u128_iff:
  "length bs = 16 \<Longrightarrow> check_decimal_bit_u128_optimal (from_le_bytes bs) \<longleftrightarrow> swar_accepts bs"
  using swar_check [where 'a = 128, of bs]
  by (simp add: check_decimal_bit_u128_optimal_def rep_values)

subsection \<open>The checked conversions\<close>

lemma digit_accepted: "is_digit b \<Longrightarrow> 0x2F \<le> b \<and> b \<le> 0x3A"
  by (simp add: is_digit_def word_le_nat_alt)

lemma digits_accepted: "digits bs \<Longrightarrow> swar_accepts bs"
  by (cases bs) (auto simp: digits_def list_all_iff digit_accepted)

lemma pad_front_id [simp]: "length bs = n \<Longrightarrow> pad_front n c bs = bs"
  by (simp add: pad_front_def)

lemma checked_conversion_u8_eq:
  assumes "length u = 1"
  shows "checked_conversion_u8 u =
           (if swar_accepts u then Inr (word_of_nat (dec_value u)) else Inl (Err InvalidDigit))"
proof -
  obtain b where u: "u = [b]"
    using assms by (auto simp: length_Suc_conv)
  have "b - 0x30 = word_of_nat (unat b - 48)" if "is_digit b"
    using that by (simp add: is_digit_def word_le_nat_alt word_unat_eq_iff unat_sub unat_of_nat
      take_bit_nat_eq_self)
  then show ?thesis
    by (simp add: u checked_conversion_u8_def dec_value_Cons digit_nibble flip: is_digit_def)
qed

lemma checked_conversion_u16_eq:
  "length u = 2 \<Longrightarrow> checked_conversion_u16 u =
     (if swar_accepts u then Inr (word_of_nat (dec_value u)) else Inl (Err InvalidDigit))"
  by (simp add: checked_conversion_u16_def le_bytes_to_u16_def check_u16_iff two_to_u16_decimal_value)

lemma checked_conversion_u32_eq:
  "length u = 4 \<Longrightarrow> checked_conversion_u32 u =
     (if swar_accepts u then Inr (word_of_nat (dec_value u)) else Inl (Err InvalidDigit))"
  by (simp add: checked_conversion_u32_def le_bytes_to_u32_def check_u32_iff four_to_u32_value)

lemma checked_conversion_u64_eq:
  "length u = 8 \<Longrightarrow> checked_conversion_u64 u =
     (if swar_accepts u then Inr (word_of_nat (dec_value u)) else Inl (Err InvalidDigit))"
  by (simp add: checked_conversion_u64_def le_bytes_to_u64_def check_u64_iff eight_to_u64_value)

lemma checked_conversion_u128_eq:
  "length u = 16 \<Longrightarrow> checked_conversion_u128 u =
     (if swar_accepts u then Inr (word_of_nat (dec_value u)) else Inl (Err InvalidDigit))"
  by (simp add: checked_conversion_u128_def le_bytes_to_u128_def check_u128_iff sixteen_to_u128_value)

lemmas checked_conversion_eqs =
  checked_conversion_u8_eq checked_conversion_u16_eq checked_conversion_u32_eq
  checked_conversion_u64_eq checked_conversion_u128_eq

subsection \<open>What the checked conversions promise\<close>

text \<open>
  The word-at-a-time conversions are total on inputs of their width, never panic there, and
  agree with the digit-by-digit reading: a chunk whose first byte is a digit and whose other bytes
  lie between \<open>'/'\<close> and \<open>':'\<close> is converted to its decimal value (over the low nibbles), any
  other chunk is an invalid digit. On a string of digits this is the exact number.
\<close>

theorem checked_conversions_exact:
  "(length u = 1 \<longrightarrow> checked_conversion_u8 u =
      (if swar_accepts u then Inr (word_of_nat (dec_value u)) else Inl (Err InvalidDigit))) \<and>
   (length u = 2 \<longrightarrow> checked_conversion_u16 u =
      (if swar_accepts u then Inr (word_of_nat (dec_value u)) else Inl (Err InvalidDigit))) \<and>
   (length u = 4 \<longrightarrow> checked_conversion_u32 u =
      (if swar_accepts u then Inr (word_of_nat (dec_value u)) else Inl (Err InvalidDigit))) \<and>
   (length u = 8 \<longrightarrow> checked_conversion_u64 u =
      (if swar_accepts u then Inr (word_of_nat (dec_value u)) else Inl (Err InvalidDigit))) \<and>
   (length u = 16 \<longrightarrow> checked_conversion_u128 u =
      (if swar_accepts u then Inr (word_of_nat (dec_value u)) else Inl (Err InvalidDigit))) \<and>
   (digits u \<longrightarrow> swar_accepts u)"
  by (simp add: checked_conversion_eqs digits_accepted)

text \<open>"12345678" is converted, and so is "1:", to 20.\<close>

theorem checked_conversions_exact_witness:
  "checked_conversion_u64 [0x31, 0x32, 0x33, 0x34, 0x35, 0x36, 0x37, 0x38] = Inr 12345678 \<and>
   checked_conversion_u16 [0x31, 0x3A] = Inr 20"
  using checked_conversions_exact [of "[0x31, 0x32, 0x33, 0x34, 0x35, 0x36, 0x37, 0x38]"]
    checked_conversions_exact [of "[0x31, 0x3A]"]
  by (simp add: is_digit_def dec_value_Cons)

end
