(* ===== verification/Squeeze_Point.thy ===== *)
theory Squeeze_Point
  imports Swar
begin

text \<open>
  \<open>crates/jeed-convert/src/decimal_core/squeeze_point.rs\<close>: deleting the decimal point of a
  fixed-width field inside the machine word. \<open>squeeze_point_u64_bytes\<close> and its siblings say what
  the mask-and-shift does to the bytes, and when it refuses.
\<close>

subsection \<open>Removing the decimal point (squeeze\_point.rs)\<close>

definition POINT_LOCATION_MASK_U16 :: "u16 list" where
  "POINT_LOCATION_MASK_U16 =
     [0xFF00, 0x00FF]"

definition POINT_LOCATION_VALUE_U16 :: "u16 list" where
  "POINT_LOCATION_VALUE_U16 =
     [0x2E00, 0x002E]"

definition DECIMAL_MASK_U16 :: "u16 list" where
  "DECIMAL_MASK_U16 =
     [0x0000, 0x00FF]"

definition squeeze_point_u16 :: "u16 \<Rightarrow> nat \<Rightarrow> u16 parsed" where
  "squeeze_point_u16 chunk numeric_point_idx =
     (if numeric_point_idx \<ge> 2 then Inl (Err InvalidPointIndex)
      else if chunk AND POINT_LOCATION_MASK_U16 ! numeric_point_idx
              = POINT_LOCATION_VALUE_U16 ! numeric_point_idx
      then Inl (Err InvalidPointLocation)
      else
        let decimal_mask = DECIMAL_MASK_U16 ! numeric_point_idx;
            fraction_mask = push_bit 8 (NOT decimal_mask);
            decimal_part = push_bit 8 (chunk AND decimal_mask);
            fraction_part = chunk AND fraction_mask
        in Inr (fraction_part + decimal_part + 0x30))"

definition POINT_LOCATION_MASK_U32 :: "u32 list" where
  "POINT_LOCATION_MASK_U32 =
     [0xFF000000, 0x00FF0000, 0x0000FF00, 0x000000FF]"

definition POINT_LOCATION_VALUE_U32 :: "u32 list" where
  "POINT_LOCATION_VALUE_U32 =
     [0x2E000000, 0x002E0000, 0x00002E00, 0x0000002E]"

definition DECIMAL_MASK_U32 :: "u32 list" where
  "DECIMAL_MASK_U32 =
     [0x00000000, 0x000000FF, 0x0000FFFF, 0x00FFFFFF]"

definition squeeze_point_u32 :: "u32 \<Rightarrow> nat \<Rightarrow> u32 parsed" where
  "squeeze_point_u32 chunk numeric_point_idx =
     (if numeric_point_idx \<ge> 4 then Inl (Err InvalidPointIndex)
      else if chunk AND POINT_LOCATION_MASK_U32 ! numeric_point_idx
              = POINT_LOCATION_VALUE_U32 ! numeric_point_idx
      then Inl (Err InvalidPointLocation)
      else
        let decimal_mask = DECIMAL_MASK_U32 ! numeric_point_idx;
            fraction_mask = push_bit 8 (NOT decimal_mask);
            decimal_part = push_bit 8 (chunk AND decimal_mask);
            fraction_part = chunk AND fraction_mask
        in Inr (fraction_part + decimal_part + 0x30))"

definition POINT_LOCATION_MASK_U64 :: "u64 list" where
  "POINT_LOCATION_MASK_U64 =
     [0xFF00000000000000, 0x00FF000000000000, 0x0000FF0000000000, 0x000000FF00000000,
      0x00000000FF000000, 0x0000000000FF0000, 0x000000000000FF00, 0x00000000000000FF]"

definition POINT_LOCATION_VALUE_U64 :: "u64 list" where
  "POINT_LOCATION_VALUE_U64 =
     [0x2E00000000000000, 0x002E000000000000, 0x00002E0000000000, 0x0000002E00000000,
      0x000000002E000000, 0x00000000002E0000, 0x0000000000002E00, 0x000000000000002E]"

definition DECIMAL_MASK_U64 :: "u64 list" where
  "DECIMAL_MASK_U64 =
     [0x0000000000000000, 0x00000000000000FF, 0x000000000000FFFF, 0x0000000000FFFFFF,
      0x00000000FFFFFFFF, 0x000000FFFFFFFFFF, 0x0000FFFFFFFFFFFF, 0x00FFFFFFFFFFFFFF]"

definition squeeze_point_u64 :: "u64 \<Rightarrow> nat \<Rightarrow> u64 parsed" where
  "squeeze_point_u64 chunk numeric_point_idx =
     (if numeric_point_idx \<ge> 8 then Inl (Err InvalidPointIndex)
      else if chunk AND POINT_LOCATION_MASK_U64 ! numeric_point_idx
              = POINT_LOCATION_VALUE_U64 ! numeric_point_idx
      then Inl (Err InvalidPointLocation)
      else
        let decimal_mask = DECIMAL_MASK_U64 ! numeric_point_idx;
            fraction_mask = push_bit 8 (NOT decimal_mask);
            decimal_part = push_bit 8 (chunk AND decimal_mask);
            fraction_part = chunk AND fraction_mask
        in Inr (fraction_part + decimal_part + 0x30))"

definition POINT_LOCATION_MASK_U128 :: "u128 list" where
  "POINT_LOCATION_MASK_U128 =
     [0xFF000000000000000000000000000000, 0x00FF0000000000000000000000000000,
      0x0000FF00000000000000000000000000, 0x000000FF000000000000000000000000,
      0x00000000FF0000000000000000000000, 0x0000000000FF00000000000000000000,
      0x000000000000FF000000000000000000, 0x00000000000000FF0000000000000000,
      0x0000000000000000FF00000000000000, 0x000000000000000000FF000000000000,
      0x00000000000000000000FF0000000000, 0x0000000000000000000000FF00000000,
      0x000000000000000000000000FF000000, 0x00000000000000000000000000FF0000,
      0x0000000000000000000000000000FF00, 0x000000000000000000000000000000FF]"

definition POINT_LOCATION_VALUE_U128 :: "u128 list" where
  "POINT_LOCATION_VALUE_U128 =
     [0x2E000000000000000000000000000000, 0x002E0000000000000000000000000000,
      0x00002E00000000000000000000000000, 0x0000002E000000000000000000000000,
      0x000000002E0000000000000000000000, 0x00000000002E00000000000000000000,
      0x0000000000002E000000000000000000, 0x000000000000002E0000000000000000,
      0x00000000000000002E00000000000000, 0x0000000000000000002E000000000000,
      0x000000000000000000002E0000000000, 0x00000000000000000000002E00000000,
      0x0000000000000000000000002E000000, 0x000000000000000000000000002E0000,
      0x00000000000000000000000000002E00, 0x0000000000000000000000000000002E]"

definition DECIMAL_MASK_U128 :: "u128 list" where
  "DECIMAL_MASK_U128 =
     [0x00000000000000000000000000000000, 0x000000000000000000000000000000FF,
      0x0000000000000000000000000000FFFF, 0x00000000000000000000000000FFFFFF,
      0x000000000000000000000000FFFFFFFF, 0x0000000000000000000000FFFFFFFFFF,
      0x00000000000000000000FFFFFFFFFFFF, 0x000000000000000000FFFFFFFFFFFFFF,
      0x0000000000000000FFFFFFFFFFFFFFFF, 0x00000000000000FFFFFFFFFFFFFFFFFF,
      0x000000000000FFFFFFFFFFFFFFFFFFFF, 0x0000000000FFFFFFFFFFFFFFFFFFFFFF,
      0x00000000FFFFFFFFFFFFFFFFFFFFFFFF, 0x000000FFFFFFFFFFFFFFFFFFFFFFFFFF,
      0x0000FFFFFFFFFFFFFFFFFFFFFFFFFFFF, 0x00FFFFFFFFFFFFFFFFFFFFFFFFFFFFFF]"

definition squeeze_point_u128 :: "u128 \<Rightarrow> nat \<Rightarrow> u128 parsed" where
  "squeeze_point_u128 chunk numeric_point_idx =
     (if numeric_point_idx \<ge> 16 then Inl (Err InvalidPointIndex)
      else if chunk AND POINT_LOCATION_MASK_U128 ! numeric_point_idx
              = POINT_LOCATION_VALUE_U128 ! numeric_point_idx
      then Inl (Err InvalidPointLocation)
      else
        let decimal_mask = DECIMAL_MASK_U128 ! numeric_point_idx;
            fraction_mask = push_bit 8 (NOT decimal_mask);
            decimal_part = push_bit 8 (chunk AND decimal_mask);
            fraction_part = chunk AND fraction_mask
        in Inr (fraction_part + decimal_part + 0x30))"


subsection \<open>What point removal does to the bytes\<close>

lemma unat_from_le_mod: "unat (from_le_bytes bs :: 'a::len word) = le_val bs mod 2 ^ LENGTH('a)"
  by (simp add: from_le_bytes_def unat_of_nat take_bit_eq_mod)

lemma le_val_split: "p < length bs \<Longrightarrow>
  le_val bs = le_val (take p bs) + 256 ^ p * (unat (bs ! p) + 256 * le_val (drop (Suc p) bs))"
proof -
  assume p: "p < length bs"
  then have "le_val bs = le_val (take p bs @ bs ! p # drop (Suc p) bs)"
    by (simp flip: id_take_nth_drop)
  then show ?thesis
    using p by (simp add: le_val_append del: append_take_drop_id)
qed

lemma le_val_take_less: "p \<le> length bs \<Longrightarrow> le_val (take p bs) < 256 ^ p"
  using le_val_less [of "take p bs"] by simp

lemma le_val_mod: "p \<le> length bs \<Longrightarrow> le_val bs mod 256 ^ p = le_val (take p bs)"
proof -
  assume p: "p \<le> length bs"
  have "le_val bs = le_val (take p bs) + 256 ^ p * le_val (drop p bs)"
    using p le_val_append [of "take p bs" "drop p bs"] by simp
  then show ?thesis
    using le_val_take_less [OF p] by simp
qed

lemma le_val_div: "p \<le> length bs \<Longrightarrow> le_val bs div 256 ^ p = le_val (drop p bs)"
proof -
  assume p: "p \<le> length bs"
  have "le_val bs = le_val (take p bs) + 256 ^ p * le_val (drop p bs)"
    using p le_val_append [of "take p bs" "drop p bs"] by simp
  then show ?thesis
    using le_val_take_less [OF p] by simp
qed

lemma pow256: "(2::nat) ^ (8 * p) = 256 ^ p"
  by (simp add: power_mult)

text \<open>The constant tables are bit masks; entry \<open>i\<close> of the location tables is byte \<open>n - 1 - i\<close>.\<close>

lemma decimal_mask_tables:
  "DECIMAL_MASK_U16 = map (\<lambda>p. mask (8 * p)) [0..<2]"
  "DECIMAL_MASK_U32 = map (\<lambda>p. mask (8 * p)) [0..<4]"
  "DECIMAL_MASK_U64 = map (\<lambda>p. mask (8 * p)) [0..<8]"
  "DECIMAL_MASK_U128 = map (\<lambda>p. mask (8 * p)) [0..<16]"
  by (simp_all add: DECIMAL_MASK_U16_def DECIMAL_MASK_U32_def DECIMAL_MASK_U64_def
    DECIMAL_MASK_U128_def upt_rec mask_eq_exp_minus_1)

lemma point_location_tables:
  "POINT_LOCATION_MASK_U16 = map (\<lambda>p. push_bit (8 * (1 - p)) 255) [0..<2]"
  "POINT_LOCATION_VALUE_U16 = map (\<lambda>p. push_bit (8 * (1 - p)) 46) [0..<2]"
  "POINT_LOCATION_MASK_U32 = map (\<lambda>p. push_bit (8 * (3 - p)) 255) [0..<4]"
  "POINT_LOCATION_VALUE_U32 = map (\<lambda>p. push_bit (8 * (3 - p)) 46) [0..<4]"
  "POINT_LOCATION_MASK_U64 = map (\<lambda>p. push_bit (8 * (7 - p)) 255) [0..<8]"
  "POINT_LOCATION_VALUE_U64 = map (\<lambda>p. push_bit (8 * (7 - p)) 46) [0..<8]"
  "POINT_LOCATION_MASK_U128 = map (\<lambda>p. push_bit (8 * (15 - p)) 255) [0..<16]"
  "POINT_LOCATION_VALUE_U128 = map (\<lambda>p. push_bit (8 * (15 - p)) 46) [0..<16]"
  by (simp_all add: POINT_LOCATION_MASK_U16_def POINT_LOCATION_MASK_U32_def
    POINT_LOCATION_MASK_U64_def POINT_LOCATION_MASK_U128_def POINT_LOCATION_VALUE_U16_def
    POINT_LOCATION_VALUE_U32_def POINT_LOCATION_VALUE_U64_def POINT_LOCATION_VALUE_U128_def
    upt_rec push_bit_eq_mult)

lemma word_of_nat_inj_less:
  "m < 2 ^ LENGTH('a::len) \<Longrightarrow> n < 2 ^ LENGTH('a) \<Longrightarrow>
   (word_of_nat m :: 'a word) = word_of_nat n \<longleftrightarrow> m = n"
  by (simp add: word_of_nat_eq_iff take_bit_nat_eq_self)

lemma push_bit_word_of_nat: "push_bit k (word_of_nat n :: 'a::len word) = word_of_nat (2 ^ k * n)"
  by (simp add: push_bit_eq_mult)

lemma bytes_below_point:
  assumes "p \<le> length bs"
  shows "(from_le_bytes bs :: 'a::len word) AND mask (8 * p) = word_of_nat (le_val (take p bs))"
proof -
  have "(from_le_bytes bs :: 'a word) AND mask (8 * p) = take_bit (8 * p) (word_of_nat (le_val bs))"
    by (simp only: take_bit_eq_mask from_le_bytes_def)
  also have "\<dots> = word_of_nat (le_val bs mod 256 ^ p)"
    by (simp only: take_bit_of_nat) (simp only: take_bit_eq_mod pow256)
  finally show ?thesis
    using assms by (simp only: le_val_mod)
qed

lemma drop_bytes:
  assumes "q \<le> length bs" "LENGTH('a::len) = 8 * length bs"
  shows "drop_bit (8 * q) (from_le_bytes bs :: 'a word) = word_of_nat (le_val (drop q bs))"
proof -
  have "le_val bs < 2 ^ LENGTH('a)"
    using le_val_less [of bs] assms(2) by (simp add: pow256)
  then have "drop_bit (8 * q) (from_le_bytes bs :: 'a word) = word_of_nat (le_val bs div 256 ^ q)"
    unfolding from_le_bytes_def by (simp only: drop_bit_word_of_nat pow256)
  then show ?thesis
    using assms(1) by (simp only: le_val_div)
qed

lemma bytes_above_point:
  assumes "p < length bs" "LENGTH('a::len) = 8 * length bs"
  shows "(from_le_bytes bs :: 'a word) AND push_bit 8 (NOT (mask (8 * p)))
         = word_of_nat (256 ^ Suc p * le_val (drop (Suc p) bs))"
proof -
  have "(from_le_bytes bs :: 'a word) AND push_bit 8 (NOT (mask (8 * p)))
      = push_bit (8 * Suc p) (drop_bit (8 * Suc p) (from_le_bytes bs))"
    by (rule bit_word_eqI) (auto simp: bit_simps)
  also have "\<dots> = push_bit (8 * Suc p) (word_of_nat (le_val (drop (Suc p) bs)))"
    using assms by (simp only: drop_bytes Suc_leI)
  finally show ?thesis
    by (simp only: push_bit_word_of_nat pow256)
qed

lemma squeeze_bytes:
  assumes "p < length bs" "LENGTH('a::len) = 8 * length bs"
  shows "((from_le_bytes bs :: 'a word) AND push_bit 8 (NOT (mask (8 * p))))
           + push_bit 8 (from_le_bytes bs AND mask (8 * p)) + 0x30
         = from_le_bytes (0x30 # take p bs @ drop (Suc p) bs)"
proof -
  have "(0x30 :: 'a word) = word_of_nat 0x30"
    by simp
  moreover have "(2 :: nat) ^ 8 = 256"
    by simp
  moreover have "le_val (0x30 # take p bs @ drop (Suc p) bs)
      = 256 ^ Suc p * le_val (drop (Suc p) bs) + 256 * le_val (take p bs) + 0x30"
    using assms(1) by (simp add: le_val_append)
  ultimately show ?thesis
    using bytes_above_point [OF assms] bytes_below_point [where 'a = 'a, of p bs] assms(1)
    by (simp only: less_imp_le from_le_bytes_def push_bit_word_of_nat of_nat_add)
qed

lemma byte_at:
  assumes q: "q < length bs" and L: "LENGTH('a::len) = 8 * length bs"
  shows "(from_le_bytes bs :: 'a word) AND push_bit (8 * q) 255 = push_bit (8 * q) 46 \<longleftrightarrow> bs ! q = 0x2E"
proof -
  have m: "(255 :: 'a word) = mask 8" "(46 :: 'a word) = word_of_nat 46"
    by (simp_all add: mask_eq_exp_minus_1)
  have dq: "drop q bs = bs ! q # drop (Suc q) bs"
    using q by (simp add: Cons_nth_drop_Suc)
  have bound: "256 ^ q * v < 2 ^ LENGTH('a)" if "v < 256" for v :: nat
  proof -
    have "256 ^ q * v < 256 ^ q * 256"
      using that by simp
    also have "\<dots> \<le> 256 ^ length bs"
      using q by (metis Suc_leI power_Suc2 power_increasing one_le_numeral)
    finally show ?thesis
      by (simp only: L pow256)
  qed
  have "(from_le_bytes bs :: 'a word) AND push_bit (8 * q) (mask 8)
      = push_bit (8 * q) (take_bit 8 (drop_bit (8 * q) (from_le_bytes bs)))"
    by (rule bit_word_eqI) (auto simp: bit_simps)
  also have "\<dots> = push_bit (8 * q) (take_bit 8 (word_of_nat (le_val (drop q bs))))"
    using assms by (simp only: drop_bytes less_imp_le)
  also have "take_bit 8 (word_of_nat (le_val (drop q bs)) :: 'a word) = word_of_nat (unat (bs ! q))"
    by (simp only: dq take_bit_of_nat) (simp add: take_bit_eq_mod)
  also have "push_bit (8 * q) (word_of_nat (unat (bs ! q)) :: 'a word) = push_bit (8 * q) 46
      \<longleftrightarrow> unat (bs ! q) = 46"
    using bound [of "unat (bs ! q)"] bound [of 46]
    by (simp only: m push_bit_word_of_nat pow256 word_of_nat_inj_less unat_u8_less) simp
  finally show ?thesis
    by (simp add: m(1) word_unat_eq_iff)
qed

text \<open>
  The byte at the point index is dropped whatever it is, the bytes before it move up and a \<open>'0'\<close>
  enters in front. The test that is meant to look for the point reads byte \<open>n - 1 - idx\<close> and
  refuses the word when that byte is a \<open>'.'\<close>.
\<close>

definition squeezed :: "bytes \<Rightarrow> nat \<Rightarrow> bytes" where
  "squeezed bs p = 0x30 # take p bs @ drop (Suc p) bs"

lemma length_squeezed [simp]: "p < length bs \<Longrightarrow> length (squeezed bs p) = length bs"
  by (simp add: squeezed_def)

lemma squeeze_point_u16_bytes:
  assumes "length bs = 2" "p < 2"
  shows "squeeze_point_u16 (from_le_bytes bs) p =
           (if bs ! (1 - p) = 0x2E then Inl (Err InvalidPointLocation)
            else Inr (from_le_bytes (squeezed bs p)))"
  using assms byte_at [where 'a = 16, of "1 - p" bs] squeeze_bytes [where 'a = 16, of p bs]
  by (simp add: squeeze_point_u16_def squeezed_def decimal_mask_tables point_location_tables
      del: push_bit_of_1)

lemma squeeze_point_u32_bytes:
  assumes "length bs = 4" "p < 4"
  shows "squeeze_point_u32 (from_le_bytes bs) p =
           (if bs ! (3 - p) = 0x2E then Inl (Err InvalidPointLocation)
            else Inr (from_le_bytes (squeezed bs p)))"
  using assms byte_at [where 'a = 32, of "3 - p" bs] squeeze_bytes [where 'a = 32, of p bs]
  by (simp add: squeeze_point_u32_def squeezed_def decimal_mask_tables point_location_tables
      del: push_bit_of_1)

lemma squeeze_point_u64_bytes:
  assumes "length bs = 8" "p < 8"
  shows "squeeze_point_u64 (from_le_bytes bs) p =
           (if bs ! (7 - p) = 0x2E then Inl (Err InvalidPointLocation)
            else Inr (from_le_bytes (squeezed bs p)))"
  using assms byte_at [where 'a = 64, of "7 - p" bs] squeeze_bytes [where 'a = 64, of p bs]
  by (simp add: squeeze_point_u64_def squeezed_def decimal_mask_tables point_location_tables
      del: push_bit_of_1)

lemma squeeze_point_u128_bytes:
  assumes "length bs = 16" "p < 16"
  shows "squeeze_point_u128 (from_le_bytes bs) p =
           (if bs ! (15 - p) = 0x2E then Inl (Err InvalidPointLocation)
            else Inr (from_le_bytes (squeezed bs p)))"
  using assms byte_at [where 'a = 128, of "15 - p" bs] squeeze_bytes [where 'a = 128, of p bs]
  by (simp add: squeeze_point_u128_def squeezed_def decimal_mask_tables point_location_tables
      del: push_bit_of_1)

subsection \<open>What point removal promises\<close>

text \<open>
  Point removal deletes the byte at the given index, moves the bytes before it up by one place
  and puts a \<open>'0'\<close> in front, in every width. The deleted byte is not looked at; the operation is
  refused when the byte at the mirrored index is a point, or the index is outside the word.
\<close>

theorem squeeze_point_removes:
  "(length bs = 2 \<and> p < 2 \<longrightarrow> squeeze_point_u16 (from_le_bytes bs) p =
      (if bs ! (1 - p) = 0x2E then Inl (Err InvalidPointLocation)
       else Inr (from_le_bytes (0x30 # take p bs @ drop (Suc p) bs)))) \<and>
   (length bs = 4 \<and> p < 4 \<longrightarrow> squeeze_point_u32 (from_le_bytes bs) p =
      (if bs ! (3 - p) = 0x2E then Inl (Err InvalidPointLocation)
       else Inr (from_le_bytes (0x30 # take p bs @ drop (Suc p) bs)))) \<and>
   (length bs = 8 \<and> p < 8 \<longrightarrow> squeeze_point_u64 (from_le_bytes bs) p =
      (if bs ! (7 - p) = 0x2E then Inl (Err InvalidPointLocation)
       else Inr (from_le_bytes (0x30 # take p bs @ drop (Suc p) bs)))) \<and>
   (length bs = 16 \<and> p < 16 \<longrightarrow> squeeze_point_u128 (from_le_bytes bs) p =
      (if bs ! (15 - p) = 0x2E then Inl (Err InvalidPointLocation)
       else Inr (from_le_bytes (0x30 # take p bs @ drop (Suc p) bs)))) \<and>
   (8 \<le> p \<longrightarrow> squeeze_point_u64 w p = Inl (Err InvalidPointIndex))"
  using squeeze_point_u16_bytes [of bs p] squeeze_point_u32_bytes [of bs p]
    squeeze_point_u64_bytes [of bs p] squeeze_point_u128_bytes [of bs p]
  by (auto simp: squeezed_def squeeze_point_u64_def)

text \<open>"123x4567" at index 3 loses the \<open>x\<close>.\<close>

theorem squeeze_point_removes_witness:
  "squeeze_point_u64 (from_le_bytes [0x31, 0x32, 0x33, 0x78, 0x34, 0x35, 0x36, 0x37]) 3
   = Inr (from_le_bytes [0x30, 0x31, 0x32, 0x33, 0x34, 0x35, 0x36, 0x37])"
  using squeeze_point_removes [of "[0x31, 0x32, 0x33, 0x78, 0x34, 0x35, 0x36, 0x37]" 3]
  by (simp add: numeral_3_eq_3)

end
