(* ===== verification/Time_Parse.thy ===== *)
theory Time_Parse
  imports Squeeze_Point
begin

text \<open>
  \<open>crates/jeed-convert/src/decimal_core/hhmmss.rs\<close> and the pair-based digit check of \<open>check.rs\<close>
  it relies on. \<open>check_decimal_bit_u64_iff\<close> gives the bytes the check lets through and
  \<open>parse_hhmmss_six\<close> the value of every six-byte field.
\<close>

subsection \<open>The pair-based digit check (check.rs)\<close>


definition check_decimal_bit_u64 :: "u64 \<Rightarrow> bool" where
  "check_decimal_bit_u64 chunk \<longleftrightarrow>
     (let lower_upper_check =
            ((chunk AND 0x00FF00FF00FF00FF) + 0x00C600C600C600C6) AND 0xFF00FF00FF00FF00 = 0;
          lower_lower_check =
            ((0x00FF00FF00FF00FF - (chunk AND 0x00FF00FF00FF00FF)) + 0x00CF00CF00CF00CF)
              AND 0xFF00FF00FF00FF00 \<noteq> 0;
          upper_upper_check =
            (drop_bit 8 (chunk AND 0xFF00FF00FF00FF00) + 0x00C600C600C600C6)
              AND 0xFF00FF00FF00FF00 = 0;
          upper_lower_check =
            ((0xFF00FF00FF00FF00 - drop_bit 8 (chunk AND 0xFF00FF00FF00FF00))
              + 0x00CF00CF00CF00CF) AND 0xFF00FF00FF00FF00 \<noteq> 0
      in lower_upper_check \<and> lower_lower_check \<and> upper_upper_check \<and> upper_lower_check)"

subsection \<open>Time of day (hhmmss.rs)\<close>

definition parse_hhmmss_to_seconds :: "bytes \<Rightarrow> u64 parsed" where
  "parse_hhmmss_to_seconds u =
     (if length u \<noteq> 6 \<and> length u \<noteq> 8 then Inl (Err InvalidLength)
      else and_then (le_bytes_to_u64 u) (\<lambda>res0.
        if \<not> check_decimal_bit_u64 res0 then Inl (Err InvalidDigit)
        else
          let lower_digits = drop_bit 8 (res0 AND 0x0f000f000f000f00);
              upper_digits = (res0 AND 0x000f000f000f000f) * 10;
              res1 = lower_digits + upper_digits;
              lower_digits = drop_bit 16 (res1 AND 0x00ff000000ff0000);
              upper_digits = (res1 AND 0x000000ff000000ff) * 60;
              res2 = lower_digits + upper_digits;
              lower_digits = drop_bit 32 (res2 AND 0x0000ffff00000000);
              upper_digits = (res2 AND 0x000000000000ffff) * 3600
          in Inr (lower_digits + upper_digits)))"

subsection \<open>The time parser\<close>

lemma lane_add_const: "lane 16 a x + m = lane 16 (a + m mod 65536) (x + m div 65536)"
  unfolding lane_def using div_mult_mod_eq [of m 65536] by simp

lemma lane_eq_0_iff: "lane k a x = 0 \<longleftrightarrow> a = 0 \<and> x = 0"
  by (simp add: lane_def)

lemma and_FF00: "x < 65536 \<Longrightarrow> x AND 65280 = x - x mod (256 :: nat)"
proof -
  assume x: "x < 65536"
  have "x AND 65280 = lane 8 (x mod 256) (x div 256) AND 65280"
    by (simp add: lane_def)
  also have "\<dots> = 256 * (x div 256)"
    using x by (simp add: lane_and field_mask) (simp add: lane_def)
  finally show ?thesis
    by (simp add: minus_mod_eq_mult_div)
qed

lemma word_of_nat_diff: "m = x + y \<Longrightarrow> (word_of_nat m :: 'a::len word) - word_of_nat x = word_of_nat y"
  by simp

lemma word_of_nat_0_iff:
  "n < 2 ^ LENGTH('a) \<Longrightarrow> (word_of_nat n :: 'a::len word) = 0 \<longleftrightarrow> n = 0"
  by (simp add: word_of_nat_eq_0_iff take_bit_nat_eq_self flip: take_bit_eq_0_iff)


lemma add_numeral_word_of_nat:
  "(word_of_nat n :: 'a::len word) + numeral m = word_of_nat (n + numeral m)"
  by simp

text \<open>Each half of the check looks at four bytes, in 16-bit lanes.\<close>

lemma upper_check_lanes:
  assumes "a < 256" "b < 256" "c < 256" "d < 256"
  shows "(word_of_nat (lane 16 a (lane 16 b (lane 16 c d))) + 0x00C600C600C600C6 :: u64)
            AND 0xFF00FF00FF00FF00 = 0
         \<longleftrightarrow> a \<le> 0x39 \<and> b \<le> 0x39 \<and> c \<le> 0x39 \<and> d \<le> 0x39"
proof -
  have hi: "x + 198 - (x + 198) mod 256 = 0 \<longleftrightarrow> x \<le> 57" if "x < 256" for x :: nat
    using that by (cases "x \<le> 57") (auto simp: mod_if)
  have "(word_of_nat (lane 16 a (lane 16 b (lane 16 c d))) + 0x00C600C600C600C6 :: u64)
            AND 0xFF00FF00FF00FF00
      = word_of_nat (lane 16 (a + 198 - (a + 198) mod 256) (lane 16 (b + 198 - (b + 198) mod 256)
          (lane 16 (c + 198 - (c + 198) mod 256) (d + 198 - (d + 198) mod 256))))"
    using assms
    by (simp add: lane_add_const lane_and lane_lessI and_FF00 add_numeral_word_of_nat and_numeral_word_of_nat
        del: of_nat_add of_nat_diff)
  also have "\<dots> = 0 \<longleftrightarrow> a \<le> 0x39 \<and> b \<le> 0x39 \<and> c \<le> 0x39 \<and> d \<le> 0x39"
    using assms
    by (subst word_of_nat_0_iff) (auto intro!: lane_lessI simp: lane_eq_0_iff hi)
  finally show ?thesis .
qed

lemma lower_check_lanes:
  assumes "a \<le> 57" "b \<le> 57" "c \<le> 57" "d \<le> 57"
  shows "((0x00FF00FF00FF00FF - word_of_nat (lane 16 a (lane 16 b (lane 16 c d)))) + 0x00CF00CF00CF00CF :: u64)
            AND 0xFF00FF00FF00FF00 \<noteq> 0"
proof -
  let ?f = "\<lambda>x. 255 - x + 207 - (255 - x + 207) mod (256 :: nat)"
  have diff: "(0x00FF00FF00FF00FF :: u64) - word_of_nat (lane 16 a (lane 16 b (lane 16 c d)))
      = word_of_nat (lane 16 (255 - a) (lane 16 (255 - b) (lane 16 (255 - c) (255 - d))))"
    using assms word_of_nat_diff [where 'a = 64, of "0x00FF00FF00FF00FF" "lane 16 a (lane 16 b (lane 16 c d))"]
    by (simp add: lane_def)
  have "((0x00FF00FF00FF00FF - word_of_nat (lane 16 a (lane 16 b (lane 16 c d)))) + 0x00CF00CF00CF00CF :: u64)
            AND 0xFF00FF00FF00FF00
      = word_of_nat (lane 16 (?f a) (lane 16 (?f b) (lane 16 (?f c) (?f d))))"
    unfolding diff using assms
    by (simp add: lane_add_const lane_and lane_lessI and_FF00 add_numeral_word_of_nat
      and_numeral_word_of_nat del: of_nat_add of_nat_diff)
  moreover have "(word_of_nat (lane 16 (?f a) (lane 16 (?f b) (lane 16 (?f c) (?f d)))) :: u64) \<noteq> 0"
    using assms div_mult_mod_eq [of "255 - a + 207" 256]
    by (subst word_of_nat_0_iff) (auto intro!: lane_lessI simp: lane_eq_0_iff)
  ultimately show ?thesis
    by simp
qed

lemma lower_check_lanes_upper:
  assumes "a \<le> 57" "b \<le> 57" "c \<le> 57" "d \<le> 57"
  shows "((0xFF00FF00FF00FF00 - word_of_nat (lane 16 a (lane 16 b (lane 16 c d)))) + 0x00CF00CF00CF00CF :: u64)
            AND 0xFF00FF00FF00FF00 \<noteq> 0"
proof -
  let ?f = "\<lambda>x. 65280 - x + 207 - (65280 - x + 207) mod (256 :: nat)"
  have diff: "(0xFF00FF00FF00FF00 :: u64) - word_of_nat (lane 16 a (lane 16 b (lane 16 c d)))
      = word_of_nat (lane 16 (65280 - a) (lane 16 (65280 - b) (lane 16 (65280 - c) (65280 - d))))"
    using assms word_of_nat_diff [where 'a = 64, of "0xFF00FF00FF00FF00" "lane 16 a (lane 16 b (lane 16 c d))"]
    by (simp add: lane_def)
  have "((0xFF00FF00FF00FF00 - word_of_nat (lane 16 a (lane 16 b (lane 16 c d)))) + 0x00CF00CF00CF00CF :: u64)
            AND 0xFF00FF00FF00FF00
      = word_of_nat (lane 16 (?f a) (lane 16 (?f b) (lane 16 (?f c) (?f d))))"
    unfolding diff using assms
    by (simp add: lane_add_const lane_and lane_lessI and_FF00 add_numeral_word_of_nat
      and_numeral_word_of_nat del: of_nat_add of_nat_diff)
  moreover have "(word_of_nat (lane 16 (?f a) (lane 16 (?f b) (lane 16 (?f c) (?f d)))) :: u64) \<noteq> 0"
    using assms div_mult_mod_eq [of "65280 - a + 207" 256]
    by (subst word_of_nat_0_iff) (auto intro!: lane_lessI simp: lane_eq_0_iff)
  ultimately show ?thesis
    by simp
qed

text \<open>
  The two lower-bound tests never fail, so the pair-based check accepts every byte up to \<open>'9'\<close>:
  not only digits and the padding zeros, but also spaces and control characters.
\<close>

lemma unat_u8_less_lane [simp]: "unat (b :: u8) < 65536"
  using unat_u8_less [of b] by linarith

lemma check_decimal_bit_u64_iff:
  assumes "length bs = 8"
  shows "check_decimal_bit_u64 (from_le_bytes bs) \<longleftrightarrow> list_all (\<lambda>b. b \<le> 0x39) bs"
proof -
  obtain a b c d e f g h where bs: "bs = [a, b, c, d, e, f, g, h]"
    using le_list8 [OF assms] by blast
  have even: "(from_le_bytes bs :: u64) AND 0x00FF00FF00FF00FF
      = word_of_nat (lane 16 (unat a) (lane 16 (unat c) (lane 16 (unat e) (unat g))))"
    by (simp add: bs swar_eval del: of_nat_add of_nat_mult le_val.simps(2))
  have odd: "drop_bit 8 ((from_le_bytes bs :: u64) AND 0xFF00FF00FF00FF00)
      = word_of_nat (lane 16 (unat b) (lane 16 (unat d) (lane 16 (unat f) (unat h))))"
    by (simp add: bs swar_eval del: of_nat_add of_nat_mult le_val.simps(2))
  have le: "x \<le> 0x39 \<longleftrightarrow> unat x \<le> 57" for x :: u8
    by (simp add: word_le_nat_alt)
  show ?thesis
    unfolding check_decimal_bit_u64_def Let_def even odd
    using upper_check_lanes [of "unat a" "unat c" "unat e" "unat g"]
      upper_check_lanes [of "unat b" "unat d" "unat f" "unat h"]
      lower_check_lanes [of "unat a" "unat c" "unat e" "unat g"]
      lower_check_lanes_upper [of "unat b" "unat d" "unat f" "unat h"]
    by (auto simp: bs le)
qed

text \<open>Six bytes are the seconds of the day; eight bytes are not, the last pair counts as seconds.\<close>

lemma pairs_fold:
  assumes "length bs = 8"
  shows "(let res0 = from_le_bytes bs :: u64;
              lower_digits = drop_bit 8 (res0 AND 0x0f000f000f000f00);
              upper_digits = (res0 AND 0x000f000f000f000f) * 10;
              res1 = lower_digits + upper_digits;
              lower_digits = drop_bit 16 (res1 AND 0x00ff000000ff0000);
              upper_digits = (res1 AND 0x000000ff000000ff) * 60;
              res2 = lower_digits + upper_digits;
              lower_digits = drop_bit 32 (res2 AND 0x0000ffff00000000);
              upper_digits = (res2 AND 0x000000000000ffff) * 3600
          in lower_digits + upper_digits)
       = word_of_nat ((dec_value (take 2 bs) * 60 + dec_value (take 2 (drop 2 bs))) * 3600
           + dec_value (take 2 (drop 4 bs)) * 60 + dec_value (drop 6 bs))"
proof -
  obtain a b c d e f g h where bs: "bs = [a, b, c, d, e, f, g, h]"
    using le_list8 [OF assms] by blast
  show ?thesis
    by (simp add: bs swar_eval del: of_nat_add of_nat_mult le_val.simps(2))
      (simp add: algebra_simps)
qed

lemma parse_hhmmss_six:
  assumes "length u = 6"
  shows "parse_hhmmss_to_seconds u =
    (if list_all (\<lambda>b. b \<le> 0x39) u
     then Inr (word_of_nat (dec_value (take 2 u) * 3600 + dec_value (take 2 (drop 2 u)) * 60
                 + dec_value (drop 4 u)))
     else Inl (Err InvalidDigit))"
proof -
  obtain a b c d e f where u: "u = [a, b, c, d, e, f]"
    using assms by (auto simp: numeral_eq_Suc length_Suc_conv)
  have pad: "pad_front 8 0 u = [0, 0] @ u"
    by (simp add: pad_front_def u numeral_eq_Suc)
  show ?thesis
    using assms check_decimal_bit_u64_iff [of "[0, 0] @ u"] pairs_fold [of "[0, 0] @ u"]
    by (simp add: parse_hhmmss_to_seconds_def le_bytes_to_u64_def pad Let_def)
      (simp add: u dec_value_Cons)
qed

lemma parse_hhmmss_eight:
  "length u = 8 \<Longrightarrow> parse_hhmmss_to_seconds u =
    (if list_all (\<lambda>b. b \<le> 0x39) u
     then Inr (word_of_nat ((dec_value (take 2 u) * 60 + dec_value (take 2 (drop 2 u))) * 3600
                 + dec_value (take 2 (drop 4 u)) * 60 + dec_value (drop 6 u)))
     else Inl (Err InvalidDigit))"
  using check_decimal_bit_u64_iff [of u] pairs_fold [of u]
  by (simp add: parse_hhmmss_to_seconds_def le_bytes_to_u64_def Let_def)

lemma hhmmss_value:
  "parse_hhmmss_to_seconds u =
    (if length u = 6 \<and> list_all (\<lambda>b. b \<le> 0x39) u
     then Inr (word_of_nat (dec_value (take 2 u) * 3600 + dec_value (take 2 (drop 2 u)) * 60
                 + dec_value (drop 4 u)))
     else if length u = 8 \<and> list_all (\<lambda>b. b \<le> 0x39) u
     then Inr (word_of_nat ((dec_value (take 2 u) * 60 + dec_value (take 2 (drop 2 u))) * 3600
                 + dec_value (take 2 (drop 4 u)) * 60 + dec_value (drop 6 u)))
     else if length u = 6 \<or> length u = 8 then Inl (Err InvalidDigit)
     else Inl (Err InvalidLength))"
  using parse_hhmmss_six [of u] parse_hhmmss_eight [of u]
  by (auto simp: parse_hhmmss_to_seconds_def)

text \<open>
  \<open>parse_hhmmss_to_seconds\<close> on every input: six bytes \<open>HHMMSS\<close> are the seconds of the day
  (hours * 3600 + minutes * 60 + seconds, read over the low nibbles), and they are accepted
  whenever no byte is above \<open>'9'\<close>: the lower bound of the digit check is vacuous, so a space counts
  as a digit. Eight bytes \<open>HHMMSSCC\<close> are folded as if the last pair were the seconds. Any other
  length is refused, and no input panics.
\<close>

theorem parse_hhmmss_spec:
  "parse_hhmmss_to_seconds u =
    (if length u = 6 \<and> list_all (\<lambda>b. b \<le> 0x39) u
     then Inr (word_of_nat (dec_value (take 2 u) * 3600 + dec_value (take 2 (drop 2 u)) * 60
                 + dec_value (drop 4 u)))
     else if length u = 8 \<and> list_all (\<lambda>b. b \<le> 0x39) u
     then Inr (word_of_nat ((dec_value (take 2 u) * 60 + dec_value (take 2 (drop 2 u))) * 3600
                 + dec_value (take 2 (drop 4 u)) * 60 + dec_value (drop 6 u)))
     else if length u = 6 \<or> length u = 8 then Inl (Err InvalidDigit)
     else Inl (Err InvalidLength))"
  by (rule hhmmss_value)

text \<open>"0 3 12" is read as 00:30:12, that is, 1812 seconds.\<close>

theorem parse_hhmmss_spec_witness:
  "parse_hhmmss_to_seconds [0x30, 0x20, 0x33, 0x20, 0x31, 0x32] = Inr 1812"
  using parse_hhmmss_spec [of "[0x30, 0x20, 0x33, 0x20, 0x31, 0x32]"]
  by (simp add: dec_value_Cons word_le_nat_alt)

end
