(* ===== verification/Integer_Parser.thy ===== *)
theory Integer_Parser
  imports Time_Parse
begin

text \<open>
  \<open>crates/jeed-convert/src/integer_parser\<close>: the \<open>Biscuit\<close> decimal parsers. A string is cut into
  chunks of 16, 8, 4, 2 and 1 bytes, each chunk is converted in one machine word, and the chunks
  are recombined with powers of ten. The match arms stand in order of length, with the
  fall-through arm (a string too long for the type) first. Strings longer than the type's longest number lose their
  leading zeros first. \<open>I<n>_MAX_AS_U<n>\<close> and \<open>I<n>_MIN_ABS_AS_U<n>\<close> are written out.
\<close>

subsection \<open>Unsigned parsers (unsigned\_decimal.rs)\<close>

text \<open>The \<open>while\<close> loop over leading zeros.\<close>

fun leading_zeros :: "bytes \<Rightarrow> nat" where
  "leading_zeros [] = 0"
| "leading_zeros (b # bs) = (if b = 0x30 then Suc (leading_zeros bs) else 0)"

lemma leading_zeros_le [simp]: "leading_zeros u \<le> length u"
  by (induction u) auto

function u128_unsigned_decimal_core :: "bytes \<Rightarrow> bool \<Rightarrow> bool \<Rightarrow> u128 parsed" where
  "u128_unsigned_decimal_core u neg_max_check pos_max_check =
     (let len = length u
      in if len > 39 then
           (let start = leading_zeros u
            in if length u - start > 39 then Inl (Err Overflow)
               else u128_unsigned_decimal_core (drop start u) neg_max_check pos_max_check)
         else if len = 0 then Inl (Err Empty)
         else if len = 1 then
           map_ok ucast (checked_conversion_u8 u)
         else if len = 2 then
           map_ok ucast (checked_conversion_u16 u)
         else if len = 3 then
           and_then (checked_conversion_u16 (take 2 u)) (\<lambda>upper_chunk.
           and_then (checked_conversion_u8 (drop 2 u)) (\<lambda>lower_chunk.
             Inr (ucast upper_chunk * 10 + ucast lower_chunk)))
         else if len = 4 then
           map_ok ucast (checked_conversion_u32 u)
         else if len = 5 then
           and_then (checked_conversion_u32 (take 4 u)) (\<lambda>upper_chunk.
           and_then (checked_conversion_u8 (drop 4 u)) (\<lambda>lower_chunk.
             Inr (ucast upper_chunk * 10 + ucast lower_chunk)))
         else if len = 6 then
           and_then (checked_conversion_u32 (take 4 u)) (\<lambda>upper_chunk.
           and_then (checked_conversion_u16 (drop 4 u)) (\<lambda>lower_chunk.
             Inr (ucast upper_chunk * 100 + ucast lower_chunk)))
         else if len = 7 then
           and_then (checked_conversion_u32 (take 4 u)) (\<lambda>upper_chunk.
           and_then (checked_conversion_u16 (take 2 (drop 4 u))) (\<lambda>mid_chunk.
           and_then (checked_conversion_u8 (drop 6 u)) (\<lambda>lower_chunk.
             Inr (ucast upper_chunk * 1000 + ucast mid_chunk * 10 + ucast lower_chunk))))
         else if len = 8 then
           map_ok ucast (checked_conversion_u64 u)
         else if len = 9 then
           and_then (checked_conversion_u64 (take 8 u)) (\<lambda>upper_chunk.
           and_then (checked_conversion_u8 (drop 8 u)) (\<lambda>lower_chunk.
             Inr (ucast upper_chunk * 10 + ucast lower_chunk)))
         else if len = 10 then
           and_then (checked_conversion_u64 (take 8 u)) (\<lambda>upper_chunk.
           and_then (checked_conversion_u16 (drop 8 u)) (\<lambda>lower_chunk.
             Inr (ucast upper_chunk * 100 + ucast lower_chunk)))
         else if len = 11 then
           and_then (checked_conversion_u64 (take 8 u)) (\<lambda>upper_chunk.
           and_then (checked_conversion_u16 (take 2 (drop 8 u))) (\<lambda>mid_chunk.
           and_then (checked_conversion_u8 (drop 10 u)) (\<lambda>lower_chunk.
             Inr (ucast upper_chunk * 1000 + ucast mid_chunk * 10 + ucast lower_chunk))))
         else if len = 12 then
           and_then (checked_conversion_u64 (take 8 u)) (\<lambda>upper_chunk.
           and_then (checked_conversion_u32 (drop 8 u)) (\<lambda>lower_chunk.
             Inr (ucast upper_chunk * 10000 + ucast lower_chunk)))
         else if len = 13 then
           and_then (checked_conversion_u64 (take 8 u)) (\<lambda>upper_chunk.
           and_then (checked_conversion_u32 (take 4 (drop 8 u))) (\<lambda>mid_chunk.
           and_then (checked_conversion_u8 (drop 12 u)) (\<lambda>lower_chunk.
             Inr (ucast upper_chunk * 100000 + ucast mid_chunk * 10 + ucast lower_chunk))))
         else if len = 14 then
           and_then (checked_conversion_u64 (take 8 u)) (\<lambda>upper_chunk.
           and_then (checked_conversion_u32 (take 4 (drop 8 u))) (\<lambda>mid_chunk.
           and_then (checked_conversion_u16 (drop 12 u)) (\<lambda>lower_chunk.
             Inr (ucast upper_chunk * 1000000 + ucast mid_chunk * 100 + ucast lower_chunk))))
         else if len = 15 then
           and_then (checked_conversion_u64 (take 8 u)) (\<lambda>upper_chunk.
           and_then (checked_conversion_u32 (take 4 (drop 8 u))) (\<lambda>mid_chunk.
           and_then (checked_conversion_u16 (take 2 (drop 12 u))) (\<lambda>lower_chunk.
           and_then (checked_conversion_u8 (drop 14 u)) (\<lambda>last_chunk.
             Inr (ucast upper_chunk * 10000000 + ucast mid_chunk * 1000 + ucast lower_chunk * 10 + ucast last_chunk)))))
         else if len = 16 then
           checked_conversion_u128 u
         else if len = 17 then
           and_then (checked_conversion_u128 (take 16 u)) (\<lambda>upper_chunk.
           and_then (checked_conversion_u8 (drop 16 u)) (\<lambda>lower_chunk.
             Inr (upper_chunk * 10 + ucast lower_chunk)))
         else if len = 18 then
           and_then (checked_conversion_u128 (take 16 u)) (\<lambda>upper_chunk.
           and_then (checked_conversion_u16 (drop 16 u)) (\<lambda>lower_chunk.
             Inr (upper_chunk * 100 + ucast lower_chunk)))
         else if len = 19 then
           and_then (checked_conversion_u128 (take 16 u)) (\<lambda>upper_chunk.
           and_then (checked_conversion_u16 (take 2 (drop 16 u))) (\<lambda>mid_chunk.
           and_then (checked_conversion_u8 (drop 18 u)) (\<lambda>lower_chunk.
             Inr (upper_chunk * 1000 + ucast mid_chunk * 10 + ucast lower_chunk))))
         else if len = 20 then
           and_then (checked_conversion_u128 (take 16 u)) (\<lambda>upper_chunk.
           and_then (checked_conversion_u32 (drop 16 u)) (\<lambda>lower_chunk.
             Inr (upper_chunk * 10000 + ucast lower_chunk)))
         else if len = 21 then
           and_then (checked_conversion_u128 (take 16 u)) (\<lambda>upper_chunk.
           and_then (checked_conversion_u32 (take 4 (drop 16 u))) (\<lambda>mid_chunk.
           and_then (checked_conversion_u8 (drop 20 u)) (\<lambda>lower_chunk.
             Inr (upper_chunk * 100000 + ucast mid_chunk * 10 + ucast lower_chunk))))
         else if len = 22 then
           and_then (checked_conversion_u128 (take 16 u)) (\<lambda>upper_chunk.
           and_then (checked_conversion_u32 (take 4 (drop 16 u))) (\<lambda>mid_chunk.
           and_then (checked_conversion_u16 (drop 20 u)) (\<lambda>lower_chunk.
             Inr (upper_chunk * 1000000 + ucast mid_chunk * 100 + ucast lower_chunk))))
         else if len = 23 then
           and_then (checked_conversion_u128 (take 16 u)) (\<lambda>upper_chunk.
           and_then (checked_conversion_u32 (take 4 (drop 16 u))) (\<lambda>mid_chunk.
           and_then (checked_conversion_u16 (take 2 (drop 20 u))) (\<lambda>lower_chunk.
           and_then (checked_conversion_u8 (drop 22 u)) (\<lambda>last_chunk.
             Inr (upper_chunk * 10000000 + ucast mid_chunk * 1000 + ucast lower_chunk * 10 + ucast last_chunk)))))
         else if len = 24 then
           and_then (checked_conversion_u128 (take 16 u)) (\<lambda>upper_chunk.
           and_then (checked_conversion_u64 (drop 16 u)) (\<lambda>lower_chunk.
             Inr (upper_chunk * 100000000 + ucast lower_chunk)))
         else if len = 25 then
           and_then (checked_conversion_u128 (take 16 u)) (\<lambda>upper_chunk.
           and_then (checked_conversion_u64 (take 8 (drop 16 u))) (\<lambda>mid_chunk.
           and_then (checked_conversion_u8 (drop 24 u)) (\<lambda>lower_chunk.
             Inr (upper_chunk * 1000000000 + ucast mid_chunk * 10 + ucast lower_chunk))))
         else if len = 26 then
           and_then (checked_conversion_u128 (take 16 u)) (\<lambda>upper_chunk.
           and_then (checked_conversion_u64 (take 8 (drop 16 u))) (\<lambda>mid_chunk.
           and_then (checked_conversion_u16 (drop 24 u)) (\<lambda>lower_chunk.
             Inr (upper_chunk * 10000000000 + ucast mid_chunk * 100 + ucast lower_chunk))))
         else if len = 27 then
           and_then (checked_conversion_u128 (take 16 u)) (\<lambda>upper_chunk.
           and_then (checked_conversion_u64 (take 8 (drop 16 u))) (\<lambda>mid_chunk.
           and_then (checked_conversion_u16 (take 2 (drop 24 u))) (\<lambda>lower_chunk.
           and_then (checked_conversion_u8 (drop 26 u)) (\<lambda>last_chunk.
             Inr (upper_chunk * 100000000000 + ucast mid_chunk * 1000 + ucast lower_chunk * 10 + ucast last_chunk)))))
         else if len = 28 then
           and_then (checked_conversion_u128 (take 16 u)) (\<lambda>upper_chunk.
           and_then (checked_conversion_u64 (take 8 (drop 16 u))) (\<lambda>mid_chunk.
           and_then (checked_conversion_u32 (drop 24 u)) (\<lambda>lower_chunk.
             Inr (upper_chunk * 1000000000000 + ucast mid_chunk * 10000 + ucast lower_chunk))))
         else if len = 29 then
           and_then (checked_conversion_u128 (take 16 u)) (\<lambda>upper_chunk.
           and_then (checked_conversion_u64 (take 8 (drop 16 u))) (\<lambda>mid_chunk.
           and_then (checked_conversion_u32 (take 4 (drop 24 u))) (\<lambda>lower_chunk.
           and_then (checked_conversion_u8 (drop 28 u)) (\<lambda>last_chunk.
             Inr (upper_chunk * 10000000000000 + ucast mid_chunk * 100000 + ucast lower_chunk * 10 + ucast last_chunk)))))
         else if len = 30 then
           and_then (checked_conversion_u128 (take 16 u)) (\<lambda>upper_chunk.
           and_then (checked_conversion_u64 (take 8 (drop 16 u))) (\<lambda>mid_chunk.
           and_then (checked_conversion_u32 (take 4 (drop 24 u))) (\<lambda>lower_chunk.
           and_then (checked_conversion_u16 (drop 28 u)) (\<lambda>last_chunk.
             Inr (upper_chunk * 100000000000000 + ucast mid_chunk * 1000000 + ucast lower_chunk * 100 + ucast last_chunk)))))
         else if len = 31 then
           and_then (checked_conversion_u128 (take 16 u)) (\<lambda>upper_chunk.
           and_then (checked_conversion_u64 (take 8 (drop 16 u))) (\<lambda>mid_chunk.
           and_then (checked_conversion_u32 (take 4 (drop 24 u))) (\<lambda>lower_chunk.
           and_then (checked_conversion_u16 (take 2 (drop 28 u))) (\<lambda>tail_chunk.
           and_then (checked_conversion_u8 (drop 30 u)) (\<lambda>last.
             Inr (upper_chunk * 1000000000000000 + ucast mid_chunk * 10000000 + ucast lower_chunk * 1000 + ucast tail_chunk * 10 + ucast last))))))
         else if len = 32 then
           and_then (checked_conversion_u128 (take 16 u)) (\<lambda>upper_chunk.
           and_then (checked_conversion_u128 (drop 16 u)) (\<lambda>lower_chunk.
             Inr (upper_chunk * 10000000000000000 + lower_chunk)))
         else if len = 33 then
           and_then (checked_conversion_u128 (take 16 u)) (\<lambda>upper_chunk.
           and_then (checked_conversion_u128 (take 16 (drop 16 u))) (\<lambda>mid_chunk.
           and_then (checked_conversion_u8 (drop 32 u)) (\<lambda>lower_chunk.
             (case checked_add (upper_chunk * 100000000000000000) (mid_chunk * 10 + ucast lower_chunk) of Some res \<Rightarrow> Inr res | None \<Rightarrow> Inl (Err Overflow)))))
         else if len = 34 then
           and_then (checked_conversion_u128 (take 16 u)) (\<lambda>upper_chunk.
           and_then (checked_conversion_u128 (take 16 (drop 16 u))) (\<lambda>mid_chunk.
           and_then (checked_conversion_u16 (drop 32 u)) (\<lambda>lower_chunk.
             (case checked_add (upper_chunk * 1000000000000000000) (mid_chunk * 100 + ucast lower_chunk) of Some res \<Rightarrow> Inr res | None \<Rightarrow> Inl (Err Overflow)))))
         else if len = 35 then
           and_then (checked_conversion_u128 (take 16 u)) (\<lambda>upper_chunk.
           and_then (checked_conversion_u128 (take 16 (drop 16 u))) (\<lambda>mid_chunk.
           and_then (checked_conversion_u16 (take 2 (drop 32 u))) (\<lambda>lower_chunk.
           and_then (checked_conversion_u8 (drop 34 u)) (\<lambda>last_chunk.
             (case checked_add (upper_chunk * 10000000000000000000) (mid_chunk * 1000 + ucast lower_chunk * 10 + ucast last_chunk) of Some res \<Rightarrow> Inr res | None \<Rightarrow> Inl (Err Overflow))))))
         else if len = 36 then
           and_then (checked_conversion_u128 (take 16 u)) (\<lambda>upper_chunk.
           and_then (checked_conversion_u128 (take 16 (drop 16 u))) (\<lambda>mid_chunk.
           and_then (checked_conversion_u32 (drop 32 u)) (\<lambda>lower_chunk.
             (case checked_add (upper_chunk * 100000000000000000000) (mid_chunk * 10000 + ucast lower_chunk) of Some res \<Rightarrow> Inr res | None \<Rightarrow> Inl (Err Overflow)))))
         else if len = 37 then
           and_then (checked_conversion_u128 (take 16 u)) (\<lambda>upper_chunk.
           and_then (checked_conversion_u128 (take 16 (drop 16 u))) (\<lambda>mid_chunk.
           and_then (checked_conversion_u32 (take 4 (drop 32 u))) (\<lambda>lower_chunk.
           and_then (checked_conversion_u8 (drop 36 u)) (\<lambda>last_chunk.
             (case checked_add (upper_chunk * 1000000000000000000000) (mid_chunk * 100000 + ucast lower_chunk * 10 + ucast last_chunk) of Some res \<Rightarrow> Inr res | None \<Rightarrow> Inl (Err Overflow))))))
         else if len = 38 then
           and_then (checked_conversion_u128 (take 16 u)) (\<lambda>upper_chunk.
           and_then (checked_conversion_u128 (take 16 (drop 16 u))) (\<lambda>mid_chunk.
           and_then (checked_conversion_u32 (take 4 (drop 32 u))) (\<lambda>lower_chunk.
           and_then (checked_conversion_u16 (drop 36 u)) (\<lambda>last_chunk.
             (case checked_add (upper_chunk * 10000000000000000000000) (mid_chunk * 1000000 + ucast lower_chunk * 100 + ucast last_chunk) of Some res \<Rightarrow> Inr res | None \<Rightarrow> Inl (Err Overflow))))))
         else
           and_then (checked_conversion_u128 (take 16 u)) (\<lambda>upper_chunk.
           and_then (checked_conversion_u128 (take 16 (drop 16 u))) (\<lambda>mid_chunk.
           and_then (checked_conversion_u32 (take 4 (drop 32 u))) (\<lambda>lower_chunk.
           and_then (checked_conversion_u16 (take 2 (drop 36 u))) (\<lambda>tail_chunk.
           and_then (checked_conversion_u8 (drop 38 u)) (\<lambda>last.
             (case checked_add (upper_chunk * 100000000000000000000000) (mid_chunk * 10000000 + ucast lower_chunk * 1000 + ucast tail_chunk * 10 + ucast last) of
                Some res \<Rightarrow>
                  if neg_max_check \<and> res > 170141183460469231731687303715884105728 then Inl (Err NegOverflow)
                  else if pos_max_check \<and> res > 170141183460469231731687303715884105727 then Inl (Err Overflow)
                  else Inr res
              | None \<Rightarrow> Inl (Err Overflow))))))))"
  by pat_completeness auto
termination
  by (relation "measure (\<lambda>(u, _, _). length u)") auto

declare u128_unsigned_decimal_core.simps [simp del]

function u64_unsigned_decimal_core :: "bytes \<Rightarrow> bool \<Rightarrow> bool \<Rightarrow> u64 parsed" where
  "u64_unsigned_decimal_core u neg_max_check pos_max_check =
     (let len = length u
      in if len > 20 then
           (let start = leading_zeros u
            in if length u - start > 20 then Inl (Err Overflow)
               else u64_unsigned_decimal_core (drop start u) neg_max_check pos_max_check)
         else if len = 0 then Inl (Err Empty)
         else if len = 1 then
           map_ok ucast (checked_conversion_u8 u)
         else if len = 2 then
           map_ok ucast (checked_conversion_u16 u)
         else if len = 3 then
           and_then (checked_conversion_u16 (take 2 u)) (\<lambda>upper_chunk.
           and_then (checked_conversion_u8 (drop 2 u)) (\<lambda>lower_chunk.
             Inr (ucast upper_chunk * 10 + ucast lower_chunk)))
         else if len = 4 then
           map_ok ucast (checked_conversion_u32 u)
         else if len = 5 then
           and_then (checked_conversion_u32 (take 4 u)) (\<lambda>upper_chunk.
           and_then (checked_conversion_u8 (drop 4 u)) (\<lambda>lower_chunk.
             Inr (ucast upper_chunk * 10 + ucast lower_chunk)))
         else if len = 6 then
           and_then (checked_conversion_u32 (take 4 u)) (\<lambda>upper_chunk.
           and_then (checked_conversion_u16 (drop 4 u)) (\<lambda>lower_chunk.
             Inr (ucast upper_chunk * 100 + ucast lower_chunk)))
         else if len = 7 then
           and_then (checked_conversion_u32 (take 4 u)) (\<lambda>upper_chunk.
           and_then (checked_conversion_u16 (take 2 (drop 4 u))) (\<lambda>mid_chunk.
           and_then (checked_conversion_u8 (drop 6 u)) (\<lambda>lower_chunk.
             Inr (ucast upper_chunk * 1000 + ucast mid_chunk * 10 + ucast lower_chunk))))
         else if len = 8 then
           checked_conversion_u64 u
         else if len = 9 then
           and_then (checked_conversion_u64 (take 8 u)) (\<lambda>upper_chunk.
           and_then (checked_conversion_u8 (drop 8 u)) (\<lambda>lower_chunk.
             Inr (upper_chunk * 10 + ucast lower_chunk)))
         else if len = 10 then
           and_then (checked_conversion_u64 (take 8 u)) (\<lambda>upper_chunk.
           and_then (checked_conversion_u16 (drop 8 u)) (\<lambda>lower_chunk.
             Inr (upper_chunk * 100 + ucast lower_chunk)))
         else if len = 11 then
           and_then (checked_conversion_u64 (take 8 u)) (\<lambda>upper_chunk.
           and_then (checked_conversion_u16 (take 2 (drop 8 u))) (\<lambda>mid_chunk.
           and_then (checked_conversion_u8 (drop 10 u)) (\<lambda>lower_chunk.
             Inr (upper_chunk * 1000 + ucast mid_chunk * 10 + ucast lower_chunk))))
         else if len = 12 then
           and_then (checked_conversion_u64 (take 8 u)) (\<lambda>upper_chunk.
           and_then (checked_conversion_u32 (drop 8 u)) (\<lambda>lower_chunk.
             Inr (upper_chunk * 10000 + ucast lower_chunk)))
         else if len = 13 then
           and_then (checked_conversion_u64 (take 8 u)) (\<lambda>upper_chunk.
           and_then (checked_conversion_u32 (take 4 (drop 8 u))) (\<lambda>mid_chunk.
           and_then (checked_conversion_u8 (drop 12 u)) (\<lambda>lower_chunk.
             Inr (upper_chunk * 100000 + ucast mid_chunk * 10 + ucast lower_chunk))))
         else if len = 14 then
           and_then (checked_conversion_u64 (take 8 u)) (\<lambda>upper_chunk.
           and_then (checked_conversion_u32 (take 4 (drop 8 u))) (\<lambda>mid_chunk.
           and_then (checked_conversion_u16 (drop 12 u)) (\<lambda>lower_chunk.
             Inr (upper_chunk * 1000000 + ucast mid_chunk * 100 + ucast lower_chunk))))
         else if len = 15 then
           and_then (checked_conversion_u64 (take 8 u)) (\<lambda>upper_chunk.
           and_then (checked_conversion_u32 (take 4 (drop 8 u))) (\<lambda>mid_chunk.
           and_then (checked_conversion_u16 (take 2 (drop 12 u))) (\<lambda>lower_chunk.
           and_then (checked_conversion_u8 (drop 14 u)) (\<lambda>last_chunk.
             (case checked_add (upper_chunk * 10000000) (ucast last_chunk + ucast lower_chunk * 10 + ucast mid_chunk * 1000) of Some res \<Rightarrow> Inr res | None \<Rightarrow> Inl (Err Overflow))))))
         else if len = 16 then
           map_ok ucast (checked_conversion_u128 u)
         else if len = 17 then
           and_then (checked_conversion_u128 (take 16 u)) (\<lambda>upper_chunk.
           and_then (checked_conversion_u8 (drop 16 u)) (\<lambda>lower_chunk.
             Inr (ucast upper_chunk * 10 + ucast lower_chunk)))
         else if len = 18 then
           and_then (checked_conversion_u128 (take 16 u)) (\<lambda>upper_chunk.
           and_then (checked_conversion_u16 (drop 16 u)) (\<lambda>lower_chunk.
             Inr (ucast upper_chunk * 100 + ucast lower_chunk)))
         else if len = 19 then
           and_then (checked_conversion_u128 (take 16 u)) (\<lambda>upper_chunk.
           and_then (checked_conversion_u16 (take 2 (drop 16 u))) (\<lambda>mid_chunk.
           and_then (checked_conversion_u8 (drop 18 u)) (\<lambda>lower_chunk.
             (case checked_add (ucast upper_chunk * 1000) (ucast lower_chunk + ucast mid_chunk * 10) of
                Some res \<Rightarrow>
                  if neg_max_check \<and> res > 9223372036854775808 then Inl (Err NegOverflow)
                  else if pos_max_check \<and> res > 9223372036854775807 then Inl (Err Overflow)
                  else Inr res
              | None \<Rightarrow> Inl (Err Overflow)))))
         else
           and_then (checked_conversion_u128 (take 16 u)) (\<lambda>upper_chunk.
           and_then (checked_conversion_u32 (drop 16 u)) (\<lambda>lower_chunk.
             (case checked_add (ucast upper_chunk * 10000) (ucast lower_chunk) of
                Some res \<Rightarrow>
                  if neg_max_check \<and> res > 9223372036854775808 then Inl (Err NegOverflow)
                  else if pos_max_check \<and> res > 9223372036854775807 then Inl (Err Overflow)
                  else Inr res
              | None \<Rightarrow> Inl (Err Overflow)))))"
  by pat_completeness auto
termination
  by (relation "measure (\<lambda>(u, _, _). length u)") auto

declare u64_unsigned_decimal_core.simps [simp del]

function u32_unsigned_decimal_core :: "bytes \<Rightarrow> bool \<Rightarrow> bool \<Rightarrow> u32 parsed" where
  "u32_unsigned_decimal_core u neg_max_check pos_max_check =
     (let len = length u
      in if len > 10 then
           (let start = leading_zeros u
            in if length u - start > 10 then Inl (Err Overflow)
               else u32_unsigned_decimal_core (drop start u) neg_max_check pos_max_check)
         else if len = 0 then Inl (Err Empty)
         else if len = 1 then
           map_ok ucast (checked_conversion_u8 u)
         else if len = 2 then
           map_ok ucast (checked_conversion_u16 u)
         else if len = 3 then
           and_then (checked_conversion_u16 (take 2 u)) (\<lambda>upper_chunk.
           and_then (checked_conversion_u8 (drop 2 u)) (\<lambda>lower_chunk.
             Inr (ucast upper_chunk * 10 + ucast lower_chunk)))
         else if len = 4 then
           checked_conversion_u32 u
         else if len = 5 then
           and_then (checked_conversion_u32 (take 4 u)) (\<lambda>upper_chunk.
           and_then (checked_conversion_u8 (drop 4 u)) (\<lambda>lower_chunk.
             Inr (upper_chunk * 10 + ucast lower_chunk)))
         else if len = 6 then
           and_then (checked_conversion_u32 (take 4 u)) (\<lambda>upper_chunk.
           and_then (checked_conversion_u16 (drop 4 u)) (\<lambda>lower_chunk.
             Inr (upper_chunk * 100 + ucast lower_chunk)))
         else if len = 7 then
           and_then (checked_conversion_u32 (take 4 u)) (\<lambda>upper_chunk.
           and_then (checked_conversion_u16 (take 2 (drop 4 u))) (\<lambda>mid_chunk.
           and_then (checked_conversion_u8 (drop 6 u)) (\<lambda>lower_chunk.
             Inr (upper_chunk * 1000 + ucast mid_chunk * 10 + ucast lower_chunk))))
         else if len = 8 then
           map_ok ucast (checked_conversion_u64 u)
         else if len = 9 then
           and_then (checked_conversion_u64 (take 8 u)) (\<lambda>upper_chunk.
           and_then (checked_conversion_u8 (drop 8 u)) (\<lambda>lower_chunk.
             Inr (ucast upper_chunk * 10 + ucast lower_chunk)))
         else
           and_then (checked_conversion_u64 (take 8 u)) (\<lambda>upper_chunk.
           and_then (checked_conversion_u16 (drop 8 u)) (\<lambda>lower_chunk.
             (case checked_add (ucast upper_chunk * 100) (ucast lower_chunk) of
                Some res \<Rightarrow>
                  if neg_max_check \<and> res > 2147483648 then Inl (Err NegOverflow)
                  else if pos_max_check \<and> res > 2147483647 then Inl (Err Overflow)
                  else Inr res
              | None \<Rightarrow> Inl (Err Overflow)))))"
  by pat_completeness auto
termination
  by (relation "measure (\<lambda>(u, _, _). length u)") auto

declare u32_unsigned_decimal_core.simps [simp del]

function u16_unsigned_decimal_core :: "bytes \<Rightarrow> bool \<Rightarrow> bool \<Rightarrow> u16 parsed" where
  "u16_unsigned_decimal_core u neg_max_check pos_max_check =
     (let len = length u
      in if len > 5 then
           (let start = leading_zeros u
            in if length u - start > 5 then Inl (Err Overflow)
               else u16_unsigned_decimal_core (drop start u) neg_max_check pos_max_check)
         else if len = 0 then Inl (Err Empty)
         else if len = 1 then
           map_ok ucast (checked_conversion_u8 u)
         else if len = 2 then
           checked_conversion_u16 u
         else if len = 3 then
           and_then (checked_conversion_u16 (take 2 u)) (\<lambda>upper_chunk.
           and_then (checked_conversion_u8 (drop 2 u)) (\<lambda>lower_chunk.
             Inr (upper_chunk * 10 + ucast lower_chunk)))
         else if len = 4 then
           map_ok ucast (checked_conversion_u32 u)
         else
           and_then (checked_conversion_u32 (take 4 u)) (\<lambda>upper_chunk.
           and_then (checked_conversion_u8 (drop 4 u)) (\<lambda>lower_chunk.
             (case checked_add (ucast upper_chunk * 10) (ucast lower_chunk) of
                Some res \<Rightarrow>
                  if neg_max_check \<and> res > 32768 then Inl (Err NegOverflow)
                  else if pos_max_check \<and> res > 32767 then Inl (Err Overflow)
                  else Inr res
              | None \<Rightarrow> Inl (Err Overflow)))))"
  by pat_completeness auto
termination
  by (relation "measure (\<lambda>(u, _, _). length u)") auto

declare u16_unsigned_decimal_core.simps [simp del]

function u8_unsigned_decimal_core :: "bytes \<Rightarrow> bool \<Rightarrow> bool \<Rightarrow> u8 parsed" where
  "u8_unsigned_decimal_core u neg_max_check pos_max_check =
     (let len = length u
      in if len > 3 then
           (let start = leading_zeros u
            in if length u - start > 3 then Inl (Err Overflow)
               else u8_unsigned_decimal_core (drop start u) neg_max_check pos_max_check)
         else if len = 0 then Inl (Err Empty)
         else if len = 1 then
           checked_conversion_u8 u
         else if len = 2 then
           map_ok ucast (checked_conversion_u16 u)
         else
           and_then (checked_conversion_u16 (take 2 u)) (\<lambda>upper_chunk.
           and_then (checked_conversion_u8 (drop 2 u)) (\<lambda>lower_chunk.
             (case checked_add (ucast upper_chunk * 10) (lower_chunk) of
                Some res \<Rightarrow>
                  if neg_max_check \<and> res > 128 then Inl (Err NegOverflow)
                  else if pos_max_check \<and> res > 127 then Inl (Err Overflow)
                  else Inr res
              | None \<Rightarrow> Inl (Err Overflow)))))"
  by pat_completeness auto
termination
  by (relation "measure (\<lambda>(u, _, _). length u)") auto

declare u8_unsigned_decimal_core.simps [simp del]

text \<open>\<open>Biscuit::parse_decimal\<close> of the unsigned types.\<close>

definition u128_parse_decimal :: "bytes \<Rightarrow> u128 parsed" where
  "u128_parse_decimal u = u128_unsigned_decimal_core u False False"

definition u64_parse_decimal :: "bytes \<Rightarrow> u64 parsed" where
  "u64_parse_decimal u = u64_unsigned_decimal_core u False False"

definition u32_parse_decimal :: "bytes \<Rightarrow> u32 parsed" where
  "u32_parse_decimal u = u32_unsigned_decimal_core u False False"

definition u16_parse_decimal :: "bytes \<Rightarrow> u16 parsed" where
  "u16_parse_decimal u = u16_unsigned_decimal_core u False False"

definition u8_parse_decimal :: "bytes \<Rightarrow> u8 parsed" where
  "u8_parse_decimal u = u8_unsigned_decimal_core u False False"

subsection \<open>Signed parsers (integer\_decimal.rs)\<close>

text \<open>The magnitude is negated as \<open>!x + 1\<close>. A leading \<open>'+'\<close> is not accepted.\<close>

definition i128_parse_decimal :: "bytes \<Rightarrow> i128 parsed" where
  "i128_parse_decimal u =
     (if u \<noteq> [] \<and> hd u = 0x2D
      then map_ok (\<lambda>val. NOT val + 1) (u128_unsigned_decimal_core (tl u) True False)
      else u128_unsigned_decimal_core u False True)"

definition i64_parse_decimal :: "bytes \<Rightarrow> i64 parsed" where
  "i64_parse_decimal u =
     (if u \<noteq> [] \<and> hd u = 0x2D
      then map_ok (\<lambda>val. NOT val + 1) (u64_unsigned_decimal_core (tl u) True False)
      else u64_unsigned_decimal_core u False True)"

definition i32_parse_decimal :: "bytes \<Rightarrow> i32 parsed" where
  "i32_parse_decimal u =
     (if u \<noteq> [] \<and> hd u = 0x2D
      then map_ok (\<lambda>val. NOT val + 1) (u32_unsigned_decimal_core (tl u) True False)
      else u32_unsigned_decimal_core u False True)"

definition i16_parse_decimal :: "bytes \<Rightarrow> i16 parsed" where
  "i16_parse_decimal u =
     (if u \<noteq> [] \<and> hd u = 0x2D
      then map_ok (\<lambda>val. NOT val + 1) (u16_unsigned_decimal_core (tl u) True False)
      else u16_unsigned_decimal_core u False True)"

definition i8_parse_decimal :: "bytes \<Rightarrow> i8 parsed" where
  "i8_parse_decimal u =
     (if u \<noteq> [] \<and> hd u = 0x2D
      then map_ok (\<lambda>val. NOT val + 1) (u8_unsigned_decimal_core (tl u) True False)
      else u8_unsigned_decimal_core u False True)"

subsection \<open>The chunks of a string\<close>

text \<open>
  Every arm cuts its string along the binary digits of the length: chunks of 16, 16, 8, 4, 2 and 1
  bytes, each present or not.
\<close>

lemma halve_length:
  assumes "length u < 2 * n"
  obtains a v where "u = a @ v" "a = [] \<or> length a = n" "length v < n"
proof (cases "n \<le> length u")
  case True
  then show thesis
    using assms by (intro that [of "take n u" "drop n u"]) auto
next
  case False
  then show thesis
    by (intro that [of "[]" u]) auto
qed

lemma chunk_cases [consumes 1, case_names chunks]:
  assumes "length u < 32"
    and "\<And>a b c d e.
      a = [] \<or> length a = 16 \<Longrightarrow> b = [] \<or> length b = 8 \<Longrightarrow> c = [] \<or> length c = 4 \<Longrightarrow>
      d = [] \<or> length d = 2 \<Longrightarrow> e = [] \<or> length e = 1 \<Longrightarrow> P (a @ b @ c @ d @ e)"
  shows "P u"
proof -
  obtain a v where "u = a @ v" and a: "a = [] \<or> length a = 16" and v: "length v < 16"
    by (rule halve_length [of u 16]) (use assms(1) in auto)
  moreover obtain b w where "v = b @ w" and b: "b = [] \<or> length b = 8" and w: "length w < 8"
    by (rule halve_length [of v 8]) (use v in auto)
  moreover obtain c x where "w = c @ x" and c: "c = [] \<or> length c = 4" and x: "length x < 4"
    by (rule halve_length [of w 4]) (use w in auto)
  moreover obtain d e where "x = d @ e" and d: "d = [] \<or> length d = 2" and e: "length e < 2"
    by (rule halve_length [of x 2]) (use x in auto)
  moreover have "e = [] \<or> length e = 1"
    using e by (cases e) auto
  ultimately show ?thesis
    using assms(2) [of a b c d e] by simp
qed

text \<open>Up to 39 bytes, a further chunk of 16 bytes may come first.\<close>

lemma chunk_cases_40 [consumes 1, case_names chunks]:
  assumes "length u < 40"
    and "\<And>p a b c d e.
      p = [] \<or> length p = 16 \<and> length a = 16 \<and> b = [] \<Longrightarrow>
      a = [] \<or> length a = 16 \<Longrightarrow> b = [] \<or> length b = 8 \<Longrightarrow> c = [] \<or> length c = 4 \<Longrightarrow>
      d = [] \<or> length d = 2 \<Longrightarrow> e = [] \<or> length e = 1 \<Longrightarrow> P (p @ a @ b @ c @ d @ e)"
  shows "P u"
proof (cases "length u < 32")
  case True
  then show ?thesis
    using assms(2) [of "[]"] by (induction u rule: chunk_cases) simp
next
  case False
  then have "length (take 16 u) = 16" "length (drop 16 u) < 32"
    "16 \<le> length (drop 16 u)" "length (drop 16 u) < 24"
    using assms(1) by auto
  from this(2,1,3,4) have "P (take 16 u @ drop 16 u)"
  proof (induction "drop 16 u" rule: chunk_cases)
    case (chunks a b c d e)
    from chunks(6-9) have "length a = 16 \<and> b = []"
      using chunks(1-5) unfolding chunks(6) [symmetric] by (elim disjE; simp)
    with chunks assms(2) [of "take 16 u" a b c d e] show ?case
      by metis
  qed
  then show ?thesis
    by simp
qed

lemma ucast_word_of_nat:
  "n < 2 ^ LENGTH('b) \<Longrightarrow> ucast (word_of_nat n :: 'b::len word) = (word_of_nat n :: 'a::len word)"
  by (simp only: word_unat_eq_iff unsigned_ucast_eq unat_of_nat) (simp add: take_bit_eq_mod)

lemma ucast_chunk:
  "digits u \<Longrightarrow> length u = 16 \<Longrightarrow> ucast (word_of_nat (dec_value u) :: u128) = (word_of_nat (dec_value u) :: 'a::len word)"
  "digits u \<Longrightarrow> length u = 8 \<Longrightarrow> ucast (word_of_nat (dec_value u) :: u64) = (word_of_nat (dec_value u) :: 'a word)"
  "digits u \<Longrightarrow> length u = 4 \<Longrightarrow> ucast (word_of_nat (dec_value u) :: u32) = (word_of_nat (dec_value u) :: 'a word)"
  "digits u \<Longrightarrow> length u = 2 \<Longrightarrow> ucast (word_of_nat (dec_value u) :: u16) = (word_of_nat (dec_value u) :: 'a word)"
  "digits u \<Longrightarrow> length u = 1 \<Longrightarrow> ucast (word_of_nat (dec_value u) :: u8) = (word_of_nat (dec_value u) :: 'a word)"
  by (rule ucast_word_of_nat, drule dec_value_less, simp)+

lemma checked_add_word_of_nat:
  "x + y < 2 ^ LENGTH('a) \<Longrightarrow>
   checked_add (word_of_nat x :: 'a::len word) (word_of_nat y) = Some (word_of_nat (x + y))"
  by (simp add: checked_add_def unat_of_nat take_bit_nat_eq_self)

lemma numeral_less_word_of_nat:
  "n < 2 ^ LENGTH('a) \<Longrightarrow> numeral k < (2::nat) ^ LENGTH('a) \<Longrightarrow>
   (numeral k < (word_of_nat n :: 'a::len word)) \<longleftrightarrow> numeral k < n"
  by (simp add: word_less_nat_alt unat_of_nat take_bit_nat_eq_self)

lemmas chunk_eval = checked_conversion_eqs digits_accepted ucast_chunk dec_value_append Let_def
  mult_numeral_word_of_nat add_word_of_nat

subsection \<open>Numbers that fit are parsed exactly\<close>

text \<open>The two limit checks of the signed types on the magnitude \<open>n\<close>.\<close>

definition limited :: "bool \<Rightarrow> bool \<Rightarrow> nat \<Rightarrow> 'a::len word parsed" where
  "limited neg pos n =
     (if neg \<and> 2 ^ (LENGTH('a) - 1) < n then Inl (Err NegOverflow)
      else if pos \<and> 2 ^ (LENGTH('a) - 1) - 1 < n then Inl (Err Overflow)
      else Inr (word_of_nat n))"

lemma limited_short:
  assumes "digits u" "length u \<le> k" "10 ^ k \<le> (2::nat) ^ (LENGTH('a) - 1)"
  shows "limited neg pos (dec_value u) = Inr (word_of_nat (dec_value u) :: 'a::len word)"
proof -
  have "dec_value u < 10 ^ k"
    using dec_value_less [OF assms(1)] power_increasing [OF assms(2), of "10 :: nat"]
    by linarith
  then show ?thesis
    using assms(3) by (auto simp: limited_def)
qed

lemma checked_sum:
  "x + y < 2 ^ LENGTH('a) \<Longrightarrow>
   (case checked_add (word_of_nat x :: 'a::len word) (word_of_nat y) of
      None \<Rightarrow> Inl (Err Overflow) | Some res \<Rightarrow> Inr res) = (Inr (word_of_nat (x + y)) :: 'a word parsed)"
  by (simp only: checked_add_word_of_nat option.case)

lemma checked_limited:
  assumes "x + y < 2 ^ LENGTH('a)" "1 < LENGTH('a)"
    and "lo = 2 ^ (LENGTH('a) - 1)" "hi = 2 ^ (LENGTH('a) - 1) - 1"
  shows "(case checked_add (word_of_nat x :: 'a::len word) (word_of_nat y) of
            None \<Rightarrow> Inl (Err Overflow)
          | Some res \<Rightarrow> if neg \<and> lo < res then Inl (Err NegOverflow)
              else if pos \<and> hi < res then Inl (Err Overflow) else Inr res)
         = limited neg pos (x + y)"
proof -
  have res: "unat (word_of_nat (x + y) :: 'a word) = x + y"
    using assms(1) by (simp only: unat_of_nat mod_less)
  have lo: "unat lo = 2 ^ (LENGTH('a) - 1)"
    using assms(2,3) by (simp add: unat_eq_nat_uint uint_2p nat_power_eq word_gt_0)
  have "lo \<noteq> 0"
    using lo by (auto simp del: unat_0_iff)
  then have "unat hi = 2 ^ (LENGTH('a) - 1) - 1"
    using assms(3,4) lo by (simp add: unat_minus_one)
  with lo show ?thesis
    unfolding checked_add_word_of_nat [OF assms(1)]
    by (simp only: option.case limited_def word_less_nat_alt res)
qed

lemmas checked_limits =
  checked_limited [where 'a = 8 and lo = 128 and hi = 127, simplified]
  checked_limited [where 'a = 16 and lo = 32768 and hi = 32767, simplified]
  checked_limited [where 'a = 32 and lo = 2147483648 and hi = 2147483647, simplified]
  checked_limited [where 'a = 64 and lo = 9223372036854775808 and hi = 9223372036854775807, simplified]
  checked_limited [where 'a = 128 and lo = 170141183460469231731687303715884105728 and hi = 170141183460469231731687303715884105727, simplified]

text \<open>The 64-bit parser adds its last chunks in the opposite order.\<close>

lemma checked_sum_rev:
  "x + (m + (l + e)) < 2 ^ LENGTH('a) \<Longrightarrow>
   (case checked_add (word_of_nat x :: 'a::len word) (word_of_nat (e + (l + m))) of
      None \<Rightarrow> Inl (Err Overflow) | Some res \<Rightarrow> Inr res)
   = (Inr (word_of_nat (x + (m + (l + e)))) :: 'a word parsed)"
  using checked_sum [of x "m + (l + e)"] by (simp only: ac_simps)

lemma u8_core_digits:
  assumes "digits u" "0 < length u" "length u \<le> 3" "dec_value u < 2 ^ 8"
  shows "u8_unsigned_decimal_core u neg pos = limited neg pos (dec_value u)"
proof -
  have "length u < 32"
    using assms by simp
  moreover have "length u \<le> 2 \<longrightarrow> limited neg pos (dec_value u) = Inr (word_of_nat (dec_value u) :: u8)"
    using limited_short [where 'a = 8, OF assms(1), of 2] by simp
  ultimately show ?thesis
    using assms
    by (induction u rule: chunk_cases)
      ((elim disjE; simp; simp add: u8_unsigned_decimal_core.simps chunk_eval add.assoc checked_limits(1)
        del: of_nat_add of_nat_mult))
qed

lemma u16_core_digits:
  assumes "digits u" "0 < length u" "length u \<le> 5" "dec_value u < 2 ^ 16"
  shows "u16_unsigned_decimal_core u neg pos = limited neg pos (dec_value u)"
proof -
  have "length u < 32"
    using assms by simp
  moreover have "length u \<le> 4 \<longrightarrow> limited neg pos (dec_value u) = Inr (word_of_nat (dec_value u) :: u16)"
    using limited_short [where 'a = 16, OF assms(1), of 4] by simp
  ultimately show ?thesis
    using assms
    by (induction u rule: chunk_cases)
      ((elim disjE; simp; simp add: u16_unsigned_decimal_core.simps chunk_eval add.assoc checked_limits(2)
        del: of_nat_add of_nat_mult))
qed

lemma u32_core_digits:
  assumes "digits u" "0 < length u" "length u \<le> 10" "dec_value u < 2 ^ 32"
  shows "u32_unsigned_decimal_core u neg pos = limited neg pos (dec_value u)"
proof -
  have "length u < 32"
    using assms by simp
  moreover have "length u \<le> 9 \<longrightarrow> limited neg pos (dec_value u) = Inr (word_of_nat (dec_value u) :: u32)"
    using limited_short [where 'a = 32, OF assms(1), of 9] by simp
  ultimately show ?thesis
    using assms
    by (induction u rule: chunk_cases)
      ((elim disjE; simp; simp add: u32_unsigned_decimal_core.simps chunk_eval add.assoc checked_limits(3)
        del: of_nat_add of_nat_mult))
qed

lemma u64_core_digits:
  assumes "digits u" "0 < length u" "length u \<le> 20" "dec_value u < 2 ^ 64"
  shows "u64_unsigned_decimal_core u neg pos = limited neg pos (dec_value u)"
proof -
  have "length u < 32"
    using assms by simp
  moreover have "length u \<le> 18 \<longrightarrow> limited neg pos (dec_value u) = Inr (word_of_nat (dec_value u) :: u64)"
    using limited_short [where 'a = 64, OF assms(1), of 18] by simp
  ultimately show ?thesis
    using assms
    by (induction u rule: chunk_cases)
      ((elim disjE; simp; (simp add: u64_unsigned_decimal_core.simps chunk_eval add.assoc checked_sum_rev checked_limits(4)
        del: of_nat_add of_nat_mult)?), simp only: add.commute)
qed

lemma u128_core_digits:
  assumes "digits u" "0 < length u" "length u \<le> 39" "dec_value u < 2 ^ 128"
  shows "u128_unsigned_decimal_core u neg pos = limited neg pos (dec_value u)"
proof -
  have "length u < 40"
    using assms by simp
  moreover have "length u \<le> 38 \<longrightarrow> limited neg pos (dec_value u) = Inr (word_of_nat (dec_value u) :: u128)"
    using limited_short [where 'a = 128, OF assms(1), of 38] by simp
  ultimately show ?thesis
    using assms
    by (induction u rule: chunk_cases_40)
      ((elim disjE; simp; simp add: u128_unsigned_decimal_core.simps chunk_eval add.assoc checked_sum checked_limits(5)
        del: of_nat_add of_nat_mult))
qed


subsection \<open>What is rejected\<close>

text \<open>The bytes the SWAR check lets through: the digits and the two characters next to them.\<close>

definition near_digits :: "bytes \<Rightarrow> bool" where
  "near_digits u \<longleftrightarrow> list_all (\<lambda>c. 0x2F \<le> c \<and> c \<le> 0x3A) u"

lemma near_digits_simps [simp]:
  "near_digits []"
  "near_digits (b # u) \<longleftrightarrow> (0x2F \<le> b \<and> b \<le> 0x3A) \<and> near_digits u"
  "near_digits (u @ v) \<longleftrightarrow> near_digits u \<and> near_digits v"
  by (simp_all add: near_digits_def)

lemma swar_accepts_near: "swar_accepts u \<Longrightarrow> near_digits u"
  by (cases u) (auto simp: near_digits_def dest: digit_accepted)

text \<open>\<open>sound_reply r u\<close>: no panic, and no value for a string with a byte that is not near a digit.\<close>

definition sound_reply :: "'a parsed \<Rightarrow> bytes \<Rightarrow> bool" where
  "sound_reply r u \<longleftrightarrow> r \<noteq> Inl Panic \<and> (near_digits u \<or> r = Inl (Err InvalidDigit))"

lemma sound_reply_if [simp]:
  "sound_reply (if P then r else s) u \<longleftrightarrow> (if P then sound_reply r u else sound_reply s u)"
  by simp

lemma sound_reply_simps [simp]:
  "sound_reply (Inl (Err InvalidDigit)) u"
  "sound_reply (Inl (Err e)) u \<longleftrightarrow> near_digits u \<or> e = InvalidDigit"
  "sound_reply (Inr x) u \<longleftrightarrow> near_digits u"
  by (auto simp: sound_reply_def)

lemma and_then_if: "and_then (if P then Inr x else Inl e) f = (if P then f x else Inl e)"
  by simp

lemma map_ok_if: "map_ok f (if P then Inr x else Inl e) = (if P then Inr (f x) else Inl e)"
  by simp

lemmas reject_eval = checked_conversion_eqs Let_def and_then_if map_ok_if swar_accepts_near

lemma u8_core_sound:
  assumes "0 < length u" "length u \<le> 3"
  shows "sound_reply (u8_unsigned_decimal_core u neg pos) u"
proof -
  have "length u < 32"
    using assms by simp
  then show ?thesis
    using assms
    by (induction u rule: chunk_cases)
      (elim disjE; simp; auto simp: u8_unsigned_decimal_core.simps reject_eval split: option.split)
qed

lemma u16_core_sound:
  assumes "0 < length u" "length u \<le> 5"
  shows "sound_reply (u16_unsigned_decimal_core u neg pos) u"
proof -
  have "length u < 32"
    using assms by simp
  then show ?thesis
    using assms
    by (induction u rule: chunk_cases)
      (elim disjE; simp; auto simp: u16_unsigned_decimal_core.simps reject_eval split: option.split)
qed

lemma u32_core_sound:
  assumes "0 < length u" "length u \<le> 10"
  shows "sound_reply (u32_unsigned_decimal_core u neg pos) u"
proof -
  have "length u < 32"
    using assms by simp
  then show ?thesis
    using assms
    by (induction u rule: chunk_cases)
      (elim disjE; simp; auto simp: u32_unsigned_decimal_core.simps reject_eval split: option.split)
qed

lemma u64_core_sound:
  assumes "0 < length u" "length u \<le> 20"
  shows "sound_reply (u64_unsigned_decimal_core u neg pos) u"
proof -
  have "length u < 32"
    using assms by simp
  then show ?thesis
    using assms
    by (induction u rule: chunk_cases)
      (elim disjE; simp; auto simp: u64_unsigned_decimal_core.simps reject_eval split: option.split)
qed

lemma u128_core_sound:
  assumes "0 < length u" "length u \<le> 39"
  shows "sound_reply (u128_unsigned_decimal_core u neg pos) u"
proof -
  have "length u < 40"
    using assms by simp
  then show ?thesis
    using assms
    by (induction u rule: chunk_cases_40)
      (elim disjE; simp; auto simp: u128_unsigned_decimal_core.simps reject_eval split: option.split)
qed


subsection \<open>Strings longer than the type's longest number\<close>

lemma leading_zeros_replicate: "u = replicate (leading_zeros u) 0x30 @ drop (leading_zeros u) u"
  by (induction u) auto

lemma dec_value_strip: "dec_value (drop (leading_zeros u) u) = dec_value u"
  by (induction u) (auto simp: dec_value_Cons)

lemma near_digits_strip: "near_digits (drop (leading_zeros u) u) \<Longrightarrow> near_digits u"
  by (induction u) (auto split: if_splits)

text \<open>A positive number below \<open>10 ^ n\<close> has at most \<open>n\<close> digits once its leading zeros are gone.\<close>

lemma strip_length:
  assumes "digits u" "0 < dec_value u" "dec_value u < 10 ^ n"
  shows "0 < length (drop (leading_zeros u) u)" "length (drop (leading_zeros u) u) \<le> n"
proof -
  have "0 < length (drop (leading_zeros u) u) \<and> 10 ^ (length (drop (leading_zeros u) u) - 1) \<le> dec_value u"
    using assms(1,2)
  proof (induction u)
    case (Cons b bs)
    show ?case
    proof (cases "b = 0x30")
      case True
      with Cons show ?thesis
        by (simp add: dec_value_Cons)
    next
      case False
      have "unat b mod 16 = unat b - 48"
        using Cons.prems by (simp add: digit_nibble)
      moreover have "48 < unat b"
        using Cons.prems False by (simp add: is_digit_def word_le_nat_alt word_unat_eq_iff)
      ultimately have "1 \<le> unat b mod 16"
        by simp
      then have "1 * 10 ^ length bs \<le> unat b mod 16 * 10 ^ length bs"
        by (rule mult_le_mono1)
      then have "10 ^ length bs \<le> dec_value (b # bs)"
        unfolding dec_value_Cons by linarith
      with False show ?thesis
        by simp
    qed
  qed simp
  moreover from this assms(3) have "length (drop (leading_zeros u) u) - 1 < n"
    using power_less_imp_less_exp [of "10 :: nat"] by (meson le_less_trans one_less_numeral_iff semiring_norm(76))
  ultimately show "0 < length (drop (leading_zeros u) u)" "length (drop (leading_zeros u) u) \<le> n"
    by linarith+
qed

lemma u8_core_exact:
  assumes "digits u" "0 < dec_value u" "dec_value u < 2 ^ 8"
  shows "u8_unsigned_decimal_core u neg pos = limited neg pos (dec_value u)"
proof (cases "length u \<le> 3")
  case True
  have "0 < length u"
    using assms(2) by (cases u) auto
  then show ?thesis
    using True assms by (simp add: u8_core_digits)
next
  case False
  then have "u8_unsigned_decimal_core u neg pos = u8_unsigned_decimal_core (drop (leading_zeros u) u) neg pos"
    using strip_length [OF assms(1,2), of 3] assms(3)
    by (subst u8_unsigned_decimal_core.simps) (simp add: Let_def)
  then show ?thesis
    using strip_length [OF assms(1,2), of 3] assms by (simp add: u8_core_digits dec_value_strip)
qed

lemma u16_core_exact:
  assumes "digits u" "0 < dec_value u" "dec_value u < 2 ^ 16"
  shows "u16_unsigned_decimal_core u neg pos = limited neg pos (dec_value u)"
proof (cases "length u \<le> 5")
  case True
  have "0 < length u"
    using assms(2) by (cases u) auto
  then show ?thesis
    using True assms by (simp add: u16_core_digits)
next
  case False
  then have "u16_unsigned_decimal_core u neg pos = u16_unsigned_decimal_core (drop (leading_zeros u) u) neg pos"
    using strip_length [OF assms(1,2), of 5] assms(3)
    by (subst u16_unsigned_decimal_core.simps) (simp add: Let_def)
  then show ?thesis
    using strip_length [OF assms(1,2), of 5] assms by (simp add: u16_core_digits dec_value_strip)
qed

lemma u32_core_exact:
  assumes "digits u" "0 < dec_value u" "dec_value u < 2 ^ 32"
  shows "u32_unsigned_decimal_core u neg pos = limited neg pos (dec_value u)"
proof (cases "length u \<le> 10")
  case True
  have "0 < length u"
    using assms(2) by (cases u) auto
  then show ?thesis
    using True assms by (simp add: u32_core_digits)
next
  case False
  then have "u32_unsigned_decimal_core u neg pos = u32_unsigned_decimal_core (drop (leading_zeros u) u) neg pos"
    using strip_length [OF assms(1,2), of 10] assms(3)
    by (subst u32_unsigned_decimal_core.simps) (simp add: Let_def)
  then show ?thesis
    using strip_length [OF assms(1,2), of 10] assms by (simp add: u32_core_digits dec_value_strip)
qed

lemma u64_core_exact:
  assumes "digits u" "0 < dec_value u" "dec_value u < 2 ^ 64"
  shows "u64_unsigned_decimal_core u neg pos = limited neg pos (dec_value u)"
proof (cases "length u \<le> 20")
  case True
  have "0 < length u"
    using assms(2) by (cases u) auto
  then show ?thesis
    using True assms by (simp add: u64_core_digits)
next
  case False
  then have "u64_unsigned_decimal_core u neg pos = u64_unsigned_decimal_core (drop (leading_zeros u) u) neg pos"
    using strip_length [OF assms(1,2), of 20] assms(3)
    by (subst u64_unsigned_decimal_core.simps) (simp add: Let_def)
  then show ?thesis
    using strip_length [OF assms(1,2), of 20] assms by (simp add: u64_core_digits dec_value_strip)
qed

lemma u128_core_exact:
  assumes "digits u" "0 < dec_value u" "dec_value u < 2 ^ 128"
  shows "u128_unsigned_decimal_core u neg pos = limited neg pos (dec_value u)"
proof (cases "length u \<le> 39")
  case True
  have "0 < length u"
    using assms(2) by (cases u) auto
  then show ?thesis
    using True assms by (simp add: u128_core_digits)
next
  case False
  then have "u128_unsigned_decimal_core u neg pos = u128_unsigned_decimal_core (drop (leading_zeros u) u) neg pos"
    using strip_length [OF assms(1,2), of 39] assms(3)
    by (subst u128_unsigned_decimal_core.simps) (simp add: Let_def)
  then show ?thesis
    using strip_length [OF assms(1,2), of 39] assms by (simp add: u128_core_digits dec_value_strip)
qed

text \<open>No panic for any input, and a value only when every byte is near a digit.\<close>

definition near_value :: "'a parsed \<Rightarrow> bytes \<Rightarrow> bool" where
  "near_value r u \<longleftrightarrow> r \<noteq> Inl Panic \<and> (\<forall>v. r = Inr v \<longrightarrow> near_digits u)"

lemma sound_reply_near_value: "sound_reply r u \<Longrightarrow> near_value r u"
  by (auto simp: sound_reply_def near_value_def)

lemma near_value_Err: "near_value (Inl (Err e)) u"
  by (simp add: near_value_def)

lemma near_value_strip: "near_value r (drop (leading_zeros u) u) \<Longrightarrow> near_value r u"
  unfolding near_value_def using near_digits_strip [of u] by simp

lemma short_or_none:
  "u = [] \<or> 0 < length u \<and> length u \<le> n \<or> n < length u" for u :: bytes
  by (cases u) auto

lemma u8_core_near: "near_value (u8_unsigned_decimal_core u neg pos) u"
proof (induction u neg pos rule: u8_unsigned_decimal_core.induct)
  case (1 u neg pos)
  consider "u = []" | "0 < length u" "length u \<le> 3" | "3 < length u"
    using short_or_none by blast
  then show ?case
  proof cases
    case 3
    then show ?thesis
      using 1 near_value_strip [of "u8_unsigned_decimal_core (drop (leading_zeros u) u) neg pos" u]
      by (subst u8_unsigned_decimal_core.simps) (simp add: Let_def near_value_Err)
  qed (simp_all add: u8_core_sound sound_reply_near_value, simp add: u8_unsigned_decimal_core.simps near_value_Err)
qed

lemma u16_core_near: "near_value (u16_unsigned_decimal_core u neg pos) u"
proof (induction u neg pos rule: u16_unsigned_decimal_core.induct)
  case (1 u neg pos)
  consider "u = []" | "0 < length u" "length u \<le> 5" | "5 < length u"
    using short_or_none by blast
  then show ?case
  proof cases
    case 3
    then show ?thesis
      using 1 near_value_strip [of "u16_unsigned_decimal_core (drop (leading_zeros u) u) neg pos" u]
      by (subst u16_unsigned_decimal_core.simps) (simp add: Let_def near_value_Err)
  qed (simp_all add: u16_core_sound sound_reply_near_value, simp add: u16_unsigned_decimal_core.simps near_value_Err)
qed

lemma u32_core_near: "near_value (u32_unsigned_decimal_core u neg pos) u"
proof (induction u neg pos rule: u32_unsigned_decimal_core.induct)
  case (1 u neg pos)
  consider "u = []" | "0 < length u" "length u \<le> 10" | "10 < length u"
    using short_or_none by blast
  then show ?case
  proof cases
    case 3
    then show ?thesis
      using 1 near_value_strip [of "u32_unsigned_decimal_core (drop (leading_zeros u) u) neg pos" u]
      by (subst u32_unsigned_decimal_core.simps) (simp add: Let_def near_value_Err)
  qed (simp_all add: u32_core_sound sound_reply_near_value, simp add: u32_unsigned_decimal_core.simps near_value_Err)
qed

lemma u64_core_near: "near_value (u64_unsigned_decimal_core u neg pos) u"
proof (induction u neg pos rule: u64_unsigned_decimal_core.induct)
  case (1 u neg pos)
  consider "u = []" | "0 < length u" "length u \<le> 20" | "20 < length u"
    using short_or_none by blast
  then show ?case
  proof cases
    case 3
    then show ?thesis
      using 1 near_value_strip [of "u64_unsigned_decimal_core (drop (leading_zeros u) u) neg pos" u]
      by (subst u64_unsigned_decimal_core.simps) (simp add: Let_def near_value_Err)
  qed (simp_all add: u64_core_sound sound_reply_near_value, simp add: u64_unsigned_decimal_core.simps near_value_Err)
qed

lemma u128_core_near: "near_value (u128_unsigned_decimal_core u neg pos) u"
proof (induction u neg pos rule: u128_unsigned_decimal_core.induct)
  case (1 u neg pos)
  consider "u = []" | "0 < length u" "length u \<le> 39" | "39 < length u"
    using short_or_none by blast
  then show ?case
  proof cases
    case 3
    then show ?thesis
      using 1 near_value_strip [of "u128_unsigned_decimal_core (drop (leading_zeros u) u) neg pos" u]
      by (subst u128_unsigned_decimal_core.simps) (simp add: Let_def near_value_Err)
  qed (simp_all add: u128_core_sound sound_reply_near_value, simp add: u128_unsigned_decimal_core.simps near_value_Err)
qed

subsection \<open>What the callers of \<open>parse_decimal\<close> get\<close>

lemmas parse_decimal_defs =
  u8_parse_decimal_def u16_parse_decimal_def u32_parse_decimal_def u64_parse_decimal_def
  u128_parse_decimal_def i8_parse_decimal_def i16_parse_decimal_def i32_parse_decimal_def
  i64_parse_decimal_def i128_parse_decimal_def

lemmas core_nears = u8_core_near u16_core_near u32_core_near u64_core_near u128_core_near

lemma limited_unsigned [simp]: "limited False False n = Inr (word_of_nat n)"
  by (simp add: limited_def)

lemma digits_not_minus: "digits u \<Longrightarrow> u \<noteq> [] \<Longrightarrow> hd u \<noteq> 0x2D"
  by (cases u) (auto simp: is_digit_def word_le_nat_alt)

lemma not_plus_one: "NOT x + 1 = - (x :: 'a::len word)"
  by (simp add: not_eq_complement)

lemma sint_word_of_nat: "n < 2 ^ (LENGTH('a) - 1) \<Longrightarrow> sint (word_of_nat n :: 'a::len word) = int n"
proof -
  assume n: "n < 2 ^ (LENGTH('a) - 1)"
  have "(0::int) < 2 ^ (LENGTH('a) - 1)" "int n < 2 ^ (LENGTH('a) - 1)"
    using of_nat_less_iff [where 'a = int, THEN iffD2, OF n] by simp_all
  then have "signed_take_bit (LENGTH('a) - 1) (int n) = int n"
    by (intro signed_take_bit_int_eq_self) linarith+
  then show ?thesis
    by (simp add: signed_of_nat)
qed

lemma sint_minus_word_of_nat:
  "n \<le> 2 ^ (LENGTH('a) - 1) \<Longrightarrow> sint (- word_of_nat n :: 'a::len word) = - int n"
proof -
  assume n: "n \<le> 2 ^ (LENGTH('a) - 1)"
  have "(0::int) < 2 ^ (LENGTH('a) - 1)" "int n \<le> 2 ^ (LENGTH('a) - 1)"
    using of_nat_le_iff [where 'a = int, THEN iffD2, OF n] by simp_all
  then have "signed_take_bit (LENGTH('a) - 1) (- int n) = - int n"
    by (intro signed_take_bit_int_eq_self) linarith+
  then have "sint (word_of_int (- int n) :: 'a word) = - int n"
    by (simp only: signed_of_int One_nat_def of_int_eq_id id_apply)
  then show ?thesis
    by simp
qed

lemma u64_exact:
  assumes "digits u" and "dec_value u < 2 ^ 64"
    and "0 < dec_value u \<or> 0 < length u \<and> length u \<le> 20"
  shows "u64_parse_decimal u = Inr (word_of_nat (dec_value u))"
  using assms by (auto simp: u64_parse_decimal_def u64_core_exact u64_core_digits)

text \<open>
  C33. \<open>u64::parse_decimal\<close> is exact: a non-empty string of digits whose value fits in 64 bits is
  parsed to that value, whatever its length (leading zeros are dropped), unless it is a run of
  more than 20 zeros.
\<close>

theorem u64_parse_exact:
  assumes "digits u" and "dec_value u < 2 ^ 64"
    and "0 < dec_value u \<or> 0 < length u \<and> length u \<le> 20"
  shows "u64_parse_decimal u = Inr (word_of_nat (dec_value u))"
  by (rule u64_exact [OF assms])

theorem u64_parse_exact_witness:
  "u64_parse_decimal [0x30, 0x31, 0x32, 0x33, 0x34, 0x35, 0x36, 0x37, 0x38, 0x39] = Inr 123456789"
  using u64_parse_exact [of "[0x30, 0x31, 0x32, 0x33, 0x34, 0x35, 0x36, 0x37, 0x38, 0x39]"]
  by (simp add: is_digit_def dec_value_Cons)

text \<open>
  The parsers of the other unsigned types are exact in the same way: the value of a string of
  digits, whenever it is positive and fits.
\<close>

theorem unsigned_parse_exact:
  assumes "digits u" and "0 < dec_value u"
  shows "(dec_value u < 2 ^ 8 \<longrightarrow> u8_parse_decimal u = Inr (word_of_nat (dec_value u))) \<and>
         (dec_value u < 2 ^ 16 \<longrightarrow> u16_parse_decimal u = Inr (word_of_nat (dec_value u))) \<and>
         (dec_value u < 2 ^ 32 \<longrightarrow> u32_parse_decimal u = Inr (word_of_nat (dec_value u))) \<and>
         (dec_value u < 2 ^ 128 \<longrightarrow> u128_parse_decimal u = Inr (word_of_nat (dec_value u)))"
  using assms
  by (simp_all add: parse_decimal_defs u8_core_exact u16_core_exact u32_core_exact u128_core_exact)

theorem unsigned_parse_exact_witness:
  "u8_parse_decimal [0x32, 0x35, 0x35] = Inr 255 \<and> u16_parse_decimal [0x32, 0x35, 0x35] = Inr 255 \<and>
   u32_parse_decimal [0x32, 0x35, 0x35] = Inr 255 \<and> u128_parse_decimal [0x32, 0x35, 0x35] = Inr 255"
  using unsigned_parse_exact [of "[0x32, 0x35, 0x35]"] by (simp add: is_digit_def dec_value_Cons)

text \<open>
  \<open>i64::parse_decimal\<close> is exact on both signs, up to and including the type's limits, and
  answers an overflow of the matching kind for a magnitude beyond them that still fits in 64 bits.
\<close>

theorem i64_parse_exact:
  assumes "digits u" and "0 < dec_value u" and "dec_value u < 2 ^ 64"
  shows "(if dec_value u < 2 ^ 63
          then \<exists>v. i64_parse_decimal u = Inr v \<and> sint v = int (dec_value u)
          else i64_parse_decimal u = Inl (Err Overflow)) \<and>
         (if dec_value u \<le> 2 ^ 63
          then \<exists>v. i64_parse_decimal (0x2D # u) = Inr v \<and> sint v = - int (dec_value u)
          else i64_parse_decimal (0x2D # u) = Inl (Err NegOverflow))"
proof -
  have minus: "\<not> (u \<noteq> [] \<and> hd u = 0x2D)"
    using digits_not_minus [OF assms(1)] by blast
  then have pos: "i64_parse_decimal u = limited False True (dec_value u)"
    unfolding i64_parse_decimal_def if_not_P [OF minus] using assms by (simp add: u64_core_exact)
  have neg: "i64_parse_decimal (0x2D # u) = map_ok uminus (limited True False (dec_value u))"
    unfolding i64_parse_decimal_def using assms by (simp add: u64_core_exact not_plus_one)
  show ?thesis
    unfolding pos neg
    using sint_word_of_nat [where 'a = 64, of "dec_value u"]
      sint_minus_word_of_nat [where 'a = 64, of "dec_value u"]
    by (auto simp: limited_def)
qed

theorem i64_parse_exact_witness:
  "(\<exists>v. i64_parse_decimal [0x37, 0x30] = Inr v \<and> sint v = 70) \<and>
   (\<exists>v. i64_parse_decimal [0x2D, 0x37, 0x30] = Inr v \<and> sint v = - 70)"
  using i64_parse_exact [of "[0x37, 0x30]"] by (simp add: is_digit_def dec_value_Cons)

text \<open>The string after an optional minus sign.\<close>

definition unsigned_part :: "bytes \<Rightarrow> bytes" where
  "unsigned_part u = (if u \<noteq> [] \<and> hd u = 0x2D then tl u else u)"

lemma near_value_map_ok [simp]: "near_value (map_ok f r) u = near_value r u"
  by (cases r) (auto simp: near_value_def)

text \<open>
  No input makes a decimal parser panic, and a value is returned only for a string (after the
  minus sign of a signed one) all of whose bytes are digits or one of the two characters next to
  the digits, which the SWAR check lets through.
\<close>

theorem parse_decimal_sound:
  "near_value (u8_parse_decimal u) u \<and> near_value (u16_parse_decimal u) u \<and>
   near_value (u32_parse_decimal u) u \<and> near_value (u64_parse_decimal u) u \<and>
   near_value (u128_parse_decimal u) u \<and>
   near_value (i8_parse_decimal u) (unsigned_part u) \<and> near_value (i16_parse_decimal u) (unsigned_part u) \<and>
   near_value (i32_parse_decimal u) (unsigned_part u) \<and> near_value (i64_parse_decimal u) (unsigned_part u) \<and>
   near_value (i128_parse_decimal u) (unsigned_part u)"
  by (simp add: parse_decimal_defs core_nears near_value_map_ok unsigned_part_def)

text \<open>
  The longest arm of a parser multiplies with wrap-around before its checked addition, so a
  string of 20 digits whose value does not fit is not always an overflow: the value returned is
  then the number modulo \<open>2 ^ 64\<close>.
\<close>

theorem u64_parse_wraps:
  assumes "digits u" and "length u = 20"
  shows "u64_parse_decimal u =
    (if dec_value (take 16 u) * 10000 mod 2 ^ 64 + dec_value (drop 16 u) < 2 ^ 64
     then Inr (word_of_nat (dec_value u)) else Inl (Err Overflow))"
proof -
  have split: "dec_value u = dec_value (take 16 u) * 10000 + dec_value (drop 16 u)"
    using dec_value_append [of "take 16 u" "drop 16 u"] assms(2) by simp
  have len: "length (take 16 u) = 16" "length (drop 16 u) = 4"
    using assms(2) by simp_all
  have small: "unat (word_of_nat (dec_value (drop 16 u)) :: u64) = dec_value (drop 16 u)"
    using dec_value_less [of "drop 16 u"] assms by (simp add: unat_of_nat)
  have "u64_parse_decimal u =
    (case checked_add (word_of_nat (dec_value (take 16 u) * 10000)) (word_of_nat (dec_value (drop 16 u)) :: u64) of
       None \<Rightarrow> Inl (Err Overflow) | Some res \<Rightarrow> Inr res)"
    using assms len
    by (simp add: u64_parse_decimal_def u64_unsigned_decimal_core.simps checked_conversion_eqs
      digits_accepted ucast_chunk Let_def mult_numeral_word_of_nat cong: option.case_cong
      del: of_nat_mult)
  also have "\<dots> = (if dec_value (take 16 u) * 10000 mod 2 ^ 64 + dec_value (drop 16 u) < 2 ^ 64
     then Inr (word_of_nat (dec_value u)) else Inl (Err Overflow))"
    unfolding checked_add_def small split by (simp add: unat_of_nat del: of_nat_mult)
  finally show ?thesis .
qed

theorem u64_parse_wraps_witness:
  "u64_parse_decimal
    [0x39, 0x39, 0x39, 0x39, 0x39, 0x39, 0x39, 0x39, 0x39, 0x39,
     0x39, 0x39, 0x39, 0x39, 0x39, 0x39, 0x39, 0x39, 0x39, 0x39] = Inr 7766279631452241919"
  using u64_parse_wraps [of "[0x39, 0x39, 0x39, 0x39, 0x39, 0x39, 0x39, 0x39, 0x39, 0x39,
    0x39, 0x39, 0x39, 0x39, 0x39, 0x39, 0x39, 0x39, 0x39, 0x39]"]
  by (simp add: is_digit_def dec_value_Cons)

end
