(* ===== verification/Fixed_Extractor.thy ===== *)
theory Fixed_Extractor
  imports Integer_Parser
begin

text \<open>
  \<open>crates/jeed-convert/src/extractor/config.rs\<close> and \<open>fixed_extractor.rs\<close>: the reader of a
  fixed-width field whose decimal point is always in the same byte. The main results: what
  \<open>parse_with_point\<close> computes on every input (\<open>parse_with_point_u64_eq\<close>), and that
  \<open>to_i64_checked\<close> reads a well-formed field of the shapes the venue uses exactly.

  The floating point members (\<open>fraction_multiplier\<close>, \<open>to_f32\<close>, \<open>to_f64\<close>) are not modelled. The
  sizes are \<open>usize\<close>: \<open>usize_add\<close> and \<open>usize_sub\<close> are its wrapping arithmetic.
\<close>

subsection \<open>Configuration (config.rs)\<close>

datatype config_err = InvalidSize

definition usize_add :: "nat \<Rightarrow> nat \<Rightarrow> nat" where
  "usize_add x y = (x + y) mod 2 ^ 64"

definition usize_sub :: "nat \<Rightarrow> nat \<Rightarrow> nat" where
  "usize_sub x y = (if y \<le> x then x - y else x + 2 ^ 64 - y)"

record config =
  total_size :: nat
  numeric_point_idx :: "nat option"
  fraction_size :: nat
  integer_size :: nat
  is_signed :: bool
  unused_head :: nat
  unused_tail :: nat
  used_numeric_length :: nat
  fraction_divisor :: u64
  numeric_start_idx :: nat
  numeric_end_idx :: nat

definition config_default :: config where
  "config_default = \<lparr> total_size = 0, numeric_point_idx = None, fraction_size = 0, integer_size = 0,
     is_signed = False, unused_head = 0, unused_tail = 0, used_numeric_length = 0,
     fraction_divisor = 0, numeric_start_idx = 0, numeric_end_idx = 0 \<rparr>"

definition with_integer_size :: "nat \<Rightarrow> config \<Rightarrow> config" where
  "with_integer_size n c = c\<lparr>integer_size := n\<rparr>"

definition with_fraction_size :: "nat \<Rightarrow> config \<Rightarrow> config" where
  "with_fraction_size n c = c\<lparr>fraction_size := n\<rparr>"

definition with_is_signed :: "bool \<Rightarrow> config \<Rightarrow> config" where
  "with_is_signed b c = c\<lparr>is_signed := b\<rparr>"

definition with_unused_head :: "nat \<Rightarrow> config \<Rightarrow> config" where
  "with_unused_head n c = c\<lparr>unused_head := n\<rparr>"

definition with_unused_tail :: "nat \<Rightarrow> config \<Rightarrow> config" where
  "with_unused_tail n c = c\<lparr>unused_tail := n\<rparr>"

definition with_numeric_point_idx :: "nat option \<Rightarrow> config \<Rightarrow> config" where
  "with_numeric_point_idx i c = c\<lparr>numeric_point_idx := i\<rparr>"

definition compute_total_size :: "config \<Rightarrow> config" where
  "compute_total_size c =
     (let sign_size = (if is_signed c then 1 else 0);
          fraction_total = (if fraction_size c > 0 then usize_add 1 (fraction_size c) else 0)
      in c\<lparr>total_size := usize_add (usize_add (integer_size c) sign_size) fraction_total\<rparr>)"

definition compute_numeric_indices :: "config \<Rightarrow> config" where
  "compute_numeric_indices c = c\<lparr>numeric_start_idx := unused_head c\<rparr>"

definition compute_numeric_point_idx :: "config \<Rightarrow> config" where
  "compute_numeric_point_idx c =
     (if fraction_size c = 0 then c\<lparr>numeric_point_idx := None\<rparr>
      else
        let effective_fraction_size = int (fraction_size c) - int (unused_tail c)
        in if effective_fraction_size \<le> 0 then c\<lparr>numeric_point_idx := None\<rparr>
           else c\<lparr>numeric_point_idx := Some (usize_sub (integer_size c) (numeric_start_idx c))\<rparr>)"

definition compute_used_numeric_length :: "config \<Rightarrow> config" where
  "compute_used_numeric_length c =
     (let fraction_total = (if fraction_size c > 0 then usize_add 1 (fraction_size c) else 0);
          used = usize_sub (usize_sub (usize_add (integer_size c) fraction_total) (unused_head c))
                   (unused_tail c)
      in c\<lparr>used_numeric_length := used, numeric_end_idx := usize_add (numeric_start_idx c) used\<rparr>)"

definition config_validate :: "config \<Rightarrow> config_err + unit" where
  "config_validate c =
     (let min_required = (if is_signed c then 1 else 0)
      in if total_size c < min_required then Inl InvalidSize
         else if integer_size c = 0 \<and> fraction_size c = 0 then Inl InvalidSize
         else
           let numeric_digits = usize_add (integer_size c) (fraction_size c)
           in if usize_add (unused_head c) (unused_tail c) > numeric_digits then Inl InvalidSize
              else Inr ())"

definition compute_fraction_factors :: "config \<Rightarrow> config" where
  "compute_fraction_factors c =
     (let exponent = fraction_size c - unused_tail c
      in c\<lparr>fraction_divisor := 10 ^ (exponent mod 2 ^ 32)\<rparr>)"

definition config_build :: "config \<Rightarrow> config_err + config" where
  "config_build c =
     (let c = compute_total_size c;
          c = compute_numeric_indices c;
          c = compute_numeric_point_idx c;
          c = compute_used_numeric_length c
      in and_then (config_validate c) (\<lambda>_. Inr (compute_fraction_factors c)))"

subsection \<open>The fixed-width reader (fixed\_extractor.rs)\<close>

definition fixed_clip :: "config \<Rightarrow> bytes \<Rightarrow> bytes parsed" where
  "fixed_clip c data =
     (if length data < numeric_end_idx c then Inl (Err InvalidLength)
      else if numeric_start_idx c > numeric_end_idx c then Inl Panic
      else Inr (drop (numeric_start_idx c) (take (numeric_end_idx c) data)))"

definition point_index :: "config \<Rightarrow> nat option" where
  "point_index c = map_option (\<lambda>i. usize_add i (numeric_start_idx c)) (numeric_point_idx c)"

text \<open>
  The \<open>parse_with_point\<close> routines pad the field in front with \<open>'0'\<close> to 4, 8 or 16 bytes, delete
  the byte at the point's index in the loaded word and parse the bytes after the padding.
\<close>

definition parse_with_point_generic_u8 :: "bytes \<Rightarrow> nat \<Rightarrow> u8 parsed" where
  "parse_with_point_generic_u8 clipped point_idx =
     (if length clipped \<le> 4 then
        let start = 4 - length clipped
        in and_then (le_bytes_to_u32 (pad_front 4 0x30 clipped)) (\<lambda>chunk.
           and_then (squeeze_point_u32 chunk (usize_add point_idx start)) (\<lambda>squeezed.
             u8_parse_decimal (drop start (to_le_bytes 4 squeezed))))
      else Inl (Err Overflow))"

definition parse_with_point_u8 :: "bytes \<Rightarrow> nat \<Rightarrow> u8 parsed" where
  "parse_with_point_u8 clipped point_idx =
     (if length clipped = 0 then Inl (Err Empty)
      else if length clipped = 2 then
        and_then (le_bytes_to_u16 clipped) (\<lambda>chunk.
        and_then (squeeze_point_u16 chunk point_idx) (\<lambda>squeezed.
          u8_parse_decimal (drop 1 (to_le_bytes 2 squeezed))))
      else if length clipped = 4 then
        and_then (le_bytes_to_u32 clipped) (\<lambda>chunk.
        and_then (squeeze_point_u32 chunk point_idx) (\<lambda>squeezed.
          u8_parse_decimal (drop 1 (to_le_bytes 4 squeezed))))
      else parse_with_point_generic_u8 clipped point_idx)"

definition parse_with_point_u16 :: "bytes \<Rightarrow> nat \<Rightarrow> u16 parsed" where
  "parse_with_point_u16 clipped point_idx =
     (if length clipped = 0 then Inl (Err Empty)
      else if length clipped \<le> 4 then
        let start = 4 - length clipped
        in and_then (le_bytes_to_u32 (pad_front 4 0x30 clipped)) (\<lambda>chunk.
           and_then (squeeze_point_u32 chunk (usize_add point_idx start)) (\<lambda>squeezed.
             u16_parse_decimal (drop start (to_le_bytes 4 squeezed))))
      else if length clipped \<le> 8 then
        let start = 8 - length clipped
        in and_then (le_bytes_to_u64 (pad_front 8 0x30 clipped)) (\<lambda>chunk.
           and_then (squeeze_point_u64 chunk (usize_add point_idx start)) (\<lambda>squeezed.
             u16_parse_decimal (drop start (to_le_bytes 8 squeezed))))
      else Inl (Err Overflow))"

definition parse_with_point_u32 :: "bytes \<Rightarrow> nat \<Rightarrow> u32 parsed" where
  "parse_with_point_u32 clipped point_idx =
     (if length clipped = 0 then Inl (Err Empty)
      else if length clipped \<le> 8 then
        let start = 8 - length clipped
        in and_then (le_bytes_to_u64 (pad_front 8 0x30 clipped)) (\<lambda>chunk.
           and_then (squeeze_point_u64 chunk (usize_add point_idx start)) (\<lambda>squeezed.
             u32_parse_decimal (drop start (to_le_bytes 8 squeezed))))
      else if length clipped \<le> 16 then
        let start = 16 - length clipped
        in and_then (le_bytes_to_u128 (pad_front 16 0x30 clipped)) (\<lambda>chunk.
           and_then (squeeze_point_u128 chunk (usize_add point_idx start)) (\<lambda>squeezed.
             u32_parse_decimal (drop start (to_le_bytes 16 squeezed))))
      else Inl (Err Overflow))"

definition parse_with_point_u64 :: "bytes \<Rightarrow> nat \<Rightarrow> u64 parsed" where
  "parse_with_point_u64 clipped point_idx =
     (if length clipped = 0 then Inl (Err Empty)
      else if length clipped \<le> 8 then
        let start = 8 - length clipped
        in and_then (le_bytes_to_u64 (pad_front 8 0x30 clipped)) (\<lambda>chunk.
           and_then (squeeze_point_u64 chunk (usize_add point_idx start)) (\<lambda>squeezed.
             u64_parse_decimal (drop start (to_le_bytes 8 squeezed))))
      else if length clipped \<le> 16 then
        let start = 16 - length clipped
        in and_then (le_bytes_to_u128 (pad_front 16 0x30 clipped)) (\<lambda>chunk.
           and_then (squeeze_point_u128 chunk (usize_add point_idx start)) (\<lambda>squeezed.
             u64_parse_decimal (drop start (to_le_bytes 16 squeezed))))
      else Inl (Err Overflow))"

definition parse_with_point_u128 :: "bytes \<Rightarrow> nat \<Rightarrow> u128 parsed" where
  "parse_with_point_u128 clipped point_idx =
     (if length clipped = 0 then Inl (Err Empty)
      else if length clipped \<le> 16 then
        let start = 16 - length clipped
        in and_then (le_bytes_to_u128 (pad_front 16 0x30 clipped)) (\<lambda>chunk.
           and_then (squeeze_point_u128 chunk (usize_add point_idx start)) (\<lambda>squeezed.
             u128_parse_decimal (drop start (to_le_bytes 16 squeezed))))
      else Inl (Err Overflow))"

definition fixed_to_u8 :: "config \<Rightarrow> bytes \<Rightarrow> u8 parsed" where
  "fixed_to_u8 c data =
     and_then (fixed_clip c data) (\<lambda>clipped.
       case numeric_point_idx c of
         None \<Rightarrow> u8_parse_decimal clipped
       | Some idx \<Rightarrow> parse_with_point_u8 clipped idx)"

definition fixed_to_u16 :: "config \<Rightarrow> bytes \<Rightarrow> u16 parsed" where
  "fixed_to_u16 c data =
     and_then (fixed_clip c data) (\<lambda>clipped.
       case numeric_point_idx c of
         None \<Rightarrow> u16_parse_decimal clipped
       | Some idx \<Rightarrow> parse_with_point_u16 clipped idx)"

definition fixed_to_u32 :: "config \<Rightarrow> bytes \<Rightarrow> u32 parsed" where
  "fixed_to_u32 c data =
     and_then (fixed_clip c data) (\<lambda>clipped.
       case numeric_point_idx c of
         None \<Rightarrow> u32_parse_decimal clipped
       | Some idx \<Rightarrow> parse_with_point_u32 clipped idx)"

definition fixed_to_u64 :: "config \<Rightarrow> bytes \<Rightarrow> u64 parsed" where
  "fixed_to_u64 c data =
     and_then (fixed_clip c data) (\<lambda>clipped.
       case numeric_point_idx c of
         None \<Rightarrow> u64_parse_decimal clipped
       | Some idx \<Rightarrow> parse_with_point_u64 clipped idx)"

definition fixed_to_u128 :: "config \<Rightarrow> bytes \<Rightarrow> u128 parsed" where
  "fixed_to_u128 c data =
     and_then (fixed_clip c data) (\<lambda>clipped.
       case numeric_point_idx c of
         None \<Rightarrow> u128_parse_decimal clipped
       | Some idx \<Rightarrow> parse_with_point_u128 clipped idx)"

definition is_negative_signed :: "config \<Rightarrow> bytes \<Rightarrow> bool" where
  "is_negative_signed c clipped \<longleftrightarrow> is_signed c \<and> clipped \<noteq> [] \<and> hd clipped = 0x2D"

definition parse_unsigned_u8 :: "config \<Rightarrow> bytes \<Rightarrow> bool \<Rightarrow> u8 parsed" where
  "parse_unsigned_u8 c clipped is_after_sign =
     (case numeric_point_idx c of
        None \<Rightarrow> u8_parse_decimal clipped
      | Some idx \<Rightarrow>
          let adjusted_idx = (if is_after_sign then idx - 1 else idx)
          in parse_with_point_u8 clipped adjusted_idx)"

definition parse_unsigned_u16 :: "config \<Rightarrow> bytes \<Rightarrow> bool \<Rightarrow> u16 parsed" where
  "parse_unsigned_u16 c clipped is_after_sign =
     (case numeric_point_idx c of
        None \<Rightarrow> u16_parse_decimal clipped
      | Some idx \<Rightarrow>
          let adjusted_idx = (if is_after_sign then idx - 1 else idx)
          in parse_with_point_u16 clipped adjusted_idx)"

definition parse_unsigned_u32 :: "config \<Rightarrow> bytes \<Rightarrow> bool \<Rightarrow> u32 parsed" where
  "parse_unsigned_u32 c clipped is_after_sign =
     (case numeric_point_idx c of
        None \<Rightarrow> u32_parse_decimal clipped
      | Some idx \<Rightarrow>
          let adjusted_idx = (if is_after_sign then idx - 1 else idx)
          in parse_with_point_u32 clipped adjusted_idx)"

definition parse_unsigned_u64 :: "config \<Rightarrow> bytes \<Rightarrow> bool \<Rightarrow> u64 parsed" where
  "parse_unsigned_u64 c clipped is_after_sign =
     (case numeric_point_idx c of
        None \<Rightarrow> u64_parse_decimal clipped
      | Some idx \<Rightarrow>
          let adjusted_idx = (if is_after_sign then idx - 1 else idx)
          in parse_with_point_u64 clipped adjusted_idx)"

definition parse_unsigned_u128 :: "config \<Rightarrow> bytes \<Rightarrow> bool \<Rightarrow> u128 parsed" where
  "parse_unsigned_u128 c clipped is_after_sign =
     (case numeric_point_idx c of
        None \<Rightarrow> u128_parse_decimal clipped
      | Some idx \<Rightarrow>
          let adjusted_idx = (if is_after_sign then idx - 1 else idx)
          in parse_with_point_u128 clipped adjusted_idx)"

definition fixed_to_i8 :: "config \<Rightarrow> bytes \<Rightarrow> i8 parsed" where
  "fixed_to_i8 c data =
     and_then (fixed_clip c data) (\<lambda>clipped.
       if is_negative_signed c clipped then
         and_then (parse_unsigned_u8 c (tl clipped) True) (\<lambda>unsigned.
           if unsigned > 128 then Inl (Err NegOverflow)
           else Inr (NOT unsigned + 1))
       else
         and_then (parse_unsigned_u8 c clipped False) (\<lambda>unsigned.
           if unsigned > 127 then Inl (Err Overflow)
           else Inr unsigned))"

definition fixed_to_i16 :: "config \<Rightarrow> bytes \<Rightarrow> i16 parsed" where
  "fixed_to_i16 c data =
     and_then (fixed_clip c data) (\<lambda>clipped.
       if is_negative_signed c clipped then
         and_then (parse_unsigned_u16 c (tl clipped) True) (\<lambda>unsigned.
           if unsigned > 32768 then Inl (Err NegOverflow)
           else Inr (NOT unsigned + 1))
       else
         and_then (parse_unsigned_u16 c clipped False) (\<lambda>unsigned.
           if unsigned > 32767 then Inl (Err Overflow)
           else Inr unsigned))"

definition fixed_to_i32 :: "config \<Rightarrow> bytes \<Rightarrow> i32 parsed" where
  "fixed_to_i32 c data =
     and_then (fixed_clip c data) (\<lambda>clipped.
       if is_negative_signed c clipped then
         and_then (parse_unsigned_u32 c (tl clipped) True) (\<lambda>unsigned.
           if unsigned > 2147483648 then Inl (Err NegOverflow)
           else Inr (NOT unsigned + 1))
       else
         and_then (parse_unsigned_u32 c clipped False) (\<lambda>unsigned.
           if unsigned > 2147483647 then Inl (Err Overflow)
           else Inr unsigned))"

definition fixed_to_i64 :: "config \<Rightarrow> bytes \<Rightarrow> i64 parsed" where
  "fixed_to_i64 c data =
     and_then (fixed_clip c data) (\<lambda>clipped.
       if is_negative_signed c clipped then
         and_then (parse_unsigned_u64 c (tl clipped) True) (\<lambda>unsigned.
           if unsigned > 9223372036854775808 then Inl (Err NegOverflow)
           else Inr (NOT unsigned + 1))
       else
         and_then (parse_unsigned_u64 c clipped False) (\<lambda>unsigned.
           if unsigned > 9223372036854775807 then Inl (Err Overflow)
           else Inr unsigned))"

definition fixed_to_i128 :: "config \<Rightarrow> bytes \<Rightarrow> i128 parsed" where
  "fixed_to_i128 c data =
     and_then (fixed_clip c data) (\<lambda>clipped.
       if is_negative_signed c clipped then
         and_then (parse_unsigned_u128 c (tl clipped) True) (\<lambda>unsigned.
           if unsigned > 170141183460469231731687303715884105728 then Inl (Err NegOverflow)
           else Inr (NOT unsigned + 1))
       else
         and_then (parse_unsigned_u128 c clipped False) (\<lambda>unsigned.
           if unsigned > 170141183460469231731687303715884105727 then Inl (Err Overflow)
           else Inr unsigned))"

definition fixed_to_i64_checked :: "config \<Rightarrow> bytes \<Rightarrow> i64 parsed" where
  "fixed_to_i64_checked c data =
     (case point_index c of
        None \<Rightarrow> fixed_to_i64 c data
      | Some idx \<Rightarrow>
          if idx < length data then
            if data ! idx = 0x2E then fixed_to_i64 c data else Inl (Err InvalidPointLocation)
          else Inl (Err InvalidLength))"

subsection \<open>Parsing with a point\<close>

lemma length_pad_front [simp]: "length c \<le> n \<Longrightarrow> length (pad_front n b c) = n"
  by (simp add: pad_front_def)

text \<open>Deleting a byte of the padded field is deleting it from the field.\<close>

lemma squeezed_pad_front:
  assumes "p < length c" "length c \<le> n"
  shows "drop (n - length c) (squeezed (pad_front n 0x30 c) (p + (n - length c))) = squeezed c p"
proof -
  define k where "k = n - length c"
  have "squeezed (replicate k 0x30 @ c) (p + k) = 0x30 # replicate k 0x30 @ take p c @ drop (Suc p) c"
    by (simp add: squeezed_def)
  also have "\<dots> = replicate k 0x30 @ 0x30 # take p c @ drop (Suc p) c"
    by (simp add: replicate_app_Cons_same)
  finally have eq: "squeezed (replicate k 0x30 @ c) (p + k)
      = replicate k 0x30 @ 0x30 # take p c @ drop (Suc p) c" .
  show ?thesis
    unfolding pad_front_def k_def [symmetric] eq by (simp add: squeezed_def)
qed

text \<open>
  The location test looks at the byte at the mirrored index of the loaded word, which is this byte
  of the padded field.
\<close>

definition mirrored :: "nat \<Rightarrow> bytes \<Rightarrow> nat \<Rightarrow> u8" where
  "mirrored n c p = pad_front n 0x30 c ! (length c - 1 - p)"

text \<open>What a field with point index \<open>p\<close> is read as, for the word size \<open>n\<close> it is loaded in.\<close>

definition pointed :: "nat \<Rightarrow> (bytes \<Rightarrow> 'a parsed) \<Rightarrow> bytes \<Rightarrow> nat \<Rightarrow> 'a parsed" where
  "pointed n parse c p =
     (if length c \<le> p then Inl (Err InvalidPointIndex)
      else if mirrored n c p = 0x2E then Inl (Err InvalidPointLocation)
      else parse (squeezed c p))"

lemma usize_add_small: "x + y < 18446744073709551616 \<Longrightarrow> usize_add x y = x + y"
  by (simp add: usize_add_def)

lemma mirrored_index: "p < length c \<Longrightarrow> length c \<le> n \<Longrightarrow>
  pad_front n 0x30 c ! (n - Suc (p + (n - length c))) = mirrored n c p"
  by (simp add: mirrored_def)

lemma load_squeeze_u32:
  assumes "length c \<le> 4" "c \<noteq> []" "p < 2 ^ 63"
  shows "and_then (le_bytes_to_u32 (pad_front 4 0x30 c)) (\<lambda>chunk.
           and_then (squeeze_point_u32 chunk (usize_add p (4 - length c))) (\<lambda>squeezed.
             parse (drop (4 - length c) (to_le_bytes 4 squeezed)))) = pointed 4 parse c p"
proof (cases "p < length c")
  case True
  with assms show ?thesis
    using mirrored_index [of p c 4] squeezed_pad_front [of p c 4]
    by (simp add: le_bytes_to_u32_def squeeze_point_u32_bytes pointed_def to_le_bytes_from_le_bytes
        usize_add_small)
next
  case False
  then have "4 \<le> usize_add p (4 - length c)"
    using assms by (simp add: usize_add_small)
  with assms False show ?thesis
    by (simp add: le_bytes_to_u32_def squeeze_point_u32_def pointed_def)
qed

lemma load_squeeze_u64:
  assumes "length c \<le> 8" "c \<noteq> []" "p < 2 ^ 63"
  shows "and_then (le_bytes_to_u64 (pad_front 8 0x30 c)) (\<lambda>chunk.
           and_then (squeeze_point_u64 chunk (usize_add p (8 - length c))) (\<lambda>squeezed.
             parse (drop (8 - length c) (to_le_bytes 8 squeezed)))) = pointed 8 parse c p"
proof (cases "p < length c")
  case True
  with assms show ?thesis
    using mirrored_index [of p c 8] squeezed_pad_front [of p c 8]
    by (simp add: le_bytes_to_u64_def squeeze_point_u64_bytes pointed_def to_le_bytes_from_le_bytes
        usize_add_small)
next
  case False
  then have "8 \<le> usize_add p (8 - length c)"
    using assms by (simp add: usize_add_small)
  with assms False show ?thesis
    by (simp add: le_bytes_to_u64_def squeeze_point_u64_def pointed_def)
qed

lemma load_squeeze_u128:
  assumes "length c \<le> 16" "c \<noteq> []" "p < 2 ^ 63"
  shows "and_then (le_bytes_to_u128 (pad_front 16 0x30 c)) (\<lambda>chunk.
           and_then (squeeze_point_u128 chunk (usize_add p (16 - length c))) (\<lambda>squeezed.
             parse (drop (16 - length c) (to_le_bytes 16 squeezed)))) = pointed 16 parse c p"
proof (cases "p < length c")
  case True
  with assms show ?thesis
    using mirrored_index [of p c 16] squeezed_pad_front [of p c 16]
    by (simp add: le_bytes_to_u128_def squeeze_point_u128_bytes pointed_def to_le_bytes_from_le_bytes
        usize_add_small)
next
  case False
  then have "16 \<le> usize_add p (16 - length c)"
    using assms by (simp add: usize_add_small)
  with assms False show ?thesis
    by (simp add: le_bytes_to_u128_def squeeze_point_u128_def pointed_def)
qed

lemmas load_squeeze = load_squeeze_u32 load_squeeze_u64 load_squeeze_u128

lemma parse_with_point_u64_eq:
  assumes "p < 2 ^ 63"
  shows "parse_with_point_u64 c p =
    (if c = [] then Inl (Err Empty)
     else if length c \<le> 16 then pointed (if length c \<le> 8 then 8 else 16) u64_parse_decimal c p
     else Inl (Err Overflow))"
  using assms by (simp add: parse_with_point_u64_def load_squeeze Let_def)

lemma parse_with_point_u32_eq:
  assumes "p < 2 ^ 63"
  shows "parse_with_point_u32 c p =
    (if c = [] then Inl (Err Empty)
     else if length c \<le> 16 then pointed (if length c \<le> 8 then 8 else 16) u32_parse_decimal c p
     else Inl (Err Overflow))"
  using assms by (simp add: parse_with_point_u32_def load_squeeze Let_def)

lemma parse_with_point_u16_eq:
  assumes "p < 2 ^ 63"
  shows "parse_with_point_u16 c p =
    (if c = [] then Inl (Err Empty)
     else if length c \<le> 8 then pointed (if length c \<le> 4 then 4 else 8) u16_parse_decimal c p
     else Inl (Err Overflow))"
  using assms by (simp add: parse_with_point_u16_def load_squeeze Let_def)

lemma parse_with_point_u128_eq:
  assumes "p < 2 ^ 63"
  shows "parse_with_point_u128 c p =
    (if c = [] then Inl (Err Empty)
     else if length c \<le> 16 then pointed 16 u128_parse_decimal c p else Inl (Err Overflow))"
  using assms by (simp add: parse_with_point_u128_def load_squeeze Let_def)

lemmas parse_with_point_eqs =
  parse_with_point_u16_eq parse_with_point_u32_eq parse_with_point_u64_eq parse_with_point_u128_eq

text \<open>
  A field with one point, where it belongs: the mirrored byte cannot be the point, since the word
  has an even number of bytes.
\<close>

lemma point_unique:
  fixes i f :: bytes
  assumes "0x2E \<notin> set i" "0x2E \<notin> set f" "j < length (i @ 0x2E # f)" "(i @ 0x2E # f) ! j = 0x2E"
  shows "j = length i"
proof (rule ccontr)
  assume "j \<noteq> length i"
  then consider "j < length i" | m where "j = length i + Suc m" "m < length f"
    using assms(3) less_imp_Suc_add [of "length i" j] by fastforce
  then show False
    using assms(1,2,4) by cases (auto simp: nth_append dest: nth_mem)
qed

lemma digits_no_point: "digits u \<Longrightarrow> 0x2E \<notin> set u"
  by (auto simp: digits_def list_all_iff is_digit_def word_le_nat_alt)

lemma mirrored_no_point:
  assumes "0x2E \<notin> set i" "0x2E \<notin> set f" "even n" "length (i @ 0x2E # f) \<le> n"
  shows "mirrored n (i @ 0x2E # f) (length i) \<noteq> 0x2E"
proof
  let ?c = "i @ 0x2E # f"
  define k where "k = n - length ?c"
  have n: "n = k + length i + 1 + length f"
    using assms(4) by (simp add: k_def)
  assume "mirrored n ?c (length i) = 0x2E"
  then have point: "(replicate k 0x30 @ ?c) ! length f = 0x2E"
    by (simp add: mirrored_def pad_front_def k_def)
  have "\<not> length f < k"
  proof
    assume "length f < k"
    with point show False
      by (simp add: nth_append)
  qed
  with point have "?c ! (length f - k) = 0x2E"
    by (simp add: nth_append [of "replicate k 0x30"])
  then have "length f - k = length i"
    by (rule point_unique [OF assms(1,2), rotated]) simp
  with n assms(3) \<open>\<not> length f < k\<close> show False
    by presburger
qed

lemma pointed_field:
  assumes "0x2E \<notin> set i" "0x2E \<notin> set f" "even n" "length (i @ 0x2E # f) \<le> n"
  shows "pointed n parse (i @ 0x2E # f) (length i) = parse (0x30 # i @ f)"
  using mirrored_no_point [OF assms] by (simp add: pointed_def squeezed_def)

subsection \<open>The shape of a signed field\<close>

text \<open>
  What \<open>build\<close> makes of a signed field with \<open>lead\<close> bytes before the point (sign included) and
  \<open>frac\<close> digits after it.
\<close>

definition shape :: "nat \<Rightarrow> nat \<Rightarrow> config" where
  "shape lead frac = config_default\<lparr> is_signed := True, integer_size := lead, fraction_size := frac,
     total_size := lead + 1 + (if frac = 0 then 0 else 1 + frac),
     numeric_point_idx := (if frac = 0 then None else Some lead),
     used_numeric_length := lead + (if frac = 0 then 0 else 1 + frac),
     numeric_end_idx := lead + (if frac = 0 then 0 else 1 + frac),
     fraction_divisor := 10 ^ (frac mod 2 ^ 32) \<rparr>"

lemma usize_sub_le: "y \<le> x \<Longrightarrow> usize_sub x y = x - y"
  by (simp add: usize_sub_def)

lemma config_build_shape:
  assumes "0 < lead" "lead + frac < 2 ^ 63"
  shows "config_build (with_fraction_size frac (with_integer_size lead (with_is_signed True config_default)))
         = Inr (shape lead frac)"
proof -
  have "usize_add 1 frac = 1 + frac" "usize_add lead 1 = lead + 1" "usize_add lead frac = lead + frac"
    "usize_add (lead + 1) (1 + frac) = lead + 1 + (1 + frac)"
    "usize_add lead (1 + frac) = lead + (1 + frac)" "usize_add 0 (lead + (1 + frac)) = lead + (1 + frac)"
    "usize_add n 0 = n" "usize_add 0 n = n" "usize_sub n 0 = n" if "n < 2 ^ 64" for n
    using assms that by (simp_all add: usize_add_def usize_sub_def)
  note sizes = this(1-6) [of 0, simplified] this(7-9) [of lead] this(7-9) [of "lead + (1 + frac)"]
    this(7-9) [of "Suc lead"] this(7-9) [of "Suc (lead + frac)"] this(7-9) [of 0]
  show ?thesis
    using assms
    by (simp add: config_build_def with_fraction_size_def with_integer_size_def with_is_signed_def
      compute_total_size_def compute_numeric_indices_def compute_numeric_point_idx_def
      compute_used_numeric_length_def config_validate_def compute_fraction_factors_def shape_def
      config_default_def Let_def sizes)
qed

lemma shape_simps [simp]:
  "numeric_start_idx (shape lead frac) = 0"
  "numeric_end_idx (shape lead frac) = lead + (if frac = 0 then 0 else 1 + frac)"
  "numeric_point_idx (shape lead frac) = (if frac = 0 then None else Some lead)"
  "is_signed (shape lead frac)"
  by (simp_all add: shape_def config_default_def)

lemma clip_shape:
  "length field = lead + (if frac = 0 then 0 else 1 + frac) \<Longrightarrow>
   fixed_clip (shape lead frac) (field @ rest) = Inr field"
  by (simp add: fixed_clip_def)

lemma u64_small:
  assumes "digits u" "0 < length u" "length u \<le> 18"
  shows "u64_parse_decimal u = Inr (word_of_nat (dec_value u))"
    and "(word_of_nat (dec_value u) :: u64) \<le> 9223372036854775807"
proof -
  have less: "dec_value u < 10 ^ 18"
    using dec_value_less [OF assms(1)] power_increasing [OF assms(3), of "10 :: nat"] by linarith
  then show "u64_parse_decimal u = Inr (word_of_nat (dec_value u))"
    using assms by (simp add: u64_parse_decimal_def u64_core_digits)
  show "(word_of_nat (dec_value u) :: u64) \<le> 9223372036854775807"
    using less by (simp add: word_le_nat_alt unat_of_nat take_bit_nat_eq_self)
qed

lemma u64_plus_sign:
  assumes "digits u" "length u \<le> 15"
  shows "u64_parse_decimal (0x30 # 0x2B # u) = Inl (Err InvalidDigit)"
    and "length u \<noteq> 0 \<Longrightarrow> u64_parse_decimal (0x2B # u) = Inl (Err InvalidDigit)"
  using u64_core_sound [of "0x30 # 0x2B # u" False False] u64_core_sound [of "0x2B # u" False False] assms
  by (auto simp: u64_parse_decimal_def sound_reply_def word_le_nat_alt)

text \<open>The magnitude of a signed field: the digits around the point, or the digits alone.\<close>

definition signed_field :: "u8 \<Rightarrow> bytes \<Rightarrow> bytes \<Rightarrow> bytes" where
  "signed_field sign i f = sign # i @ (if f = [] then [] else 0x2E # f)"

lemma length_signed_field [simp]:
  "length (signed_field s i f) = Suc (length i) + (if length f = 0 then 0 else 1 + length f)"
  by (simp add: signed_field_def)

lemma parse_unsigned_field:
  assumes "digits i" "digits f" "0 < length (i @ f)" "length (i @ f) \<le> 14"
  shows "parse_unsigned_u64 (shape (Suc (length i)) (length f)) (signed_field 0x30 i f) False
         = Inr (word_of_nat (dec_value (i @ f)))"
    and "parse_unsigned_u64 (shape (Suc (length i)) (length f)) (tl (signed_field s i f)) True
         = Inr (word_of_nat (dec_value (i @ f)))"
proof -
  have point: "0x30 # i @ 0x2E # f = (0x30 # i) @ 0x2E # f" "length (0x30 # i) = Suc (length i)"
    by simp_all
  have zero: "digits (0x30 # i)" "digits (0x30 # i @ f)" "digits (0x30 # 0x30 # i @ f)"
    using assms(1,2) by (simp_all add: is_digit_def)
  show "parse_unsigned_u64 (shape (Suc (length i)) (length f)) (signed_field 0x30 i f) False
         = Inr (word_of_nat (dec_value (i @ f)))"
    using pointed_field [OF zero(1) [THEN digits_no_point] assms(2) [THEN digits_no_point], of 8 u64_parse_decimal]
      pointed_field [OF zero(1) [THEN digits_no_point] assms(2) [THEN digits_no_point], of 16 u64_parse_decimal] u64_small(1) [OF zero(3)] u64_small(1) [OF zero(2)] assms
    by (auto simp: parse_unsigned_u64_def parse_with_point_u64_eq signed_field_def dec_value_Cons)
  show "parse_unsigned_u64 (shape (Suc (length i)) (length f)) (tl (signed_field s i f)) True
         = Inr (word_of_nat (dec_value (i @ f)))"
    using pointed_field [OF assms(1,2) [THEN digits_no_point], of 8 u64_parse_decimal]
      pointed_field [OF assms(1,2) [THEN digits_no_point], of 16 u64_parse_decimal] u64_small(1) [OF zero(2)] u64_small(1) [of "i @ f"] assms
    by (auto simp: parse_unsigned_u64_def parse_with_point_u64_eq signed_field_def dec_value_Cons)
qed

lemma point_index_shape:
  "point_index (shape lead frac) = (if frac = 0 then None else Some lead)" if "lead < 2 ^ 63"
  using that by (simp add: point_index_def usize_add_small)

lemma signed_field_point: "f \<noteq> [] \<Longrightarrow> (signed_field s i f @ rest) ! Suc (length i) = 0x2E"
  by (simp add: signed_field_def nth_append)

lemma checked_is_plain:
  "length i < 2 ^ 32 \<Longrightarrow> fixed_to_i64_checked (shape (Suc (length i)) (length f)) (signed_field s i f @ rest)
   = fixed_to_i64 (shape (Suc (length i)) (length f)) (signed_field s i f @ rest)"
  using signed_field_point [of f s i rest]
  by (simp add: fixed_to_i64_checked_def point_index_shape)

lemma fixed_to_i64_field:
  assumes "digits i" "digits f" "0 < length (i @ f)" "length (i @ f) \<le> 14"
  shows "fixed_to_i64 (shape (Suc (length i)) (length f)) (signed_field 0x30 i f @ rest)
         = Inr (word_of_nat (dec_value (i @ f)))"
    and "fixed_to_i64 (shape (Suc (length i)) (length f)) (signed_field 0x2D i f @ rest)
         = Inr (- word_of_nat (dec_value (i @ f)))"
proof -
  have le: "(word_of_nat (dec_value (i @ f)) :: u64) \<le> 9223372036854775807"
    by (rule u64_small(2)) (use assms in simp_all)
  then have le': "(word_of_nat (dec_value (i @ f)) :: u64) \<le> 9223372036854775808"
    by (rule order_trans) simp
  have sign: "is_negative_signed (shape l n) (signed_field 0x2D i f)"
    "\<not> is_negative_signed (shape l n) (signed_field 0x30 i f)" for l n
    by (simp_all add: is_negative_signed_def signed_field_def)
  have clip: "fixed_clip (shape (Suc (length i)) (length f)) (signed_field s i f @ rest)
      = Inr (signed_field s i f)" for s
    by (rule clip_shape) simp
  show "fixed_to_i64 (shape (Suc (length i)) (length f)) (signed_field 0x30 i f @ rest)
        = Inr (word_of_nat (dec_value (i @ f)))"
    using parse_unsigned_field(1) [OF assms] le by (simp add: fixed_to_i64_def clip sign not_less)
  show "fixed_to_i64 (shape (Suc (length i)) (length f)) (signed_field 0x2D i f @ rest)
        = Inr (- word_of_nat (dec_value (i @ f)))"
    using parse_unsigned_field(2) [OF assms] le' by (simp add: fixed_to_i64_def clip sign not_less not_plus_one)
qed

lemma literal_sizes: "Suc (Suc 0) = 2" "Suc 2 = 3"
  by simp_all

lemma checked_field_exact:
  assumes "digits i" and "digits f" and "0 < length (i @ f)" and "length (i @ f) \<le> 14"
    and "config_build (with_fraction_size (length f) (with_integer_size (Suc (length i))
           (with_is_signed True config_default))) = Inr c"
  shows "(\<exists>v. fixed_to_i64_checked c (signed_field 0x30 i f @ rest) = Inr v \<and>
              sint v = int (dec_value (i @ f))) \<and>
         (\<exists>v. fixed_to_i64_checked c (signed_field 0x2D i f @ rest) = Inr v \<and>
              sint v = - int (dec_value (i @ f)))"
proof -
  have c: "c = shape (Suc (length i)) (length f)"
    using assms(4,5) by (simp add: config_build_shape)
  have "dec_value (i @ f) < 10 ^ 14"
    using dec_value_less [of "i @ f"] power_increasing [OF assms(4), of "10 :: nat"] assms(1,2)
    by simp
  then show ?thesis
    using fixed_to_i64_field [OF assms(1-4), of rest] assms(4) sint_word_of_nat [where 'a = 64]
      sint_minus_word_of_nat [where 'a = 64]
    by (simp add: c checked_is_plain)
qed

text \<open>
  A leading plus sign is not read: the same fields with \<open>'+'\<close> in the sign byte are refused
  as an invalid digit.
\<close>

lemma checked_field_plus:
  assumes "digits i" and "digits f" and "0 < length (i @ f)" and "length (i @ f) \<le> 14"
  shows "fixed_to_i64_checked (shape (Suc (length i)) (length f)) (signed_field 0x2B i f @ rest)
         = Inl (Err InvalidDigit)"
proof -
  have clip: "fixed_clip (shape (Suc (length i)) (length f)) (signed_field 0x2B i f @ rest)
      = Inr (signed_field 0x2B i f)"
    by (rule clip_shape) simp
  have "0x2E \<notin> set (0x2B # i)"
    using digits_no_point [OF assms(1)] by simp
  note point = pointed_field [OF this assms(2) [THEN digits_no_point]]
  have "digits (i @ f)" "length (i @ f) \<le> 15"
    using assms by simp_all
  note sign = u64_plus_sign [OF this]
  have "parse_unsigned_u64 (shape (Suc (length i)) (length f)) (signed_field 0x2B i f) False
      = Inl (Err InvalidDigit)"
    using point [of 8 u64_parse_decimal] point [of 16 u64_parse_decimal] sign assms
    by (auto simp: parse_unsigned_u64_def parse_with_point_u64_eq signed_field_def)
  moreover have "\<not> is_negative_signed (shape l n) (signed_field 0x2B i f)" for l n
    by (simp add: is_negative_signed_def signed_field_def)
  ultimately have "fixed_to_i64 (shape (Suc (length i)) (length f)) (signed_field 0x2B i f @ rest)
      = Inl (Err InvalidDigit)"
    by (simp add: fixed_to_i64_def clip)
  then show ?thesis
    using assms(4) by (simp add: checked_is_plain)
qed

text \<open>
  The widths a reader takes. With a point the field and its sign byte have to fit in 16 bytes, the minus sign
  not counted; without one the number has to fit its type.
\<close>

lemma dec_value_18:
  assumes "digits u" "length u \<le> 18"
  shows "dec_value u < 10 ^ 18"
  using dec_value_less [OF assms(1)] power_increasing [OF assms(2), of "10 :: nat"] by linarith

lemma u64_sign_digits:
  assumes "digits u" "length u \<le> 18"
  shows "u64_parse_decimal (0x30 # u) = Inr (word_of_nat (dec_value u))"
    and "0 < length u \<Longrightarrow> u64_parse_decimal u = Inr (word_of_nat (dec_value u))"
  using u64_exact [of "0x30 # u"] u64_exact [of u] assms dec_value_18 [OF assms]
  by (simp_all add: is_digit_def dec_value_Cons)

lemma parse_field_wide:
  assumes "digits i" "digits f" "0 < length (i @ f)" "length i < 2 ^ 32" "f = [] \<longrightarrow> length i \<le> 18"
  shows "parse_unsigned_u64 (shape (Suc (length i)) (length f)) (signed_field 0x30 i f) False =
      (if f \<noteq> [] \<and> 14 < length (i @ f) then Inl (Err Overflow) else Inr (word_of_nat (dec_value (i @ f))))"
    and "parse_unsigned_u64 (shape (Suc (length i)) (length f)) (tl (signed_field s i f)) True =
      (if f \<noteq> [] \<and> 15 < length (i @ f) then Inl (Err Overflow) else Inr (word_of_nat (dec_value (i @ f))))"
proof -
  have zero: "digits (0x30 # i)" "digits (0x30 # i @ f)"
    using assms(1,2) by (simp_all add: is_digit_def)
  have both: "digits (i @ f)"
    using assms(1,2) by simp
  note left = pointed_field [OF zero(1) [THEN digits_no_point] assms(2) [THEN digits_no_point]]
  note right = pointed_field [OF assms(1,2) [THEN digits_no_point]]
  have parsed: "u64_parse_decimal (0x30 # i @ f) = Inr (word_of_nat (dec_value (i @ f)))"
    "u64_parse_decimal (0x30 # 0x30 # i @ f) = Inr (word_of_nat (dec_value (i @ f)))"
    "0 < length (i @ f) \<Longrightarrow> u64_parse_decimal (i @ f) = Inr (word_of_nat (dec_value (i @ f)))"
    if "length (i @ f) \<le> 17 \<or> f = []"
    using that assms(5) u64_sign_digits [OF both] u64_sign_digits(1) [OF zero(2)] u64_exact [of "0x30 # 0x30 # i @ f"]
      dec_value_18 [OF both] both by (auto simp: is_digit_def dec_value_Cons)
  show "parse_unsigned_u64 (shape (Suc (length i)) (length f)) (signed_field 0x30 i f) False =
      (if f \<noteq> [] \<and> 14 < length (i @ f) then Inl (Err Overflow) else Inr (word_of_nat (dec_value (i @ f))))"
    using left [of 8 u64_parse_decimal] left [of 16 u64_parse_decimal] parsed assms(3-5)
    by (auto simp: parse_unsigned_u64_def parse_with_point_u64_eq signed_field_def)
  show "parse_unsigned_u64 (shape (Suc (length i)) (length f)) (tl (signed_field s i f)) True =
      (if f \<noteq> [] \<and> 15 < length (i @ f) then Inl (Err Overflow) else Inr (word_of_nat (dec_value (i @ f))))"
    using right [of 8 u64_parse_decimal] right [of 16 u64_parse_decimal] parsed assms(3-5)
    by (auto simp: parse_unsigned_u64_def parse_with_point_u64_eq signed_field_def)
qed

lemma checked_field_wide:
  assumes "digits i" "digits f" "0 < length (i @ f)" "length i < 2 ^ 32" "f = [] \<longrightarrow> length i \<le> 18"
  shows "fixed_to_i64_checked (shape (Suc (length i)) (length f)) (signed_field 0x30 i f @ rest) =
      (if f \<noteq> [] \<and> 14 < length (i @ f) then Inl (Err Overflow) else Inr (word_of_nat (dec_value (i @ f))))"
    and "fixed_to_i64_checked (shape (Suc (length i)) (length f)) (signed_field 0x2D i f @ rest) =
      (if f \<noteq> [] \<and> 15 < length (i @ f) then Inl (Err Overflow) else Inr (- word_of_nat (dec_value (i @ f))))"
proof -
  have le: "(word_of_nat (dec_value (i @ f)) :: u64) \<le> 9223372036854775807"
    if "length (i @ f) \<le> 15 \<or> f = []"
    using that assms(1,2,5) dec_value_18 [of "i @ f"] by (auto simp: word_le_nat_alt unat_of_nat take_bit_nat_eq_self)
  have le': "(word_of_nat (dec_value (i @ f)) :: u64) \<le> 9223372036854775808"
    if "length (i @ f) \<le> 15 \<or> f = []"
    by (rule order_trans [OF le [OF that]]) simp
  have sign: "is_negative_signed (shape l n) (signed_field 0x2D i f)"
    "\<not> is_negative_signed (shape l n) (signed_field 0x30 i f)" for l n
    by (simp_all add: is_negative_signed_def signed_field_def)
  have clip: "fixed_clip (shape (Suc (length i)) (length f)) (signed_field s i f @ rest) = Inr (signed_field s i f)" for s
    by (rule clip_shape) simp
  show "fixed_to_i64_checked (shape (Suc (length i)) (length f)) (signed_field 0x30 i f @ rest) =
      (if f \<noteq> [] \<and> 14 < length (i @ f) then Inl (Err Overflow) else Inr (word_of_nat (dec_value (i @ f))))"
    using parse_field_wide(1) [OF assms] le
    by (auto simp: checked_is_plain [OF assms(4)] fixed_to_i64_def clip sign not_less)
  show "fixed_to_i64_checked (shape (Suc (length i)) (length f)) (signed_field 0x2D i f @ rest) =
      (if f \<noteq> [] \<and> 15 < length (i @ f) then Inl (Err Overflow) else Inr (- word_of_nat (dec_value (i @ f))))"
    using parse_field_wide(2) [OF assms, of "0x2D"] le'
    by (auto simp: checked_is_plain [OF assms(4)] fixed_to_i64_def clip sign not_less not_plus_one)
qed

text \<open>
  C30. \<open>to_i64_checked\<close> reads a well-formed signed field exactly or refuses it: with a reader built for the
  field's shape (sign byte and integer digits, then the digits after the point, if any), whatever follows the
  field in the message. After the sign byte \<open>0\<close> the value is the decimal number of the digits around the point,
  if there are at most 14 of them, and the error is \<open>Overflow\<close> if there are more; after a minus sign it is
  that number negated, for at most 15 digits. A field without a point is read up to 18 digits; longer ones are
  not covered. The sign byte \<open>+\<close>, which the documentation of the fields has as a positive sign, is refused
  as an invalid digit (shown up to 14 digits).
\<close>

theorem fixed_to_i64_checked_exact:
  assumes "digits i" and "digits f" and "0 < length (i @ f)"
    and "length i < 2 ^ 32" and "length f < 2 ^ 32" and "f = [] \<longrightarrow> length i \<le> 18"
    and "config_build (with_fraction_size (length f) (with_integer_size (Suc (length i))
           (with_is_signed True config_default))) = Inr c"
  shows "(if f \<noteq> [] \<and> 14 < length (i @ f)
          then fixed_to_i64_checked c (signed_field 0x30 i f @ rest) = Inl (Err Overflow)
          else \<exists>v. fixed_to_i64_checked c (signed_field 0x30 i f @ rest) = Inr v \<and> sint v = int (dec_value (i @ f))) \<and>
         (if f \<noteq> [] \<and> 15 < length (i @ f)
          then fixed_to_i64_checked c (signed_field 0x2D i f @ rest) = Inl (Err Overflow)
          else \<exists>v. fixed_to_i64_checked c (signed_field 0x2D i f @ rest) = Inr v \<and> sint v = - int (dec_value (i @ f))) \<and>
         (length (i @ f) \<le> 14 \<longrightarrow> fixed_to_i64_checked c (signed_field 0x2B i f @ rest) = Inl (Err InvalidDigit))"
proof -
  have c: "c = shape (Suc (length i)) (length f)"
    using assms(4,5,7) by (simp add: config_build_shape)
  have small: "dec_value (i @ f) < 10 ^ 18" if "length (i @ f) \<le> 15 \<or> f = []"
    using that assms(1,2,6) dec_value_18 [of "i @ f"] by auto
  have values_: "sint (word_of_nat (dec_value (i @ f)) :: i64) = int (dec_value (i @ f))"
    "sint (- word_of_nat (dec_value (i @ f)) :: i64) = - int (dec_value (i @ f))"
    if "length (i @ f) \<le> 15 \<or> f = []"
    using small [OF that] sint_word_of_nat [where 'a = 64] sint_minus_word_of_nat [where 'a = 64] by simp_all
  show ?thesis
    using checked_field_wide [OF assms(1-4,6), of rest] values_ checked_field_plus [OF assms(1-3), of rest]
    by (auto simp: c)
qed

theorem fixed_to_i64_checked_exact_witness:
  "(\<exists>v. fixed_to_i64_checked (shape 3 2) [0x30, 0x31, 0x32, 0x2E, 0x30, 0x35] = Inr v \<and> sint v = 1205) \<and>
   (\<exists>v. fixed_to_i64_checked (shape 3 2) [0x2D, 0x31, 0x32, 0x2E, 0x30, 0x35] = Inr v \<and> sint v = - 1205) \<and>
   fixed_to_i64_checked (shape 3 2) [0x2B, 0x31, 0x32, 0x2E, 0x30, 0x35] = Inl (Err InvalidDigit)"
  using fixed_to_i64_checked_exact [of "[0x31, 0x32]" "[0x30, 0x35]" "shape 3 2" "[]"]
    config_build_shape [of 3 2]
  by (simp add: is_digit_def dec_value_Cons signed_field_def literal_sizes)

text \<open>The plus sign by itself.\<close>

theorem fixed_to_i64_checked_plus:
  assumes "digits i" and "digits f" and "0 < length (i @ f)" and "length (i @ f) \<le> 14"
  shows "fixed_to_i64_checked (shape (Suc (length i)) (length f)) (signed_field 0x2B i f @ rest)
         = Inl (Err InvalidDigit)"
  by (rule checked_field_plus [OF assms])

theorem fixed_to_i64_checked_plus_witness:
  "fixed_to_i64_checked (shape 3 2) [0x2B, 0x31, 0x32, 0x2E, 0x30, 0x35] = Inl (Err InvalidDigit)"
  using fixed_to_i64_checked_plus [of "[0x31, 0x32]" "[0x30, 0x35]" "[]"]
  by (simp add: is_digit_def signed_field_def literal_sizes)

lemma pointed_near:
  assumes "\<And>u. near_value (parse u) u"
  shows "pointed n parse c p \<noteq> Inl Panic"
    and "pointed n parse c p = Inr v \<Longrightarrow>
      p < length c \<and> near_digits (take p c) \<and> near_digits (drop (Suc p) c)"
  using assms [of "squeezed c p"]
  by (auto simp: pointed_def near_value_def squeezed_def split: if_splits)

lemma parse_unsigned_near:
  assumes "lead < 2 ^ 63"
  shows "parse_unsigned_u64 (shape lead frac) c neg \<noteq> Inl Panic"
    and "parse_unsigned_u64 (shape lead frac) c neg = Inr v \<Longrightarrow>
      (if frac = 0 then near_digits c
       else near_digits (take (if neg then lead - 1 else lead) c) \<and>
            near_digits (drop (Suc (if neg then lead - 1 else lead)) c))"
proof -
  have near: "near_value (u64_parse_decimal u) u" for u
    by (simp add: u64_parse_decimal_def u64_core_near)
  note pointed = pointed_near [of u64_parse_decimal, OF near]
  show "parse_unsigned_u64 (shape lead frac) c neg \<noteq> Inl Panic"
    using assms near [of c] pointed(1)
    by (auto simp: parse_unsigned_u64_def parse_with_point_u64_eq near_value_def)
  show "parse_unsigned_u64 (shape lead frac) c neg = Inr v \<Longrightarrow>
      (if frac = 0 then near_digits c
       else near_digits (take (if neg then lead - 1 else lead) c) \<and>
            near_digits (drop (Suc (if neg then lead - 1 else lead)) c))"
    using assms near [of c] pointed(2) [of _ c _ v]
    by (auto simp: parse_unsigned_u64_def parse_with_point_u64_eq near_value_def Let_def split: if_splits)
qed

lemma fixed_to_i64_near:
  fixes data :: bytes
  assumes "0 < lead" "lead + frac < 2 ^ 32"
  defines "field \<equiv> take (lead + (if frac = 0 then 0 else 1 + frac)) data"
  shows "fixed_to_i64 (shape lead frac) data \<noteq> Inl Panic"
    and "fixed_to_i64 (shape lead frac) data = Inr v \<Longrightarrow>
      near_digits (unsigned_part (take lead field)) \<and> (0 < frac \<longrightarrow> near_digits (drop (Suc lead) field))"
proof -
  have clip: "fixed_clip (shape lead frac) data = Inl (Err InvalidLength) \<or>
      fixed_clip (shape lead frac) data = Inr field \<and> length field = lead + (if frac = 0 then 0 else 1 + frac)"
    by (auto simp: fixed_clip_def field_def)
  have lead: "lead < 2 ^ 63"
    using assms(2) by simp
  note near = parse_unsigned_near [OF lead, of frac]
  show "fixed_to_i64 (shape lead frac) data \<noteq> Inl Panic"
    using clip near(1) by (auto simp: fixed_to_i64_def result_iffs)
  show "near_digits (unsigned_part (take lead field)) \<and> (0 < frac \<longrightarrow> near_digits (drop (Suc lead) field))"
    if "fixed_to_i64 (shape lead frac) data = Inr v"
  proof (cases "is_negative_signed (shape lead frac) field")
    case True
    then obtain t where "field = 0x2D # t"
      by (cases field) (auto simp: is_negative_signed_def)
    then show ?thesis
      using that clip near(2) [of t True] True assms(1)
      by (cases lead) (auto simp: fixed_to_i64_def result_iffs unsigned_part_def split: if_splits)
  next
    case False
    then have "unsigned_part (take lead field) = take lead field"
      using assms(1) by (cases field; cases lead) (auto simp: is_negative_signed_def unsigned_part_def)
    then show ?thesis
      using that clip near(2) [of field False] False
      by (auto simp: fixed_to_i64_def result_iffs split: if_splits)
  qed
qed

lemma checked_shape_sound:
  assumes "0 < lead" and "lead + frac < 2 ^ 32"
  shows "no_panic (fixed_to_i64_checked (shape lead frac) data) \<and>
    (\<forall>v. fixed_to_i64_checked (shape lead frac) data = Inr v \<longrightarrow>
      near_digits (unsigned_part (take lead data)) \<and>
      (0 < frac \<longrightarrow> data ! lead = 0x2E \<and> near_digits (take frac (drop (Suc lead) data))))"
proof -
  have point: "point_index (shape lead frac) = (if frac = 0 then None else Some lead)"
    using assms(2) by (simp add: point_index_shape)
  show ?thesis
    using fixed_to_i64_near [OF assms, of data]
    by (auto simp: fixed_to_i64_checked_def point no_panic_def drop_take split: if_splits)
qed

text \<open>
  A reader of the wrong shape never yields a value: whenever \<open>to_i64_checked\<close> answers, the
  point of the field is where the reader expects it and every other byte (after an optional minus
  sign) is a digit or one of its two neighbours, in particular not a point. And it never panics.
\<close>

theorem fixed_to_i64_checked_shape:
  assumes "0 < lead" and "lead + frac < 2 ^ 32"
  shows "no_panic (fixed_to_i64_checked (shape lead frac) data) \<and>
    (\<forall>v. fixed_to_i64_checked (shape lead frac) data = Inr v \<longrightarrow>
      near_digits (unsigned_part (take lead data)) \<and>
      (0 < frac \<longrightarrow> data ! lead = 0x2E \<and> near_digits (take frac (drop (Suc lead) data))))"
  by (rule checked_shape_sound [OF assms])

theorem fixed_to_i64_checked_shape_witness:
  "no_panic (fixed_to_i64_checked (shape 6 2) [0x30, 0x30, 0x39, 0x33, 0x37, 0x2E, 0x30, 0x35, 0x30]) \<and>
   (\<forall>v. fixed_to_i64_checked (shape 6 2) [0x30, 0x30, 0x39, 0x33, 0x37, 0x2E, 0x30, 0x35, 0x30] \<noteq> Inr v)"
  using fixed_to_i64_checked_shape [of 6 2 "[0x30, 0x30, 0x39, 0x33, 0x37, 0x2E, 0x30, 0x35, 0x30]"]
  by auto

end
