(* ===== verification/Wire_Types.thy ===== *)
theory Wire_Types
  imports Jeed_Base
begin

text \<open>
  \<open>crates/jeed-wire/src/types.rs\<close>, \<open>kind.rs\<close>, \<open>error.rs\<close> and \<open>header.rs\<close>: the enumerations of the
  wire format with their bytes, the symbol field and the record header with its operations. The
  lemmas show that the enumeration codes are inverse to each other, that a symbol read back from
  the wire is the one written, and which headers \<open>validate\<close> accepts.

  The fields of a \<open>struct\<close> carry a prefix (\<open>h_\<close> for the header), since record selectors are
  global constants. The display functions and the \<open>f64\<close> multipliers are not modelled.
\<close>

subsection \<open>Layout constants (lib.rs)\<close>

definition WIRE_FORMAT_VERSION :: u32 where "WIRE_FORMAT_VERSION = 4"
definition WIRE_MAX_DEPTH :: nat where "WIRE_MAX_DEPTH = 10"
definition WIRE_MAX_DELTA_LEVELS :: nat where "WIRE_MAX_DELTA_LEVELS = 32"
definition WIRE_HEADER_LEN :: nat where "WIRE_HEADER_LEN = 64"
definition WIRE_PAYLOAD_LEN :: nat where "WIRE_PAYLOAD_LEN = 544"
definition WIRE_RECORD_LEN :: nat where "WIRE_RECORD_LEN = 640"
definition WIRE_ALIGN :: nat where "WIRE_ALIGN = 64"
definition SYMBOL_LEN :: nat where "SYMBOL_LEN = 24"

lemmas wire_consts = WIRE_FORMAT_VERSION_def WIRE_MAX_DEPTH_def WIRE_MAX_DELTA_LEVELS_def
  WIRE_HEADER_LEN_def WIRE_PAYLOAD_LEN_def WIRE_RECORD_LEN_def WIRE_ALIGN_def SYMBOL_LEN_def

subsection \<open>Venues and scales (types.rs)\<close>

datatype venue =
    Krx | Nxt | Smbs | BinanceSpot | BinanceFutures | Upbit
  | Bithumb | Okx | BybitSpot | BybitLinear | BitgetSpot
  | BitgetLinear | GateSpot | KucoinSpot | KucoinFutures

primrec venue_as_u8 :: "venue \<Rightarrow> u8" where
  "venue_as_u8 Krx = 0"
| "venue_as_u8 Nxt = 1"
| "venue_as_u8 Smbs = 2"
| "venue_as_u8 BinanceSpot = 3"
| "venue_as_u8 BinanceFutures = 4"
| "venue_as_u8 Upbit = 5"
| "venue_as_u8 Bithumb = 6"
| "venue_as_u8 Okx = 7"
| "venue_as_u8 BybitSpot = 8"
| "venue_as_u8 BybitLinear = 9"
| "venue_as_u8 BitgetSpot = 10"
| "venue_as_u8 BitgetLinear = 11"
| "venue_as_u8 GateSpot = 12"
| "venue_as_u8 KucoinSpot = 13"
| "venue_as_u8 KucoinFutures = 14"

definition venue_from_u8 :: "u8 \<Rightarrow> venue option" where
  "venue_from_u8 v =
     (if v = 0 then Some Krx
      else if v = 1 then Some Nxt
      else if v = 2 then Some Smbs
      else if v = 3 then Some BinanceSpot
      else if v = 4 then Some BinanceFutures
      else if v = 5 then Some Upbit
      else if v = 6 then Some Bithumb
      else if v = 7 then Some Okx
      else if v = 8 then Some BybitSpot
      else if v = 9 then Some BybitLinear
      else if v = 10 then Some BitgetSpot
      else if v = 11 then Some BitgetLinear
      else if v = 12 then Some GateSpot
      else if v = 13 then Some KucoinSpot
      else if v = 14 then Some KucoinFutures
      else None)"

primrec venue_as_str :: "venue \<Rightarrow> string" where
  "venue_as_str Krx = ''KRX''"
| "venue_as_str Nxt = ''NXT''"
| "venue_as_str Smbs = ''SMBS''"
| "venue_as_str BinanceSpot = ''BINANCE_SPOT''"
| "venue_as_str BinanceFutures = ''BINANCE_FUTURES''"
| "venue_as_str Upbit = ''UPBIT''"
| "venue_as_str Bithumb = ''BITHUMB''"
| "venue_as_str Okx = ''OKX''"
| "venue_as_str BybitSpot = ''BYBIT_SPOT''"
| "venue_as_str BybitLinear = ''BYBIT_LINEAR''"
| "venue_as_str BitgetSpot = ''BITGET_SPOT''"
| "venue_as_str BitgetLinear = ''BITGET_LINEAR''"
| "venue_as_str GateSpot = ''GATE_SPOT''"
| "venue_as_str KucoinSpot = ''KUCOIN_SPOT''"
| "venue_as_str KucoinFutures = ''KUCOIN_FUTURES''"

definition venue_from_tag :: "string \<Rightarrow> venue option" where
  "venue_from_tag tag =
     (if tag = ''KRX'' then Some Krx
      else if tag = ''NXT'' then Some Nxt
      else if tag = ''SMBS'' then Some Smbs
      else if tag = ''BINANCE_SPOT'' then Some BinanceSpot
      else if tag = ''BINANCE_FUTURES'' then Some BinanceFutures
      else if tag = ''UPBIT'' then Some Upbit
      else if tag = ''BITHUMB'' then Some Bithumb
      else if tag = ''OKX'' then Some Okx
      else if tag = ''BYBIT_SPOT'' then Some BybitSpot
      else if tag = ''BYBIT_LINEAR'' then Some BybitLinear
      else if tag = ''BITGET_SPOT'' then Some BitgetSpot
      else if tag = ''BITGET_LINEAR'' then Some BitgetLinear
      else if tag = ''GATE_SPOT'' then Some GateSpot
      else if tag = ''KUCOIN_SPOT'' then Some KucoinSpot
      else if tag = ''KUCOIN_FUTURES'' then Some KucoinFutures
      else None)"

datatype scale = S0 | S1 | S2 | S3 | S4 | S5 | S6 | S7 | S8

definition scale_from_decimals :: "nat \<Rightarrow> scale option" where
  "scale_from_decimals decimals =
     (if decimals = 0 then Some S0
      else if decimals = 1 then Some S1
      else if decimals = 2 then Some S2
      else if decimals = 3 then Some S3
      else if decimals = 4 then Some S4
      else if decimals = 5 then Some S5
      else if decimals = 6 then Some S6
      else if decimals = 7 then Some S7
      else if decimals = 8 then Some S8
      else None)"

primrec scale_decimals :: "scale \<Rightarrow> u8" where
  "scale_decimals S0 = 0"
| "scale_decimals S1 = 1"
| "scale_decimals S2 = 2"
| "scale_decimals S3 = 3"
| "scale_decimals S4 = 4"
| "scale_decimals S5 = 5"
| "scale_decimals S6 = 6"
| "scale_decimals S7 = 7"
| "scale_decimals S8 = 8"

definition DIVISORS :: "u64 list" where
  "DIVISORS = [1, 10, 100, 1000, 10000, 100000, 1000000, 10000000, 100000000]"

definition scale_divisor :: "scale \<Rightarrow> u64" where
  "scale_divisor s = DIVISORS ! unat (scale_decimals s)"

subsection \<open>Symbols (types.rs)\<close>

text \<open>The copying loop stops at a \<open>NUL\<close>; the rest of the field stays zero.\<close>

definition symbol_from_bytes :: "bytes \<Rightarrow> bytes option" where
  "symbol_from_bytes bs =
     (if bs = [] \<or> length bs > SYMBOL_LEN then None
      else if list_ex (\<lambda>b. b = 0) bs then None
      else Some (bs @ replicate (SYMBOL_LEN - length bs) 0))"

text \<open>\<open>rposition(|b| b != 0)\<close> on the field: everything up to the last byte that is not \<open>NUL\<close>.\<close>

definition symbol_bytes :: "bytes \<Rightarrow> bytes" where
  "symbol_bytes symbol = rev (dropWhile (\<lambda>b. b = 0) (rev symbol))"

subsection \<open>Kinds and flags (kind.rs)\<close>

datatype wire_kind =
    Quote | Trade | TradeQuote | OpenInterest | InvestorStats
  | SnapshotDelta | PriceLimit | MarketSchedule | Heartbeat | DynamicPriceLimit

subsection \<open>Errors (error.rs)\<close>

datatype wire_error =
    Length nat nat
  | Alignment nat
  | Magic u64
  | FormatVersion u32 u32
  | RecordSize u32 u32
  | Capacity
  | Kind u8
  | KindMismatch wire_kind wire_kind
  | VenueErr u8
  | ScaleErr u8
  | Depth u8 u8
  | TradeKind u8
  | LevelExtKind u8
  | QuoteExtKind u8
  | ExpansionDirection u8
  | DynLimitAction u8
  | DeltaLevelCount u8 u8 u8

primrec kind_as_u8 :: "wire_kind \<Rightarrow> u8" where
  "kind_as_u8 Quote = 1"
| "kind_as_u8 Trade = 2"
| "kind_as_u8 TradeQuote = 3"
| "kind_as_u8 OpenInterest = 4"
| "kind_as_u8 InvestorStats = 5"
| "kind_as_u8 SnapshotDelta = 6"
| "kind_as_u8 PriceLimit = 7"
| "kind_as_u8 MarketSchedule = 8"
| "kind_as_u8 Heartbeat = 9"
| "kind_as_u8 DynamicPriceLimit = 10"

definition kind_from_u8 :: "u8 \<Rightarrow> wire_error + wire_kind" where
  "kind_from_u8 v =
     (if v = 1 then Inr Quote
      else if v = 2 then Inr Trade
      else if v = 3 then Inr TradeQuote
      else if v = 4 then Inr OpenInterest
      else if v = 5 then Inr InvestorStats
      else if v = 6 then Inr SnapshotDelta
      else if v = 7 then Inr PriceLimit
      else if v = 8 then Inr MarketSchedule
      else if v = 9 then Inr Heartbeat
      else if v = 10 then Inr DynamicPriceLimit
      else Inl (Kind v))"

definition is_self_healing :: "wire_kind \<Rightarrow> bool" where
  "is_self_healing k \<longleftrightarrow> k \<noteq> SnapshotDelta"

text \<open>Module \<open>header_flags\<close>.\<close>

definition VENUE_TIME_VALID :: u8 where "VENUE_TIME_VALID = 1"
definition STALE :: u8 where "STALE = 2"
definition BID_EMPTY :: u8 where "BID_EMPTY = 4"
definition ASK_EMPTY :: u8 where "ASK_EMPTY = 8"

text \<open>Module \<open>level_flags\<close>.\<close>

definition ORDER_COUNT_VALID :: u8 where "ORDER_COUNT_VALID = 1"

text \<open>Module \<open>level_ext\<close>.\<close>

definition LEVEL_EXT_NONE :: u8 where "LEVEL_EXT_NONE = 0"
definition BOND_YIELD :: u8 where "BOND_YIELD = 1"
definition LP_QUANTITY :: u8 where "LP_QUANTITY = 2"

text \<open>Module \<open>quote_ext\<close>.\<close>

definition QUOTE_EXT_NONE :: u8 where "QUOTE_EXT_NONE = 0"
definition LP_HOLDINGS :: u8 where "LP_HOLDINGS = 1"
definition SEQUENCE :: u8 where "SEQUENCE = 2"
definition EXPECTED_PRICE :: u8 where "EXPECTED_PRICE = 3"

text \<open>Module \<open>delta_flags\<close>.\<close>

definition PREV_FINAL_VALID :: u8 where "PREV_FINAL_VALID = 1"

text \<open>Module \<open>trade_flags\<close>.\<close>

definition CUMULATIVE_QTY_VALID :: u8 where "CUMULATIVE_QTY_VALID = 1"
definition YIELD_VALID :: u8 where "YIELD_VALID = 2"
definition DYN_LIMIT_VALID :: u8 where "DYN_LIMIT_VALID = 4"

text \<open>Module \<open>trade_kind\<close>.\<close>

definition TRADE_KIND_NONE :: u8 where "TRADE_KIND_NONE = 0"
definition SELL :: u8 where "SELL = 1"
definition BUY :: u8 where "BUY = 2"
definition TRADE_KIND_UNKNOWN :: u8 where "TRADE_KIND_UNKNOWN = 3"

text \<open>Module \<open>dyn_limit_action\<close>.\<close>

definition DYN_UNKNOWN :: u8 where "DYN_UNKNOWN = 0"
definition APPLIED :: u8 where "APPLIED = 1"
definition RELEASED :: u8 where "RELEASED = 2"

text \<open>Module \<open>schedule_flags\<close>.\<close>

definition INSTRUMENT_SCOPED :: u8 where "INSTRUMENT_SCOPED = 1"
definition EXPECTED_TIME_VALID :: u8 where "EXPECTED_TIME_VALID = 2"

text \<open>Module \<open>expansion_direction\<close>.\<close>

definition NOT_APPLICABLE :: u8 where "NOT_APPLICABLE = 0"
definition UP :: u8 where "UP = 1"
definition DOWN :: u8 where "DOWN = 2"

lemmas kind_consts =
  VENUE_TIME_VALID_def STALE_def BID_EMPTY_def ASK_EMPTY_def
  ORDER_COUNT_VALID_def
  LEVEL_EXT_NONE_def BOND_YIELD_def LP_QUANTITY_def
  QUOTE_EXT_NONE_def LP_HOLDINGS_def SEQUENCE_def EXPECTED_PRICE_def
  PREV_FINAL_VALID_def
  CUMULATIVE_QTY_VALID_def YIELD_VALID_def DYN_LIMIT_VALID_def
  TRADE_KIND_NONE_def SELL_def BUY_def TRADE_KIND_UNKNOWN_def
  DYN_UNKNOWN_def APPLIED_def RELEASED_def
  INSTRUMENT_SCOPED_def EXPECTED_TIME_VALID_def
  NOT_APPLICABLE_def UP_def DOWN_def

subsection \<open>The record header (header.rs)\<close>

record record_header =
  h_kind :: u8
  h_venue :: u8
  h_flags :: u8
  h_depth :: u8
  h_price_scale :: u8
  h_qty_scale :: u8
  h_pad0 :: u16
  h_producer_seq :: u64
  h_recv_ns :: u64
  h_venue_ns :: u64
  h_symbol :: bytes
  h_pad1 :: bytes

text \<open>The widths of the two array fields.\<close>

definition header_ok :: "record_header \<Rightarrow> bool" where
  "header_ok h \<longleftrightarrow> length (h_symbol h) = 24 \<and> length (h_pad1 h) = 8"

definition HEADER_ZEROED :: record_header where
  "HEADER_ZEROED = \<lparr> h_kind = 0, h_venue = 0, h_flags = 0, h_depth = 0, h_price_scale = 0,
     h_qty_scale = 0, h_pad0 = 0, h_producer_seq = 0, h_recv_ns = 0, h_venue_ns = 0,
     h_symbol = replicate SYMBOL_LEN 0, h_pad1 = replicate 8 0 \<rparr>"

definition header_new :: "wire_kind \<Rightarrow> venue \<Rightarrow> bytes \<Rightarrow> u64 \<Rightarrow> record_header" where
  "header_new kind venue symbol recv_ns =
     HEADER_ZEROED\<lparr> h_kind := kind_as_u8 kind, h_venue := venue_as_u8 venue, h_symbol := symbol,
       h_recv_ns := recv_ns \<rparr>"

definition header_symbol_bytes :: "record_header \<Rightarrow> bytes" where
  "header_symbol_bytes h = symbol_bytes (h_symbol h)"

definition header_kind :: "record_header \<Rightarrow> wire_error + wire_kind" where
  "header_kind h = kind_from_u8 (h_kind h)"

definition header_venue :: "record_header \<Rightarrow> wire_error + venue" where
  "header_venue h =
     (case venue_from_u8 (h_venue h) of Some v \<Rightarrow> Inr v | None \<Rightarrow> Inl (VenueErr (h_venue h)))"

definition scale_from_u8 :: "u8 \<Rightarrow> wire_error + scale" where
  "scale_from_u8 v =
     (case scale_from_decimals (unat v) of Some s \<Rightarrow> Inr s | None \<Rightarrow> Inl (ScaleErr v))"

definition header_price_scale :: "record_header \<Rightarrow> wire_error + scale" where
  "header_price_scale h = scale_from_u8 (h_price_scale h)"

definition header_qty_scale :: "record_header \<Rightarrow> wire_error + scale" where
  "header_qty_scale h = scale_from_u8 (h_qty_scale h)"

definition set_scales :: "scale \<Rightarrow> scale \<Rightarrow> record_header \<Rightarrow> record_header" where
  "set_scales price qty h =
     h\<lparr> h_price_scale := scale_decimals price, h_qty_scale := scale_decimals qty \<rparr>"

definition set_depth :: "u8 \<Rightarrow> record_header \<Rightarrow> record_header" where
  "set_depth depth h = h\<lparr> h_depth := depth \<rparr>"

definition set_producer_seq :: "u64 \<Rightarrow> record_header \<Rightarrow> record_header" where
  "set_producer_seq seq h = h\<lparr> h_producer_seq := seq \<rparr>"

definition set_venue_time :: "u64 \<Rightarrow> record_header \<Rightarrow> record_header" where
  "set_venue_time venue_ns h =
     h\<lparr> h_venue_ns := venue_ns, h_flags := h_flags h OR VENUE_TIME_VALID \<rparr>"

definition has_flags :: "record_header \<Rightarrow> u8 \<Rightarrow> bool" where
  "has_flags h msk \<longleftrightarrow> h_flags h AND msk = msk"

definition venue_time :: "record_header \<Rightarrow> u64 option" where
  "venue_time h = (if has_flags h VENUE_TIME_VALID then Some (h_venue_ns h) else None)"

definition set_flags :: "u8 \<Rightarrow> record_header \<Rightarrow> record_header" where
  "set_flags msk h = h\<lparr> h_flags := h_flags h OR msk \<rparr>"

definition is_stale :: "record_header \<Rightarrow> bool" where
  "is_stale h \<longleftrightarrow> has_flags h STALE"

definition venue_age_ns :: "record_header \<Rightarrow> u64 option" where
  "venue_age_ns h =
     (case venue_time h of Some v \<Rightarrow> Some (saturating_sub (h_recv_ns h) v) | None \<Rightarrow> None)"

definition header_validate :: "record_header \<Rightarrow> wire_error + unit" where
  "header_validate h =
     and_then (header_kind h) (\<lambda>_.
     and_then (header_venue h) (\<lambda>_.
     and_then (header_price_scale h) (\<lambda>_.
     and_then (header_qty_scale h) (\<lambda>_.
       if unat (h_depth h) > WIRE_MAX_DEPTH
       then Inl (Depth (h_depth h) (of_nat WIRE_MAX_DEPTH))
       else Inr ()))))"

subsection \<open>Codes of the enumerations\<close>

lemma venue_from_u8_as_u8 [simp]: "venue_from_u8 (venue_as_u8 v) = Some v"
  by (cases v) (simp_all add: venue_from_u8_def)

lemma venue_from_u8_Some: "venue_from_u8 b = Some v \<longleftrightarrow> b = venue_as_u8 v"
proof
  show "venue_from_u8 b = Some v \<Longrightarrow> b = venue_as_u8 v"
    by (auto simp: venue_from_u8_def split: if_splits)
qed simp

lemma venue_from_tag_as_str [simp]: "venue_from_tag (venue_as_str v) = Some v"
  by (cases v) (simp_all add: venue_from_tag_def)

lemma venue_from_tag_Some: "venue_from_tag t = Some v \<longleftrightarrow> t = venue_as_str v"
proof
  show "venue_from_tag t = Some v \<Longrightarrow> t = venue_as_str v"
    by (cases v; simp only: venue_from_tag_def venue_as_str.simps option.inject venue.distinct
      option.distinct split: if_split_asm)
qed simp

lemma scale_from_decimals_decimals [simp]: "scale_from_decimals (unat (scale_decimals s)) = Some s"
  by (cases s) (simp_all add: scale_from_decimals_def)

lemma scale_from_decimals_Some: "scale_from_decimals n = Some s \<longleftrightarrow> n = unat (scale_decimals s)"
proof
  show "scale_from_decimals n = Some s \<Longrightarrow> n = unat (scale_decimals s)"
    by (auto simp: scale_from_decimals_def split: if_splits)
qed simp

lemma scale_divisor_eq: "scale_divisor s = 10 ^ unat (scale_decimals s)"
  by (cases s) (simp_all add: scale_divisor_def DIVISORS_def)

lemma kind_from_u8_as_u8 [simp]: "kind_from_u8 (kind_as_u8 k) = Inr k"
  by (cases k) (simp_all add: kind_from_u8_def)

lemma kind_from_u8_Inr: "kind_from_u8 b = Inr k \<longleftrightarrow> b = kind_as_u8 k"
proof
  show "kind_from_u8 b = Inr k \<Longrightarrow> b = kind_as_u8 k"
    by (auto simp: kind_from_u8_def split: if_splits)
qed simp

lemma kind_as_u8_inj [simp]: "kind_as_u8 k = kind_as_u8 l \<longleftrightarrow> k = l"
  by (metis kind_from_u8_as_u8 sum.inject(2))

subsection \<open>Symbols\<close>

lemma symbol_bytes_pad: "last (0x20 # bs) \<noteq> 0 \<Longrightarrow> symbol_bytes (bs @ replicate n 0) = bs"
  by (cases bs rule: rev_cases) (simp_all add: symbol_bytes_def dropWhile_append)

lemma symbol_from_bytes_Some:
  "symbol_from_bytes bs = Some s \<longleftrightarrow>
     bs \<noteq> [] \<and> length bs \<le> 24 \<and> 0 \<notin> set bs \<and> s = bs @ replicate (24 - length bs) 0"
  by (auto simp: symbol_from_bytes_def list_ex_iff SYMBOL_LEN_def)

lemma symbol_from_bytes_length: "symbol_from_bytes bs = Some s \<Longrightarrow> length s = 24"
  by (auto simp: symbol_from_bytes_Some)

lemma symbol_bytes_padded: "symbol_bytes s @ replicate (length s - length (symbol_bytes s)) 0 = s"
proof -
  have "takeWhile (\<lambda>b. b = 0) r = replicate (length (takeWhile (\<lambda>b. b = 0) r)) (0 :: u8)" for r
    by (induction r) auto
  then have "s = symbol_bytes s @ replicate (length (takeWhile (\<lambda>b. b = 0) (rev s))) 0"
    unfolding symbol_bytes_def
    by (metis rev_append rev_replicate rev_rev_ident takeWhile_dropWhile_id)
  then show ?thesis
    by (metis add_diff_cancel_left' length_append length_replicate)
qed

subsection \<open>Headers\<close>

lemma header_new_ok [simp]: "length symbol = 24 \<Longrightarrow> header_ok (header_new k v symbol t)"
  by (simp add: header_ok_def header_new_def HEADER_ZEROED_def)

lemma header_validate_iff:
  "header_validate h = Inr () \<longleftrightarrow>
     (\<exists>k. h_kind h = kind_as_u8 k) \<and> (\<exists>v. h_venue h = venue_as_u8 v) \<and>
     h_price_scale h \<le> 8 \<and> h_qty_scale h \<le> 8 \<and> h_depth h \<le> 10"
proof -
  have "(\<exists>s. scale_from_u8 b = Inr s) \<longleftrightarrow> b \<le> 8" for b
    by (auto simp: scale_from_u8_def scale_from_decimals_def word_le_nat_alt split: option.splits)
  moreover have "(\<exists>v. header_venue h = Inr v) \<longleftrightarrow> (\<exists>v. h_venue h = venue_as_u8 v)"
    by (auto simp: header_venue_def venue_from_u8_Some split: option.splits)
  ultimately show ?thesis
    by (auto simp: header_validate_def result_iffs header_kind_def kind_from_u8_Inr
      header_price_scale_def header_qty_scale_def wire_consts word_le_nat_alt not_less split: if_splits)
qed

subsection \<open>What the enumerations and the symbol promise\<close>

text \<open>
  The byte and tag codes of the wire enumerations are bijective: every venue, kind and scale
  is read back from its code, and a code is accepted only if it is the one written for the value
  it is read as.
\<close>

theorem wire_codes_bijective:
  "(\<forall>v b. venue_from_u8 b = Some v \<longleftrightarrow> b = venue_as_u8 v) \<and>
   (\<forall>v t. venue_from_tag t = Some v \<longleftrightarrow> t = venue_as_str v) \<and>
   (\<forall>k b. kind_from_u8 b = Inr k \<longleftrightarrow> b = kind_as_u8 k) \<and>
   (\<forall>s b. scale_from_u8 b = Inr s \<longleftrightarrow> b = scale_decimals s) \<and>
   (\<forall>s. scale_divisor s = 10 ^ unat (scale_decimals s))"
proof -
  have "scale_from_u8 b = Inr s \<longleftrightarrow> b = scale_decimals s" for s b
  proof -
    have "scale_from_u8 b = Inr s \<longleftrightarrow> scale_from_decimals (unat b) = Some s"
      by (auto simp: scale_from_u8_def split: option.splits)
    then show ?thesis
      by (simp add: scale_from_decimals_Some word_unat_eq_iff)
  qed
  then show ?thesis
    by (simp add: venue_from_u8_Some venue_from_tag_Some kind_from_u8_Inr scale_divisor_eq)
qed

text \<open>
  The symbol field is unambiguous: a symbol accepted by \<open>symbol_from_bytes\<close> fills the field
  exactly and is what \<open>symbol_bytes\<close> reads back, and every name of 1 to 24 bytes without a \<open>NUL\<close>
  is accepted.
\<close>

theorem symbol_roundtrip:
  "(\<forall>s. symbol_from_bytes bs = Some s \<longrightarrow> length s = SYMBOL_LEN \<and> symbol_bytes s = bs) \<and>
   (symbol_from_bytes bs \<noteq> None \<longleftrightarrow> 0 < length bs \<and> length bs \<le> SYMBOL_LEN \<and> 0 \<notin> set bs)"
proof -
  have "symbol_bytes s = bs" if "symbol_from_bytes bs = Some s" for s
  proof -
    have "last (0x20 # bs) \<noteq> 0"
      using that by (cases bs rule: rev_cases) (auto simp: symbol_from_bytes_Some)
    then show ?thesis
      using that symbol_bytes_pad by (simp add: symbol_from_bytes_Some)
  qed
  then show ?thesis
    by (auto simp: symbol_from_bytes_Some SYMBOL_LEN_def)
qed

theorem symbol_roundtrip_witness:
  "symbol_from_bytes [0x42, 0x54, 0x43] = Some ([0x42, 0x54, 0x43] @ replicate 21 0) \<and>
   symbol_bytes ([0x42, 0x54, 0x43] @ replicate 21 0) = [0x42, 0x54, 0x43]"
proof -
  have "symbol_from_bytes [0x42, 0x54, 0x43] = Some ([0x42, 0x54, 0x43] @ replicate 21 0)"
    by (simp add: symbol_from_bytes_Some)
  with symbol_roundtrip [of "[0x42, 0x54, 0x43]"] show ?thesis
    by blast
qed

text \<open>
  \<open>RecordHeader::validate\<close> accepts exactly the headers whose enumerated bytes are codes of
  the wire format (kind, venue, both scales) and whose depth is at most 10.
\<close>

theorem header_validate_accepts:
  "header_validate h = Inr () \<longleftrightarrow>
     (\<exists>k. h_kind h = kind_as_u8 k) \<and> (\<exists>v. h_venue h = venue_as_u8 v) \<and>
     h_price_scale h \<le> 8 \<and> h_qty_scale h \<le> 8 \<and> h_depth h \<le> 10"
  by (rule header_validate_iff)

text \<open>
  \<open>venue_age_ns\<close> never wraps: when the venue time was set, the age is the difference of the
  two clocks read as numbers, and zero if the venue's clock is ahead.
\<close>

theorem venue_age_saturates:
  "map_option unat (venue_age_ns (set_venue_time v h)) = Some (unat (h_recv_ns h) - unat v)"
proof -
  have "(f OR 1) AND 1 = (1 :: u8)" for f
    by (simp add: bit_eq_iff bit_simps)
  then show ?thesis
    by (simp add: venue_age_ns_def venue_time_def has_flags_def set_venue_time_def kind_consts)
qed

end
