(* ===== verification/Dynamic_Extractor.thy ===== *)
theory Dynamic_Extractor
  imports Fixed_Extractor Wire_Types
begin

text \<open>
  \<open>crates/jeed-convert/src/extractor/dynamic_extractor.rs\<close> and the dispatching \<open>Extractor\<close> of
  \<open>extractor/mod.rs\<close>: reading decimal text of any length at a target number of decimals. The
  \<open>i64\<close> arithmetic wraps as in the release build; the one operation that can panic is the
  division by a power of ten that has wrapped to zero. \<open>to_f32\<close> and \<open>to_f64\<close> are not modelled.
  An extractor is its \<open>target_decimals\<close>.
\<close>

subsection \<open>Folding digits\<close>

text \<open>\<open>10_i64.pow(n as u32)\<close>.\<close>

definition pow10 :: "nat \<Rightarrow> i64" where
  "pow10 n = 10 ^ (n mod 2 ^ 32)"

text \<open>\<open>/\<close> on \<open>i64\<close>: truncating, a panic on a zero divisor and on the one overflowing quotient.\<close>

definition i64_div :: "i64 \<Rightarrow> i64 \<Rightarrow> i64 parsed" where
  "i64_div x y =
     (if y = 0 \<or> (y = - 1 \<and> x = 0x8000000000000000) then Inl Panic
      else Inr (word_of_int (sint x sdiv sint y)))"

fun fold_digits :: "bytes \<Rightarrow> i64 \<Rightarrow> i64" where
  "fold_digits [] result = result"
| "fold_digits (b # bs) result =
     (if is_digit b then fold_digits bs (result * 10 + ucast (b - 0x30)) else fold_digits bs result)"

definition parse_digits :: "bytes \<Rightarrow> i64" where
  "parse_digits bs = fold_digits bs 0"

fun fold_decimal_digits :: "bytes \<Rightarrow> i64 \<Rightarrow> nat \<Rightarrow> i64 \<times> nat" where
  "fold_decimal_digits [] result digit_count = (result, digit_count)"
| "fold_decimal_digits (b # bs) result digit_count =
     (if is_digit b
      then fold_decimal_digits bs (result * 10 + ucast (b - 0x30)) (digit_count + 1)
      else fold_decimal_digits bs result digit_count)"

definition parse_decimal_digits :: "bytes \<Rightarrow> i64 \<times> nat" where
  "parse_decimal_digits bs = fold_decimal_digits bs 0 0"

definition adjust_to_target_decimals :: "nat \<Rightarrow> i64 \<Rightarrow> i64 \<Rightarrow> nat \<Rightarrow> i64 parsed" where
  "adjust_to_target_decimals target integer_part decimal_part decimal_digit_count =
     (let multiplier = pow10 target
      in if decimal_digit_count < target then
           let scale = pow10 (target - decimal_digit_count)
           in Inr (integer_part * multiplier + decimal_part * scale)
         else if decimal_digit_count > target then
           let scale = pow10 (decimal_digit_count - target)
           in and_then (i64_div decimal_part scale) (\<lambda>q. Inr (integer_part * multiplier + q))
         else Inr (integer_part * multiplier + decimal_part))"

text \<open>\<open>position(|b| b == b'.')\<close>.\<close>

fun find_decimal_point :: "bytes \<Rightarrow> nat option" where
  "find_decimal_point [] = None"
| "find_decimal_point (b # bs) = (if b = 0x2E then Some 0 else map_option Suc (find_decimal_point bs))"

definition parse_with_decimal_point :: "nat \<Rightarrow> bytes \<Rightarrow> nat \<Rightarrow> i64 parsed" where
  "parse_with_decimal_point target bs decimal_pos =
     (let integer_part = parse_digits (take decimal_pos bs);
          (decimal_part, decimal_digit_count) = parse_decimal_digits (drop (decimal_pos + 1) bs)
      in adjust_to_target_decimals target integer_part decimal_part decimal_digit_count)"

definition parse_integer_only :: "nat \<Rightarrow> bytes \<Rightarrow> i64" where
  "parse_integer_only target bs = parse_digits bs * pow10 target"

definition parse_magnitude :: "nat \<Rightarrow> bytes \<Rightarrow> i64 parsed" where
  "parse_magnitude target numeric_bytes =
     (case find_decimal_point numeric_bytes of
        Some pos \<Rightarrow> parse_with_decimal_point target numeric_bytes pos
      | None \<Rightarrow> Inr (parse_integer_only target numeric_bytes))"

text \<open>The sign of the text and the bytes after it.\<close>

definition split_sign :: "bytes \<Rightarrow> bool \<times> bytes" where
  "split_sign bs =
     (if hd bs = 0x2D then (True, tl bs) else if hd bs = 0x2B then (False, tl bs) else (False, bs))"

definition dynamic_parse :: "nat \<Rightarrow> bytes \<Rightarrow> i64 parsed" where
  "dynamic_parse target bs =
     (if bs = [] then Inr 0
      else
        let (is_negative, numeric_bytes) = split_sign bs
        in map_ok (\<lambda>result. if is_negative then - result else result)
             (parse_magnitude target numeric_bytes))"

text \<open>The scanning loop of \<open>try_parse\<close>: \<open>None\<close> for a second point or any other byte.\<close>

fun scan_number :: "bytes \<Rightarrow> nat \<Rightarrow> nat \<Rightarrow> nat option" where
  "scan_number [] decimal_count digit_count = Some digit_count"
| "scan_number (b # bs) decimal_count digit_count =
     (if b = 0x2E then
        if decimal_count + 1 > 1 then None else scan_number bs (decimal_count + 1) digit_count
      else if is_digit b then scan_number bs decimal_count (digit_count + 1)
      else None)"

definition try_parse :: "nat \<Rightarrow> bytes \<Rightarrow> i64 option parsed" where
  "try_parse target bs =
     (if bs = [] then Inr None
      else
        let (is_negative, numeric_bytes) = split_sign bs
        in if numeric_bytes = [] then Inr None
           else case scan_number numeric_bytes 0 0 of
             None \<Rightarrow> Inr None
           | Some digit_count \<Rightarrow>
               if digit_count = 0 then Inr None
               else map_ok (\<lambda>result. Some (if is_negative then - result else result))
                      (parse_magnitude target numeric_bytes))"

definition ok_or_invalid :: "i64 option parsed \<Rightarrow> i64 parsed" where
  "ok_or_invalid r =
     and_then r (\<lambda>v. case v of Some val \<Rightarrow> Inr val | None \<Rightarrow> Inl (Err InvalidDigit))"

subsection \<open>The typed readers\<close>

definition dynamic_to_u8 :: "nat \<Rightarrow> bytes \<Rightarrow> u8 parsed" where
  "dynamic_to_u8 target data =
     and_then (ok_or_invalid (try_parse target data)) (\<lambda>val.
       if sint val < 0 then Inl (Err NegOverflow)
       else if sint val > 255 then Inl (Err Overflow)
       else Inr (ucast val))"

definition dynamic_to_u16 :: "nat \<Rightarrow> bytes \<Rightarrow> u16 parsed" where
  "dynamic_to_u16 target data =
     and_then (ok_or_invalid (try_parse target data)) (\<lambda>val.
       if sint val < 0 then Inl (Err NegOverflow)
       else if sint val > 65535 then Inl (Err Overflow)
       else Inr (ucast val))"

definition dynamic_to_u32 :: "nat \<Rightarrow> bytes \<Rightarrow> u32 parsed" where
  "dynamic_to_u32 target data =
     and_then (ok_or_invalid (try_parse target data)) (\<lambda>val.
       if sint val < 0 then Inl (Err NegOverflow)
       else if sint val > 4294967295 then Inl (Err Overflow)
       else Inr (ucast val))"

definition dynamic_to_u64 :: "nat \<Rightarrow> bytes \<Rightarrow> u64 parsed" where
  "dynamic_to_u64 target data =
     and_then (ok_or_invalid (try_parse target data)) (\<lambda>val.
       if sint val < 0 then Inl (Err NegOverflow)
       else Inr (ucast val))"

definition dynamic_to_u128 :: "nat \<Rightarrow> bytes \<Rightarrow> u128 parsed" where
  "dynamic_to_u128 target data =
     and_then (ok_or_invalid (try_parse target data)) (\<lambda>val.
       if sint val < 0 then Inl (Err NegOverflow)
       else Inr (ucast val))"

definition dynamic_to_i8 :: "nat \<Rightarrow> bytes \<Rightarrow> i8 parsed" where
  "dynamic_to_i8 target data =
     and_then (ok_or_invalid (try_parse target data)) (\<lambda>val.
       if sint val < - 128 then Inl (Err NegOverflow)
       else if sint val > 127 then Inl (Err Overflow)
       else Inr (ucast val))"

definition dynamic_to_i16 :: "nat \<Rightarrow> bytes \<Rightarrow> i16 parsed" where
  "dynamic_to_i16 target data =
     and_then (ok_or_invalid (try_parse target data)) (\<lambda>val.
       if sint val < - 32768 then Inl (Err NegOverflow)
       else if sint val > 32767 then Inl (Err Overflow)
       else Inr (ucast val))"

definition dynamic_to_i32 :: "nat \<Rightarrow> bytes \<Rightarrow> i32 parsed" where
  "dynamic_to_i32 target data =
     and_then (ok_or_invalid (try_parse target data)) (\<lambda>val.
       if sint val < - 2147483648 then Inl (Err NegOverflow)
       else if sint val > 2147483647 then Inl (Err Overflow)
       else Inr (ucast val))"

definition dynamic_to_i64 :: "nat \<Rightarrow> bytes \<Rightarrow> i64 parsed" where
  "dynamic_to_i64 target data = ok_or_invalid (try_parse target data)"

definition dynamic_to_i128 :: "nat \<Rightarrow> bytes \<Rightarrow> i128 parsed" where
  "dynamic_to_i128 target data =
     and_then (ok_or_invalid (try_parse target data)) (\<lambda>val. Inr (scast val))"

subsection \<open>The exact readers\<close>

text \<open>The loop of \<open>check_exact\<close> over the enumerated body; \<open>i\<close> is the index of the next byte.\<close>

fun check_body :: "bytes \<Rightarrow> nat \<Rightarrow> nat \<Rightarrow> nat option \<Rightarrow> (nat \<times> nat option) parsed" where
  "check_body [] i n_digits point = Inr (n_digits, point)"
| "check_body (b # bs) i n_digits point =
     (if is_digit b then check_body bs (i + 1) (n_digits + 1) point
      else if b = 0x2E \<and> point = None then check_body bs (i + 1) n_digits (Some i)
      else Inl (Err InvalidDigit))"

definition check_exact :: "nat \<Rightarrow> bytes \<Rightarrow> unit parsed" where
  "check_exact target data =
     (if data = [] then Inl (Err Empty)
      else
        let body = (if hd data = 0x2D \<or> hd data = 0x2B then tl data else data)
        in and_then (check_body body 0 0 None) (\<lambda>(n_digits, point).
             if n_digits = 0 then Inl (Err InvalidDigit)
             else if n_digits > 18 then Inl (Err Overflow)
             else case point of
               None \<Rightarrow> Inr ()
             | Some point \<Rightarrow>
                 let frac = drop (point + 1) body
                 in if length frac \<le> target then Inr ()
                    else if list_all (\<lambda>b. b = 0x30) (drop target frac) then Inr ()
                    else Inl (Err Precision)))"

definition to_i64_exact :: "nat \<Rightarrow> bytes \<Rightarrow> i64 parsed" where
  "to_i64_exact target data =
     and_then (check_exact target data) (\<lambda>_. ok_or_invalid (try_parse target data))"

definition to_u64_exact :: "nat \<Rightarrow> bytes \<Rightarrow> u64 parsed" where
  "to_u64_exact target data =
     and_then (to_i64_exact target data) (\<lambda>val.
       if sint val < 0 then Inl (Err NegOverflow) else Inr val)"

subsection \<open>The dispatching extractor (extractor/mod.rs)\<close>

datatype extractor = Fixed config | Dynamic nat

definition get_total_size :: "extractor \<Rightarrow> nat" where
  "get_total_size e = (case e of Fixed c \<Rightarrow> total_size c | Dynamic t \<Rightarrow> 0)"

definition extractor_to_u8 :: "extractor \<Rightarrow> bytes \<Rightarrow> u8 parsed" where
  "extractor_to_u8 e data =
     (case e of Fixed c \<Rightarrow> fixed_to_u8 c data | Dynamic t \<Rightarrow> dynamic_to_u8 t data)"

definition extractor_to_u16 :: "extractor \<Rightarrow> bytes \<Rightarrow> u16 parsed" where
  "extractor_to_u16 e data =
     (case e of Fixed c \<Rightarrow> fixed_to_u16 c data | Dynamic t \<Rightarrow> dynamic_to_u16 t data)"

definition extractor_to_u32 :: "extractor \<Rightarrow> bytes \<Rightarrow> u32 parsed" where
  "extractor_to_u32 e data =
     (case e of Fixed c \<Rightarrow> fixed_to_u32 c data | Dynamic t \<Rightarrow> dynamic_to_u32 t data)"

definition extractor_to_u64 :: "extractor \<Rightarrow> bytes \<Rightarrow> u64 parsed" where
  "extractor_to_u64 e data =
     (case e of Fixed c \<Rightarrow> fixed_to_u64 c data | Dynamic t \<Rightarrow> dynamic_to_u64 t data)"

definition extractor_to_u128 :: "extractor \<Rightarrow> bytes \<Rightarrow> u128 parsed" where
  "extractor_to_u128 e data =
     (case e of Fixed c \<Rightarrow> fixed_to_u128 c data | Dynamic t \<Rightarrow> dynamic_to_u128 t data)"

definition extractor_to_i8 :: "extractor \<Rightarrow> bytes \<Rightarrow> i8 parsed" where
  "extractor_to_i8 e data =
     (case e of Fixed c \<Rightarrow> fixed_to_i8 c data | Dynamic t \<Rightarrow> dynamic_to_i8 t data)"

definition extractor_to_i16 :: "extractor \<Rightarrow> bytes \<Rightarrow> i16 parsed" where
  "extractor_to_i16 e data =
     (case e of Fixed c \<Rightarrow> fixed_to_i16 c data | Dynamic t \<Rightarrow> dynamic_to_i16 t data)"

definition extractor_to_i32 :: "extractor \<Rightarrow> bytes \<Rightarrow> i32 parsed" where
  "extractor_to_i32 e data =
     (case e of Fixed c \<Rightarrow> fixed_to_i32 c data | Dynamic t \<Rightarrow> dynamic_to_i32 t data)"

definition extractor_to_i64 :: "extractor \<Rightarrow> bytes \<Rightarrow> i64 parsed" where
  "extractor_to_i64 e data =
     (case e of Fixed c \<Rightarrow> fixed_to_i64 c data | Dynamic t \<Rightarrow> dynamic_to_i64 t data)"

definition extractor_to_i128 :: "extractor \<Rightarrow> bytes \<Rightarrow> i128 parsed" where
  "extractor_to_i128 e data =
     (case e of Fixed c \<Rightarrow> fixed_to_i128 c data | Dynamic t \<Rightarrow> dynamic_to_i128 t data)"

definition extractor_to_i64_checked :: "extractor \<Rightarrow> bytes \<Rightarrow> i64 parsed" where
  "extractor_to_i64_checked e data =
     (case e of Fixed c \<Rightarrow> fixed_to_i64_checked c data | Dynamic t \<Rightarrow> dynamic_to_i64 t data)"

definition extractor_scale :: "extractor \<Rightarrow> scale option" where
  "extractor_scale e =
     (case e of Fixed c \<Rightarrow> scale_from_decimals (fraction_size c) | Dynamic t \<Rightarrow> scale_from_decimals t)"

definition extractor_decimals :: "extractor \<Rightarrow> nat" where
  "extractor_decimals e = (case e of Fixed c \<Rightarrow> fraction_size c | Dynamic t \<Rightarrow> t)"

subsection \<open>Text that is a decimal number\<close>

lemma digit_word: "is_digit b \<Longrightarrow> (ucast (b - 0x30) :: i64) = word_of_nat (unat b mod 16)"
proof -
  assume b: "is_digit b"
  then have "unat (b - 0x30) = unat b - 48"
    by (simp add: is_digit_def word_le_nat_alt unat_sub)
  moreover have "word_of_nat (unat (b - 0x30)) = b - 0x30"
    by simp
  ultimately have "b - 0x30 = word_of_nat (unat b mod 16)"
    unfolding digit_nibble [OF b] by simp
  then show ?thesis
    by (simp add: ucast_word_of_nat)
qed

lemma fold_digits_value:
  "digits bs \<Longrightarrow> fold_digits bs r = r * 10 ^ length bs + word_of_nat (dec_value bs)"
  by (induction bs arbitrary: r) (simp_all add: dec_value_Cons digit_word algebra_simps)

lemma parse_digits_value: "digits bs \<Longrightarrow> parse_digits bs = word_of_nat (dec_value bs)"
  by (simp add: parse_digits_def fold_digits_value)

lemma fold_decimal_digits_eq:
  "digits bs \<Longrightarrow> fold_decimal_digits bs r n = (fold_digits bs r, n + length bs)"
  by (induction bs arbitrary: r n) simp_all

lemma point_not_digit [simp]: "\<not> is_digit 0x2E"
  by (simp add: is_digit_def word_le_nat_alt)

lemma find_decimal_point_digits:
  "digits i \<Longrightarrow> find_decimal_point i = None"
  "digits i \<Longrightarrow> find_decimal_point (i @ 0x2E # f) = Some (length i)"
  by (induction i) auto

lemma scan_number_digits: "digits i \<Longrightarrow> scan_number (i @ bs) c n = scan_number bs c (n + length i)"
  by (induction i arbitrary: n) auto

lemma check_body_digits: "digits i \<Longrightarrow> check_body (i @ bs) k n p = check_body bs (k + length i) (n + length i) p"
  by (induction i arbitrary: k n) auto

text \<open>\<open>fraction fo\<close> is the text after the integer digits: nothing, or a point and digits.\<close>

definition fraction :: "bytes option \<Rightarrow> bytes" where
  "fraction fo = (case fo of None \<Rightarrow> [] | Some f \<Rightarrow> 0x2E # f)"

definition frac_digits :: "bytes option \<Rightarrow> bytes" where
  "frac_digits fo = (case fo of None \<Rightarrow> [] | Some f \<Rightarrow> f)"

text \<open>A number whose digits are \<open>i\<close> and \<open>frac_digits fo\<close>, with an optional sign.\<close>

definition decimal_text :: "bytes \<Rightarrow> bytes \<Rightarrow> bytes option \<Rightarrow> bytes" where
  "decimal_text s i fo = s @ i @ fraction fo"

definition well_formed :: "bytes \<Rightarrow> bytes \<Rightarrow> bytes option \<Rightarrow> bool" where
  "well_formed s i fo \<longleftrightarrow> s \<in> {[], [0x2D], [0x2B]} \<and> digits i \<and> digits (frac_digits fo) \<and>
     0 < length (i @ frac_digits fo)"

lemma body_cases:
  assumes "well_formed s i fo"
  shows "i @ fraction fo \<noteq> []" "hd (i @ fraction fo) \<noteq> 0x2D" "hd (i @ fraction fo) \<noteq> 0x2B"
  using assms
  by (auto simp: well_formed_def fraction_def frac_digits_def hd_append is_digit_def word_le_nat_alt
    split: option.splits) (cases i; simp add: is_digit_def word_le_nat_alt)+

lemma split_sign_text:
  assumes "well_formed s i fo"
  shows "split_sign (decimal_text s i fo) = (s = [0x2D], i @ fraction fo)"
  using body_cases [OF assms] assms by (auto simp: split_sign_def decimal_text_def well_formed_def)

lemma scan_text:
  assumes "well_formed s i fo"
  shows "scan_number (i @ fraction fo) 0 0 = Some (length (i @ frac_digits fo))"
  using assms scan_number_digits [of "frac_digits fo" "[]"]
  by (auto simp: well_formed_def scan_number_digits fraction_def frac_digits_def split: option.splits)

lemma check_body_text:
  assumes "well_formed s i fo"
  shows "check_body (i @ fraction fo) 0 0 None
    = Inr (length (i @ frac_digits fo), map_option (\<lambda>_. length i) fo)"
  using assms check_body_digits [of "frac_digits fo" "[]"]
  by (auto simp: well_formed_def check_body_digits fraction_def frac_digits_def split: option.splits)

lemma parse_magnitude_text:
  assumes "well_formed s i fo"
  shows "parse_magnitude t (i @ fraction fo) =
    (case fo of None \<Rightarrow> Inr (word_of_nat (dec_value i) * pow10 t)
     | Some f \<Rightarrow> adjust_to_target_decimals t (word_of_nat (dec_value i)) (word_of_nat (dec_value f)) (length f))"
  using assms
  by (auto simp: parse_magnitude_def well_formed_def fraction_def frac_digits_def
    find_decimal_point_digits parse_integer_only_def parse_with_decimal_point_def parse_decimal_digits_def
    fold_decimal_digits_eq parse_digits_value fold_digits_value split: option.splits)

lemma try_parse_text:
  assumes "well_formed s i fo"
  shows "try_parse t (decimal_text s i fo) =
    map_ok (\<lambda>m. Some (if s = [0x2D] then - m else m)) (parse_magnitude t (i @ fraction fo))"
proof -
  have "decimal_text s i fo \<noteq> []" "0 < length (i @ frac_digits fo)"
    using body_cases [OF assms] assms by (auto simp: decimal_text_def well_formed_def)
  then obtain n where n: "length (i @ frac_digits fo) = Suc n"
    using not0_implies_Suc by blast
  show ?thesis
    using body_cases(1) [OF assms] \<open>decimal_text s i fo \<noteq> []\<close>
    unfolding try_parse_def split_sign_text [OF assms] Let_def prod.case scan_text [OF assms] n
    by auto
qed

lemma check_exact_text:
  assumes "well_formed s i fo"
  shows "check_exact t (decimal_text s i fo) =
    (if 18 < length (i @ frac_digits fo) then Inl (Err Overflow)
     else if list_all (\<lambda>b. b = 0x30) (drop t (frac_digits fo)) then Inr () else Inl (Err Precision))"
proof -
  have body: "(if hd (decimal_text s i fo) = 0x2D \<or> hd (decimal_text s i fo) = 0x2B
      then tl (decimal_text s i fo) else decimal_text s i fo) = i @ fraction fo"
    using body_cases [OF assms] assms by (auto simp: decimal_text_def well_formed_def)
  have "decimal_text s i fo \<noteq> []" "0 < length (i @ frac_digits fo)"
    using body_cases [OF assms] assms by (auto simp: decimal_text_def well_formed_def)
  then show ?thesis
    unfolding check_exact_def body Let_def check_body_text [OF assms]
    by (cases fo) (simp_all add: fraction_def frac_digits_def)
qed

text \<open>Conversely, only such texts pass the checks.\<close>

lemma check_body_sound:
  assumes "check_body bs k n p = Inr (m, q)"
  shows "(p \<noteq> None \<longrightarrow> digits bs) \<and> (\<exists>i fo. bs = i @ fraction fo \<and> digits i \<and> digits (frac_digits fo) \<and>
    m = n + length (i @ frac_digits fo))"
  using assms
proof (induction bs arbitrary: k n p)
  case Nil
  then show ?case
    by (auto simp: fraction_def frac_digits_def intro!: exI [of _ "[]"] exI [of _ None])
next
  case (Cons b bs)
  show ?case
  proof (cases "is_digit b")
    case True
    then obtain i fo where "bs = i @ fraction fo" "digits i" "digits (frac_digits fo)"
      "m = n + 1 + length (i @ frac_digits fo)" "p \<noteq> None \<longrightarrow> digits bs"
      using Cons by fastforce
    with True show ?thesis
      by (auto intro!: exI [of _ "b # i"] exI [of _ fo])
  next
    case False
    then have b: "b = 0x2E" "p = None"
      using Cons.prems by (auto split: if_splits)
    then have "check_body bs (k + 1) n (Some k) = Inr (m, q)"
      using Cons.prems False by simp
    from Cons.IH [OF this] have "digits bs" "m = n + length bs"
      using check_body_digits [of bs "[]"] Cons.prems b by auto
    with b show ?thesis
      by (auto simp: fraction_def frac_digits_def intro!: exI [of _ "[]"] exI [of _ "Some bs"])
  qed
qed

lemma check_exact_sound:
  assumes "check_exact t data = Inr ()"
  obtains s i fo where "well_formed s i fo" "data = decimal_text s i fo"
proof -
  define body where "body = (if hd data = 0x2D \<or> hd data = 0x2B then tl data else data)"
  obtain m q where "data \<noteq> []" and m: "check_body body 0 0 None = Inr (m, q)" "m \<noteq> 0"
    using assms by (auto simp: check_exact_def body_def Let_def result_iffs split: if_splits prod.splits)
  obtain i fo where "body = i @ fraction fo" "digits i" "digits (frac_digits fo)"
    "0 < length (i @ frac_digits fo)"
    using check_body_sound [OF m(1)] m(2) by auto
  moreover have "\<exists>s\<in>{[], [0x2D], [0x2B]}. data = s @ body"
    using \<open>data \<noteq> []\<close> by (cases data) (auto simp: body_def)
  ultimately show thesis
    using that unfolding well_formed_def decimal_text_def by blast
qed


subsection \<open>The value of a text\<close>

lemma pow10_word: "n < 2 ^ 32 \<Longrightarrow> pow10 n = word_of_nat (10 ^ n)"
  by (simp add: pow10_def of_nat_power)

lemma i64_div_small:
  assumes "x < 2 ^ 63" "0 < y" "y < 2 ^ 63"
  shows "i64_div (word_of_nat x) (word_of_nat y) = Inr (word_of_nat (x div y))"
proof -
  have "sint (word_of_nat x :: i64) = int x" "sint (word_of_nat y :: i64) = int y"
    using assms by (simp_all add: sint_word_of_nat)
  moreover have "(word_of_nat y :: i64) \<noteq> 0" "(word_of_nat y :: i64) \<noteq> - 1"
    using \<open>sint (word_of_nat y :: i64) = int y\<close> assms(2) by auto
  moreover have "int x sdiv int y = int (x div y)"
    using assms(2) by (cases "x = 0") (simp_all add: signed_divide_int_def zdiv_int)
  ultimately show ?thesis
    by (simp add: i64_div_def)
qed

text \<open>The integer a number is at \<open>t\<close> decimals when the digits beyond them are zeros.\<close>

definition scaled :: "nat \<Rightarrow> bytes \<Rightarrow> bytes option \<Rightarrow> nat" where
  "scaled t i fo =
     dec_value (i @ take t (frac_digits fo)) * 10 ^ (t - length (frac_digits fo))"

lemma dec_value_zeros: "list_all (\<lambda>b. b = 0x30) bs \<Longrightarrow> dec_value bs = 0"
  by (induction bs) (simp_all add: dec_value_Cons)

lemma dec_value_cut:
  assumes "list_all (\<lambda>b. b = 0x30) (drop t f)"
  shows "dec_value (i @ f) = dec_value (i @ take t f) * 10 ^ (length f - t)"
proof -
  have "dec_value ((i @ take t f) @ drop t f) = dec_value (i @ take t f) * 10 ^ (length f - t)"
    unfolding dec_value_append [of _ "drop t f"] using dec_value_zeros [OF assms] by simp
  then show ?thesis
    by simp
qed

lemma scaled_exact:
  assumes "list_all (\<lambda>b. b = 0x30) (drop t (frac_digits fo))"
  shows "scaled t i fo * 10 ^ length (frac_digits fo) = dec_value (i @ frac_digits fo) * 10 ^ t"
proof -
  have "(10::nat) ^ (t - n) * 10 ^ n = 10 ^ (n - t) * 10 ^ t" for n
    by (simp flip: power_add)
  then show ?thesis
    unfolding scaled_def dec_value_cut [OF assms, of i] by (simp only: mult.assoc)
qed

lemma parse_magnitude_value:
  assumes "well_formed s i fo" "length (i @ frac_digits fo) \<le> 18"
    and "list_all (\<lambda>b. b = 0x30) (drop t (frac_digits fo))" "t < 2 ^ 32"
  shows "parse_magnitude t (i @ fraction fo) = Inr (word_of_nat (scaled t i fo))"
proof (cases fo)
  case None
  with assms show ?thesis
    by (simp add: parse_magnitude_text scaled_def frac_digits_def pow10_word)
next
  case (Some f)
  have f: "frac_digits fo = f" "digits f" "length f \<le> 18" "length f < 2 ^ 32"
    using assms(1,2) Some by (simp_all add: frac_digits_def well_formed_def)
  consider "length f < t" | "length f = t" | "t < length f"
    by linarith
  then show ?thesis
  proof cases
    case 3
    have small: "dec_value f < 2 ^ 63" "(10::nat) ^ (length f - t) < 2 ^ 63"
      using dec_value_less [OF f(2)] power_increasing [of "length f" 18 "10 :: nat"]
        power_increasing [OF le_trans [OF diff_le_self f(3)], of "10 :: nat" t] f(3) by simp_all
    have "dec_value f = dec_value (take t f) * 10 ^ (length f - t)"
      using dec_value_cut [of t f "[]"] assms(3) f(1) by simp
    then have "i64_div (word_of_nat (dec_value f)) (pow10 (length f - t)) = Inr (word_of_nat (dec_value (take t f)))"
      using i64_div_small [OF small(1) _ small(2)] f(4) by (simp add: pow10_word)
    then show ?thesis
      using 3 Some assms
      by (simp add: parse_magnitude_text adjust_to_target_decimals_def scaled_def frac_digits_def
        pow10_word dec_value_append)
  qed (use Some assms in \<open>simp_all add: parse_magnitude_text adjust_to_target_decimals_def scaled_def frac_digits_def
        pow10_word dec_value_append algebra_simps flip: power_add\<close>)
qed

lemma to_i64_exact_text:
  assumes "well_formed s i fo" "length (i @ frac_digits fo) \<le> 18"
    and "list_all (\<lambda>b. b = 0x30) (drop t (frac_digits fo))" "t < 2 ^ 32"
  shows "to_i64_exact t (decimal_text s i fo)
    = Inr (if s = [0x2D] then - word_of_nat (scaled t i fo) else word_of_nat (scaled t i fo))"
  using assms
  by (simp add: to_i64_exact_def check_exact_text try_parse_text parse_magnitude_value ok_or_invalid_def
    del: length_append)

text \<open>
  C31. \<open>to_i64_exact\<close> is exact: for a number of at most 18 digits whose digits beyond the target
  scale are zeros, the answer \<open>v\<close> satisfies \<open>v / 10^t = number\<close> (stated without division), provided
  the scaled magnitude fits in an \<open>i64\<close>.
\<close>

theorem to_i64_exact_value:
  assumes "well_formed s i fo" and "length (i @ frac_digits fo) \<le> 18"
    and "list_all (\<lambda>b. b = 0x30) (drop t (frac_digits fo))" and "t < 2 ^ 32"
    and "dec_value (i @ take t (frac_digits fo)) * 10 ^ (t - length (frac_digits fo)) < 2 ^ 63"
  shows "\<exists>v. to_i64_exact t (decimal_text s i fo) = Inr v \<and>
    sint v * 10 ^ length (frac_digits fo)
      = (if s = [0x2D] then - 1 else 1) * int (dec_value (i @ frac_digits fo)) * 10 ^ t"
proof -
  have "scaled t i fo < 2 ^ 63"
    using assms(5) by (simp add: scaled_def)
  then have "sint (word_of_nat (scaled t i fo) :: i64) = int (scaled t i fo)"
    "sint (- word_of_nat (scaled t i fo) :: i64) = - int (scaled t i fo)"
    by (simp_all add: sint_word_of_nat sint_minus_word_of_nat)
  moreover have "int (scaled t i fo) * 10 ^ length (frac_digits fo) = int (dec_value (i @ frac_digits fo)) * 10 ^ t"
    using arg_cong [OF scaled_exact [OF assms(3), of i], of int] by simp
  ultimately show ?thesis
    using to_i64_exact_text [OF assms(1-4)] by simp
qed

theorem to_i64_exact_value_witness:
  "\<exists>v. to_i64_exact 2 [0x2D, 0x33, 0x2E, 0x38, 0x34, 0x30] = Inr v \<and> sint v * 10 ^ 3 = - 3840 * 10 ^ 2"
  using to_i64_exact_value [of "[0x2D]" "[0x33]" "Some [0x38, 0x34, 0x30]" 2]
  by (simp add: well_formed_def frac_digits_def is_digit_def decimal_text_def fraction_def dec_value_Cons)

text \<open>
  \<open>to_i64_exact\<close> never panics and answers only for a well-formed number of at most 18 digits
  that loses nothing but zeros at the target scale.
\<close>

theorem to_i64_exact_only:
  assumes "t < 2 ^ 32"
  shows "no_panic (to_i64_exact t data) \<and>
    (\<forall>v. to_i64_exact t data = Inr v \<longrightarrow>
      (\<exists>s i fo. data = decimal_text s i fo \<and> well_formed s i fo \<and> length (i @ frac_digits fo) \<le> 18 \<and>
        list_all (\<lambda>b. b = 0x30) (drop t (frac_digits fo))))"
proof (cases "check_exact t data")
  case (Inl e)
  have "no_panic (check_body bs k n p)" for bs k n p
    by (induction bs k n p rule: check_body.induct) auto
  then have "no_panic (check_exact t data)"
    by (auto simp: check_exact_def Let_def intro!: no_panic_and_then split: prod.split option.split)
  with Inl show ?thesis
    by (simp add: to_i64_exact_def no_panic_def)
next
  case (Inr u)
  then have ok: "check_exact t data = Inr ()"
    by simp
  obtain s i fo where dt: "well_formed s i fo" "data = decimal_text s i fo"
    by (rule check_exact_sound [OF ok])
  then have small: "length (i @ frac_digits fo) \<le> 18" "list_all (\<lambda>b. b = 0x30) (drop t (frac_digits fo))"
    using ok check_exact_text [of s i fo t] by (auto split: if_splits)
  with dt to_i64_exact_text [OF dt(1) small assms] show ?thesis
    by (auto simp: no_panic_def)
qed

theorem to_i64_exact_only_witness:
  "no_panic (to_i64_exact 2 [0x31, 0x2E, 0x32, 0x2E, 0x33])"
  using to_i64_exact_only [of 2 "[0x31, 0x2E, 0x32, 0x2E, 0x33]"] by simp

text \<open>
  The 18-digit limit does not cover the scaling: an integer text is multiplied by the power
  of ten with wrap-around, so a value that does not fit at the target scale is returned modulo
  \<open>2 ^ 64\<close> instead of being refused.
\<close>

theorem to_i64_exact_wraps:
  assumes "digits i" and "0 < length i" and "length i \<le> 18" and "t < 2 ^ 32"
  shows "to_i64_exact t i = Inr (word_of_nat (dec_value i * 10 ^ t))"
  using to_i64_exact_text [of "[]" i None t] assms
  by (simp add: well_formed_def frac_digits_def decimal_text_def fraction_def scaled_def)

text \<open>"100000000000" at eight decimals is read as -8446744073709551616.\<close>

theorem to_i64_exact_wraps_witness:
  "to_i64_exact 8 [0x31, 0x30, 0x30, 0x30, 0x30, 0x30, 0x30, 0x30, 0x30, 0x30, 0x30, 0x30]
   = Inr (- 8446744073709551616)"
  using to_i64_exact_wraps [of "[0x31, 0x30, 0x30, 0x30, 0x30, 0x30, 0x30, 0x30, 0x30, 0x30, 0x30, 0x30]" 8]
  by (simp add: is_digit_def dec_value_Cons)

text \<open>
  The plain readers can panic: a text with at least 64 decimals more than the target divides
  by a power of ten that has wrapped to zero.
\<close>

theorem dynamic_to_i64_panics:
  assumes "well_formed s i (Some f)" and "t + 64 \<le> length f" and "length f < 2 ^ 32"
  shows "dynamic_to_i64 t (decimal_text s i (Some f)) = Inl Panic"
proof -
  have "64 \<le> length f - t"
    using assms(2) by simp
  then obtain k where k: "length f - t = 64 + k"
    using le_Suc_ex by blast
  have "(10 :: i64) ^ (64 + k) = 10 ^ 64 * 10 ^ k"
    by (rule power_add)
  also have "(10 :: i64) ^ 64 = 0"
    by simp
  finally have "pow10 (length f - t) = 0"
    using assms(3) k by (simp add: pow10_def)
  then show ?thesis
    using assms by (simp add: dynamic_to_i64_def try_parse_text parse_magnitude_text
      adjust_to_target_decimals_def i64_div_def ok_or_invalid_def)
qed

theorem dynamic_to_i64_panics_witness:
  "dynamic_to_i64 0 (decimal_text [] [0x30] (Some (replicate 64 0x30))) = Inl Panic"
  by (rule dynamic_to_i64_panics) (simp_all add: well_formed_def frac_digits_def is_digit_def)

end
