(* ===== verification/Codec.thy ===== *)
theory Codec
  imports Wire_Types
begin

text \<open>
  The interface between a plain-old-data \<open>repr(C)\<close> value and its in-memory image, on which the
  byte views of \<open>crates/jeed-wire/src/record.rs\<close> rest: a fixed width, an encoder and a decoder that
  reads a prefix. The laws say that every value is read back and that every byte string of the
  width is the image of a value, which is what "every bit pattern is valid" means in the source.
\<close>

locale codec =
  fixes enc :: "'a \<Rightarrow> bytes" and dec :: "bytes \<Rightarrow> 'a" and width :: nat and ok :: "'a \<Rightarrow> bool"
  assumes length_enc: "ok x \<Longrightarrow> length (enc x) = width"
    and dec_enc: "ok x \<Longrightarrow> dec (enc x @ rest) = x"
    and ok_dec: "width \<le> length bs \<Longrightarrow> ok (dec bs)"
    and enc_dec: "width \<le> length bs \<Longrightarrow> enc (dec bs) = take width bs"
begin

lemma dec_enc_exact: "ok x \<Longrightarrow> dec (enc x) = x"
  using dec_enc [of x "[]"] by simp

lemma dec_take: "width \<le> length bs \<Longrightarrow> width \<le> n \<Longrightarrow> dec (take n bs) = dec bs"
proof -
  assume a: "width \<le> length bs" "width \<le> n"
  have "dec (enc (dec bs) @ drop width (take n bs)) = dec bs"
    using dec_enc [OF ok_dec [OF a(1)]] .
  also have "enc (dec bs) @ drop width (take n bs) = take n bs"
    using a by (simp add: enc_dec) (metis append_take_drop_id min.absorb1 take_take)
  finally show ?thesis .
qed

lemma enc_inj: "ok x \<Longrightarrow> ok y \<Longrightarrow> enc x = enc y \<longleftrightarrow> x = y"
  by (metis dec_enc_exact)

end

subsection \<open>Words and byte arrays\<close>

definition word_from_bytes :: "nat \<Rightarrow> bytes \<Rightarrow> 'a::len word" where
  "word_from_bytes n bs = from_le_bytes (take n bs)"

lemma codec_word:
  assumes "LENGTH('a::len) = 8 * n"
  shows "codec (to_le_bytes n :: 'a word \<Rightarrow> bytes) (word_from_bytes n) n (\<lambda>_. True)"
proof
  show "to_le_bytes n (word_from_bytes n bs :: 'a word) = take n bs" if "n \<le> length bs" for bs
    using that assms by (simp add: word_from_bytes_def to_le_bytes_from_le_bytes)
qed (simp_all add: word_from_bytes_def from_le_bytes_to_le_bytes [OF assms])

interpretation byte: codec "to_le_bytes 1 :: u8 \<Rightarrow> bytes" "word_from_bytes 1" 1 "\<lambda>_. True"
  by (rule codec_word) simp

interpretation half: codec "to_le_bytes 2 :: u16 \<Rightarrow> bytes" "word_from_bytes 2" 2 "\<lambda>_. True"
  by (rule codec_word) simp

interpretation word: codec "to_le_bytes 4 :: u32 \<Rightarrow> bytes" "word_from_bytes 4" 4 "\<lambda>_. True"
  by (rule codec_word) simp

interpretation long: codec "to_le_bytes 8 :: u64 \<Rightarrow> bytes" "word_from_bytes 8" 8 "\<lambda>_. True"
  by (rule codec_word) simp

lemmas word_lengths = byte.length_enc half.length_enc word.length_enc long.length_enc

lemma codec_raw: "codec (\<lambda>bs :: bytes. bs) (take n) n (\<lambda>bs. length bs = n)"
  by unfold_locales auto

subsection \<open>Fields in sequence\<close>

text \<open>Cutting a byte string into consecutive fields of the given widths loses nothing.\<close>

fun cut :: "nat list \<Rightarrow> bytes \<Rightarrow> bytes" where
  "cut [] bs = []"
| "cut (w # ws) bs = take w bs @ cut ws (drop w bs)"

lemma cut_eq_take: "cut ws bs = take (sum_list ws) bs"
  by (induction ws arbitrary: bs) (simp_all add: take_add)

subsection \<open>Arrays\<close>

definition array_to_bytes :: "('a \<Rightarrow> bytes) \<Rightarrow> 'a list \<Rightarrow> bytes" where
  "array_to_bytes enc xs = concat (map enc xs)"

fun array_from_bytes :: "(bytes \<Rightarrow> 'a) \<Rightarrow> nat \<Rightarrow> nat \<Rightarrow> bytes \<Rightarrow> 'a list" where
  "array_from_bytes dec w 0 bs = []"
| "array_from_bytes dec w (Suc n) bs = dec bs # array_from_bytes dec w n (drop w bs)"

definition array_ok :: "('a \<Rightarrow> bool) \<Rightarrow> nat \<Rightarrow> 'a list \<Rightarrow> bool" where
  "array_ok ok n xs \<longleftrightarrow> length xs = n \<and> list_all ok xs"

context codec
begin

lemma array: "codec (array_to_bytes enc) (array_from_bytes dec width n) (n * width) (array_ok ok n)"
proof
  fix xs rest
  show "array_ok ok n xs \<Longrightarrow> length (array_to_bytes enc xs) = n * width"
    by (induction xs arbitrary: n) (auto simp: array_ok_def array_to_bytes_def length_enc)
  show "array_ok ok n xs \<Longrightarrow> array_from_bytes dec width n (array_to_bytes enc xs @ rest) = xs"
    by (induction xs arbitrary: n) (auto simp: array_ok_def array_to_bytes_def length_enc dec_enc)
next
  fix bs
  show "n * width \<le> length bs \<Longrightarrow> array_ok ok n (array_from_bytes dec width n bs)"
    by (induction n arbitrary: bs) (auto simp: array_ok_def ok_dec)
  show "n * width \<le> length bs \<Longrightarrow>
      array_to_bytes enc (array_from_bytes dec width n bs) = take (n * width) bs"
    by (induction n arbitrary: bs) (auto simp: array_to_bytes_def enc_dec take_add)
qed

end

end
