(* ===== verification/Wire_Payload.thy ===== *)
theory Wire_Payload
  imports Codec
begin

text \<open>
  \<open>crates/jeed-wire/src/payload.rs\<close> and the memory layout of the header: every payload as a record
  with its operations and its in-memory image (\<open>..._to_bytes\<close>, \<open>..._from_bytes\<close>, the fields in
  \<open>repr(C)\<close> order, integers little-endian), and for each the proof that the image is a \<open>codec\<close> of
  the width the source asserts. An \<open>..._ok\<close> predicate gives the lengths of the array fields.
\<close>

lemmas word_laws = byte.dec_enc half.dec_enc word.dec_enc long.dec_enc
  byte.enc_dec half.enc_dec word.enc_dec long.enc_dec

subsection \<open>The header\<close>

definition record_header_to_bytes :: "record_header \<Rightarrow> bytes" where
  "record_header_to_bytes x =
     to_le_bytes 1 (h_kind x) @ to_le_bytes 1 (h_venue x) @ to_le_bytes 1 (h_flags x) @
     to_le_bytes 1 (h_depth x) @ to_le_bytes 1 (h_price_scale x) @
     to_le_bytes 1 (h_qty_scale x) @ to_le_bytes 2 (h_pad0 x) @
     to_le_bytes 8 (h_producer_seq x) @ to_le_bytes 8 (h_recv_ns x) @
     to_le_bytes 8 (h_venue_ns x) @ h_symbol x @ h_pad1 x"

definition record_header_from_bytes :: "bytes \<Rightarrow> record_header" where
  "record_header_from_bytes bs =
     \<lparr> h_kind = word_from_bytes 1 bs,
       h_venue = word_from_bytes 1 (drop 1 bs),
       h_flags = word_from_bytes 1 (drop 2 bs),
       h_depth = word_from_bytes 1 (drop 3 bs),
       h_price_scale = word_from_bytes 1 (drop 4 bs),
       h_qty_scale = word_from_bytes 1 (drop 5 bs),
       h_pad0 = word_from_bytes 2 (drop 6 bs),
       h_producer_seq = word_from_bytes 8 (drop 8 bs),
       h_recv_ns = word_from_bytes 8 (drop 16 bs),
       h_venue_ns = word_from_bytes 8 (drop 24 bs),
       h_symbol = take 24 (drop 32 bs),
       h_pad1 = take 8 (drop 56 bs) \<rparr>"

interpretation header: codec record_header_to_bytes record_header_from_bytes 64 "header_ok"
proof
  show "record_header_to_bytes (record_header_from_bytes bs) = take 64 bs" if "64 \<le> length bs" for bs
    using that cut_eq_take [of "[1, 1, 1, 1, 1, 1, 2, 8, 8, 8, 24, 8]" bs]
    by (simp add: record_header_to_bytes_def record_header_from_bytes_def header_ok_def word_laws del: One_nat_def)
qed (simp_all add: record_header_to_bytes_def record_header_from_bytes_def header_ok_def word_laws del: One_nat_def)

subsection \<open>Book level\<close>

record wire_level =
  l_price :: i64
  l_qty :: u64
  l_order_count :: u32
  l_ext :: u32

definition wire_level_to_bytes :: "wire_level \<Rightarrow> bytes" where
  "wire_level_to_bytes x =
     to_le_bytes 8 (l_price x) @ to_le_bytes 8 (l_qty x) @ to_le_bytes 4 (l_order_count x) @
     to_le_bytes 4 (l_ext x)"

definition wire_level_from_bytes :: "bytes \<Rightarrow> wire_level" where
  "wire_level_from_bytes bs =
     \<lparr> l_price = word_from_bytes 8 bs,
       l_qty = word_from_bytes 8 (drop 8 bs),
       l_order_count = word_from_bytes 4 (drop 16 bs),
       l_ext = word_from_bytes 4 (drop 20 bs) \<rparr>"

interpretation level: codec wire_level_to_bytes wire_level_from_bytes 24 "\<lambda>_. True"
proof
  show "wire_level_to_bytes (wire_level_from_bytes bs) = take 24 bs" if "24 \<le> length bs" for bs
    using that cut_eq_take [of "[8, 8, 4, 4]" bs]
    by (simp add: wire_level_to_bytes_def wire_level_from_bytes_def word_laws del: One_nat_def)
qed (simp_all add: wire_level_to_bytes_def wire_level_from_bytes_def word_laws del: One_nat_def)

definition level_new :: "i64 \<Rightarrow> u64 \<Rightarrow> wire_level" where
  "level_new price qty = \<lparr> l_price = price, l_qty = qty, l_order_count = 0, l_ext = 0 \<rparr>"

definition level_with_count :: "i64 \<Rightarrow> u64 \<Rightarrow> u32 \<Rightarrow> wire_level" where
  "level_with_count price qty order_count =
     \<lparr> l_price = price, l_qty = qty, l_order_count = order_count, l_ext = 0 \<rparr>"

definition bond_yield :: "wire_level \<Rightarrow> i32" where
  "bond_yield x = l_ext x"

interpretation levels: codec "array_to_bytes wire_level_to_bytes"
  "array_from_bytes wire_level_from_bytes 24 10" 240 "array_ok (\<lambda>_. True) 10"
  using level.array [of 10] by simp

subsection \<open>Quote\<close>

record quote_payload =
  q_ask :: "wire_level list"
  q_bid :: "wire_level list"
  q_quote_ext :: u64
  q_level_ext_kind :: u8
  q_quote_ext_kind :: u8
  q_level_flags :: u8
  q_pad :: bytes

definition quote_payload_ok :: "quote_payload \<Rightarrow> bool" where
  "quote_payload_ok x \<longleftrightarrow> array_ok (\<lambda>_. True) 10 (q_ask x) \<and>
     array_ok (\<lambda>_. True) 10 (q_bid x) \<and>
     length (q_pad x) = 5"

definition quote_payload_to_bytes :: "quote_payload \<Rightarrow> bytes" where
  "quote_payload_to_bytes x =
     array_to_bytes wire_level_to_bytes (q_ask x) @
     array_to_bytes wire_level_to_bytes (q_bid x) @ to_le_bytes 8 (q_quote_ext x) @
     to_le_bytes 1 (q_level_ext_kind x) @ to_le_bytes 1 (q_quote_ext_kind x) @
     to_le_bytes 1 (q_level_flags x) @ q_pad x"

definition quote_payload_from_bytes :: "bytes \<Rightarrow> quote_payload" where
  "quote_payload_from_bytes bs =
     \<lparr> q_ask = array_from_bytes wire_level_from_bytes 24 10 bs,
       q_bid = array_from_bytes wire_level_from_bytes 24 10 (drop 240 bs),
       q_quote_ext = word_from_bytes 8 (drop 480 bs),
       q_level_ext_kind = word_from_bytes 1 (drop 488 bs),
       q_quote_ext_kind = word_from_bytes 1 (drop 489 bs),
       q_level_flags = word_from_bytes 1 (drop 490 bs),
       q_pad = take 5 (drop 491 bs) \<rparr>"

interpretation quote: codec quote_payload_to_bytes quote_payload_from_bytes 496 "quote_payload_ok"
proof
  show "quote_payload_to_bytes (quote_payload_from_bytes bs) = take 496 bs" if "496 \<le> length bs" for bs
    using that cut_eq_take [of "[240, 240, 8, 1, 1, 1, 5]" bs]
    by (simp add: quote_payload_to_bytes_def quote_payload_from_bytes_def quote_payload_ok_def word_laws levels.length_enc levels.dec_enc levels.enc_dec levels.ok_dec del: One_nat_def)
qed (simp_all add: quote_payload_to_bytes_def quote_payload_from_bytes_def quote_payload_ok_def word_laws levels.length_enc levels.dec_enc levels.enc_dec levels.ok_dec del: One_nat_def)

definition quote_default :: quote_payload where
  "quote_default = quote_payload_from_bytes (replicate 496 0)"

text \<open>Indexing past the array panics.\<close>

definition set_ask :: "nat \<Rightarrow> wire_level \<Rightarrow> quote_payload \<Rightarrow> (wire_error, quote_payload) res" where
  "set_ask i level x =
     (if i < WIRE_MAX_DEPTH then Inr (x\<lparr>q_ask := (q_ask x)[i := level]\<rparr>) else Inl Panic)"

definition set_bid :: "nat \<Rightarrow> wire_level \<Rightarrow> quote_payload \<Rightarrow> (wire_error, quote_payload) res" where
  "set_bid i level x =
     (if i < WIRE_MAX_DEPTH then Inr (x\<lparr>q_bid := (q_bid x)[i := level]\<rparr>) else Inl Panic)"

definition with_order_counts :: "quote_payload \<Rightarrow> quote_payload" where
  "with_order_counts x = x\<lparr>q_level_flags := q_level_flags x OR ORDER_COUNT_VALID\<rparr>"

definition has_order_counts :: "quote_payload \<Rightarrow> bool" where
  "has_order_counts x \<longleftrightarrow> q_level_flags x AND ORDER_COUNT_VALID \<noteq> 0"

definition with_level_ext :: "u8 \<Rightarrow> quote_payload \<Rightarrow> quote_payload" where
  "with_level_ext kind x = x\<lparr>q_level_ext_kind := kind\<rparr>"

definition with_quote_ext :: "u8 \<Rightarrow> u64 \<Rightarrow> quote_payload \<Rightarrow> quote_payload" where
  "with_quote_ext kind v x = x\<lparr>q_quote_ext_kind := kind, q_quote_ext := v\<rparr>"

definition quote_asks :: "quote_payload \<Rightarrow> u8 \<Rightarrow> wire_level list" where
  "quote_asks x depth = take (min (unat depth) WIRE_MAX_DEPTH) (q_ask x)"

definition quote_bids :: "quote_payload \<Rightarrow> u8 \<Rightarrow> wire_level list" where
  "quote_bids x depth = take (min (unat depth) WIRE_MAX_DEPTH) (q_bid x)"

subsection \<open>Trade\<close>

record trade_payload =
  t_price :: i64
  t_qty :: u64
  t_cumulative_qty :: u64
  t_dyn_upper :: i64
  t_dyn_lower :: i64
  t_trade_yield :: i32
  t_trade_kind :: u8
  t_trade_flags :: u8
  t_pad :: u16

definition trade_payload_to_bytes :: "trade_payload \<Rightarrow> bytes" where
  "trade_payload_to_bytes x =
     to_le_bytes 8 (t_price x) @ to_le_bytes 8 (t_qty x) @
     to_le_bytes 8 (t_cumulative_qty x) @ to_le_bytes 8 (t_dyn_upper x) @
     to_le_bytes 8 (t_dyn_lower x) @ to_le_bytes 4 (t_trade_yield x) @
     to_le_bytes 1 (t_trade_kind x) @ to_le_bytes 1 (t_trade_flags x) @ to_le_bytes 2 (t_pad x)"

definition trade_payload_from_bytes :: "bytes \<Rightarrow> trade_payload" where
  "trade_payload_from_bytes bs =
     \<lparr> t_price = word_from_bytes 8 bs,
       t_qty = word_from_bytes 8 (drop 8 bs),
       t_cumulative_qty = word_from_bytes 8 (drop 16 bs),
       t_dyn_upper = word_from_bytes 8 (drop 24 bs),
       t_dyn_lower = word_from_bytes 8 (drop 32 bs),
       t_trade_yield = word_from_bytes 4 (drop 40 bs),
       t_trade_kind = word_from_bytes 1 (drop 44 bs),
       t_trade_flags = word_from_bytes 1 (drop 45 bs),
       t_pad = word_from_bytes 2 (drop 46 bs) \<rparr>"

interpretation trade: codec trade_payload_to_bytes trade_payload_from_bytes 48 "\<lambda>_. True"
proof
  show "trade_payload_to_bytes (trade_payload_from_bytes bs) = take 48 bs" if "48 \<le> length bs" for bs
    using that cut_eq_take [of "[8, 8, 8, 8, 8, 4, 1, 1, 2]" bs]
    by (simp add: trade_payload_to_bytes_def trade_payload_from_bytes_def word_laws del: One_nat_def)
qed (simp_all add: trade_payload_to_bytes_def trade_payload_from_bytes_def word_laws del: One_nat_def)

definition trade_new :: "i64 \<Rightarrow> u64 \<Rightarrow> trade_payload" where
  "trade_new price qty = \<lparr> t_price = price, t_qty = qty, t_cumulative_qty = 0, t_dyn_upper = 0,
     t_dyn_lower = 0, t_trade_yield = 0, t_trade_kind = TRADE_KIND_NONE, t_trade_flags = 0, t_pad = 0 \<rparr>"

definition with_kind :: "u8 \<Rightarrow> trade_payload \<Rightarrow> trade_payload" where
  "with_kind kind x = x\<lparr>t_trade_kind := kind\<rparr>"

definition with_cumulative_qty :: "u64 \<Rightarrow> trade_payload \<Rightarrow> trade_payload" where
  "with_cumulative_qty cumulative x =
     x\<lparr>t_cumulative_qty := cumulative, t_trade_flags := t_trade_flags x OR CUMULATIVE_QTY_VALID\<rparr>"

definition with_dyn_limits :: "i64 \<Rightarrow> i64 \<Rightarrow> trade_payload \<Rightarrow> trade_payload" where
  "with_dyn_limits upper lower x =
     x\<lparr>t_dyn_upper := upper, t_dyn_lower := lower,
       t_trade_flags := t_trade_flags x OR DYN_LIMIT_VALID\<rparr>"

definition dyn_limits :: "trade_payload \<Rightarrow> (i64 \<times> i64) option" where
  "dyn_limits x =
     (if t_trade_flags x AND DYN_LIMIT_VALID \<noteq> 0 then Some (t_dyn_upper x, t_dyn_lower x) else None)"

definition with_yield :: "i32 \<Rightarrow> trade_payload \<Rightarrow> trade_payload" where
  "with_yield y x = x\<lparr>t_trade_yield := y, t_trade_flags := t_trade_flags x OR YIELD_VALID\<rparr>"

definition cumulative_qty :: "trade_payload \<Rightarrow> u64 option" where
  "cumulative_qty x =
     (if t_trade_flags x AND CUMULATIVE_QTY_VALID \<noteq> 0 then Some (t_cumulative_qty x) else None)"

definition trade_yield :: "trade_payload \<Rightarrow> i32 option" where
  "trade_yield x = (if t_trade_flags x AND YIELD_VALID \<noteq> 0 then Some (t_trade_yield x) else None)"

subsection \<open>Trade and quote\<close>

record trade_quote_payload =
  tq_trade :: trade_payload
  tq_quote :: quote_payload

definition trade_quote_payload_ok :: "trade_quote_payload \<Rightarrow> bool" where
  "trade_quote_payload_ok x \<longleftrightarrow> quote_payload_ok (tq_quote x)"

definition trade_quote_payload_to_bytes :: "trade_quote_payload \<Rightarrow> bytes" where
  "trade_quote_payload_to_bytes x =
     trade_payload_to_bytes (tq_trade x) @ quote_payload_to_bytes (tq_quote x)"

definition trade_quote_payload_from_bytes :: "bytes \<Rightarrow> trade_quote_payload" where
  "trade_quote_payload_from_bytes bs =
     \<lparr> tq_trade = trade_payload_from_bytes bs,
       tq_quote = quote_payload_from_bytes (drop 48 bs) \<rparr>"

interpretation trade_quote: codec trade_quote_payload_to_bytes trade_quote_payload_from_bytes 544 "trade_quote_payload_ok"
proof
  show "trade_quote_payload_to_bytes (trade_quote_payload_from_bytes bs) = take 544 bs" if "544 \<le> length bs" for bs
    using that cut_eq_take [of "[48, 496]" bs]
    by (simp add: trade_quote_payload_to_bytes_def trade_quote_payload_from_bytes_def trade_quote_payload_ok_def word_laws quote.length_enc quote.dec_enc quote.enc_dec quote.ok_dec trade.length_enc trade.dec_enc trade.enc_dec trade.ok_dec del: One_nat_def)
qed (simp_all add: trade_quote_payload_to_bytes_def trade_quote_payload_from_bytes_def trade_quote_payload_ok_def word_laws quote.length_enc quote.dec_enc quote.enc_dec quote.ok_dec trade.length_enc trade.dec_enc trade.enc_dec trade.ok_dec del: One_nat_def)

subsection \<open>Snapshot delta\<close>

record wire_delta_level =
  dl_price :: i64
  dl_qty :: u64

definition wire_delta_level_to_bytes :: "wire_delta_level \<Rightarrow> bytes" where
  "wire_delta_level_to_bytes x =
     to_le_bytes 8 (dl_price x) @ to_le_bytes 8 (dl_qty x)"

definition wire_delta_level_from_bytes :: "bytes \<Rightarrow> wire_delta_level" where
  "wire_delta_level_from_bytes bs =
     \<lparr> dl_price = word_from_bytes 8 bs,
       dl_qty = word_from_bytes 8 (drop 8 bs) \<rparr>"

interpretation delta_level: codec wire_delta_level_to_bytes wire_delta_level_from_bytes 16 "\<lambda>_. True"
proof
  show "wire_delta_level_to_bytes (wire_delta_level_from_bytes bs) = take 16 bs" if "16 \<le> length bs" for bs
    using that cut_eq_take [of "[8, 8]" bs]
    by (simp add: wire_delta_level_to_bytes_def wire_delta_level_from_bytes_def word_laws del: One_nat_def)
qed (simp_all add: wire_delta_level_to_bytes_def wire_delta_level_from_bytes_def word_laws del: One_nat_def)

interpretation delta_levels: codec "array_to_bytes wire_delta_level_to_bytes"
  "array_from_bytes wire_delta_level_from_bytes 16 32" 512 "array_ok (\<lambda>_. True) 32"
  using delta_level.array [of 32] by simp

record snapshot_delta_payload =
  sd_levels :: "wire_delta_level list"
  sd_first_update_id :: u64
  sd_final_update_id :: u64
  sd_prev_final_update_id :: u64
  sd_bid_count :: u8
  sd_ask_count :: u8
  sd_delta_flags :: u8
  sd_pad :: bytes

definition snapshot_delta_payload_ok :: "snapshot_delta_payload \<Rightarrow> bool" where
  "snapshot_delta_payload_ok x \<longleftrightarrow> array_ok (\<lambda>_. True) 32 (sd_levels x) \<and>
     length (sd_pad x) = 5"

definition snapshot_delta_payload_to_bytes :: "snapshot_delta_payload \<Rightarrow> bytes" where
  "snapshot_delta_payload_to_bytes x =
     array_to_bytes wire_delta_level_to_bytes (sd_levels x) @
     to_le_bytes 8 (sd_first_update_id x) @ to_le_bytes 8 (sd_final_update_id x) @
     to_le_bytes 8 (sd_prev_final_update_id x) @ to_le_bytes 1 (sd_bid_count x) @
     to_le_bytes 1 (sd_ask_count x) @ to_le_bytes 1 (sd_delta_flags x) @ sd_pad x"

definition snapshot_delta_payload_from_bytes :: "bytes \<Rightarrow> snapshot_delta_payload" where
  "snapshot_delta_payload_from_bytes bs =
     \<lparr> sd_levels = array_from_bytes wire_delta_level_from_bytes 16 32 bs,
       sd_first_update_id = word_from_bytes 8 (drop 512 bs),
       sd_final_update_id = word_from_bytes 8 (drop 520 bs),
       sd_prev_final_update_id = word_from_bytes 8 (drop 528 bs),
       sd_bid_count = word_from_bytes 1 (drop 536 bs),
       sd_ask_count = word_from_bytes 1 (drop 537 bs),
       sd_delta_flags = word_from_bytes 1 (drop 538 bs),
       sd_pad = take 5 (drop 539 bs) \<rparr>"

interpretation delta: codec snapshot_delta_payload_to_bytes snapshot_delta_payload_from_bytes 544 "snapshot_delta_payload_ok"
proof
  show "snapshot_delta_payload_to_bytes (snapshot_delta_payload_from_bytes bs) = take 544 bs" if "544 \<le> length bs" for bs
    using that cut_eq_take [of "[512, 8, 8, 8, 1, 1, 1, 5]" bs]
    by (simp add: snapshot_delta_payload_to_bytes_def snapshot_delta_payload_from_bytes_def snapshot_delta_payload_ok_def word_laws delta_levels.length_enc delta_levels.dec_enc delta_levels.enc_dec delta_levels.ok_dec del: One_nat_def)
qed (simp_all add: snapshot_delta_payload_to_bytes_def snapshot_delta_payload_from_bytes_def snapshot_delta_payload_ok_def word_laws delta_levels.length_enc delta_levels.dec_enc delta_levels.enc_dec delta_levels.ok_dec del: One_nat_def)

definition delta_bids :: "snapshot_delta_payload \<Rightarrow> wire_delta_level list" where
  "delta_bids x = (let n = min (unat (sd_bid_count x)) WIRE_MAX_DELTA_LEVELS in take n (sd_levels x))"

definition delta_asks :: "snapshot_delta_payload \<Rightarrow> wire_delta_level list" where
  "delta_asks x =
     (let start = min (unat (sd_bid_count x)) WIRE_MAX_DELTA_LEVELS;
          stop = min (start + unat (sd_ask_count x)) WIRE_MAX_DELTA_LEVELS
      in drop start (take stop (sd_levels x)))"

definition level_count :: "snapshot_delta_payload \<Rightarrow> nat" where
  "level_count x = unat (sd_bid_count x) + unat (sd_ask_count x)"

definition with_prev_final_update_id :: "u64 \<Rightarrow> snapshot_delta_payload \<Rightarrow> snapshot_delta_payload" where
  "with_prev_final_update_id i x =
     x\<lparr>sd_prev_final_update_id := i, sd_delta_flags := sd_delta_flags x OR PREV_FINAL_VALID\<rparr>"

definition prev_final_update_id :: "snapshot_delta_payload \<Rightarrow> u64 option" where
  "prev_final_update_id x =
     (if sd_delta_flags x AND PREV_FINAL_VALID \<noteq> 0 then Some (sd_prev_final_update_id x) else None)"

subsection \<open>Small payloads\<close>

record open_interest_payload =
  oi_open_interest :: u64

definition open_interest_payload_to_bytes :: "open_interest_payload \<Rightarrow> bytes" where
  "open_interest_payload_to_bytes x =
     to_le_bytes 8 (oi_open_interest x)"

definition open_interest_payload_from_bytes :: "bytes \<Rightarrow> open_interest_payload" where
  "open_interest_payload_from_bytes bs =
     \<lparr> oi_open_interest = word_from_bytes 8 bs \<rparr>"

interpretation interest: codec open_interest_payload_to_bytes open_interest_payload_from_bytes 8 "\<lambda>_. True"
proof
  show "open_interest_payload_to_bytes (open_interest_payload_from_bytes bs) = take 8 bs" if "8 \<le> length bs" for bs
    using that cut_eq_take [of "[8]" bs]
    by (simp add: open_interest_payload_to_bytes_def open_interest_payload_from_bytes_def word_laws del: One_nat_def)
qed (simp_all add: open_interest_payload_to_bytes_def open_interest_payload_from_bytes_def word_laws del: One_nat_def)

record investor_stats_payload =
  is_buy_qty :: u64
  is_sell_qty :: u64
  is_buy_value :: u64
  is_sell_value :: u64
  is_product_kind :: bytes
  is_derivative_kind :: u8
  is_investor_kind :: bytes

definition investor_stats_payload_ok :: "investor_stats_payload \<Rightarrow> bool" where
  "investor_stats_payload_ok x \<longleftrightarrow> length (is_product_kind x) = 11 \<and>
     length (is_investor_kind x) = 4"

definition investor_stats_payload_to_bytes :: "investor_stats_payload \<Rightarrow> bytes" where
  "investor_stats_payload_to_bytes x =
     to_le_bytes 8 (is_buy_qty x) @ to_le_bytes 8 (is_sell_qty x) @
     to_le_bytes 8 (is_buy_value x) @ to_le_bytes 8 (is_sell_value x) @ is_product_kind x @
     to_le_bytes 1 (is_derivative_kind x) @ is_investor_kind x"

definition investor_stats_payload_from_bytes :: "bytes \<Rightarrow> investor_stats_payload" where
  "investor_stats_payload_from_bytes bs =
     \<lparr> is_buy_qty = word_from_bytes 8 bs,
       is_sell_qty = word_from_bytes 8 (drop 8 bs),
       is_buy_value = word_from_bytes 8 (drop 16 bs),
       is_sell_value = word_from_bytes 8 (drop 24 bs),
       is_product_kind = take 11 (drop 32 bs),
       is_derivative_kind = word_from_bytes 1 (drop 43 bs),
       is_investor_kind = take 4 (drop 44 bs) \<rparr>"

interpretation stats: codec investor_stats_payload_to_bytes investor_stats_payload_from_bytes 48 "investor_stats_payload_ok"
proof
  show "investor_stats_payload_to_bytes (investor_stats_payload_from_bytes bs) = take 48 bs" if "48 \<le> length bs" for bs
    using that cut_eq_take [of "[8, 8, 8, 8, 11, 1, 4]" bs]
    by (simp add: investor_stats_payload_to_bytes_def investor_stats_payload_from_bytes_def investor_stats_payload_ok_def word_laws del: One_nat_def)
qed (simp_all add: investor_stats_payload_to_bytes_def investor_stats_payload_from_bytes_def investor_stats_payload_ok_def word_laws del: One_nat_def)

record price_limit_payload =
  pl_applied_time_of_day :: u64
  pl_upper_price :: i64
  pl_lower_price :: i64
  pl_sequence :: u32
  pl_board_id :: bytes
  pl_information_category :: bytes
  pl_upper_stage :: u8
  pl_lower_stage :: u8
  pl_pad :: bytes

definition price_limit_payload_ok :: "price_limit_payload \<Rightarrow> bool" where
  "price_limit_payload_ok x \<longleftrightarrow> length (pl_board_id x) = 2 \<and>
     length (pl_information_category x) = 3 \<and>
     length (pl_pad x) = 5"

definition price_limit_payload_to_bytes :: "price_limit_payload \<Rightarrow> bytes" where
  "price_limit_payload_to_bytes x =
     to_le_bytes 8 (pl_applied_time_of_day x) @ to_le_bytes 8 (pl_upper_price x) @
     to_le_bytes 8 (pl_lower_price x) @ to_le_bytes 4 (pl_sequence x) @ pl_board_id x @
     pl_information_category x @ to_le_bytes 1 (pl_upper_stage x) @
     to_le_bytes 1 (pl_lower_stage x) @ pl_pad x"

definition price_limit_payload_from_bytes :: "bytes \<Rightarrow> price_limit_payload" where
  "price_limit_payload_from_bytes bs =
     \<lparr> pl_applied_time_of_day = word_from_bytes 8 bs,
       pl_upper_price = word_from_bytes 8 (drop 8 bs),
       pl_lower_price = word_from_bytes 8 (drop 16 bs),
       pl_sequence = word_from_bytes 4 (drop 24 bs),
       pl_board_id = take 2 (drop 28 bs),
       pl_information_category = take 3 (drop 30 bs),
       pl_upper_stage = word_from_bytes 1 (drop 33 bs),
       pl_lower_stage = word_from_bytes 1 (drop 34 bs),
       pl_pad = take 5 (drop 35 bs) \<rparr>"

interpretation limit: codec price_limit_payload_to_bytes price_limit_payload_from_bytes 40 "price_limit_payload_ok"
proof
  show "price_limit_payload_to_bytes (price_limit_payload_from_bytes bs) = take 40 bs" if "40 \<le> length bs" for bs
    using that cut_eq_take [of "[8, 8, 8, 4, 2, 3, 1, 1, 5]" bs]
    by (simp add: price_limit_payload_to_bytes_def price_limit_payload_from_bytes_def price_limit_payload_ok_def word_laws del: One_nat_def)
qed (simp_all add: price_limit_payload_to_bytes_def price_limit_payload_from_bytes_def price_limit_payload_ok_def word_laws del: One_nat_def)

record dynamic_price_limit_payload =
  dp_applied_time_of_day :: u64
  dp_upper_price :: i64
  dp_lower_price :: i64
  dp_sequence :: u32
  dp_board_id :: bytes
  dp_information_category :: bytes
  dp_action :: u8
  dp_pad :: bytes

definition dynamic_price_limit_payload_ok :: "dynamic_price_limit_payload \<Rightarrow> bool" where
  "dynamic_price_limit_payload_ok x \<longleftrightarrow> length (dp_board_id x) = 2 \<and>
     length (dp_information_category x) = 3 \<and>
     length (dp_pad x) = 6"

definition dynamic_price_limit_payload_to_bytes :: "dynamic_price_limit_payload \<Rightarrow> bytes" where
  "dynamic_price_limit_payload_to_bytes x =
     to_le_bytes 8 (dp_applied_time_of_day x) @ to_le_bytes 8 (dp_upper_price x) @
     to_le_bytes 8 (dp_lower_price x) @ to_le_bytes 4 (dp_sequence x) @ dp_board_id x @
     dp_information_category x @ to_le_bytes 1 (dp_action x) @ dp_pad x"

definition dynamic_price_limit_payload_from_bytes :: "bytes \<Rightarrow> dynamic_price_limit_payload" where
  "dynamic_price_limit_payload_from_bytes bs =
     \<lparr> dp_applied_time_of_day = word_from_bytes 8 bs,
       dp_upper_price = word_from_bytes 8 (drop 8 bs),
       dp_lower_price = word_from_bytes 8 (drop 16 bs),
       dp_sequence = word_from_bytes 4 (drop 24 bs),
       dp_board_id = take 2 (drop 28 bs),
       dp_information_category = take 3 (drop 30 bs),
       dp_action = word_from_bytes 1 (drop 33 bs),
       dp_pad = take 6 (drop 34 bs) \<rparr>"

interpretation band: codec dynamic_price_limit_payload_to_bytes dynamic_price_limit_payload_from_bytes 40 "dynamic_price_limit_payload_ok"
proof
  show "dynamic_price_limit_payload_to_bytes (dynamic_price_limit_payload_from_bytes bs) = take 40 bs" if "40 \<le> length bs" for bs
    using that cut_eq_take [of "[8, 8, 8, 4, 2, 3, 1, 6]" bs]
    by (simp add: dynamic_price_limit_payload_to_bytes_def dynamic_price_limit_payload_from_bytes_def dynamic_price_limit_payload_ok_def word_laws del: One_nat_def)
qed (simp_all add: dynamic_price_limit_payload_to_bytes_def dynamic_price_limit_payload_from_bytes_def dynamic_price_limit_payload_ok_def word_laws del: One_nat_def)

definition band_in_force :: "dynamic_price_limit_payload \<Rightarrow> (i64 \<times> i64) option" where
  "band_in_force x = (if dp_action x = APPLIED then Some (dp_upper_price x, dp_lower_price x) else None)"

record market_schedule_payload =
  ms_event_time_of_day :: u64
  ms_expected_time_of_day :: u64
  ms_board_event_group :: u32
  ms_information_category :: bytes
  ms_market_operation_product_id :: bytes
  ms_board_id :: bytes
  ms_board_event_id :: bytes
  ms_session_action :: bytes
  ms_session_id :: bytes
  ms_product_id :: bytes
  ms_common_stock_isin :: bytes
  ms_halt_reason :: bytes
  ms_halt_type :: u8
  ms_step :: u8
  ms_expansion_direction :: u8
  ms_schedule_flags :: u8
  ms_pad :: bytes

definition market_schedule_payload_ok :: "market_schedule_payload \<Rightarrow> bool" where
  "market_schedule_payload_ok x \<longleftrightarrow> length (ms_information_category x) = 3 \<and>
     length (ms_market_operation_product_id x) = 3 \<and>
     length (ms_board_id x) = 2 \<and>
     length (ms_board_event_id x) = 3 \<and>
     length (ms_session_action x) = 2 \<and>
     length (ms_session_id x) = 2 \<and>
     length (ms_product_id x) = 11 \<and>
     length (ms_common_stock_isin x) = 12 \<and>
     length (ms_halt_reason x) = 3 \<and>
     length (ms_pad x) = 7"

definition market_schedule_payload_to_bytes :: "market_schedule_payload \<Rightarrow> bytes" where
  "market_schedule_payload_to_bytes x =
     to_le_bytes 8 (ms_event_time_of_day x) @ to_le_bytes 8 (ms_expected_time_of_day x) @
     to_le_bytes 4 (ms_board_event_group x) @ ms_information_category x @
     ms_market_operation_product_id x @ ms_board_id x @ ms_board_event_id x @
     ms_session_action x @ ms_session_id x @ ms_product_id x @ ms_common_stock_isin x @
     ms_halt_reason x @ to_le_bytes 1 (ms_halt_type x) @ to_le_bytes 1 (ms_step x) @
     to_le_bytes 1 (ms_expansion_direction x) @ to_le_bytes 1 (ms_schedule_flags x) @ ms_pad x"

definition market_schedule_payload_from_bytes :: "bytes \<Rightarrow> market_schedule_payload" where
  "market_schedule_payload_from_bytes bs =
     \<lparr> ms_event_time_of_day = word_from_bytes 8 bs,
       ms_expected_time_of_day = word_from_bytes 8 (drop 8 bs),
       ms_board_event_group = word_from_bytes 4 (drop 16 bs),
       ms_information_category = take 3 (drop 20 bs),
       ms_market_operation_product_id = take 3 (drop 23 bs),
       ms_board_id = take 2 (drop 26 bs),
       ms_board_event_id = take 3 (drop 28 bs),
       ms_session_action = take 2 (drop 31 bs),
       ms_session_id = take 2 (drop 33 bs),
       ms_product_id = take 11 (drop 35 bs),
       ms_common_stock_isin = take 12 (drop 46 bs),
       ms_halt_reason = take 3 (drop 58 bs),
       ms_halt_type = word_from_bytes 1 (drop 61 bs),
       ms_step = word_from_bytes 1 (drop 62 bs),
       ms_expansion_direction = word_from_bytes 1 (drop 63 bs),
       ms_schedule_flags = word_from_bytes 1 (drop 64 bs),
       ms_pad = take 7 (drop 65 bs) \<rparr>"

interpretation schedule: codec market_schedule_payload_to_bytes market_schedule_payload_from_bytes 72 "market_schedule_payload_ok"
proof
  show "market_schedule_payload_to_bytes (market_schedule_payload_from_bytes bs) = take 72 bs" if "72 \<le> length bs" for bs
    using that cut_eq_take [of "[8, 8, 4, 3, 3, 2, 3, 2, 2, 11, 12, 3, 1, 1, 1, 1, 7]" bs]
    by (simp add: market_schedule_payload_to_bytes_def market_schedule_payload_from_bytes_def market_schedule_payload_ok_def word_laws del: One_nat_def)
qed (simp_all add: market_schedule_payload_to_bytes_def market_schedule_payload_from_bytes_def market_schedule_payload_ok_def word_laws del: One_nat_def)

record heartbeat_payload =
  hb_received :: u64
  hb_forwarded :: u64

definition heartbeat_payload_to_bytes :: "heartbeat_payload \<Rightarrow> bytes" where
  "heartbeat_payload_to_bytes x =
     to_le_bytes 8 (hb_received x) @ to_le_bytes 8 (hb_forwarded x)"

definition heartbeat_payload_from_bytes :: "bytes \<Rightarrow> heartbeat_payload" where
  "heartbeat_payload_from_bytes bs =
     \<lparr> hb_received = word_from_bytes 8 bs,
       hb_forwarded = word_from_bytes 8 (drop 8 bs) \<rparr>"

interpretation beat: codec heartbeat_payload_to_bytes heartbeat_payload_from_bytes 16 "\<lambda>_. True"
proof
  show "heartbeat_payload_to_bytes (heartbeat_payload_from_bytes bs) = take 16 bs" if "16 \<le> length bs" for bs
    using that cut_eq_take [of "[8, 8]" bs]
    by (simp add: heartbeat_payload_to_bytes_def heartbeat_payload_from_bytes_def word_laws del: One_nat_def)
qed (simp_all add: heartbeat_payload_to_bytes_def heartbeat_payload_from_bytes_def word_laws del: One_nat_def)

subsection \<open>Flags and views\<close>

lemma or_and_absorb [simp]: "(x OR m) AND m = (m :: 'a::len word)"
  by (rule bit_word_eqI) (auto simp: bit_simps)

text \<open>
  The conclusions that ride in flag bits: every setter of a guarded value makes its getter
  return that value, a setter leaves the other guarded values of the payload alone, and a fresh
  trade has none of them.
\<close>

theorem guarded_values:
  "cumulative_qty (with_cumulative_qty n t) = Some n \<and>
   trade_yield (with_yield y t) = Some y \<and>
   dyn_limits (with_dyn_limits u l t) = Some (u, l) \<and>
   dyn_limits (with_cumulative_qty n (with_yield y t)) = dyn_limits t \<and>
   cumulative_qty (with_yield y (with_dyn_limits u l t)) = cumulative_qty t \<and>
   trade_yield (with_cumulative_qty n (with_dyn_limits u l t)) = trade_yield t \<and>
   cumulative_qty (trade_new p q) = None \<and> trade_yield (trade_new p q) = None \<and>
   dyn_limits (trade_new p q) = None \<and>
   prev_final_update_id (with_prev_final_update_id i d) = Some i \<and>
   has_order_counts (with_order_counts b)"
proof -
  have other: "(f OR 1) AND 4 = f AND 4" "(f OR 2) AND 4 = f AND 4" "(f OR 2) AND 1 = f AND 1"
    "(f OR 4) AND 1 = f AND 1" "(f OR 1) AND 2 = f AND 2" "(f OR 4) AND 2 = f AND 2" for f :: u8
    by (simp_all add: bit.conj_disj_distrib2)
  show ?thesis
    by (simp add: cumulative_qty_def with_cumulative_qty_def trade_yield_def with_yield_def
      dyn_limits_def with_dyn_limits_def trade_new_def prev_final_update_id_def
      with_prev_final_update_id_def has_order_counts_def with_order_counts_def kind_consts other)
qed

text \<open>
  A delta's two views partition its levels: as long as the counts fit, the bids are the first
  \<open>bid_count\<close> levels and the asks the next \<open>ask_count\<close>, and on any counts the views stay inside
  the array and never overlap.
\<close>

theorem delta_views:
  assumes "snapshot_delta_payload_ok d"
  shows "delta_bids d @ delta_asks d = take (min (level_count d) 32) (sd_levels d) \<and>
    (level_count d \<le> 32 \<longrightarrow> length (delta_bids d) = unat (sd_bid_count d) \<and>
       length (delta_asks d) = unat (sd_ask_count d))"
proof -
  have "take m xs @ drop m (take n xs) = take n xs" if "m \<le> n" for m n and xs :: "wire_delta_level list"
    using that by (metis append_take_drop_id min.absorb1 take_take)
  then show ?thesis
    using assms
    by (auto simp: snapshot_delta_payload_ok_def array_ok_def delta_bids_def delta_asks_def Let_def
      level_count_def wire_consts min_def)
qed

theorem delta_views_witness:
  "length (delta_bids (snapshot_delta_payload_from_bytes (replicate 536 0 @ [3, 2] @ replicate 6 0))) = 3"
proof -
  let ?d = "snapshot_delta_payload_from_bytes (replicate 536 0 @ [3, 2] @ replicate 6 0)"
  have "snapshot_delta_payload_ok ?d"
    by (rule delta.ok_dec) simp
  moreover have "sd_bid_count ?d = 3" "sd_ask_count ?d = 2"
    by (simp_all add: snapshot_delta_payload_from_bytes_def word_from_bytes_def from_le_bytes_def)
  ultimately show ?thesis
    using delta_views [of ?d] by (simp add: level_count_def)
qed

end
