(* ===== verification/Wire_Record.thy ===== *)
theory Wire_Record
  imports Wire_Payload
begin

text \<open>
  \<open>crates/jeed-wire/src/record.rs\<close>: the 640-byte record (header, payload union, tail padding), its
  typed accessors, its validation and its byte views. The union is its 544 raw bytes; a member is
  read by decoding a prefix of them and written by overlaying its image. \<open>typed_get\<close> and its
  siblings are the macro \<open>typed_access!\<close>, instantiated for the ten kinds.
\<close>

subsection \<open>The record\<close>

record wire_record =
  r_header :: record_header
  r_payload :: bytes
  r_tail :: bytes

definition record_ok :: "wire_record \<Rightarrow> bool" where
  "record_ok r \<longleftrightarrow> header_ok (r_header r) \<and> length (r_payload r) = 544 \<and> length (r_tail r) = 32"

definition PAYLOAD_ZEROED :: bytes where
  "PAYLOAD_ZEROED = replicate WIRE_PAYLOAD_LEN 0"

definition TAIL_LEN :: nat where
  "TAIL_LEN = WIRE_RECORD_LEN - WIRE_HEADER_LEN - WIRE_PAYLOAD_LEN"

definition with_header :: "record_header \<Rightarrow> wire_record" where
  "with_header h = \<lparr> r_header = h, r_payload = PAYLOAD_ZEROED, r_tail = replicate TAIL_LEN 0 \<rparr>"

definition record_zeroed :: wire_record where
  "record_zeroed = with_header HEADER_ZEROED"

definition record_kind :: "wire_record \<Rightarrow> wire_error + wire_kind" where
  "record_kind r = header_kind (r_header r)"

definition expect_kind :: "wire_record \<Rightarrow> wire_kind \<Rightarrow> wire_error + unit" where
  "expect_kind r expected =
     and_then (record_kind r) (\<lambda>found.
       if found = expected then Inr () else Inl (KindMismatch expected found))"

subsection \<open>Typed access (the macro \<open>typed\_access!\<close>)\<close>

text \<open>Writing an image over the front of the payload area.\<close>

definition overlay :: "bytes \<Rightarrow> bytes \<Rightarrow> bytes" where
  "overlay img area = img @ drop (length img) area"

definition typed_get :: "wire_kind \<Rightarrow> (bytes \<Rightarrow> 'a) \<Rightarrow> wire_record \<Rightarrow> wire_error + 'a" where
  "typed_get kind dec r = and_then (expect_kind r kind) (\<lambda>_. Inr (dec (r_payload r)))"

text \<open>The mutable view, with the write made through it as a function.\<close>

definition typed_mut ::
    "wire_kind \<Rightarrow> ('a \<Rightarrow> bytes) \<Rightarrow> (bytes \<Rightarrow> 'a) \<Rightarrow> ('a \<Rightarrow> 'a) \<Rightarrow> wire_record \<Rightarrow> wire_error + wire_record" where
  "typed_mut kind enc dec f r =
     and_then (expect_kind r kind) (\<lambda>_.
       Inr (r\<lparr> r_payload := overlay (enc (f (dec (r_payload r)))) (r_payload r) \<rparr>))"

definition typed_set :: "wire_kind \<Rightarrow> ('a \<Rightarrow> bytes) \<Rightarrow> 'a \<Rightarrow> wire_record \<Rightarrow> wire_record" where
  "typed_set kind enc x r =
     r\<lparr> r_payload := overlay (enc x) PAYLOAD_ZEROED,
        r_header := (r_header r)\<lparr> h_kind := kind_as_u8 kind \<rparr> \<rparr>"

definition typed_new :: "wire_kind \<Rightarrow> ('a \<Rightarrow> bytes) \<Rightarrow> record_header \<Rightarrow> 'a \<Rightarrow> wire_record" where
  "typed_new kind enc h x = typed_set kind enc x (with_header h)"

definition get_quote :: "wire_record \<Rightarrow> wire_error + quote_payload" where
  "get_quote = typed_get Quote quote_payload_from_bytes"

definition quote_mut :: "(quote_payload \<Rightarrow> quote_payload) \<Rightarrow> wire_record \<Rightarrow> wire_error + wire_record" where
  "quote_mut = typed_mut Quote quote_payload_to_bytes quote_payload_from_bytes"

definition set_quote :: "quote_payload \<Rightarrow> wire_record \<Rightarrow> wire_record" where
  "set_quote = typed_set Quote quote_payload_to_bytes"

definition new_quote :: "record_header \<Rightarrow> quote_payload \<Rightarrow> wire_record" where
  "new_quote = typed_new Quote quote_payload_to_bytes"

definition get_trade :: "wire_record \<Rightarrow> wire_error + trade_payload" where
  "get_trade = typed_get Trade trade_payload_from_bytes"

definition trade_mut :: "(trade_payload \<Rightarrow> trade_payload) \<Rightarrow> wire_record \<Rightarrow> wire_error + wire_record" where
  "trade_mut = typed_mut Trade trade_payload_to_bytes trade_payload_from_bytes"

definition set_trade :: "trade_payload \<Rightarrow> wire_record \<Rightarrow> wire_record" where
  "set_trade = typed_set Trade trade_payload_to_bytes"

definition new_trade :: "record_header \<Rightarrow> trade_payload \<Rightarrow> wire_record" where
  "new_trade = typed_new Trade trade_payload_to_bytes"

definition get_trade_quote :: "wire_record \<Rightarrow> wire_error + trade_quote_payload" where
  "get_trade_quote = typed_get TradeQuote trade_quote_payload_from_bytes"

definition trade_quote_mut :: "(trade_quote_payload \<Rightarrow> trade_quote_payload) \<Rightarrow> wire_record \<Rightarrow> wire_error + wire_record" where
  "trade_quote_mut = typed_mut TradeQuote trade_quote_payload_to_bytes trade_quote_payload_from_bytes"

definition set_trade_quote :: "trade_quote_payload \<Rightarrow> wire_record \<Rightarrow> wire_record" where
  "set_trade_quote = typed_set TradeQuote trade_quote_payload_to_bytes"

definition new_trade_quote :: "record_header \<Rightarrow> trade_quote_payload \<Rightarrow> wire_record" where
  "new_trade_quote = typed_new TradeQuote trade_quote_payload_to_bytes"

definition get_open_interest :: "wire_record \<Rightarrow> wire_error + open_interest_payload" where
  "get_open_interest = typed_get OpenInterest open_interest_payload_from_bytes"

definition open_interest_mut :: "(open_interest_payload \<Rightarrow> open_interest_payload) \<Rightarrow> wire_record \<Rightarrow> wire_error + wire_record" where
  "open_interest_mut = typed_mut OpenInterest open_interest_payload_to_bytes open_interest_payload_from_bytes"

definition set_open_interest :: "open_interest_payload \<Rightarrow> wire_record \<Rightarrow> wire_record" where
  "set_open_interest = typed_set OpenInterest open_interest_payload_to_bytes"

definition new_open_interest :: "record_header \<Rightarrow> open_interest_payload \<Rightarrow> wire_record" where
  "new_open_interest = typed_new OpenInterest open_interest_payload_to_bytes"

definition get_investor_stats :: "wire_record \<Rightarrow> wire_error + investor_stats_payload" where
  "get_investor_stats = typed_get InvestorStats investor_stats_payload_from_bytes"

definition investor_stats_mut :: "(investor_stats_payload \<Rightarrow> investor_stats_payload) \<Rightarrow> wire_record \<Rightarrow> wire_error + wire_record" where
  "investor_stats_mut = typed_mut InvestorStats investor_stats_payload_to_bytes investor_stats_payload_from_bytes"

definition set_investor_stats :: "investor_stats_payload \<Rightarrow> wire_record \<Rightarrow> wire_record" where
  "set_investor_stats = typed_set InvestorStats investor_stats_payload_to_bytes"

definition new_investor_stats :: "record_header \<Rightarrow> investor_stats_payload \<Rightarrow> wire_record" where
  "new_investor_stats = typed_new InvestorStats investor_stats_payload_to_bytes"

definition get_snapshot_delta :: "wire_record \<Rightarrow> wire_error + snapshot_delta_payload" where
  "get_snapshot_delta = typed_get SnapshotDelta snapshot_delta_payload_from_bytes"

definition snapshot_delta_mut :: "(snapshot_delta_payload \<Rightarrow> snapshot_delta_payload) \<Rightarrow> wire_record \<Rightarrow> wire_error + wire_record" where
  "snapshot_delta_mut = typed_mut SnapshotDelta snapshot_delta_payload_to_bytes snapshot_delta_payload_from_bytes"

definition set_snapshot_delta :: "snapshot_delta_payload \<Rightarrow> wire_record \<Rightarrow> wire_record" where
  "set_snapshot_delta = typed_set SnapshotDelta snapshot_delta_payload_to_bytes"

definition new_snapshot_delta :: "record_header \<Rightarrow> snapshot_delta_payload \<Rightarrow> wire_record" where
  "new_snapshot_delta = typed_new SnapshotDelta snapshot_delta_payload_to_bytes"

definition get_price_limit :: "wire_record \<Rightarrow> wire_error + price_limit_payload" where
  "get_price_limit = typed_get PriceLimit price_limit_payload_from_bytes"

definition price_limit_mut :: "(price_limit_payload \<Rightarrow> price_limit_payload) \<Rightarrow> wire_record \<Rightarrow> wire_error + wire_record" where
  "price_limit_mut = typed_mut PriceLimit price_limit_payload_to_bytes price_limit_payload_from_bytes"

definition set_price_limit :: "price_limit_payload \<Rightarrow> wire_record \<Rightarrow> wire_record" where
  "set_price_limit = typed_set PriceLimit price_limit_payload_to_bytes"

definition new_price_limit :: "record_header \<Rightarrow> price_limit_payload \<Rightarrow> wire_record" where
  "new_price_limit = typed_new PriceLimit price_limit_payload_to_bytes"

definition get_market_schedule :: "wire_record \<Rightarrow> wire_error + market_schedule_payload" where
  "get_market_schedule = typed_get MarketSchedule market_schedule_payload_from_bytes"

definition market_schedule_mut :: "(market_schedule_payload \<Rightarrow> market_schedule_payload) \<Rightarrow> wire_record \<Rightarrow> wire_error + wire_record" where
  "market_schedule_mut = typed_mut MarketSchedule market_schedule_payload_to_bytes market_schedule_payload_from_bytes"

definition set_market_schedule :: "market_schedule_payload \<Rightarrow> wire_record \<Rightarrow> wire_record" where
  "set_market_schedule = typed_set MarketSchedule market_schedule_payload_to_bytes"

definition new_market_schedule :: "record_header \<Rightarrow> market_schedule_payload \<Rightarrow> wire_record" where
  "new_market_schedule = typed_new MarketSchedule market_schedule_payload_to_bytes"

definition get_dynamic_price_limit :: "wire_record \<Rightarrow> wire_error + dynamic_price_limit_payload" where
  "get_dynamic_price_limit = typed_get DynamicPriceLimit dynamic_price_limit_payload_from_bytes"

definition dynamic_price_limit_mut :: "(dynamic_price_limit_payload \<Rightarrow> dynamic_price_limit_payload) \<Rightarrow> wire_record \<Rightarrow> wire_error + wire_record" where
  "dynamic_price_limit_mut = typed_mut DynamicPriceLimit dynamic_price_limit_payload_to_bytes dynamic_price_limit_payload_from_bytes"

definition set_dynamic_price_limit :: "dynamic_price_limit_payload \<Rightarrow> wire_record \<Rightarrow> wire_record" where
  "set_dynamic_price_limit = typed_set DynamicPriceLimit dynamic_price_limit_payload_to_bytes"

definition new_dynamic_price_limit :: "record_header \<Rightarrow> dynamic_price_limit_payload \<Rightarrow> wire_record" where
  "new_dynamic_price_limit = typed_new DynamicPriceLimit dynamic_price_limit_payload_to_bytes"

definition get_heartbeat :: "wire_record \<Rightarrow> wire_error + heartbeat_payload" where
  "get_heartbeat = typed_get Heartbeat heartbeat_payload_from_bytes"

definition heartbeat_mut :: "(heartbeat_payload \<Rightarrow> heartbeat_payload) \<Rightarrow> wire_record \<Rightarrow> wire_error + wire_record" where
  "heartbeat_mut = typed_mut Heartbeat heartbeat_payload_to_bytes heartbeat_payload_from_bytes"

definition set_heartbeat :: "heartbeat_payload \<Rightarrow> wire_record \<Rightarrow> wire_record" where
  "set_heartbeat = typed_set Heartbeat heartbeat_payload_to_bytes"

definition new_heartbeat :: "record_header \<Rightarrow> heartbeat_payload \<Rightarrow> wire_record" where
  "new_heartbeat = typed_new Heartbeat heartbeat_payload_to_bytes"

lemmas get_defs =
  get_quote_def
  get_trade_def
  get_trade_quote_def
  get_open_interest_def
  get_investor_stats_def
  get_snapshot_delta_def
  get_price_limit_def
  get_market_schedule_def
  get_dynamic_price_limit_def
  get_heartbeat_def

lemmas set_defs =
  set_quote_def
  set_trade_def
  set_trade_quote_def
  set_open_interest_def
  set_investor_stats_def
  set_snapshot_delta_def
  set_price_limit_def
  set_market_schedule_def
  set_dynamic_price_limit_def
  set_heartbeat_def

subsection \<open>Validation\<close>

definition validate_quote :: "quote_payload \<Rightarrow> wire_error + unit" where
  "validate_quote q =
     (if q_level_ext_kind q = LEVEL_EXT_NONE \<or> q_level_ext_kind q = BOND_YIELD
         \<or> q_level_ext_kind q = LP_QUANTITY then
        if q_quote_ext_kind q = QUOTE_EXT_NONE \<or> q_quote_ext_kind q = LP_HOLDINGS
           \<or> q_quote_ext_kind q = SEQUENCE \<or> q_quote_ext_kind q = EXPECTED_PRICE
        then Inr () else Inl (QuoteExtKind (q_quote_ext_kind q))
      else Inl (LevelExtKind (q_level_ext_kind q)))"

definition validate_trade :: "trade_payload \<Rightarrow> wire_error + unit" where
  "validate_trade t =
     (if t_trade_kind t = TRADE_KIND_NONE \<or> t_trade_kind t = SELL \<or> t_trade_kind t = BUY
         \<or> t_trade_kind t = TRADE_KIND_UNKNOWN
      then Inr () else Inl (TradeKind (t_trade_kind t)))"

definition record_validate :: "wire_record \<Rightarrow> wire_error + unit" where
  "record_validate r =
     and_then (header_validate (r_header r)) (\<lambda>_.
     and_then (record_kind r) (\<lambda>kind.
       case kind of
         Quote \<Rightarrow> and_then (get_quote r) validate_quote
       | Trade \<Rightarrow> and_then (get_trade r) validate_trade
       | TradeQuote \<Rightarrow>
           and_then (get_trade_quote r) (\<lambda>tq.
           and_then (validate_trade (tq_trade tq)) (\<lambda>_. validate_quote (tq_quote tq)))
       | MarketSchedule \<Rightarrow>
           and_then (get_market_schedule r) (\<lambda>ms.
             if ms_expansion_direction ms = NOT_APPLICABLE \<or> ms_expansion_direction ms = UP
                \<or> ms_expansion_direction ms = DOWN
             then Inr () else Inl (ExpansionDirection (ms_expansion_direction ms)))
       | DynamicPriceLimit \<Rightarrow>
           and_then (get_dynamic_price_limit r) (\<lambda>d.
             if dp_action d = DYN_UNKNOWN \<or> dp_action d = APPLIED \<or> dp_action d = RELEASED
             then Inr () else Inl (DynLimitAction (dp_action d)))
       | SnapshotDelta \<Rightarrow>
           and_then (get_snapshot_delta r) (\<lambda>d.
             if level_count d > WIRE_MAX_DELTA_LEVELS
             then Inl (DeltaLevelCount (sd_bid_count d) (sd_ask_count d) (of_nat WIRE_MAX_DELTA_LEVELS))
             else Inr ())
       | OpenInterest \<Rightarrow> Inr ()
       | InvestorStats \<Rightarrow> Inr ()
       | PriceLimit \<Rightarrow> Inr ()
       | Heartbeat \<Rightarrow> Inr ()))"

subsection \<open>Byte views\<close>

text \<open>The in-memory image.\<close>

definition record_as_bytes :: "wire_record \<Rightarrow> bytes" where
  "record_as_bytes r = record_header_to_bytes (r_header r) @ r_payload r @ r_tail r"

definition record_read :: "bytes \<Rightarrow> wire_record" where
  "record_read bs =
     \<lparr> r_header = record_header_from_bytes bs, r_payload = take 544 (drop 64 bs),
       r_tail = take 32 (drop 608 bs) \<rparr>"

definition record_from_bytes :: "bytes \<Rightarrow> wire_error + wire_record" where
  "record_from_bytes bs =
     (if length bs \<noteq> WIRE_RECORD_LEN then Inl (Length WIRE_RECORD_LEN (length bs))
      else
        let rec = record_read bs
        in and_then (record_validate rec) (\<lambda>_. Inr rec))"

text \<open>The borrowing view; \<open>addr\<close> is the address of the slice.\<close>

definition record_ref_from_bytes :: "nat \<Rightarrow> bytes \<Rightarrow> wire_error + wire_record" where
  "record_ref_from_bytes addr bs =
     (if length bs \<noteq> WIRE_RECORD_LEN then Inl (Length WIRE_RECORD_LEN (length bs))
      else if addr mod WIRE_ALIGN \<noteq> 0 then Inl (Alignment WIRE_ALIGN)
      else
        let rec = record_read bs
        in and_then (record_validate rec) (\<lambda>_. Inr rec))"

subsection \<open>The image of a record\<close>

lemma record_read_as_bytes: "record_ok r \<Longrightarrow> record_read (record_as_bytes r) = r"
  by (simp add: record_ok_def record_read_def record_as_bytes_def header.dec_enc header.length_enc)

lemma record_as_bytes_read:
  assumes "length bs = 640"
  shows "record_as_bytes (record_read bs) = bs"
proof -
  have "take 64 bs @ take 544 (drop 64 bs) @ take 32 (drop 608 bs) = bs"
    using cut_eq_take [of "[64, 544, 32]" bs] assms by simp
  then show ?thesis
    using assms by (simp add: record_as_bytes_def record_read_def header.enc_dec)
qed

lemma record_ok_read: "length bs = 640 \<Longrightarrow> record_ok (record_read bs)"
  using header.ok_dec [of bs] by (simp add: record_ok_def record_read_def)

lemma length_record_as_bytes: "record_ok r \<Longrightarrow> length (record_as_bytes r) = 640"
  by (simp add: record_as_bytes_def record_ok_def header.length_enc)

lemma with_header_ok: "header_ok h \<Longrightarrow> record_ok (with_header h)"
  by (simp add: with_header_def record_ok_def PAYLOAD_ZEROED_def TAIL_LEN_def wire_consts)

subsection \<open>The interface of a typed payload\<close>

lemma record_kind_iff: "record_kind r = Inr k \<longleftrightarrow> h_kind (r_header r) = kind_as_u8 k"
  by (simp add: record_kind_def header_kind_def kind_from_u8_Inr)

lemma expect_kind_cases:
  "record_kind r = Inr k \<Longrightarrow>
   expect_kind r e = (if k = e then Inr () else Inl (KindMismatch e k))"
  by (simp add: expect_kind_def)

locale typed_payload = codec +
  fixes kind :: wire_kind
  assumes fits: "width \<le> 544"
begin

lemma kind_set: "record_kind (typed_set kind enc x r) = Inr kind"
  by (simp add: record_kind_iff typed_set_def)

lemma get_set: "ok x \<Longrightarrow> typed_get kind dec (typed_set kind enc x r) = Inr x"
  by (simp add: typed_get_def expect_kind_cases [OF kind_set])
    (simp add: typed_set_def overlay_def dec_enc)

lemma get_new: "ok x \<Longrightarrow> typed_get kind dec (typed_new kind enc h x) = Inr x"
  by (simp add: typed_new_def get_set)

lemma get_other:
  "e \<noteq> kind \<Longrightarrow> typed_get e dec' (typed_set kind enc x r) = Inl (KindMismatch e kind)"
  by (simp add: typed_get_def expect_kind_cases [OF kind_set])

lemma set_ok: "ok x \<Longrightarrow> record_ok r \<Longrightarrow> record_ok (typed_set kind enc x r)"
  using fits by (simp add: record_ok_def typed_set_def overlay_def header_ok_def length_enc
    PAYLOAD_ZEROED_def wire_consts)

text \<open>A payload is installed over zeros: two records with the same header and payload are equal.\<close>

lemma set_twice: "typed_set kind enc x (typed_set k e y r) = typed_set kind enc x r"
  by (simp add: typed_set_def)

lemma get_mut:
  assumes "record_ok r" "record_kind r = Inr kind" "\<And>y. ok y \<Longrightarrow> ok (f y)"
  shows "\<exists>r'. typed_mut kind enc dec f r = Inr r' \<and> record_ok r' \<and> r_header r' = r_header r \<and>
    typed_get kind dec r' = map_ok f (typed_get kind dec r) \<and>
    drop width (r_payload r') = drop width (r_payload r)"
proof -
  have fits': "width \<le> length (r_payload r)"
    using assms(1) fits by (simp add: record_ok_def)
  then have ok: "ok (f (dec (r_payload r)))"
    by (simp add: assms(3) ok_dec)
  define r' where "r' = r\<lparr> r_payload := overlay (enc (f (dec (r_payload r)))) (r_payload r) \<rparr>"
  have "typed_mut kind enc dec f r = Inr r'"
    by (simp add: typed_mut_def expect_kind_cases [OF assms(2)] r'_def)
  moreover have "record_kind r' = Inr kind"
    using assms(2) by (simp add: record_kind_def r'_def)
  then have "typed_get kind dec r' = map_ok f (typed_get kind dec r)"
    by (simp add: typed_get_def expect_kind_cases assms(2)) (simp add: r'_def overlay_def dec_enc ok)
  moreover have "record_ok r'" "drop width (r_payload r') = drop width (r_payload r)"
    using assms(1) fits' by (simp_all add: record_ok_def r'_def overlay_def length_enc ok)
  ultimately show ?thesis
    by (auto simp: r'_def)
qed

end

interpretation quote: typed_payload quote_payload_to_bytes quote_payload_from_bytes 496 "quote_payload_ok" Quote
  by unfold_locales simp

interpretation trade: typed_payload trade_payload_to_bytes trade_payload_from_bytes 48 "\<lambda>_. True" Trade
  by unfold_locales simp

interpretation trade_quote: typed_payload trade_quote_payload_to_bytes trade_quote_payload_from_bytes 544 "trade_quote_payload_ok" TradeQuote
  by unfold_locales simp

interpretation open_interest: typed_payload open_interest_payload_to_bytes open_interest_payload_from_bytes 8 "\<lambda>_. True" OpenInterest
  by unfold_locales simp

interpretation investor_stats: typed_payload investor_stats_payload_to_bytes investor_stats_payload_from_bytes 48 "investor_stats_payload_ok" InvestorStats
  by unfold_locales simp

interpretation snapshot_delta: typed_payload snapshot_delta_payload_to_bytes snapshot_delta_payload_from_bytes 544 "snapshot_delta_payload_ok" SnapshotDelta
  by unfold_locales simp

interpretation price_limit: typed_payload price_limit_payload_to_bytes price_limit_payload_from_bytes 40 "price_limit_payload_ok" PriceLimit
  by unfold_locales simp

interpretation market_schedule: typed_payload market_schedule_payload_to_bytes market_schedule_payload_from_bytes 72 "market_schedule_payload_ok" MarketSchedule
  by unfold_locales simp

interpretation dynamic_price_limit: typed_payload dynamic_price_limit_payload_to_bytes dynamic_price_limit_payload_from_bytes 40 "dynamic_price_limit_payload_ok" DynamicPriceLimit
  by unfold_locales simp

interpretation heartbeat: typed_payload heartbeat_payload_to_bytes heartbeat_payload_from_bytes 16 "\<lambda>_. True" Heartbeat
  by unfold_locales simp

subsection \<open>The record as a tagged union\<close>

text \<open>
  What the record stands for: a header and one of ten payloads. \<open>record_view\<close> is the only reading
  the accessors allow, \<open>install\<close> the only writing.
\<close>

datatype payload =
    PQuote quote_payload
  | PTrade trade_payload
  | PTradeQuote trade_quote_payload
  | POpenInterest open_interest_payload
  | PInvestorStats investor_stats_payload
  | PSnapshotDelta snapshot_delta_payload
  | PPriceLimit price_limit_payload
  | PMarketSchedule market_schedule_payload
  | PDynamicPriceLimit dynamic_price_limit_payload
  | PHeartbeat heartbeat_payload

primrec payload_kind :: "payload \<Rightarrow> wire_kind" where
  "payload_kind (PQuote x) = Quote"
| "payload_kind (PTrade x) = Trade"
| "payload_kind (PTradeQuote x) = TradeQuote"
| "payload_kind (POpenInterest x) = OpenInterest"
| "payload_kind (PInvestorStats x) = InvestorStats"
| "payload_kind (PSnapshotDelta x) = SnapshotDelta"
| "payload_kind (PPriceLimit x) = PriceLimit"
| "payload_kind (PMarketSchedule x) = MarketSchedule"
| "payload_kind (PDynamicPriceLimit x) = DynamicPriceLimit"
| "payload_kind (PHeartbeat x) = Heartbeat"

primrec payload_ok :: "payload \<Rightarrow> bool" where
  "payload_ok (PQuote x) \<longleftrightarrow> quote_payload_ok x"
| "payload_ok (PTrade x) \<longleftrightarrow> True"
| "payload_ok (PTradeQuote x) \<longleftrightarrow> trade_quote_payload_ok x"
| "payload_ok (POpenInterest x) \<longleftrightarrow> True"
| "payload_ok (PInvestorStats x) \<longleftrightarrow> investor_stats_payload_ok x"
| "payload_ok (PSnapshotDelta x) \<longleftrightarrow> snapshot_delta_payload_ok x"
| "payload_ok (PPriceLimit x) \<longleftrightarrow> price_limit_payload_ok x"
| "payload_ok (PMarketSchedule x) \<longleftrightarrow> market_schedule_payload_ok x"
| "payload_ok (PDynamicPriceLimit x) \<longleftrightarrow> dynamic_price_limit_payload_ok x"
| "payload_ok (PHeartbeat x) \<longleftrightarrow> True"

primrec install :: "payload \<Rightarrow> wire_record \<Rightarrow> wire_record" where
  "install (PQuote x) r = set_quote x r"
| "install (PTrade x) r = set_trade x r"
| "install (PTradeQuote x) r = set_trade_quote x r"
| "install (POpenInterest x) r = set_open_interest x r"
| "install (PInvestorStats x) r = set_investor_stats x r"
| "install (PSnapshotDelta x) r = set_snapshot_delta x r"
| "install (PPriceLimit x) r = set_price_limit x r"
| "install (PMarketSchedule x) r = set_market_schedule x r"
| "install (PDynamicPriceLimit x) r = set_dynamic_price_limit x r"
| "install (PHeartbeat x) r = set_heartbeat x r"

definition record_view :: "wire_record \<Rightarrow> wire_error + payload" where
  "record_view r =
     and_then (record_kind r) (\<lambda>kind.
       case kind of
         Quote \<Rightarrow> map_ok PQuote (get_quote r)
       | Trade \<Rightarrow> map_ok PTrade (get_trade r)
       | TradeQuote \<Rightarrow> map_ok PTradeQuote (get_trade_quote r)
       | OpenInterest \<Rightarrow> map_ok POpenInterest (get_open_interest r)
       | InvestorStats \<Rightarrow> map_ok PInvestorStats (get_investor_stats r)
       | SnapshotDelta \<Rightarrow> map_ok PSnapshotDelta (get_snapshot_delta r)
       | PriceLimit \<Rightarrow> map_ok PPriceLimit (get_price_limit r)
       | MarketSchedule \<Rightarrow> map_ok PMarketSchedule (get_market_schedule r)
       | DynamicPriceLimit \<Rightarrow> map_ok PDynamicPriceLimit (get_dynamic_price_limit r)
       | Heartbeat \<Rightarrow> map_ok PHeartbeat (get_heartbeat r))"

lemmas typed_kinds =
  quote.kind_set
  trade.kind_set
  trade_quote.kind_set
  open_interest.kind_set
  investor_stats.kind_set
  snapshot_delta.kind_set
  price_limit.kind_set
  market_schedule.kind_set
  dynamic_price_limit.kind_set
  heartbeat.kind_set

lemmas typed_gets =
  quote.get_set
  trade.get_set
  trade_quote.get_set
  open_interest.get_set
  investor_stats.get_set
  snapshot_delta.get_set
  price_limit.get_set
  market_schedule.get_set
  dynamic_price_limit.get_set
  heartbeat.get_set

lemmas typed_oks =
  quote.set_ok
  trade.set_ok
  trade_quote.set_ok
  open_interest.set_ok
  investor_stats.set_ok
  snapshot_delta.set_ok
  price_limit.set_ok
  market_schedule.set_ok
  dynamic_price_limit.set_ok
  heartbeat.set_ok

lemmas typed_others =
  quote.get_other
  trade.get_other
  trade_quote.get_other
  open_interest.get_other
  investor_stats.get_other
  snapshot_delta.get_other
  price_limit.get_other
  market_schedule.get_other
  dynamic_price_limit.get_other
  heartbeat.get_other

lemma record_kind_install: "record_kind (install p r) = Inr (payload_kind p)"
  by (cases p) (simp_all add: set_defs typed_kinds)

lemma record_view_install: "payload_ok p \<Longrightarrow> record_view (install p r) = Inr p"
  by (cases p) (simp_all add: record_view_def set_defs get_defs typed_kinds typed_gets)

lemma r_header_install:
  "r_header (install p r) = (r_header r)\<lparr> h_kind := kind_as_u8 (payload_kind p) \<rparr>"
  by (cases p) (simp_all add: set_defs typed_set_def)

lemma record_ok_install: "payload_ok p \<Longrightarrow> record_ok r \<Longrightarrow> record_ok (install p r)"
  by (cases p) (simp_all add: set_defs typed_oks)

text \<open>
  C14. A payload installed by a typed setter is what the typed reader of its kind returns, whatever
  the record held before; the header changes only in its kind byte, and the record keeps its
  layout.
\<close>

theorem typed_payload_roundtrip:
  assumes "payload_ok p" and "record_ok r"
  shows "record_view (install p r) = Inr p \<and> record_ok (install p r) \<and>
    r_header (install p r) = (r_header r)\<lparr> h_kind := kind_as_u8 (payload_kind p) \<rparr>"
  using assms by (simp add: record_view_install record_ok_install r_header_install)

theorem typed_payload_roundtrip_witness:
  "record_view (install (PHeartbeat \<lparr> hb_received = 7, hb_forwarded = 5 \<rparr>) record_zeroed)
   = Inr (PHeartbeat \<lparr> hb_received = 7, hb_forwarded = 5 \<rparr>)"
proof -
  have "record_ok record_zeroed"
    by (simp add: record_zeroed_def with_header_ok header_ok_def HEADER_ZEROED_def wire_consts)
  then show ?thesis
    using typed_payload_roundtrip [of "PHeartbeat \<lparr> hb_received = 7, hb_forwarded = 5 \<rparr>" record_zeroed]
    by simp
qed

text \<open>
  A typed reader of another kind is an error naming both kinds, never a reinterpretation of
  the bytes.
\<close>

theorem typed_payload_mismatch:
  "(payload_kind p \<noteq> Quote \<longrightarrow> get_quote (install p r) = Inl (KindMismatch Quote (payload_kind p))) \<and>
   (payload_kind p \<noteq> Trade \<longrightarrow> get_trade (install p r) = Inl (KindMismatch Trade (payload_kind p))) \<and>
   (payload_kind p \<noteq> TradeQuote \<longrightarrow>
      get_trade_quote (install p r) = Inl (KindMismatch TradeQuote (payload_kind p))) \<and>
   (payload_kind p \<noteq> OpenInterest \<longrightarrow>
      get_open_interest (install p r) = Inl (KindMismatch OpenInterest (payload_kind p))) \<and>
   (payload_kind p \<noteq> InvestorStats \<longrightarrow>
      get_investor_stats (install p r) = Inl (KindMismatch InvestorStats (payload_kind p))) \<and>
   (payload_kind p \<noteq> SnapshotDelta \<longrightarrow>
      get_snapshot_delta (install p r) = Inl (KindMismatch SnapshotDelta (payload_kind p))) \<and>
   (payload_kind p \<noteq> PriceLimit \<longrightarrow>
      get_price_limit (install p r) = Inl (KindMismatch PriceLimit (payload_kind p))) \<and>
   (payload_kind p \<noteq> MarketSchedule \<longrightarrow>
      get_market_schedule (install p r) = Inl (KindMismatch MarketSchedule (payload_kind p))) \<and>
   (payload_kind p \<noteq> DynamicPriceLimit \<longrightarrow>
      get_dynamic_price_limit (install p r) = Inl (KindMismatch DynamicPriceLimit (payload_kind p))) \<and>
   (payload_kind p \<noteq> Heartbeat \<longrightarrow>
      get_heartbeat (install p r) = Inl (KindMismatch Heartbeat (payload_kind p)))"
  by (simp add: get_defs typed_get_def expect_kind_cases [OF record_kind_install])

theorem typed_payload_mismatch_witness:
  "get_trade (install (PHeartbeat \<lparr> hb_received = 7, hb_forwarded = 5 \<rparr>) record_zeroed)
   = Inl (KindMismatch Trade Heartbeat)"
  using typed_payload_mismatch [of "PHeartbeat \<lparr> hb_received = 7, hb_forwarded = 5 \<rparr>" record_zeroed]
  by simp

subsection \<open>What validation accepts\<close>

text \<open>The encodings of a payload that a consumer decodes.\<close>

primrec payload_valid :: "payload \<Rightarrow> bool" where
  "payload_valid (PQuote q) \<longleftrightarrow> q_level_ext_kind q \<le> 2 \<and> q_quote_ext_kind q \<le> 3"
| "payload_valid (PTrade t) \<longleftrightarrow> t_trade_kind t \<le> 3"
| "payload_valid (PTradeQuote tq) \<longleftrightarrow> t_trade_kind (tq_trade tq) \<le> 3 \<and>
     q_level_ext_kind (tq_quote tq) \<le> 2 \<and> q_quote_ext_kind (tq_quote tq) \<le> 3"
| "payload_valid (POpenInterest oi) \<longleftrightarrow> True"
| "payload_valid (PInvestorStats i) \<longleftrightarrow> True"
| "payload_valid (PSnapshotDelta d) \<longleftrightarrow> level_count d \<le> 32"
| "payload_valid (PPriceLimit l) \<longleftrightarrow> True"
| "payload_valid (PMarketSchedule ms) \<longleftrightarrow> ms_expansion_direction ms \<le> 2"
| "payload_valid (PDynamicPriceLimit d) \<longleftrightarrow> dp_action d \<le> 2"
| "payload_valid (PHeartbeat h) \<longleftrightarrow> True"

lemma small_codes:
  "(b :: u8) = 0 \<or> b = 1 \<or> b = 2 \<longleftrightarrow> b \<le> 2"
  "(b :: u8) = 0 \<or> b = 1 \<or> b = 2 \<or> b = 3 \<longleftrightarrow> b \<le> 3"
  by (auto simp: word_le_nat_alt word_unat_eq_iff)

lemma validate_quote_iff: "validate_quote q = Inr () \<longleftrightarrow> q_level_ext_kind q \<le> 2 \<and> q_quote_ext_kind q \<le> 3"
  by (simp add: validate_quote_def kind_consts small_codes)

lemma validate_trade_iff: "validate_trade t = Inr () \<longleftrightarrow> t_trade_kind t \<le> 3"
  by (simp add: validate_trade_def kind_consts small_codes)

lemma typed_get_self: "record_kind r = Inr k \<Longrightarrow> typed_get k dec r = Inr (dec (r_payload r))"
  by (simp add: typed_get_def expect_kind_cases)

lemma record_validate_view:
  "record_validate r = Inr () \<longleftrightarrow>
     header_validate (r_header r) = Inr () \<and> (\<exists>p. record_view r = Inr p \<and> payload_valid p)"
proof (cases "record_kind r")
  case (Inl e)
  then show ?thesis
    by (simp add: record_validate_def record_view_def result_iffs)
next
  case (Inr k)
  then show ?thesis
    by (cases k) (auto simp: record_validate_def record_view_def result_iffs get_defs typed_get_self
      validate_quote_iff validate_trade_iff kind_consts small_codes wire_consts not_less)
qed

text \<open>
  Validation accepts exactly the records a consumer can decode: a valid header (kind, venue,
  scales and depth) and a payload of the header's kind whose enumerated bytes are known codes and
  whose level counts fit.
\<close>

theorem record_validate_accepts:
  "record_validate r = Inr () \<longleftrightarrow>
     (\<exists>k. h_kind (r_header r) = kind_as_u8 k) \<and> (\<exists>v. h_venue (r_header r) = venue_as_u8 v) \<and>
     h_price_scale (r_header r) \<le> 8 \<and> h_qty_scale (r_header r) \<le> 8 \<and> h_depth (r_header r) \<le> 10 \<and>
     (\<exists>p. record_view r = Inr p \<and> payload_valid p)"
  unfolding record_validate_view header_validate_iff by blast

subsection \<open>Byte views\<close>

lemma record_from_bytes_Inr:
  "record_from_bytes bs = Inr r \<longleftrightarrow>
     length bs = 640 \<and> r = record_read bs \<and> record_validate r = Inr ()"
  by (auto simp: record_from_bytes_def result_iffs Let_def wire_consts)

text \<open>
  C32. The byte views are inverse to each other: a laid-out record that validates is read back from
  its bytes unchanged, and whatever \<open>from_bytes\<close> returns has exactly the bytes it was given, is
  laid out and validates. The borrowing view agrees on aligned slices and refuses the others.
\<close>

theorem record_bytes_roundtrip:
  "(record_ok r \<and> record_validate r = Inr () \<longrightarrow> record_from_bytes (record_as_bytes r) = Inr r) \<and>
   (record_from_bytes bs = Inr r \<longrightarrow>
      record_as_bytes r = bs \<and> record_ok r \<and> record_validate r = Inr ()) \<and>
   (length bs \<noteq> 640 \<longrightarrow> record_from_bytes bs = Inl (Length 640 (length bs))) \<and>
   (length bs = 640 \<longrightarrow> record_ref_from_bytes addr bs =
      (if 64 dvd addr then record_from_bytes bs else Inl (Alignment 64)))"
proof -
  have "record_from_bytes (record_as_bytes r) = Inr r" if "record_ok r" "record_validate r = Inr ()"
    using that by (simp add: record_from_bytes_Inr length_record_as_bytes record_read_as_bytes)
  moreover have "record_as_bytes r = bs \<and> record_ok r \<and> record_validate r = Inr ()"
    if "record_from_bytes bs = Inr r"
    using that by (auto simp: record_from_bytes_Inr record_as_bytes_read record_ok_read)
  moreover have "record_ref_from_bytes addr bs =
      (if 64 dvd addr then record_from_bytes bs else Inl (Alignment 64))" if "length bs = 640"
    using that by (simp add: record_ref_from_bytes_def record_from_bytes_def wire_consts dvd_eq_mod_eq_0)
  ultimately show ?thesis
    by (auto simp: record_from_bytes_def wire_consts)
qed

lemma header_new_valid: "header_validate (header_new k v s t) = Inr ()"
  by (auto simp: header_validate_iff header_new_def HEADER_ZEROED_def)

lemma install_valid:
  assumes "payload_ok p" "payload_valid p" "header_validate h = Inr ()"
  shows "record_validate (install p (with_header h)) = Inr ()"
proof -
  have "header_validate (r_header (install p (with_header h))) = Inr ()"
    using assms(3) by (auto simp: header_validate_iff r_header_install with_header_def)
  then show ?thesis
    using assms(1,2) by (simp add: record_validate_view record_view_install)
qed

text \<open>
  C13. From producer to consumer: a record built from a fresh header and any well-laid-out payload
  with known codes reaches the other side of the byte boundary as the same payload, and its header
  carries the symbol, venue and reception time it was built with.
\<close>

theorem wire_end_to_end:
  assumes "symbol_from_bytes name = Some s" and "payload_ok p" and "payload_valid p"
  shows "\<exists>r. record_from_bytes (record_as_bytes (install p (with_header (header_new k v s t)))) = Inr r \<and>
    record_view r = Inr p \<and> header_symbol_bytes (r_header r) = name \<and>
    header_venue (r_header r) = Inr v \<and> h_recv_ns (r_header r) = t"
proof -
  let ?r = "install p (with_header (header_new k v s t))"
  have s: "length s = 24" "symbol_bytes s = name"
  proof -
    have "name \<noteq> []" "0 \<notin> set name" and s: "s = name @ replicate (24 - length name) 0"
      using assms(1) by (simp_all add: symbol_from_bytes_Some)
    then have "last (0x20 # name) \<noteq> 0"
      by (cases name rule: rev_cases) auto
    then show "symbol_bytes s = name"
      unfolding s by (rule symbol_bytes_pad)
    show "length s = 24"
      using assms(1) by (rule symbol_from_bytes_length)
  qed
  have "record_ok ?r"
    using s assms(2) by (simp add: record_ok_install with_header_ok)
  moreover have "record_validate ?r = Inr ()"
    by (rule install_valid [OF assms(2,3) header_new_valid])
  ultimately have "record_from_bytes (record_as_bytes ?r) = Inr ?r"
    by (simp add: record_from_bytes_Inr length_record_as_bytes record_read_as_bytes)
  then show ?thesis
    using s by (simp add: r_header_install with_header_def record_view_install assms(2) header_symbol_bytes_def header_venue_def header_new_def)
qed

theorem wire_end_to_end_witness:
  "\<exists>r. record_from_bytes (record_as_bytes (install (PTrade (trade_new 7125 3))
        (with_header (header_new Trade Upbit ([0x4B, 0x52, 0x57] @ replicate 21 0) 9)))) = Inr r \<and>
    record_view r = Inr (PTrade (trade_new 7125 3)) \<and>
    header_symbol_bytes (r_header r) = [0x4B, 0x52, 0x57] \<and>
    header_venue (r_header r) = Inr Upbit \<and> h_recv_ns (r_header r) = 9"
  by (rule wire_end_to_end) (simp_all add: symbol_from_bytes_Some trade_new_def kind_consts)

theorem record_bytes_roundtrip_witness:
  "record_from_bytes (record_as_bytes (install (PTrade (trade_new 1 2))
      (with_header (header_new Trade Okx (replicate 24 1) 0))))
   = Inr (install (PTrade (trade_new 1 2)) (with_header (header_new Trade Okx (replicate 24 1) 0)))"
proof -
  let ?r = "install (PTrade (trade_new 1 2)) (with_header (header_new Trade Okx (replicate 24 1) 0))"
  have "record_ok ?r"
    by (rule record_ok_install) (simp_all add: with_header_ok)
  moreover have "record_validate ?r = Inr ()"
    by (rule install_valid) (simp_all add: header_new_valid trade_new_def kind_consts)
  ultimately show ?thesis
    using record_bytes_roundtrip [of ?r] by blast
qed

end
