(* ===== verification/Segment.thy ===== *)
theory Segment
  imports Wire_Record
begin

text \<open>
  \<open>crates/jeed-wire/src/segment.rs\<close> and the slot arithmetic of \<open>crates/jeed-shm/src/ring.rs\<close>: the
  header at the start of a shared-memory segment, the check a reader makes before it attaches,
  and where the slot of a sequence number lies. Sizes are \<open>usize\<close>, with the wrap-around of the
  release build; \<open>slots_in_map\<close> says for which capacities the size check covers every slot.
\<close>

subsection \<open>The segment header (segment.rs)\<close>

definition SEGMENT_MAGIC :: u64 where
  "SEGMENT_MAGIC = from_le_bytes [0x46, 0x45, 0x5F, 0x57, 0x49, 0x52, 0x45, 0x31]"

definition SEGMENT_HEADER_LEN :: nat where "SEGMENT_HEADER_LEN = 128"

record segment_header =
  sh_magic :: u64
  sh_format_version :: u32
  sh_record_size :: u32
  sh_capacity :: u64
  sh_boot_id :: u64
  sh_pad0 :: bytes
  sh_write_cursor :: u64
  sh_drop_counter :: u64
  sh_pad1 :: bytes

definition segment_header_new :: "u64 \<Rightarrow> u64 \<Rightarrow> segment_header" where
  "segment_header_new capacity boot_id =
     \<lparr> sh_magic = SEGMENT_MAGIC, sh_format_version = WIRE_FORMAT_VERSION,
       sh_record_size = of_nat WIRE_RECORD_LEN, sh_capacity = capacity, sh_boot_id = boot_id,
       sh_pad0 = replicate 32 0, sh_write_cursor = 0, sh_drop_counter = 0,
       sh_pad1 = replicate 48 0 \<rparr>"

definition segment_check :: "segment_header \<Rightarrow> wire_error + unit" where
  "segment_check h =
     (if sh_magic h \<noteq> SEGMENT_MAGIC then Inl (Magic (sh_magic h))
      else if sh_format_version h \<noteq> WIRE_FORMAT_VERSION
      then Inl (FormatVersion WIRE_FORMAT_VERSION (sh_format_version h))
      else if unat (sh_record_size h) \<noteq> WIRE_RECORD_LEN
      then Inl (RecordSize (of_nat WIRE_RECORD_LEN) (sh_record_size h))
      else if sh_capacity h = 0 then Inl Capacity
      else Inr ())"

text \<open>\<open>usize\<close> arithmetic: the sum and the product wrap.\<close>

definition size_of_slots :: "nat \<Rightarrow> nat" where
  "size_of_slots n = (SEGMENT_HEADER_LEN + n * WIRE_RECORD_LEN) mod 2 ^ 64"

definition segment_len :: "segment_header \<Rightarrow> nat" where
  "segment_len h = size_of_slots (unat (sh_capacity h))"

definition segment_slot_offset :: "segment_header \<Rightarrow> u64 \<Rightarrow> nat" where
  "segment_slot_offset h producer_seq = size_of_slots (unat (producer_seq mod sh_capacity h))"

definition segment_publish :: "u64 \<Rightarrow> segment_header \<Rightarrow> segment_header" where
  "segment_publish nxt h = h\<lparr> sh_write_cursor := nxt \<rparr>"

definition segment_note_drops :: "u64 \<Rightarrow> segment_header \<Rightarrow> segment_header" where
  "segment_note_drops n h = h\<lparr> sh_drop_counter := sh_drop_counter h + n \<rparr>"

subsection \<open>Slot arithmetic (ring.rs)\<close>

definition SEQ_IN_PROGRESS :: u64 where "SEQ_IN_PROGRESS = - 1"

definition SEQ_OFFSET :: nat where "SEQ_OFFSET = 8"

definition slot_index :: "u64 \<Rightarrow> u64 \<Rightarrow> nat" where
  "slot_index seq msk = unat (seq AND msk)"

definition slot_offset :: "u64 \<Rightarrow> u64 \<Rightarrow> nat" where
  "slot_offset seq msk = size_of_slots (slot_index seq msk)"

text \<open>\<open>u64::is_power_of_two\<close>.\<close>

definition is_power_of_two :: "u64 \<Rightarrow> bool" where
  "is_power_of_two x \<longleftrightarrow> x \<noteq> 0 \<and> x AND (x - 1) = 0"

subsection \<open>Lemmas on the slot arithmetic\<close>

lemma exp_and_minus_one: "(2 ^ k :: 'a::len word) AND (2 ^ k - 1) = 0"
  by (rule bit_word_eqI) (auto simp: bit_simps simp flip: mask_eq_exp_minus_1)

lemma and_minus_one_highest:
  assumes "x < 2 ^ Suc k" "2 ^ k < x"
  shows "(x :: nat) AND (x - 1) \<noteq> 0"
proof -
  have drop: "y div 2 ^ k = 1" if "2 ^ k \<le> y" "y < 2 ^ Suc k" for y :: nat
    using that by (intro div_nat_eqI) simp_all
  have "bit x k" "bit (x - 1) k"
    using drop [of x] drop [of "x - 1"] assms by (simp_all add: bit_iff_odd)
  then have "bit (x AND (x - 1)) k"
    by (simp add: bit_and_iff)
  then show ?thesis
    by (metis bit_0_eq bot_apply bot_bool_def)
qed

lemma word_power_of_unat: "unat x = 2 ^ k \<Longrightarrow> x = 2 ^ k" for x :: "'a::len word"
proof -
  assume k: "unat x = 2 ^ k"
  have "x = word_of_nat (unat x)"
    by simp
  also have "\<dots> = 2 ^ k"
    unfolding k by simp
  finally show ?thesis .
qed

lemma power_of_two_iff: "is_power_of_two x \<longleftrightarrow> (\<exists>k<64. unat x = 2 ^ k)"
proof
  assume "\<exists>k<64. unat x = 2 ^ k"
  then obtain k where k: "k < 64" "unat x = 2 ^ k"
    by blast
  then have "x = 2 ^ k"
    by (simp add: word_power_of_unat)
  moreover have "x \<noteq> 0"
    using k by auto
  ultimately show "is_power_of_two x"
    by (simp add: is_power_of_two_def exp_and_minus_one)
next
  assume "is_power_of_two x"
  then have x: "0 < unat x" "unat (x AND (x - 1)) = 0"
    by (auto simp: is_power_of_two_def word_gt_0 unat_gt_0)
  then have "unat (x - 1) = unat x - 1"
    by (intro unat_minus_one) auto
  with x(2) have and0: "unat x AND (unat x - 1) = 0"
    by (simp only: unsigned_and_eq)
  obtain k where k: "2 ^ k \<le> unat x" "unat x < 2 ^ Suc k"
    using x(1) ex_power_ivl1 [of 2 "unat x"] by auto
  then have "unat x = 2 ^ k"
    using and_minus_one_highest [OF k(2)] and0 by force
  moreover have "k < 64"
  proof (rule ccontr)
    assume "\<not> k < 64"
    then have "(2::nat) ^ 64 \<le> 2 ^ k"
      by (intro power_increasing) simp_all
    moreover have "unat x < 2 ^ 64"
      using unsigned_less [of x] by simp
    ultimately show False
      using k(1) by linarith
  qed
  ultimately show "\<exists>k<64. unat x = 2 ^ k"
    by blast
qed

lemma slot_index_mod:
  assumes "is_power_of_two capacity"
  shows "slot_index seq (capacity - 1) = unat seq mod unat capacity"
proof -
  obtain k where k: "k < 64" "unat capacity = 2 ^ k"
    using assms power_of_two_iff by blast
  then have "capacity = 2 ^ k"
    by (simp add: word_power_of_unat)
  then have "slot_index seq (capacity - 1) = unat (take_bit k seq)"
    by (simp add: slot_index_def take_bit_eq_mask mask_eq_exp_minus_1)
  also have "\<dots> = unat seq mod 2 ^ k"
    unfolding unsigned_take_bit_eq by (rule take_bit_eq_mod)
  finally show ?thesis
    by (simp add: k)
qed

lemma slot_index_less:
  "is_power_of_two capacity \<Longrightarrow> slot_index seq (capacity - 1) < unat capacity"
  by (auto simp: slot_index_mod power_of_two_iff)

lemma size_of_slots_exact: "n < 2 ^ 54 \<Longrightarrow> size_of_slots n = 128 + n * 640"
  by (simp add: size_of_slots_def SEGMENT_HEADER_LEN_def wire_consts)

subsection \<open>What the slot arithmetic promises\<close>

text \<open>
  C37. The masked slot offset of the ring is the divided one of the segment header: for a
  power-of-two capacity of at most \<open>2^53\<close>, the slot of sequence \<open>s\<close> is \<open>s mod capacity\<close>, the two
  offsets agree, and the slot lies inside the \<open>segment_len\<close> bytes, after the header, aligned to a
  cache line.
\<close>

theorem slot_offset_in_segment:
  assumes "is_power_of_two (sh_capacity h)" and "unat (sh_capacity h) \<le> 2 ^ 53"
  shows "slot_offset seq (sh_capacity h - 1) = segment_slot_offset h seq \<and>
    slot_index seq (sh_capacity h - 1) = unat seq mod unat (sh_capacity h) \<and>
    128 \<le> slot_offset seq (sh_capacity h - 1) \<and>
    slot_offset seq (sh_capacity h - 1) + WIRE_RECORD_LEN \<le> segment_len h \<and>
    64 dvd slot_offset seq (sh_capacity h - 1)"
proof -
  let ?c = "unat (sh_capacity h)" and ?i = "slot_index seq (sh_capacity h - 1)"
  have i: "?i = unat seq mod ?c" "?i < ?c"
    using slot_index_mod [OF assms(1)] slot_index_less [OF assms(1)] by blast+
  have size: "size_of_slots ?i = 128 + ?i * 640" "size_of_slots ?c = 128 + ?c * 640"
    using i(2) assms(2) by (simp_all add: size_of_slots_exact)
  have "unat (seq mod sh_capacity h) = ?i"
    by (simp add: i(1) unat_mod_distrib)
  moreover have "128 + ?i * 640 + 640 \<le> 128 + ?c * 640"
    using i(2) by linarith
  moreover have "64 dvd 128 + ?i * 640"
    by (intro dvd_add dvd_mult) simp_all
  ultimately show ?thesis
    by (simp add: slot_offset_def segment_slot_offset_def segment_len_def size i(1) [symmetric] wire_consts)
qed

theorem slot_offset_in_segment_witness:
  "slot_offset 9 3 = 768 \<and> slot_offset 9 3 + 640 \<le> segment_len (segment_header_new 4 1)"
  using slot_offset_in_segment [of "segment_header_new 4 1" 9]
  by (simp add: segment_header_new_def is_power_of_two_def wire_consts slot_offset_def slot_index_def
    size_of_slots_def SEGMENT_HEADER_LEN_def)

text \<open>
  The size computation wraps: for a capacity of \<open>2^57\<close> slots, a power of two that passes
  \<open>check\<close>, the claimed extent of the segment is 128 bytes, the header alone.
\<close>

theorem segment_len_wraps:
  "segment_check (segment_header_new (2 ^ 57) boot) = Inr () \<and>
   is_power_of_two (2 ^ 57) \<and> segment_len (segment_header_new (2 ^ 57) boot) = 128"
  by (simp add: segment_check_def segment_header_new_def is_power_of_two_def segment_len_def
    size_of_slots_def SEGMENT_HEADER_LEN_def wire_consts)

end
