(* ===== verification/Ring.thy ===== *)
theory Ring
  imports Segment "HOL-Library.Sublist"
begin

text \<open>
  \<open>crates/jeed-shm/src/producer.rs\<close> and \<open>consumer.rs\<close>, one call at a time: the overwriting ring of
  records with its producer, its consumer and the sequence lock in every slot. Calls of the two
  sides are interleaved arbitrarily but each is atomic here; the interleaving inside a call is the
  subject of \<open>Ring_Concurrent\<close>. The abstract specification is a \<open>channel\<close>: the log of everything
  published in this run of the producer. \<open>try_recv_step\<close> and its siblings show that the ring
  implements it.

  The operating system's mapping is an argument of \<open>ring_create\<close> and \<open>ring_attach\<close>: what
  \<open>SharedMapping::create\<close> and \<open>open\<close> return. A mapped segment is its header, its slots and its
  length in bytes.
\<close>

subsection \<open>State\<close>

datatype shm_error =
    NameEmpty
  | NameTooLong nat
  | NameChar u8
  | ShmCapacity u64
  | Os string u32
  | SegmentTooSmall nat nat
  | Wire wire_error

record mapped =
  seg :: segment_header
  slots :: "wire_record list"
  map_len :: nat

record ring_producer =
  p_capacity :: u64
  p_mask :: u64
  p_next_seq :: u64
  p_reused :: bool

record ring_consumer =
  c_capacity :: u64
  c_mask :: u64
  c_boot_id :: u64
  c_next_seq :: u64

datatype recv = Record | EmptyRing | Lagged u64 | Restarted u64

subsection \<open>The producer (producer.rs)\<close>

definition ring_create ::
    "(nat \<Rightarrow> shm_error + mapped \<times> bool) \<Rightarrow> u64 \<Rightarrow> u64 \<Rightarrow> shm_error + ring_producer \<times> mapped" where
  "ring_create os_create capacity boot_id =
     (if capacity = 0 \<or> \<not> is_power_of_two capacity then Inl (ShmCapacity capacity)
      else
        let needed = size_of_slots (unat capacity)
        in and_then (os_create needed) (\<lambda>(m, reused).
             let h = (seg m)\<lparr> sh_magic := SEGMENT_MAGIC, sh_format_version := WIRE_FORMAT_VERSION,
                       sh_record_size := of_nat WIRE_RECORD_LEN, sh_capacity := capacity,
                       sh_boot_id := boot_id, sh_pad0 := replicate 32 0 \<rparr>
             in Inr (\<lparr> p_capacity = capacity, p_mask = capacity - 1, p_next_seq = 0,
                       p_reused = reused \<rparr>, m\<lparr> seg := segment_publish 0 h \<rparr>)))"

definition producer_drops :: "mapped \<Rightarrow> u64" where
  "producer_drops m = sh_drop_counter (seg m)"

definition ring_note_drops :: "u64 \<Rightarrow> mapped \<Rightarrow> mapped" where
  "ring_note_drops n m = m\<lparr> seg := segment_note_drops n (seg m) \<rparr>"

definition set_seq :: "u64 \<Rightarrow> wire_record \<Rightarrow> wire_record" where
  "set_seq q r = r\<lparr> r_header := set_producer_seq q (r_header r) \<rparr>"

definition rec_seq :: "wire_record \<Rightarrow> u64" where
  "rec_seq r = h_producer_seq (r_header r)"

definition write_slot :: "nat \<Rightarrow> (wire_record \<Rightarrow> wire_record) \<Rightarrow> mapped \<Rightarrow> mapped" where
  "write_slot i f m = m\<lparr> slots := (slots m)[i := f (slots m ! i)] \<rparr>"

text \<open>\<open>RingProducer::slot\<close>: mark the next slot in progress. The slot is identified by its index.\<close>

definition ring_slot :: "ring_producer \<Rightarrow> mapped \<Rightarrow> nat \<times> mapped" where
  "ring_slot p m =
     (let i = slot_index (p_next_seq p) (p_mask p) in (i, write_slot i (set_seq SEQ_IN_PROGRESS) m))"

definition slot_seq :: "ring_producer \<Rightarrow> u64" where
  "slot_seq p = p_next_seq p"

definition slot_zeroed :: "nat \<Rightarrow> mapped \<Rightarrow> mapped" where
  "slot_zeroed i m = write_slot i (\<lambda>_. record_zeroed) m"

text \<open>\<open>Slot::commit\<close>: stamp the sequence and publish.\<close>

definition slot_commit :: "ring_producer \<Rightarrow> nat \<Rightarrow> mapped \<Rightarrow> u64 \<times> ring_producer \<times> mapped" where
  "slot_commit p i m =
     (let seq = p_next_seq p;
          m = write_slot i (set_seq seq) m;
          p = p\<lparr> p_next_seq := seq + 1 \<rparr>
      in (seq, p, m\<lparr> seg := segment_publish (seq + 1) (seg m) \<rparr>))"

definition ring_push :: "wire_record \<Rightarrow> ring_producer \<Rightarrow> mapped \<Rightarrow> u64 \<times> ring_producer \<times> mapped" where
  "ring_push rec p m =
     (let (i, m) = ring_slot p m; m = write_slot i (\<lambda>_. rec) m in slot_commit p i m)"

text \<open>
  \<open>RecordSink::publish\<close>: \<open>fill\<close> maps the slot's content to what it leaves there and its result. A
  closure's result carries what it leaves in its captured variables, so \<open>Ok\<close> has a value here.
\<close>

definition ring_publish ::
    "(wire_record \<Rightarrow> wire_record \<times> ('e + 'a)) \<Rightarrow> ring_producer \<Rightarrow> mapped \<Rightarrow>
     ('e + 'a) \<times> ring_producer \<times> mapped" where
  "ring_publish fill p m =
     (let (i, m) = ring_slot p m;
          (rec, result) = fill (slots m ! i);
          m = write_slot i (\<lambda>_. rec) m
      in case result of
           Inl e \<Rightarrow> (Inl e, p, m)
         | Inr a \<Rightarrow> let (_, p, m) = slot_commit p i m in (Inr a, p, m))"

subsection \<open>The consumer (consumer.rs)\<close>

definition ring_attach :: "(shm_error + mapped) \<Rightarrow> shm_error + ring_consumer" where
  "ring_attach os_open =
     and_then os_open (\<lambda>m.
       if map_len m < SEGMENT_HEADER_LEN
       then Inl (SegmentTooSmall SEGMENT_HEADER_LEN (map_len m))
       else
         let hdr = seg m
         in case segment_check hdr of
              Inl e \<Rightarrow> Inl (Wire e)
            | Inr _ \<Rightarrow>
                let capacity = sh_capacity hdr
                in if \<not> is_power_of_two capacity then Inl (ShmCapacity capacity)
                   else
                     let needed = segment_len hdr
                     in if map_len m < needed then Inl (SegmentTooSmall needed (map_len m))
                        else Inr \<lparr> c_capacity = capacity, c_mask = capacity - 1,
                               c_boot_id = sh_boot_id hdr, c_next_seq = sh_write_cursor hdr \<rparr>)"

definition consumer_published :: "mapped \<Rightarrow> u64" where
  "consumer_published m = sh_write_cursor (seg m)"

definition consumer_lag :: "ring_consumer \<Rightarrow> mapped \<Rightarrow> u64" where
  "consumer_lag c m = saturating_sub (consumer_published m) (c_next_seq c)"

definition ring_reseat :: "u64 \<Rightarrow> mapped \<Rightarrow> ring_consumer \<Rightarrow> ring_consumer \<times> recv" where
  "ring_reseat want m c =
     (let safe = saturating_sub (consumer_published m) (c_capacity c);
          c = c\<lparr> c_next_seq := max safe want \<rparr>
      in (c, Lagged (c_next_seq c - want)))"

text \<open>
  One call of \<open>try_recv\<close> on a segment nobody writes meanwhile: the second load of the sequence sees
  what the first saw. The output buffer is an argument and a result.
\<close>

definition ring_try_recv ::
    "ring_consumer \<Rightarrow> mapped \<Rightarrow> wire_record \<Rightarrow> ring_consumer \<times> wire_record \<times> recv" where
  "ring_try_recv c m out =
     (let hdr = seg m; boot_id = sh_boot_id hdr; published = sh_write_cursor hdr
      in if boot_id \<noteq> c_boot_id c
         then (c\<lparr> c_boot_id := boot_id, c_next_seq := published \<rparr>, out, Restarted boot_id)
         else
           let want = c_next_seq c
           in if want \<ge> published then (c, out, EmptyRing)
              else if published - want > c_capacity c then
                let safe = published - c_capacity c
                in (c\<lparr> c_next_seq := safe \<rparr>, out, Lagged (safe - want))
              else
                let rec = slots m ! slot_index want (c_mask c)
                in if rec_seq rec \<noteq> want
                   then (let (c, r) = ring_reseat want m c in (c, out, r))
                   else
                     let out = rec
                     in if rec_seq rec \<noteq> want
                        then (let (c, r) = ring_reseat want m c in (c, out, r))
                        else (c\<lparr> c_next_seq := want + 1 \<rparr>, out, Record))"

subsection \<open>The channel: what the ring promises\<close>

text \<open>
  Everything published in this run of the producer, in order, each record under its sequence. A
  channel is damaged after a \<open>publish\<close> that failed: its slot, the one the oldest record of a full
  ring occupied, no longer holds that record.
\<close>

record channel =
  ch_log :: "wire_record list"
  ch_damaged :: bool
  ch_boot :: u64

text \<open>Publishing appends.\<close>

definition chan_push :: "wire_record \<Rightarrow> channel \<Rightarrow> channel" where
  "chan_push r ch =
     ch\<lparr> ch_log := ch_log ch @ [set_seq (of_nat (length (ch_log ch))) r], ch_damaged := False \<rparr>"

text \<open>A reader's position is the boot identity it knows and the number of the next record.\<close>

datatype chan_recv = CRecord wire_record | CEmpty | CLagged nat | CRestarted u64

definition chan_try_recv :: "nat \<Rightarrow> channel \<Rightarrow> u64 \<times> nat \<Rightarrow> (u64 \<times> nat) \<times> chan_recv" where
  "chan_try_recv cap ch pos =
     (let (boot, want) = pos; n = length (ch_log ch)
      in if boot \<noteq> ch_boot ch then ((ch_boot ch, n), CRestarted (ch_boot ch))
         else if n \<le> want then (pos, CEmpty)
         else if want + cap < n then ((boot, n - cap), CLagged (n - cap - want))
         else if ch_damaged ch \<and> want + cap = n then (pos, CLagged 0)
         else ((boot, want + 1), CRecord (ch_log ch ! want)))"

subsection \<open>The refinement relation\<close>

text \<open>
  The slot of sequence \<open>s\<close> holds the record of \<open>s\<close> for the newest \<open>capacity\<close> sequences (one fewer
  when damaged), and a damaged slot does not carry the sequence it held before.
\<close>

definition attachable :: "mapped \<Rightarrow> bool" where
  "attachable m \<longleftrightarrow> segment_check (seg m) = Inr () \<and> SEGMENT_HEADER_LEN \<le> map_len m \<and>
     segment_len (seg m) \<le> map_len m"

definition ring_implements :: "ring_producer \<Rightarrow> mapped \<Rightarrow> channel \<Rightarrow> bool" where
  "ring_implements p m ch \<longleftrightarrow>
     (let cap = unat (p_capacity p); n = length (ch_log ch); d = (if ch_damaged ch then 1 else 0)
      in is_power_of_two (p_capacity p) \<and> p_mask p = p_capacity p - 1 \<and> cap \<le> length (slots m) \<and>
         sh_capacity (seg m) = p_capacity p \<and> sh_boot_id (seg m) = ch_boot ch \<and> attachable m \<and>
         unat (p_next_seq p) = n \<and> sh_write_cursor (seg m) = p_next_seq p \<and>
         (\<forall>s<n. rec_seq (ch_log ch ! s) = of_nat s) \<and>
         (\<forall>s<n. n + d \<le> s + cap \<longrightarrow> slots m ! (s mod cap) = ch_log ch ! s) \<and>
         (ch_damaged ch \<longrightarrow> cap \<le> n \<longrightarrow> rec_seq (slots m ! (n mod cap)) \<noteq> of_nat (n - cap)))"

definition reader_at :: "ring_consumer \<Rightarrow> u64 \<Rightarrow> u64 \<times> nat \<Rightarrow> bool" where
  "reader_at c capacity pos \<longleftrightarrow>
     c_capacity c = capacity \<and> c_mask c = capacity - 1 \<and> c_boot_id c = fst pos \<and>
     unat (c_next_seq c) = snd pos"

text \<open>The reply of \<open>try_recv\<close> and the reply of the channel.\<close>

fun same_reply :: "wire_record \<Rightarrow> recv \<Rightarrow> chan_recv \<Rightarrow> bool" where
  "same_reply out Record (CRecord r) \<longleftrightarrow> out = r"
| "same_reply out EmptyRing CEmpty \<longleftrightarrow> True"
| "same_reply out (Lagged k) (CLagged n) \<longleftrightarrow> unat k = n"
| "same_reply out (Restarted b) (CRestarted b') \<longleftrightarrow> b = b'"
| "same_reply out _ _ \<longleftrightarrow> False"

lemma unat_plus_one: "Suc (unat x) < 2 ^ 64 \<Longrightarrow> unat x = n \<Longrightarrow> unat (x + 1) = Suc n" for x :: u64
  by (simp add: unat_word_ariths)

lemma set_seq_simps [simp]:
  "rec_seq (set_seq q r) = q"
  "set_seq q (set_seq q' r) = set_seq q r"
  by (simp_all add: set_seq_def rec_seq_def set_producer_seq_def)

lemma mod_distinct: "s < n \<Longrightarrow> n < s + cap \<Longrightarrow> s mod cap \<noteq> n mod (cap :: nat)"
proof
  assume a: "s < n" "n < s + cap" "s mod cap = n mod cap"
  then have "cap dvd n - s"
    using mod_eq_dvd_iff_nat [of s n cap] by simp
  then show False
    using a dvd_imp_le [of cap "n - s"] by simp
qed

lemma ring_implementsD:
  assumes "ring_implements p m ch"
  shows "is_power_of_two (p_capacity p)" "p_mask p = p_capacity p - 1"
    "unat (p_capacity p) \<le> length (slots m)" "sh_boot_id (seg m) = ch_boot ch"
    "sh_capacity (seg m) = p_capacity p"
    "unat (p_next_seq p) = length (ch_log ch)" "sh_write_cursor (seg m) = p_next_seq p" "attachable m"
  using assms by (simp_all add: ring_implements_def Let_def)

lemma ring_slot_index:
  assumes "ring_implements p m ch"
  shows "slot_index (p_next_seq p) (p_mask p) = length (ch_log ch) mod unat (p_capacity p)"
    and "length (ch_log ch) mod unat (p_capacity p) < length (slots m)"
proof -
  note D = ring_implementsD [OF assms]
  show "slot_index (p_next_seq p) (p_mask p) = length (ch_log ch) mod unat (p_capacity p)"
    by (simp add: D slot_index_mod)
  have "length (ch_log ch) mod unat (p_capacity p) < unat (p_capacity p)"
    using D(1) by (intro mod_less_divisor) (auto simp: power_of_two_iff)
  then show "length (ch_log ch) mod unat (p_capacity p) < length (slots m)"
    using D(3) by linarith
qed


lemma write_slot_simps [simp]:
  "length (slots (write_slot i f m)) = length (slots m)"
  "seg (write_slot i f m) = seg m"
  "map_len (write_slot i f m) = map_len m"
  "i < length (slots m) \<Longrightarrow> slots (write_slot i f m) ! i = f (slots m ! i)"
  "i \<noteq> j \<Longrightarrow> slots (write_slot i f m) ! j = slots m ! j"
  by (simp_all add: write_slot_def)

lemma attachable_simps [simp]:
  "attachable (write_slot i f m) = attachable m"
  "attachable (m\<lparr>seg := segment_publish q (seg m)\<rparr>) = attachable m"
  "attachable ((write_slot i f m)\<lparr>seg := h\<rparr>) = attachable (m\<lparr>seg := h\<rparr>)"
  "attachable (ring_note_drops n m) = attachable m"
  by (simp_all add: attachable_def segment_check_def segment_len_def segment_publish_def write_slot_def
    ring_note_drops_def segment_note_drops_def)

lemma write_slot_twice [simp]:
  "i < length (slots m) \<Longrightarrow> write_slot i f (write_slot i g m) = write_slot i (f \<circ> g) m"
  by (simp add: write_slot_def)

lemma write_slot_seg [simp]: "slots (m\<lparr>seg := h\<rparr>) = slots m" "seg (m\<lparr>seg := h\<rparr>) = h"
  by simp_all

text \<open>What one \<open>push\<close> leaves: the slot of the sequence holds the stamped record.\<close>

lemma ring_push_eq:
  assumes "ring_implements p m ch"
  defines "i \<equiv> length (ch_log ch) mod unat (p_capacity p)"
  shows "ring_push rec p m =
    (p_next_seq p, p\<lparr> p_next_seq := p_next_seq p + 1 \<rparr>,
     (write_slot i (\<lambda>_. set_seq (p_next_seq p) rec) m)
       \<lparr> seg := segment_publish (p_next_seq p + 1) (seg m) \<rparr>)"
  using ring_slot_index [OF assms(1)]
  by (simp add: ring_push_def ring_slot_def slot_commit_def Let_def i_def comp_def)

lemma ring_publish_eq:
  assumes "ring_implements p m ch"
  defines "i \<equiv> length (ch_log ch) mod unat (p_capacity p)"
  defines "buf \<equiv> set_seq SEQ_IN_PROGRESS (slots m ! i)"
  shows "ring_publish fill p m =
    (case snd (fill buf) of
       Inl e \<Rightarrow> (Inl e, p, write_slot i (\<lambda>_. fst (fill buf)) m)
     | Inr a \<Rightarrow> (Inr a, snd (ring_push (fst (fill buf)) p m)))"
  using ring_slot_index [OF assms(1)]
  by (simp add: ring_publish_def ring_push_eq [OF assms(1)] ring_slot_def slot_commit_def Let_def
    i_def buf_def comp_def split: prod.splits sum.splits)

lemma push_implements:
  assumes impl: "ring_implements p m ch" and room: "Suc (length (ch_log ch)) < 2 ^ 64"
  shows "ring_implements (fst (snd (ring_push rec p m))) (snd (snd (ring_push rec p m))) (chan_push rec ch)"
proof -
  let ?n = "length (ch_log ch)" and ?cap = "unat (p_capacity p)"
  note D = ring_implementsD [OF impl]
  have next_seq: "p_next_seq p = of_nat ?n"
    by (simp add: D(6) [symmetric])
  have suc: "unat (p_next_seq p + 1) = Suc ?n"
    using room D(6) by (intro unat_plus_one) simp
  have old: "slots m ! (s mod ?cap) = ch_log ch ! s \<and> ?n mod ?cap \<noteq> s mod ?cap"
    if "s < ?n" "Suc ?n \<le> s + ?cap" for s
    using impl that mod_distinct [of s ?n ?cap, symmetric] by (simp add: ring_implements_def Let_def split: if_splits)
  have seqs: "rec_seq ((ch_log ch @ [set_seq (of_nat ?n) rec]) ! s) = of_nat s" if "s < Suc ?n" for s
    using impl that by (auto simp: ring_implements_def Let_def nth_append less_Suc_eq)
  show ?thesis
    using D suc old seqs ring_slot_index(2) [OF impl]
    by (auto simp: ring_push_eq [OF impl] chan_push_def ring_implements_def Let_def next_seq nth_append
      less_Suc_eq)
      (simp_all add: segment_publish_def)
qed

text \<open>A failed \<open>publish\<close> that leaves something else than the old sequence in the cell damages the slot.\<close>

definition damage :: "channel \<Rightarrow> channel" where
  "damage ch = ch\<lparr> ch_damaged := True \<rparr>"

lemma failed_publish_implements:
  assumes impl: "ring_implements p m ch"
    and left: "unat (p_capacity p) \<le> length (ch_log ch) \<Longrightarrow>
      rec_seq r \<noteq> of_nat (length (ch_log ch) - unat (p_capacity p))"
  shows "ring_implements p (write_slot (length (ch_log ch) mod unat (p_capacity p)) (\<lambda>_. r) m) (damage ch)"
proof -
  let ?n = "length (ch_log ch)" and ?cap = "unat (p_capacity p)"
  have old: "slots m ! (s mod ?cap) = ch_log ch ! s \<and> ?n mod ?cap \<noteq> s mod ?cap"
    if "s < ?n" "?n + 1 \<le> s + ?cap" for s
    using impl that mod_distinct [of s ?n ?cap, symmetric]
    by (simp add: ring_implements_def Let_def split: if_splits)
  then show ?thesis
    using impl left ring_slot_index(2) [OF impl]
    by (auto simp: ring_implements_def Let_def damage_def)
qed

lemma drops_implements:
  "ring_implements p m ch \<Longrightarrow> ring_implements p (ring_note_drops n m) ch"
  by (simp add: ring_implements_def Let_def) (simp add: ring_note_drops_def segment_note_drops_def)

text \<open>One \<open>try_recv\<close>, reply by reply.\<close>

lemma seq_of_nat [simp]: "(of_nat (unat x) :: u64) = x"
  by simp

lemma u64_less: "unat (x :: u64) < 2 ^ 64"
  using unsigned_less [of x] by simp

lemma implements_next: "ring_implements p m ch \<Longrightarrow> of_nat (length (ch_log ch)) = p_next_seq p"
  using ring_implementsD(6) by (metis seq_of_nat)

lemma try_recv_restarted:
  assumes "ring_implements p m ch" "reader_at c (p_capacity p) pos" "fst pos \<noteq> ch_boot ch"
  shows "ring_try_recv c m out =
    (c\<lparr> c_boot_id := ch_boot ch, c_next_seq := p_next_seq p \<rparr>, out, Restarted (ch_boot ch))"
  using assms by (auto simp: ring_try_recv_def ring_implementsD reader_at_def Let_def)

lemma try_recv_empty:
  assumes "ring_implements p m ch" "reader_at c (p_capacity p) (ch_boot ch, want)"
    "length (ch_log ch) \<le> want"
  shows "ring_try_recv c m out = (c, out, EmptyRing)"
  using assms by (auto simp: ring_try_recv_def ring_implementsD reader_at_def Let_def word_le_nat_alt)

lemma cursor_gap:
  assumes "unat (n :: u64) = N" "unat w = W" "unat c = C" "W + C < N"
  shows "c < n - w" "unat (n - c) = N - C" "unat (n - c - w) = N - C - W" "\<not> n \<le> w"
  using assms by (simp_all add: word_less_nat_alt word_le_nat_alt unat_sub)

lemma try_recv_lagged:
  assumes impl: "ring_implements p m ch" and rd: "reader_at c (p_capacity p) (ch_boot ch, want)"
    and gap: "want + unat (p_capacity p) < length (ch_log ch)"
  shows "ring_try_recv c m out =
    (c\<lparr> c_next_seq := p_next_seq p - p_capacity p \<rparr>, out, Lagged (p_next_seq p - p_capacity p - c_next_seq c))"
  using cursor_gap [OF ring_implementsD(6) [OF impl] _ refl gap, of "c_next_seq c"] impl rd gap
  by (simp add: ring_try_recv_def ring_implementsD reader_at_def Let_def)

lemma try_recv_in_range:
  assumes impl: "ring_implements p m ch" and rd: "reader_at c (p_capacity p) (ch_boot ch, want)"
    and "want < length (ch_log ch)" "length (ch_log ch) \<le> want + unat (p_capacity p)"
  shows "ring_try_recv c m out =
    (let rec = slots m ! (want mod unat (p_capacity p))
     in if rec_seq rec = of_nat want then (c\<lparr> c_next_seq := c_next_seq c + 1 \<rparr>, rec, Record)
        else (let (c, r) = ring_reseat (c_next_seq c) m c in (c, out, r)))"
proof -
  have w: "unat (c_next_seq c) = want" "c_next_seq c = of_nat want" "c_mask c = p_capacity p - 1"
    "c_capacity c = p_capacity p" "c_boot_id c = ch_boot ch"
    using rd by (auto simp: reader_at_def)
  have "\<not> p_next_seq p \<le> c_next_seq c"
    using ring_implementsD(6) [OF impl] assms(3) w(1) by (simp add: word_le_nat_alt)
  moreover have "\<not> p_capacity p < p_next_seq p - c_next_seq c"
    using ring_implementsD(6) [OF impl] assms(3,4) w(1)
    by (simp add: word_less_nat_alt word_le_nat_alt unat_sub)
  moreover have "slot_index (c_next_seq c) (c_mask c) = want mod unat (p_capacity p)"
    by (simp add: w(1,3) slot_index_mod [OF ring_implementsD(1) [OF impl]])
  ultimately show ?thesis
    using w by (simp add: ring_try_recv_def ring_implementsD [OF impl] Let_def)
qed

lemma slot_holds:
  assumes impl: "ring_implements p m ch" and "want < length (ch_log ch)"
    and "length (ch_log ch) \<le> want + unat (p_capacity p)"
    and fresh: "ch_damaged ch \<Longrightarrow> want + unat (p_capacity p) \<noteq> length (ch_log ch)"
  shows "slots m ! (want mod unat (p_capacity p)) = ch_log ch ! want"
    and "rec_seq (ch_log ch ! want) = of_nat want"
  using assms by (auto simp: ring_implements_def Let_def split: if_splits)

lemma try_recv_record:
  assumes "ring_implements p m ch" "reader_at c (p_capacity p) (ch_boot ch, want)"
    "want < length (ch_log ch)" "length (ch_log ch) \<le> want + unat (p_capacity p)"
    "ch_damaged ch \<Longrightarrow> want + unat (p_capacity p) \<noteq> length (ch_log ch)"
  shows "ring_try_recv c m out = (c\<lparr> c_next_seq := c_next_seq c + 1 \<rparr>, ch_log ch ! want, Record)"
  using try_recv_in_range [OF assms(1-4)] slot_holds [OF assms(1,3,4)] assms(5) by simp

lemma try_recv_damaged:
  assumes impl: "ring_implements p m ch" and rd: "reader_at c (p_capacity p) (ch_boot ch, want)"
    and "want < length (ch_log ch)" "ch_damaged ch" "want + unat (p_capacity p) = length (ch_log ch)"
  shows "ring_try_recv c m out = (c, out, Lagged 0)"
proof -
  have n: "length (ch_log ch) - unat (p_capacity p) = want" "unat (p_capacity p) \<le> length (ch_log ch)"
    using assms(5) by auto
  have idx: "length (ch_log ch) mod unat (p_capacity p) = want mod unat (p_capacity p)"
    by (simp add: assms(5) [symmetric])
  have seq: "rec_seq (slots m ! (want mod unat (p_capacity p))) \<noteq> of_nat want"
  proof -
    have "rec_seq (slots m ! (length (ch_log ch) mod unat (p_capacity p))) \<noteq>
        of_nat (length (ch_log ch) - unat (p_capacity p))"
      using impl assms(4) n(2) unfolding ring_implements_def Let_def by blast
    then show ?thesis
      unfolding idx n(1) .
  qed
  have w: "unat (c_next_seq c) = want" "c_capacity c = p_capacity p"
    using rd by (auto simp: reader_at_def)
  have le: "p_capacity p \<le> p_next_seq p"
    using ring_implementsD(6) [OF impl] n(2) by (simp add: word_le_nat_alt)
  then have "saturating_sub (p_next_seq p) (p_capacity p) = c_next_seq c"
    using ring_implementsD(6) [OF impl] w(1) n(1)
    by (intro word_unat_eq_iff [THEN iffD2]) (auto simp: saturating_sub_def unat_sub)
  then have "ring_reseat (c_next_seq c) m c = (c, Lagged 0)"
    by (simp add: ring_reseat_def consumer_published_def ring_implementsD(7) [OF impl] w Let_def)
  then show ?thesis
    using try_recv_in_range [OF impl rd assms(3)] assms(5) seq by simp
qed

lemma try_recv_step:
  assumes "ring_implements p m ch" and "reader_at c (p_capacity p) pos"
  shows "let (c', out', r) = ring_try_recv c m out;
             (pos', cr) = chan_try_recv (unat (p_capacity p)) ch pos
         in same_reply out' r cr \<and> reader_at c' (p_capacity p) pos'"
proof -
  obtain boot want where pos: "pos = (boot, want)"
    by fastforce
  let ?n = "length (ch_log ch)" and ?cap = "unat (p_capacity p)"
  have w: "unat (c_next_seq c) = want"
    using assms(2) by (simp add: reader_at_def pos)
  note D = ring_implementsD [OF assms(1)]
  consider "boot \<noteq> ch_boot ch" | "boot = ch_boot ch" "?n \<le> want"
    | "boot = ch_boot ch" "want + ?cap < ?n"
    | "boot = ch_boot ch" "want < ?n" "want + ?cap = ?n" "ch_damaged ch"
    | "boot = ch_boot ch" "want < ?n" "?n \<le> want + ?cap" "ch_damaged ch \<longrightarrow> want + ?cap \<noteq> ?n"
    by linarith
  then show ?thesis
  proof cases
    case 1
    then show ?thesis
      using assms D try_recv_restarted [OF assms, of out] by (simp add: pos chan_try_recv_def reader_at_def)
  next
    case 2
    then show ?thesis
      using assms try_recv_empty [OF assms(1), of c want out] by (simp add: pos chan_try_recv_def)
  next
    case 3
    then show ?thesis
      using assms try_recv_lagged [OF assms(1), of c want out] cursor_gap [OF D(6) w refl]
      by (simp add: pos chan_try_recv_def reader_at_def Let_def)
  next
    case 4
    then show ?thesis
      using assms try_recv_damaged [OF assms(1), of c want out] by (simp add: pos chan_try_recv_def)
  next
    case 5
    moreover have "unat (c_next_seq c + 1) = Suc want"
      using w 5(2) D(6) u64_less [of "p_next_seq p"] by (intro unat_plus_one) auto
    ultimately show ?thesis
      using assms try_recv_record [OF assms(1), of c want out]
      by (auto simp: pos chan_try_recv_def reader_at_def)
  qed
qed

text \<open>
  C2. The consumer implements the channel: one \<open>try_recv\<close> on a segment that holds a channel replies
  as the channel does - the record of its position, nothing, how many were overwritten, or the new
  boot identity - and moves its cursor to the channel's next position.
\<close>

theorem try_recv_refines:
  assumes "ring_implements p m ch" and "reader_at c (p_capacity p) pos"
  shows "let (c', out', r) = ring_try_recv c m out;
             (pos', cr) = chan_try_recv (unat (p_capacity p)) ch pos
         in same_reply out' r cr \<and> reader_at c' (p_capacity p) pos'"
  by (rule try_recv_step [OF assms])

subsection \<open>Whole runs\<close>

text \<open>
  The calls the two sides make, in any order, and what a run of them shows: the replies of
  \<open>try_recv\<close> with the output buffer after each. Beside the replies a run reports what each call
  published, which is what the channel is told.
\<close>

datatype 'e ring_op =
    OpPush wire_record
  | OpPublish "wire_record \<Rightarrow> wire_record \<times> ('e + unit)"
  | OpDrops u64
  | OpRecv

datatype chan_event = Pushed wire_record | Abandoned | Quiet | Polled

type_synonym ring_state = "ring_producer \<times> mapped \<times> ring_consumer \<times> wire_record"

fun ring_step :: "'e ring_op \<Rightarrow> ring_state \<Rightarrow> ring_state \<times> chan_event \<times> (wire_record \<times> recv) list" where
  "ring_step (OpPush r) (p, m, c, out) =
     (let (_, p', m') = ring_push r p m in ((p', m', c, out), Pushed r, []))"
| "ring_step (OpPublish fill) (p, m, c, out) =
     (let (i, m0) = ring_slot p m; (result, p', m') = ring_publish fill p m
      in ((p', m', c, out),
          case result of Inl _ \<Rightarrow> Abandoned | Inr _ \<Rightarrow> Pushed (fst (fill (slots m0 ! i))), []))"
| "ring_step (OpDrops n) (p, m, c, out) = ((p, ring_note_drops n m, c, out), Quiet, [])"
| "ring_step OpRecv (p, m, c, out) =
     (let (c', out', r) = ring_try_recv c m out in ((p, m, c', out'), Polled, [(out', r)]))"

fun ring_run ::
    "'e ring_op list \<Rightarrow> ring_state \<Rightarrow> ring_state \<times> chan_event list \<times> (wire_record \<times> recv) list" where
  "ring_run [] st = (st, [], [])"
| "ring_run (x # xs) st =
     (let (st', e, r) = ring_step x st; (st'', es, rs) = ring_run xs st' in (st'', e # es, r @ rs))"

type_synonym chan_state = "channel \<times> (u64 \<times> nat)"

fun chan_step :: "nat \<Rightarrow> chan_event \<Rightarrow> chan_state \<Rightarrow> chan_state \<times> chan_recv list" where
  "chan_step cap (Pushed r) (ch, pos) = ((chan_push r ch, pos), [])"
| "chan_step cap Abandoned (ch, pos) = ((damage ch, pos), [])"
| "chan_step cap Quiet (ch, pos) = ((ch, pos), [])"
| "chan_step cap Polled (ch, pos) = (let (pos', r) = chan_try_recv cap ch pos in ((ch, pos'), [r]))"

fun chan_run :: "nat \<Rightarrow> chan_event list \<Rightarrow> chan_state \<Rightarrow> chan_state \<times> chan_recv list" where
  "chan_run cap [] st = (st, [])"
| "chan_run cap (e # es) st =
     (let (st', r) = chan_step cap e st; (st'', rs) = chan_run cap es st' in (st'', r @ rs))"

text \<open>A filler that fails leaves the sequence cell as \<open>slot\<close> marked it.\<close>

primrec keeps_seq :: "'e ring_op \<Rightarrow> bool" where
  "keeps_seq (OpPush r) \<longleftrightarrow> True"
| "keeps_seq (OpPublish fill) \<longleftrightarrow> (\<forall>r. isl (snd (fill r)) \<longrightarrow> rec_seq (fst (fill r)) = rec_seq r)"
| "keeps_seq (OpDrops n) \<longleftrightarrow> True"
| "keeps_seq OpRecv \<longleftrightarrow> True"

text \<open>The states of a run that correspond, with room left for \<open>k\<close> more publications.\<close>

definition in_step :: "nat \<Rightarrow> nat \<Rightarrow> ring_state \<Rightarrow> chan_state \<Rightarrow> bool" where
  "in_step cap k st ct \<longleftrightarrow>
     (case (st, ct) of ((p, m, c, out), (ch, pos)) \<Rightarrow>
        ring_implements p m ch \<and> reader_at c (p_capacity p) pos \<and> unat (p_capacity p) = cap \<and>
        length (ch_log ch) + k < 2 ^ 64 - 1)"

lemma in_progress_free: "n < 2 ^ 64 - 1 \<Longrightarrow> SEQ_IN_PROGRESS \<noteq> of_nat (n - k)"
proof
  assume n: "n < 2 ^ 64 - 1" and eq: "SEQ_IN_PROGRESS = of_nat (n - k)"
  have "unat (of_nat (n - k) :: u64) = n - k"
    using n by (simp add: unat_of_nat)
  moreover have "unat SEQ_IN_PROGRESS = 2 ^ 64 - 1"
    by (simp add: SEQ_IN_PROGRESS_def unsigned_minus_1_eq_mask mask_eq_exp_minus_1)
  ultimately show False
    using n eq by simp
qed

lemma step_in_step:
  assumes "in_step cap (Suc k) st ct" "keeps_seq x" "ring_step x st = (st', e, rs)"
    "chan_step cap e ct = (ct', crs)"
  shows "in_step cap k st' ct' \<and> list_all2 (\<lambda>(out, r) cr. same_reply out r cr) rs crs"
proof -
  obtain p m c out where st: "st = (p, m, c, out)"
    by (cases st)
  obtain ch pos where ct: "ct = (ch, pos)"
    by (cases ct)
  have impl: "ring_implements p m ch" and rd: "reader_at c (p_capacity p) pos"
    and cap: "unat (p_capacity p) = cap" and room: "length (ch_log ch) + Suc k < 2 ^ 64 - 1"
    using assms(1) by (auto simp: in_step_def st ct)
  have pushed: "in_step cap k (fst (snd (ring_push r p m)), snd (snd (ring_push r p m)), c, out)
      (chan_push r ch, pos)" for r
    using push_implements [OF impl, of r] rd cap room
    by (simp add: in_step_def ring_push_eq [OF impl] chan_push_def)
  let ?i = "length (ch_log ch) mod unat (p_capacity p)"
  let ?buf = "set_seq SEQ_IN_PROGRESS (slots m ! ?i)"
  show ?thesis
  proof (cases x)
    case (OpPush r)
    then show ?thesis
      using assms(3,4) pushed [of r] by (auto simp: st ct split: prod.splits)
  next
    case (OpPublish fill)
    have slot: "ring_slot p m = (?i, write_slot ?i (set_seq SEQ_IN_PROGRESS) m)"
      by (simp add: ring_slot_def ring_slot_index [OF impl] Let_def)
    show ?thesis
    proof (cases "snd (fill ?buf)")
      case (Inr u)
      then show ?thesis
        using assms(3,4) pushed [of "fst (fill ?buf)"] ring_slot_index(2) [OF impl]
        by (auto simp: st ct OpPublish ring_publish_eq [OF impl] slot split: prod.splits)
    next
      case (Inl er)
      then have "isl (snd (fill ?buf))"
        by simp
      then have "rec_seq (fst (fill ?buf)) = SEQ_IN_PROGRESS"
        using assms(2) by (simp add: OpPublish)
      then have "rec_seq (fst (fill ?buf)) \<noteq> of_nat (length (ch_log ch) - unat (p_capacity p))"
        using in_progress_free room by simp
      from failed_publish_implements [OF impl this] show ?thesis
        using assms(3,4) Inl rd cap room
        by (auto simp: st ct OpPublish ring_publish_eq [OF impl] slot in_step_def damage_def split: prod.splits)
    qed
  next
    case (OpDrops n)
    then show ?thesis
      using assms(3,4) drops_implements [OF impl, of n] rd cap room by (auto simp: st ct in_step_def)
  next
    case OpRecv
    then show ?thesis
      using assms(3,4) try_recv_step [OF impl rd, of out] impl cap room
      by (auto simp: st ct in_step_def split: prod.splits)
  qed
qed

lemma run_in_step:
  assumes "in_step cap (length xs + k) st ct" "list_all keeps_seq xs"
    "ring_run xs st = (st', es, rs)" "chan_run cap es ct = (ct', crs)"
  shows "in_step cap k st' ct' \<and> list_all2 (\<lambda>(out, r) cr. same_reply out r cr) rs crs"
  using assms
proof (induction xs arbitrary: st ct es rs crs)
  case (Cons x xs)
  obtain st1 e r where x: "ring_step x st = (st1, e, r)"
    by (cases "ring_step x st")
  obtain es' rs' where run: "ring_run xs st1 = (st', es', rs')" "es = e # es'" "rs = r @ rs'"
    using Cons.prems(3) by (auto simp: x split: prod.splits)
  obtain ct1 cr where c: "chan_step cap e ct = (ct1, cr)"
    by fastforce
  obtain crs' where crun: "chan_run cap es' ct1 = (ct', crs')" "crs = cr @ crs'"
    using Cons.prems(4) by (auto simp: c run split: prod.splits)
  have "in_step cap (length xs + k) st1 ct1 \<and> list_all2 (\<lambda>(out, r) cr. same_reply out r cr) r cr"
    using step_in_step [OF _ _ x c] Cons.prems by simp
  with Cons.IH [OF _ _ run(1) crun(1)] Cons.prems(2) show ?case
    by (simp add: run crun list_all2_appendI)
qed simp

text \<open>What the channel delivers in a run.\<close>

definition delivered :: "chan_recv list \<Rightarrow> wire_record list" where
  "delivered rs = concat (List.map (\<lambda>r. case r of CRecord x \<Rightarrow> [x] | _ \<Rightarrow> []) rs)"

definition lost :: "chan_recv list \<Rightarrow> nat" where
  "lost rs = sum_list (List.map (\<lambda>r. case r of CLagged k \<Rightarrow> k | _ \<Rightarrow> 0) rs)"

lemma delivered_simps [simp]:
  "delivered [] = []" "delivered (CRecord x # rs) = x # delivered rs"
  "delivered (CEmpty # rs) = delivered rs" "delivered (CLagged k # rs) = delivered rs"
  "delivered (CRestarted b # rs) = delivered rs"
  "lost [] = 0" "lost (CRecord x # rs) = lost rs" "lost (CEmpty # rs) = lost rs"
  "lost (CLagged k # rs) = k + lost rs" "lost (CRestarted b # rs) = lost rs"
  by (simp_all add: delivered_def lost_def)

lemma chan_run_log_prefix:
  "chan_run cap es (ch, pos) = ((ch', pos'), rs) \<Longrightarrow> prefix (ch_log ch) (ch_log ch') \<and> ch_boot ch' = ch_boot ch"
proof (induction es arbitrary: ch pos rs)
  case (Cons e es)
  obtain ch1 pos1 r where e: "chan_step cap e (ch, pos) = ((ch1, pos1), r)"
    by (metis prod.exhaust)
  have "prefix (ch_log ch) (ch_log ch1) \<and> ch_boot ch1 = ch_boot ch"
    using e by (cases e) (auto simp: chan_push_def damage_def split: prod.splits)
  moreover have "prefix (ch_log ch1) (ch_log ch') \<and> ch_boot ch' = ch_boot ch1"
    using Cons.prems e by (auto split: prod.splits intro!: Cons.IH)
  ultimately show ?case
    by (metis prefix_order.trans)
qed simp

text \<open>
  Along a run the reader, once it knows the boot identity, advances by exactly what it was given
  and what it was told it lost, and what it was given is a subsequence of what was published from
  its position on.
\<close>

lemma chan_run_delivers:
  assumes "chan_run cap es (ch, (ch_boot ch, want)) = ((ch', pos'), rs)" "want \<le> length (ch_log ch)"
  shows "subseq (delivered rs) (drop want (ch_log ch')) \<and> fst pos' = ch_boot ch \<and>
    snd pos' = want + length (delivered rs) + lost rs \<and> snd pos' \<le> length (ch_log ch')"
  using assms
proof (induction es arbitrary: ch want rs)
  case (Cons e es)
  note prefix = chan_run_log_prefix [THEN conjunct1]
  have run: "chan_run cap es (fst (chan_step cap e (ch, (ch_boot ch, want)))) =
      ((ch', pos'), drop (length (snd (chan_step cap e (ch, (ch_boot ch, want))))) rs)"
    "rs = snd (chan_step cap e (ch, (ch_boot ch, want))) @ drop (length (snd (chan_step cap e (ch, (ch_boot ch, want))))) rs"
    using Cons.prems(1) by (auto split: prod.splits)
  show ?case
  proof (cases e)
    case (Pushed r)
    then show ?thesis
      using run Cons.IH [of "chan_push r ch" want] Cons.prems(2) by (simp add: chan_push_def)
  next
    case Abandoned
    then show ?thesis
      using run Cons.IH [of "damage ch" want] Cons.prems(2) by (simp add: damage_def)
  next
    case Quiet
    then show ?thesis
      using run Cons.IH [of ch want] Cons.prems(2) by simp
  next
    case Polled
    let ?n = "length (ch_log ch)"
    obtain q r where q: "chan_try_recv cap ch (ch_boot ch, want) = (q, r)"
      by fastforce
    have rs: "chan_run cap es (ch, q) = ((ch', pos'), tl rs)" "rs = r # tl rs"
      using run by (auto simp: Polled q drop_Suc)
    have log: "prefix (ch_log ch) (ch_log ch')"
      using rs(1) prefix by blast
    consider "want = ?n" "q = (ch_boot ch, want)" "r = CEmpty"
      | k where "q = (ch_boot ch, want + k)" "r = CLagged k" "want + k \<le> ?n"
      | "q = (ch_boot ch, want + 1)" "r = CRecord (ch_log ch ! want)" "want < ?n"
    proof -
      have "want = ?n \<and> q = (ch_boot ch, want) \<and> r = CEmpty
        \<or> (\<exists>k. q = (ch_boot ch, want + k) \<and> r = CLagged k \<and> want + k \<le> ?n)
        \<or> q = (ch_boot ch, want + 1) \<and> r = CRecord (ch_log ch ! want) \<and> want < ?n"
        using q Cons.prems(2) by (auto simp: chan_try_recv_def Let_def split: if_splits)
      then show thesis
        using that by blast
    qed
    then show ?thesis
    proof cases
      case 1
      then show ?thesis
        using Cons.IH [of ch want "tl rs"] rs Cons.prems(2) by (metis delivered_simps(3) lost_def delivered_simps(8))
    next
      case 2
      then have "subseq (delivered (tl rs)) (drop (want + k) (ch_log ch')) \<and> fst pos' = ch_boot ch \<and>
        snd pos' = want + k + length (delivered (tl rs)) + lost (tl rs) \<and> snd pos' \<le> length (ch_log ch')"
        using Cons.IH [of ch "want + k" "tl rs"] rs by simp
      moreover have "subseq (drop (want + k) (ch_log ch')) (drop want (ch_log ch'))"
        by (metis add.commute drop_drop suffix_drop suffix_imp_subseq)
      ultimately show ?thesis
        by (subst (1 2 3) rs(2)) (auto simp: 2 intro: subseq_order.trans)
    next
      case 3
      have "subseq (delivered (tl rs)) (drop (want + 1) (ch_log ch')) \<and> fst pos' = ch_boot ch \<and>
        snd pos' = want + 1 + length (delivered (tl rs)) + lost (tl rs) \<and> snd pos' \<le> length (ch_log ch')"
        using Cons.IH [of ch "want + 1" "tl rs"] rs 3 by simp
      moreover have "drop want (ch_log ch') = ch_log ch ! want # drop (want + 1) (ch_log ch')"
        using log 3(3) by (auto simp: prefix_def Cons_nth_drop_Suc [symmetric] nth_append)
      ultimately show ?thesis
        by (subst (1 2 3) rs(2)) (auto simp: 3)
    qed
  qed
qed auto

subsection \<open>Creating and attaching\<close>

text \<open>A mapping holds the whole slots that fit behind its header.\<close>

definition mapped_ok :: "mapped \<Rightarrow> bool" where
  "mapped_ok m \<longleftrightarrow> length (slots m) = (map_len m - SEGMENT_HEADER_LEN) div WIRE_RECORD_LEN"

lemma slots_in_map:
  assumes "mapped_ok m" "size_of_slots n \<le> map_len m" "n \<le> 2 ^ 53"
  shows "n \<le> length (slots m)"
proof -
  have "640 * n \<le> map_len m - 128"
    using assms(2,3) by (simp add: size_of_slots_exact)
  then have "n \<le> (map_len m - 128) div 640"
    by (simp add: less_eq_div_iff_mult_less_eq)
  then show ?thesis
    using assms(1) by (simp add: mapped_ok_def SEGMENT_HEADER_LEN_def wire_consts)
qed

lemma ring_create_ok:
  assumes "ring_create os_create capacity boot = Inr (p, m)"
  obtains m0 reused where "os_create (size_of_slots (unat capacity)) = Inr (m0, reused)"
    "is_power_of_two capacity" "p = \<lparr> p_capacity = capacity, p_mask = capacity - 1, p_next_seq = 0, p_reused = reused \<rparr>"
    "slots m = slots m0" "map_len m = map_len m0" "sh_capacity (seg m) = capacity"
    "sh_boot_id (seg m) = boot" "sh_write_cursor (seg m) = 0" "segment_check (seg m) = Inr ()"
    "sh_drop_counter (seg m) = sh_drop_counter (seg m0)"
  using assms
  by (auto simp: ring_create_def and_then_def Let_def segment_publish_def segment_check_def
    wire_consts is_power_of_two_def split: if_splits sum.splits prod.splits)

definition fresh :: "u64 \<Rightarrow> channel" where
  "fresh boot = \<lparr> ch_log = [], ch_damaged = False, ch_boot = boot \<rparr>"

text \<open>What \<open>SharedMapping::create\<close> promises: at least the bytes asked for.\<close>

definition os_create_ok :: "(nat \<Rightarrow> shm_error + mapped \<times> bool) \<Rightarrow> bool" where
  "os_create_ok os \<longleftrightarrow> (\<forall>needed m reused. os needed = Inr (m, reused) \<longrightarrow> needed \<le> map_len m \<and> mapped_ok m)"

lemma create_implements:
  assumes "ring_create os_create capacity boot = Inr (p, m)" "os_create_ok os_create"
    "unat capacity \<le> 2 ^ 53"
  shows "ring_implements p m (fresh boot)" "p_capacity p = capacity"
    "segment_len (seg m) \<le> map_len m" "mapped_ok m"
proof -
  obtain m0 reused where m0: "os_create (size_of_slots (unat capacity)) = Inr (m0, reused)"
    "is_power_of_two capacity" "p = \<lparr> p_capacity = capacity, p_mask = capacity - 1, p_next_seq = 0, p_reused = reused \<rparr>"
    "slots m = slots m0" "map_len m = map_len m0" "sh_capacity (seg m) = capacity"
    "sh_boot_id (seg m) = boot" "sh_write_cursor (seg m) = 0" "segment_check (seg m) = Inr ()"
    by (rule ring_create_ok [OF assms(1)])
  then have big: "size_of_slots (unat capacity) \<le> map_len m0" "mapped_ok m0"
    using assms(2) by (auto simp: os_create_ok_def)
  have "SEGMENT_HEADER_LEN \<le> size_of_slots (unat capacity)"
    using assms(3) by (simp add: size_of_slots_exact SEGMENT_HEADER_LEN_def)
  then have "attachable m"
    using m0 big by (simp add: attachable_def segment_len_def)
  then show "ring_implements p m (fresh boot)"
    using slots_in_map [OF big(2,1) assms(3)] m0
    by (simp add: ring_implements_def fresh_def Let_def)
  show "p_capacity p = capacity" "segment_len (seg m) \<le> map_len m" "mapped_ok m"
    using m0 big by (simp_all add: segment_len_def mapped_ok_def)
qed

text \<open>Attaching to a segment that holds a channel succeeds and seats the reader at its live edge.\<close>

lemma attach_seats:
  assumes impl: "ring_implements p m ch"
  defines "c \<equiv> \<lparr> c_capacity = p_capacity p, c_mask = p_capacity p - 1, c_boot_id = ch_boot ch,
    c_next_seq = p_next_seq p \<rparr>"
  shows "ring_attach (Inr m) = Inr c" "reader_at c (p_capacity p) (ch_boot ch, length (ch_log ch))"
  using ring_implementsD [OF impl]
  by (auto simp: ring_attach_def and_then_def Let_def reader_at_def attachable_def c_def)

subsection \<open>What a run of the ring delivers\<close>

definition ring_delivered :: "(wire_record \<times> recv) list \<Rightarrow> wire_record list" where
  "ring_delivered rs = concat (List.map (\<lambda>(out, r). case r of Record \<Rightarrow> [out] | _ \<Rightarrow> []) rs)"

definition ring_lost :: "(wire_record \<times> recv) list \<Rightarrow> nat" where
  "ring_lost rs = sum_list (List.map (\<lambda>(_, r). case r of Lagged k \<Rightarrow> unat k | _ \<Rightarrow> 0) rs)"

fun stamped :: "nat \<Rightarrow> chan_event list \<Rightarrow> wire_record list" where
  "stamped n [] = []"
| "stamped n (Pushed r # es) = set_seq (of_nat n) r # stamped (Suc n) es"
| "stamped n (_ # es) = stamped n es"

lemma same_replies:
  assumes "list_all2 (\<lambda>(out, r) cr. same_reply out r cr) rs crs"
  shows "ring_delivered rs = delivered crs" "ring_lost rs = lost crs"
  using assms
  by (induction rs crs rule: list_all2_induct)
    (auto simp: ring_delivered_def delivered_def ring_lost_def lost_def elim!: same_reply.elims)

lemma chan_run_log:
  "chan_run cap es (ch, pos) = ((ch', pos'), rs) \<Longrightarrow> ch_log ch' = ch_log ch @ stamped (length (ch_log ch)) es"
proof (induction es arbitrary: ch pos rs)
  case (Cons e es)
  then show ?case
    by (cases e) (auto simp: chan_push_def damage_def split: prod.splits)
qed simp

text \<open>A poll that found nothing stands at the end of the log.\<close>

lemma chan_run_ends_empty:
  "chan_run cap (es @ [Polled]) (ch, pos) = ((ch', (b, w)), rs) \<Longrightarrow> last rs = CEmpty \<Longrightarrow>
    length (ch_log ch') \<le> w"
proof (induction es arbitrary: ch pos rs)
  case Nil
  then show ?case
    by (auto simp: chan_try_recv_def Let_def split: prod.splits if_splits)
next
  case (Cons e es)
  obtain ch1 pos1 r where e: "chan_step cap e (ch, pos) = ((ch1, pos1), r)"
    by (metis prod.exhaust)
  obtain rs' where rs': "chan_run cap (es @ [Polled]) (ch1, pos1) = ((ch', (b, w)), rs')" "rs = r @ rs'"
    using Cons.prems e by (auto split: prod.splits)
  have "rs' \<noteq> []"
    using rs'(1) by (induction es arbitrary: ch1 pos1 rs') (auto split: prod.splits)
  then show ?case
    using Cons.IH [OF rs'(1)] Cons.prems(2) rs'(2) by simp
qed

lemma ring_run_ends_poll:
  "ring_run (ys @ [OpRecv]) st = (st', es, rs) \<Longrightarrow> \<exists>es' rs' x. es = es' @ [Polled] \<and> rs = rs' @ [x]"
proof (induction ys arbitrary: st es rs)
  case Nil
  then show ?case
    by (cases st) (auto split: prod.splits)
next
  case (Cons y ys)
  obtain st1 e r where y: "ring_step y st = (st1, e, r)"
    by (cases "ring_step y st")
  obtain es1 rs1 where run: "ring_run (ys @ [OpRecv]) st1 = (st', es1, rs1)" "es = e # es1" "rs = r @ rs1"
    using Cons.prems by (auto simp: y split: prod.splits)
  show ?case
    using Cons.IH [OF run(1)] run(2,3) by auto
qed

lemma same_reply_last_empty:
  assumes "list_all2 (\<lambda>(out, r) cr. same_reply out r cr) (rs @ [x]) crs" "snd x = EmptyRing"
  shows "last crs = CEmpty"
  using assms by (cases x) (auto simp: list_all2_append1 list_all2_Cons1 elim: same_reply.elims)

text \<open>
  C1. A producer run and a consumer on it. After \<open>create\<close> and any calls of the producer, \<open>attach\<close>
  succeeds; whatever the two sides call afterwards, in whatever order, the records \<open>try_recv\<close>
  delivers are, in order, records published after the attachment, each at most once and
  byte for byte as filled but for the stamped sequence; records delivered and records reported lost
  never exceed those published, and are all of them once \<open>try_recv\<close> finds the ring empty; so a
  consumer that lost none and polled until empty has received exactly what was published. A failing filler
  must not overwrite the sequence cell.
\<close>

theorem ring_run_delivers:
  assumes create: "ring_create os_create capacity boot = Inr (p, m)" "os_create_ok os_create"
      "unat capacity \<le> 2 ^ 53"
    and before: "ring_run xs (p, m, c0, out0) = ((p1, m1, s1), es1, rs1)" "ring_attach (Inr m) = Inr c0"
    and bound: "list_all keeps_seq (xs @ ys)" "length (xs @ ys) < 2 ^ 64 - 1"
  shows "\<exists>c. ring_attach (Inr m1) = Inr c \<and>
    (let (st, es, rs) = ring_run ys (p1, m1, c, out); sent = stamped (length (stamped 0 es1)) es
     in subseq (ring_delivered rs) sent \<and>
        length (ring_delivered rs) + ring_lost rs \<le> length sent \<and>
        (ys \<noteq> [] \<and> last ys = OpRecv \<and> snd (last rs) = EmptyRing \<longrightarrow>
          length (ring_delivered rs) + ring_lost rs = length sent \<and>
          (ring_lost rs = 0 \<longrightarrow> ring_delivered rs = sent)))"
proof -
  let ?cap = "unat capacity"
  note impl0 = create_implements [OF create]
  have rd0: "reader_at c0 capacity (boot, 0)"
    using attach_seats [OF impl0(1)] before(2) by (simp add: fresh_def impl0(2))
  obtain ct1 crs1 where run1: "chan_run ?cap es1 (fresh boot, (boot, 0)) = (ct1, crs1)"
    by fastforce
  obtain ch1 pos1 where ct1: "ct1 = (ch1, pos1)"
    by (cases ct1)
  have "in_step ?cap (length xs + length ys) (p, m, c0, out0) (fresh boot, (boot, 0))"
    using impl0 rd0 bound(2) by (simp add: in_step_def fresh_def)
  then have mid: "in_step ?cap (length ys) (p1, m1, s1) (ch1, pos1)"
    using run_in_step [OF _ _ before(1) run1] bound(1) ct1 by simp
  then have impl1: "ring_implements p1 m1 ch1" and cap1: "unat (p_capacity p1) = ?cap"
    and room: "length (ch_log ch1) + length ys < 2 ^ 64 - 1"
    by (auto simp: in_step_def split: prod.splits)
  have log1: "ch_log ch1 = stamped 0 es1"
    using chan_run_log run1 ct1 by (simp add: fresh_def)
  obtain c where c: "ring_attach (Inr m1) = Inr c"
      "reader_at c (p_capacity p1) (ch_boot ch1, length (ch_log ch1))"
    using attach_seats [OF impl1] by blast
  obtain st es rs where run2: "ring_run ys (p1, m1, c, out) = (st, es, rs)"
    by (metis prod.exhaust)
  obtain ch2 pos2 crs where crun2: "chan_run ?cap es (ch1, (ch_boot ch1, length (ch_log ch1))) = ((ch2, pos2), crs)"
    by (metis prod.exhaust)
  have "in_step ?cap (length ys + 0) (p1, m1, c, out) (ch1, (ch_boot ch1, length (ch_log ch1)))"
    using impl1 c(2) cap1 room by (simp add: in_step_def)
  then have replies: "list_all2 (\<lambda>(out, r) cr. same_reply out r cr) rs crs"
    using run_in_step [OF _ _ run2 crun2, of 0] bound(1) by auto
  let ?sent = "stamped (length (stamped 0 es1)) es"
  have sent: "drop (length (ch_log ch1)) (ch_log ch2) = ?sent"
    using chan_run_log [OF crun2] by (simp add: log1)
  have facts: "subseq (delivered crs) ?sent"
      "length (ch_log ch1) + length (delivered crs) + lost crs \<le> length (ch_log ch2)"
      "snd pos2 = length (ch_log ch1) + length (delivered crs) + lost crs"
    using chan_run_delivers [OF crun2] by (auto simp: sent)
  have len: "length (ch_log ch2) = length (ch_log ch1) + length ?sent"
    using chan_run_log [OF crun2] by (simp add: log1)
  have all: "length (delivered crs) + lost crs = length ?sent"
    if poll: "ys \<noteq> []" "last ys = OpRecv" "snd (last rs) = EmptyRing"
  proof -
    obtain es' rs' x where ends: "es = es' @ [Polled]" "rs = rs' @ [x]"
      using ring_run_ends_poll [of "butlast ys"] run2 poll(1,2) by (metis append_butlast_last_id)
    have "last crs = CEmpty"
      using same_reply_last_empty replies ends(2) poll(3) by auto
    then have "length (ch_log ch2) \<le> snd pos2"
      using chan_run_ends_empty [of ?cap es' ch1 _ ch2 "fst pos2" "snd pos2"] crun2 ends(1) by simp
    then show ?thesis
      using facts len by simp
  qed
  then show ?thesis
    using c(1) facts len run2
    by (auto simp: same_replies [OF replies] subseq_same_length Let_def)
qed

text \<open>A mapping with room for four slots, for concrete runs.\<close>

definition four_slots :: "nat \<Rightarrow> shm_error + mapped \<times> bool" where
  "four_slots needed =
     (if needed \<le> 2688
      then Inr (\<lparr> seg = segment_header_new 0 0, slots = [record_zeroed, record_zeroed, record_zeroed, record_zeroed], map_len = 2688 \<rparr>, False)
      else Inl (SegmentTooSmall needed 2688))"

lemma four_slots_ok: "os_create_ok four_slots"
  by (auto simp: os_create_ok_def four_slots_def mapped_ok_def SEGMENT_HEADER_LEN_def wire_consts split: if_splits)

definition demo_producer :: "u64 \<Rightarrow> u64 \<Rightarrow> ring_producer" where
  "demo_producer capacity nxt =
     \<lparr> p_capacity = capacity, p_mask = capacity - 1, p_next_seq = nxt, p_reused = False \<rparr>"

definition demo_segment :: "u64 \<Rightarrow> u64 \<Rightarrow> wire_record list \<Rightarrow> mapped" where
  "demo_segment boot cursor rs =
     \<lparr> seg = (segment_header_new (of_nat (length rs)) boot)\<lparr> sh_write_cursor := cursor \<rparr>,
       slots = rs, map_len = 128 + 640 * length rs \<rparr>"

lemma demo_create:
  "ring_create four_slots 4 7 = Inr (demo_producer 4 0, demo_segment 7 0 [record_zeroed, record_zeroed, record_zeroed, record_zeroed])"
  by (simp add: ring_create_def four_slots_def and_then_def demo_producer_def demo_segment_def
    is_power_of_two_def size_of_slots_def SEGMENT_HEADER_LEN_def wire_consts segment_header_new_def
    segment_publish_def Let_def)

definition demo_consumer :: "u64 \<Rightarrow> u64 \<Rightarrow> u64 \<Rightarrow> ring_consumer" where
  "demo_consumer capacity boot nxt =
     \<lparr> c_capacity = capacity, c_mask = capacity - 1, c_boot_id = boot, c_next_seq = nxt \<rparr>"

lemma demo_attach:
  "length rs = 4 \<Longrightarrow> ring_attach (Inr (demo_segment boot cursor rs)) = Inr (demo_consumer 4 boot cursor)"
  by (simp add: ring_attach_def and_then_def demo_segment_def demo_consumer_def is_power_of_two_def
    segment_len_def size_of_slots_def SEGMENT_HEADER_LEN_def wire_consts segment_header_new_def
    segment_check_def Let_def)

lemma demo_push:
  "ring_push record_zeroed (demo_producer 4 0) (demo_segment 7 0 [record_zeroed, record_zeroed, record_zeroed, record_zeroed]) =
    (0, demo_producer 4 1, demo_segment 7 1 [set_seq 0 record_zeroed, record_zeroed, record_zeroed, record_zeroed])"
  by (simp add: ring_push_def ring_slot_def slot_commit_def write_slot_def demo_producer_def
    demo_segment_def segment_publish_def slot_index_def segment_header_new_def Let_def)

lemma demo_first:
  "ring_run ([OpPush record_zeroed] :: unit ring_op list)
    (demo_producer 4 0, demo_segment 7 0 [record_zeroed, record_zeroed, record_zeroed, record_zeroed], demo_consumer 4 7 0, record_zeroed) =
   ((demo_producer 4 1, demo_segment 7 1 [set_seq 0 record_zeroed, record_zeroed, record_zeroed, record_zeroed],
     demo_consumer 4 7 0, record_zeroed), [Pushed record_zeroed], [])"
  by (simp add: demo_push)

lemma demo_run:
  "ring_run ([OpPush record_zeroed, OpRecv, OpRecv] :: unit ring_op list)
    (demo_producer 4 1, demo_segment 7 1 [set_seq 0 record_zeroed, record_zeroed, record_zeroed, record_zeroed],
     demo_consumer 4 7 1, record_zeroed) =
   ((demo_producer 4 2, demo_segment 7 2 [set_seq 0 record_zeroed, set_seq 1 record_zeroed, record_zeroed, record_zeroed],
     demo_consumer 4 7 2, set_seq 1 record_zeroed),
    [Pushed record_zeroed, Polled, Polled],
    [(set_seq 1 record_zeroed, Record), (set_seq 1 record_zeroed, EmptyRing)])"
  by (simp add: ring_push_def ring_slot_def slot_commit_def write_slot_def demo_producer_def
    demo_segment_def segment_publish_def slot_index_def segment_header_new_def Let_def
    ring_try_recv_def demo_consumer_def word_le_nat_alt)

theorem ring_run_delivers_witness:
  "ring_delivered (snd (snd (ring_run ([OpPush record_zeroed, OpRecv, OpRecv] :: unit ring_op list)
      (demo_producer 4 1, demo_segment 7 1 [set_seq 0 record_zeroed, record_zeroed, record_zeroed, record_zeroed],
       demo_consumer 4 7 1, record_zeroed)))) = [set_seq 1 record_zeroed]"
  using ring_run_delivers [OF demo_create four_slots_ok _ _ demo_attach, of "[OpPush record_zeroed]" record_zeroed
      "demo_producer 4 1" "demo_segment 7 1 [set_seq 0 record_zeroed, record_zeroed, record_zeroed, record_zeroed]"
      "(demo_consumer 4 7 0, record_zeroed)" "[Pushed record_zeroed]" "[]"
      "[OpPush record_zeroed, OpRecv, OpRecv] :: unit ring_op list" record_zeroed]
  by (simp add: demo_attach demo_first demo_run ring_lost_def Let_def del: ring_run.simps)

theorem try_recv_refines_witness:
  "case ring_try_recv (demo_consumer 4 3 0)
      (demo_segment 7 0 [record_zeroed, record_zeroed, record_zeroed, record_zeroed]) record_zeroed of
    (c', out', reply) \<Rightarrow> same_reply out' reply (CRestarted 7) \<and> reader_at c' 4 (7, 0)"
  using try_recv_refines [OF create_implements(1) [OF demo_create four_slots_ok], of "demo_consumer 4 3 0" "(3, 0)" record_zeroed]
  by (simp add: demo_producer_def reader_at_def demo_consumer_def fresh_def chan_try_recv_def Let_def)

text \<open>
  A failing filler that does overwrite the sequence cell breaks the promise: on a ring of one
  slot whose only record has been published and not yet read, a \<open>publish\<close> that fails after
  writing a record of sequence 0 into the slot makes the next \<open>try_recv\<close> deliver that abandoned
  content as record 0, though it was never published.
\<close>

theorem abandoned_slot_delivered:
  "ring_run [OpPush r, OpPublish (\<lambda>_. (set_seq 0 junk, Inl ())), OpRecv]
    (demo_producer 1 0, demo_segment 7 0 [record_zeroed], demo_consumer 1 7 0, out) =
   ((demo_producer 1 1, demo_segment 7 1 [set_seq 0 junk], demo_consumer 1 7 1, set_seq 0 junk),
    [Pushed r, Abandoned, Polled], [(set_seq 0 junk, Record)])"
  by (simp add: ring_push_def ring_publish_def ring_slot_def slot_commit_def write_slot_def demo_producer_def
    demo_segment_def segment_publish_def slot_index_def segment_header_new_def Let_def
    ring_try_recv_def demo_consumer_def word_le_nat_alt)

text \<open>
  C36. What \<open>attach\<close> checks is what reading needs: when it succeeds on a mapping that claims at most
  \<open>2^53\<close> slots, every slot the consumer's mask can select lies inside the mapping.
\<close>

theorem attach_slots_mapped:
  assumes "ring_attach os_open = Inr c" and "os_open = Inr m" and "mapped_ok m"
    and "unat (c_capacity c) \<le> 2 ^ 53"
  shows "slot_index seq (c_mask c) < length (slots m) \<and>
    slot_offset seq (c_mask c) + WIRE_RECORD_LEN \<le> map_len m \<and>
    c_boot_id c = sh_boot_id (seg m) \<and> c_next_seq c = sh_write_cursor (seg m)"
proof -
  have c: "is_power_of_two (c_capacity c)" "c_mask c = c_capacity c - 1" "c_boot_id c = sh_boot_id (seg m)"
    "c_next_seq c = sh_write_cursor (seg m)" "size_of_slots (unat (c_capacity c)) \<le> map_len m"
    using assms(1,2)
    by (auto simp: ring_attach_def and_then_def Let_def segment_len_def split: if_splits sum.splits)
  have i: "slot_index seq (c_mask c) < unat (c_capacity c)"
    using slot_index_less [OF c(1)] c(2) by simp
  then have "slot_offset seq (c_mask c) + 640 \<le> 128 + unat (c_capacity c) * 640"
    using assms(4) by (simp add: slot_offset_def size_of_slots_exact)
  then show ?thesis
    using c i slots_in_map [OF assms(3) c(5) assms(4)] assms(4)
    by (simp add: size_of_slots_exact wire_consts)
qed

theorem attach_slots_mapped_witness:
  "slot_index 9 3 < (4 :: nat) \<and> slot_offset 9 3 + WIRE_RECORD_LEN \<le> 2688"
  using attach_slots_mapped [OF demo_attach refl, of "[record_zeroed, record_zeroed, record_zeroed, record_zeroed]" 7 0 9]
  by (simp add: demo_consumer_def demo_segment_def mapped_ok_def SEGMENT_HEADER_LEN_def wire_consts)

text \<open>
  For larger claims it is not: a segment of 128 bytes, the header alone with no slot behind it,
  whose header claims \<open>2^57\<close> slots is accepted by \<open>attach\<close>, because the size computation wraps.
\<close>

theorem attach_accepts_no_slots:
  "let m = \<lparr> seg = segment_header_new (2 ^ 57) boot, slots = [], map_len = 128 \<rparr>
   in mapped_ok m \<and> ring_attach (Inr m) =
     Inr \<lparr> c_capacity = 2 ^ 57, c_mask = 2 ^ 57 - 1, c_boot_id = boot, c_next_seq = 0 \<rparr>"
  by (simp add: ring_attach_def and_then_def is_power_of_two_def mapped_ok_def
    segment_len_def size_of_slots_def SEGMENT_HEADER_LEN_def wire_consts segment_header_new_def
    segment_check_def Let_def)

end
