(* ===== verification/Record_Sink.thy ===== *)
theory Record_Sink
  imports Ring
begin

text \<open>
  \<open>crates/jeed-wire/src/sink.rs\<close>: \<open>RecordSink\<close>, the one path a finished record takes out of a
  handler, as a locale; the ring producer is its model (\<open>impl RecordSink for RingProducer\<close> of
  \<open>crates/jeed-shm/src/producer.rs\<close>), and \<open>publish_batch\<close> of
  \<open>crates/jeed-crypto/src/recv/route.rs\<close> a client that only knows the interface.
\<close>

subsection \<open>The interface\<close>

text \<open>
  \<open>holds s log\<close> says that the sink \<open>s\<close> has published \<open>log\<close>; \<open>buffer s\<close> is what the next filler finds.
  A filler that succeeds publishes exactly the record it leaves, under the next sequence; one that
  fails publishes nothing; noted drops touch no record.
\<close>

locale record_sink =
  fixes holds :: "'s \<Rightarrow> wire_record list \<Rightarrow> bool"
    and buffer :: "'s \<Rightarrow> wire_record"
    and publish :: "(wire_record \<Rightarrow> wire_record \<times> ('e + 'a)) \<Rightarrow> 's \<Rightarrow> ('e + 'a) \<times> 's"
    and note_drops :: "u64 \<Rightarrow> 's \<Rightarrow> 's"
    and drops :: "'s \<Rightarrow> u64"
  assumes publish_ok:
      "holds s log \<Longrightarrow> Suc (length log) < 2 ^ 64 \<Longrightarrow> fill (buffer s) = (r, Inr a) \<Longrightarrow>
       fst (publish fill s) = Inr a \<and>
       holds (snd (publish fill s)) (log @ [set_seq (of_nat (length log)) r]) \<and>
       drops (snd (publish fill s)) = drops s"
    and publish_err:
      "holds s log \<Longrightarrow> fill (buffer s) = (r, Inl e) \<Longrightarrow>
       fst (publish fill s) = Inl e \<and> holds (snd (publish fill s)) log \<and>
       drops (snd (publish fill s)) = drops s"
    and note_drops: "holds s log \<Longrightarrow> holds (note_drops n s) log \<and> drops (note_drops n s) = drops s + n"

subsection \<open>A client: publish_batch (route.rs)\<close>

text \<open>
  \<open>next\<close> is a decoder's \<open>decode_next\<close> with its state; the variables \<open>refused\<close> and \<open>spent\<close> the closure
  captures, and the decoder's state after the call, are what its result carries.
\<close>

definition batch_fill ::
    "('d \<Rightarrow> wire_record \<Rightarrow> 'd \<times> wire_record \<times> ('e + unit) option) \<Rightarrow> 'd \<Rightarrow>
     wire_record \<Rightarrow> wire_record \<times> (('e option \<times> 'd) + 'd)" where
  "batch_fill nxt d rec =
     (let (d', rec', out) = nxt d rec
      in (rec', case out of
                  Some (Inr _) \<Rightarrow> Inr d'
                | Some (Inl e) \<Rightarrow> Inl (Some e, d')
                | None \<Rightarrow> Inl (None, d')))"

partial_function (option) publish_batch ::
    "((wire_record \<Rightarrow> wire_record \<times> (('e option \<times> 'd) + 'd)) \<Rightarrow> 's \<Rightarrow> (('e option \<times> 'd) + 'd) \<times> 's) \<Rightarrow>
     ('d \<Rightarrow> wire_record \<Rightarrow> 'd \<times> wire_record \<times> ('e + unit) option) \<Rightarrow> 'd \<Rightarrow> nat \<Rightarrow> 's \<Rightarrow>
     (('e + nat) \<times> 'd \<times> 's) option" where
  "publish_batch publish nxt d n s =
     (case publish (batch_fill nxt d) s of (published, s') \<Rightarrow>
        (case published of
           Inr d' \<Rightarrow> publish_batch publish nxt d' (n + 1) s'
         | Inl (refused, d') \<Rightarrow>
             Some (case refused of Some e \<Rightarrow> Inl e | None \<Rightarrow> Inr n, d', s')))"

text \<open>What a decoder yields from a state: the prints it filled, and how it ended.\<close>

inductive yields ::
    "('d \<Rightarrow> wire_record \<Rightarrow> 'd \<times> wire_record \<times> ('e + unit) option) \<Rightarrow> 'd \<Rightarrow> wire_record list \<Rightarrow> 'e option \<Rightarrow> 'd \<Rightarrow> bool"
  for nxt where
  spent: "nxt d buf = (d', r, None) \<Longrightarrow> yields nxt d [] None d'"
| refused: "nxt d buf = (d', r, Some (Inl e)) \<Longrightarrow> yields nxt d [] (Some e) d'"
| filled: "nxt d buf = (d', r, Some (Inr ())) \<Longrightarrow> yields nxt d' rs e d'' \<Longrightarrow> yields nxt d (r # rs) e d''"

text \<open>The records of a batch, stamped from sequence \<open>n\<close> on.\<close>

fun stamp_from :: "nat \<Rightarrow> wire_record list \<Rightarrow> wire_record list" where
  "stamp_from n [] = []"
| "stamp_from n (r # rs) = set_seq (of_nat n) r # stamp_from (Suc n) rs"

lemma length_stamp_from [simp]: "length (stamp_from n rs) = length rs"
  by (induction rs arbitrary: n) simp_all

text \<open>Every decoder state has fewer prints left than the one before.\<close>

definition decreasing ::
    "('d \<Rightarrow> nat) \<Rightarrow> ('d \<Rightarrow> wire_record \<Rightarrow> 'd \<times> wire_record \<times> ('e + unit) option) \<Rightarrow> bool" where
  "decreasing \<mu> nxt \<longleftrightarrow> (\<forall>d buf d' r. nxt d buf = (d', r, Some (Inr ())) \<longrightarrow> \<mu> d' < \<mu> d)"

context record_sink
begin

lemma publish_spec:
  assumes "holds s log" "Suc (length log) < 2 ^ 64" "fill (buffer s) = (r, x)"
  shows "\<exists>s'. publish fill s = (x, s') \<and> drops s' = drops s \<and>
    holds s' (case x of Inr _ \<Rightarrow> log @ [set_seq (of_nat (length log)) r] | Inl _ \<Rightarrow> log)"
  using publish_err [of s log fill r] publish_ok [of s log fill r] assms
  by (cases x) (auto simp: prod_eq_iff)

end


text \<open>The sink at the result type a batch uses.\<close>

locale batch_sink = record_sink holds buffer publish note_drops drops
  for holds :: "'s \<Rightarrow> wire_record list \<Rightarrow> bool"
    and buffer :: "'s \<Rightarrow> wire_record"
    and publish :: "(wire_record \<Rightarrow> wire_record \<times> (('x option \<times> 'd) + 'd)) \<Rightarrow> 's \<Rightarrow> (('x option \<times> 'd) + 'd) \<times> 's"
    and note_drops :: "u64 \<Rightarrow> 's \<Rightarrow> 's"
    and drops :: "'s \<Rightarrow> u64"
begin

lemma publish_batch_publishes:
  assumes "decreasing \<mu> nxt" "holds s log" "Suc (length log + \<mu> d) < 2 ^ 64"
  shows "\<exists>rs e d' s'. yields nxt d rs e d' \<and> length rs \<le> \<mu> d \<and>
    publish_batch publish nxt d n s =
      Some (case e of None \<Rightarrow> Inr (n + length rs) | Some x \<Rightarrow> Inl x, d', s') \<and>
    holds s' (log @ stamp_from (length log) rs) \<and> drops s' = drops s"
  using assms(2,3)
proof (induction "\<mu> d" arbitrary: d n s log rule: less_induct)
  case less
  obtain d' r res where nxt: "nxt d (buffer s) = (d', r, res)"
    by (cases "nxt d (buffer s)")
  have room: "Suc (length log) < 2 ^ 64"
    using less.prems(2) by simp
  show ?case
  proof (cases res)
    case None
    then have "batch_fill nxt d (buffer s) = (r, Inl (None, d'))"
      by (simp add: batch_fill_def nxt)
    then obtain s' where s':
      "publish (batch_fill nxt d) s = (Inl (None, d'), s')" "drops s' = drops s" "holds s' log"
      using publish_spec [OF less.prems(1) room, of "batch_fill nxt d" r] by force
    then show ?thesis
      using spent [of nxt d] nxt None by (subst publish_batch.simps) force
  next
    case (Some out)
    show ?thesis
    proof (cases out)
      case (Inl e)
      then have "batch_fill nxt d (buffer s) = (r, Inl (Some e, d'))"
        by (simp add: batch_fill_def nxt Some)
      then obtain s' where s':
        "publish (batch_fill nxt d) s = (Inl (Some e, d'), s')" "drops s' = drops s" "holds s' log"
        using publish_spec [OF less.prems(1) room, of "batch_fill nxt d" r] by force
      then show ?thesis
        using refused [of nxt d] nxt Some Inl by (subst publish_batch.simps) force
    next
      case (Inr u)
      then have "batch_fill nxt d (buffer s) = (r, Inr d')"
        by (simp add: batch_fill_def nxt Some)
      then obtain s' where s':
        "publish (batch_fill nxt d) s = (Inr d', s')" "drops s' = drops s"
        "holds s' (log @ [set_seq (of_nat (length log)) r])"
        using publish_spec [OF less.prems(1) room, of "batch_fill nxt d" r] by force
      have dec: "\<mu> d' < \<mu> d"
        using assms(1) nxt Some Inr by (auto simp: decreasing_def)
      then have "Suc (length (log @ [set_seq (of_nat (length log)) r]) + \<mu> d') < 2 ^ 64"
        using less.prems(2) by simp
      from less.hyps [OF dec s'(3) this, of "n + 1"] obtain rs e d'' s'' where ih:
        "yields nxt d' rs e d''" "length rs \<le> \<mu> d'"
        "publish_batch publish nxt d' (n + 1) s' =
          Some (case e of None \<Rightarrow> Inr (n + 1 + length rs) | Some x \<Rightarrow> Inl x, d'', s'')"
        "holds s'' (log @ stamp_from (length log) (r # rs))" "drops s'' = drops s'"
        by auto
      have "yields nxt d (r # rs) e d''"
        using filled [OF _ ih(1)] nxt Some Inr by simp
      moreover have "publish_batch publish nxt d n s =
          Some (case e of None \<Rightarrow> Inr (n + length (r # rs)) | Some x \<Rightarrow> Inl x, d'', s'')"
        using ih(3) s'(1) by (subst publish_batch.simps) (simp split: option.splits)
      ultimately show ?thesis
        using ih(2,4,5) s'(2) dec
        by (intro exI [of _ "r # rs"] exI [of _ e] exI [of _ d''] exI [of _ s'']) simp
    qed
  qed
qed

end

subsection \<open>The ring as a sink\<close>

type_synonym ring_sink = "ring_producer \<times> mapped"

definition ring_sink_publish ::
    "(wire_record \<Rightarrow> wire_record \<times> ('e + 'a)) \<Rightarrow> ring_sink \<Rightarrow> ('e + 'a) \<times> ring_sink" where
  "ring_sink_publish fill s = ring_publish fill (fst s) (snd s)"

definition ring_sink_note_drops :: "u64 \<Rightarrow> ring_sink \<Rightarrow> ring_sink" where
  "ring_sink_note_drops n s = (fst s, ring_note_drops n (snd s))"

definition ring_sink_drops :: "ring_sink \<Rightarrow> u64" where
  "ring_sink_drops s = producer_drops (snd s)"

definition ring_buffer :: "ring_sink \<Rightarrow> wire_record" where
  "ring_buffer s = set_seq SEQ_IN_PROGRESS (slots (snd s) ! slot_index (p_next_seq (fst s)) (p_mask (fst s)))"

text \<open>The slot of the next sequence may hold anything; every other slot is as the channel says.\<close>

definition ring_holds :: "ring_sink \<Rightarrow> wire_record list \<Rightarrow> bool" where
  "ring_holds s log \<longleftrightarrow>
     (\<exists>r boot. ring_implements (fst s)
        (write_slot (slot_index (p_next_seq (fst s)) (p_mask (fst s))) (\<lambda>_. r) (snd s))
        \<lparr> ch_log = log, ch_damaged = True, ch_boot = boot \<rparr>)"

lemma holds_if_implements:
  assumes impl: "ring_implements p m ch"
  shows "ring_holds (p, m) (ch_log ch)"
proof -
  let ?n = "length (ch_log ch)" and ?cap = "unat (p_capacity p)"
  let ?r = "set_seq (of_nat (?n - ?cap) + 1) record_zeroed"
  have "rec_seq ?r \<noteq> of_nat (?n - ?cap)"
    by simp
  from failed_publish_implements [OF impl this] show ?thesis
    unfolding ring_holds_def fst_conv snd_conv ring_slot_index(1) [OF impl]
    by (intro exI [of _ ?r] exI [of _ "ch_boot ch"]) (cases ch, simp add: damage_def)
qed

lemma ring_holds_publish:
  assumes "ring_holds (p, m) log"
  shows "ring_publish fill p m =
    (case snd (fill (ring_buffer (p, m))) of
       Inl e \<Rightarrow> (Inl e, p, write_slot (slot_index (p_next_seq p) (p_mask p)) (\<lambda>_. fst (fill (ring_buffer (p, m)))) m)
     | Inr a \<Rightarrow> (Inr a, snd (ring_push (fst (fill (ring_buffer (p, m)))) p
          (write_slot (slot_index (p_next_seq p) (p_mask p)) (\<lambda>_. r) m))))"
proof -
  obtain q boot where impl: "ring_implements p
      (write_slot (slot_index (p_next_seq p) (p_mask p)) (\<lambda>_. q) m)
      \<lparr> ch_log = log, ch_damaged = True, ch_boot = boot \<rparr>"
    using assms by (auto simp: ring_holds_def)
  have i: "slot_index (p_next_seq p) (p_mask p) < length (slots m)"
    using ring_slot_index [OF impl] by simp
  define i where "i = slot_index (p_next_seq p) (p_mask p)"
  obtain r' x where fill: "fill (ring_buffer (p, m)) = (r', x)"
    by fastforce
  have buf: "set_seq SEQ_IN_PROGRESS (slots m ! i) = ring_buffer (p, m)"
    by (simp add: ring_buffer_def i_def)
  show ?thesis
    using i
    by (cases x) (simp_all add: ring_publish_def ring_push_def ring_slot_def slot_commit_def buf fill Let_def
      comp_def flip: i_def)
qed

lemma ring_holds_push:
  assumes "ring_holds (p, m) log" "Suc (length log) < 2 ^ 64"
  shows "ring_holds (snd (ring_push r p (write_slot (slot_index (p_next_seq p) (p_mask p)) (\<lambda>_. q) m)))
    (log @ [set_seq (of_nat (length log)) r])"
proof -
  let ?i = "slot_index (p_next_seq p) (p_mask p)"
  obtain q' boot where impl: "ring_implements p (write_slot ?i (\<lambda>_. q') m)
      \<lparr> ch_log = log, ch_damaged = True, ch_boot = boot \<rparr>"
    using assms(1) by (auto simp: ring_holds_def)
  have i: "?i < length (slots m)"
    using ring_slot_index [OF impl] by simp
  have "ring_push r p (write_slot ?i (\<lambda>_. q) m) = ring_push r p (write_slot ?i (\<lambda>_. q') m)"
    using i by (simp add: ring_push_def ring_slot_def slot_commit_def Let_def comp_def)
  then show ?thesis
    using holds_if_implements [OF push_implements [OF impl, of r]] assms(2)
    by (simp add: chan_push_def)
qed

lemma ring_holds_err:
  assumes "ring_holds (p, m) log"
  shows "ring_holds (p, write_slot (slot_index (p_next_seq p) (p_mask p)) (\<lambda>_. q) m) log"
proof -
  let ?i = "slot_index (p_next_seq p) (p_mask p)"
  obtain q' boot where impl: "ring_implements p (write_slot ?i (\<lambda>_. q') m)
      \<lparr> ch_log = log, ch_damaged = True, ch_boot = boot \<rparr>"
    using assms(1) by (auto simp: ring_holds_def)
  then have "?i < length (slots m)"
    using ring_slot_index [OF impl] by simp
  then show ?thesis
    using impl by (auto simp: ring_holds_def comp_def)
qed

lemma push_drops: "producer_drops (snd (snd (ring_push r p m))) = producer_drops m"
  by (simp add: ring_push_def ring_slot_def slot_commit_def Let_def producer_drops_def segment_publish_def)

lemma producer_drops_write_slot: "producer_drops (write_slot i f m) = producer_drops m"
  by (simp add: producer_drops_def)

lemma drops_write_slot: "ring_note_drops n (write_slot i f m) = write_slot i f (ring_note_drops n m)"
  by (simp add: ring_note_drops_def write_slot_def)

lemma note_drops_counts: "producer_drops (ring_note_drops n m) = producer_drops m + n"
  by (simp add: producer_drops_def ring_note_drops_def segment_note_drops_def)

interpretation ring: record_sink ring_holds ring_buffer
  "ring_sink_publish :: (wire_record \<Rightarrow> wire_record \<times> ('e + 'a)) \<Rightarrow> ring_sink \<Rightarrow> ('e + 'a) \<times> ring_sink"
  ring_sink_note_drops ring_sink_drops
proof
  fix s log r a and fill :: "wire_record \<Rightarrow> wire_record \<times> ('e + 'a)"
  assume "ring_holds s log" "Suc (length log) < 2 ^ 64" "fill (ring_buffer s) = (r, Inr a)"
  then show "fst (ring_sink_publish fill s) = Inr a \<and>
      ring_holds (snd (ring_sink_publish fill s)) (log @ [set_seq (word_of_nat (length log)) r]) \<and>
      ring_sink_drops (snd (ring_sink_publish fill s)) = ring_sink_drops s"
    using ring_holds_publish [of "fst s" "snd s" log fill undefined]
      ring_holds_push [of "fst s" "snd s" log r undefined]
    by (simp add: ring_sink_publish_def ring_sink_drops_def push_drops producer_drops_write_slot)
next
  fix s log r e and fill :: "wire_record \<Rightarrow> wire_record \<times> ('e + 'a)"
  assume "ring_holds s log" "fill (ring_buffer s) = (r, Inl e)"
  then show "fst (ring_sink_publish fill s) = Inl e \<and> ring_holds (snd (ring_sink_publish fill s)) log \<and>
      ring_sink_drops (snd (ring_sink_publish fill s)) = ring_sink_drops s"
    using ring_holds_publish [of "fst s" "snd s" log fill] ring_holds_err [of "fst s" "snd s" log r]
    by (simp add: ring_sink_publish_def ring_sink_drops_def producer_drops_def)
next
  fix s log n
  assume "ring_holds s log"
  then show "ring_holds (ring_sink_note_drops n s) log \<and>
      ring_sink_drops (ring_sink_note_drops n s) = ring_sink_drops s + n"
    using drops_implements drops_write_slot
    by (auto simp: ring_holds_def ring_sink_note_drops_def ring_sink_drops_def note_drops_counts) metis
qed

interpretation ring_batch: batch_sink ring_holds ring_buffer ring_sink_publish ring_sink_note_drops ring_sink_drops
  by unfold_locales

text \<open>
  What a filler that fails can leave behind: a record that bears the number of the one whose slot it took.
\<close>

definition impersonates :: "ring_producer \<Rightarrow> channel \<Rightarrow> wire_record \<Rightarrow> bool" where
  "impersonates p ch r \<longleftrightarrow>
     unat (p_capacity p) \<le> length (ch_log ch) \<and> rec_seq r = of_nat (length (ch_log ch) - unat (p_capacity p))"

text \<open>What consumers can get: a record is one of the log, the one at the consumer's position.\<close>

lemma consumer_reads_log:
  assumes "ring_implements p m ch" "reader_at c (p_capacity p) pos" "ring_try_recv c m out = (c', out', Record)"
  shows "snd pos < length (ch_log ch) \<and> out' = ch_log ch ! snd pos"
  using try_recv_step [OF assms(1,2), of out] assms(3)
  by (cases pos) (auto simp: chan_try_recv_def Let_def split: if_splits)

lemma ring_publish_channel:
  assumes impl: "ring_implements p m ch" and room: "Suc (length (ch_log ch)) < 2 ^ 64"
    and fill: "fill (ring_buffer (p, m)) = (r, x)"
  defines "ch' \<equiv> (case x of Inr _ \<Rightarrow> chan_push r ch | Inl _ \<Rightarrow> damage ch)"
  shows "\<exists>p' m'. ring_publish fill p m = (x, p', m') \<and> p_capacity p' = p_capacity p \<and>
    (\<not> (isl x \<and> impersonates p ch r) \<longrightarrow> ring_implements p' m' ch')"
proof -
  have buf: "set_seq SEQ_IN_PROGRESS (slots m ! (length (ch_log ch) mod unat (p_capacity p))) = ring_buffer (p, m)"
    by (simp add: ring_buffer_def ring_slot_index(1) [OF impl])
  show ?thesis
  proof (cases x)
    case (Inl e)
    then show ?thesis
      using failed_publish_implements [OF impl, of r] fill
      by (auto simp: ring_publish_eq [OF impl] buf ch'_def impersonates_def)
  next
    case (Inr a)
    have "p_capacity (fst (snd (ring_push r p m))) = p_capacity p"
      by (simp add: ring_push_def ring_slot_def slot_commit_def Let_def)
    then show ?thesis
      using push_implements [OF impl room, of r] fill Inr
      by (cases "ring_push r p m") (simp add: ring_publish_eq [OF impl] buf ch'_def)
  qed
qed

text \<open>
  C26. \<open>publish\<close> on the ring is all or nothing. When the filler succeeds the log of published records grows
  by exactly the record it left, stamped with the next sequence, and the caller gets \<open>Ok\<close>; when it fails the
  log is what it was and the caller gets the filler's error; neither touches the drop counter. No consumer,
  wherever it stands, then gets a record that is not the one at its position in that log; and the record just
  published is what a consumer that is up to date gets next. There is one exception, although \<open>RecordSink\<close>
  promises that nothing observes what a failing filler leaves: a filler that fails on a full ring after it has
  put into the sequence cell the very number of the record whose slot it took. What it left is then delivered
  as that record (\<open>Ring.abandoned_slot_delivered\<close>).
\<close>

theorem ring_publish_all_or_nothing:
  assumes "ring_implements p m ch" and "Suc (length (ch_log ch)) < 2 ^ 64" and "fill (ring_buffer (p, m)) = (r, x)"
  defines "log' \<equiv> (case x of Inr _ \<Rightarrow> ch_log ch @ [set_seq (of_nat (length (ch_log ch))) r] | Inl _ \<Rightarrow> ch_log ch)"
  shows "\<exists>p' m'. ring_publish fill p m = (x, p', m') \<and> producer_drops m' = producer_drops m \<and> ring_holds (p', m') log' \<and>
    (\<not> (isl x \<and> impersonates p ch r) \<longrightarrow>
       (\<forall>c pos out c' out'. reader_at c (p_capacity p) pos \<longrightarrow> ring_try_recv c m' out = (c', out', Record) \<longrightarrow>
          snd pos < length log' \<and> out' = log' ! snd pos) \<and>
       (\<forall>c out. \<not> isl x \<longrightarrow> reader_at c (p_capacity p) (ch_boot ch, length (ch_log ch)) \<longrightarrow>
          (\<exists>c'. ring_try_recv c m' out = (c', last log', Record))))"
proof -
  let ?ch = "case x of Inr _ \<Rightarrow> chan_push r ch | Inl _ \<Rightarrow> damage ch"
  obtain p' m' where run: "ring_publish fill p m = (x, p', m')" "p_capacity p' = p_capacity p"
    "\<not> (isl x \<and> impersonates p ch r) \<Longrightarrow> ring_implements p' m' ?ch"
    using ring_publish_channel [where fill = fill and r = r and x = x, OF assms(1-3)] by blast
  have log: "ch_log ?ch = log'"
    by (cases x) (simp_all add: log'_def chan_push_def damage_def)
  have "producer_drops m' = producer_drops m \<and> ring_holds (p', m') log'"
    using ring.publish_spec [OF holds_if_implements [OF assms(1)] assms(2), of fill r x] assms(3) run(1)
    by (simp add: ring_sink_publish_def ring_sink_drops_def log'_def)
  moreover have "snd pos < length log' \<and> out' = log' ! snd pos"
    if "\<not> (isl x \<and> impersonates p ch r)" "reader_at c (p_capacity p) pos" "ring_try_recv c m' out = (c', out', Record)"
    for c pos out c' out'
    using consumer_reads_log [OF run(3) [OF that(1)], of c pos out c' out'] that(2,3) run(2) log by simp
  moreover have "\<exists>c'. ring_try_recv c m' out = (c', last log', Record)"
    if new: "\<not> (isl x \<and> impersonates p ch r)" "\<not> isl x" "reader_at c (p_capacity p) (ch_boot ch, length (ch_log ch))" for c out
  proof -
    obtain a where x: "x = Inr a"
      using new(2) by (cases x) auto
    have "0 < unat (p_capacity p)"
      using assms(1) by (auto simp: ring_implements_def Let_def power_of_two_iff)
    then have next_: "snd (chan_try_recv (unat (p_capacity p)) (chan_push r ch) (ch_boot ch, length (ch_log ch))) = CRecord (last log')"
      by (simp add: chan_try_recv_def chan_push_def log'_def x nth_append)
    obtain c' out' reply where recv: "ring_try_recv c m' out = (c', out', reply)"
      by (rule prod_cases3)
    have "ring_implements p' m' (chan_push r ch)"
      using run(3) [OF new(1)] by (simp add: x)
    from try_recv_step [OF this, of c "(ch_boot ch, length (ch_log ch))" out] have "same_reply out' reply (CRecord (last log'))"
      using next_ new(3) run(2) recv by (auto simp: Let_def split: prod.splits)
    then have "reply = Record" "out' = last log'"
      by (cases reply; simp)+
    then show ?thesis
      using recv by simp
  qed
  ultimately show ?thesis
    using run(1) by blast
qed

lemma demo_holds:
  "ring_holds (demo_producer 4 0, demo_segment 7 0 [record_zeroed, record_zeroed, record_zeroed, record_zeroed]) []"
  using holds_if_implements [OF create_implements(1) [OF demo_create four_slots_ok]] by (simp add: fresh_def)

theorem ring_publish_all_or_nothing_witness:
  "\<exists>p' m' c'. ring_publish (\<lambda>_. (record_zeroed, Inr () :: unit + unit)) (demo_producer 4 0)
      (demo_segment 7 0 [record_zeroed, record_zeroed, record_zeroed, record_zeroed]) = (Inr (), p', m') \<and>
    ring_holds (p', m') [set_seq 0 record_zeroed] \<and>
    ring_try_recv (demo_consumer 4 7 0) m' record_zeroed = (c', set_seq 0 record_zeroed, Record)"
proof -
  have at: "reader_at (demo_consumer 4 7 0) (p_capacity (demo_producer 4 0)) (ch_boot (fresh 7), length (ch_log (fresh 7)))"
    by (simp add: reader_at_def demo_consumer_def demo_producer_def fresh_def)
  show ?thesis
    using ring_publish_all_or_nothing [OF create_implements(1) [OF demo_create four_slots_ok], of
        "\<lambda>_. (record_zeroed, Inr () :: unit + unit)" record_zeroed "Inr ()"] at
    by (simp add: fresh_def) metis
qed

text \<open>
  C34. A batch of prints on the ring: for a decoder whose state shrinks with every print it yields,
  \<open>publish_batch\<close> returns; the records it publishes are the prints the decoder yielded, in order,
  each under its own sequence; a batch that ends returns how many they are, and the first refused
  print ends it with the refusal while the prints before it stay published.
\<close>

theorem publish_batch_on_ring:
  assumes "decreasing \<mu> nxt" and "ring_holds s log" and "Suc (length log + \<mu> d) < 2 ^ 64"
  shows "\<exists>rs e d' s'. yields nxt d rs e d' \<and> length rs \<le> \<mu> d \<and>
    publish_batch ring_sink_publish nxt d n s =
      Some (case e of None \<Rightarrow> Inr (n + length rs) | Some x \<Rightarrow> Inl x, d', s') \<and>
    ring_holds s' (log @ stamp_from (length log) rs) \<and> ring_sink_drops s' = ring_sink_drops s"
  by (rule ring_batch.publish_batch_publishes [OF assms])


text \<open>A decoder whose state is the list of prints left.\<close>

fun list_decoder :: "wire_record list \<Rightarrow> wire_record \<Rightarrow> wire_record list \<times> wire_record \<times> (unit + unit) option" where
  "list_decoder [] buf = ([], buf, None)"
| "list_decoder (r # rs) buf = (rs, r, Some (Inr ()))"

inductive_simps yields_nil: "yields list_decoder [] rs e d'"
inductive_simps yields_cons: "yields list_decoder (x # xs) rs e d'"

lemma list_decoder_yields: "yields list_decoder d rs e d' \<longleftrightarrow> rs = d \<and> e = None \<and> d' = []"
  by (induction d arbitrary: rs) (auto simp: yields_nil yields_cons)

lemma list_decoder_decreasing: "decreasing length list_decoder"
  by (auto simp: decreasing_def elim: list_decoder.elims)

theorem publish_batch_on_ring_witness:
  "\<exists>s'. publish_batch ring_sink_publish list_decoder [record_zeroed, record_zeroed] 0
      (demo_producer 4 0, demo_segment 7 0 [record_zeroed, record_zeroed, record_zeroed, record_zeroed]) =
      Some (Inr 2, [], s') \<and>
    ring_holds s' [set_seq 0 record_zeroed, set_seq 1 record_zeroed]"
  using publish_batch_on_ring [OF list_decoder_decreasing demo_holds, of "[record_zeroed, record_zeroed]" 0]
  by (auto simp: list_decoder_yields)

end
