(* ===== verification/Rust_Text.thy ===== *)
theory Rust_Text
  imports Jeed_Base
begin

text \<open>
  The string operations of the standard library that the configuration readers call. A \<open>str\<close> is the list
  of its characters, each its Unicode scalar value; \<open>utf8\<close> gives the bytes behind it.
\<close>

type_synonym chars = "nat list"

text \<open>The characters of a literal.\<close>

definition lit :: "string \<Rightarrow> chars" where
  "lit s = map of_char s"

text \<open>A literal of bytes.\<close>

definition str :: "string \<Rightarrow> bytes" where
  "str s = map of_char s"

definition utf8_char :: "nat \<Rightarrow> bytes" where
  "utf8_char c =
     (if c < 0x80 then [word_of_nat c]
      else if c < 0x800 then [word_of_nat (0xC0 + c div 0x40), word_of_nat (0x80 + c mod 0x40)]
      else if c < 0x10000 then
        [word_of_nat (0xE0 + c div 0x1000), word_of_nat (0x80 + c div 0x40 mod 0x40), word_of_nat (0x80 + c mod 0x40)]
      else
        [word_of_nat (0xF0 + c div 0x40000), word_of_nat (0x80 + c div 0x1000 mod 0x40),
         word_of_nat (0x80 + c div 0x40 mod 0x40), word_of_nat (0x80 + c mod 0x40)])"

definition utf8 :: "chars \<Rightarrow> bytes" where
  "utf8 s = concat (map utf8_char s)"

text \<open>\<open>char::is\_whitespace\<close>: the property \<open>White\_Space\<close>.\<close>

definition is_whitespace :: "nat \<Rightarrow> bool" where
  "is_whitespace c \<longleftrightarrow>
     9 \<le> c \<and> c \<le> 13 \<or> c = 0x20 \<or> c = 0x85 \<or> c = 0xA0 \<or> c = 0x1680 \<or> 0x2000 \<le> c \<and> c \<le> 0x200A \<or>
     c = 0x2028 \<or> c = 0x2029 \<or> c = 0x202F \<or> c = 0x205F \<or> c = 0x3000"

definition trim_start :: "chars \<Rightarrow> chars" where
  "trim_start = dropWhile is_whitespace"

definition trim :: "chars \<Rightarrow> chars" where
  "trim s = rev (trim_start (rev (trim_start s)))"

text \<open>\<open>split\_once\<close> and \<open>rsplit\_once\<close> at a character, \<open>strip\_prefix\<close> of one, and \<open>split\<close> at one.\<close>

definition split_once :: "'a \<Rightarrow> 'a list \<Rightarrow> ('a list \<times> 'a list) option" where
  "split_once c s =
     (case dropWhile (\<lambda>d. d \<noteq> c) s of [] \<Rightarrow> None | _ # tail \<Rightarrow> Some (takeWhile (\<lambda>d. d \<noteq> c) s, tail))"

definition rsplit_once :: "nat \<Rightarrow> chars \<Rightarrow> (chars \<times> chars) option" where
  "rsplit_once c s = map_option (\<lambda>(tail, head). (rev head, rev tail)) (split_once c (rev s))"

fun strip_char :: "nat \<Rightarrow> chars \<Rightarrow> chars option" where
  "strip_char c [] = None"
| "strip_char c (d # s) = (if d = c then Some s else None)"

fun split_at_char :: "'a \<Rightarrow> 'a list \<Rightarrow> 'a list list" where
  "split_at_char c [] = [[]]"
| "split_at_char c (d # s) =
     (if d = c then [] # split_at_char c s
      else case split_at_char c s of [] \<Rightarrow> [[d]] | w # ws \<Rightarrow> (d # w) # ws)"

text \<open>
  \<open>lines\<close>: the pieces that line feeds end, each without the carriage return before its line feed, and
  the last piece when it is not empty.
\<close>

definition strip_return :: "chars \<Rightarrow> chars" where
  "strip_return s = (if s \<noteq> [] \<and> last s = 13 then butlast s else s)"

definition str_lines :: "chars \<Rightarrow> chars list" where
  "str_lines s =
     (let ws = split_at_char 10 s
      in map strip_return (butlast ws) @ (if last ws = [] then [] else [last ws]))"

text \<open>\<open>u16::from\_str\<close>: digits after at most one plus sign, and a value that fits.\<close>

definition char_digit :: "nat \<Rightarrow> bool" where
  "char_digit c \<longleftrightarrow> 48 \<le> c \<and> c \<le> 57"

definition chars_value :: "chars \<Rightarrow> nat" where
  "chars_value = foldl (\<lambda>v c. v * 10 + (c - 48)) 0"

definition parse_unsigned :: "nat \<Rightarrow> chars \<Rightarrow> nat option" where
  "parse_unsigned bound s =
     (let ds = (case s of c # tail \<Rightarrow> if c = 43 then tail else s | [] \<Rightarrow> [])
      in if ds \<noteq> [] \<and> list_all char_digit ds \<and> chars_value ds < bound then Some (chars_value ds) else None)"

fun dec_chars :: "nat \<Rightarrow> chars" where
  "dec_chars n = (if n < 10 then [48 + n] else dec_chars (n div 10) @ [48 + n mod 10])"

declare dec_chars.simps [simp del]

subsection \<open>What they do\<close>

lemma dec_chars_spec: "list_all char_digit (dec_chars n) \<and> chars_value (dec_chars n) = n \<and> dec_chars n \<noteq> []"
proof (induction n rule: dec_chars.induct)
  case (1 n)
  show ?case
  proof (cases "n < 10")
    case True
    then show ?thesis
      by (simp add: dec_chars.simps [of n] chars_value_def char_digit_def)
  next
    case False
    have "char_digit (48 + n mod 10)"
      by (simp add: char_digit_def)
    then show ?thesis
      using 1 [OF False] False by (simp add: dec_chars.simps [of n] chars_value_def)
  qed
qed

lemma parse_unsigned_dec: "n < bound \<Longrightarrow> parse_unsigned bound (dec_chars n) = Some n"
proof -
  assume "n < bound"
  obtain c tail where d: "dec_chars n = c # tail"
    using dec_chars_spec [of n] by (meson neq_Nil_conv)
  then have "c \<noteq> 43"
    using dec_chars_spec [of n] by (auto simp: char_digit_def)
  then show ?thesis
    using dec_chars_spec [of n] \<open>n < bound\<close> by (simp add: parse_unsigned_def d)
qed

lemma split_once_append: "c \<notin> set s \<Longrightarrow> split_once c (s @ c # tail) = Some (s, tail)"
  by (induction s) (auto simp: split_once_def split: list.splits)

lemma split_once_None: "split_once c s = None \<longleftrightarrow> c \<notin> set s"
proof -
  have "dropWhile (\<lambda>d. d \<noteq> c) s = [] \<longleftrightarrow> c \<notin> set s"
    by (auto simp: dropWhile_eq_Nil_conv)
  then show ?thesis
    unfolding split_once_def by (cases "dropWhile (\<lambda>d. d \<noteq> c) s") (simp_all del: dropWhile_eq_Nil_conv)
qed

lemma split_once_Some: "split_once c s = Some (a, b) \<longleftrightarrow> s = a @ c # b \<and> c \<notin> set a"
proof
  assume "split_once c s = Some (a, b)"
  then obtain d where "dropWhile (\<lambda>d. d \<noteq> c) s = d # b" "a = takeWhile (\<lambda>d. d \<noteq> c) s"
    by (auto simp: split_once_def split: list.splits)
  moreover from this have "d = c"
    by (metis (mono_tags, lifting) hd_dropWhile list.sel(1) list.simps(3))
  ultimately show "s = a @ c # b \<and> c \<notin> set a"
    by (metis (mono_tags, lifting) set_takeWhileD takeWhile_dropWhile_id)
qed (simp add: split_once_append)

lemma rsplit_once_append: "c \<notin> set tail \<Longrightarrow> rsplit_once c (s @ c # tail) = Some (s, tail)"
  using split_once_append [of c "rev tail" "rev s"] by (simp add: rsplit_once_def)

lemma trim_fixed: "s \<noteq> [] \<Longrightarrow> \<not> is_whitespace (hd s) \<Longrightarrow> \<not> is_whitespace (last s) \<Longrightarrow> trim s = s"
proof -
  have drop: "s \<noteq> [] \<Longrightarrow> \<not> is_whitespace (hd s) \<Longrightarrow> trim_start s = s" for s
    by (cases s) (simp_all add: trim_start_def)
  assume "s \<noteq> []" "\<not> is_whitespace (hd s)" "\<not> is_whitespace (last s)"
  then show ?thesis
    by (simp add: trim_def drop hd_rev)
qed

lemma trim_clean:
  assumes "\<forall>c\<in>set s. \<not> is_whitespace c"
  shows "trim s = s"
proof (cases "s = []")
  case False
  then show ?thesis
    using assms trim_fixed [OF False] hd_in_set [OF False] last_in_set [OF False] by blast
qed (simp add: trim_def trim_start_def)

lemma split_at_char_nonempty [simp]: "split_at_char c s \<noteq> []"
  by (induction s) (auto split: list.split)

lemma split_at_char_clean: "c \<notin> set s \<Longrightarrow> split_at_char c s = [s]"
  by (induction s) auto

lemma split_at_char_append: "c \<notin> set s \<Longrightarrow> split_at_char c (s @ c # tail) = s # split_at_char c tail"
  by (induction s) auto

lemma str_lines_line: "10 \<notin> set s \<Longrightarrow> s = [] \<or> last s \<noteq> 13 \<Longrightarrow> str_lines (s @ 10 # tail) = s # str_lines tail"
  by (auto simp: str_lines_def split_at_char_append strip_return_def Let_def)

lemma str_lines_Nil [simp]: "str_lines [] = []"
  by (simp add: str_lines_def)

lemma utf8_append: "utf8 (s @ t) = utf8 s @ utf8 t"
  by (simp add: utf8_def)

end
