(* ===== verification/Fix_Tagvalue.thy ===== *)
theory Fix_Tagvalue
  imports Wire_Types Integer_Parser
begin

text \<open>
  Tag-value scanning and the value parsers of the FIX crate (jeed-fix tagvalue.rs, error.rs): one
  field off the head of a body, the iterator over a body, unsigned integers, decimals on an explicit
  scale, UTC dates and times, and the classification of \<open>MsgType\<close>.

  A body is a byte string and the iterator the pair of it and the offset of its next field. Tags are
  \<open>u32\<close>, values stay byte strings. Every slice of this file is taken under the length test that
  precedes it, so it is written with \<open>take\<close> and \<open>drop\<close>.
\<close>

subsection \<open>Errors and fields\<close>

definition SOH :: u8 where "SOH = 0x01"

datatype fix_error =
    Incomplete
  | BeginString
  | BodyLength u32
  | Trailer
  | CheckSum u8 u8
  | BadField u32
  | MissingTag u32
  | BadValue u32
  | Precision u32
  | UnexpectedMsgType u8
  | TooManyEntries u32 u32
  | EntryCount u32 u32
  | GroupTagOutsideEntry u32
  | UnknownUpdateAction u8

record field =
  f_tag :: u32
  f_value :: bytes

text \<open>\<open>ok_or\<close>: an absent value becomes the error.\<close>

definition ok_or :: "'e \<Rightarrow> 'a option \<Rightarrow> 'e + 'a" where
  "ok_or e v = (case v of None \<Rightarrow> Inl e | Some x \<Rightarrow> Inr x)"

text \<open>\<open>iter().position(|b| b == c)\<close>.\<close>

fun position :: "u8 \<Rightarrow> bytes \<Rightarrow> nat option" where
  "position c [] = None"
| "position c (b # bs) = (if b = c then Some 0 else map_option Suc (position c bs))"

lemma position_None [simp]: "position c bs = None \<longleftrightarrow> c \<notin> set bs"
  by (induction bs) auto

lemma position_Some: "position c bs = Some i \<longleftrightarrow> i < length bs \<and> bs ! i = c \<and> c \<notin> set (take i bs)"
proof (induction bs arbitrary: i)
  case (Cons b bs)
  show ?case
    by (cases i) (auto simp: Cons.IH)
qed simp

lemma position_append [simp]: "c \<notin> set xs \<Longrightarrow> position c (xs @ c # ys) = Some (length xs)"
  by (induction xs) auto

lemma position_extend: "position c xs = Some i \<Longrightarrow> position c (xs @ ys) = Some i"
  by (auto simp: position_Some nth_append)

subsection \<open>Unsigned integers\<close>

fun fix_digits :: "u64 \<Rightarrow> bytes \<Rightarrow> u64 option" where
  "fix_digits v [] = Some v"
| "fix_digits v (b # bs) =
     (let d = b - 0x30 in if d > 9 then None else fix_digits (v * 10 + ucast d) bs)"

definition fix_parse_u64 :: "bytes \<Rightarrow> u64 option" where
  "fix_parse_u64 bs = (if bs = [] \<or> length bs > 19 then None else fix_digits 0 bs)"

subsection \<open>Decimals\<close>

datatype decimal_error = Malformed | TooPrecise

text \<open>\<open>checked_mul(10)\<close> and \<open>checked_add(d)\<close> of \<open>i64\<close>.\<close>

definition i64_range :: "int \<Rightarrow> bool" where
  "i64_range n \<longleftrightarrow> - (2 ^ 63) \<le> n \<and> n < 2 ^ 63"

definition i64_checked_mul :: "i64 \<Rightarrow> i64 \<Rightarrow> i64 option" where
  "i64_checked_mul x y = (if i64_range (sint x * sint y) then Some (x * y) else None)"

definition i64_checked_add :: "i64 \<Rightarrow> i64 \<Rightarrow> i64 option" where
  "i64_checked_add x y = (if i64_range (sint x + sint y) then Some (x + y) else None)"

text \<open>One digit appended to the value read so far.\<close>

definition push_digit :: "i64 \<Rightarrow> u8 \<Rightarrow> decimal_error + i64" where
  "push_digit v d =
     ok_or Malformed (Option.bind (i64_checked_mul v 10) (\<lambda>x. i64_checked_add x (ucast d)))"

text \<open>The three loops of \<open>parse_scaled_decimal\<close>: integer digits, fraction digits, scaling zeros.\<close>

fun scaled_int :: "i64 \<Rightarrow> bytes \<Rightarrow> decimal_error + i64" where
  "scaled_int v [] = Inr v"
| "scaled_int v (b # bs) =
     (let d = b - 0x30
      in if d > 9 then Inl Malformed else and_then (push_digit v d) (\<lambda>v. scaled_int v bs))"

fun scaled_frac :: "nat \<Rightarrow> nat \<Rightarrow> i64 \<Rightarrow> bytes \<Rightarrow> decimal_error + (nat \<times> i64)" where
  "scaled_frac decimals used v [] = Inr (used, v)"
| "scaled_frac decimals used v (b # bs) =
     (let d = b - 0x30
      in if d > 9 then Inl Malformed
         else if used < decimals
         then and_then (push_digit v d) (\<lambda>v. scaled_frac decimals (used + 1) v bs)
         else if d \<noteq> 0 then Inl TooPrecise
         else scaled_frac decimals used v bs)"

fun scaled_pad :: "nat \<Rightarrow> i64 \<Rightarrow> decimal_error + i64" where
  "scaled_pad 0 v = Inr v"
| "scaled_pad (Suc n) v = and_then (ok_or Malformed (i64_checked_mul v 10)) (scaled_pad n)"

definition parse_scaled_decimal :: "bytes \<Rightarrow> scale \<Rightarrow> decimal_error + i64" where
  "parse_scaled_decimal bs scale =
     (let (negative, ds) = (case bs of [] \<Rightarrow> (False, bs) | b # rest \<Rightarrow> if b = 0x2D then (True, rest) else (False, bs))
      in if ds = [] then Inl Malformed else
         let (int_part, frac_part) =
               (case position 0x2E ds of Some i \<Rightarrow> (take i ds, drop (i + 1) ds) | None \<Rightarrow> (ds, []))
         in if int_part = [] \<and> frac_part = [] then Inl Malformed else
            let decimals = unat (scale_decimals scale)
            in and_then (scaled_int 0 int_part) (\<lambda>v.
               and_then (scaled_frac decimals 0 v frac_part) (\<lambda>(used, v).
               and_then (scaled_pad (decimals - used) v) (\<lambda>v.
               Inr (if negative then - v else v)))))"

subsection \<open>Dates and times\<close>

definition FIX_NS_PER_SEC :: u64 where "FIX_NS_PER_SEC = 1000000000"

text \<open>
  Days since 1970-01-01. The arguments of the parser have at most four, two and two digits, so no
  step leaves \<open>i64\<close>; integers stand for its values and \<open>sdiv\<close> is Rust's division.
\<close>

definition days_from_civil :: "int \<Rightarrow> int \<Rightarrow> int \<Rightarrow> int" where
  "days_from_civil y m d =
     (let y = (if m \<le> 2 then y - 1 else y);
          era = (if y \<ge> 0 then y else y - 399) sdiv 400;
          yoe = y - era * 400;
          mp = (m + 9) smod 12;
          doy = (153 * mp + 2) sdiv 5 + d - 1;
          doe = yoe * 365 + yoe sdiv 4 - yoe sdiv 100 + doy
      in era * 146097 + doe - 719468)"

definition u64_checked_mul :: "u64 \<Rightarrow> u64 \<Rightarrow> u64 option" where
  "u64_checked_mul x y = (if unat x * unat y < 2 ^ 64 then Some (x * y) else None)"

definition parse_utc_date :: "bytes \<Rightarrow> u64 option" where
  "parse_utc_date bs =
     (if length bs \<noteq> 8 then None else
      Option.bind (fix_parse_u64 (take 4 bs)) (\<lambda>y.
      Option.bind (fix_parse_u64 (take 2 (drop 4 bs))) (\<lambda>m.
      Option.bind (fix_parse_u64 (take 2 (drop 6 bs))) (\<lambda>d.
        if \<not> (1 \<le> m \<and> m \<le> 12) \<or> \<not> (1 \<le> d \<and> d \<le> 31) then None else
        let days = days_from_civil (uint y) (uint m) (uint d)
        in if days < 0 then None else
           Option.bind (u64_checked_mul (word_of_int days) 86400) (\<lambda>secs.
           u64_checked_mul secs FIX_NS_PER_SEC)))))"

definition parse_utc_time :: "bytes \<Rightarrow> u64 option" where
  "parse_utc_time bs =
     (if length bs < 8 \<or> bs ! 2 \<noteq> 0x3A \<or> bs ! 5 \<noteq> 0x3A then None else
      Option.bind (fix_parse_u64 (take 2 bs)) (\<lambda>h.
      Option.bind (fix_parse_u64 (take 2 (drop 3 bs))) (\<lambda>m.
      Option.bind (fix_parse_u64 (take 2 (drop 6 bs))) (\<lambda>s.
        if h > 23 \<or> m > 59 \<or> s > 60 then None else
        Option.bind
          (case drop 8 bs of
             [] \<Rightarrow> Some 0
           | b # frac \<Rightarrow>
               if b = 0x2E \<and> frac \<noteq> [] \<and> length frac \<le> 9
               then map_option (\<lambda>v. v * 10 ^ (9 - length frac)) (fix_parse_u64 frac)
               else None)
          (\<lambda>frac_ns. Some ((h * 3600 + m * 60 + s) * FIX_NS_PER_SEC + frac_ns))))))"

definition parse_utc_timestamp :: "bytes \<Rightarrow> u64 option" where
  "parse_utc_timestamp bs =
     (if length bs < 17 \<or> bs ! 8 \<noteq> 0x2D then None else
      Option.bind (parse_utc_date (take 8 bs)) (\<lambda>date.
      Option.bind (parse_utc_time (drop 9 bs)) (\<lambda>time. Some (date + time))))"

subsection \<open>The accessors of a field\<close>

definition field_first_byte :: "field \<Rightarrow> fix_error + u8" where
  "field_first_byte f = (case f_value f of [b] \<Rightarrow> Inr b | _ \<Rightarrow> Inl (BadValue (f_tag f)))"

definition field_as_u64 :: "field \<Rightarrow> fix_error + u64" where
  "field_as_u64 f = ok_or (BadValue (f_tag f)) (fix_parse_u64 (f_value f))"

definition field_as_u32 :: "field \<Rightarrow> fix_error + u32" where
  "field_as_u32 f =
     and_then (field_as_u64 f) (\<lambda>v. if unat v < 2 ^ 32 then Inr (ucast v) else Inl (BadValue (f_tag f)))"

definition field_as_scaled :: "scale \<Rightarrow> field \<Rightarrow> fix_error + i64" where
  "field_as_scaled scale f =
     (case parse_scaled_decimal (f_value f) scale of
        Inr v \<Rightarrow> Inr v
      | Inl TooPrecise \<Rightarrow> Inl (Precision (f_tag f))
      | Inl Malformed \<Rightarrow> Inl (BadValue (f_tag f)))"

definition field_as_scaled_unsigned :: "scale \<Rightarrow> field \<Rightarrow> fix_error + u64" where
  "field_as_scaled_unsigned scale f =
     and_then (field_as_scaled scale f) (\<lambda>v. if 0 \<le> sint v then Inr v else Inl (BadValue (f_tag f)))"

definition field_as_utc_timestamp :: "field \<Rightarrow> fix_error + u64" where
  "field_as_utc_timestamp f = ok_or (BadValue (f_tag f)) (parse_utc_timestamp (f_value f))"

definition field_as_utc_date :: "field \<Rightarrow> fix_error + u64" where
  "field_as_utc_date f = ok_or (BadValue (f_tag f)) (parse_utc_date (f_value f))"

definition field_as_utc_time :: "field \<Rightarrow> fix_error + u64" where
  "field_as_utc_time f = ok_or (BadValue (f_tag f)) (parse_utc_time (f_value f))"

definition field_is_yes :: "field \<Rightarrow> bool" where
  "field_is_yes f \<longleftrightarrow> f_value f = [0x59]"

subsection \<open>Splitting a body into fields\<close>

definition split_field :: "bytes \<Rightarrow> (field \<times> nat) option" where
  "split_field bs =
     Option.bind (position 0x3D bs) (\<lambda>eq.
       if eq = 0 \<or> eq > 10 then None else
       Option.bind (fix_parse_u64 (take eq bs)) (\<lambda>tag.
         if unat tag < 2 ^ 32 then
           let after = drop (eq + 1) bs
           in Option.bind (position SOH after) (\<lambda>stop.
                Some (\<lparr> f_tag = ucast tag, f_value = take stop after \<rparr>, eq + 1 + stop + 1))
         else None))"

record fields_iter =
  fi_body :: bytes
  fi_pos :: nat

definition fields_new :: "bytes \<Rightarrow> fields_iter" where
  "fields_new body = \<lparr> fi_body = body, fi_pos = 0 \<rparr>"

definition fields_rest :: "fields_iter \<Rightarrow> bytes" where
  "fields_rest it = drop (min (fi_pos it) (length (fi_body it))) (fi_body it)"

definition fields_next :: "fields_iter \<Rightarrow> (fix_error + field) option \<times> fields_iter" where
  "fields_next it =
     (let rest = fields_rest it
      in if rest = [] then (None, it)
         else case split_field rest of
           Some (f, consumed) \<Rightarrow> (Some (Inr f), it\<lparr> fi_pos := fi_pos it + consumed \<rparr>)
         | None \<Rightarrow> (Some (Inl (BadField (word_of_nat (fi_pos it)))), it\<lparr> fi_pos := length (fi_body it) \<rparr>))"

text \<open>The iterator advances at every field, so a loop over it ends.\<close>

lemma split_field_consumes:
  "split_field bs = Some (f, n) \<Longrightarrow> 0 < n \<and> n \<le> length bs"
  by (auto simp: split_field_def position_Some bind_eq_Some_conv Let_def split: if_splits)

lemma fields_next_decreases:
  "fields_next it = (Some r, it') \<Longrightarrow> length (fields_rest it') < length (fields_rest it)"
  by (auto simp: fields_next_def fields_rest_def Let_def split: if_splits option.splits
      dest!: split_field_consumes)

text \<open>\<open>for field in fields \{ let field = field?; \<dots> \}\<close>: the body of the loop is \<open>step\<close>.\<close>

function for_fields :: "(field \<Rightarrow> 'a \<Rightarrow> fix_error + 'a) \<Rightarrow> fields_iter \<Rightarrow> 'a \<Rightarrow> fix_error + 'a" where
  "for_fields step it acc =
     (case fields_next it of
        (None, it') \<Rightarrow> Inr acc
      | (Some (Inl e), it') \<Rightarrow> Inl e
      | (Some (Inr f), it') \<Rightarrow> and_then (step f acc) (\<lambda>acc. for_fields step it' acc))"
  by pat_completeness auto
termination
  by (relation "measure (\<lambda>(step, it, acc). length (fields_rest it))") (auto intro: fields_next_decreases [OF sym])

declare for_fields.simps [simp del]

lemma for_fields_invariant:
  assumes "for_fields step it acc = Inr r" and "I acc"
    and "\<And>f acc acc'. I acc \<Longrightarrow> step f acc = Inr acc' \<Longrightarrow> I acc'"
  shows "I r"
  using assms
proof (induction step it acc rule: for_fields.induct)
  case (1 step it acc)
  obtain res it' where n: "fields_next it = (res, it')"
    by fastforce
  show ?case
  proof (cases res)
    case None
    then show ?thesis
      using "1.prems"(1,2) n by (simp add: for_fields.simps)
  next
    case (Some x)
    then obtain f acc' where f: "x = Inr f" "step f acc = Inr acc'" "for_fields step it' acc' = Inr r"
      using "1.prems"(1) n by (cases x) (auto simp: for_fields.simps [of step it] and_then_Inr_iff)
    show ?thesis
      using "1.IH" [OF n [symmetric] Some f(1,2,3) "1.prems"(3) [OF "1.prems"(2) f(2)] "1.prems"(3)] .
  qed
qed

subsection \<open>Message types\<close>

datatype msg_type =
    MtHeartbeat | TestRequest | ResendRequest | MtReject | SequenceReset | Logout | Logon
  | MarketDataRequest | MarketDataSnapshot | MarketDataIncremental | MarketDataRequestReject
  | OtherType u8

definition msg_type_from_value :: "bytes \<Rightarrow> msg_type" where
  "msg_type_from_value value =
     (if value = [0x30] then MtHeartbeat
      else if value = [0x31] then TestRequest
      else if value = [0x32] then ResendRequest
      else if value = [0x33] then MtReject
      else if value = [0x34] then SequenceReset
      else if value = [0x35] then Logout
      else if value = [0x41] then Logon
      else if value = [0x56] then MarketDataRequest
      else if value = [0x57] then MarketDataSnapshot
      else if value = [0x58] then MarketDataIncremental
      else if value = [0x59] then MarketDataRequestReject
      else case value of first # _ \<Rightarrow> OtherType first | [] \<Rightarrow> OtherType 0)"

definition is_market_data :: "msg_type \<Rightarrow> bool" where
  "is_market_data t \<longleftrightarrow> t = MarketDataSnapshot \<or> t = MarketDataIncremental"

definition is_admin :: "msg_type \<Rightarrow> bool" where
  "is_admin t \<longleftrightarrow> t = MtHeartbeat \<or> t = TestRequest \<or> t = ResendRequest \<or> t = MtReject
     \<or> t = SequenceReset \<or> t = Logout \<or> t = Logon"

subsection \<open>What the number parsers compute\<close>

lemma digit_test: "b - 0x30 > 9 \<longleftrightarrow> \<not> is_digit (b :: u8)"
  by (auto simp: is_digit_def word_le_nat_alt word_less_nat_alt unat_sub_if')

lemma digit_ucast:
  assumes b: "is_digit b"
  shows "ucast (b - 0x30 :: u8) = (word_of_nat (unat b mod 16) :: 'a::len word)"
proof -
  have "unat (b - 0x30) = unat b - 48"
    using b by (simp add: is_digit_def word_le_nat_alt unat_sub)
  then have "unat (b - 0x30) = unat b mod 16"
    unfolding digit_nibble [OF b] .
  then show ?thesis
    by (metis of_nat_unat)
qed

lemma fix_digits_eq:
  "fix_digits v bs = (if digits bs then Some (v * 10 ^ length bs + word_of_nat (dec_value bs)) else None)"
proof (induction bs arbitrary: v)
  case (Cons b bs)
  show ?case
    by (auto simp: Let_def digit_test digit_ucast Cons.IH dec_value_Cons algebra_simps)
qed simp

lemma fix_parse_u64_eq:
  "fix_parse_u64 bs =
     (if bs \<noteq> [] \<and> length bs \<le> 19 \<and> digits bs then Some (word_of_nat (dec_value bs)) else None)"
  by (auto simp: fix_parse_u64_def fix_digits_eq)

lemma unat_u64: "n < 2 ^ 64 \<Longrightarrow> unat (word_of_nat n :: u64) = n"
  by (simp add: unsigned_of_nat take_bit_nat_eq_self)

lemma dec_value_u64: "digits bs \<Longrightarrow> length bs \<le> 19 \<Longrightarrow> dec_value bs < 2 ^ 64 - 1"
  using dec_value_less [of bs] power_increasing [of "length bs" 19 "10::nat"] by simp

lemma unat_fix_parse_u64: "fix_parse_u64 bs = Some v \<Longrightarrow> unat v = dec_value bs"
  by (auto simp: fix_parse_u64_eq intro!: unat_u64 split: if_splits dest!: dec_value_u64)

text \<open>A step of the decimal loops on a value read so far.\<close>

lemma sint_i64: "n < 2 ^ 63 \<Longrightarrow> sint (word_of_nat n :: i64) = int n"
  by (rule sint_word_of_nat) simp

lemma checked_times_ten:
  assumes "n < 2 ^ 63"
  shows "i64_checked_mul (word_of_nat n) 10 =
    (if n * 10 < 2 ^ 63 then Some (word_of_nat (n * 10)) else None)"
proof -
  have "sint (word_of_nat n :: i64) * sint (10 :: i64) = int (n * 10)"
    using sint_i64 [OF assms] sint_i64 [of 10] by simp
  then show ?thesis
    by (simp add: i64_checked_mul_def i64_range_def)
qed

lemma push_digit_eq:
  assumes "n < 2 ^ 63" and "is_digit b"
  shows "push_digit (word_of_nat n) (b - 0x30) =
    (if n * 10 + unat b mod 16 < 2 ^ 63 then Inr (word_of_nat (n * 10 + unat b mod 16)) else Inl Malformed)"
proof (cases "n * 10 < 2 ^ 63")
  case True
  have "sint (word_of_nat (n * 10) :: i64) + sint (word_of_nat (unat b mod 16) :: i64) =
      int (n * 10 + unat b mod 16)"
    using digit_nibble_le [OF assms(2)] by (simp add: sint_i64 [OF True] sint_i64 del: of_nat_mult)
  then show ?thesis
    using True assms
    by (simp add: push_digit_def checked_times_ten ok_or_def digit_ucast i64_checked_add_def i64_range_def
        del: of_nat_mult)
next
  case False
  then show ?thesis
    using assms by (simp add: push_digit_def checked_times_ten ok_or_def)
qed

lemma value_grows:
  assumes "m * 10 ^ k + (d::nat) < c"
  shows "m < c"
proof -
  have "m * 1 \<le> m * 10 ^ k"
    by (intro mult_le_mono2) simp
  with assms show ?thesis
    by linarith
qed

lemma scaled_int_eq:
  "n < 2 ^ 63 \<Longrightarrow> scaled_int (word_of_nat n) bs =
     (if digits bs \<and> n * 10 ^ length bs + dec_value bs < 2 ^ 63
      then Inr (word_of_nat (n * 10 ^ length bs + dec_value bs)) else Inl Malformed)"
proof (induction bs arbitrary: n)
  case (Cons b bs)
  let ?m = "n * 10 + unat b mod 16"
  have shift: "n * 10 ^ length (b # bs) + dec_value (b # bs) = ?m * 10 ^ length bs + dec_value bs"
    by (simp add: dec_value_Cons algebra_simps)
  show ?case
  proof (cases "is_digit b \<and> ?m < 2 ^ 63")
    case True
    then show ?thesis
      unfolding shift using Cons.prems
      by (simp add: Let_def digit_test push_digit_eq Cons.IH del: of_nat_mult of_nat_add)
  next
    case False
    then show ?thesis
      unfolding shift using Cons.prems value_grows [of ?m "length bs" "dec_value bs"]
      by (auto simp: Let_def digit_test push_digit_eq)
  qed
qed simp

text \<open>Digits beyond the scale must be zeros.\<close>

definition zeros :: "bytes \<Rightarrow> bool" where
  "zeros bs \<longleftrightarrow> list_all (\<lambda>b. b = 0x30) bs"

lemma scaled_frac_eq:
  assumes "n < 2 ^ 63" and "used \<le> decimals" and k: "k = min (decimals - used) (length bs)"
  shows "scaled_frac decimals used (word_of_nat n) bs = Inr r \<longleftrightarrow>
    digits bs \<and> zeros (drop k bs) \<and> n * 10 ^ k + dec_value (take k bs) < 2 ^ 63 \<and>
    r = (used + k, word_of_nat (n * 10 ^ k + dec_value (take k bs)))"
  using assms(1,2) unfolding k
proof (induction bs arbitrary: used n)
  case Nil
  then show ?case
    by (auto simp: zeros_def)
next
  case (Cons b bs)
  show ?case
  proof (cases "is_digit b \<and> used < decimals")
    case True
    let ?m = "n * 10 + unat b mod 16" and ?k = "min (decimals - (used + 1)) (length bs)"
    have k: "min (decimals - used) (length (b # bs)) = Suc ?k"
      using True by auto
    have shift: "n * 10 ^ Suc ?k + dec_value (take (Suc ?k) (b # bs)) = ?m * 10 ^ ?k + dec_value (take ?k bs)"
      by (simp add: dec_value_Cons algebra_simps)
    show ?thesis
      using True Cons.prems Cons.IH [of ?m "used + 1"] value_grows [of ?m ?k "dec_value (take ?k bs)"]
      unfolding k shift by (auto simp: Let_def digit_test push_digit_eq simp del: of_nat_mult of_nat_add)
  next
    case False
    then show ?thesis
      using Cons.prems Cons.IH [of n used]
      by (auto simp: Let_def digit_test zeros_def is_digit_def simp del: of_nat_mult of_nat_add)
  qed
qed

lemma scaled_pad_eq:
  "n < 2 ^ 63 \<Longrightarrow> scaled_pad k (word_of_nat n) =
     (if n * 10 ^ k < 2 ^ 63 then Inr (word_of_nat (n * 10 ^ k)) else Inl Malformed)"
proof (induction k arbitrary: n)
  case (Suc k)
  have "n * 10 * 10 ^ k < 2 ^ 63 \<Longrightarrow> n * 10 < 2 ^ 63"
    using value_grows [of "n * 10" k 0] by simp
  with Suc show ?case
    by (auto simp: checked_times_ten ok_or_def mult.assoc simp del: of_nat_mult)
qed simp

text \<open>The three loops in sequence: the value of the digits the scale keeps, scaled.\<close>

definition scaled_value :: "nat \<Rightarrow> bytes \<Rightarrow> bytes \<Rightarrow> nat" where
  "scaled_value decimals i f = dec_value (i @ take decimals f) * 10 ^ (decimals - length f)"

lemma scaled_loops:
  "and_then (scaled_int 0 i) (\<lambda>v. and_then (scaled_frac D 0 v f) (\<lambda>(used, v).
     and_then (scaled_pad (D - used) v) (\<lambda>v. Inr (g v)))) = Inr w \<longleftrightarrow>
   digits i \<and> digits f \<and> zeros (drop D f) \<and> scaled_value D i f < 2 ^ 63 \<and>
   w = g (word_of_nat (scaled_value D i f))"
proof -
  define k where "k = min D (length f)"
  define m where "m = dec_value i * 10 ^ k + dec_value (take k f)"
  have take_k: "take k f = take D f" "drop k f = drop D f" "D - k = D - length f"
    by (auto simp: k_def min_def)
  then have total: "scaled_value D i f = m * 10 ^ (D - k)"
    by (simp add: scaled_value_def m_def k_def dec_value_append min.commute)
  have grow: "m * 10 ^ (D - k) < 2 ^ 63 \<Longrightarrow> m < 2 ^ 63" "m < 2 ^ 63 \<Longrightarrow> dec_value i < 2 ^ 63"
    using value_grows [of m "D - k" 0] value_grows [of "dec_value i" k "dec_value (take k f)"]
    by (simp_all add: m_def)
  have int_part: "scaled_int 0 i =
      (if digits i \<and> dec_value i < 2 ^ 63 then Inr (word_of_nat (dec_value i)) else Inl Malformed)"
    using scaled_int_eq [of 0 i] by simp
  have frac_part: "scaled_frac D 0 (word_of_nat (dec_value i)) f = Inr r \<longleftrightarrow>
      digits f \<and> zeros (drop D f) \<and> m < 2 ^ 63 \<and> r = (k, word_of_nat m)" if "dec_value i < 2 ^ 63" for r
    using scaled_frac_eq [OF that, of 0 D k f r] by (simp add: m_def k_def take_k(2) [unfolded k_def])
  have pad_part: "and_then (scaled_pad (D - k) (word_of_nat m)) (\<lambda>v. Inr (g v)) = Inr w \<longleftrightarrow>
      m * 10 ^ (D - k) < 2 ^ 63 \<and> w = g (word_of_nat (m * 10 ^ (D - k)))" if "m < 2 ^ 63"
    using scaled_pad_eq [OF that, of "D - k"] by (auto simp del: of_nat_mult)
  show ?thesis
  proof (cases "digits i \<and> dec_value i < 2 ^ 63")
    case True
    have "and_then (scaled_int 0 i) (\<lambda>v. and_then (scaled_frac D 0 v f) (\<lambda>(used, v).
        and_then (scaled_pad (D - used) v) (\<lambda>v. Inr (g v)))) = Inr w \<longleftrightarrow>
      digits f \<and> zeros (drop D f) \<and> m < 2 ^ 63 \<and>
        and_then (scaled_pad (D - k) (word_of_nat m)) (\<lambda>v. Inr (g v)) = Inr w"
      by (simp only: int_part True if_True simp_thms and_then_simps and_then_Inr_iff
          frac_part [OF True [THEN conjunct2]]) (auto simp: and_then_Inr_iff)
    then show ?thesis
      unfolding total using True pad_part grow by blast
  next
    case False
    then show ?thesis
      unfolding total using int_part grow by fastforce
  qed
qed

text \<open>The texts that denote a decimal: \<open>p\<close> says whether there is a point.\<close>

definition decimal_text :: "bool \<Rightarrow> bytes \<Rightarrow> bool \<Rightarrow> bytes \<Rightarrow> bytes" where
  "decimal_text neg i p f = (if neg then [0x2D] else []) @ i @ (if p then 0x2E # f else [])"

lemma cut_at_point:
  assumes "0x2E \<notin> set i" and "p \<or> f = []"
  shows "(case position 0x2E (i @ (if p then 0x2E # f else [])) of
      Some k \<Rightarrow> (take k (i @ (if p then 0x2E # f else [])), drop (k + 1) (i @ (if p then 0x2E # f else [])))
    | None \<Rightarrow> (i @ (if p then 0x2E # f else []), [])) = (i, f)"
  using assms by (cases p) (simp_all add: position_None [THEN iffD2])

lemma point_split: "\<exists>i p f. ds = i @ (if p then 0x2E # f else []) \<and> 0x2E \<notin> set i \<and> (p \<or> f = [])"
proof (cases "0x2E \<in> set ds")
  case True
  then show ?thesis
    by (metis (full_types) split_list_first)
next
  case False
  then show ?thesis
    by (intro exI [of _ ds] exI [of _ False] exI [of _ "[]"]) simp
qed

lemma digits_no_2E: "digits i \<Longrightarrow> 0x2E \<notin> set i"
  by (auto simp: digits_def list_all_iff is_digit_def)

text \<open>
  C39. A decimal is accepted exactly when it is an optional minus sign, digits and an optional point
  with digits, at least one digit in all, with nothing but zeros beyond the scale and a scaled value
  that fits 63 bits; and then the result is that value, exactly, with its sign.
\<close>

theorem parse_scaled_decimal_exact:
  "parse_scaled_decimal bs scale = Inr v \<longleftrightarrow>
   (\<exists>neg i p f. let D = unat (scale_decimals scale); m = scaled_value D i f in
      bs = decimal_text neg i p f \<and> (p \<or> f = []) \<and> i @ f \<noteq> [] \<and> digits i \<and> digits f \<and>
      zeros (drop D f) \<and> m < 2 ^ 63 \<and> sint v = (if neg then - int m else int m))"
  (is "?L \<longleftrightarrow> ?R")
proof -
  define D where "D = unat (scale_decimals scale)"
  define neg where "neg \<longleftrightarrow> (case bs of b # _ \<Rightarrow> b = 0x2D | [] \<Rightarrow> False)"
  define ds where "ds = (if neg then tl bs else bs)"
  have bs: "bs = (if neg then [0x2D] else []) @ ds"
    by (auto simp: neg_def ds_def split: list.splits)
  obtain i p f where split: "ds = i @ (if p then 0x2E # f else [])" "0x2E \<notin> set i" "p \<or> f = []"
    using point_split by blast
  have head: "(case bs of [] \<Rightarrow> (False, bs) | b # rest \<Rightarrow> if b = 0x2D then (True, rest) else (False, bs)) = (neg, ds)"
    by (auto simp: neg_def ds_def split: list.splits)
  have signed: "w = (if neg then - word_of_nat n else word_of_nat n) \<longleftrightarrow>
      sint w = (if neg then - int n else int n)" if "n < 2 ^ 63" for w :: i64 and n
    using sint_i64 [OF that] sint_minus_word_of_nat [of n, where 'a = 64] that
    by (auto intro!: signed_word_eqI [where 'a = int])
  have "?L \<longleftrightarrow> i @ f \<noteq> [] \<and>
      and_then (scaled_int 0 i) (\<lambda>v. and_then (scaled_frac D 0 v f) (\<lambda>(used, v).
        and_then (scaled_pad (D - used) v) (\<lambda>v. Inr (if neg then - v else v)))) = Inr v"
    unfolding parse_scaled_decimal_def head D_def [symmetric] Let_def prod.case
      cut_at_point [OF split(2,3), folded split(1)]
    using split(1,3) by (cases "i = []"; cases "f = []") auto
  then have L: "?L \<longleftrightarrow> i @ f \<noteq> [] \<and> digits i \<and> digits f \<and> zeros (drop D f) \<and> scaled_value D i f < 2 ^ 63 \<and>
      sint v = (if neg then - int (scaled_value D i f) else int (scaled_value D i f))"
    unfolding scaled_loops [where g = "\<lambda>v. if neg then - v else v"] using signed by blast
  have parts: "neg' = neg \<and> i' = i \<and> f' = f"
    if "bs = decimal_text neg' i' p' f'" "p' \<or> f' = []" "digits i'" "i' @ f' \<noteq> []" for neg' i' p' f'
  proof -
    have "neg' = neg"
      using that by (cases i'; cases p') (auto simp: decimal_text_def neg_def is_digit_def)
    then have "ds = i' @ (if p' then 0x2E # f' else [])"
      using that(1) bs by (auto simp: decimal_text_def)
    from cut_at_point [OF digits_no_2E [OF that(3)] that(2), folded this]
      cut_at_point [OF split(2,3), folded split(1)]
    have "(i', f') = (i, f)"
      by (rule trans [OF sym])
    then show ?thesis
      using \<open>neg' = neg\<close> by simp
  qed
  have written: "bs = decimal_text neg i p f"
    using bs split(1) by (simp add: decimal_text_def)
  show ?thesis
    unfolding L Let_def D_def [symmetric] using parts written split(3) by blast
qed

subsection \<open>Bodies written field by field\<close>

definition field_text :: "bytes \<Rightarrow> bytes \<Rightarrow> bytes" where
  "field_text tag v = tag @ 0x3D # v @ [SOH]"

definition tag_ok :: "bytes \<Rightarrow> bool" where
  "tag_ok tag \<longleftrightarrow> digits tag \<and> tag \<noteq> [] \<and> length tag \<le> 9"

lemma digits_no_equals: "digits ds \<Longrightarrow> 0x3D \<notin> set ds"
  by (auto simp: digits_def list_all_iff is_digit_def)

lemma split_field_text:
  assumes "tag_ok tag" and "SOH \<notin> set v"
  shows "split_field (field_text tag v @ rest) =
    Some (\<lparr> f_tag = word_of_nat (dec_value tag), f_value = v \<rparr>, length (field_text tag v))"
proof -
  have small: "dec_value tag < 2 ^ 32"
    using assms(1) dec_value_less [of tag] power_increasing [of "length tag" 9 "10::nat"]
    by (simp add: tag_ok_def)
  then have "unat (word_of_nat (dec_value tag) :: u64) = dec_value tag"
    by (intro unat_u64) simp
  moreover have "ucast (word_of_nat (dec_value tag) :: u64) = (word_of_nat (dec_value tag) :: u32)"
    using calculation by (metis of_nat_unat)
  moreover have "position 0x3D (tag @ 0x3D # v @ SOH # rest) = Some (length tag)"
    using assms(1) by (simp add: tag_ok_def digits_no_equals)
  moreover have "position SOH (v @ SOH # rest) = Some (length v)"
    using assms(2) by simp
  ultimately show ?thesis
    using assms(1) small
    by (simp add: split_field_def field_text_def fix_parse_u64_eq tag_ok_def Let_def)
qed

text \<open>The iterator over a body of such fields yields them in order.\<close>

fun step_fields :: "(field \<Rightarrow> 'a \<Rightarrow> fix_error + 'a) \<Rightarrow> (bytes \<times> bytes) list \<Rightarrow> 'a \<Rightarrow> fix_error + 'a" where
  "step_fields step [] acc = Inr acc"
| "step_fields step ((tag, v) # fs) acc =
     and_then (step \<lparr> f_tag = word_of_nat (dec_value tag), f_value = v \<rparr> acc) (step_fields step fs)"

definition body_text :: "(bytes \<times> bytes) list \<Rightarrow> bytes" where
  "body_text fs = concat (map (\<lambda>(tag, v). field_text tag v) fs)"

lemma for_fields_text:
  assumes "list_all (\<lambda>(tag, v). tag_ok tag \<and> SOH \<notin> set v) fs"
  shows "for_fields step \<lparr> fi_body = pre @ body_text fs, fi_pos = length pre \<rparr> acc = step_fields step fs acc"
  using assms
proof (induction fs arbitrary: pre acc)
  case Nil
  then show ?case
    by (simp add: for_fields.simps fields_next_def fields_rest_def body_text_def)
next
  case (Cons tv fs)
  obtain tag v where tv: "tv = (tag, v)"
    by fastforce
  have next_: "fields_next \<lparr> fi_body = pre @ body_text (tv # fs), fi_pos = length pre \<rparr> =
      (Some (Inr \<lparr> f_tag = word_of_nat (dec_value tag), f_value = v \<rparr>),
       \<lparr> fi_body = (pre @ field_text tag v) @ body_text fs, fi_pos = length (pre @ field_text tag v) \<rparr>)"
    using Cons.prems split_field_text [of tag v "body_text fs"]
    by (simp add: fields_next_def fields_rest_def body_text_def tv) (simp add: field_text_def)
  show ?case
    unfolding for_fields.simps [of step "\<lparr> fi_body = pre @ body_text (tv # fs), fi_pos = length pre \<rparr>"] next_
    using Cons.prems Cons.IH [of "pre @ field_text tag v"] by (simp add: tv cong: and_then_cong)
qed

end
