(* ===== verification/Fix_Frame.thy ===== *)
theory Fix_Frame
  imports Fix_Tagvalue "HOL-Library.Sublist"
begin

text \<open>
  Message framing of the FIX crate (jeed-fix frame.rs): \<open>8=\<dots> 9=len\<dots> 10=ddd\<close>, checked before a field
  is read, and the receive buffer that turns a byte stream into frames. \<open>frame\<close> is one function of the
  source; its three parts, marked by comments there, are three definitions here. Slices whose bounds
  are computed are the fallible \<open>sub\<close>, so that the absence of panics is a theorem.
\<close>

subsection \<open>Slices\<close>

text \<open>\<open>&buf[a..b]\<close> and \<open>buf[i]\<close>.\<close>

definition sub :: "bytes \<Rightarrow> nat \<Rightarrow> nat \<Rightarrow> ('e, bytes) res" where
  "sub buf a b = (if a \<le> b \<and> b \<le> length buf then Inr (take (b - a) (drop a buf)) else Inl Panic)"

definition byte_of :: "bytes \<Rightarrow> nat \<Rightarrow> ('e, u8) res" where
  "byte_of buf i = (if i < length buf then Inr (buf ! i) else Inl Panic)"

subsection \<open>Framing\<close>

definition FIX_MAX_BODY_LENGTH :: nat where "FIX_MAX_BODY_LENGTH = 65536"
definition FIX_TRAILER_LEN :: nat where "FIX_TRAILER_LEN = 7"

record frame =
  fr_bytes :: bytes
  fr_begin :: bytes
  fr_body :: bytes

definition frame_len :: "frame \<Rightarrow> nat" where
  "frame_len f = length (fr_bytes f)"

definition frame_fields :: "frame \<Rightarrow> fields_iter" where
  "frame_fields f = fields_new (fr_body f)"

definition checksum :: "bytes \<Rightarrow> u8" where
  "checksum bs = fold (\<lambda>b acc. acc + b) bs 0"

text \<open>\<open>8=<begin\_string><SOH>\<close>: the begin string and where the length field starts.\<close>

definition frame_begin :: "bytes \<Rightarrow> (fix_error, bytes \<times> nat) res" where
  "frame_begin buf =
     (if buf = [] then Inl (Err Incomplete)
      else if length buf < 2
      then Inl (Err (if buf ! 0 = 0x38 then Incomplete else BeginString))
      else if take 2 buf \<noteq> [0x38, 0x3D] then Inl (Err BeginString)
      else case position SOH (drop 2 buf) of
        None \<Rightarrow> Inl (Err (if length buf > 2 + 16 then BeginString else Incomplete))
      | Some bs_end \<Rightarrow>
          and_then (sub buf 2 (2 + bs_end)) (\<lambda>begin_string.
            if begin_string = [] then Inl (Err BeginString) else Inr (begin_string, 2 + bs_end + 1)))"

definition U32_MAX :: u32 where "U32_MAX = - 1"

text \<open>\<open>9=<digits><SOH>\<close>: the body length and where the body starts.\<close>

definition frame_length :: "bytes \<Rightarrow> nat \<Rightarrow> (fix_error, nat \<times> nat) res" where
  "frame_length buf len_start =
     (let rest = drop (min len_start (length buf)) buf
      in if length rest < 2 then Inl (Err Incomplete)
         else if take 2 rest \<noteq> [0x39, 0x3D] then Inl (Err (BodyLength U32_MAX))
         else case position SOH (drop 2 rest) of
           None \<Rightarrow> Inl (Err (if length rest > 2 + 6 then BodyLength U32_MAX else Incomplete))
         | Some digits_end \<Rightarrow>
             and_then (sub rest 2 (2 + digits_end)) (\<lambda>ds.
               case fix_parse_u64 ds of
                 None \<Rightarrow> Inl (Err (BodyLength U32_MAX))
               | Some body_len \<Rightarrow>
                   if body_len = 0 \<or> unat body_len > FIX_MAX_BODY_LENGTH
                   then Inl (Err (BodyLength (ucast (min body_len (ucast U32_MAX)))))
                   else Inr (unat body_len, len_start + 2 + digits_end + 1)))"

text \<open>The body's last byte and \<open>10=ddd<SOH>\<close>.\<close>

definition frame_trailer :: "bytes \<Rightarrow> bytes \<Rightarrow> nat \<Rightarrow> nat \<Rightarrow> (fix_error, frame) res" where
  "frame_trailer buf begin_string body_len body_start =
     (let trailer_start = body_start + body_len;
          total = trailer_start + FIX_TRAILER_LEN
      in if length buf < total then Inl (Err Incomplete) else
         and_then (byte_of buf (trailer_start - 1)) (\<lambda>last_byte.
         if last_byte \<noteq> SOH then Inl (Err (BodyLength (word_of_nat body_len))) else
         and_then (sub buf trailer_start total) (\<lambda>trailer.
         and_then (sub trailer 0 3) (\<lambda>tag.
         and_then (byte_of trailer 6) (\<lambda>closing.
         if tag \<noteq> [0x31, 0x30, 0x3D] \<or> closing \<noteq> SOH then Inl (Err Trailer) else
         and_then (sub trailer 3 6) (\<lambda>ds.
         case fix_parse_u64 ds of
           None \<Rightarrow> Inl (Err Trailer)
         | Some found \<Rightarrow>
             and_then (sub buf 0 trailer_start) (\<lambda>head.
             let expected = checksum head
             in if found > 255 \<or> ucast found \<noteq> expected
                then Inl (Err (CheckSum expected (ucast (min found 255))))
                else and_then (sub buf 0 total) (\<lambda>whole.
                     and_then (sub buf body_start trailer_start) (\<lambda>body.
                     Inr \<lparr> fr_bytes = whole, fr_begin = begin_string, fr_body = body \<rparr>)))))))))"

definition frame :: "bytes \<Rightarrow> (fix_error, frame) res" where
  "frame buf =
     and_then (frame_begin buf) (\<lambda>(begin_string, len_start).
     and_then (frame_length buf len_start) (\<lambda>(body_len, body_start).
     frame_trailer buf begin_string body_len body_start))"

subsection \<open>The receive buffer\<close>

text \<open>\<open>FrameBuffer<N>\<close>: the array, whose length is \<open>N\<close>, and how much of it is unread stream data.\<close>

record frame_buffer =
  fb_buf :: bytes
  fb_len :: nat

definition fb_new :: "nat \<Rightarrow> frame_buffer" where
  "fb_new N = \<lparr> fb_buf = replicate N 0, fb_len = 0 \<rparr>"

definition fb_filled :: "frame_buffer \<Rightarrow> bytes" where
  "fb_filled b = take (fb_len b) (fb_buf b)"

definition fb_spare :: "frame_buffer \<Rightarrow> bytes" where
  "fb_spare b = drop (fb_len b) (fb_buf b)"

text \<open>What a \<open>read\<close> does to the spare tail it is given: the bytes that arrived replace its front.\<close>

definition fb_write_spare :: "bytes \<Rightarrow> frame_buffer \<Rightarrow> frame_buffer" where
  "fb_write_spare bs b =
     b\<lparr> fb_buf := fb_filled b @ bs @ drop (fb_len b + length bs) (fb_buf b) \<rparr>"

definition fb_commit :: "nat \<Rightarrow> frame_buffer \<Rightarrow> frame_buffer" where
  "fb_commit n b = b\<lparr> fb_len := min (fb_len b + n) (length (fb_buf b)) \<rparr>"

definition fb_push :: "bytes \<Rightarrow> frame_buffer \<Rightarrow> nat \<times> frame_buffer" where
  "fb_push bs b =
     (let n = min (length bs) (length (fb_buf b) - fb_len b)
      in (n, b\<lparr> fb_buf := fb_filled b @ take n bs @ drop (fb_len b + n) (fb_buf b), fb_len := fb_len b + n \<rparr>))"

definition fb_peek :: "frame_buffer \<Rightarrow> (fix_error, frame option) res" where
  "fb_peek b =
     (case frame (fb_filled b) of
        Inr f \<Rightarrow> Inr (Some f)
      | Inl (Err Incomplete) \<Rightarrow>
          if fb_len b = length (fb_buf b)
          then Inl (Err (BodyLength (word_of_nat (length (fb_buf b))))) else Inr None
      | Inl e \<Rightarrow> Inl e)"

definition fb_consume :: "nat \<Rightarrow> frame_buffer \<Rightarrow> frame_buffer" where
  "fb_consume n b =
     (let n = min n (fb_len b); kept = drop n (fb_filled b)
      in b\<lparr> fb_buf := kept @ drop (length kept) (fb_buf b), fb_len := fb_len b - n \<rparr>)"

definition fb_clear :: "frame_buffer \<Rightarrow> frame_buffer" where
  "fb_clear b = b\<lparr> fb_len := 0 \<rparr>"

subsection \<open>The messages \<open>frame\<close> accepts\<close>

definition message_head :: "bytes \<Rightarrow> bytes \<Rightarrow> bytes" where
  "message_head bs ds = [0x38, 0x3D] @ bs @ [SOH] @ [0x39, 0x3D] @ ds @ [SOH]"

definition message :: "bytes \<Rightarrow> bytes \<Rightarrow> bytes \<Rightarrow> bytes \<Rightarrow> bytes" where
  "message bs ds body cs = message_head bs ds @ body @ [0x31, 0x30, 0x3D] @ cs @ [SOH]"

definition message_ok :: "bytes \<Rightarrow> bytes \<Rightarrow> bytes \<Rightarrow> bytes \<Rightarrow> bool" where
  "message_ok bs ds body cs \<longleftrightarrow>
     bs \<noteq> [] \<and> SOH \<notin> set bs \<and>
     digits ds \<and> length ds \<le> 19 \<and> ds \<noteq> [] \<and> dec_value ds = length body \<and>
     body \<noteq> [] \<and> last body = SOH \<and> length body \<le> FIX_MAX_BODY_LENGTH \<and>
     digits cs \<and> length cs = 3 \<and> dec_value cs = unat (checksum (message_head bs ds @ body))"

lemma soh_not_digit: "digits ds \<Longrightarrow> SOH \<notin> set ds"
proof
  assume "digits ds" "SOH \<in> set ds"
  then have "is_digit SOH"
    by (simp add: digits_def list_all_iff)
  then show False
    by (simp add: is_digit_def SOH_def word_le_nat_alt)
qed

lemma position_split:
  assumes "position c xs = Some i"
  obtains ys zs where "xs = ys @ c # zs" "length ys = i" "c \<notin> set ys"
proof
  show "xs = take i xs @ c # drop (Suc i) xs" "length (take i xs) = i" "c \<notin> set (take i xs)"
    using assms id_take_nth_drop [of i xs] by (auto simp: position_Some)
qed

lemma two_bytes: "2 \<le> length xs \<Longrightarrow> take 2 xs = [a, b] \<Longrightarrow> xs = a # b # drop 2 xs"
  by (metis append_Cons append_Nil append_take_drop_id)

lemma frame_begin_Inr:
  "frame_begin buf = Inr (bs, n) \<longleftrightarrow>
   (\<exists>rest. buf = [0x38, 0x3D] @ bs @ SOH # rest \<and> bs \<noteq> [] \<and> SOH \<notin> set bs \<and> n = length bs + 3)"
proof
  assume L: "frame_begin buf = Inr (bs, n)"
  then have long: "2 \<le> length buf" and two: "take 2 buf = [0x38, 0x3D]"
    by (auto simp: frame_begin_def split: if_splits)
  obtain i where i: "position SOH (drop 2 buf) = Some i"
    using L by (auto simp: frame_begin_def split: if_splits option.splits)
  from i obtain ys zs where split: "drop 2 buf = ys @ SOH # zs" "length ys = i" "SOH \<notin> set ys"
    by (rule position_split)
  have buf: "buf = 0x38 # 0x3D # ys @ SOH # zs"
    using two_bytes [OF long two] split(1) by simp
  then show "\<exists>rest. buf = [0x38, 0x3D] @ bs @ SOH # rest \<and> bs \<noteq> [] \<and> SOH \<notin> set bs \<and> n = length bs + 3"
    using L split(2,3) by (auto simp: frame_begin_def sub_def split: if_splits)
next
  assume "\<exists>rest. buf = [0x38, 0x3D] @ bs @ SOH # rest \<and> bs \<noteq> [] \<and> SOH \<notin> set bs \<and> n = length bs + 3"
  then show "frame_begin buf = Inr (bs, n)"
    by (auto simp: frame_begin_def sub_def)
qed

lemma u64_bound: "unat (v :: u64) < 2 ^ 64"
  using unsigned_less [of v] by simp

lemma frame_length_Inr:
  assumes "buf = pre @ tail" and n: "n = length pre"
  shows "frame_length buf n = Inr (bl, start) \<longleftrightarrow>
   (\<exists>ds rest. tail = [0x39, 0x3D] @ ds @ SOH # rest \<and> ds \<noteq> [] \<and> digits ds \<and> length ds \<le> 19 \<and>
      bl = dec_value ds \<and> 0 < bl \<and> bl \<le> FIX_MAX_BODY_LENGTH \<and> start = n + length ds + 3)"
proof
  assume L: "frame_length buf n = Inr (bl, start)"
  have tail: "drop (min n (length buf)) buf = tail"
    using assms by simp
  have long: "2 \<le> length tail" and two: "take 2 tail = [0x39, 0x3D]"
    using L unfolding frame_length_def tail by (auto simp: Let_def split: if_splits)
  obtain i where i: "position SOH (drop 2 tail) = Some i"
    using L unfolding frame_length_def tail by (auto simp: Let_def split: if_splits option.splits)
  from i obtain ys zs where split: "drop 2 tail = ys @ SOH # zs" "length ys = i" "SOH \<notin> set ys"
    by (rule position_split)
  have shape: "tail = 0x39 # 0x3D # ys @ SOH # zs"
    using two_bytes [OF long two] split(1) by simp
  then have "ys \<noteq> [] \<and> digits ys \<and> length ys \<le> 19 \<and>
      bl = dec_value ys \<and> 0 < bl \<and> bl \<le> FIX_MAX_BODY_LENGTH \<and> start = n + length ys + 3"
    using L split(2,3) unat_fix_parse_u64 [of ys] fix_parse_u64_eq [of ys]
    unfolding frame_length_def tail
    by (auto simp: Let_def sub_def intro!: gr0I split: if_splits option.splits)
  with shape show "\<exists>ds rest. tail = [0x39, 0x3D] @ ds @ SOH # rest \<and> ds \<noteq> [] \<and> digits ds \<and> length ds \<le> 19 \<and>
      bl = dec_value ds \<and> 0 < bl \<and> bl \<le> FIX_MAX_BODY_LENGTH \<and> start = n + length ds + 3"
    by (intro exI [of _ ys] exI [of _ zs]) simp
next
  assume "\<exists>ds rest. tail = [0x39, 0x3D] @ ds @ SOH # rest \<and> ds \<noteq> [] \<and> digits ds \<and> length ds \<le> 19 \<and>
      bl = dec_value ds \<and> 0 < bl \<and> bl \<le> FIX_MAX_BODY_LENGTH \<and> start = n + length ds + 3"
  then obtain ds rest where ds: "tail = 0x39 # 0x3D # ds @ SOH # rest" "ds \<noteq> []" "digits ds" "length ds \<le> 19"
      "bl = dec_value ds" "0 < bl" "bl \<le> FIX_MAX_BODY_LENGTH" "start = n + length ds + 3"
    by auto
  have parse: "fix_parse_u64 ds = Some (word_of_nat bl)" and bl: "unat (word_of_nat bl :: u64) = bl"
    using ds by (simp_all add: fix_parse_u64_eq unat_u64 FIX_MAX_BODY_LENGTH_def)
  have "word_of_nat bl \<noteq> (0 :: u64)"
    using bl ds(6) by (metis neq0_conv unsigned_0)
  then show "frame_length buf n = Inr (bl, start)"
    using assms ds(1,7,8) soh_not_digit [OF ds(3)] parse bl
    by (simp add: frame_length_def sub_def)
qed


lemma sub_mid: "a = length xs \<Longrightarrow> b = a + length ys \<Longrightarrow> sub (xs @ ys @ zs) a b = Inr ys"
  by (simp add: sub_def)

lemma seven_bytes:
  assumes "7 \<le> length xs"
  obtains t0 t1 t2 c0 c1 c2 z rest where "xs = [t0, t1, t2] @ [c0, c1, c2] @ [z] @ rest"
  using assms by (auto simp: numeral_eq_Suc Suc_le_length_iff)

lemma checksum_match: "\<not> (found > 255 \<or> ucast found \<noteq> e) \<longleftrightarrow> unat (found :: u64) = unat (e :: u8)"
proof
  assume "\<not> (found > 255 \<or> ucast found \<noteq> e)"
  then show "unat found = unat e"
    by (auto simp: word_less_nat_alt unsigned_ucast_eq take_bit_nat_eq_self)
next
  assume *: "unat found = unat e"
  then have "unat found < 256" "unat (ucast found :: u8) = unat e"
    by (simp_all add: unsigned_ucast_eq take_bit_nat_eq_self)
  then show "\<not> (found > 255 \<or> ucast found \<noteq> e)"
    by (auto simp: word_less_nat_alt dest: unsigned_word_eqI)
qed

lemma frame_trailer_eq:
  assumes "buf = pre @ body @ [t0, t1, t2] @ cs @ [z] @ rest" and "length cs = 3" and "body \<noteq> []"
  shows "frame_trailer buf bs (length body) (length pre) =
    (if last body \<noteq> SOH then Inl (Err (BodyLength (word_of_nat (length body))))
     else if [t0, t1, t2] \<noteq> [0x31, 0x30, 0x3D] \<or> z \<noteq> SOH then Inl (Err Trailer)
     else case fix_parse_u64 cs of
       None \<Rightarrow> Inl (Err Trailer)
     | Some found \<Rightarrow>
         if unat found \<noteq> unat (checksum (pre @ body))
         then Inl (Err (CheckSum (checksum (pre @ body)) (ucast (min found 255))))
         else Inr \<lparr> fr_bytes = pre @ body @ [t0, t1, t2] @ cs @ [z], fr_begin = bs, fr_body = body \<rparr>)"
proof -
  let ?p = "length pre" and ?n = "length body"
  have last: "byte_of buf (?p + ?n - 1) = (Inr (last body) :: (fix_error, u8) res)"
  proof -
    obtain b x where "body = b @ [x]"
      using assms(3) by (cases body rule: rev_cases) auto
    then show ?thesis
      using assms by (simp add: byte_of_def nth_append)
  qed
  have slices:
      "sub buf (?p + ?n) (?p + ?n + 7) = (Inr ([t0, t1, t2] @ cs @ [z]) :: (fix_error, bytes) res)"
      "sub buf 0 (?p + ?n) = (Inr (pre @ body) :: (fix_error, bytes) res)"
      "sub buf 0 (?p + ?n + 7) = (Inr (pre @ body @ [t0, t1, t2] @ cs @ [z]) :: (fix_error, bytes) res)"
      "sub buf ?p (?p + ?n) = (Inr body :: (fix_error, bytes) res)"
    using assms sub_mid [of "?p + ?n" "pre @ body" "?p + ?n + 7" "[t0, t1, t2] @ cs @ [z]" rest]
      sub_mid [of 0 "[]" "?p + ?n" "pre @ body" "[t0, t1, t2] @ cs @ [z] @ rest"]
      sub_mid [of 0 "[]" "?p + ?n + 7" "pre @ body @ [t0, t1, t2] @ cs @ [z]" rest]
      sub_mid [of ?p pre "?p + ?n" body "[t0, t1, t2] @ cs @ [z] @ rest"]
    by simp_all
  have parts: "sub ([t0, t1, t2] @ cs @ [z]) 0 3 = (Inr [t0, t1, t2] :: (fix_error, bytes) res)"
      "sub ([t0, t1, t2] @ cs @ [z]) 3 6 = (Inr cs :: (fix_error, bytes) res)"
      "byte_of ([t0, t1, t2] @ cs @ [z]) 6 = (Inr z :: (fix_error, u8) res)"
    using assms(2) by (simp_all add: sub_def byte_of_def nth_append nth_Cons')
  have long: "\<not> length buf < ?p + ?n + 7"
    using assms by simp
  show ?thesis
    unfolding frame_trailer_def FIX_TRAILER_LEN_def Let_def if_not_P [OF long] last slices parts and_then_simps
      checksum_match [symmetric]
    by (simp split: option.split)
qed

lemma frame_trailer_Inr:
  assumes "buf = pre @ tail" and "0 < bl"
  shows "frame_trailer buf bs bl (length pre) = Inr f \<longleftrightarrow>
   (\<exists>body cs rest. tail = body @ [0x31, 0x30, 0x3D] @ cs @ [SOH] @ rest \<and> length body = bl \<and> last body = SOH \<and>
      length cs = 3 \<and> digits cs \<and> dec_value cs = unat (checksum (pre @ body)) \<and>
      f = \<lparr> fr_bytes = pre @ body @ [0x31, 0x30, 0x3D] @ cs @ [SOH], fr_begin = bs, fr_body = body \<rparr>)"
    (is "?L \<longleftrightarrow> ?R")
proof (cases "bl + 7 \<le> length tail")
  case False
  then show ?thesis
    using assms by (auto simp: frame_trailer_def FIX_TRAILER_LEN_def)
next
  case True
  define body where "body = take bl tail"
  have body: "length body = bl" "body \<noteq> []"
    using True assms(2) by (auto simp: body_def)
  have "7 \<le> length (drop bl tail)"
    using True by simp
  then obtain t0 t1 t2 c0 c1 c2 z rest where tr: "drop bl tail = [t0, t1, t2] @ [c0, c1, c2] @ [z] @ rest"
    by (rule seven_bytes)
  have tail: "tail = body @ [t0, t1, t2] @ [c0, c1, c2] @ [z] @ rest"
    unfolding body_def tr [symmetric] by simp
  have L: "?L \<longleftrightarrow> last body = SOH \<and> [t0, t1, t2] = [0x31, 0x30, 0x3D] \<and> z = SOH \<and> digits [c0, c1, c2] \<and>
      dec_value [c0, c1, c2] = unat (checksum (pre @ body)) \<and>
      f = \<lparr> fr_bytes = pre @ body @ [t0, t1, t2] @ [c0, c1, c2] @ [z], fr_begin = bs, fr_body = body \<rparr>"
    using frame_trailer_eq [OF assms(1) [unfolded tail] _ body(2), of bs] unat_fix_parse_u64 [of "[c0, c1, c2]"]
      fix_parse_u64_eq [of "[c0, c1, c2]"]
    unfolding body(1) by auto
  have "body' = body \<and> [t0, t1, t2] = [0x31, 0x30, 0x3D] \<and> cs' = [c0, c1, c2] \<and> z = SOH"
    if "tail = body' @ [0x31, 0x30, 0x3D] @ cs' @ [SOH] @ rest'" "length body' = bl" "length cs' = 3" for body' cs' rest'
  proof -
    from that body(1) tail have "body' = body" "[0x31, 0x30, 0x3D] @ cs' @ [SOH] @ rest' = [t0, t1, t2] @ [c0, c1, c2] @ [z] @ rest"
      by simp_all
    then show ?thesis
      using that(3) append_eq_append_conv [of cs' "[c0, c1, c2]" "SOH # rest'" "z # rest"] by simp
  qed
  then show ?thesis
    unfolding L using tail body by fastforce
qed

subsection \<open>\<open>frame\<close> accepts exactly the well-formed messages\<close>

lemma length_message_head: "length (message_head bs ds) = length bs + length ds + 6"
  by (simp add: message_head_def)

lemma frame_Inr:
  "frame buf = Inr f \<longleftrightarrow>
   (\<exists>bs ds body cs rest. buf = message bs ds body cs @ rest \<and> message_ok bs ds body cs \<and>
      f = \<lparr> fr_bytes = message bs ds body cs, fr_begin = bs, fr_body = body \<rparr>)"
    (is "?L \<longleftrightarrow> ?R")
proof
  assume ?L
  then obtain bs n bl start where steps: "frame_begin buf = Inr (bs, n)" "frame_length buf n = Inr (bl, start)"
      "frame_trailer buf bs bl start = Inr f"
    by (auto simp: frame_def and_then_Inr_iff)
  obtain tail where buf: "buf = ([0x38, 0x3D] @ bs @ [SOH]) @ tail" and bs: "bs \<noteq> []" "SOH \<notin> set bs" "n = length bs + 3"
    using steps(1) by (auto simp: frame_begin_Inr)
  obtain ds rest where tail: "tail = [0x39, 0x3D] @ ds @ SOH # rest" and
      ds: "ds \<noteq> []" "digits ds" "length ds \<le> 19" "bl = dec_value ds" "0 < bl" "bl \<le> FIX_MAX_BODY_LENGTH"
        "start = n + length ds + 3"
    using frame_length_Inr [THEN iffD1, OF buf _ steps(2)] bs(3) by auto
  have head: "buf = message_head bs ds @ rest" and start: "start = length (message_head bs ds)"
    using buf tail bs(3) ds(7) by (simp_all add: message_head_def)
  obtain body cs rest' where "rest = body @ [0x31, 0x30, 0x3D] @ cs @ [SOH] @ rest'" "length body = bl" "last body = SOH"
      "length cs = 3" "digits cs" "dec_value cs = unat (checksum (message_head bs ds @ body))"
      "f = \<lparr> fr_bytes = message_head bs ds @ body @ [0x31, 0x30, 0x3D] @ cs @ [SOH], fr_begin = bs, fr_body = body \<rparr>"
    using frame_trailer_Inr [OF head ds(5), of bs f] steps(3) unfolding start by blast
  then have "buf = message bs ds body cs @ rest'" "message_ok bs ds body cs"
      "f = \<lparr> fr_bytes = message bs ds body cs, fr_begin = bs, fr_body = body \<rparr>"
    using head bs ds by (auto simp: message_def message_ok_def)
  then show ?R
    by blast
next
  assume ?R
  then obtain bs ds body cs rest where buf: "buf = message bs ds body cs @ rest" and ok: "message_ok bs ds body cs" and
      f: "f = \<lparr> fr_bytes = message bs ds body cs, fr_begin = bs, fr_body = body \<rparr>"
    by blast
  have 1: "frame_begin buf = Inr (bs, length bs + 3)"
    using ok unfolding frame_begin_Inr buf message_def message_head_def message_ok_def by auto
  have 2: "frame_length buf (length bs + 3) = Inr (length body, length (message_head bs ds))"
  proof (rule frame_length_Inr [THEN iffD2])
    show "buf = ([0x38, 0x3D] @ bs @ [SOH]) @
        ([0x39, 0x3D] @ ds @ SOH # body @ [0x31, 0x30, 0x3D] @ cs @ [SOH] @ rest)"
      by (simp add: buf message_def message_head_def)
  qed (use ok in \<open>auto simp: message_ok_def length_message_head\<close>)
  have 3: "frame_trailer buf bs (length body) (length (message_head bs ds)) = Inr f"
  proof (rule frame_trailer_Inr [THEN iffD2])
    show "buf = message_head bs ds @ (body @ [0x31, 0x30, 0x3D] @ cs @ [SOH] @ rest)"
      by (simp add: buf message_def)
  qed (use ok f in \<open>auto simp: message_ok_def message_def\<close>)
  show ?L
    by (simp add: frame_def 1 2 3)
qed

lemma frame_trailer_no_panic:
  assumes "0 < bl"
  shows "no_panic (frame_trailer buf bs bl n)"
proof (cases "length buf < n + bl + 7")
  case False
  define pre body where "pre = take n buf" and "body = take bl (drop n buf)"
  have parts: "length pre = n" "length body = bl" "body \<noteq> []"
    using False assms by (auto simp: pre_def body_def)
  have "7 \<le> length (drop bl (drop n buf))"
    using False by simp
  then obtain t0 t1 t2 c0 c1 c2 z rest where
      "drop bl (drop n buf) = [t0, t1, t2] @ [c0, c1, c2] @ [z] @ rest"
    by (rule seven_bytes)
  then have "buf = pre @ body @ [t0, t1, t2] @ [c0, c1, c2] @ [z] @ rest"
    unfolding pre_def body_def by (metis append_take_drop_id)
  from frame_trailer_eq [OF this _ parts(3), of bs] show ?thesis
    unfolding parts(1,2) by (simp split: option.split)
qed (simp add: frame_trailer_def FIX_TRAILER_LEN_def)

lemma sub_to_position: "position c (drop 2 xs) = Some i \<Longrightarrow> sub xs 2 (2 + i) = Inr (take i (drop 2 xs))"
  by (auto simp: sub_def position_Some)

lemma frame_no_panic: "no_panic (frame buf)"
proof -
  have 1: "no_panic (frame_begin buf)"
    by (cases "position SOH (drop 2 buf)") 
      (simp_all only: frame_begin_def sub_to_position and_then_simps option.case, simp_all)
  have 2: "no_panic (frame_length buf n)" for n
    by (cases "position SOH (drop 2 (drop (min n (length buf)) buf))")
      (simp_all only: frame_length_def Let_def sub_to_position and_then_simps option.case,
       simp_all split: option.split)
  have 3: "no_panic (frame_trailer buf b bl start)"
    if head: "frame_begin buf = Inr (b, n)" and len: "frame_length buf n = Inr (bl, start)" for b n bl start
  proof -
    obtain rest where buf: "buf = ([0x38, 0x3D] @ b @ [SOH]) @ rest" and n: "n = length b + 3"
      using frame_begin_Inr [THEN iffD1, OF head] by auto
    have "n = length ([0x38, 0x3D] @ b @ [SOH])"
      using n by simp
    from frame_length_Inr [THEN iffD1, OF buf this len] have "0 < bl"
      by blast
    then show ?thesis
      by (rule frame_trailer_no_panic)
  qed
  show ?thesis
    unfolding frame_def by (auto intro!: no_panic_and_then 1 2 intro: 3)
qed


subsection \<open>Prefixes of a message\<close>

text \<open>
  What a prefix of a message means depends on the bytes seen so far only when the begin string and
  the length field are short: past 18 bytes without the first separator, or 8 without the second, the
  code declares the stream out of sync.
\<close>

definition short_message :: "bytes \<Rightarrow> bool" where
  "short_message m \<longleftrightarrow>
     (\<exists>bs ds body cs. m = message bs ds body cs \<and> message_ok bs ds body cs \<and> length bs \<le> 16 \<and> length ds \<le> 6)"

lemma in_set_takeD': "SOH \<notin> set xs \<Longrightarrow> SOH \<notin> set (take k xs)"
  by (auto dest: in_set_takeD)

lemma frame_incomplete:
  assumes "short_message m" and k: "k < length m"
  shows "frame (take k m) = Inl (Err Incomplete)"
proof -
  obtain bs ds body cs where m: "m = message bs ds body cs" and ok: "message_ok bs ds body cs" and
      short: "length bs \<le> 16" "length ds \<le> 6"
    using assms(1) by (auto simp: short_message_def)
  define p where "p = [0x38, 0x3D] @ bs @ [SOH]"
  define tail where "tail = body @ [0x31, 0x30, 0x3D] @ cs @ [SOH]"
  have m': "m = p @ [0x39, 0x3D] @ ds @ SOH # tail" and len: "length p = length bs + 3"
    by (simp_all add: m message_def message_head_def p_def tail_def)
  consider (a) "k < 2" | (b) "2 \<le> k" "k < length p" | (c) "length p \<le> k" "k < length p + 2"
    | (d) "length p + 2 \<le> k" "k < length p + length ds + 3" | (e) "length p + length ds + 3 \<le> k"
    by linarith
  then show ?thesis
  proof cases
    case a
    then have "k = 0 \<or> k = 1"
      by auto
    then show ?thesis
      by (auto simp: frame_def frame_begin_def m' p_def)
  next
    case b
    then have "take k m = [0x38, 0x3D] @ take (k - 2) bs"
      by (auto simp: m' p_def take_Cons' take_append numeral_2_eq_2)
    then show ?thesis
      using b len short(1) ok
      by (simp add: frame_def frame_begin_def message_ok_def in_set_takeD' position_None [THEN iffD2])
  next
    case c
    then have "take k m = p @ take (k - length p) ([0x39, 0x3D] @ ds @ SOH # tail)"
      by (simp add: m')
    moreover from this have "frame_begin (take k m) = Inr (bs, length p)"
      using ok unfolding frame_begin_Inr by (simp add: p_def message_ok_def)
    ultimately show ?thesis
      using c by (simp add: frame_def frame_length_def Let_def)
  next
    case d
    let ?ds = "take (k - length p - 2) ds"
    have "take k m = p @ [0x39, 0x3D] @ ?ds"
      using d by (simp add: m' take_Cons')
    moreover from this have "frame_begin (take k m) = Inr (bs, length p)"
      using ok unfolding frame_begin_Inr by (simp add: p_def message_ok_def)
    moreover have "SOH \<notin> set ?ds"
      using ok by (intro in_set_takeD' soh_not_digit) (simp add: message_ok_def)
    ultimately show ?thesis
      using d short(2) by (simp add: frame_def frame_length_def Let_def position_None [THEN iffD2])
  next
    case e
    define rest where "rest = take (k - (length p + length ds + 3)) tail"
    have tk: "take k m = p @ ([0x39, 0x3D] @ ds @ SOH # rest)"
      using e by (simp add: m' rest_def take_Cons' numeral_3_eq_3)
    have 1: "frame_begin (take k m) = Inr (bs, length p)"
      using ok tk unfolding frame_begin_Inr by (simp add: p_def message_ok_def)
    have 2: "frame_length (take k m) (length p) = Inr (length body, length p + length ds + 3)"
      using ok frame_length_Inr [OF tk refl, of "length body" "length p + length ds + 3"]
      by (auto simp: message_ok_def)
    have "length (take k m) < length p + length ds + 3 + length body + FIX_TRAILER_LEN"
      using k ok by (simp add: m' tail_def FIX_TRAILER_LEN_def message_ok_def)
    then have 3: "frame_trailer (take k m) bs (length body) (length p + length ds + 3) = Inl (Err Incomplete)"
      by (simp add: frame_trailer_def)
    show ?thesis
      by (simp add: frame_def 1 2 3)
  qed
qed

lemma short_message_frame:
  assumes "short_message m"
  obtains f where "frame m = Inr f" "fr_bytes f = m" "m \<noteq> []"
proof -
  obtain bs ds body cs where m: "m = message bs ds body cs @ []" "message_ok bs ds body cs"
    using assms by (auto simp: short_message_def)
  then have "frame m = Inr \<lparr> fr_bytes = message bs ds body cs, fr_begin = bs, fr_body = body \<rparr>"
    unfolding frame_Inr by blast
  with m that show thesis
    by (simp add: message_def)
qed

lemma frame_extend:
  assumes "frame m = Inr f" and "fr_bytes f = m"
  shows "frame (m @ rest) = Inr f"
proof -
  obtain bs ds body cs r where *: "message_ok bs ds body cs"
      "f = \<lparr> fr_bytes = message bs ds body cs, fr_begin = bs, fr_body = body \<rparr>"
    using assms(1) unfolding frame_Inr by blast
  then have "m @ rest = message bs ds body cs @ rest"
    using assms(2) by simp
  then show ?thesis
    unfolding frame_Inr using * by blast
qed

text \<open>The head of a stream of messages, cut anywhere.\<close>

lemma frame_on_stream:
  assumes "short_message m" and "prefix buf (m @ later)"
  shows "frame buf = (if length m \<le> length buf then frame m else Inl (Err Incomplete))"
proof (cases "length m \<le> length buf")
  case True
  then obtain rest where "buf = m @ rest"
    using assms(2) by (metis prefix_def prefix_length_prefix prefixI)
  with True assms(1) show ?thesis
    by (metis short_message_frame frame_extend)
next
  case False
  then have "buf = take (length buf) m"
    using assms(2) by (auto simp: prefix_def append_eq_append_conv2)
  with False frame_incomplete [OF assms(1), of "length buf"] show ?thesis
    by simp
qed

subsection \<open>The buffer as the bytes it holds\<close>

definition fb_ok :: "nat \<Rightarrow> frame_buffer \<Rightarrow> bool" where
  "fb_ok N b \<longleftrightarrow> length (fb_buf b) = N \<and> fb_len b \<le> N"

lemma fb_new_ok: "fb_ok N (fb_new N)" "fb_filled (fb_new N) = []"
  by (simp_all add: fb_ok_def fb_new_def fb_filled_def)

lemma fb_lengths:
  assumes "fb_ok N b"
  shows "length (fb_filled b) = fb_len b" "length (fb_spare b) = N - fb_len b"
  using assms by (simp_all add: fb_ok_def fb_filled_def fb_spare_def)

lemma fb_read:
  assumes "fb_ok N b" and "length bs \<le> length (fb_spare b)"
  defines "b' \<equiv> fb_commit (length bs) (fb_write_spare bs b)"
  shows "fb_ok N b'" "fb_filled b' = fb_filled b @ bs"
  using assms by (auto simp: b'_def fb_ok_def fb_commit_def fb_write_spare_def fb_filled_def fb_spare_def)

lemma fb_push_spec:
  assumes "fb_ok N b" and "fb_push bs b = (n, b')"
  shows "fb_ok N b'" "fb_filled b' = fb_filled b @ take n bs" "n = min (length bs) (N - fb_len b)"
  using assms by (auto simp: fb_ok_def fb_push_def fb_filled_def Let_def)

lemma fb_consume_spec:
  assumes "fb_ok N b"
  shows "fb_ok N (fb_consume n b)" "fb_filled (fb_consume n b) = drop n (fb_filled b)"
  using assms by (auto simp: fb_ok_def fb_consume_def fb_filled_def Let_def min_def)

subsection \<open>A stream read in pieces\<close>

text \<open>
  The loop of the documentation of \<open>FrameBuffer\<close>, on a stream of which each \<open>read\<close> returns a piece of
  at most the size asked for: a \<open>read\<close> into the spare tail, then at most \<open>burst\<close> messages framed,
  handed out and consumed. A round ends with the frames it handed out and the error that ended it.
\<close>

fun fb_drain :: "nat \<Rightarrow> frame_buffer \<Rightarrow> frame list \<times> fix_error fault option \<times> frame_buffer" where
  "fb_drain 0 b = ([], None, b)"
| "fb_drain (Suc n) b =
     (case fb_peek b of
        Inl e \<Rightarrow> ([], Some e, b)
      | Inr None \<Rightarrow> ([], None, b)
      | Inr (Some f) \<Rightarrow> (case fb_drain n (fb_consume (frame_len f) b) of (fs, e, b) \<Rightarrow> (f # fs, e, b)))"

definition fb_round ::
    "nat \<Rightarrow> nat \<Rightarrow> frame_buffer \<times> bytes \<Rightarrow> frame list \<times> fix_error fault option \<times> frame_buffer \<times> bytes" where
  "fb_round burst n st =
     (case st of (b, stream) \<Rightarrow>
        let k = min n (length (fb_spare b));
            b = fb_commit (length (take k stream)) (fb_write_spare (take k stream) b)
        in case fb_drain burst b of (fs, e, b) \<Rightarrow> (fs, e, b, drop k stream))"

fun fb_rounds ::
    "nat \<Rightarrow> nat list \<Rightarrow> frame_buffer \<times> bytes \<Rightarrow> frame list \<times> fix_error fault option \<times> frame_buffer \<times> bytes" where
  "fb_rounds burst [] (b, stream) = ([], None, b, stream)"
| "fb_rounds burst (n # ns) (b, stream) =
     (case fb_round burst n (b, stream) of
        (fs, Some e, b, stream) \<Rightarrow> (fs, Some e, b, stream)
      | (fs, None, b, stream) \<Rightarrow>
          (case fb_rounds burst ns (b, stream) of (gs, e, b, stream) \<Rightarrow> (fs @ gs, e, b, stream)))"

text \<open>What the buffer holds is the head of what is left of the stream of messages.\<close>

definition fb_holds :: "nat \<Rightarrow> bytes list \<Rightarrow> frame_buffer \<Rightarrow> bytes \<Rightarrow> bool" where
  "fb_holds N ms b stream \<longleftrightarrow>
     fb_ok N b \<and> fb_filled b @ stream = concat ms \<and> list_all (\<lambda>m. short_message m \<and> length m \<le> N) ms"

lemma fb_peek_stream:
  assumes "fb_holds N (m # ms) b stream"
  shows "fb_peek b = (if length m \<le> fb_len b then map_ok Some (frame m) else Inr None)"
proof -
  have "prefix (fb_filled b) (m @ concat ms)"
    using assms by (metis concat.simps(2) fb_holds_def prefixI)
  then have fr: "frame (fb_filled b) = (if length m \<le> length (fb_filled b) then frame m else Inl (Err Incomplete))"
    using assms by (intro frame_on_stream) (auto simp: fb_holds_def)
  obtain f where f: "frame m = Inr f"
    using assms by (auto simp: fb_holds_def elim: short_message_frame)
  have "length (fb_filled b) = fb_len b" "fb_len b = length (fb_buf b) \<Longrightarrow> length m \<le> fb_len b"
    using assms by (auto simp: fb_holds_def fb_lengths fb_ok_def)
  then show ?thesis
    using fr f by (auto simp: fb_peek_def)
qed

lemma fb_peek_end:
  assumes "fb_holds N [] b stream" and "0 < N"
  shows "fb_peek b = Inr None"
  using assms by (auto simp: fb_holds_def fb_peek_def frame_def frame_begin_def fb_ok_def fb_filled_def)

lemma fb_drain_stream:
  assumes "fb_holds N ms b stream" and "0 < N"
  shows "\<exists>fs b' ms2. fb_drain burst b = (fs, None, b') \<and> ms = map fr_bytes fs @ ms2 \<and>
    fb_holds N ms2 b' stream \<and> (0 < burst \<and> stream = [] \<and> ms \<noteq> [] \<longrightarrow> fs \<noteq> []) \<and>
    (0 < burst \<longrightarrow> fb_len b' < N) \<and> list_all (\<lambda>f. frame (fr_bytes f) = Inr f) fs"
  using assms(1)
proof (induction burst arbitrary: b ms)
  case 0
  then show ?case
    by (intro exI [of _ "[]"]) simp
next
  case (Suc burst)
  show ?case
  proof (cases ms)
    case Nil
    then have "fb_len b = 0"
      using Suc.prems by (auto simp: fb_holds_def fb_ok_def fb_filled_def)
    then show ?thesis
      using Nil Suc.prems fb_peek_end [of N b stream] assms(2) by (intro exI [of _ "[]"]) simp
  next
    case (Cons m ms')
    have m: "short_message m" "length m \<le> N" and len: "length (fb_filled b) = fb_len b"
      using Suc.prems Cons by (auto simp: fb_holds_def fb_lengths)
    show ?thesis
    proof (cases "length m \<le> fb_len b")
      case False
      moreover from this have "stream \<noteq> []"
        using Suc.prems Cons len by (auto simp: fb_holds_def dest: arg_cong [of _ _ length])
      ultimately show ?thesis
        using Cons Suc.prems fb_peek_stream [of N m ms' b stream] m by (intro exI [of _ "[]"]) auto
    next
      case True
      obtain f where f: "frame m = Inr f" "fr_bytes f = m" "m \<noteq> []"
        using m(1) by (rule short_message_frame)
      let ?b = "fb_consume (frame_len f) b"
      have next_: "fb_holds N ms' ?b stream"
        using Suc.prems True len unfolding Cons fb_holds_def
        by (auto simp: fb_consume_spec frame_len_def f(2) append_eq_append_conv_if split: if_splits)
      have shrink: "fb_len ?b < N"
      proof -
        have "0 < length m" "fb_len b \<le> N" "fb_len ?b = fb_len b - length m"
          using f(2,3) True Suc.prems
          by (simp_all add: fb_consume_def Let_def frame_len_def fb_holds_def fb_ok_def)
        then show ?thesis
          using True by linarith
      qed
      obtain fs b' ms2 where IH: "fb_drain burst ?b = (fs, None, b')" "ms' = map fr_bytes fs @ ms2"
          "fb_holds N ms2 b' stream" "0 < burst \<longrightarrow> fb_len b' < N" "list_all (\<lambda>f. frame (fr_bytes f) = Inr f) fs"
        using Suc.IH [OF next_] by blast
      have "fb_len b' < N"
        using IH(1,4) shrink by (cases burst) auto
      then show ?thesis
        using IH f fb_peek_stream [of N m ms' b stream] Suc.prems True Cons
        by (intro exI [of _ "f # fs"] exI [of _ b'] exI [of _ ms2]) simp
    qed
  qed
qed

lemma fb_round_stream:
  assumes "fb_holds N ms b stream" and "fb_len b < N" and "0 < burst"
  shows "\<exists>fs b' stream' ms2. fb_round burst n (b, stream) = (fs, None, b', stream') \<and>
    ms = map fr_bytes fs @ ms2 \<and> fb_holds N ms2 b' stream' \<and> fb_len b' < N \<and>
    list_all (\<lambda>f. frame (fr_bytes f) = Inr f) fs \<and>
    (0 < n \<and> ms \<noteq> [] \<longrightarrow> length stream' + length ms2 < length stream + length ms)"
proof -
  define k where "k = min n (length (fb_spare b))"
  define b1 where "b1 = fb_commit (length (take k stream)) (fb_write_spare (take k stream) b)"
  have b1: "fb_holds N ms b1 (drop k stream)"
    using assms(1) fb_read [of N b "take k stream"] by (auto simp: fb_holds_def b1_def k_def)
  have pos: "0 < N"
    using assms(2) by simp
  obtain fs b' ms2 where *: "fb_drain burst b1 = (fs, None, b')" "ms = map fr_bytes fs @ ms2"
      "fb_holds N ms2 b' (drop k stream)" "0 < burst \<and> drop k stream = [] \<and> ms \<noteq> [] \<longrightarrow> fs \<noteq> []"
      "0 < burst \<longrightarrow> fb_len b' < N" "list_all (\<lambda>f. frame (fr_bytes f) = Inr f) fs"
    using fb_drain_stream [OF b1 pos, of burst] by blast
  have "length (fb_spare b) = N - fb_len b"
    using assms(1) by (simp add: fb_holds_def fb_lengths)
  then have "0 < n \<longrightarrow> 0 < k"
    using assms(2) unfolding k_def by linarith
  then have "0 < n \<and> ms \<noteq> [] \<longrightarrow> length (drop k stream) + length ms2 < length stream + length ms"
    using *(2,4) assms(3) by (cases "drop k stream = []") auto
  moreover have "fb_round burst n (b, stream) = (fs, None, b', drop k stream)"
    using *(1) by (simp add: fb_round_def b1_def k_def Let_def)
  ultimately show ?thesis
    using * assms(3) by blast
qed

lemma fb_rounds_stream:
  assumes "fb_holds N ms b stream" and "fb_len b < N" and "0 < burst"
  shows "\<exists>fs b' stream' ms2. fb_rounds burst ns (b, stream) = (fs, None, b', stream') \<and>
    ms = map fr_bytes fs @ ms2 \<and> fb_holds N ms2 b' stream' \<and>
    list_all (\<lambda>f. frame (fr_bytes f) = Inr f) fs \<and>
    (list_all ((<) 0) ns \<and> length stream + length ms \<le> length ns \<longrightarrow> ms2 = [])"
  using assms(1,2)
proof (induction ns arbitrary: b stream ms)
  case Nil
  then show ?case
    by (intro exI [of _ "[]"]) simp
next
  case (Cons n ns)
  obtain fs b1 stream1 ms1 where 1: "fb_round burst n (b, stream) = (fs, None, b1, stream1)"
      "ms = map fr_bytes fs @ ms1" "fb_holds N ms1 b1 stream1" "fb_len b1 < N"
      "list_all (\<lambda>f. frame (fr_bytes f) = Inr f) fs"
      "0 < n \<and> ms \<noteq> [] \<longrightarrow> length stream1 + length ms1 < length stream + length ms"
    using fb_round_stream [OF Cons.prems assms(3), of n] by blast
  obtain gs b2 stream2 ms2 where 2: "fb_rounds burst ns (b1, stream1) = (gs, None, b2, stream2)"
      "ms1 = map fr_bytes gs @ ms2" "fb_holds N ms2 b2 stream2" "list_all (\<lambda>f. frame (fr_bytes f) = Inr f) gs"
      "list_all ((<) 0) ns \<and> length stream1 + length ms1 \<le> length ns \<longrightarrow> ms2 = []"
    using Cons.IH [OF 1(3,4)] by blast
  have "ms2 = []" if "list_all ((<) 0) (n # ns)" "length stream + length ms \<le> length (n # ns)"
    using that 1(2,6) 2(2,5) by (cases "ms = []") auto
  then show ?case
    using 1 2 by (intro exI [of _ "fs @ gs"] exI [of _ b2] exI [of _ stream2] exI [of _ ms2]) simp
qed

subsection \<open>Properties\<close>

text \<open>
  C27. Framing accepts exactly the well-formed messages. A buffer frames if and only if it starts with
  a message - a non-empty begin string, a length field of at most 19 digits that counts the body, a
  body that ends with a separator and has at most 65536 bytes, and a three-digit sum of all bytes
  before it modulo 256 - and the frame is that message, whatever follows it. On no buffer does it panic.
\<close>

theorem frame_exact:
  "(frame buf = Inr f \<longleftrightarrow>
    (\<exists>bs ds body cs rest. buf = message bs ds body cs @ rest \<and> message_ok bs ds body cs \<and>
       f = \<lparr> fr_bytes = message bs ds body cs, fr_begin = bs, fr_body = body \<rparr>)) \<and>
   frame buf \<noteq> Inl Panic"
  using frame_Inr [of buf f] frame_no_panic [of buf] by (simp add: no_panic_def)

text \<open>
  C9. A stream of messages is reassembled however it is cut. Read in pieces of any sizes, with any
  burst of at least one message, into a buffer no smaller than the longest message, a stream of well-formed messages (begin
  string of at most 16 bytes, length of at most 6 digits) yields no error; the frames handed out are
  the first messages of the stream, in order and each framed as if it stood alone; nothing is lost
  between them, the buffer and the unread rest; and once there were as many non-empty reads as bytes
  and messages, all of them were handed out.
\<close>

theorem stream_reassembled:
  assumes "list_all (\<lambda>m. short_message m \<and> length m \<le> N) ms" and "0 < N" and "0 < burst"
  shows "\<exists>fs b rest ms2. fb_rounds burst ns (fb_new N, concat ms) = (fs, None, b, rest) \<and>
    ms = map fr_bytes fs @ ms2 \<and> concat ms2 = fb_filled b @ rest \<and>
    list_all (\<lambda>f. frame (fr_bytes f) = Inr f) fs \<and>
    (list_all ((<) 0) ns \<and> length (concat ms) + length ms \<le> length ns \<longrightarrow> map fr_bytes fs = ms)"
proof -
  have 1: "fb_holds N ms (fb_new N) (concat ms)"
    using assms(1) by (simp add: fb_holds_def fb_new_ok)
  have 2: "fb_len (fb_new N) < N"
    using assms(2) by (simp add: fb_new_def)
  from fb_rounds_stream [OF 1 2 assms(3), of ns] show ?thesis
    by (fastforce simp: fb_holds_def)
qed

text \<open>A short heartbeat, framed.\<close>

definition demo_message :: bytes where
  "demo_message = message [0x46, 0x49, 0x58] [0x35] [0x33, 0x35, 0x3D, 0x30, 0x01] [0x32, 0x32, 0x33]"

lemma demo_message_short: "short_message demo_message"
proof -
  have "message_ok [0x46, 0x49, 0x58] [0x35] [0x33, 0x35, 0x3D, 0x30, 0x01] [0x32, 0x32, 0x33]"
    by (simp add: message_ok_def SOH_def is_digit_def dec_value_Cons FIX_MAX_BODY_LENGTH_def message_head_def
        checksum_def)
  then show ?thesis
    unfolding short_message_def demo_message_def by force
qed

theorem stream_reassembled_witness:
  "\<exists>fs b rest. fb_rounds 1 (replicate 46 1) (fb_new 40, concat [demo_message, demo_message]) = (fs, None, b, rest) \<and>
    map fr_bytes fs = [demo_message, demo_message]"
proof -
  have len: "length demo_message = 22"
    by (simp add: demo_message_def message_def message_head_def)
  have "list_all (\<lambda>m. short_message m \<and> length m \<le> 40) [demo_message, demo_message]"
    using demo_message_short len by simp
  from stream_reassembled [OF this, of 1 "replicate 46 1"]
  obtain fs b rest where "fb_rounds 1 (replicate 46 1) (fb_new 40, concat [demo_message, demo_message]) = (fs, None, b, rest)"
      "list_all ((<) 0) (replicate 46 (1::nat)) \<and>
        length (concat [demo_message, demo_message]) + length [demo_message, demo_message] \<le> length (replicate 46 (1::nat)) \<longrightarrow>
        map fr_bytes fs = [demo_message, demo_message]"
    by auto
  then show ?thesis
    using len by (simp add: list_all_iff)
qed

text \<open>
  A message with a long begin string is a message when it arrives whole; when its first 19 bytes
  arrive alone, they are reported as no message at all.
\<close>

lemma frame_depends_on_cut:
  "\<exists>m f. frame m = Inr f \<and> fr_bytes f = m \<and> frame (take 19 m) = Inl (Err BeginString)"
proof -
  let ?bs = "[0x41, 0x41, 0x41, 0x41, 0x41, 0x41, 0x41, 0x41, 0x41, 0x41, 0x41, 0x41, 0x41, 0x41, 0x41, 0x41, 0x41 :: u8]" and ?body = "[0x33, 0x35, 0x3D, 0x30, 0x01 :: u8]"
  let ?m = "message ?bs [0x35] ?body [0x30, 0x37, 0x33]"
  have "message_ok ?bs [0x35] ?body [0x30, 0x37, 0x33]"
    by (simp add: message_ok_def SOH_def is_digit_def dec_value_Cons FIX_MAX_BODY_LENGTH_def message_head_def
        checksum_def)
  then have "frame ?m = Inr \<lparr> fr_bytes = ?m, fr_begin = ?bs, fr_body = ?body \<rparr>"
    unfolding frame_Inr by force
  moreover have "fr_bytes \<lparr> fr_bytes = ?m, fr_begin = ?bs, fr_body = ?body \<rparr> = ?m"
    by (rule frame.select_convs)
  moreover have "frame (take 19 ?m) = Inl (Err BeginString)"
    by code_simp
  ultimately show ?thesis
    by blast
qed

end
