(* ===== verification/Fix_Market_Data.thy ===== *)
theory Fix_Market_Data
  imports Fix_Frame
begin

text \<open>
  Market-data messages of the FIX crate (jeed-fix market\_data.rs): the fixed-size message, its entries,
  and \<open>parse_md_message\<close>, a loop over the fields of a frame. The local variables of the loop are the
  record \<open>md_state\<close>; the body of the loop is \<open>md_step\<close>, its two halves \<open>md_group_field\<close> and
  \<open>md_header_field\<close>.
\<close>

subsection \<open>Text fields\<close>

definition FIX_TEXT_LEN :: nat where "FIX_TEXT_LEN = 32"
definition MD_MAX_ENTRIES :: nat where "MD_MAX_ENTRIES = 32"

record fix_text =
  ft_bytes :: bytes
  ft_len :: u8

definition FIX_TEXT_EMPTY :: fix_text where
  "FIX_TEXT_EMPTY = \<lparr> ft_bytes = replicate FIX_TEXT_LEN 0, ft_len = 0 \<rparr>"

definition fix_text_new :: "bytes \<Rightarrow> fix_text" where
  "fix_text_new value =
     (let n = min (length value) FIX_TEXT_LEN
      in \<lparr> ft_bytes = take n value @ drop n (ft_bytes FIX_TEXT_EMPTY), ft_len = word_of_nat n \<rparr>)"

definition fix_text_bytes :: "fix_text \<Rightarrow> bytes" where
  "fix_text_bytes t = take (unat (ft_len t)) (ft_bytes t)"

definition fix_text_is_empty :: "fix_text \<Rightarrow> bool" where
  "fix_text_is_empty t \<longleftrightarrow> ft_len t = 0"

lemma fix_text_bytes_new [simp]: "fix_text_bytes (fix_text_new value) = take FIX_TEXT_LEN value"
proof -
  have "unat (word_of_nat (min (length value) FIX_TEXT_LEN) :: u8) = min (length value) FIX_TEXT_LEN"
    by (simp add: unsigned_of_nat take_bit_nat_eq_self FIX_TEXT_LEN_def)
  then show ?thesis
    by (simp add: fix_text_bytes_def fix_text_new_def Let_def FIX_TEXT_LEN_def min_def)
qed

subsection \<open>Entries\<close>

record fix_scales =
  fs_price :: scale
  fs_quantity :: scale

datatype md_entry_type =
    MdBid | MdOffer | MdTrade | IndexValue | OpeningPrice | ClosingPrice | SettlementPrice
  | SessionHigh | SessionLow | SessionVwap | TradeVolume | OpenInterest | MdOther u8

definition md_entry_type_from_byte :: "u8 \<Rightarrow> md_entry_type" where
  "md_entry_type_from_byte b =
     (if b = 0x30 then MdBid
      else if b = 0x31 then MdOffer
      else if b = 0x32 then MdTrade
      else if b = 0x33 then IndexValue
      else if b = 0x34 then OpeningPrice
      else if b = 0x35 then ClosingPrice
      else if b = 0x36 then SettlementPrice
      else if b = 0x37 then SessionHigh
      else if b = 0x38 then SessionLow
      else if b = 0x39 then SessionVwap
      else if b = 0x42 then TradeVolume
      else if b = 0x43 then OpenInterest
      else MdOther b)"

fun md_entry_type_as_byte :: "md_entry_type \<Rightarrow> u8" where
  "md_entry_type_as_byte MdBid = 0x30"
| "md_entry_type_as_byte MdOffer = 0x31"
| "md_entry_type_as_byte MdTrade = 0x32"
| "md_entry_type_as_byte IndexValue = 0x33"
| "md_entry_type_as_byte OpeningPrice = 0x34"
| "md_entry_type_as_byte ClosingPrice = 0x35"
| "md_entry_type_as_byte SettlementPrice = 0x36"
| "md_entry_type_as_byte SessionHigh = 0x37"
| "md_entry_type_as_byte SessionLow = 0x38"
| "md_entry_type_as_byte SessionVwap = 0x39"
| "md_entry_type_as_byte TradeVolume = 0x42"
| "md_entry_type_as_byte OpenInterest = 0x43"
| "md_entry_type_as_byte (MdOther code) = code"

definition is_book_side :: "md_entry_type \<Rightarrow> bool" where
  "is_book_side t \<longleftrightarrow> t = MdBid \<or> t = MdOffer"

datatype md_update_action = MdNew | MdChange | MdDelete | MdDeleteThru | MdDeleteFrom | MdOverlay

definition md_update_action_from_byte :: "u8 \<Rightarrow> fix_error + md_update_action" where
  "md_update_action_from_byte b =
     (if b = 0x30 then Inr MdNew
      else if b = 0x31 then Inr MdChange
      else if b = 0x32 then Inr MdDelete
      else if b = 0x33 then Inr MdDeleteThru
      else if b = 0x34 then Inr MdDeleteFrom
      else if b = 0x35 then Inr MdOverlay
      else Inl (UnknownUpdateAction b))"

record md_entry =
  e_type :: md_entry_type
  e_action :: md_update_action
  e_price :: i64
  e_size :: u64
  e_date_ns :: u64
  e_time_ns :: u64
  e_order_count :: u32
  e_level :: u8
  e_symbol :: fix_text
  e_has_price :: bool
  e_has_size :: bool
  e_has_date :: bool
  e_has_time :: bool
  e_has_order_count :: bool
  e_has_level :: bool

definition MD_ENTRY_EMPTY :: md_entry where
  "MD_ENTRY_EMPTY =
     \<lparr> e_type = MdOther 0, e_action = MdNew, e_price = 0, e_size = 0, e_date_ns = 0, e_time_ns = 0,
       e_order_count = 0, e_level = 0, e_symbol = FIX_TEXT_EMPTY, e_has_price = False, e_has_size = False,
       e_has_date = False, e_has_time = False, e_has_order_count = False, e_has_level = False \<rparr>"

definition entry_venue_time :: "md_entry \<Rightarrow> u64 option" where
  "entry_venue_time e =
     (if e_has_date e \<and> e_has_time e then Some (e_date_ns e + e_time_ns e) else None)"

subsection \<open>Messages\<close>

record md_message =
  m_type :: msg_type
  m_seq_num :: u64
  m_sending_time :: u64
  m_req_id :: fix_text
  m_symbol :: fix_text
  m_declared :: u32
  m_poss_dup :: bool
  m_entries :: "md_entry list"
  m_count :: u8

definition MD_MESSAGE_EMPTY :: md_message where
  "MD_MESSAGE_EMPTY =
     \<lparr> m_type = OtherType 0, m_seq_num = 0, m_sending_time = 0, m_req_id = FIX_TEXT_EMPTY,
       m_symbol = FIX_TEXT_EMPTY, m_declared = 0, m_poss_dup = False,
       m_entries = replicate MD_MAX_ENTRIES MD_ENTRY_EMPTY, m_count = 0 \<rparr>"

definition md_entries :: "md_message \<Rightarrow> md_entry list" where
  "md_entries m = take (unat (m_count m)) (m_entries m)"

definition md_is_snapshot :: "md_message \<Rightarrow> bool" where
  "md_is_snapshot m \<longleftrightarrow> m_type m = MarketDataSnapshot"

definition md_entry_symbol :: "md_message \<Rightarrow> md_entry \<Rightarrow> bytes" where
  "md_entry_symbol m e =
     (if fix_text_is_empty (e_symbol e) then fix_text_bytes (m_symbol m) else fix_text_bytes (e_symbol e))"

definition md_venue_time :: "md_message \<Rightarrow> u64 option" where
  "md_venue_time m = Option.bind (find (\<lambda>e. entry_venue_time e \<noteq> None) (md_entries m)) entry_venue_time"

definition md_side_depth :: "md_message \<Rightarrow> md_entry_type \<Rightarrow> nat" where
  "md_side_depth m side =
     fold max (map (\<lambda>e. unat (e_level e) + 1) (filter (\<lambda>e. e_type e = side) (md_entries m))) 0"

subsection \<open>Tags\<close>

definition TAG_MSG_TYPE :: u32 where "TAG_MSG_TYPE = 35"
definition TAG_MSG_SEQ_NUM :: u32 where "TAG_MSG_SEQ_NUM = 34"
definition TAG_SENDING_TIME :: u32 where "TAG_SENDING_TIME = 52"
definition TAG_POSS_DUP_FLAG :: u32 where "TAG_POSS_DUP_FLAG = 43"
definition TAG_SYMBOL :: u32 where "TAG_SYMBOL = 55"
definition TAG_MD_REQ_ID :: u32 where "TAG_MD_REQ_ID = 262"
definition TAG_NO_MD_ENTRIES :: u32 where "TAG_NO_MD_ENTRIES = 268"
definition TAG_MD_ENTRY_TYPE :: u32 where "TAG_MD_ENTRY_TYPE = 269"
definition TAG_MD_ENTRY_PX :: u32 where "TAG_MD_ENTRY_PX = 270"
definition TAG_MD_ENTRY_SIZE :: u32 where "TAG_MD_ENTRY_SIZE = 271"
definition TAG_MD_ENTRY_DATE :: u32 where "TAG_MD_ENTRY_DATE = 272"
definition TAG_MD_ENTRY_TIME :: u32 where "TAG_MD_ENTRY_TIME = 273"
definition TAG_MD_UPDATE_ACTION :: u32 where "TAG_MD_UPDATE_ACTION = 279"
definition TAG_NUMBER_OF_ORDERS :: u32 where "TAG_NUMBER_OF_ORDERS = 346"
definition TAG_MD_PRICE_LEVEL :: u32 where "TAG_MD_PRICE_LEVEL = 1023"

lemmas md_tag_defs =
  TAG_MSG_TYPE_def TAG_MSG_SEQ_NUM_def TAG_SENDING_TIME_def TAG_POSS_DUP_FLAG_def TAG_SYMBOL_def
  TAG_MD_REQ_ID_def TAG_NO_MD_ENTRIES_def TAG_MD_ENTRY_TYPE_def TAG_MD_ENTRY_PX_def TAG_MD_ENTRY_SIZE_def
  TAG_MD_ENTRY_DATE_def TAG_MD_ENTRY_TIME_def TAG_MD_UPDATE_ACTION_def TAG_NUMBER_OF_ORDERS_def
  TAG_MD_PRICE_LEVEL_def

definition is_group_tag :: "u32 \<Rightarrow> bool" where
  "is_group_tag tag \<longleftrightarrow> tag \<in> {TAG_MD_ENTRY_TYPE, TAG_MD_ENTRY_PX, TAG_MD_ENTRY_SIZE, TAG_MD_ENTRY_DATE,
     TAG_MD_ENTRY_TIME, TAG_MD_UPDATE_ACTION, TAG_NUMBER_OF_ORDERS, TAG_MD_PRICE_LEVEL}"

subsection \<open>The loop\<close>

record md_state =
  ms_msg :: md_message
  ms_cur :: "md_entry option"
  ms_bid_seen :: u8
  ms_ask_seen :: u8
  ms_have_type :: bool
  ms_have_seq :: bool

definition u8_saturating_add :: "u8 \<Rightarrow> u8 \<Rightarrow> u8" where
  "u8_saturating_add x y = (if unat x + unat y < 256 then x + y else 255)"

text \<open>\<open>push_entry\<close>: append a finished entry, giving it its implied level.\<close>

definition md_push_entry :: "md_entry \<Rightarrow> md_state \<Rightarrow> fix_error + md_state" where
  "md_push_entry e s =
     (if e_type e = MdOther 0 then Inl (MissingTag TAG_MD_ENTRY_TYPE) else
      let (e, s) =
        (if \<not> e_has_level e then
           (case e_type e of
              MdBid \<Rightarrow> (e\<lparr> e_level := ms_bid_seen s \<rparr>, s\<lparr> ms_bid_seen := u8_saturating_add (ms_bid_seen s) 1 \<rparr>)
            | MdOffer \<Rightarrow> (e\<lparr> e_level := ms_ask_seen s \<rparr>, s\<lparr> ms_ask_seen := u8_saturating_add (ms_ask_seen s) 1 \<rparr>)
            | _ \<Rightarrow> (e\<lparr> e_level := 0 \<rparr>, s))
         else
           (case e_type e of
              MdBid \<Rightarrow> (e, s\<lparr> ms_bid_seen := u8_saturating_add (ms_bid_seen s) 1 \<rparr>)
            | MdOffer \<Rightarrow> (e, s\<lparr> ms_ask_seen := u8_saturating_add (ms_ask_seen s) 1 \<rparr>)
            | _ \<Rightarrow> (e, s)));
          msg = ms_msg s; idx = unat (m_count msg)
      in if idx \<ge> MD_MAX_ENTRIES
         then Inl (TooManyEntries (max (m_declared msg) (word_of_nat idx + 1)) (word_of_nat MD_MAX_ENTRIES))
         else Inr (s\<lparr> ms_msg := msg\<lparr> m_entries := (m_entries msg)[idx := e], m_count := m_count msg + 1 \<rparr> \<rparr>))"

text \<open>\<open>cur.take()\<close> and \<open>push_entry\<close> when there was an entry.\<close>

definition md_close_entry :: "md_state \<Rightarrow> fix_error + md_state" where
  "md_close_entry s =
     (case ms_cur s of None \<Rightarrow> Inr s | Some e \<Rightarrow> md_push_entry e (s\<lparr> ms_cur := None \<rparr>))"

text \<open>Whether a group tag is already present in the entry being read.\<close>

definition md_repeats :: "u32 \<Rightarrow> md_entry option \<Rightarrow> bool" where
  "md_repeats tag cur =
     (case cur of
        None \<Rightarrow> False
      | Some e \<Rightarrow>
          if tag = TAG_MD_ENTRY_TYPE then e_type e \<noteq> MdOther 0
          else if tag = TAG_MD_ENTRY_PX then e_has_price e
          else if tag = TAG_MD_ENTRY_SIZE then e_has_size e
          else if tag = TAG_MD_ENTRY_DATE then e_has_date e
          else if tag = TAG_MD_ENTRY_TIME then e_has_time e
          else if tag = TAG_NUMBER_OF_ORDERS then e_has_order_count e
          else if tag = TAG_MD_PRICE_LEVEL then e_has_level e
          else False)"

definition md_set_field :: "fix_scales \<Rightarrow> field \<Rightarrow> md_entry \<Rightarrow> fix_error + md_entry" where
  "md_set_field scales f e =
     (let tag = f_tag f
      in if tag = TAG_MD_ENTRY_TYPE
         then map_ok (\<lambda>b. e\<lparr> e_type := md_entry_type_from_byte b \<rparr>) (field_first_byte f)
         else if tag = TAG_MD_UPDATE_ACTION
         then and_then (field_first_byte f) (\<lambda>b.
                map_ok (\<lambda>a. e\<lparr> e_action := a \<rparr>) (md_update_action_from_byte b))
         else if tag = TAG_MD_ENTRY_PX
         then map_ok (\<lambda>v. e\<lparr> e_price := v, e_has_price := True \<rparr>) (field_as_scaled (fs_price scales) f)
         else if tag = TAG_MD_ENTRY_SIZE
         then map_ok (\<lambda>v. e\<lparr> e_size := v, e_has_size := True \<rparr>) (field_as_scaled_unsigned (fs_quantity scales) f)
         else if tag = TAG_MD_ENTRY_DATE
         then map_ok (\<lambda>v. e\<lparr> e_date_ns := v, e_has_date := True \<rparr>) (field_as_utc_date f)
         else if tag = TAG_MD_ENTRY_TIME
         then map_ok (\<lambda>v. e\<lparr> e_time_ns := v, e_has_time := True \<rparr>) (field_as_utc_time f)
         else if tag = TAG_NUMBER_OF_ORDERS
         then map_ok (\<lambda>v. e\<lparr> e_order_count := v, e_has_order_count := True \<rparr>) (field_as_u32 f)
         else if tag = TAG_MD_PRICE_LEVEL
         then map_ok (\<lambda>v. e\<lparr> e_level := ucast (min (saturating_sub v 1) 255), e_has_level := True \<rparr>) (field_as_u32 f)
         else Inr e)"

definition md_group_field :: "fix_scales \<Rightarrow> field \<Rightarrow> md_state \<Rightarrow> fix_error + md_state" where
  "md_group_field scales f s =
     (let tag = f_tag f;
          delimiter = (if m_type (ms_msg s) = MarketDataIncremental then TAG_MD_UPDATE_ACTION else TAG_MD_ENTRY_TYPE)
      in and_then
           (if tag = delimiter \<or> md_repeats tag (ms_cur s)
            then map_ok (\<lambda>s. s\<lparr> ms_cur := Some MD_ENTRY_EMPTY \<rparr>) (md_close_entry s)
            else Inr s)
           (\<lambda>s. case ms_cur s of
              None \<Rightarrow> Inl (GroupTagOutsideEntry tag)
            | Some e \<Rightarrow> map_ok (\<lambda>e. s\<lparr> ms_cur := Some e \<rparr>) (md_set_field scales f e)))"

definition first_or_zero :: "bytes \<Rightarrow> u8" where
  "first_or_zero bs = (case bs of [] \<Rightarrow> 0 | b # _ \<Rightarrow> b)"

definition md_header_field :: "field \<Rightarrow> md_state \<Rightarrow> fix_error + md_state" where
  "md_header_field f s =
     (let tag = f_tag f; msg = ms_msg s
      in if tag = TAG_MSG_TYPE then
           (let t = msg_type_from_value (f_value f)
            in if \<not> is_market_data t then Inl (UnexpectedMsgType (first_or_zero (f_value f)))
               else Inr (s\<lparr> ms_msg := msg\<lparr> m_type := t \<rparr>, ms_have_type := True \<rparr>))
         else if tag = TAG_MSG_SEQ_NUM
         then map_ok (\<lambda>v. s\<lparr> ms_msg := msg\<lparr> m_seq_num := v \<rparr>, ms_have_seq := True \<rparr>) (field_as_u64 f)
         else if tag = TAG_SENDING_TIME
         then map_ok (\<lambda>v. s\<lparr> ms_msg := msg\<lparr> m_sending_time := v \<rparr> \<rparr>) (field_as_utc_timestamp f)
         else if tag = TAG_POSS_DUP_FLAG then Inr (s\<lparr> ms_msg := msg\<lparr> m_poss_dup := field_is_yes f \<rparr> \<rparr>)
         else if tag = TAG_MD_REQ_ID then Inr (s\<lparr> ms_msg := msg\<lparr> m_req_id := fix_text_new (f_value f) \<rparr> \<rparr>)
         else if tag = TAG_NO_MD_ENTRIES
         then map_ok (\<lambda>v. s\<lparr> ms_msg := msg\<lparr> m_declared := v \<rparr> \<rparr>) (field_as_u32 f)
         else if tag = TAG_SYMBOL then
           Inr (case ms_cur s of
                  Some e \<Rightarrow> s\<lparr> ms_cur := Some (e\<lparr> e_symbol := fix_text_new (f_value f) \<rparr>) \<rparr>
                | None \<Rightarrow> s\<lparr> ms_msg := msg\<lparr> m_symbol := fix_text_new (f_value f) \<rparr> \<rparr>)
         else Inr s)"

definition md_step :: "fix_scales \<Rightarrow> field \<Rightarrow> md_state \<Rightarrow> fix_error + md_state" where
  "md_step scales f s = (if is_group_tag (f_tag f) then md_group_field scales f s else md_header_field f s)"

definition md_start :: md_state where
  "md_start = \<lparr> ms_msg = MD_MESSAGE_EMPTY, ms_cur = None, ms_bid_seen = 0, ms_ask_seen = 0,
     ms_have_type = False, ms_have_seq = False \<rparr>"

definition parse_md_message :: "frame \<Rightarrow> fix_scales \<Rightarrow> fix_error + md_message" where
  "parse_md_message fr scales =
     and_then (for_fields (md_step scales) (frame_fields fr) md_start) (\<lambda>s.
     and_then (md_close_entry s) (\<lambda>s.
     let msg = ms_msg s
     in if \<not> ms_have_type s then Inl (MissingTag TAG_MSG_TYPE)
        else if \<not> ms_have_seq s then Inl (MissingTag TAG_MSG_SEQ_NUM)
        else if m_declared msg \<noteq> ucast (m_count msg)
        then Inl (EntryCount (m_declared msg) (ucast (m_count msg)))
        else Inr msg))"

subsection \<open>The loop keeps its message well-formed\<close>

text \<open>
  Every entry has a type, and one without an explicit level stands at its position within its side.
\<close>

definition side_count :: "md_entry_type \<Rightarrow> md_entry list \<Rightarrow> nat" where
  "side_count t es = length (filter (\<lambda>e. e_type e = t) es)"

definition implied_level :: "md_entry_type \<Rightarrow> md_entry list \<Rightarrow> nat" where
  "implied_level t es = (if is_book_side t then side_count t es else 0)"

definition levels_ok :: "md_entry list \<Rightarrow> bool" where
  "levels_ok es \<longleftrightarrow>
     (\<forall>i < length es. e_type (es ! i) \<noteq> MdOther 0 \<and>
        (e_has_level (es ! i) \<or> unat (e_level (es ! i)) = implied_level (e_type (es ! i)) (take i es)))"

definition md_inv :: "md_state \<Rightarrow> bool" where
  "md_inv s \<longleftrightarrow>
     length (m_entries (ms_msg s)) = MD_MAX_ENTRIES \<and> unat (m_count (ms_msg s)) \<le> MD_MAX_ENTRIES \<and>
     levels_ok (md_entries (ms_msg s)) \<and>
     unat (ms_bid_seen s) = side_count MdBid (md_entries (ms_msg s)) \<and>
     unat (ms_ask_seen s) = side_count MdOffer (md_entries (ms_msg s)) \<and>
     (ms_have_type s \<longrightarrow> is_market_data (m_type (ms_msg s)))"

lemma side_count_simps [simp]:
  "side_count t [] = 0"
  "side_count t (es @ [e]) = side_count t es + (if e_type e = t then 1 else 0)"
  by (simp_all add: side_count_def)

lemma side_count_le: "side_count t es \<le> length es"
  by (simp add: side_count_def)

lemma levels_ok_snoc:
  "levels_ok (es @ [e]) \<longleftrightarrow> levels_ok es \<and> e_type e \<noteq> MdOther 0 \<and>
     (e_has_level e \<or> unat (e_level e) = implied_level (e_type e) es)"
  by (auto simp: levels_ok_def nth_append less_Suc_eq)

lemma length_md_entries: "md_inv s \<Longrightarrow> length (md_entries (ms_msg s)) = unat (m_count (ms_msg s))"
  by (simp add: md_inv_def md_entries_def)

lemma seen_plus_one:
  assumes "unat x = side_count t es" and "length es \<le> MD_MAX_ENTRIES"
  shows "unat (u8_saturating_add x 1) = side_count t es + 1"
  using assms side_count_le [of t es]
  by (simp add: u8_saturating_add_def MD_MAX_ENTRIES_def unat_word_ariths)

text \<open>What \<open>push_entry\<close> appends: the entry with its level.\<close>

definition with_level :: "md_entry \<Rightarrow> md_entry list \<Rightarrow> md_entry" where
  "with_level e es = (if e_has_level e then e else e\<lparr> e_level := word_of_nat (implied_level (e_type e) es) \<rparr>)"

definition seen_after :: "md_entry \<Rightarrow> md_state \<Rightarrow> md_state" where
  "seen_after e s =
     (if e_type e = MdBid then s\<lparr> ms_bid_seen := u8_saturating_add (ms_bid_seen s) 1 \<rparr>
      else if e_type e = MdOffer then s\<lparr> ms_ask_seen := u8_saturating_add (ms_ask_seen s) 1 \<rparr> else s)"

lemma seen_after_fields [simp]:
  "ms_msg (seen_after e s) = ms_msg s" "ms_cur (seen_after e s) = ms_cur s"
  "ms_have_type (seen_after e s) = ms_have_type s" "ms_have_seq (seen_after e s) = ms_have_seq s"
  by (simp_all add: seen_after_def)

lemma md_push_entry_eq:
  assumes "md_inv s"
  shows "md_push_entry e s =
    (if e_type e = MdOther 0 then Inl (MissingTag TAG_MD_ENTRY_TYPE)
     else if unat (m_count (ms_msg s)) \<ge> MD_MAX_ENTRIES
     then Inl (TooManyEntries (max (m_declared (ms_msg s)) (word_of_nat (unat (m_count (ms_msg s))) + 1))
            (word_of_nat MD_MAX_ENTRIES))
     else Inr ((seen_after e s)\<lparr> ms_msg := (ms_msg s)\<lparr>
            m_entries := (m_entries (ms_msg s))[unat (m_count (ms_msg s)) := with_level e (md_entries (ms_msg s))],
            m_count := m_count (ms_msg s) + 1 \<rparr> \<rparr>))"
proof -
  have "ms_bid_seen s = word_of_nat (side_count MdBid (md_entries (ms_msg s)))"
       "ms_ask_seen s = word_of_nat (side_count MdOffer (md_entries (ms_msg s)))"
    using assms by (metis md_inv_def of_nat_unat ucast_id)+
  then show ?thesis
    by (cases "e_type e") (simp_all add: md_push_entry_def with_level_def seen_after_def Let_def implied_level_def
        is_book_side_def)
qed

lemma md_push_entry_ok:
  assumes inv: "md_inv s" and push: "md_push_entry e s = Inr s'"
  shows "md_inv s'" "md_entries (ms_msg s') = md_entries (ms_msg s) @ [with_level e (md_entries (ms_msg s))]"
    "ms_cur s' = ms_cur s"
    "\<exists>es n. ms_msg s' = (ms_msg s)\<lparr> m_entries := es, m_count := n \<rparr> \<and> ms_have_type s' = ms_have_type s \<and>
      ms_have_seq s' = ms_have_seq s"
proof -
  let ?m = "ms_msg s" and ?n = "unat (m_count (ms_msg s))"
  have n: "?n < MD_MAX_ENTRIES" "e_type e \<noteq> MdOther 0" and
      s': "s' = (seen_after e s)\<lparr> ms_msg := ?m\<lparr>
            m_entries := (m_entries ?m)[?n := with_level e (md_entries ?m)], m_count := m_count ?m + 1 \<rparr> \<rparr>"
    using push unfolding md_push_entry_eq [OF inv] by (auto split: if_splits)
  have len: "length (m_entries ?m) = MD_MAX_ENTRIES"
    using inv by (simp add: md_inv_def)
  have suc: "unat (m_count ?m + 1) = Suc ?n"
    using n(1) by (simp add: unat_word_ariths MD_MAX_ENTRIES_def)
  show entries: "md_entries (ms_msg s') = md_entries ?m @ [with_level e (md_entries ?m)]"
    using n(1) len by (simp add: s' md_entries_def suc take_Suc_conv_app_nth)
  have es: "length (md_entries ?m) = ?n"
    by (rule length_md_entries [OF inv])
  have level: "unat (e_level (with_level e (md_entries ?m))) = implied_level (e_type e) (md_entries ?m)"
    if "\<not> e_has_level e"
  proof -
    have "implied_level (e_type e) (md_entries ?m) < 256"
      using side_count_le [of "e_type e" "md_entries ?m"] n(1)
      by (simp add: implied_level_def es MD_MAX_ENTRIES_def)
    then show ?thesis
      using that by (simp add: with_level_def unsigned_of_nat take_bit_nat_eq_self)
  qed
  have type: "e_type (with_level e (md_entries ?m)) = e_type e" "e_has_level (with_level e (md_entries ?m)) = e_has_level e"
    by (simp_all add: with_level_def)
  have seen: "unat (ms_bid_seen (seen_after e s)) = side_count MdBid (md_entries ?m) + (if e_type e = MdBid then 1 else 0)"
      "unat (ms_ask_seen (seen_after e s)) = side_count MdOffer (md_entries ?m) + (if e_type e = MdOffer then 1 else 0)"
    using inv seen_plus_one [of "ms_bid_seen s" MdBid "md_entries ?m"]
      seen_plus_one [of "ms_ask_seen s" MdOffer "md_entries ?m"] n(1)
    by (simp_all add: seen_after_def md_inv_def es)
  show "md_inv s'"
    unfolding md_inv_def entries levels_ok_snoc
    using inv n level type seen len suc by (auto simp: s' md_inv_def)
  show "ms_cur s' = ms_cur s"
      "\<exists>es n. ms_msg s' = (ms_msg s)\<lparr> m_entries := es, m_count := n \<rparr> \<and> ms_have_type s' = ms_have_type s \<and>
      ms_have_seq s' = ms_have_seq s"
    unfolding s' by auto
qed

lemma md_inv_start: "md_inv md_start"
  by (simp add: md_inv_def md_start_def MD_MESSAGE_EMPTY_def md_entries_def levels_ok_def)

lemma md_inv_cur [simp]: "md_inv (s\<lparr> ms_cur := c \<rparr>) = md_inv s"
  by (simp add: md_inv_def)

lemma md_close_entry_ok:
  assumes "md_inv s" and "md_close_entry s = Inr s'"
  shows "md_inv s'"
  using assms md_push_entry_ok(1) [of "s\<lparr> ms_cur := None \<rparr>"]
  by (auto simp: md_close_entry_def split: option.splits)

lemma md_inv_header:
  "md_inv s \<Longrightarrow> ms_msg s' = (ms_msg s)\<lparr> m_type := t, m_seq_num := q, m_sending_time := st, m_req_id := ri,
     m_symbol := sy, m_declared := d, m_poss_dup := pd \<rparr> \<Longrightarrow>
   ms_bid_seen s' = ms_bid_seen s \<Longrightarrow> ms_ask_seen s' = ms_ask_seen s \<Longrightarrow>
   (ms_have_type s' \<Longrightarrow> is_market_data t) \<Longrightarrow> md_inv s'"
  by (simp add: md_inv_def md_entries_def)

lemma md_group_field_ok:
  assumes "md_inv s" and "md_group_field scales f s = Inr s'"
  shows "md_inv s'"
  using assms md_close_entry_ok [OF assms(1)]
  by (auto simp: md_group_field_def Let_def and_then_Inr_iff map_ok_Inr_iff split: if_splits option.splits)

lemma md_header_field_ok:
  assumes "md_inv s" and "md_header_field f s = Inr s'"
  shows "md_inv s'"
  using assms
  by (auto simp: md_header_field_def Let_def map_ok_Inr_iff md_inv_def md_entries_def split: if_splits option.splits)

lemma md_step_ok: "md_inv s \<Longrightarrow> md_step scales f s = Inr s' \<Longrightarrow> md_inv s'"
  by (auto simp: md_step_def intro: md_group_field_ok md_header_field_ok split: if_splits)

text \<open>
  C29. Every market-data message that decodes is well-formed: it is a snapshot or an incremental
  refresh, it has as many entries as it declared and at most 32, every entry has a type, and an entry
  whose level the venue did not send stands at the number of entries of its side before it.
\<close>

theorem md_message_sound:
  "case parse_md_message fr scales of
     Inl _ \<Rightarrow> True
   | Inr m \<Rightarrow> is_market_data (m_type m) \<and> unat (m_declared m) = length (md_entries m) \<and>
       length (md_entries m) \<le> MD_MAX_ENTRIES \<and> levels_ok (md_entries m)"
proof (cases "parse_md_message fr scales")
  case (Inr m)
  then obtain s s' where s: "for_fields (md_step scales) (frame_fields fr) md_start = Inr s"
      "md_close_entry s = Inr s'" "ms_have_type s'" "m_declared (ms_msg s') = ucast (m_count (ms_msg s'))"
      "m = ms_msg s'"
    by (auto simp: parse_md_message_def and_then_Inr_iff Let_def split: if_splits)
  have "md_inv s"
    using s(1) md_inv_start md_step_ok by (rule for_fields_invariant)
  from md_close_entry_ok [OF this s(2)] have inv: "md_inv s'" .
  have "unat (ucast (m_count m) :: u32) = unat (m_count m)"
    using unat_u8_less [of "m_count m"] by (simp add: unsigned_ucast_eq take_bit_nat_eq_self del: unat_u8_less)
  then show ?thesis
    using Inr inv length_md_entries [OF inv] s(3,4,5) by (simp add: md_inv_def)
qed simp

subsection \<open>A snapshot decodes to its lines\<close>

text \<open>A snapshot as its fields: the header, then type, price and size of every line.\<close>

type_synonym md_line = "u8 \<times> bytes \<times> bytes"

definition line_fields :: "md_line \<Rightarrow> (bytes \<times> bytes) list" where
  "line_fields l = (case l of (t, px, sz) \<Rightarrow>
     [([0x32, 0x36, 0x39], [t]), ([0x32, 0x37, 0x30], px), ([0x32, 0x37, 0x31], sz)])"

definition snapshot_fields :: "bytes \<Rightarrow> bytes \<Rightarrow> bytes \<Rightarrow> md_line list \<Rightarrow> (bytes \<times> bytes) list" where
  "snapshot_fields seq name cnt ls =
     [([0x33, 0x35], [0x57]), ([0x33, 0x34], seq), ([0x35, 0x35], name), ([0x32, 0x36, 0x38], cnt)] @
     concat (map line_fields ls)"

text \<open>The entry of a line, before it has a level.\<close>

definition line_ok :: "fix_scales \<Rightarrow> md_line \<Rightarrow> bool" where
  "line_ok scales l = (case l of (t, px, sz) \<Rightarrow>
     t \<noteq> 0 \<and> t \<noteq> SOH \<and> SOH \<notin> set px \<and> SOH \<notin> set sz \<and>
     (\<exists>v. parse_scaled_decimal px (fs_price scales) = Inr v) \<and>
     (\<exists>v. parse_scaled_decimal sz (fs_quantity scales) = Inr v \<and> 0 \<le> sint v))"

definition line_entry :: "fix_scales \<Rightarrow> md_line \<Rightarrow> md_entry" where
  "line_entry scales l = (case l of (t, px, sz) \<Rightarrow>
     MD_ENTRY_EMPTY\<lparr> e_type := md_entry_type_from_byte t,
       e_price := projr (parse_scaled_decimal px (fs_price scales)), e_has_price := True,
       e_size := projr (parse_scaled_decimal sz (fs_quantity scales)), e_has_size := True \<rparr>)"

lemma entry_type_other_zero: "md_entry_type_from_byte t = MdOther 0 \<longleftrightarrow> t = 0"
  by (simp add: md_entry_type_from_byte_def)

lemma line_step:
  assumes "line_ok scales l" and "md_close_entry s = Inr sc" and "m_type (ms_msg s) = MarketDataSnapshot"
    and "m_type (ms_msg sc) = MarketDataSnapshot"
  shows "step_fields (md_step scales) (line_fields l @ rest) s =
    step_fields (md_step scales) rest (sc\<lparr> ms_cur := Some (line_entry scales l) \<rparr>)"
  using assms
  by (cases l)
    (auto simp: line_ok_def line_fields_def line_entry_def dec_value_Cons md_step_def is_group_tag_def
      md_tag_defs md_group_field_def md_repeats_def md_set_field_def Let_def field_first_byte_def
      field_as_scaled_def field_as_scaled_unsigned_def MD_ENTRY_EMPTY_def entry_type_other_zero)

fun leveled :: "md_entry list \<Rightarrow> md_entry list \<Rightarrow> md_entry list" where
  "leveled es [] = es"
| "leveled es (e # r) = leveled (es @ [with_level e es]) r"

lemma leveled_append:
  "\<exists>new. leveled es r = es @ new \<and> list_all2 (\<lambda>e e'. \<exists>k. e' = e\<lparr> e_level := k \<rparr>) r new"
proof (induction r arbitrary: es)
  case (Cons e r)
  have "\<exists>k. with_level e es = e\<lparr> e_level := k \<rparr>"
    by (cases e) (auto simp: with_level_def)
  then show ?case
    using Cons.IH [of "es @ [with_level e es]"] by fastforce
qed simp

definition header_kept :: "md_state \<Rightarrow> md_state \<Rightarrow> bool" where
  "header_kept s s' \<longleftrightarrow>
     m_type (ms_msg s') = m_type (ms_msg s) \<and> m_seq_num (ms_msg s') = m_seq_num (ms_msg s) \<and>
     m_symbol (ms_msg s') = m_symbol (ms_msg s) \<and> m_declared (ms_msg s') = m_declared (ms_msg s) \<and>
     ms_have_type s' = ms_have_type s \<and> ms_have_seq s' = ms_have_seq s"

lemma md_close_entry_spec:
  assumes "md_inv s" and "md_close_entry s = Inr sc"
  shows "md_inv sc" "ms_cur sc = None" "header_kept s sc"
proof -
  have "ms_cur sc = None \<and> header_kept s sc"
  proof (cases "ms_cur s")
    case (Some e)
    then have push: "md_push_entry e (s\<lparr> ms_cur := None \<rparr>) = Inr sc"
      using assms(2) by (simp add: md_close_entry_def)
    have inv: "md_inv (s\<lparr> ms_cur := None \<rparr>)"
      using assms(1) by simp
    show ?thesis
      using md_push_entry_ok(3,4) [OF inv push] by (auto simp: header_kept_def)
  qed (use assms(2) in \<open>auto simp: md_close_entry_def header_kept_def\<close>)
  then show "ms_cur sc = None" "header_kept s sc"
    by simp_all
qed (rule md_close_entry_ok [OF assms])

lemma lines_run:
  assumes "list_all (line_ok scales) ls" and "md_inv s" and "md_close_entry s = Inr sc"
    and "length (md_entries (ms_msg sc)) + length ls \<le> MD_MAX_ENTRIES"
    and "m_type (ms_msg s) = MarketDataSnapshot"
  shows "\<exists>s' sc'. step_fields (md_step scales) (concat (map line_fields ls)) s = Inr s' \<and>
    md_inv s' \<and> md_close_entry s' = Inr sc' \<and> header_kept s sc' \<and>
    md_entries (ms_msg sc') = leveled (md_entries (ms_msg sc)) (map (line_entry scales) ls)"
  using assms
proof (induction ls arbitrary: s sc)
  case Nil
  then show ?case
    using md_close_entry_spec(3) by simp
next
  case (Cons l ls)
  note sc = md_close_entry_spec [OF Cons.prems(2,3)]
  let ?e = "line_entry scales l" and ?s1 = "sc\<lparr> ms_cur := Some (line_entry scales l) \<rparr>"
  have type: "m_type (ms_msg sc) = MarketDataSnapshot"
    using sc(3) Cons.prems(5) by (simp add: header_kept_def)
  have "unat (m_count (ms_msg sc)) < MD_MAX_ENTRIES" "e_type ?e \<noteq> MdOther 0"
    using Cons.prems(1,4) length_md_entries [OF sc(1)]
    by (auto simp: line_entry_def line_ok_def entry_type_other_zero split: prod.splits)
  then obtain s2 where push: "md_push_entry ?e sc = Inr s2"
    using md_push_entry_eq [OF sc(1), of ?e] by simp
  note s2 = md_push_entry_ok [OF sc(1) push]
  have "sc\<lparr> ms_cur := None \<rparr> = sc"
    using sc(2) by (cases sc) simp
  then have "md_close_entry ?s1 = Inr s2"
    using push by (simp add: md_close_entry_def)
  moreover have "md_inv ?s1" "m_type (ms_msg ?s1) = MarketDataSnapshot"
    using sc(1) type by simp_all
  ultimately obtain s' sc' where IH:
      "step_fields (md_step scales) (concat (map line_fields ls)) ?s1 = Inr s'" "md_inv s'"
      "md_close_entry s' = Inr sc'" "header_kept ?s1 sc'"
      "md_entries (ms_msg sc') = leveled (md_entries (ms_msg s2)) (map (line_entry scales) ls)"
    using Cons.IH [of ?s1 s2] Cons.prems(1,4) s2(2) by auto
  have "header_kept s sc'"
    using IH(4) sc(3) by (simp add: header_kept_def)
  then show ?case
    using IH Cons.prems(1) line_step [of scales l s sc "concat (map line_fields ls)"] Cons.prems(3,5) type s2(2)
    by simp
qed

lemma list_all2_leveled_nth:
  assumes "list_all2 (\<lambda>e e'. \<exists>k. e' = e\<lparr> e_level := k \<rparr>) es es'" and "i < length es"
  shows "\<exists>k. es' ! i = (es ! i)\<lparr> e_level := k \<rparr>"
  using assms by (simp add: list_all2_conv_all_nth)

text \<open>
  C19. A snapshot decodes to exactly what it says. From a body that names its type, a sequence number,
  a symbol, a count of at most 32 and that many lines of an entry type, a price and a size, each
  accepted on its scale, comes the message with that sequence number, symbol and lines: the i-th entry
  has the type, the scaled price and the scaled size of the i-th line and stands at the number of lines
  of its side before it.
\<close>

theorem snapshot_decodes:
  assumes "digits seq" "seq \<noteq> []" "length seq \<le> 19" and "SOH \<notin> set name"
    and "digits cnt" "cnt \<noteq> []" "length cnt \<le> 19" "dec_value cnt = length ls" "length ls \<le> MD_MAX_ENTRIES"
    and "list_all (line_ok scales) ls" and "fr_body fr = body_text (snapshot_fields seq name cnt ls)"
  shows "\<exists>m. parse_md_message fr scales = Inr m \<and> m_type m = MarketDataSnapshot \<and>
    unat (m_seq_num m) = dec_value seq \<and> fix_text_bytes (m_symbol m) = take FIX_TEXT_LEN name \<and>
    length (md_entries m) = length ls \<and>
    (\<forall>i < length ls. case ls ! i of (t, px, sz) \<Rightarrow> let e = md_entries m ! i in
       e_type e = md_entry_type_from_byte t \<and> parse_scaled_decimal px (fs_price scales) = Inr (e_price e) \<and>
       parse_scaled_decimal sz (fs_quantity scales) = Inr (e_size e) \<and>
       unat (e_level e) = implied_level (e_type e) (take i (md_entries m)))"
proof -
  define s where "s = md_start\<lparr> ms_msg := MD_MESSAGE_EMPTY\<lparr> m_type := MarketDataSnapshot,
      m_seq_num := word_of_nat (dec_value seq), m_symbol := fix_text_new name,
      m_declared := word_of_nat (length ls) \<rparr>, ms_have_type := True, ms_have_seq := True \<rparr>"
  have inv: "md_inv s"
    using md_inv_start by (simp add: s_def md_inv_def md_start_def md_entries_def is_market_data_def)
  have closed: "md_close_entry s = Inr s"
    by (simp add: md_close_entry_def s_def md_start_def)
  have empty: "md_entries (ms_msg s) = []"
    by (simp add: s_def md_entries_def MD_MESSAGE_EMPTY_def)
  obtain s' sc where run: "step_fields (md_step scales) (concat (map line_fields ls)) s = Inr s'"
      "md_close_entry s' = Inr sc" "header_kept s sc" "md_inv s'"
      "md_entries (ms_msg sc) = leveled [] (map (line_entry scales) ls)"
    using lines_run [OF assms(10) inv closed] assms(9) empty by (auto simp: s_def)
  have numbers: "fix_parse_u64 seq = Some (word_of_nat (dec_value seq))"
      "fix_parse_u64 cnt = Some (word_of_nat (length ls))"
      "unat (word_of_nat (dec_value seq) :: u64) = dec_value seq"
      "unat (word_of_nat (length ls) :: u64) = length ls"
    using assms dec_value_u64 [of seq] by (simp_all add: fix_parse_u64_eq unat_u64 MD_MAX_ENTRIES_def)
  have "ucast (word_of_nat (length ls) :: u64) = (word_of_nat (length ls) :: u32)"
    using numbers(4) by (metis of_nat_unat)
  then have header: "step_fields (md_step scales) (snapshot_fields seq name cnt ls) md_start =
      step_fields (md_step scales) (concat (map line_fields ls)) s"
    using numbers assms(9)
    by (simp add: snapshot_fields_def md_step_def is_group_tag_def md_header_field_def dec_value_Cons md_tag_defs
        msg_type_from_value_def is_market_data_def field_as_u64_def field_as_u32_def ok_or_def md_start_def
        s_def MD_MAX_ENTRIES_def)
  have "list_all (\<lambda>(tag, v). tag_ok tag \<and> SOH \<notin> set v) (snapshot_fields seq name cnt ls)"
    using assms(1-10) soh_not_digit [of seq] soh_not_digit [of cnt]
    by (auto simp: snapshot_fields_def list_all_iff line_fields_def line_ok_def tag_ok_def is_digit_def SOH_def)
  from for_fields_text [OF this, of "md_step scales" "[]" md_start]
  have loop: "for_fields (md_step scales) (frame_fields fr) md_start = Inr s'"
    by (simp add: frame_fields_def fields_new_def assms(11) header run(1))
  obtain new where new: "md_entries (ms_msg sc) = new"
      "list_all2 (\<lambda>e e'. \<exists>k. e' = e\<lparr> e_level := k \<rparr>) (map (line_entry scales) ls) new"
    using leveled_append [of "[]" "map (line_entry scales) ls"] run(5) by auto
  have sc: "md_inv sc"
    by (rule md_close_entry_ok [OF run(4,2)])
  have len: "length new = length ls"
    using list_all2_lengthD [OF new(2)] by simp
  have "unat (m_count (ms_msg sc)) = length ls"
    using length_md_entries [OF sc] new(1) len by simp
  then have "word_of_nat (length ls) = (ucast (m_count (ms_msg sc)) :: u32)"
    by (metis of_nat_unat)
  then have declared: "m_declared (ms_msg sc) = ucast (m_count (ms_msg sc))"
    using run(3) by (simp add: header_kept_def s_def)
  have entry: "\<exists>k. new ! i = (line_entry scales (ls ! i))\<lparr> e_level := k \<rparr>" if "i < length ls" for i
    using list_all2_leveled_nth [OF new(2), of i] that by simp
  have "case ls ! i of (t, px, sz) \<Rightarrow> let e = new ! i in
       e_type e = md_entry_type_from_byte t \<and> parse_scaled_decimal px (fs_price scales) = Inr (e_price e) \<and>
       parse_scaled_decimal sz (fs_quantity scales) = Inr (e_size e) \<and>
       unat (e_level e) = implied_level (e_type e) (take i new)" if i: "i < length ls" for i
  proof -
    have "levels_ok new" "line_ok scales (ls ! i)"
      using sc new(1) assms(10) i by (simp_all add: md_inv_def list_all_length)
    then show ?thesis
      using entry [OF i] i len
      by (fastforce simp: levels_ok_def line_entry_def line_ok_def MD_ENTRY_EMPTY_def split: prod.splits)
  qed
  moreover have "parse_md_message fr scales = Inr (ms_msg sc)"
    using loop run(2,3) declared by (simp add: parse_md_message_def header_kept_def s_def)
  ultimately show ?thesis
    using run(3) numbers(3) len new(1) by (intro exI [of _ "ms_msg sc"]) (simp add: header_kept_def s_def)
qed

theorem snapshot_decodes_witness:
  "\<exists>m. parse_md_message
      \<lparr> fr_bytes = [], fr_begin = [],
        fr_body = body_text (snapshot_fields [0x37] [0x41] [0x32] [(0x30, [0x31, 0x2E, 0x35], [0x33]), (0x31, [0x32], [0x34])]) \<rparr>
      \<lparr> fs_price = S1, fs_quantity = S0 \<rparr> = Inr m \<and>
    length (md_entries m) = 2 \<and> e_type (md_entries m ! 0) = MdBid"
proof -
  have "list_all (line_ok \<lparr> fs_price = S1, fs_quantity = S0 \<rparr>) [(0x30, [0x31, 0x2E, 0x35], [0x33]), (0x31, [0x32], [0x34])]"
  proof -
    have "parse_scaled_decimal [0x31, 0x2E, 0x35] S1 = Inr 15" "parse_scaled_decimal [0x33] S0 = Inr 3"
        "parse_scaled_decimal [0x32] S1 = Inr 20" "parse_scaled_decimal [0x34] S0 = Inr 4"
      by code_simp+
    then show ?thesis
      by (simp add: line_ok_def SOH_def)
  qed
  from snapshot_decodes [OF _ _ _ _ _ _ _ _ _ this, of "[0x37]" "[0x41]" "[0x32]" "\<lparr> fr_bytes = [], fr_begin = [],
        fr_body = body_text (snapshot_fields [0x37] [0x41] [0x32] [(0x30, [0x31, 0x2E, 0x35], [0x33]), (0x31, [0x32], [0x34])]) \<rparr>"]
  show ?thesis
    by (fastforce simp: is_digit_def SOH_def dec_value_Cons MD_MAX_ENTRIES_def md_entry_type_from_byte_def Let_def)
qed

end
