(* ===== verification/Fix_Session.thy ===== *)
theory Fix_Session
  imports Fix_Market_Data
begin

text \<open>
  Sequence and liveness bookkeeping of a FIX session (jeed-fix session.rs): the routing of a frame by
  its message type, the administration messages, the verdict on a sequence number and the session
  state. What is shown: the verdicts split the numbers below the expected one into those accepted and
  those asked for again, and the counter of lost messages counts the latter.
\<close>

subsection \<open>Routing\<close>

definition TAG_BEGIN_SEQ_NO :: u32 where "TAG_BEGIN_SEQ_NO = 7"
definition TAG_END_SEQ_NO :: u32 where "TAG_END_SEQ_NO = 16"
definition TAG_NEW_SEQ_NO :: u32 where "TAG_NEW_SEQ_NO = 36"
definition TAG_HEART_BT_INT :: u32 where "TAG_HEART_BT_INT = 108"
definition TAG_TEST_REQ_ID :: u32 where "TAG_TEST_REQ_ID = 112"
definition TAG_GAP_FILL_FLAG :: u32 where "TAG_GAP_FILL_FLAG = 123"

lemmas admin_tag_defs =
  TAG_BEGIN_SEQ_NO_def TAG_END_SEQ_NO_def TAG_NEW_SEQ_NO_def TAG_HEART_BT_INT_def TAG_TEST_REQ_ID_def
  TAG_GAP_FILL_FLAG_def

text \<open>\<open>msg\_type\<close>: the first \<open>35\<close> decides; a field that does not split before it is an error.\<close>

function msg_type_loop :: "fields_iter \<Rightarrow> fix_error + msg_type" where
  "msg_type_loop it =
     (case fields_next it of
        (None, it') \<Rightarrow> Inl (MissingTag TAG_MSG_TYPE)
      | (Some (Inl e), it') \<Rightarrow> Inl e
      | (Some (Inr f), it') \<Rightarrow>
          if f_tag f = TAG_MSG_TYPE then Inr (msg_type_from_value (f_value f)) else msg_type_loop it')"
  by pat_completeness auto
termination
  by (relation "measure (\<lambda>it. length (fields_rest it))") (auto intro: fields_next_decreases [OF sym])

declare msg_type_loop.simps [simp del]

definition frame_msg_type :: "frame \<Rightarrow> fix_error + msg_type" where
  "frame_msg_type fr = msg_type_loop (frame_fields fr)"

subsection \<open>Administration messages\<close>

record admin_message =
  a_type :: msg_type
  a_seq_num :: u64
  a_sending_time :: u64
  a_poss_dup :: bool
  a_gap_fill :: bool
  a_heartbeat_secs :: "u32 option"
  a_new_seq_no :: "u64 option"
  a_begin_seq_no :: "u64 option"
  a_end_seq_no :: "u64 option"
  a_test_req_id :: fix_text

definition ADMIN_MESSAGE_EMPTY :: admin_message where
  "ADMIN_MESSAGE_EMPTY =
     \<lparr> a_type = OtherType 0, a_seq_num = 0, a_sending_time = 0, a_poss_dup = False, a_gap_fill = False,
       a_heartbeat_secs = None, a_new_seq_no = None, a_begin_seq_no = None, a_end_seq_no = None,
       a_test_req_id = FIX_TEXT_EMPTY \<rparr>"

text \<open>The state of the loop: the message, \<open>have\_msg\_type\<close> and \<open>have\_seq\<close>.\<close>

type_synonym admin_state = "admin_message \<times> bool \<times> bool"

definition admin_step :: "field \<Rightarrow> admin_state \<Rightarrow> fix_error + admin_state" where
  "admin_step f s =
     (case s of (m, have_type, have_seq) \<Rightarrow>
        let tag = f_tag f; put = map_ok (\<lambda>m. (m, have_type, have_seq))
        in if tag = TAG_MSG_TYPE then
             (let t = msg_type_from_value (f_value f)
              in if \<not> is_admin t then Inl (UnexpectedMsgType (first_or_zero (f_value f)))
                 else Inr (m\<lparr> a_type := t \<rparr>, True, have_seq))
           else if tag = TAG_MSG_SEQ_NUM
           then map_ok (\<lambda>v. (m\<lparr> a_seq_num := v \<rparr>, have_type, True)) (field_as_u64 f)
           else if tag = TAG_SENDING_TIME
           then put (map_ok (\<lambda>v. m\<lparr> a_sending_time := v \<rparr>) (field_as_utc_timestamp f))
           else if tag = TAG_POSS_DUP_FLAG then put (Inr (m\<lparr> a_poss_dup := field_is_yes f \<rparr>))
           else if tag = TAG_GAP_FILL_FLAG then put (Inr (m\<lparr> a_gap_fill := field_is_yes f \<rparr>))
           else if tag = TAG_HEART_BT_INT
           then put (map_ok (\<lambda>v. m\<lparr> a_heartbeat_secs := Some v \<rparr>) (field_as_u32 f))
           else if tag = TAG_NEW_SEQ_NO
           then put (map_ok (\<lambda>v. m\<lparr> a_new_seq_no := Some v \<rparr>) (field_as_u64 f))
           else if tag = TAG_BEGIN_SEQ_NO
           then put (map_ok (\<lambda>v. m\<lparr> a_begin_seq_no := Some v \<rparr>) (field_as_u64 f))
           else if tag = TAG_END_SEQ_NO
           then put (map_ok (\<lambda>v. m\<lparr> a_end_seq_no := Some v \<rparr>) (field_as_u64 f))
           else if tag = TAG_TEST_REQ_ID then put (Inr (m\<lparr> a_test_req_id := fix_text_new (f_value f) \<rparr>))
           else Inr s)"

definition parse_admin_message :: "frame \<Rightarrow> fix_error + admin_message" where
  "parse_admin_message fr =
     and_then (for_fields admin_step (frame_fields fr) (ADMIN_MESSAGE_EMPTY, False, False))
       (\<lambda>(m, have_type, have_seq).
          if \<not> have_type then Inl (MissingTag TAG_MSG_TYPE)
          else if \<not> have_seq then Inl (MissingTag TAG_MSG_SEQ_NUM)
          else Inr m)"

subsection \<open>Verdicts\<close>

datatype seq_verdict =
    InOrder
  | Gap (gap_expected: u64) (gap_received: u64) (gap_missing: u64)
  | Duplicate u64 u64
  | Regression u64 u64

definition is_in_order :: "seq_verdict \<Rightarrow> bool" where
  "is_in_order v \<longleftrightarrow> v = InOrder"

definition resend_range :: "seq_verdict \<Rightarrow> (u64 \<times> u64) option" where
  "resend_range v = (case v of Gap expected received _ \<Rightarrow> Some (expected, received - 1) | _ \<Rightarrow> None)"

subsection \<open>Session state\<close>

record session_state =
  se_next_expected :: u64
  se_last_recv_ns :: u64
  se_heartbeat_interval_ns :: u64
  se_observed :: u64
  se_gaps :: u64
  se_lost :: u64
  se_duplicates :: u64
  se_regressions :: u64
  se_logged_on :: bool

definition session_new :: session_state where
  "session_new =
     \<lparr> se_next_expected = 1, se_last_recv_ns = 0, se_heartbeat_interval_ns = 0, se_observed = 0, se_gaps = 0,
       se_lost = 0, se_duplicates = 0, se_regressions = 0, se_logged_on = False \<rparr>"

definition session_observe :: "u64 \<Rightarrow> bool \<Rightarrow> u64 \<Rightarrow> session_state \<Rightarrow> seq_verdict \<times> session_state" where
  "session_observe seq poss_dup recv_ns s =
     (let s = s\<lparr> se_observed := se_observed s + 1, se_last_recv_ns := recv_ns \<rparr>;
          expected = se_next_expected s
      in if seq = expected then (InOrder, s\<lparr> se_next_expected := seq + 1 \<rparr>)
         else if seq > expected then
           let missing = seq - expected
           in (Gap expected seq missing,
               s\<lparr> se_gaps := se_gaps s + 1, se_lost := se_lost s + missing, se_next_expected := seq + 1 \<rparr>)
         else if poss_dup
         then (Duplicate expected seq, s\<lparr> se_duplicates := se_duplicates s + 1 \<rparr>)
         else (Regression expected seq, s\<lparr> se_regressions := se_regressions s + 1 \<rparr>))"

definition session_apply_admin :: "admin_message \<Rightarrow> session_state \<Rightarrow> session_state" where
  "session_apply_admin m s =
     (let s = (if a_type m = Logon then
                 let s = s\<lparr> se_logged_on := True \<rparr>
                 in case a_heartbeat_secs m of
                      Some secs \<Rightarrow> s\<lparr> se_heartbeat_interval_ns := ucast secs * 1000000000 \<rparr>
                    | None \<Rightarrow> s
               else s);
          s = (if a_type m = Logout then s\<lparr> se_logged_on := False \<rparr> else s)
      in case (a_type m, a_new_seq_no m) of
           (SequenceReset, Some new_seq) \<Rightarrow> s\<lparr> se_next_expected := new_seq \<rparr>
         | _ \<Rightarrow> s)"

definition session_reset_to :: "u64 \<Rightarrow> session_state \<Rightarrow> session_state" where
  "session_reset_to seq s = s\<lparr> se_next_expected := seq \<rparr>"

definition session_silence_ns :: "u64 \<Rightarrow> session_state \<Rightarrow> u64" where
  "session_silence_ns now s = saturating_sub now (se_last_recv_ns s)"

definition session_is_silent :: "u64 \<Rightarrow> u32 \<Rightarrow> session_state \<Rightarrow> bool" where
  "session_is_silent now factor s \<longleftrightarrow>
     se_heartbeat_interval_ns s \<noteq> 0 \<and> se_last_recv_ns s \<noteq> 0 \<and>
     session_silence_ns now s > se_heartbeat_interval_ns s * ucast (max factor 1)"

subsection \<open>Accepted and missing numbers\<close>

text \<open>
  What can happen to a session: a message's number is judged, an administration message is applied, or the
  expected number is forced. Only the first has a verdict.
\<close>

datatype session_event = Observed u64 bool u64 | Applied admin_message | Forced u64

fun session_step :: "session_event \<Rightarrow> session_state \<Rightarrow> seq_verdict option \<times> session_state" where
  "session_step (Observed seq dup t) s = (case session_observe seq dup t s of (v, s) \<Rightarrow> (Some v, s))"
| "session_step (Applied m) s = (None, session_apply_admin m s)"
| "session_step (Forced seq) s = (None, session_reset_to seq s)"

fun session_run :: "session_event list \<Rightarrow> session_state \<Rightarrow> seq_verdict option list \<times> session_state" where
  "session_run [] s = ([], s)"
| "session_run (e # es) s =
     (case session_step e s of (v, s) \<Rightarrow>
        case session_run es s of (vs, s) \<Rightarrow> (v # vs, s))"

text \<open>The numbers the verdicts accept, and those they leave to be asked for again.\<close>

definition taken :: "u64 \<Rightarrow> seq_verdict \<Rightarrow> nat set" where
  "taken seq v = (if is_in_order v \<or> resend_range v \<noteq> None then {unat seq} else {})"

definition asked :: "seq_verdict \<Rightarrow> nat set" where
  "asked v = (case resend_range v of None \<Rightarrow> {} | Some (b, e) \<Rightarrow> {unat b..unat e})"

fun taken_by :: "session_event \<Rightarrow> seq_verdict option \<Rightarrow> nat set" where
  "taken_by (Observed seq _ _) (Some v) = taken seq v"
| "taken_by _ _ = {}"

definition accepted :: "session_event list \<Rightarrow> seq_verdict option list \<Rightarrow> nat set" where
  "accepted es vs = (\<Union>(e, v) \<in> set (zip es vs). taken_by e v)"

definition asked_again :: "seq_verdict option list \<Rightarrow> nat set" where
  "asked_again vs = (\<Union>v \<in> set vs. case v of None \<Rightarrow> {} | Some v \<Rightarrow> asked v)"

text \<open>The numbers a counterparty passes over when it moves the expected number up.\<close>

definition passed_by :: "session_event \<Rightarrow> session_state \<Rightarrow> nat set" where
  "passed_by e s =
     (case e of
        Observed _ _ _ \<Rightarrow> {}
      | _ \<Rightarrow> {unat (se_next_expected s)..<unat (se_next_expected (snd (session_step e s)))})"

fun passed_over :: "session_event list \<Rightarrow> session_state \<Rightarrow> nat set" where
  "passed_over [] s = {}"
| "passed_over (e # es) s = passed_by e s \<union> passed_over es (snd (session_step e s))"

text \<open>
  The events the accounts are about: a number read from a message is below the largest of its type, and what
  moves the expected number does not move it back.
\<close>

fun forward_only :: "session_event list \<Rightarrow> session_state \<Rightarrow> bool" where
  "forward_only [] s = True"
| "forward_only (e # es) s \<longleftrightarrow>
     (case e of
        Observed seq _ _ \<Rightarrow> Suc (unat seq) < 2 ^ 64
      | _ \<Rightarrow> se_next_expected s \<le> se_next_expected (snd (session_step e s))) \<and>
     forward_only es (snd (session_step e s))"

fun is_observed :: "session_event \<Rightarrow> bool" where
  "is_observed (Observed _ _ _) = True"
| "is_observed _ = False"

lemma accepted_simps [simp]:
  "accepted [] vs = {}"
  "accepted (e # es) (v # vs) = taken_by e v \<union> accepted es vs"
  by (simp_all add: accepted_def)

lemma asked_again_simps [simp]:
  "asked_again [] = {}"
  "asked_again (None # vs) = asked_again vs"
  "asked_again (Some v # vs) = asked v \<union> asked_again vs"
  by (simp_all add: asked_again_def)

lemma verdict_sets [simp]:
  "taken seq InOrder = {unat seq}" "taken seq (Gap a b c) = {unat seq}" "taken seq (Duplicate a b) = {}"
  "taken seq (Regression a b) = {}"
  "asked InOrder = {}" "asked (Gap a b c) = {unat a..unat (b - 1)}" "asked (Duplicate a b) = {}"
  "asked (Regression a b) = {}"
  by (simp_all add: taken_def asked_def is_in_order_def resend_range_def)

text \<open>Accepted, asked for again, passed over: three parts of the numbers below the expected one.\<close>

definition session_inv :: "session_state \<Rightarrow> nat set \<Rightarrow> nat set \<Rightarrow> nat set \<Rightarrow> bool" where
  "session_inv s A R P \<longleftrightarrow>
     1 \<le> unat (se_next_expected s) \<and> A \<inter> R = {} \<and> (A \<union> R) \<inter> P = {} \<and> A \<union> R \<union> P = {1..<unat (se_next_expected s)} \<and>
     unat (se_lost s) = card R"

lemma session_observe_eqs:
  "seq = se_next_expected s \<Longrightarrow> session_observe seq dup t s =
     (InOrder, s\<lparr> se_observed := se_observed s + 1, se_last_recv_ns := t, se_next_expected := seq + 1 \<rparr>)"
  "se_next_expected s < seq \<Longrightarrow> session_observe seq dup t s =
     (Gap (se_next_expected s) seq (seq - se_next_expected s),
      s\<lparr> se_observed := se_observed s + 1, se_last_recv_ns := t, se_gaps := se_gaps s + 1,
         se_lost := se_lost s + (seq - se_next_expected s), se_next_expected := seq + 1 \<rparr>)"
  "seq < se_next_expected s \<Longrightarrow> session_observe seq dup t s =
     (if dup
      then (Duplicate (se_next_expected s) seq,
        s\<lparr> se_observed := se_observed s + 1, se_last_recv_ns := t, se_duplicates := se_duplicates s + 1 \<rparr>)
      else (Regression (se_next_expected s) seq,
        s\<lparr> se_observed := se_observed s + 1, se_last_recv_ns := t, se_regressions := se_regressions s + 1 \<rparr>))"
  by (auto simp: session_observe_def Let_def)

lemma session_observe_counts: "session_observe seq dup t s = (v, s') \<Longrightarrow> se_observed s' = se_observed s + 1"
  by (auto simp: session_observe_def Let_def split: if_splits)

lemma session_observe_inv:
  assumes inv: "session_inv s A R P" and seq: "Suc (unat seq) < 2 ^ 64" and obs: "session_observe seq dup t s = (v, s')"
  shows "session_inv s' (A \<union> taken seq v) (R \<union> asked v) P"
proof (cases seq "se_next_expected s" rule: linorder_cases)
  case equal
  then have next_: "unat (se_next_expected s') = Suc (unat seq)"
    using obs seq by (auto simp: session_observe_eqs unat_word_ariths)
  have "{1..<Suc (unat seq)} = insert (unat seq) {1..<unat (se_next_expected s)}"
    using equal inv by (auto simp: session_inv_def)
  then show ?thesis
    using equal obs inv next_ by (auto simp: session_inv_def session_observe_eqs)
next
  case greater
  let ?n = "unat (se_next_expected s)"
  have less: "?n < unat seq"
    using greater by (simp add: word_less_nat_alt)
  have diff: "unat (seq - se_next_expected s) = unat seq - ?n" "unat (seq - 1) = unat seq - 1"
    using less by (auto simp: unat_sub word_le_nat_alt)
  have sets: "A \<inter> R = {}" "(A \<union> R) \<inter> P = {}" "A \<union> R \<union> P = {1..<?n}" "1 \<le> ?n" "unat (se_lost s) = card R"
    using inv by (auto simp: session_inv_def)
  then have below: "A \<subseteq> {1..<?n}" "R \<subseteq> {1..<?n}" "P \<subseteq> {1..<?n}"
    by blast+
  then have "finite R"
    using finite_subset by blast
  then have card: "card (R \<union> {?n..unat seq - 1}) = card R + (unat seq - ?n)"
    using below less by (subst card_Un_disjoint) auto
  have "card (R \<union> {?n..unat seq - 1}) \<le> card {..<unat seq}"
    using below less by (intro card_mono) auto
  then have lost: "unat (se_lost s + (seq - se_next_expected s)) = card R + (unat seq - ?n)"
    using sets(5) seq diff card by (simp add: unat_word_ariths)
  have next_: "unat (seq + 1) = Suc (unat seq)"
    using seq by (simp add: unat_word_ariths)
  have "{1..<Suc (unat seq)} = {1..<?n} \<union> {?n..unat seq - 1} \<union> {unat seq}"
    using less sets(4) by auto
  then have whole: "A \<union> {unat seq} \<union> (R \<union> {?n..unat seq - 1}) \<union> P = {1..<Suc (unat seq)}"
    using sets(3) by blast
  have "(A \<union> {unat seq}) \<inter> (R \<union> {?n..unat seq - 1}) = {}"
    "(A \<union> {unat seq} \<union> (R \<union> {?n..unat seq - 1})) \<inter> P = {}"
    using sets(1,2) below less by auto
  then show ?thesis
    using greater obs lost next_ card whole diff(2)
    by (auto simp: session_inv_def session_observe_eqs)
qed (use obs inv in \<open>auto simp: session_inv_def session_observe_eqs split: if_splits\<close>)

text \<open>What moves the expected number touches no counter.\<close>

lemma apply_admin_counts [simp]:
  "se_lost (session_apply_admin m s) = se_lost s" "se_observed (session_apply_admin m s) = se_observed s"
  by (auto simp: session_apply_admin_def Let_def split: option.split msg_type.split)

lemma session_step_inv:
  assumes inv: "session_inv s A R P" and step: "session_step e s = (v, s')" and "forward_only (e # es) s"
  shows "session_inv s' (A \<union> taken_by e v) (R \<union> asked_again [v]) (P \<union> passed_by e s) \<and>
    se_observed s' = se_observed s + (if is_observed e then 1 else 0) \<and> forward_only es s'"
proof -
  have moved: "session_inv s' A R (P \<union> {unat (se_next_expected s)..<unat (se_next_expected s')})"
    if "se_next_expected s \<le> se_next_expected s'" "se_lost s' = se_lost s"
  proof -
    have le: "unat (se_next_expected s) \<le> unat (se_next_expected s')"
      using that(1) by (simp add: word_le_nat_alt)
    have sets: "A \<inter> R = {}" "(A \<union> R) \<inter> P = {}" "A \<union> R \<union> P = {1..<unat (se_next_expected s)}" "1 \<le> unat (se_next_expected s)"
      "unat (se_lost s) = card R"
      using inv by (auto simp: session_inv_def)
    then have "{1..<unat (se_next_expected s')} = {1..<unat (se_next_expected s)} \<union> {unat (se_next_expected s)..<unat (se_next_expected s')}"
      using le by auto
    moreover have "A \<union> R \<subseteq> {1..<unat (se_next_expected s)}"
      using sets(3) by blast
    then have "(A \<union> R) \<inter> {unat (se_next_expected s)..<unat (se_next_expected s')} = {}"
      by auto
    ultimately show ?thesis
      using sets le that(2) by (auto simp: session_inv_def)
  qed
  show ?thesis
  proof (cases e)
    case (Observed seq dup t)
    then obtain w where "session_observe seq dup t s = (w, s')" "v = Some w"
      using step by (auto split: prod.splits)
    then show ?thesis
      using Observed session_observe_inv [OF inv, of seq dup t w s'] session_observe_counts [of seq dup t s w s'] assms(3)
      by (simp add: passed_by_def)
  qed (use step moved assms(3) in \<open>auto simp: passed_by_def session_reset_to_def\<close>)
qed

lemma session_run_inv:
  assumes "session_inv s A R P" "forward_only es s" "session_run es s = (vs, s')"
  shows "session_inv s' (A \<union> accepted es vs) (R \<union> asked_again vs) (P \<union> passed_over es s) \<and>
    se_observed s' = se_observed s + word_of_nat (length (filter is_observed es))"
  using assms
proof (induction es arbitrary: s A R P vs)
  case Nil
  then show ?case
    by simp
next
  case (Cons e es)
  obtain v s1 ws where run: "session_step e s = (v, s1)" "session_run es s1 = (ws, s')" "vs = v # ws"
    using Cons.prems(3) by (auto split: prod.splits)
  note step = session_step_inv [OF Cons.prems(1) run(1) Cons.prems(2)]
  have "asked_again vs = asked_again [v] \<union> asked_again ws"
    by (cases v) (simp_all add: run(3))
  then show ?case
    using Cons.IH [OF step [THEN conjunct1] step [THEN conjunct2, THEN conjunct2] run(2)] step
    by (simp add: run(1,3) Un_assoc add.assoc)
qed

text \<open>
  C18. A session accounts for every sequence number, as long as the expected number is not moved back. In any
  run from a new session - messages in order, with gaps, resent, backwards; logons, logouts and sequence
  resets; the number forced from outside -, the numbers below the next expected one fall into three parts:
  those that were accepted, those inside a range that a gap verdict asked for, and those a reset passed over.
  No number is in two of them, the counter of lost messages is the size of the second, and every message
  observed is counted. A reset that goes back, which the code accepts, is outside of this: a number may then
  be accepted twice, or received and asked for again. Sequence numbers are below \<open>2 ^ 64 - 1\<close>, as those that
  parse are.
\<close>

theorem session_accounts:
  assumes "forward_only es session_new" and "session_run es session_new = (vs, s)"
  shows "accepted es vs \<inter> asked_again vs = {} \<and> (accepted es vs \<union> asked_again vs) \<inter> passed_over es session_new = {} \<and>
    accepted es vs \<union> asked_again vs \<union> passed_over es session_new = {1..<unat (se_next_expected s)} \<and>
    unat (se_lost s) = card (asked_again vs) \<and> se_observed s = word_of_nat (length (filter is_observed es))"
proof -
  have "session_inv session_new {} {} {}"
    by (simp add: session_inv_def session_new_def)
  from session_run_inv [OF this assms] show ?thesis
    by (simp add: session_inv_def session_new_def)
qed

definition demo_reset :: admin_message where
  "demo_reset = ADMIN_MESSAGE_EMPTY\<lparr> a_type := SequenceReset, a_seq_num := 6, a_new_seq_no := Some 9 \<rparr>"

text \<open>Message 1, then 4 with 2 and 3 missing, 2 resent, 5, a reset to 9, and 9.\<close>

definition demo_session :: "session_event list" where
  "demo_session =
     [Observed 1 False 5, Observed 4 False 6, Observed 2 True 7, Observed 5 False 8, Applied demo_reset, Observed 9 False 9]"

theorem session_accounts_witness:
  "\<exists>vs s. session_run demo_session session_new = (vs, s) \<and> asked_again vs = {2, 3} \<and> unat (se_lost s) = 2 \<and>
     accepted demo_session vs = {1, 4, 5, 9} \<and> se_observed s = 5"
proof -
  obtain vs s where run: "session_run demo_session session_new = (vs, s)"
    by fastforce
  then have vs: "vs = [Some InOrder, Some (Gap 2 4 2), Some (Duplicate 5 2), Some InOrder, None, Some InOrder]"
    by (simp add: demo_session_def demo_reset_def session_observe_def session_apply_admin_def session_new_def
        ADMIN_MESSAGE_EMPTY_def Let_def)
  have "forward_only demo_session session_new"
    by (simp add: demo_session_def demo_reset_def session_observe_def session_apply_admin_def session_new_def
        ADMIN_MESSAGE_EMPTY_def Let_def)
  note accounts = session_accounts [OF this run]
  have asked: "asked_again vs = {2, 3}"
    by (auto simp: vs)
  have "unat (se_lost s) = 2"
    using accounts unfolding asked by simp
  moreover have "accepted demo_session vs = {1, 4, 5, 9}"
    by (auto simp: vs demo_session_def)
  moreover have "se_observed s = 5"
    using accounts by (simp add: demo_session_def)
  ultimately show ?thesis
    using run asked by blast
qed

subsection \<open>Sequence numbers a parser returns\<close>

text \<open>A parsed number has at most 19 digits, so the arithmetic on it does not wrap.\<close>

lemma field_as_u64_bound: "field_as_u64 f = Inr v \<Longrightarrow> Suc (unat v) < 2 ^ 64"
  using unat_fix_parse_u64 [of "f_value f" v] dec_value_u64 [of "f_value f"]
  by (auto simp: field_as_u64_def ok_or_def fix_parse_u64_eq split: option.splits if_splits)

definition seq_bounded :: "md_state \<Rightarrow> bool" where
  "seq_bounded s \<longleftrightarrow> md_inv s \<and> Suc (unat (m_seq_num (ms_msg s))) < 2 ^ 64"

lemma seq_bounded_close:
  assumes "seq_bounded s" and "md_close_entry s = Inr s'"
  shows "seq_bounded s'"
  using assms md_close_entry_spec [of s s'] by (simp add: seq_bounded_def header_kept_def)

lemma seq_bounded_step:
  assumes "seq_bounded s" and "md_step scales f s = Inr s'"
  shows "seq_bounded s'"
proof (cases "is_group_tag (f_tag f)")
  case True
  then have "ms_msg s' = ms_msg s \<or> (\<exists>s0. md_close_entry s = Inr s0 \<and> ms_msg s' = ms_msg s0)"
    using assms(2) by (auto simp: md_step_def md_group_field_def Let_def and_then_Inr_iff map_ok_Inr_iff
        split: if_splits option.splits)
  then have "m_seq_num (ms_msg s') = m_seq_num (ms_msg s)"
    using assms(1) md_close_entry_spec(3) [of s] by (auto simp: seq_bounded_def header_kept_def)
  then show ?thesis
    using assms md_step_ok [of s scales f s'] by (simp add: seq_bounded_def)
next
  case False
  then have "m_seq_num (ms_msg s') = m_seq_num (ms_msg s) \<or> field_as_u64 f = Inr (m_seq_num (ms_msg s'))"
    using assms(2) by (auto simp: md_step_def md_header_field_def Let_def map_ok_Inr_iff split: if_splits option.splits)
  then show ?thesis
    using assms md_step_ok [of s scales f s'] field_as_u64_bound [of f] by (auto simp: seq_bounded_def)
qed

lemma md_seq_num_bound:
  assumes "parse_md_message fr scales = Inr m"
  shows "Suc (unat (m_seq_num m)) < 2 ^ 64"
proof -
  obtain s s' where s: "for_fields (md_step scales) (frame_fields fr) md_start = Inr s"
      "md_close_entry s = Inr s'" "m = ms_msg s'"
    using assms by (auto simp: parse_md_message_def and_then_Inr_iff Let_def split: if_splits)
  have "seq_bounded md_start"
    using md_inv_start by (simp add: seq_bounded_def md_start_def MD_MESSAGE_EMPTY_def)
  with s(1) have "seq_bounded s"
    using seq_bounded_step by (rule for_fields_invariant)
  from seq_bounded_close [OF this s(2)] show ?thesis
    by (simp add: seq_bounded_def s(3))
qed

lemma admin_seq_num_bound:
  assumes "parse_admin_message fr = Inr m"
  shows "Suc (unat (a_seq_num m)) < 2 ^ 64 \<and> is_admin (a_type m)"
proof -
  obtain ht hs where s: "for_fields admin_step (frame_fields fr) (ADMIN_MESSAGE_EMPTY, False, False) = Inr (m, ht, hs)" "ht"
    using assms by (auto simp: parse_admin_message_def and_then_Inr_iff split: if_splits)
  define I where "I s \<longleftrightarrow> (case s of (m, ht, hs) \<Rightarrow> Suc (unat (a_seq_num m)) < 2 ^ 64 \<and> (ht \<longrightarrow> is_admin (a_type m)))"
    for s :: admin_state
  have "I (m, ht, hs)"
    using s(1)
  proof (rule for_fields_invariant)
    show "I (ADMIN_MESSAGE_EMPTY, False, False)"
      by (simp add: I_def ADMIN_MESSAGE_EMPTY_def)
  next
    fix f acc acc' assume "I acc" "admin_step f acc = Inr acc'"
    then show "I acc'"
      using field_as_u64_bound [of f]
      by (auto simp: admin_step_def I_def Let_def map_ok_Inr_iff split: if_splits prod.splits)
  qed
  with s(2) show ?thesis
    by (simp add: I_def)
qed

end
