(* ===== verification/Krx_Message.thy ===== *)
theory Krx_Message
  imports Dynamic_Extractor Wire_Record
begin

text \<open>
  \<open>crates/jeed-krx/src\<close>, below the decoders: the error type (\<open>error.rs\<close>), the transaction code
  (\<open>trcode.rs\<close>), the frame check (\<open>message.rs\<close>), the field readers (\<open>field.rs\<close>), the price readers
  built once at startup (\<open>extract.rs\<close>) and the wall clock of a dateless reading (\<open>clock.rs\<close>). The
  lemmas show when a field reads as blank, which of the three shapes of a derivative price can accept
  a field, that no reader panics, and that the day chosen for a clock reading is the nearest one.
  The operating system's clock (\<open>now_ns\<close>) is an argument wherever the source reads it.
\<close>

subsection \<open>Transaction codes (trcode.rs)\<close>

definition TRCODE_LEN :: nat where "TRCODE_LEN = 5"

datatype trcode = TrCode (trcode_bytes: bytes)

text \<open>Errors (error.rs).\<close>

datatype krx_error =
    TooShort nat nat
  | KrxLength nat nat
  | EndKeyword u8
  | UnknownTrCode trcode
  | Field nat parse_err
  | TimeRange nat
  | KrxWire wire_error

type_synonym 'a krx = "(krx_error, 'a) res"

definition trcode_from_message :: "bytes \<Rightarrow> trcode krx" where
  "trcode_from_message payload =
     (if length payload < TRCODE_LEN then Inl (Err (TooShort TRCODE_LEN (length payload)))
      else Inr (TrCode [payload ! 0, payload ! 1, payload ! 2, payload ! 3, payload ! 4]))"

definition data_class :: "trcode \<Rightarrow> bytes" where
  "data_class c = [trcode_bytes c ! 0, trcode_bytes c ! 1]"

definition product_group :: "trcode \<Rightarrow> bytes" where
  "product_group c = [trcode_bytes c ! 2, trcode_bytes c ! 3, trcode_bytes c ! 4]"

definition is_derivative :: "trcode \<Rightarrow> bool" where
  "is_derivative c \<longleftrightarrow> trcode_bytes c ! 4 = 0x46"

definition trcode_as_u64 :: "trcode \<Rightarrow> u64" where
  "trcode_as_u64 c =
     ucast (trcode_bytes c ! 0)
     OR push_bit 8 (ucast (trcode_bytes c ! 1))
     OR push_bit 16 (ucast (trcode_bytes c ! 2))
     OR push_bit 24 (ucast (trcode_bytes c ! 3))
     OR push_bit 32 (ucast (trcode_bytes c ! 4))"

definition trcode_from_u64 :: "u64 \<Rightarrow> trcode" where
  "trcode_from_u64 key =
     (let b = to_le_bytes 8 key in TrCode [b ! 0, b ! 1, b ! 2, b ! 3, b ! 4])"

text \<open>The text, as its bytes, when every byte is printable.\<close>

definition trcode_as_str :: "trcode \<Rightarrow> bytes option" where
  "trcode_as_str c =
     (if list_ex (\<lambda>b. b < 0x21 \<or> b > 0x7e) (trcode_bytes c) then None else Some (trcode_bytes c))"

subsection \<open>The frame check (message.rs)\<close>

definition END_KEYWORD :: u8 where "END_KEYWORD = 0xFF"

definition krx_validate :: "bytes \<Rightarrow> nat \<Rightarrow> unit krx" where
  "krx_validate payload expected_len =
     (if length payload \<noteq> expected_len then Inl (Err (KrxLength expected_len (length payload)))
      else if expected_len = 0 then Inl (Err (TooShort (TRCODE_LEN + 1) 0))
      else
        let found = payload ! (expected_len - 1)
        in if found \<noteq> END_KEYWORD then Inl (Err (EndKeyword found)) else Inr ())"

definition krx_validate_as :: "bytes \<Rightarrow> trcode \<Rightarrow> nat \<Rightarrow> unit krx" where
  "krx_validate_as payload expected expected_len =
     and_then (krx_validate payload expected_len) (\<lambda>_.
     and_then (trcode_from_message payload) (\<lambda>found.
       if trcode_as_u64 found \<noteq> trcode_as_u64 expected then Inl (Err (UnknownTrCode found))
       else Inr ()))"

subsection \<open>Field readers (field.rs)\<close>

definition ISIN_LEN :: nat where "ISIN_LEN = 12"

definition NS_PER_DAY :: u64 where "NS_PER_DAY = 24 * 60 * 60 * 1000000000"

text \<open>The copying loop: twelve bytes, then the zeros of the initial array.\<close>

definition wire_symbol :: "bytes \<Rightarrow> bytes" where
  "wire_symbol i = take ISIN_LEN i @ replicate (SYMBOL_LEN - ISIN_LEN) 0"

definition is_blank :: "bytes \<Rightarrow> bool" where
  "is_blank field \<longleftrightarrow> list_all (\<lambda>b. b = 0x20) field"

text \<open>\<open>map_err\<close> of Rust on a result that may panic.\<close>

definition map_err :: "('e \<Rightarrow> 'f) \<Rightarrow> ('e, 'a) res \<Rightarrow> ('f, 'a) res" where
  "map_err f r = (case r of Inl (Err e) \<Rightarrow> Inl (Err (f e)) | Inl Panic \<Rightarrow> Inl Panic | Inr x \<Rightarrow> Inr x)"

definition field_price :: "extractor \<Rightarrow> bytes \<Rightarrow> nat \<Rightarrow> i64 option krx" where
  "field_price reader field at =
     (if is_blank field then Inr None
      else map_err (Field at) (map_ok Some (extractor_to_i64_checked reader field)))"

definition field_uint :: "bytes \<Rightarrow> nat \<Rightarrow> u64 option krx" where
  "field_uint field at =
     (if is_blank field then Inr None
      else map_err (Field at) (map_ok Some (u64_parse_decimal field)))"

definition time_of_day_ns :: "bytes \<Rightarrow> nat \<Rightarrow> u64 option krx" where
  "time_of_day_ns field at =
     (if length field \<noteq> 12 \<and> length field \<noteq> 9 then Inl (Err (Field at InvalidLength))
      else if is_blank field then Inr None
      else
        let sub_digits = (if length field = 12 then 6 else 3 :: nat);
            hhmmss = take 6 field; sub = drop 6 field
        in if hhmmss ! 0 > 0x32 \<or> hhmmss ! 0 = 0x32 \<and> hhmmss ! 1 > 0x33
              \<or> hhmmss ! 2 > 0x35 \<or> hhmmss ! 4 > 0x35
           then Inl (Err (TimeRange at))
           else
             and_then (map_err (Field at) (parse_hhmmss_to_seconds hhmmss)) (\<lambda>seconds.
             and_then (map_err (Field (at + 6)) (u64_parse_decimal sub)) (\<lambda>sub.
               let sub_ns = (if sub_digits = 6 then sub * 1000 else sub * 1000000)
               in Inr (Some (seconds * 1000000000 + sub_ns)))))"

definition read_isin :: "bytes \<Rightarrow> bytes krx" where
  "read_isin field =
     (if length field \<noteq> ISIN_LEN then Inl (Err (TooShort ISIN_LEN (length field))) else Inr field)"

subsection \<open>Price readers (extract.rs)\<close>

definition signed :: "nat \<Rightarrow> nat \<Rightarrow> extractor krx" where
  "signed lead frac =
     (case config_build (with_fraction_size frac (with_integer_size lead (with_is_signed True config_default)))
      of Inr c \<Rightarrow> Inr (Fixed c) | Inl _ \<Rightarrow> Inl Panic)"

definition derivative_rate :: extractor where "derivative_rate = projr (signed 6 2)"
definition derivative_risk_free :: extractor where "derivative_risk_free = projr (signed 5 3)"
definition derivative_plain :: extractor where "derivative_plain = projr (signed 9 0)"
definition securities_price :: extractor where "securities_price = projr (signed 11 0)"
definition bond_price :: extractor where "bond_price = projr (signed 11 0)"
definition krx_bond_yield :: extractor where "krx_bond_yield = projr (signed 6 6)"

definition RISK_FREE_PREFIXES :: "bytes list" where
  "RISK_FREE_PREFIXES = [[0x4B, 0x52, 0x34, 0x31, 0x36, 0x39], [0x4B, 0x52, 0x34, 0x41, 0x36, 0x39]]"

definition PLAIN_PRICE_GROUPS :: "bytes list" where
  "PLAIN_PRICE_GROUPS = [[0x30, 0x34, 0x46], [0x30, 0x35, 0x46], [0x30, 0x37, 0x46],
     [0x31, 0x30, 0x46], [0x31, 0x38, 0x46]]"

definition derivative_price :: "trcode \<Rightarrow> bytes \<Rightarrow> extractor" where
  "derivative_price c i =
     (if list_ex (\<lambda>g. g = product_group c) PLAIN_PRICE_GROUPS then derivative_plain
      else if list_ex (\<lambda>p. take (length p) i = p) RISK_FREE_PREFIXES then derivative_risk_free
      else derivative_rate)"

subsection \<open>The clock (clock.rs)\<close>

definition KST_OFFSET_NS :: i64 where "KST_OFFSET_NS = 9 * 3600 * 1000000000"

text \<open>\<open>i64::div_euclid\<close> by a positive divisor, which is the only one the source uses.\<close>

definition div_euclid_pos :: "i64 \<Rightarrow> i64 \<Rightarrow> i64" where
  "div_euclid_pos x d = word_of_int (sint x div sint d)"

definition absolute_ns :: "u64 \<Rightarrow> u64 \<Rightarrow> u64" where
  "absolute_ns tod recv_ns =
     (let day = NS_PER_DAY;
          base = tod - KST_OFFSET_NS;
          recv = recv_ns;
          k = div_euclid_pos (recv - base) day;
          before = base + k * day;
          after = before + day;
          to_before = recv - before;
          to_after = after - recv;
          chosen = (if sint to_before \<le> sint to_after then before else after)
      in if sint chosen < 0 then 0 else chosen)"

lemmas krx_consts = TRCODE_LEN_def ISIN_LEN_def END_KEYWORD_def

subsection \<open>Lemmas\<close>

lemma map_err_simps [simp]:
  "map_err f (Inr x) = Inr x"
  "map_err f (Inl (Err e)) = Inl (Err (f e))"
  "map_err f (Inl Panic) = Inl Panic"
  by (simp_all add: map_err_def)

lemma map_err_Inr_iff [simp]: "map_err f r = Inr x \<longleftrightarrow> r = Inr x"
  by (auto simp: map_err_def split: sum.splits fault.splits)

lemma no_panic_map_err [simp]: "no_panic (map_err f r) = no_panic r"
  by (auto simp: map_err_def no_panic_def split: sum.splits fault.splits)

lemma signed_shapes:
  "signed 6 2 = Inr derivative_rate" "signed 5 3 = Inr derivative_risk_free"
  "signed 9 0 = Inr derivative_plain" "signed 11 0 = Inr securities_price"
  "signed 11 0 = Inr bond_price" "signed 6 6 = Inr krx_bond_yield"
  by (simp_all add: signed_def config_build_shape derivative_rate_def derivative_risk_free_def
    derivative_plain_def securities_price_def bond_price_def krx_bond_yield_def)

lemma reader_shapes:
  "derivative_rate = Fixed (shape 6 2)" "derivative_risk_free = Fixed (shape 5 3)"
  "derivative_plain = Fixed (shape 9 0)" "securities_price = Fixed (shape 11 0)"
  "bond_price = Fixed (shape 11 0)" "krx_bond_yield = Fixed (shape 6 6)"
  by (simp_all add: signed_def config_build_shape derivative_rate_def derivative_risk_free_def
    derivative_plain_def securities_price_def bond_price_def krx_bond_yield_def)


lemma le_byte_nth: "i < n \<Longrightarrow> to_le_bytes n w ! i = (ucast (drop_bit (8 * i) w) :: u8)"
proof -
  have nth: "nat_to_le n v ! i = word_of_nat (v div 256 ^ i)" if "i < n" for v
    using that
  proof (induction n arbitrary: v i)
    case (Suc n)
    then show ?case
      by (cases i) (simp_all add: div_mult2_eq, simp add: of_nat_eq_iff unsigned_of_nat word_of_nat_eq_iff take_bit_eq_mod)
  qed simp
  have "unat w div 256 ^ i = unat (drop_bit (8 * i) w)"
    unfolding unat_drop_bit_eq by (simp add: drop_bit_eq_div power_mult)
  moreover assume "i < n"
  ultimately show ?thesis
    by (simp add: to_le_bytes_def nth)
qed

lemma trcode_key:
  assumes "length bs = 5"
  shows "trcode_from_u64 (trcode_as_u64 (TrCode bs)) = TrCode bs"
proof -
  obtain a b c d e where bs: "bs = [a, b, c, d, e]"
    using assms by (auto simp: numeral_eq_Suc length_Suc_conv)
  have "to_le_bytes 8 (trcode_as_u64 (TrCode bs)) ! 0 = a" "to_le_bytes 8 (trcode_as_u64 (TrCode bs)) ! 1 = b"
    "to_le_bytes 8 (trcode_as_u64 (TrCode bs)) ! 2 = c" "to_le_bytes 8 (trcode_as_u64 (TrCode bs)) ! 3 = d"
    "to_le_bytes 8 (trcode_as_u64 (TrCode bs)) ! 4 = e"
    by (simp_all add: le_byte_nth trcode_as_u64_def bs)
      (intro bit_word_eqI; auto simp: bit_simps dest: bit_imp_le_length)+
  then show ?thesis
    by (simp add: trcode_from_u64_def bs Let_def)
qed

lemma trcode_as_u64_inj:
  "length bs = 5 \<Longrightarrow> length cs = 5 \<Longrightarrow> trcode_as_u64 (TrCode bs) = trcode_as_u64 (TrCode cs) \<longleftrightarrow> bs = cs"
  by (metis trcode.inject trcode_key)

lemma field_price_no_panic:
  assumes "reader = Fixed (shape lead frac)" "0 < lead" "lead + frac < 2 ^ 32"
  shows "no_panic (field_price reader field at)"
  using checked_shape_sound [OF assms(2,3), of field]
  by (simp add: field_price_def extractor_to_i64_checked_def assms(1))

lemma u64_parse_no_panic [simp]: "no_panic (u64_parse_decimal u)"
  using u64_core_near [of u] by (simp add: u64_parse_decimal_def near_value_def no_panic_def)

lemma field_uint_no_panic [simp]: "no_panic (field_uint field at)"
  by (simp add: field_uint_def)

lemma hhmmss_no_panic [simp]: "no_panic (parse_hhmmss_to_seconds u)"
  by (simp add: hhmmss_value)

lemma time_of_day_no_panic [simp]: "no_panic (time_of_day_ns field at)"
  by (auto simp: time_of_day_ns_def Let_def intro!: no_panic_and_then)

lemma digit_code: "is_digit b \<Longrightarrow> unat b = 48 + unat b mod 16 \<and> unat b mod 16 < 10"
proof -
  assume "is_digit b"
  then obtain d where "unat b = 48 + d" "d < 10"
    by (auto simp: is_digit_def word_le_nat_alt dest!: le_Suc_ex)
  moreover from this have "(48 + d) mod 16 = d"
    by presburger
  ultimately show ?thesis
    by simp
qed

lemma clock_digits:
  assumes "digits [h0, h1, m0, m1, s0, s1]"
  shows "h0 > 0x32 \<or> h0 = 0x32 \<and> h1 > 0x33 \<or> m0 > 0x35 \<or> s0 > 0x35 \<longleftrightarrow>
    \<not> (dec_value [h0, h1] < 24 \<and> dec_value [m0, m1] < 60 \<and> dec_value [s0, s1] < 60)"
proof -
  have d: "is_digit h0" "is_digit h1" "is_digit m0" "is_digit m1" "is_digit s0" "is_digit s1"
    using assms by (simp_all add: digits_def)
  show ?thesis
    using d [THEN digit_code]
    by (auto simp: word_less_nat_alt word_unat_eq_iff dec_value_Cons)
qed

lemma digits_not_blank: "digits f \<Longrightarrow> f \<noteq> [] \<Longrightarrow> \<not> is_blank f"
  by (cases f) (auto simp: digits_def is_blank_def is_digit_def)

lemma time_of_day_value:
  assumes "digits field" and "length field = 6 + k" and "k = 6 \<or> k = 3"
  defines "hh \<equiv> dec_value (take 2 field)" and "mm \<equiv> dec_value (take 2 (drop 2 field))"
    and "ss \<equiv> dec_value (take 2 (drop 4 field))" and "frac \<equiv> dec_value (drop 6 field)"
  shows "time_of_day_ns field at =
    (if hh < 24 \<and> mm < 60 \<and> ss < 60
     then Inr (Some (word_of_nat ((hh * 3600 + mm * 60 + ss) * 10 ^ 9 + frac * 10 ^ (9 - k))))
     else Inl (Err (TimeRange at)))"
proof -
  obtain h0 h1 m0 m1 s0 s1 sub where field: "field = [h0, h1, m0, m1, s0, s1] @ sub"
    using assms(2) by (auto simp: numeral_eq_Suc length_Suc_conv)
  have sub: "digits sub" "length sub = k" and head: "digits [h0, h1, m0, m1, s0, s1]"
    using assms(1,2) by (simp_all add: field)
  have hms: "hh = dec_value [h0, h1]" "mm = dec_value [m0, m1]" "ss = dec_value [s0, s1]" "frac = dec_value sub"
    by (simp_all add: hh_def mm_def ss_def frac_def field)
  have len: "\<not> (length field \<noteq> 12 \<and> length field \<noteq> 9)" "length field = 12 \<longleftrightarrow> k = 6"
    using assms(2,3) by auto
  have blank: "\<not> is_blank field"
    using assms(1) by (rule digits_not_blank) (simp add: field)
  have clock: "h0 > 0x32 \<or> h0 = 0x32 \<and> h1 > 0x33 \<or> m0 > 0x35 \<or> s0 > 0x35 \<longleftrightarrow>
      \<not> (hh < 24 \<and> mm < 60 \<and> ss < 60)"
    using clock_digits [OF head] by (simp add: hms)
  have "dec_value sub < 2 ^ 64"
    using dec_value_less [OF sub(1)] assms(3) sub(2) by auto
  then have parse_sub: "u64_parse_decimal sub = Inr (word_of_nat frac)"
    using u64_exact [OF sub(1)] assms(3) sub(2) hms(4) by auto
  have "list_all (\<lambda>b. b \<le> 0x39) [h0, h1, m0, m1, s0, s1]"
    using head by (simp add: digits_def is_digit_def)
  then have "parse_hhmmss_to_seconds [h0, h1, m0, m1, s0, s1] = Inr (word_of_nat (hh * 3600 + mm * 60 + ss))"
    by (simp add: hhmmss_value hms)
  then show ?thesis
    using len blank clock parse_sub assms(3)
    by (auto simp: time_of_day_ns_def field Let_def)
qed

text \<open>
  A clock field of digits is read exactly: \<open>HHMMSS\<close> with micro- or milliseconds is the number of
  nanoseconds since midnight when hours, minutes and seconds are a clock reading, which is below
  \<open>NS_PER_DAY\<close>, and \<open>TimeRange\<close> at the field's offset when they are not.
\<close>

theorem time_of_day_exact:
  assumes "digits field" and "length field = 6 + k" and "k = 6 \<or> k = 3"
  shows "let hh = dec_value (take 2 field); mm = dec_value (take 2 (drop 2 field));
             ss = dec_value (take 2 (drop 4 field)); frac = dec_value (drop 6 field);
             ns = (hh * 3600 + mm * 60 + ss) * 10 ^ 9 + frac * 10 ^ (9 - k)
         in if hh < 24 \<and> mm < 60 \<and> ss < 60
            then time_of_day_ns field at = Inr (Some (word_of_nat ns)) \<and> ns < unat NS_PER_DAY
            else time_of_day_ns field at = Inl (Err (TimeRange at))"
proof -
  let ?f = "dec_value (drop 6 field)"
  have "?f < 10 ^ k"
    using dec_value_less [of "drop 6 field"] assms by simp
  then have "?f * 10 ^ (9 - k) < 10 ^ 9"
    using assms(3) by auto
  then show ?thesis
    using time_of_day_value [OF assms] by (auto simp: Let_def NS_PER_DAY_def)
qed

theorem time_of_day_exact_witness:
  "time_of_day_ns [0x32, 0x33, 0x35, 0x39, 0x35, 0x39, 0x30, 0x30, 0x31] 13 = Inr (Some 86399001000000) \<and>
   time_of_day_ns [0x30, 0x39, 0x36, 0x31, 0x30, 0x30, 0x30, 0x30, 0x31] 13 = Inl (Err (TimeRange 13))"
  using time_of_day_exact [of "[0x32, 0x33, 0x35, 0x39, 0x35, 0x39, 0x30, 0x30, 0x31]" 3 13]
    time_of_day_exact [of "[0x30, 0x39, 0x36, 0x31, 0x30, 0x30, 0x30, 0x30, 0x31]" 3 13]
  by (simp add: is_digit_def dec_value_Cons)

text \<open>
  The range check looks for tens places above their limit only, and the digit check below it lets
  any smaller byte through: \<open>"/95959000000"\<close> is accepted as 159 hours, 59 minutes and 59 seconds,
  beyond \<open>NS_PER_DAY\<close>.
\<close>

theorem time_of_day_above_a_day:
  "time_of_day_ns [0x2F, 0x39, 0x35, 0x39, 0x35, 0x39, 0x30, 0x30, 0x30, 0x30, 0x30, 0x30] 35 =
     Inr (Some 575999000000000) \<and> NS_PER_DAY < 575999000000000"
proof -
  have "u64_parse_decimal [0x30, 0x30, 0x30, 0x30, 0x30, 0x30] = Inr 0"
    using u64_exact [of "[0x30, 0x30, 0x30, 0x30, 0x30, 0x30]"] by (simp add: is_digit_def dec_value_Cons)
  moreover have "parse_hhmmss_to_seconds [0x2F, 0x39, 0x35, 0x39, 0x35, 0x39] = Inr 575999"
    by (simp add: hhmmss_value dec_value_Cons word_le_nat_alt)
  ultimately show ?thesis
    by (simp add: time_of_day_ns_def is_blank_def NS_PER_DAY_def word_less_nat_alt)
qed

text \<open>
  Choosing the wrong one of the three shapes of a derivative price cannot pass quietly: on every
  field at most one of the three readers yields a price.
\<close>

theorem derivative_shapes_exclusive:
  assumes "r \<in> {derivative_rate, derivative_risk_free, derivative_plain}"
    and "r' \<in> {derivative_rate, derivative_risk_free, derivative_plain}"
    and "r \<noteq> r'" and "9 \<le> length field" and "field_price r field at = Inr (Some x)"
  shows "field_price r' field at \<noteq> Inr (Some y)"
proof -
  let ?near = "\<lambda>i. 0x2F \<le> field ! i \<and> field ! i \<le> 0x3A"
  have nth: "?near i" if near: "near_digits (unsigned_part (take n field))" and i: "0 < i" "i < n" "n \<le> 9" for n i
  proof -
    have "field ! i \<in> set (unsigned_part (take n field))"
    proof -
      obtain b fs where f: "field = b # fs" "8 \<le> length fs"
        using assms(4) by (cases field) auto
      obtain i' n' where n: "i = Suc i'" "n = Suc n'"
        using i(1,2) by (cases i; cases n) auto
      have "take n' fs ! i' \<in> set (take n' fs)"
        using i f(2) n by (intro nth_mem) simp
      then show ?thesis
        using i f n by (simp add: unsigned_part_def)
    qed
    then show ?thesis
      using near by (auto simp: near_digits_def list_all_iff)
  qed
  have rate: "field ! 6 = 0x2E \<and> ?near 5" if "field_price derivative_rate field at = Inr (Some v)" for v
    using that checked_shape_sound [of 6 2 field] nth [of 6 5]
    by (auto simp: field_price_def extractor_to_i64_checked_def reader_shapes map_ok_Inr_iff split: if_splits)
  have risk: "field ! 5 = 0x2E" if "field_price derivative_risk_free field at = Inr (Some v)" for v
    using that checked_shape_sound [of 5 3 field]
    by (auto simp: field_price_def extractor_to_i64_checked_def reader_shapes map_ok_Inr_iff split: if_splits)
  have plain: "?near 5 \<and> ?near 6" if "field_price derivative_plain field at = Inr (Some v)" for v
    using that checked_shape_sound [of 9 0 field] nth [of 9 5] nth [of 9 6]
    by (auto simp: field_price_def extractor_to_i64_checked_def reader_shapes map_ok_Inr_iff split: if_splits)
  show ?thesis
    using assms(1,2,3,5) rate risk plain by (auto simp: word_le_nat_alt)
qed

theorem derivative_shapes_exclusive_witness:
  "field_price derivative_plain [0x30, 0x30, 0x30, 0x39, 0x33, 0x37, 0x2E, 0x30, 0x35] 47 \<noteq> Inr (Some 5)"
proof -
  have "\<exists>v. field_price derivative_rate [0x30, 0x30, 0x30, 0x39, 0x33, 0x37, 0x2E, 0x30, 0x35] 47 = Inr (Some v)"
    using checked_field_exact [of "[0x30, 0x30, 0x39, 0x33, 0x37]" "[0x30, 0x35]" "shape 6 2" "[]"]
      config_build_shape [of 6 2]
    by (auto simp: field_price_def reader_shapes extractor_to_i64_checked_def is_blank_def signed_field_def
      is_digit_def literal_sizes)
  moreover have "fraction_size (shape 6 2) \<noteq> fraction_size (shape 9 0)"
    by (simp add: shape_def)
  then have "derivative_rate \<noteq> derivative_plain"
    by (auto simp: reader_shapes)
  ultimately show ?thesis
    using derivative_shapes_exclusive [of derivative_rate derivative_plain
      "[0x30, 0x30, 0x30, 0x39, 0x33, 0x37, 0x2E, 0x30, 0x35]" 47]
    by auto
qed


lemma sint_small: "- 9223372036854775808 \<le> x \<Longrightarrow> x < 9223372036854775808 \<Longrightarrow> sint (word_of_int x :: i64) = x"
  by (simp add: sint_sbintrunc' signed_take_bit_int_eq_self)

lemma int_bounds: "m < n \<Longrightarrow> int m < int n" "m \<le> n \<Longrightarrow> int m \<le> int n"
  by simp_all

lemma absolute_ns_value:
  assumes "unat tod < unat NS_PER_DAY" and "unat recv < 2 ^ 62" and "unat NS_PER_DAY \<le> unat recv"
  defines "D \<equiv> 86400000000000 :: int" and "B \<equiv> int (unat tod) - 32400000000000" and "R \<equiv> int (unat recv)"
  defines "before \<equiv> B + (R - B) div D * D"
  shows "int (unat (absolute_ns tod recv)) = (if R - before \<le> before + D - R then before else before + D)"
proof -
  have tod: "tod = word_of_int (int (unat tod))" and recv: "recv = word_of_int R"
    by (simp_all add: R_def)
  have day: "(NS_PER_DAY :: i64) = word_of_int D" "sint (word_of_int D :: i64) = D"
    by (simp_all add: NS_PER_DAY_def D_def)
  have base: "tod - KST_OFFSET_NS = word_of_int B"
  proof -
    have "word_of_int B = word_of_int (int (unat tod)) - (word_of_int 32400000000000 :: i64)"
      by (simp only: B_def wi_hom_sub)
    then show ?thesis
      by (simp add: KST_OFFSET_NS_def)
  qed
  have range: "0 \<le> int (unat tod)" "int (unat tod) < D" "D \<le> R" "R < 4611686018427387904"
    using int_bounds(1) [OF assms(1)] int_bounds(1) [OF assms(2)] int_bounds(2) [OF assms(3)]
    by (simp_all add: R_def D_def NS_PER_DAY_def)
  have "(R - B) div D * D + (R - B) mod D = R - B" "0 \<le> (R - B) mod D" "(R - B) mod D < D"
    by (simp_all add: D_def)
  then have gap: "0 \<le> R - before" "R - before < D"
    unfolding before_def by linarith+
  have k: "div_euclid_pos (recv - (tod - KST_OFFSET_NS)) NS_PER_DAY = word_of_int ((R - B) div D)"
  proof -
    have "recv - (tod - KST_OFFSET_NS) = word_of_int (R - B)"
      unfolding base by (subst recv) (simp only: wi_hom_sub)
    moreover have "sint (word_of_int (R - B) :: i64) = R - B"
      using range unfolding B_def D_def by (intro sint_small) linarith+
    ultimately show ?thesis
      by (simp add: div_euclid_pos_def day)
  qed
  have bef: "(tod - KST_OFFSET_NS) + div_euclid_pos (recv - (tod - KST_OFFSET_NS)) NS_PER_DAY * NS_PER_DAY
      = word_of_int before"
    unfolding k unfolding base day before_def by (simp only: wi_hom_add wi_hom_mult)
  have bounds: "0 < before" "before + D < 9223372036854775808"
    using gap range unfolding D_def by linarith+
  have after: "word_of_int before + NS_PER_DAY = (word_of_int (before + D) :: i64)"
    unfolding day by (simp only: wi_hom_add)
  have steps: "sint (recv - word_of_int before) = R - before"
    "sint (word_of_int before + NS_PER_DAY - recv) = before + D - R"
    "sint (word_of_int before :: i64) = before" "sint (word_of_int before + NS_PER_DAY :: i64) = before + D"
  proof -
    have "recv - word_of_int before = word_of_int (R - before)"
      "word_of_int before + NS_PER_DAY = (word_of_int (before + D) :: i64)"
      "word_of_int before + NS_PER_DAY - recv = word_of_int (before + D - R)"
      unfolding day by (simp_all only: recv wi_hom_sub wi_hom_add)
    then show "sint (recv - word_of_int before) = R - before"
      "sint (word_of_int before + NS_PER_DAY - recv) = before + D - R"
      "sint (word_of_int before :: i64) = before" "sint (word_of_int before + NS_PER_DAY :: i64) = before + D"
      using gap range bounds by (simp_all only:) (intro sint_small; unfold D_def; linarith)+
  qed
  have "uint (word_of_int x :: i64) = x" if "0 \<le> x" "x < 9223372036854775808" for x
    using that by (simp add: uint_word_of_int_eq take_bit_int_eq_self)
  then have vals: "int (unat (word_of_int before :: i64)) = before"
      "int (unat (word_of_int before + NS_PER_DAY :: i64)) = before + D"
    using bounds unfolding after by (simp_all add: D_def del: of_int_add)
  show ?thesis
    unfolding absolute_ns_def Let_def bef steps
    using bounds vals by (simp add: steps D_def)
qed

text \<open>
  C35. The day of a dateless clock reading: for a reading within a day and any reception time of this
  epoch, the absolute time is the reading in Korean time on some day, and no day is nearer: it is
  within twelve hours of the reception.
\<close>

theorem absolute_ns_nearest:
  assumes "unat tod < unat NS_PER_DAY" and "unat recv < 2 ^ 62" and "unat NS_PER_DAY \<le> unat recv"
  shows "(int (unat (absolute_ns tod recv)) + 9 * 3600 * 10 ^ 9) mod int (unat NS_PER_DAY) = int (unat tod) \<and>
    2 * \<bar>int (unat (absolute_ns tod recv)) - int (unat recv)\<bar> \<le> int (unat NS_PER_DAY)"
proof -
  let ?D = "86400000000000 :: int"
  let ?B = "int (unat tod) - 32400000000000" and ?R = "int (unat recv)"
  define q where "q = (?R - ?B) div ?D"
  let ?before = "?B + q * ?D"
  have "q * ?D + (?R - ?B) mod ?D = ?R - ?B" "0 \<le> (?R - ?B) mod ?D" "(?R - ?B) mod ?D < ?D"
    by (simp_all add: q_def)
  then have gap: "0 \<le> ?R - ?before" "?R - ?before < ?D"
    by linarith+
  have "?before + 32400000000000 = int (unat tod) + q * ?D"
    "?before + ?D + 32400000000000 = int (unat tod) + (q + 1) * ?D"
    by (simp_all add: algebra_simps)
  then have "(?before + 32400000000000) mod ?D = int (unat tod) mod ?D"
    "(?before + ?D + 32400000000000) mod ?D = int (unat tod) mod ?D"
    by (simp_all only: mod_mult_self1)
  moreover have "int (unat tod) mod ?D = int (unat tod)"
    using int_bounds(1) [OF assms(1)] by (simp add: NS_PER_DAY_def)
  ultimately show ?thesis
    using absolute_ns_value [OF assms] gap unfolding q_def [symmetric] by (auto simp: NS_PER_DAY_def)
qed

theorem absolute_ns_nearest_witness:
  "2 * \<bar>int (unat (absolute_ns 86399000000000 1700000000000000000)) - 1700000000000000000\<bar> \<le> 86400000000000"
  using absolute_ns_nearest [of 86399000000000 1700000000000000000] by (simp add: NS_PER_DAY_def)

end
