(* ===== verification/Krx_Filter.thy ===== *)
theory Krx_Filter
  imports Krx_Message "HOL-Library.List_Lexorder"
begin

text \<open>
  \<open>crates/jeed-krx/src/recv/filter.rs\<close>: the two allow-sets the receive loop applies before it claims
  a slot. Both are sorted arrays without duplicates searched by the standard library's
  \<open>binary_search\<close>, which is modelled as it is written and shown to find exactly the elements of a
  sorted array. The lemmas show that a filter built by \<open>new\<close> keeps exactly the codes or instruments
  it was given, whatever their order and repetitions. \<open>parse_isin_list\<close> is not modelled: it trims by
  the Unicode tables of the standard library.
\<close>

subsection \<open>Binary search\<close>

text \<open>\<open><[T]>::binary_search\<close>, followed by \<open>.ok()\<close>: the loop halves the size and keeps the base.\<close>

function search_base :: "'a::linorder list \<Rightarrow> 'a \<Rightarrow> nat \<Rightarrow> nat \<Rightarrow> nat" where
  "search_base xs x base sz =
     (if sz > 1 then
        let half = sz div 2; mid = base + half
        in search_base xs x (if xs ! mid > x then base else mid) (sz - half)
      else base)"
  by auto
termination
  by (relation "measure (\<lambda>(xs, x, base, sz). sz)") auto

declare search_base.simps [simp del]

definition binary_search :: "'a::linorder list \<Rightarrow> 'a \<Rightarrow> nat option" where
  "binary_search xs x =
     (if xs = [] then None
      else let base = search_base xs x 0 (length xs) in if xs ! base = x then Some base else None)"

lemma search_base_finds:
  assumes "sorted xs" "0 < sz" "base + sz \<le> length xs" "base \<le> i" "i < base + sz" "xs ! i = x"
  shows "xs ! search_base xs x base sz = x"
  using assms
proof (induction xs x base sz arbitrary: i rule: search_base.induct)
  case (1 xs x base sz)
  show ?case
  proof (cases "sz > 1")
    case False
    then have "base = i"
      using "1.prems" by linarith
    then have "xs ! base = x"
      using "1.prems" by blast
    with False show ?thesis
      by (simp add: search_base.simps [of xs x base sz])
  next
    case True
    let ?half = "sz div 2"
    have half: "0 < ?half" "?half < sz" "?half \<le> sz - ?half"
      using True by auto
    have step: "search_base xs x base sz =
        search_base xs x (if xs ! (base + ?half) > x then base else base + ?half) (sz - ?half)"
      using True by (simp add: search_base.simps [of xs x base sz] Let_def)
    show ?thesis
    proof (cases "xs ! (base + ?half) > x")
      case Greater: True
      have "i < base + ?half"
      proof (rule ccontr)
        assume "\<not> i < base + ?half"
        then have "xs ! (base + ?half) \<le> xs ! i"
          using "1.prems" by (intro sorted_nth_mono [OF "1.prems"(1)]) auto
        then show False
          using Greater "1.prems" by simp
      qed
      then have "i < base + (sz - ?half)"
        using half(3) by linarith
      then show ?thesis
        unfolding step using Greater "1.IH" [OF True refl refl, of i] "1.prems" half by simp
    next
      case False
      define k where "k = max i (base + ?half)"
      have "xs ! (base + ?half) = x" if "i < base + ?half"
        using that "1.prems" False half sorted_nth_mono [OF "1.prems"(1), of i "base + ?half"] by auto
      then have "xs ! k = x"
        using "1.prems" by (cases "i < base + ?half") (auto simp: k_def max_def)
      moreover have "base + ?half \<le> k" "k < base + ?half + (sz - ?half)"
        using "1.prems" half by (auto simp: k_def)
      ultimately show ?thesis
        unfolding step using False "1.IH" [OF True refl refl, of k] "1.prems" half by simp
    qed
  qed
qed

lemma search_base_range: "0 < sz \<Longrightarrow> search_base xs x base sz < base + sz"
proof (induction xs x base sz rule: search_base.induct)
  case (1 xs x base sz)
  let ?next = "if xs ! (base + sz div 2) > x then base else base + sz div 2"
  have "search_base xs x ?next (sz - sz div 2) < ?next + (sz - sz div 2)" if "sz > 1"
    using "1.IH" [OF that refl refl] that by simp
  moreover have "?next + (sz - sz div 2) \<le> base + sz"
    by auto
  ultimately show ?case
    using "1.prems" by (subst search_base.simps) (auto simp: Let_def)
qed

lemma binary_search_iff:
  assumes "sorted xs" "distinct xs"
  shows "binary_search xs x = Some i \<longleftrightarrow> i < length xs \<and> xs ! i = x"
proof (cases "xs = []")
  case False
  let ?b = "search_base xs x 0 (length xs)"
  have b: "?b < length xs"
    using search_base_range [of "length xs" xs x 0] False by simp
  have "xs ! ?b = x" if "i < length xs" "xs ! i = x"
    using search_base_finds [OF assms(1), of "length xs" 0 i x] that by (cases xs) auto
  then show ?thesis
    using False b assms(2) by (auto simp: binary_search_def Let_def nth_eq_iff_index_eq)
qed (simp add: binary_search_def)

lemma binary_search_keeps:
  "sorted xs \<Longrightarrow> distinct xs \<Longrightarrow> binary_search xs x \<noteq> None \<longleftrightarrow> x \<in> set xs"
  using binary_search_iff [of xs x] by (auto simp: in_set_conv_nth)

subsection \<open>The transaction codes\<close>

record trcode_filter =
  tf_keys :: "u64 list"
  tf_codes :: "trcode list"

definition trcode_filter_none :: trcode_filter where
  "trcode_filter_none = \<lparr> tf_keys = [], tf_codes = [] \<rparr>"

text \<open>\<open>sort_unstable_by_key\<close> and \<open>dedup\<close>; codes of equal key are equal, so the order is no choice.\<close>

definition trcode_filter_new :: "trcode list \<Rightarrow> trcode_filter" where
  "trcode_filter_new cs =
     (let cs = remdups_adj (sort_key trcode_as_u64 cs)
      in \<lparr> tf_keys = map trcode_as_u64 cs, tf_codes = cs \<rparr>)"

definition index_of :: "trcode_filter \<Rightarrow> trcode \<Rightarrow> nat option" where
  "index_of f c = binary_search (tf_keys f) (trcode_as_u64 c)"

definition filter_keeps :: "trcode_filter \<Rightarrow> trcode \<Rightarrow> bool" where
  "filter_keeps f c \<longleftrightarrow> index_of f c \<noteq> None"

definition filter_code :: "trcode_filter \<Rightarrow> nat \<Rightarrow> trcode option" where
  "filter_code f i = (if i < length (tf_codes f) then Some (tf_codes f ! i) else None)"

definition filter_len :: "trcode_filter \<Rightarrow> nat" where
  "filter_len f = length (tf_codes f)"

definition filter_is_empty :: "trcode_filter \<Rightarrow> bool" where
  "filter_is_empty f \<longleftrightarrow> tf_codes f = []"

subsection \<open>The instruments\<close>

record isin_filter =
  if_allow :: "bytes list"

definition isin_filter_all :: isin_filter where
  "isin_filter_all = \<lparr> if_allow = [] \<rparr>"

definition isin_filter_new :: "bytes list \<Rightarrow> isin_filter" where
  "isin_filter_new isins = \<lparr> if_allow = remdups_adj (sort isins) \<rparr>"

definition allows :: "isin_filter \<Rightarrow> bytes \<Rightarrow> bool" where
  "allows f i \<longleftrightarrow>
     if_allow f = [] \<or> length i = ISIN_LEN \<and> binary_search (if_allow f) i \<noteq> None"

definition isin_filter_len :: "isin_filter \<Rightarrow> nat" where
  "isin_filter_len f = length (if_allow f)"

definition isin_filter_is_empty :: "isin_filter \<Rightarrow> bool" where
  "isin_filter_is_empty f \<longleftrightarrow> if_allow f = []"

subsection \<open>A filter keeps what it was built from\<close>

definition trcode_ok :: "trcode \<Rightarrow> bool" where
  "trcode_ok c \<longleftrightarrow> length (trcode_bytes c) = 5"

lemma trcode_key_inj: "trcode_ok c \<Longrightarrow> trcode_ok d \<Longrightarrow> trcode_as_u64 c = trcode_as_u64 d \<longleftrightarrow> c = d"
  by (cases c; cases d) (simp add: trcode_ok_def trcode_as_u64_inj)

lemma sorted_remdups_adj_key:
  "sorted (map f xs) \<Longrightarrow> sorted (map f (remdups_adj xs))"
  by (induction xs rule: remdups_adj.induct) (auto simp: remdups_adj_set)

lemma distinct_remdups_adj_key:
  assumes "sorted (map f xs)" "inj_on f (set xs)"
  shows "distinct (map f (remdups_adj xs))"
  using assms
proof (induction xs rule: remdups_adj.induct)
  case (3 x y xs)
  show ?case
  proof (cases "x = y")
    case False
    have "f x \<notin> f ` set (y # xs)"
    proof
      assume "f x \<in> f ` set (y # xs)"
      then obtain z where z: "z \<in> set (y # xs)" "f z = f x"
        unfolding image_iff by metis
      have "f x \<le> f y" "f y \<le> f z"
        using "3.prems"(1) z(1) by auto
      then have "f x = f y"
        using z(2) by simp
      then show False
        using "3.prems"(2) False by (auto dest: inj_onD)
    qed
    then show ?thesis
      using 3 False by (auto simp: remdups_adj_set inj_on_def)
  qed (use 3 in auto)
qed simp_all

lemma trcode_filter_new_index:
  assumes "\<forall>c \<in> set cs. trcode_ok c" "trcode_ok c"
  shows "index_of (trcode_filter_new cs) c = Some i \<longleftrightarrow> filter_code (trcode_filter_new cs) i = Some c"
proof -
  let ?cs = "remdups_adj (sort_key trcode_as_u64 cs)"
  have "inj_on trcode_as_u64 (set cs)"
    using assms(1) by (auto simp: inj_on_def trcode_key_inj)
  then have "sorted (map trcode_as_u64 ?cs)" "distinct (map trcode_as_u64 ?cs)"
    by (auto intro: sorted_remdups_adj_key distinct_remdups_adj_key)
  moreover have "trcode_ok d" if "d \<in> set ?cs" for d
    using that assms(1) by (simp add: remdups_adj_set)
  then have "trcode_as_u64 (?cs ! i) = trcode_as_u64 c \<longleftrightarrow> ?cs ! i = c" if "i < length ?cs"
    using that assms(2) nth_mem by (intro trcode_key_inj) blast+
  ultimately show ?thesis
    by (auto simp: index_of_def trcode_filter_new_def filter_code_def Let_def binary_search_iff)
qed

lemma trcode_filter_new_keeps:
  assumes "\<forall>c \<in> set cs. trcode_ok c" "trcode_ok c"
  shows "filter_keeps (trcode_filter_new cs) c \<longleftrightarrow> c \<in> set cs"
proof -
  have "filter_keeps (trcode_filter_new cs) c \<longleftrightarrow> (\<exists>i. filter_code (trcode_filter_new cs) i = Some c)"
    by (simp only: filter_keeps_def not_None_eq trcode_filter_new_index [OF assms])
  also have "\<dots> \<longleftrightarrow> c \<in> set (remdups_adj (sort_key trcode_as_u64 cs))"
    by (simp add: filter_code_def trcode_filter_new_def Let_def in_set_conv_nth del: remdups_adj_set) blast
  also have "\<dots> \<longleftrightarrow> c \<in> set cs"
    by simp
  finally show ?thesis .
qed

lemma isin_filter_new_allows:
  assumes "\<forall>i \<in> set isins. length i = ISIN_LEN"
  shows "allows (isin_filter_new isins) i \<longleftrightarrow> isins = [] \<or> i \<in> set isins"
proof -
  have "sorted (remdups_adj (sort isins))" "distinct (remdups_adj (sort isins))"
    using sorted_remdups_adj_key [of "\<lambda>i. i" "sort isins"] distinct_remdups_adj_key [of "\<lambda>i. i" "sort isins"]
    by simp_all
  moreover have "sort isins = [] \<longleftrightarrow> isins = []"
    by (metis set_empty set_sort)
  ultimately show ?thesis
    using binary_search_keeps [of "remdups_adj (sort isins)" i] assms
    by (auto simp: allows_def isin_filter_new_def remdups_adj_set)
qed

text \<open>
  A transaction-code filter keeps exactly the codes it was built from, in any order and with any
  repetitions, none of them when there are none; the position it reports is the position of the
  code in its list.
\<close>

theorem trcode_filter_exact:
  assumes "\<forall>c \<in> set cs. trcode_ok c" and "trcode_ok c"
  shows "(filter_keeps (trcode_filter_new cs) c \<longleftrightarrow> c \<in> set cs) \<and>
    (index_of (trcode_filter_new cs) c = Some i \<longleftrightarrow> filter_code (trcode_filter_new cs) i = Some c)"
  using trcode_filter_new_keeps [OF assms] trcode_filter_new_index [OF assms] by blast

theorem trcode_filter_exact_witness:
  "filter_keeps (trcode_filter_new [TrCode [0x42, 0x36, 0x30, 0x31, 0x46], TrCode [0x41, 0x33, 0x30, 0x31, 0x46]])
     (TrCode [0x41, 0x33, 0x30, 0x31, 0x46])"
  using trcode_filter_exact [of "[TrCode [0x42, 0x36, 0x30, 0x31, 0x46], TrCode [0x41, 0x33, 0x30, 0x31, 0x46]]"
    "TrCode [0x41, 0x33, 0x30, 0x31, 0x46]"]
  by (simp add: trcode_ok_def)

text \<open>
  An instrument filter allows exactly the instruments it was built from, and every field when it
  was built from none.
\<close>

theorem isin_filter_exact:
  assumes "\<forall>i \<in> set isins. length i = ISIN_LEN"
  shows "allows (isin_filter_new isins) i \<longleftrightarrow> isins = [] \<or> i \<in> set isins"
  using assms by (rule isin_filter_new_allows)

theorem isin_filter_exact_witness:
  "allows (isin_filter_new [replicate 12 0x42, replicate 12 0x41]) (replicate 12 0x41) \<and>
   \<not> allows (isin_filter_new [replicate 12 0x42, replicate 12 0x41]) (replicate 11 0x41)"
  using isin_filter_exact [of "[replicate 12 0x42, replicate 12 0x41]"]
  by (simp add: ISIN_LEN_def)

end
