(* ===== verification/Fix_Filter.thy ===== *)
theory Fix_Filter
  imports Fix_Market_Data Krx_Filter
begin

text \<open>
  \<open>crates/jeed-fix/src/recv/filter.rs\<close>: the allow-set of symbols, a sorted array of zero-padded keys
  searched by the binary search of \<open>Krx_Filter\<close>. What is shown: a filter keeps exactly the symbols it
  was built from, cut to the prefix the decoder keeps, and a message passes when it names no symbol or
  one that is kept. \<open>parse\_symbol\_list\<close> is not modelled: it trims by the Unicode tables of the
  standard library.
\<close>

subsection \<open>The set\<close>

record symbol_filter =
  sf_allow :: "bytes list"

definition symbol_filter_all :: symbol_filter where
  "symbol_filter_all = \<lparr> sf_allow = [] \<rparr>"

text \<open>The key of a symbol: its first \<open>FIX_TEXT_LEN\<close> bytes, padded with zeros.\<close>

definition symbol_key :: "bytes \<Rightarrow> bytes" where
  "symbol_key s =
     (let n = min (length s) FIX_TEXT_LEN in take n s @ drop n (replicate FIX_TEXT_LEN 0))"

definition symbol_filter_new :: "bytes list \<Rightarrow> symbol_filter" where
  "symbol_filter_new symbols = \<lparr> sf_allow = remdups_adj (sort (map symbol_key symbols)) \<rparr>"

definition symbol_allows :: "symbol_filter \<Rightarrow> bytes \<Rightarrow> bool" where
  "symbol_allows f symbol =
     (if sf_allow f = [] then True
      else if length symbol > FIX_TEXT_LEN then False
      else let key = symbol @ drop (length symbol) (replicate FIX_TEXT_LEN 0)
           in binary_search (sf_allow f) key \<noteq> None)"

text \<open>The loop over the entries; \<open>named\<close> is its variable.\<close>

fun names_allowed :: "symbol_filter \<Rightarrow> bool \<Rightarrow> md_entry list \<Rightarrow> bool" where
  "names_allowed f named [] = (\<not> named)"
| "names_allowed f named (e # es) =
     (if fix_text_is_empty (e_symbol e) then names_allowed f named es
      else if symbol_allows f (fix_text_bytes (e_symbol e)) then True
      else names_allowed f True es)"

definition allows_message :: "symbol_filter \<Rightarrow> md_message \<Rightarrow> bool" where
  "allows_message f msg =
     (if sf_allow f = [] then True
      else if \<not> fix_text_is_empty (m_symbol msg) \<and> symbol_allows f (fix_text_bytes (m_symbol msg)) then True
      else names_allowed f (\<not> fix_text_is_empty (m_symbol msg)) (md_entries msg))"

definition symbol_filter_len :: "symbol_filter \<Rightarrow> nat" where
  "symbol_filter_len f = length (sf_allow f)"

definition symbol_filter_is_empty :: "symbol_filter \<Rightarrow> bool" where
  "symbol_filter_is_empty f \<longleftrightarrow> sf_allow f = []"

definition symbol_filter_symbols :: "symbol_filter \<Rightarrow> bytes list" where
  "symbol_filter_symbols f =
     map (\<lambda>s. take (case position 0 s of Some n \<Rightarrow> n | None \<Rightarrow> FIX_TEXT_LEN) s) (sf_allow f)"

subsection \<open>A filter keeps what it was built from\<close>

lemma symbol_key_padded: "length s \<le> FIX_TEXT_LEN \<Longrightarrow> s @ drop (length s) (replicate FIX_TEXT_LEN 0) = symbol_key s"
  by (simp add: symbol_key_def)

lemma symbol_key_take: "symbol_key s = symbol_key (take FIX_TEXT_LEN s)"
  by (simp add: symbol_key_def min_def)

lemma padded_inj:
  assumes "xs @ replicate m 0 = ys @ replicate n (0 :: u8)" and "0 \<notin> set xs" and "0 \<notin> set ys"
  shows "xs = ys"
proof -
  have "takeWhile (\<lambda>b. b \<noteq> 0) (xs @ replicate m 0) = xs" "takeWhile (\<lambda>b. b \<noteq> 0) (ys @ replicate n (0 :: u8)) = ys"
    using assms(2,3) by (auto simp: takeWhile_append takeWhile_replicate takeWhile_eq_all_conv [THEN iffD2])
  then show ?thesis
    using assms(1) by simp
qed

lemma symbol_key_inj:
  assumes "0 \<notin> set s" and "0 \<notin> set t"
  shows "symbol_key s = symbol_key t \<longleftrightarrow> take FIX_TEXT_LEN s = take FIX_TEXT_LEN t"
proof
  assume "symbol_key s = symbol_key t"
  then have "take FIX_TEXT_LEN s @ replicate (FIX_TEXT_LEN - length s) 0 =
      take FIX_TEXT_LEN t @ replicate (FIX_TEXT_LEN - length t) 0"
    by (simp add: symbol_key_def Let_def min_def split: if_splits)
  then show "take FIX_TEXT_LEN s = take FIX_TEXT_LEN t"
    by (rule padded_inj) (use assms in \<open>auto dest: in_set_takeD\<close>)
next
  assume "take FIX_TEXT_LEN s = take FIX_TEXT_LEN t"
  then show "symbol_key s = symbol_key t"
    using symbol_key_take by metis
qed

lemma symbol_filter_new_empty: "sf_allow (symbol_filter_new symbols) = [] \<longleftrightarrow> symbols = []"
proof -
  have "sort (map symbol_key symbols) = [] \<longleftrightarrow> symbols = []"
    by (metis Nil_is_map_conv set_empty set_sort)
  then show ?thesis
    by (simp add: symbol_filter_new_def)
qed

lemma symbol_allows_new:
  assumes "\<forall>s \<in> set symbols. 0 \<notin> set s" and "0 \<notin> set symbol" and "length symbol \<le> FIX_TEXT_LEN"
  shows "symbol_allows (symbol_filter_new symbols) symbol \<longleftrightarrow>
    symbols = [] \<or> symbol \<in> take FIX_TEXT_LEN ` set symbols"
proof -
  let ?keys = "remdups_adj (sort (map symbol_key symbols))"
  have "sorted ?keys" "distinct ?keys"
    using sorted_remdups_adj_key [of "\<lambda>i. i" "sort (map symbol_key symbols)"]
      distinct_remdups_adj_key [of "\<lambda>i. i" "sort (map symbol_key symbols)"] by simp_all
  then have "binary_search ?keys (symbol_key symbol) \<noteq> None \<longleftrightarrow> symbol_key symbol \<in> symbol_key ` set symbols"
    by (simp only: binary_search_keeps remdups_adj_set set_sort set_map)
  also have "... \<longleftrightarrow> symbol \<in> take FIX_TEXT_LEN ` set symbols"
    using assms symbol_key_inj [OF assms(2)] by (auto simp: image_iff)
  finally show ?thesis
    using assms(3) symbol_filter_new_empty [of symbols]
    by (simp only: symbol_allows_def symbol_key_padded Let_def) (simp add: symbol_filter_new_def not_less)
qed

text \<open>The symbols a message names.\<close>

definition message_symbols :: "md_message \<Rightarrow> bytes list" where
  "message_symbols msg =
     map fix_text_bytes (filter (\<lambda>t. \<not> fix_text_is_empty t) (m_symbol msg # map e_symbol (md_entries msg)))"

lemma names_allowed_iff:
  "names_allowed f named es \<longleftrightarrow>
   (let ts = filter (\<lambda>t. \<not> fix_text_is_empty t) (map e_symbol es)
    in (\<exists>t \<in> set ts. symbol_allows f (fix_text_bytes t)) \<or> ts = [] \<and> \<not> named)"
  by (induction f named es rule: names_allowed.induct) (auto simp: Let_def)

text \<open>
  The symbol filter keeps what it was built from. A filter built from any list of symbols keeps a
  message exactly when the list was empty, the message names no symbol, or one of the symbols it names -
  in its header or in an entry - is among the first 32 bytes of those given, whatever their order and
  repetitions.
\<close>

theorem symbol_filter_exact:
  assumes "\<forall>s \<in> set symbols. 0 \<notin> set s" and "\<forall>s \<in> set (message_symbols msg). 0 \<notin> set s \<and> length s \<le> FIX_TEXT_LEN"
  shows "allows_message (symbol_filter_new symbols) msg \<longleftrightarrow>
    symbols = [] \<or> message_symbols msg = [] \<or> (\<exists>s \<in> set (message_symbols msg). s \<in> take FIX_TEXT_LEN ` set symbols)"
proof (cases "symbols = []")
  case True
  then show ?thesis
    by (simp add: allows_message_def symbol_filter_new_def)
next
  case False
  then have some: "sf_allow (symbol_filter_new symbols) \<noteq> []"
    by (simp add: symbol_filter_new_empty)
  have "allows_message (symbol_filter_new symbols) msg \<longleftrightarrow>
      (\<exists>s \<in> set (message_symbols msg). symbol_allows (symbol_filter_new symbols) s) \<or> message_symbols msg = []"
    using some by (auto simp: allows_message_def names_allowed_iff message_symbols_def Let_def)
  also have "... \<longleftrightarrow> message_symbols msg = [] \<or> (\<exists>s \<in> set (message_symbols msg). s \<in> take FIX_TEXT_LEN ` set symbols)"
    using assms False by (auto simp: symbol_allows_new)
  finally show ?thesis
    using False by simp
qed

theorem symbol_filter_exact_witness:
  "allows_message (symbol_filter_new [[0x42], [0x41], [0x42]]) (MD_MESSAGE_EMPTY\<lparr> m_symbol := fix_text_new [0x41] \<rparr>) \<and>
   \<not> allows_message (symbol_filter_new [[0x42]]) (MD_MESSAGE_EMPTY\<lparr> m_symbol := fix_text_new [0x41] \<rparr>)"
proof -
  let ?m = "MD_MESSAGE_EMPTY\<lparr> m_symbol := fix_text_new [0x41] \<rparr>"
  have names: "message_symbols ?m = [[0x41]]"
    by (simp add: message_symbols_def md_entries_def MD_MESSAGE_EMPTY_def FIX_TEXT_LEN_def fix_text_is_empty_def
        fix_text_new_def fix_text_bytes_def)
  show ?thesis
    using symbol_filter_exact [of "[[0x42], [0x41], [0x42]]" ?m] symbol_filter_exact [of "[[0x42]]" ?m]
    by (simp add: names FIX_TEXT_LEN_def)
qed

end
