(* ===== verification/Krx_Decode.thy ===== *)
theory Krx_Decode
  imports Krx_Message
begin

text \<open>
  \<open>crates/jeed-krx/src/decode\<close>: every decoder of a KRX message and the dispatch over the five bytes of
  the transaction code. A decoder is a function of the datagram and the reception time; \<open>*out\<close> is
  assigned only where the function returns its record, so an error leaves the caller's record alone.
  A slice or an index outside the datagram is a panic. The theorems show that no datagram makes
  \<open>decode\<close> panic, that \<open>message_len\<close> names exactly the codes and lengths \<open>decode\<close> accepts, and that
  every decoded record passes the validation of the wire.

  The constants of one module carry its prefix (\<open>LVL_\<close> of the derivative level, \<open>BLV_\<close> of the bond
  level, \<open>SLV_\<close> of the securities level), and so do functions of the same name in several modules.
\<close>

subsection \<open>Slices and indices\<close>

definition slice :: "bytes \<Rightarrow> nat \<Rightarrow> nat \<Rightarrow> bytes krx" where
  "slice payload at len =
     (if at + len \<le> length payload then Inr (take len (drop at payload)) else Inl Panic)"

definition byte_at :: "bytes \<Rightarrow> nat \<Rightarrow> u8 krx" where
  "byte_at payload i = (if i < length payload then Inr (payload ! i) else Inl Panic)"

text \<open>\<open>field::price(reader, slice(payload, at, len), at)?\<close> and \<open>field::uint(\<dots>)?\<close>.\<close>

definition price_at :: "extractor \<Rightarrow> bytes \<Rightarrow> nat \<Rightarrow> nat \<Rightarrow> i64 option krx" where
  "price_at reader payload at len = and_then (slice payload at len) (\<lambda>f. field_price reader f at)"

definition uint_at :: "bytes \<Rightarrow> nat \<Rightarrow> nat \<Rightarrow> u64 option krx" where
  "uint_at payload at len = and_then (slice payload at len) (\<lambda>f. field_uint f at)"

definition time_at :: "bytes \<Rightarrow> nat \<Rightarrow> nat \<Rightarrow> u64 option krx" where
  "time_at payload at len = and_then (slice payload at len) (\<lambda>f. time_of_day_ns f at)"

definition unwrap_or :: "'a \<Rightarrow> 'a option \<Rightarrow> 'a" where
  "unwrap_or d x = (case x of Some v \<Rightarrow> v | None \<Rightarrow> d)"

text \<open>Loops over the levels of a book.\<close>

fun for_levels :: "(nat \<Rightarrow> 's \<Rightarrow> 's krx) \<Rightarrow> nat list \<Rightarrow> 's \<Rightarrow> 's krx" where
  "for_levels body [] s = Inr s"
| "for_levels body (i # is) s = and_then (body i s) (for_levels body is)"

text \<open>The wire's setters panic past the array and return no error.\<close>

definition lift_panic :: "(wire_error, 'a) res \<Rightarrow> 'a krx" where
  "lift_panic r = map_err KrxWire r"

subsection \<open>What every message shares (common.rs)\<close>

definition HEADER_LEN :: nat where "HEADER_LEN = 47"
definition OFF_SEQUENCE :: nat where "OFF_SEQUENCE = 5"
definition OFF_BOARD :: nat where "OFF_BOARD = 13"
definition OFF_SESSION :: nat where "OFF_SESSION = 15"
definition OFF_ISIN :: nat where "OFF_ISIN = 17"
definition OFF_INDEX :: nat where "OFF_INDEX = 29"
definition OFF_TIME :: nat where "OFF_TIME = 35"

record krx_header =
  kh_trcode :: trcode
  kh_sequence :: "u64 option"
  kh_board :: bytes
  kh_session :: bytes
  kh_isin :: bytes
  kh_index :: "u64 option"
  kh_time :: "u64 option"

definition krx_header_a :: "bytes \<Rightarrow> krx_header krx" where
  "krx_header_a payload =
     (if length payload < HEADER_LEN then Inl (Err (TooShort HEADER_LEN (length payload)))
      else
        and_then (trcode_from_message payload) (\<lambda>code.
        and_then (uint_at payload OFF_SEQUENCE 8) (\<lambda>sequence.
        and_then (and_then (slice payload OFF_ISIN ISIN_LEN) read_isin) (\<lambda>isin.
        and_then (uint_at payload OFF_INDEX 6) (\<lambda>index.
        and_then (time_at payload OFF_TIME 12) (\<lambda>time.
        and_then (slice payload OFF_BOARD 2) (\<lambda>board.
        and_then (slice payload OFF_SESSION 2) (\<lambda>session.
          Inr \<lparr> kh_trcode = code, kh_sequence = sequence, kh_board = board, kh_session = session,
                kh_isin = isin, kh_index = index, kh_time = time \<rparr>))))))))"

definition fill_record_header :: "krx_header \<Rightarrow> u64 \<Rightarrow> scale \<Rightarrow> record_header \<Rightarrow> record_header" where
  "fill_record_header msg recv_ns price_scale h =
     (let h = h\<lparr> h_symbol := wire_symbol (kh_isin msg), h_recv_ns := recv_ns \<rparr>;
          h = (case kh_time msg of
                 Some tod \<Rightarrow> set_venue_time (absolute_ns tod recv_ns) h
               | None \<Rightarrow> h)
      in set_scales price_scale S0 h)"

record book_shape =
  bs_depth :: u8
  bs_flags :: u8

record book_accum =
  ba_ask_depth :: nat
  ba_bid_depth :: nat

definition accum_default :: book_accum where
  "accum_default = \<lparr> ba_ask_depth = 0, ba_bid_depth = 0 \<rparr>"

definition accum_observe :: "nat \<Rightarrow> u64 \<Rightarrow> u64 \<Rightarrow> book_accum \<Rightarrow> book_accum" where
  "accum_observe level ask_qty bid_qty a =
     (let a = (if ask_qty > 0 then a\<lparr> ba_ask_depth := level + 1 \<rparr> else a)
      in if bid_qty > 0 then a\<lparr> ba_bid_depth := level + 1 \<rparr> else a)"

definition accum_finish :: "book_accum \<Rightarrow> book_shape" where
  "accum_finish a =
     (let flags = 0;
          flags = (if ba_ask_depth a = 0 then flags OR ASK_EMPTY else flags);
          flags = (if ba_bid_depth a = 0 then flags OR BID_EMPTY else flags)
      in \<lparr> bs_depth = of_nat (max (ba_ask_depth a) (ba_bid_depth a)), bs_flags = flags \<rparr>)"

text \<open>\<open>price.scale().unwrap_or_default()\<close>: the default scale is \<open>S0\<close>.\<close>

definition scale_or_default :: "extractor \<Rightarrow> scale" where
  "scale_or_default e = unwrap_or S0 (extractor_scale e)"

subsection \<open>Derivatives (derivative/mod.rs)\<close>

definition LEVEL_LEN :: nat where "LEVEL_LEN = 46"
definition LVL_ASK_PRICE :: nat where "LVL_ASK_PRICE = 0"
definition LVL_BID_PRICE :: nat where "LVL_BID_PRICE = 9"
definition LVL_ASK_QTY :: nat where "LVL_ASK_QTY = 18"
definition LVL_BID_QTY :: nat where "LVL_BID_QTY = 27"
definition LVL_ASK_COUNT :: nat where "LVL_ASK_COUNT = 36"
definition LVL_BID_COUNT :: nat where "LVL_BID_COUNT = 41"
definition LIMIT_HEADER_LEN :: nat where "LIMIT_HEADER_LEN = 33"
definition LIM_SEQUENCE :: nat where "LIM_SEQUENCE = 5"
definition LIM_BOARD :: nat where "LIM_BOARD = 13"
definition LIM_ISIN :: nat where "LIM_ISIN = 15"
definition LIM_INDEX :: nat where "LIM_INDEX = 27"

definition depth_for_product_group :: "trcode \<Rightarrow> nat" where
  "depth_for_product_group c =
     (if product_group c = [0x30, 0x34, 0x46] \<or> product_group c = [0x30, 0x35, 0x46]
         \<or> product_group c = [0x31, 0x38, 0x46]
      then 10 else 5)"

definition limit_header :: "bytes \<Rightarrow> nat \<Rightarrow> nat \<Rightarrow> krx_header krx" where
  "limit_header payload time_off time_len =
     (if length payload < time_off + time_len
      then Inl (Err (TooShort (time_off + time_len) (length payload)))
      else
        and_then (trcode_from_message payload) (\<lambda>code.
        and_then (uint_at payload LIM_SEQUENCE 8) (\<lambda>sequence.
        and_then (and_then (slice payload LIM_ISIN ISIN_LEN) read_isin) (\<lambda>isin.
        and_then (uint_at payload LIM_INDEX 6) (\<lambda>index.
        and_then (time_at payload time_off time_len) (\<lambda>time.
        and_then (slice payload LIM_BOARD 2) (\<lambda>board.
          Inr \<lparr> kh_trcode = code, kh_sequence = sequence, kh_board = board,
                kh_session = [0x20, 0x20], kh_isin = isin, kh_index = index, kh_time = time \<rparr>)))))))"

definition derivative_level ::
    "bytes \<Rightarrow> nat \<Rightarrow> extractor \<Rightarrow> nat \<Rightarrow> book_accum \<times> quote_payload \<Rightarrow> (book_accum \<times> quote_payload) krx" where
  "derivative_level payload first_level reader level acc =
     (case acc of (accum, out) \<Rightarrow>
        let at = first_level + level * LEVEL_LEN
        in and_then (price_at reader payload (at + LVL_ASK_PRICE) 9) (\<lambda>ask_price.
           and_then (price_at reader payload (at + LVL_BID_PRICE) 9) (\<lambda>bid_price.
           and_then (uint_at payload (at + LVL_ASK_QTY) 9) (\<lambda>ask_qty.
           and_then (uint_at payload (at + LVL_BID_QTY) 9) (\<lambda>bid_qty.
           and_then (uint_at payload (at + LVL_ASK_COUNT) 5) (\<lambda>ask_count.
           and_then (uint_at payload (at + LVL_BID_COUNT) 5) (\<lambda>bid_count.
             let ask_qty = unwrap_or 0 ask_qty; bid_qty = unwrap_or 0 bid_qty;
                 accum = accum_observe level ask_qty bid_qty accum
             in and_then (lift_panic (set_ask level (level_with_count (unwrap_or 0 ask_price) ask_qty
                    (ucast (unwrap_or 0 ask_count))) out)) (\<lambda>out.
                and_then (lift_panic (set_bid level (level_with_count (unwrap_or 0 bid_price) bid_qty
                    (ucast (unwrap_or 0 bid_count))) out)) (\<lambda>out.
                  Inr (accum, out))))))))))"

definition derivative_fill_book ::
    "bytes \<Rightarrow> nat \<Rightarrow> nat \<Rightarrow> extractor \<Rightarrow> quote_payload \<Rightarrow> (book_shape \<times> quote_payload) krx" where
  "derivative_fill_book payload first_level depth reader out =
     and_then (for_levels (derivative_level payload first_level reader) [0..<depth] (accum_default, out))
       (\<lambda>(accum, out). Inr (accum_finish accum, with_order_counts out))"

definition OFF_PRICE :: nat where "OFF_PRICE = 47"
definition OFF_QTY :: nat where "OFF_QTY = 56"
definition OFF_CUMULATIVE_QTY :: nat where "OFF_CUMULATIVE_QTY = 119"
definition OFF_AGGRESSOR :: nat where "OFF_AGGRESSOR = 153"
definition OFF_DYN_UPPER :: nat where "OFF_DYN_UPPER = 154"
definition OFF_DYN_LOWER :: nat where "OFF_DYN_LOWER = 163"
definition TRADE_BLOCK_END :: nat where "TRADE_BLOCK_END = 172"

definition aggressor :: "u8 \<Rightarrow> u8" where
  "aggressor b = (if b = 0x31 then SELL else if b = 0x32 then BUY else TRADE_KIND_UNKNOWN)"

definition derivative_fill_trade :: "bytes \<Rightarrow> extractor \<Rightarrow> trade_payload krx" where
  "derivative_fill_trade payload reader =
     and_then (price_at reader payload OFF_PRICE 9) (\<lambda>price.
     and_then (uint_at payload OFF_QTY 9) (\<lambda>qty.
     and_then (uint_at payload OFF_CUMULATIVE_QTY 12) (\<lambda>cumulative.
     and_then (price_at reader payload OFF_DYN_UPPER 9) (\<lambda>dyn_upper.
     and_then (price_at reader payload OFF_DYN_LOWER 9) (\<lambda>dyn_lower.
     and_then (byte_at payload OFF_AGGRESSOR) (\<lambda>code.
       let trade = trade_new (unwrap_or 0 price) (unwrap_or 0 qty);
           trade = (case cumulative of Some c \<Rightarrow> with_cumulative_qty c trade | None \<Rightarrow> trade);
           trade = with_kind (aggressor code) trade
       in Inr (case (dyn_upper, dyn_lower) of
                 (Some u, Some l) \<Rightarrow> if sint u > 0 \<and> sint l > 0 then with_dyn_limits u l trade else trade
               | _ \<Rightarrow> trade)))))))"

text \<open>\<open>B6\<close> (derivative/quote.rs), one decoder per depth.\<close>

definition QUOTE_TAIL_EXPECTED_PRICE :: nat where "QUOTE_TAIL_EXPECTED_PRICE = 28"
definition QUOTE_TAIL_LEN :: nat where "QUOTE_TAIL_LEN = 47"

definition derivative_quote_len :: "nat \<Rightarrow> nat" where
  "derivative_quote_len depth = HEADER_LEN + depth * LEVEL_LEN + QUOTE_TAIL_LEN"

definition with_expected :: "i64 option \<Rightarrow> quote_payload \<Rightarrow> quote_payload" where
  "with_expected expected quote =
     (case expected of Some v \<Rightarrow> if v \<noteq> 0 then with_quote_ext EXPECTED_PRICE v quote else quote
      | None \<Rightarrow> quote)"

definition krx_record_header :: "wire_kind \<Rightarrow> krx_header \<Rightarrow> u64 \<Rightarrow> scale \<Rightarrow> record_header" where
  "krx_record_header kind msg recv_ns price_scale =
     fill_record_header msg recv_ns price_scale (header_new kind Krx (wire_symbol (kh_isin msg)) recv_ns)"

definition derivative_quote_decode :: "nat \<Rightarrow> bytes \<Rightarrow> u64 \<Rightarrow> wire_record krx" where
  "derivative_quote_decode depth payload recv_ns =
     and_then (krx_validate payload (derivative_quote_len depth)) (\<lambda>_.
     and_then (krx_header_a payload) (\<lambda>msg.
       let reader = derivative_price (kh_trcode msg) (kh_isin msg);
           price_scale = scale_or_default reader
       in and_then (derivative_fill_book payload HEADER_LEN depth reader quote_default) (\<lambda>(shape, quote).
          let tail = HEADER_LEN + depth * LEVEL_LEN
          in and_then (price_at reader payload (tail + QUOTE_TAIL_EXPECTED_PRICE) 9) (\<lambda>expected.
             let quote = with_expected expected quote;
                 h = krx_record_header Quote msg recv_ns price_scale;
                 h = set_flags (bs_flags shape) (set_depth (bs_depth shape) h)
             in Inr (new_quote h quote)))))"

definition quote_depth_for :: "trcode \<Rightarrow> nat option" where
  "quote_depth_for c =
     (if \<not> is_derivative c then None
      else if data_class c = [0x42, 0x36] then Some (depth_for_product_group c) else None)"

text \<open>\<open>A3\<close> (derivative/trade.rs).\<close>

definition DERIVATIVE_TRADE_LEN :: nat where "DERIVATIVE_TRADE_LEN = TRADE_BLOCK_END + 1"

definition derivative_trade_decode :: "bytes \<Rightarrow> u64 \<Rightarrow> wire_record krx" where
  "derivative_trade_decode payload recv_ns =
     and_then (krx_validate payload DERIVATIVE_TRADE_LEN) (\<lambda>_.
     and_then (krx_header_a payload) (\<lambda>msg.
       let reader = derivative_price (kh_trcode msg) (kh_isin msg)
       in and_then (derivative_fill_trade payload reader) (\<lambda>trade.
          Inr (new_trade (krx_record_header Trade msg recv_ns (scale_or_default reader)) trade))))"

definition derivative_trade_handles :: "trcode \<Rightarrow> bool" where
  "derivative_trade_handles c \<longleftrightarrow> is_derivative c \<and> data_class c = [0x41, 0x33]"

text \<open>\<open>G7\<close> (derivative/trade\_quote.rs).\<close>

definition TRADE_QUOTE_TAIL_LEN :: nat where "TRADE_QUOTE_TAIL_LEN = 29"

definition derivative_trade_quote_len :: "nat \<Rightarrow> nat" where
  "derivative_trade_quote_len depth = TRADE_BLOCK_END + depth * LEVEL_LEN + TRADE_QUOTE_TAIL_LEN"

definition derivative_trade_quote_decode :: "nat \<Rightarrow> bytes \<Rightarrow> u64 \<Rightarrow> wire_record krx" where
  "derivative_trade_quote_decode depth payload recv_ns =
     and_then (krx_validate payload (derivative_trade_quote_len depth)) (\<lambda>_.
     and_then (krx_header_a payload) (\<lambda>msg.
       let reader = derivative_price (kh_trcode msg) (kh_isin msg);
           price_scale = scale_or_default reader
       in and_then (derivative_fill_book payload TRADE_BLOCK_END depth reader quote_default) (\<lambda>(shape, quote).
          and_then (derivative_fill_trade payload reader) (\<lambda>trade.
            let h = krx_record_header TradeQuote msg recv_ns price_scale;
                h = set_flags (bs_flags shape) (set_depth (bs_depth shape) h)
            in Inr (new_trade_quote h \<lparr> tq_trade = trade, tq_quote = quote \<rparr>)))))"

definition trade_quote_depth_for :: "trcode \<Rightarrow> nat option" where
  "trade_quote_depth_for c =
     (if \<not> is_derivative c then None
      else if data_class c = [0x47, 0x37] then Some (depth_for_product_group c) else None)"

text \<open>\<open>V1\<close> (derivative/price\_limit.rs).\<close>

definition V1_OFF_TIME :: nat where "V1_OFF_TIME = 33"
definition V1_TIME_LEN :: nat where "V1_TIME_LEN = 9"
definition V1_OFF_UPPER_STAGE :: nat where "V1_OFF_UPPER_STAGE = 42"
definition V1_OFF_LOWER_STAGE :: nat where "V1_OFF_LOWER_STAGE = 44"
definition V1_OFF_UPPER_PRICE :: nat where "V1_OFF_UPPER_PRICE = 46"
definition V1_OFF_LOWER_PRICE :: nat where "V1_OFF_LOWER_PRICE = 55"
definition V1_MESSAGE_LEN :: nat where "V1_MESSAGE_LEN = 65"

definition price_limit_decode :: "bytes \<Rightarrow> u64 \<Rightarrow> wire_record krx" where
  "price_limit_decode payload recv_ns =
     and_then (krx_validate payload V1_MESSAGE_LEN) (\<lambda>_.
     and_then (limit_header payload V1_OFF_TIME V1_TIME_LEN) (\<lambda>msg.
       let reader = derivative_price (kh_trcode msg) (kh_isin msg)
       in and_then (price_at reader payload V1_OFF_UPPER_PRICE 9) (\<lambda>upper.
          and_then (price_at reader payload V1_OFF_LOWER_PRICE 9) (\<lambda>lower.
          and_then (uint_at payload V1_OFF_UPPER_STAGE 2) (\<lambda>upper_stage.
          and_then (uint_at payload V1_OFF_LOWER_STAGE 2) (\<lambda>lower_stage.
            Inr (new_price_limit (krx_record_header PriceLimit msg recv_ns (scale_or_default reader))
              \<lparr> pl_applied_time_of_day = unwrap_or 0 (kh_time msg),
                pl_upper_price = unwrap_or 0 upper, pl_lower_price = unwrap_or 0 lower,
                pl_sequence = ucast (unwrap_or 0 (kh_sequence msg)), pl_board_id = kh_board msg,
                pl_information_category = product_group (kh_trcode msg),
                pl_upper_stage = ucast (unwrap_or 0 upper_stage),
                pl_lower_stage = ucast (unwrap_or 0 lower_stage), pl_pad = replicate 5 0 \<rparr>)))))))"

definition price_limit_handles :: "trcode \<Rightarrow> bool" where
  "price_limit_handles c \<longleftrightarrow> is_derivative c \<and> data_class c = [0x56, 0x31]"

text \<open>\<open>Q2\<close> (derivative/dynamic\_limit.rs).\<close>

definition Q2_OFF_TIME :: nat where "Q2_OFF_TIME = 33"
definition Q2_TIME_LEN :: nat where "Q2_TIME_LEN = 12"
definition Q2_OFF_ACTION :: nat where "Q2_OFF_ACTION = 45"
definition Q2_OFF_UPPER_PRICE :: nat where "Q2_OFF_UPPER_PRICE = 46"
definition Q2_OFF_LOWER_PRICE :: nat where "Q2_OFF_LOWER_PRICE = 55"
definition Q2_MESSAGE_LEN :: nat where "Q2_MESSAGE_LEN = 65"

definition dynamic_limit_decode :: "bytes \<Rightarrow> u64 \<Rightarrow> wire_record krx" where
  "dynamic_limit_decode payload recv_ns =
     and_then (krx_validate payload Q2_MESSAGE_LEN) (\<lambda>_.
     and_then (limit_header payload Q2_OFF_TIME Q2_TIME_LEN) (\<lambda>msg.
       let reader = derivative_price (kh_trcode msg) (kh_isin msg)
       in and_then (price_at reader payload Q2_OFF_UPPER_PRICE 9) (\<lambda>upper.
          and_then (price_at reader payload Q2_OFF_LOWER_PRICE 9) (\<lambda>lower.
          and_then (byte_at payload Q2_OFF_ACTION) (\<lambda>code.
            let action = (if code = 0x31 then APPLIED else if code = 0x32 then RELEASED else DYN_UNKNOWN)
            in Inr (new_dynamic_price_limit
                 (krx_record_header DynamicPriceLimit msg recv_ns (scale_or_default reader))
                 \<lparr> dp_applied_time_of_day = unwrap_or 0 (kh_time msg),
                   dp_upper_price = unwrap_or 0 upper, dp_lower_price = unwrap_or 0 lower,
                   dp_sequence = ucast (unwrap_or 0 (kh_sequence msg)), dp_board_id = kh_board msg,
                   dp_information_category = product_group (kh_trcode msg), dp_action = action,
                   dp_pad = replicate 6 0 \<rparr>))))))"

definition dynamic_limit_handles :: "trcode \<Rightarrow> bool" where
  "dynamic_limit_handles c \<longleftrightarrow> is_derivative c \<and> data_class c = [0x51, 0x32]"


subsection \<open>Readers return\<close>

lemma trcode_from_take:
  "5 \<le> length payload \<Longrightarrow> trcode_from_message payload = Inr (TrCode (take 5 payload))"
proof -
  assume "5 \<le> length payload"
  then obtain a b c d e rest where "payload = a # b # c # d # e # rest"
    by (auto simp: numeral_eq_Suc Suc_le_length_iff)
  then show ?thesis
    by (simp add: trcode_from_message_def TRCODE_LEN_def)
qed

lemma slice_eq: "at + len \<le> length payload \<Longrightarrow> slice payload at len = Inr (take len (drop at payload))"
  by (simp add: slice_def)

definition krx_reader :: "extractor \<Rightarrow> bool" where
  "krx_reader e \<longleftrightarrow> (\<exists>lead frac. e = Fixed (shape lead frac) \<and> 0 < lead \<and> lead + frac < 2 ^ 32 \<and> frac \<le> 8)"

lemma krx_reader_shape: "0 < lead \<Longrightarrow> lead + frac < 2 ^ 32 \<Longrightarrow> frac \<le> 8 \<Longrightarrow> krx_reader (Fixed (shape lead frac))"
  by (auto simp: krx_reader_def)

lemma krx_readers [simp]:
  "krx_reader securities_price" "krx_reader bond_price" "krx_reader krx_bond_yield"
  "krx_reader (derivative_price code isin)"
  by (simp_all add: derivative_price_def reader_shapes krx_reader_shape)

lemma returns_then: "returns r (\<lambda>_. True) \<Longrightarrow> (\<And>x. returns (f x) Q) \<Longrightarrow> returns (and_then r f) Q"
  by (rule returns_and_then)

lemma price_at_step:
  "krx_reader e \<Longrightarrow> at + len \<le> length payload \<Longrightarrow> (\<And>x. returns (f x) Q) \<Longrightarrow>
   returns (and_then (price_at e payload at len) f) Q"
  unfolding krx_reader_def price_at_def
  by (auto simp: slice_eq intro!: returns_then returns_no_panic field_price_no_panic)

lemma uint_at_step:
  "at + len \<le> length payload \<Longrightarrow> (\<And>x. returns (f x) Q) \<Longrightarrow> returns (and_then (uint_at payload at len) f) Q"
  by (auto simp: uint_at_def slice_eq intro!: returns_then returns_no_panic)

lemma time_at_step:
  "at + len \<le> length payload \<Longrightarrow> (\<And>x. returns (f x) Q) \<Longrightarrow> returns (and_then (time_at payload at len) f) Q"
  by (auto simp: time_at_def slice_eq intro!: returns_then returns_no_panic)

lemma byte_at_step:
  "i < length payload \<Longrightarrow> (\<And>x. returns (f x) Q) \<Longrightarrow> returns (and_then (byte_at payload i) f) Q"
  by (simp add: byte_at_def)

lemma slice_step:
  "at + len \<le> length payload \<Longrightarrow> (\<And>x. length x = len \<Longrightarrow> returns (f x) Q) \<Longrightarrow>
   returns (and_then (slice payload at len) f) Q"
  by (simp add: slice_def)

lemma isin_step:
  "at + 12 \<le> length payload \<Longrightarrow> returns (f (take 12 (drop at payload))) Q \<Longrightarrow>
   returns (and_then (and_then (slice payload at ISIN_LEN) read_isin) f) Q"
  by (simp add: slice_eq read_isin_def krx_consts)

lemma trcode_step:
  "5 \<le> length payload \<Longrightarrow> returns (f (TrCode (take 5 payload))) Q \<Longrightarrow>
   returns (and_then (trcode_from_message payload) f) Q"
  by (simp add: trcode_from_take)

lemmas reader_steps = price_at_step uint_at_step time_at_step byte_at_step slice_step isin_step trcode_step

lemma for_levels_returns:
  assumes "I 0 s" and "\<And>i t. i < n \<Longrightarrow> I i t \<Longrightarrow> returns (body i t) (I (Suc i))"
  shows "returns (for_levels body [0..<n] s) (I n)"
proof -
  have "returns (for_levels body [m..<n] s) (I n)" if "I m s" "m \<le> n" for m
    using that
  proof (induction "n - m" arbitrary: m s)
    case (Suc k)
    then have m: "m < n"
      by simp
    have "returns (for_levels body [Suc m..<n] t) (I n)" if "I (Suc m) t" for t
      using Suc.hyps(1) [of "Suc m" t] Suc.hyps(2) m that by simp
    then show ?case
      using assms(2) [OF m Suc.prems(1)] by (simp add: upt_conv_Cons [OF m] returns_and_then)
  qed simp
  then show ?thesis
    using assms(1) by simp
qed

subsection \<open>Books\<close>

text \<open>
  What the depth and the empty flags of a book say: the depth is the number of levels up to the
  deepest one with a quantity, and a side is flagged empty exactly when it has no quantity at all.
\<close>

definition side_depth :: "wire_level list \<Rightarrow> nat \<Rightarrow> bool" where
  "side_depth ls d \<longleftrightarrow> d \<le> length ls \<and> (\<forall>i < length ls. d \<le> i \<longrightarrow> l_qty (ls ! i) = 0) \<and>
     (d > 0 \<longrightarrow> l_qty (ls ! (d - 1)) > 0)"

definition book_inv :: "nat \<Rightarrow> book_accum \<times> quote_payload \<Rightarrow> bool" where
  "book_inv n = (\<lambda>(a, q). quote_payload_ok q \<and> q_level_ext_kind q = 0 \<and> q_quote_ext_kind q = 0 \<and>
     ba_ask_depth a \<le> n \<and> ba_bid_depth a \<le> n \<and>
     side_depth (q_ask q) (ba_ask_depth a) \<and> side_depth (q_bid q) (ba_bid_depth a) \<and>
     (\<forall>i < 10. n \<le> i \<longrightarrow> l_qty (q_ask q ! i) = 0 \<and> l_qty (q_bid q ! i) = 0))"

lemma list_all_True [simp]: "list_all (\<lambda>_. True) xs"
  by (induction xs) simp_all

lemma side_depth_update:
  assumes "side_depth ls d" "i < length ls" "d \<le> i"
  shows "side_depth (ls[i := l]) (if l_qty l > 0 then i + 1 else d)"
  using assms by (auto simp: side_depth_def nth_list_update word_gt_0)

lemma book_level:
  assumes "book_inv i (a, q)" "i < 10" "l_qty ask = aq" "l_qty bid = bq"
  shows "book_inv (Suc i)
    (accum_observe i aq bq a, q\<lparr> q_ask := (q_ask q)[i := ask], q_bid := (q_bid q)[i := bid] \<rparr>)"
  using assms side_depth_update [of "q_ask q" "ba_ask_depth a" i ask]
    side_depth_update [of "q_bid q" "ba_bid_depth a" i bid]
  by (auto simp: book_inv_def accum_observe_def quote_payload_ok_def array_ok_def nth_list_update)

lemma word_from_zeros [simp]: "word_from_bytes n (replicate m 0) = 0"
proof -
  have "le_val (replicate k 0) = 0" for k
    by (induction k) simp_all
  then show ?thesis
    by (simp add: word_from_bytes_def from_le_bytes_def)
qed

lemma quote_default_eq:
  "quote_default = \<lparr> q_ask = replicate 10 (level_new 0 0), q_bid = replicate 10 (level_new 0 0),
     q_quote_ext = 0, q_level_ext_kind = 0, q_quote_ext_kind = 0, q_level_flags = 0, q_pad = replicate 5 0 \<rparr>"
proof -
  have "wire_level_from_bytes (replicate m 0) = level_new 0 0" for m
    by (simp add: wire_level_from_bytes_def level_new_def)
  then have "array_from_bytes wire_level_from_bytes 24 n (replicate m 0) = replicate n (level_new 0 0)" for n m
    by (induction n arbitrary: m) simp_all
  then show ?thesis
    by (simp add: quote_default_def quote_payload_from_bytes_def)
qed

lemma quote_default_book: "book_inv 0 (accum_default, quote_default)"
  by (simp add: book_inv_def accum_default_def side_depth_def quote_default_eq quote_payload_ok_def
    array_ok_def level_new_def)

text \<open>A finished book, as a payload and the shape reported beside it.\<close>

definition book_sound :: "u8 \<Rightarrow> bool \<Rightarrow> bool \<Rightarrow> quote_payload \<Rightarrow> bool" where
  "book_sound depth ask_empty bid_empty q \<longleftrightarrow>
     quote_payload_ok q \<and> q_level_ext_kind q \<le> 2 \<and> q_quote_ext_kind q \<le> 3 \<and> unat depth \<le> 10 \<and>
     (\<forall>i < 10. unat depth \<le> i \<longrightarrow> l_qty (q_ask q ! i) = 0 \<and> l_qty (q_bid q ! i) = 0) \<and>
     (depth > 0 \<longrightarrow> l_qty (q_ask q ! (unat depth - 1)) > 0 \<or> l_qty (q_bid q ! (unat depth - 1)) > 0) \<and>
     (ask_empty \<longleftrightarrow> (\<forall>i < 10. l_qty (q_ask q ! i) = 0)) \<and>
     (bid_empty \<longleftrightarrow> (\<forall>i < 10. l_qty (q_bid q ! i) = 0))"

definition shape_sound :: "book_shape \<times> quote_payload \<Rightarrow> bool" where
  "shape_sound = (\<lambda>(shp, q). q_quote_ext_kind q = 0 \<and>
     (\<exists>a b. bs_flags shp = (if a then ASK_EMPTY else 0) OR (if b then BID_EMPTY else 0) \<and>
            book_sound (bs_depth shp) a b q))"

lemma side_depth_empty: "side_depth ls d \<Longrightarrow> d = 0 \<longleftrightarrow> (\<forall>i < length ls. l_qty (ls ! i) = 0)"
  by (cases "d = 0") (auto simp: side_depth_def word_gt_0 intro!: exI [of _ "d - 1"])

lemma side_depth_max:
  assumes "side_depth la da" "side_depth lb db" "length la = n" "length lb = n"
  shows "max da db \<le> n" and "i < n \<Longrightarrow> max da db \<le> i \<Longrightarrow> l_qty (la ! i) = 0 \<and> l_qty (lb ! i) = 0"
    and "max da db > 0 \<Longrightarrow> l_qty (la ! (max da db - 1)) > 0 \<or> l_qty (lb ! (max da db - 1)) > 0"
  using assms by (simp_all add: side_depth_def) (auto simp: max_def)

lemma book_finish:
  assumes "book_inv n (a, q)"
  shows "shape_sound (accum_finish a, q)"
proof -
  let ?d = "max (ba_ask_depth a) (ba_bid_depth a)"
  have inv: "length (q_ask q) = 10" "length (q_bid q) = 10" "side_depth (q_ask q) (ba_ask_depth a)"
    "side_depth (q_bid q) (ba_bid_depth a)" "quote_payload_ok q" "q_level_ext_kind q = 0" "q_quote_ext_kind q = 0"
    using assms by (auto simp: book_inv_def quote_payload_ok_def array_ok_def)
  note deep = side_depth_max [OF inv(3,4,1,2)] and empty = side_depth_empty [OF inv(3)] side_depth_empty [OF inv(4)]
  have d: "unat (bs_depth (accum_finish a)) = ?d" "bs_depth (accum_finish a) > 0 \<longleftrightarrow> ?d > 0"
    using deep(1) by (simp_all add: accum_finish_def Let_def unsigned_of_nat take_bit_eq_mod word_less_nat_alt)
  have "bs_flags (accum_finish a) = (if ba_ask_depth a = 0 then ASK_EMPTY else 0) OR
      (if ba_bid_depth a = 0 then BID_EMPTY else 0)"
    by (simp add: accum_finish_def Let_def)
  moreover have "book_sound (bs_depth (accum_finish a)) (ba_ask_depth a = 0) (ba_bid_depth a = 0) q"
    unfolding book_sound_def d using inv(5,6,7) deep empty inv(1,2) by simp
  ultimately show ?thesis
    using inv(7) unfolding shape_sound_def by blast
qed

lemma book_sound_simps [simp]:
  "book_sound d a b (with_order_counts q) = book_sound d a b q"
  by (simp add: book_sound_def with_order_counts_def quote_payload_ok_def)

lemma book_sound_ext:
  "book_sound d a b q \<Longrightarrow> k \<le> 2 \<Longrightarrow> book_sound d a b (with_level_ext k q)"
  "book_sound d a b q \<Longrightarrow> k' \<le> 3 \<Longrightarrow> book_sound d a b (with_quote_ext k' v q)"
  by (simp_all add: book_sound_def with_level_ext_def with_quote_ext_def quote_payload_ok_def)

lemma quote_ext_kind_with [simp]:
  "q_quote_ext_kind (with_order_counts q) = q_quote_ext_kind q"
  "q_quote_ext_kind (with_level_ext k q) = q_quote_ext_kind q"
  by (simp_all add: with_order_counts_def with_level_ext_def)

lemma shape_sound_order_counts: "shape_sound (s, q) \<Longrightarrow> shape_sound (s, with_order_counts q)"
  by (simp add: shape_sound_def)

lemma shape_sound_level_ext: "shape_sound (s, q) \<Longrightarrow> k \<le> 2 \<Longrightarrow> shape_sound (s, with_level_ext k q)"
  unfolding shape_sound_def prod.case quote_ext_kind_with using book_sound_ext(1) by blast

lemma book_sound_expected: "book_sound d a b q \<Longrightarrow> book_sound d a b (with_expected e q)"
  by (auto simp: with_expected_def kind_consts intro: book_sound_ext split: option.splits)

lemma lift_set_level:
  "i < 10 \<Longrightarrow> lift_panic (set_ask i l q) = Inr (q\<lparr> q_ask := (q_ask q)[i := l] \<rparr>)"
  "i < 10 \<Longrightarrow> lift_panic (set_bid i l q) = Inr (q\<lparr> q_bid := (q_bid q)[i := l] \<rparr>)"
  by (simp_all add: lift_panic_def set_ask_def set_bid_def wire_consts)

lemmas level_offsets = LEVEL_LEN_def LVL_ASK_PRICE_def LVL_BID_PRICE_def LVL_ASK_QTY_def LVL_BID_QTY_def
  LVL_ASK_COUNT_def LVL_BID_COUNT_def

lemma derivative_level_returns:
  assumes "krx_reader reader" "first + (i + 1) * 46 \<le> length payload" "i < 10" "book_inv i acc"
  shows "returns (derivative_level payload first reader i acc) (book_inv (Suc i))"
proof -
  obtain a q where acc: "acc = (a, q)"
    by (cases acc)
  show ?thesis
    unfolding derivative_level_def acc prod.case Let_def
    using assms by (intro reader_steps)
      (simp_all add: level_offsets lift_set_level acc level_with_count_def book_level)
qed

lemma derivative_fill_book_returns:
  assumes "krx_reader reader" "first + depth * 46 \<le> length payload" "depth \<le> 10"
  shows "returns (derivative_fill_book payload first depth reader quote_default) shape_sound"
proof -
  have "returns (for_levels (derivative_level payload first reader) [0..<depth] (accum_default, quote_default))
      (book_inv depth)"
    using assms quote_default_book by (intro for_levels_returns derivative_level_returns) auto
  then show ?thesis
    unfolding derivative_fill_book_def
    by (rule returns_and_then) (clarsimp, rule shape_sound_order_counts, erule book_finish)
qed

lemma derivative_book_step:
  assumes "krx_reader reader" "first + depth * 46 \<le> length payload" "depth \<le> 10"
    and "\<And>shp q. shape_sound (shp, q) \<Longrightarrow> returns (f shp q) Q"
  shows "returns (and_then (derivative_fill_book payload first depth reader quote_default) (\<lambda>(shp, q). f shp q)) Q"
  using derivative_fill_book_returns [OF assms(1,2,3)] assms(4) by (auto intro: returns_and_then)

lemma derivative_trade_step:
  assumes "krx_reader reader" "172 \<le> length payload" and "\<And>t. t_trade_kind t \<le> 3 \<Longrightarrow> returns (f t) Q"
  shows "returns (and_then (derivative_fill_trade payload reader) f) Q"
proof -
  have "returns (derivative_fill_trade payload reader) (\<lambda>t. t_trade_kind t \<le> 3)"
    unfolding derivative_fill_trade_def Let_def
    using assms(1,2)
    by (intro reader_steps)
      (auto simp: OFF_PRICE_def OFF_QTY_def OFF_CUMULATIVE_QTY_def OFF_DYN_UPPER_def OFF_DYN_LOWER_def
        OFF_AGGRESSOR_def with_kind_def with_dyn_limits_def aggressor_def kind_consts split: option.splits)
  then show ?thesis
    using assms(3) by (rule returns_and_then)
qed

subsection \<open>Headers\<close>

text \<open>What every decoder reads: the code, the instrument and where it stands in the datagram.\<close>

definition header_read :: "nat \<Rightarrow> bytes \<Rightarrow> krx_header \<Rightarrow> bool" where
  "header_read at payload msg \<longleftrightarrow> kh_trcode msg = TrCode (take 5 payload) \<and>
     kh_isin msg = take 12 (drop at payload) \<and> length (kh_isin msg) = 12 \<and>
     length (kh_board msg) = 2 \<and> length (kh_session msg) = 2"

lemma krx_header_a_returns:
  "47 \<le> length payload \<Longrightarrow> returns (krx_header_a payload) (header_read 17 payload)"
  unfolding krx_header_a_def
  by (intro returns_if reader_steps)
    (simp_all add: HEADER_LEN_def OFF_SEQUENCE_def OFF_ISIN_def OFF_INDEX_def OFF_TIME_def OFF_BOARD_def
      OFF_SESSION_def header_read_def)

lemma limit_header_returns:
  "33 \<le> time_off \<Longrightarrow> time_off + len \<le> length payload \<Longrightarrow>
   returns (limit_header payload time_off len) (header_read 15 payload)"
  unfolding limit_header_def
  by (intro returns_if reader_steps)
    (simp_all add: LIM_SEQUENCE_def LIM_ISIN_def LIM_INDEX_def LIM_BOARD_def header_read_def)

text \<open>
  What every decoder promises of the record it returns: it is laid out, it passes the validation of
  the wire, it carries the venue, the reception time and the instrument the datagram names, its
  sequence is left for the ring, and the book it may hold is told truly by its header.
\<close>

primrec book_of :: "payload \<Rightarrow> quote_payload option" where
  "book_of (PQuote q) = Some q"
| "book_of (PTrade t) = None"
| "book_of (PTradeQuote tq) = Some (tq_quote tq)"
| "book_of (POpenInterest oi) = None"
| "book_of (PInvestorStats i) = None"
| "book_of (PSnapshotDelta d) = None"
| "book_of (PPriceLimit l) = None"
| "book_of (PMarketSchedule ms) = None"
| "book_of (PDynamicPriceLimit d) = None"
| "book_of (PHeartbeat h) = None"

definition decoded :: "nat \<Rightarrow> bytes \<Rightarrow> u64 \<Rightarrow> wire_record \<Rightarrow> bool" where
  "decoded at payload recv_ns r \<longleftrightarrow>
     record_ok r \<and> record_validate r = Inr () \<and> header_venue (r_header r) = Inr Krx \<and>
     h_recv_ns (r_header r) = recv_ns \<and> h_producer_seq (r_header r) = 0 \<and>
     h_symbol (r_header r) = wire_symbol (take 12 (drop at payload)) \<and> \<not> is_stale (r_header r) \<and>
     (\<forall>p q. record_view r = Inr p \<longrightarrow> book_of p = Some q \<longrightarrow>
        book_sound (h_depth (r_header r)) (has_flags (r_header r) ASK_EMPTY)
          (has_flags (r_header r) BID_EMPTY) q)"

lemma length_wire_symbol [simp]: "length i = 12 \<Longrightarrow> length (wire_symbol i) = 24"
  by (simp add: wire_symbol_def krx_consts SYMBOL_LEN_def)

lemma scale_code_le: "scale_decimals s \<le> 8"
  by (cases s) simp_all

text \<open>The header of a decoded record, before and after the book's depth and flags.\<close>

lemma krx_record_header_facts:
  assumes "length (kh_isin msg) = 12" and "h = krx_record_header k msg recv_ns sc"
  shows "header_ok h" "h_kind h = kind_as_u8 k" "h_recv_ns h = recv_ns" "h_producer_seq h = 0"
    "h_symbol h = wire_symbol (kh_isin msg)" "h_price_scale h \<le> 8" "h_qty_scale h \<le> 8" "h_depth h = 0"
    "h_flags h = 0 \<or> h_flags h = VENUE_TIME_VALID" "h_venue h = venue_as_u8 Krx"
  using assms scale_code_le
  by (auto simp: krx_record_header_def fill_record_header_def header_new_def HEADER_ZEROED_def
    set_venue_time_def set_scales_def header_ok_def Let_def split: option.splits)

lemma book_flags:
  assumes "f = 0 \<or> f = VENUE_TIME_VALID"
    and "g = f OR ((if a then ASK_EMPTY else 0) OR (if b then BID_EMPTY else 0))"
  shows "g AND ASK_EMPTY = ASK_EMPTY \<longleftrightarrow> a" "g AND BID_EMPTY = BID_EMPTY \<longleftrightarrow> b" "g AND STALE \<noteq> STALE"
  using assms by (auto simp: kind_consts)

lemma decoded_book:
  assumes "header_read at payload msg" "payload_ok p" "payload_valid p" "unat d \<le> 10"
    and "fl = (if a then ASK_EMPTY else 0) OR (if b then BID_EMPTY else 0)"
    and "\<And>q. book_of p = Some q \<Longrightarrow> book_sound d a b q"
  shows "decoded at payload recv_ns
    (install p (with_header (set_flags fl (set_depth d (krx_record_header k msg recv_ns sc)))))"
proof -
  define h0 where "h0 = krx_record_header k msg recv_ns sc"
  let ?h = "set_flags fl (set_depth d h0)"
  have isin: "length (kh_isin msg) = 12" "kh_isin msg = take 12 (drop at payload)"
    using assms(1) unfolding header_read_def by blast+
  note h0 = krx_record_header_facts [OF isin(1) h0_def]
  have "\<exists>v. h_venue ?h = venue_as_u8 v" "\<exists>k. h_kind ?h = kind_as_u8 k"
    using h0 by (auto simp: set_flags_def set_depth_def intro: exI [of _ Krx])
  then have "header_ok ?h" "header_validate ?h = Inr ()"
    using h0 assms(4) by (auto simp: header_ok_def set_flags_def set_depth_def header_validate_iff word_le_nat_alt)
  then have "record_ok (install p (with_header ?h))" "record_validate (install p (with_header ?h)) = Inr ()"
    using assms(2,3) by (simp_all add: record_ok_install with_header_ok install_valid)
  moreover have "record_view (install p (with_header ?h)) = Inr p"
    using assms(2) by (rule record_view_install)
  moreover have "venue_from_u8 0 = Some Krx"
    by (simp add: venue_from_u8_def)
  ultimately show ?thesis
    using h0 assms(6) book_flags [OF h0(9), of _ a b] unfolding h0_def [symmetric] decoded_def
    by (simp add: r_header_install with_header_def set_flags_def set_depth_def assms(5) header_venue_def
      is_stale_def has_flags_def isin)
qed

lemma decoded_plain:
  assumes "header_read at payload msg" "payload_ok p" "payload_valid p" "book_of p = None"
  shows "decoded at payload recv_ns (install p (with_header (krx_record_header k msg recv_ns sc)))"
proof -
  have "h_depth h = 0 \<Longrightarrow> set_flags 0 (set_depth 0 h) = h" for h
    by (cases h) (simp add: set_flags_def set_depth_def)
  moreover have "length (kh_isin msg) = 12"
    using assms(1) unfolding header_read_def by blast
  ultimately have "set_flags 0 (set_depth 0 (krx_record_header k msg recv_ns sc)) = krx_record_header k msg recv_ns sc"
    using krx_record_header_facts(8) [OF _ refl] by blast
  then show ?thesis
    using decoded_book [of at payload msg p 0 0 False False recv_ns k sc] assms by simp
qed

lemma new_install:
  "new_quote h q = install (PQuote q) (with_header h)"
  "new_trade h t = install (PTrade t) (with_header h)"
  "new_trade_quote h tq = install (PTradeQuote tq) (with_header h)"
  "new_price_limit h l = install (PPriceLimit l) (with_header h)"
  "new_dynamic_price_limit h dl = install (PDynamicPriceLimit dl) (with_header h)"
  "new_market_schedule h ms = install (PMarketSchedule ms) (with_header h)"
  by (simp_all add: new_quote_def new_trade_def new_trade_quote_def new_price_limit_def
    new_dynamic_price_limit_def new_market_schedule_def typed_new_def set_defs)

lemma decoded_quote:
  assumes "header_read at payload msg" "book_sound (bs_depth shp) a b q"
    and "bs_flags shp = (if a then ASK_EMPTY else 0) OR (if b then BID_EMPTY else 0)"
  shows "decoded at payload recv_ns
    (new_quote (set_flags (bs_flags shp) (set_depth (bs_depth shp) (krx_record_header k msg recv_ns sc))) q)"
  unfolding new_install using assms
  by (intro decoded_book) (auto simp: book_sound_def)

lemma decoded_trade_quote:
  assumes "header_read at payload msg" "shape_sound (shp, q)" "t_trade_kind t \<le> 3"
  shows "decoded at payload recv_ns
    (new_trade_quote (set_flags (bs_flags shp) (set_depth (bs_depth shp) (krx_record_header k msg recv_ns sc)))
      \<lparr> tq_trade = t, tq_quote = q \<rparr>)"
proof -
  obtain a b where "book_sound (bs_depth shp) a b q"
    "bs_flags shp = (if a then ASK_EMPTY else 0) OR (if b then BID_EMPTY else 0)"
    using assms(2) by (auto simp: shape_sound_def)
  then show ?thesis
    unfolding new_install using assms(1,3)
    by (intro decoded_book) (auto simp: book_sound_def trade_quote_payload_ok_def)
qed

lemma decoded_trade:
  "header_read at payload msg \<Longrightarrow> t_trade_kind t \<le> 3 \<Longrightarrow>
   decoded at payload recv_ns (new_trade (krx_record_header k msg recv_ns sc) t)"
  unfolding new_install by (intro decoded_plain) auto

lemma decoded_limits:
  "header_read at payload msg \<Longrightarrow> price_limit_payload_ok l \<Longrightarrow>
   decoded at payload recv_ns (new_price_limit (krx_record_header k msg recv_ns sc) l)"
  "header_read at payload msg \<Longrightarrow> dynamic_price_limit_payload_ok dl \<Longrightarrow> dp_action dl \<le> 2 \<Longrightarrow>
   decoded at payload recv_ns (new_dynamic_price_limit (krx_record_header k msg recv_ns sc) dl)"
  unfolding new_install by (intro decoded_plain; simp)+

subsection \<open>The contract of a decoder\<close>

text \<open>
  Every decoder checks the frame first, against the one length of its interface, and from a framed
  datagram it returns what \<open>decoded\<close> says.
\<close>

locale krx_decoder =
  fixes dec :: "bytes \<Rightarrow> u64 \<Rightarrow> wire_record krx" and len at :: nat
  assumes frame: "krx_validate payload len = Inl e \<Longrightarrow> dec payload recv_ns = Inl e"
    and body: "length payload = len \<Longrightarrow> krx_validate payload len = Inr () \<Longrightarrow>
      returns (dec payload recv_ns) (decoded at payload recv_ns)"
    and nonempty: "0 < len"
begin

lemma wrong_length:
  "length payload \<noteq> len \<Longrightarrow> dec payload recv_ns = Inl (Err (KrxLength len (length payload)))"
  by (rule frame) (simp add: krx_validate_def)

lemma total: "returns (dec payload recv_ns)
    (\<lambda>r. decoded at payload recv_ns r \<and> length payload = len \<and> last payload = END_KEYWORD)"
proof (cases "krx_validate payload len")
  case (Inl e)
  then show ?thesis
    using frame [OF Inl] by (auto simp: krx_validate_def nonempty Let_def split: if_splits)
next
  case (Inr u)
  then have "length payload = len" "last payload = END_KEYWORD"
    using nonempty by (auto simp: krx_validate_def Let_def last_conv_nth split: if_splits)
  then show ?thesis
    using Inr body [of payload recv_ns] by (auto simp: returns_def)
qed

end

subsection \<open>The derivative decoders keep it\<close>

lemmas quote_lengths = derivative_quote_len_def derivative_trade_quote_len_def HEADER_LEN_def LEVEL_LEN_def
  QUOTE_TAIL_LEN_def QUOTE_TAIL_EXPECTED_PRICE_def TRADE_BLOCK_END_def TRADE_QUOTE_TAIL_LEN_def

lemma derivative_quote_returns:
  assumes "length payload = derivative_quote_len depth" "depth \<le> 10"
    and "krx_validate payload (derivative_quote_len depth) = Inr ()"
  shows "returns (derivative_quote_decode depth payload recv_ns) (decoded 17 payload recv_ns)"
  unfolding derivative_quote_decode_def assms(3) and_then_simps Let_def
  using assms(1,2)
  by (intro returns_and_then [OF krx_header_a_returns] derivative_book_step price_at_step)
    (auto simp: quote_lengths shape_sound_def intro!: decoded_quote book_sound_expected)

interpretation five_deep: krx_decoder "derivative_quote_decode 5" "derivative_quote_len 5" 17
  by unfold_locales (simp add: derivative_quote_decode_def, simp add: derivative_quote_returns, simp add: quote_lengths)

interpretation ten_deep: krx_decoder "derivative_quote_decode 10" "derivative_quote_len 10" 17
  by unfold_locales (simp add: derivative_quote_decode_def, simp add: derivative_quote_returns, simp add: quote_lengths)

interpretation derivative_trade: krx_decoder derivative_trade_decode DERIVATIVE_TRADE_LEN 17
proof
  show "returns (derivative_trade_decode payload recv_ns) (decoded 17 payload recv_ns)"
    if "length payload = DERIVATIVE_TRADE_LEN" "krx_validate payload DERIVATIVE_TRADE_LEN = Inr ()" for payload recv_ns
    using that unfolding derivative_trade_decode_def that(2) and_then_simps Let_def
    by (intro returns_and_then [OF krx_header_a_returns] derivative_trade_step)
      (simp_all add: DERIVATIVE_TRADE_LEN_def TRADE_BLOCK_END_def decoded_trade)
qed (simp_all add: derivative_trade_decode_def DERIVATIVE_TRADE_LEN_def)

lemma derivative_trade_quote_returns:
  assumes "length payload = derivative_trade_quote_len depth" "depth \<le> 10"
    and "krx_validate payload (derivative_trade_quote_len depth) = Inr ()"
  shows "returns (derivative_trade_quote_decode depth payload recv_ns) (decoded 17 payload recv_ns)"
  unfolding derivative_trade_quote_decode_def assms(3) and_then_simps Let_def
  using assms(1,2)
  by (intro returns_and_then [OF krx_header_a_returns] derivative_book_step derivative_trade_step)
    (auto simp: quote_lengths intro: decoded_trade_quote)

interpretation five_deep_trade: krx_decoder "derivative_trade_quote_decode 5" "derivative_trade_quote_len 5" 17
  by unfold_locales
    (simp add: derivative_trade_quote_decode_def, simp add: derivative_trade_quote_returns, simp add: quote_lengths)

interpretation ten_deep_trade: krx_decoder "derivative_trade_quote_decode 10" "derivative_trade_quote_len 10" 17
  by unfold_locales
    (simp add: derivative_trade_quote_decode_def, simp add: derivative_trade_quote_returns, simp add: quote_lengths)

lemma length_product_group [simp]: "length (product_group c) = 3"
  by (simp add: product_group_def)

interpretation price_limit: krx_decoder price_limit_decode V1_MESSAGE_LEN 15
proof
  show "returns (price_limit_decode payload recv_ns) (decoded 15 payload recv_ns)"
    if "length payload = V1_MESSAGE_LEN" "krx_validate payload V1_MESSAGE_LEN = Inr ()" for payload recv_ns
    using that unfolding price_limit_decode_def that(2) and_then_simps Let_def
    by (intro returns_and_then [OF limit_header_returns] reader_steps)
      (auto simp: V1_MESSAGE_LEN_def V1_OFF_TIME_def V1_TIME_LEN_def V1_OFF_UPPER_PRICE_def V1_OFF_LOWER_PRICE_def
        V1_OFF_UPPER_STAGE_def V1_OFF_LOWER_STAGE_def header_read_def price_limit_payload_ok_def
        intro!: decoded_limits)
qed (simp_all add: price_limit_decode_def V1_MESSAGE_LEN_def)

interpretation dynamic_limit: krx_decoder dynamic_limit_decode Q2_MESSAGE_LEN 15
proof
  show "returns (dynamic_limit_decode payload recv_ns) (decoded 15 payload recv_ns)"
    if "length payload = Q2_MESSAGE_LEN" "krx_validate payload Q2_MESSAGE_LEN = Inr ()" for payload recv_ns
    using that unfolding dynamic_limit_decode_def that(2) and_then_simps Let_def
    by (intro returns_and_then [OF limit_header_returns] reader_steps)
      (auto simp: Q2_MESSAGE_LEN_def Q2_OFF_TIME_def Q2_TIME_LEN_def Q2_OFF_UPPER_PRICE_def Q2_OFF_LOWER_PRICE_def
        Q2_OFF_ACTION_def header_read_def dynamic_price_limit_payload_ok_def kind_consts
        intro!: decoded_limits)
qed (simp_all add: dynamic_limit_decode_def Q2_MESSAGE_LEN_def)

end
