(* ===== verification/Krx_Markets.thy ===== *)
theory Krx_Markets
  imports Krx_Decode
begin

text \<open>
  \<open>crates/jeed-krx/src/decode\<close>: the bond decoders (\<open>bond\<close>), the securities book and trade shared by
  stocks and the products with a liquidity provider (\<open>securities\<close>, \<open>stock\<close>, \<open>etf\<close>), and the market
  schedule (\<open>schedule.rs\<close>). Each decoder is shown to satisfy the contract \<open>krx_decoder\<close>.
\<close>

subsection \<open>Bonds (bond/mod.rs)\<close>

definition BOND_HEADER_LEN :: nat where "BOND_HEADER_LEN = 41"
definition BOND_SEQUENCE :: nat where "BOND_SEQUENCE = 5"
definition BOND_BOARD :: nat where "BOND_BOARD = 13"
definition BOND_SESSION :: nat where "BOND_SESSION = 15"
definition BOND_ISIN :: nat where "BOND_ISIN = 17"
definition BOND_TIME :: nat where "BOND_TIME = 29"
definition BOND_DEPTH :: nat where "BOND_DEPTH = 5"
definition BOND_PRICE_LEN :: nat where "BOND_PRICE_LEN = 11"
definition BOND_QTY_LEN :: nat where "BOND_QTY_LEN = 15"
definition BOND_YIELD_LEN :: nat where "BOND_YIELD_LEN = 13"
definition BOND_LEVEL_LEN :: nat where "BOND_LEVEL_LEN = 78"
definition BLV_ASK_PRICE :: nat where "BLV_ASK_PRICE = 0"
definition BLV_BID_PRICE :: nat where "BLV_BID_PRICE = 11"
definition BLV_ASK_QTY :: nat where "BLV_ASK_QTY = 22"
definition BLV_BID_QTY :: nat where "BLV_BID_QTY = 37"
definition BLV_ASK_YIELD :: nat where "BLV_ASK_YIELD = 52"
definition BLV_BID_YIELD :: nat where "BLV_BID_YIELD = 65"
definition BOOK_TAIL_LEN :: nat where "BOOK_TAIL_LEN = 31"

definition bond_header :: "bytes \<Rightarrow> krx_header krx" where
  "bond_header payload =
     (if length payload < BOND_HEADER_LEN then Inl (Err (TooShort BOND_HEADER_LEN (length payload)))
      else
        and_then (trcode_from_message payload) (\<lambda>code.
        and_then (uint_at payload BOND_SEQUENCE 8) (\<lambda>sequence.
        and_then (byte_at payload BOND_BOARD) (\<lambda>b0.
        and_then (byte_at payload (BOND_BOARD + 1)) (\<lambda>b1.
        and_then (byte_at payload BOND_SESSION) (\<lambda>s0.
        and_then (byte_at payload (BOND_SESSION + 1)) (\<lambda>s1.
        and_then (and_then (slice payload BOND_ISIN ISIN_LEN) read_isin) (\<lambda>isin.
        and_then (time_at payload BOND_TIME 12) (\<lambda>time.
          Inr \<lparr> kh_trcode = code, kh_sequence = sequence, kh_board = [b0, b1], kh_session = [s0, s1],
                kh_isin = isin, kh_index = None, kh_time = time \<rparr>)))))))))"

text \<open>\<open>i32::try_from\<close>.\<close>

definition narrow_yield :: "i64 \<Rightarrow> nat \<Rightarrow> i32 krx" where
  "narrow_yield v at =
     (if - (2 ^ 31) \<le> sint v \<and> sint v < 2 ^ 31 then Inr (ucast v) else Inl (Err (Field at Overflow)))"

definition bond_level ::
    "bytes \<Rightarrow> nat \<Rightarrow> nat \<Rightarrow> book_accum \<times> quote_payload \<Rightarrow> (book_accum \<times> quote_payload) krx" where
  "bond_level payload first_level level acc =
     (case acc of (accum, out) \<Rightarrow>
        let at = first_level + level * BOND_LEVEL_LEN
        in and_then (price_at bond_price payload (at + BLV_ASK_PRICE) BOND_PRICE_LEN) (\<lambda>ask_price.
           and_then (price_at bond_price payload (at + BLV_BID_PRICE) BOND_PRICE_LEN) (\<lambda>bid_price.
           and_then (uint_at payload (at + BLV_ASK_QTY) BOND_QTY_LEN) (\<lambda>ask_qty.
           and_then (uint_at payload (at + BLV_BID_QTY) BOND_QTY_LEN) (\<lambda>bid_qty.
           and_then (price_at krx_bond_yield payload (at + BLV_ASK_YIELD) BOND_YIELD_LEN) (\<lambda>ask_yield.
           and_then (price_at krx_bond_yield payload (at + BLV_BID_YIELD) BOND_YIELD_LEN) (\<lambda>bid_yield.
             let ask_qty = unwrap_or 0 ask_qty; bid_qty = unwrap_or 0 bid_qty;
                 accum = accum_observe level ask_qty bid_qty accum;
                 ask = level_new (unwrap_or 0 ask_price) ask_qty;
                 bid = level_new (unwrap_or 0 bid_price) bid_qty
             in and_then (narrow_yield (unwrap_or 0 ask_yield) (at + BLV_ASK_YIELD)) (\<lambda>ay.
                and_then (narrow_yield (unwrap_or 0 bid_yield) (at + BLV_BID_YIELD)) (\<lambda>by.
                and_then (lift_panic (set_ask level (ask\<lparr> l_ext := ay \<rparr>) out)) (\<lambda>out.
                and_then (lift_panic (set_bid level (bid\<lparr> l_ext := by \<rparr>) out)) (\<lambda>out.
                  Inr (accum, out))))))))))))"

definition bond_fill_book :: "bytes \<Rightarrow> nat \<Rightarrow> quote_payload \<Rightarrow> (book_shape \<times> quote_payload) krx" where
  "bond_fill_book payload first_level out =
     and_then (for_levels (bond_level payload first_level) [0..<BOND_DEPTH] (accum_default, out))
       (\<lambda>(accum, out). Inr (accum_finish accum, with_level_ext BOND_YIELD out))"

definition BOND_OFF_PRICE :: nat where "BOND_OFF_PRICE = 41"
definition BOND_OFF_QTY :: nat where "BOND_OFF_QTY = 52"
definition BOND_OFF_TRADE_YIELD :: nat where "BOND_OFF_TRADE_YIELD = 92"
definition BOND_OFF_CUMULATIVE_QTY :: nat where "BOND_OFF_CUMULATIVE_QTY = 177"
definition BOND_TRADE_BLOCK_END :: nat where "BOND_TRADE_BLOCK_END = 222"

definition bond_fill_trade :: "bytes \<Rightarrow> trade_payload krx" where
  "bond_fill_trade payload =
     and_then (price_at bond_price payload BOND_OFF_PRICE BOND_PRICE_LEN) (\<lambda>price.
     and_then (uint_at payload BOND_OFF_QTY 10) (\<lambda>qty.
     and_then (uint_at payload BOND_OFF_CUMULATIVE_QTY BOND_QTY_LEN) (\<lambda>cumulative.
     and_then (price_at krx_bond_yield payload BOND_OFF_TRADE_YIELD BOND_YIELD_LEN) (\<lambda>trade_yield.
       let trade = trade_new (unwrap_or 0 price) (unwrap_or 0 qty);
           trade = (case cumulative of Some c \<Rightarrow> with_cumulative_qty c trade | None \<Rightarrow> trade)
       in and_then (case trade_yield of
                      Some y \<Rightarrow> map_ok (\<lambda>n. with_yield n trade) (narrow_yield y BOND_OFF_TRADE_YIELD)
                    | None \<Rightarrow> Inr trade) (\<lambda>trade.
            Inr (with_kind TRADE_KIND_NONE trade))))))"

definition is_bond_group :: "trcode \<Rightarrow> bool" where
  "is_bond_group c \<longleftrightarrow> product_group c = [0x30, 0x31, 0x42] \<or> product_group c = [0x30, 0x31, 0x4B]"

text \<open>\<open>B6\<close> (bond/quote.rs), \<open>A3\<close> (bond/trade.rs) and \<open>G7\<close> (bond/trade\_quote.rs).\<close>

definition BOND_QUOTE_LEN :: nat where
  "BOND_QUOTE_LEN = BOND_HEADER_LEN + BOND_DEPTH * BOND_LEVEL_LEN + BOOK_TAIL_LEN"

definition bond_quote_decode :: "bytes \<Rightarrow> u64 \<Rightarrow> wire_record krx" where
  "bond_quote_decode payload recv_ns =
     and_then (krx_validate payload BOND_QUOTE_LEN) (\<lambda>_.
     and_then (bond_header payload) (\<lambda>msg.
     and_then (bond_fill_book payload BOND_HEADER_LEN quote_default) (\<lambda>(shape, quote).
       let h = krx_record_header Quote msg recv_ns (scale_or_default bond_price);
           h = set_flags (bs_flags shape) (set_depth (bs_depth shape) h)
       in Inr (new_quote h quote))))"

definition bond_quote_handles :: "trcode \<Rightarrow> bool" where
  "bond_quote_handles c \<longleftrightarrow> data_class c = [0x42, 0x36] \<and> is_bond_group c"

definition BOND_TRADE_LEN :: nat where "BOND_TRADE_LEN = BOND_TRADE_BLOCK_END + 1"

definition bond_trade_decode :: "bytes \<Rightarrow> u64 \<Rightarrow> wire_record krx" where
  "bond_trade_decode payload recv_ns =
     and_then (krx_validate payload BOND_TRADE_LEN) (\<lambda>_.
     and_then (bond_header payload) (\<lambda>msg.
     and_then (bond_fill_trade payload) (\<lambda>trade.
       Inr (new_trade (krx_record_header Trade msg recv_ns (scale_or_default bond_price)) trade))))"

definition bond_trade_handles :: "trcode \<Rightarrow> bool" where
  "bond_trade_handles c \<longleftrightarrow> data_class c = [0x41, 0x33] \<and> is_bond_group c"

definition BOND_TRADE_QUOTE_LEN :: nat where
  "BOND_TRADE_QUOTE_LEN = BOND_TRADE_BLOCK_END + BOND_DEPTH * BOND_LEVEL_LEN + BOOK_TAIL_LEN"

definition bond_trade_quote_decode :: "bytes \<Rightarrow> u64 \<Rightarrow> wire_record krx" where
  "bond_trade_quote_decode payload recv_ns =
     and_then (krx_validate payload BOND_TRADE_QUOTE_LEN) (\<lambda>_.
     and_then (bond_header payload) (\<lambda>msg.
     and_then (bond_fill_book payload BOND_TRADE_BLOCK_END quote_default) (\<lambda>(shape, quote).
     and_then (bond_fill_trade payload) (\<lambda>trade.
       let h = krx_record_header TradeQuote msg recv_ns (scale_or_default bond_price);
           h = set_flags (bs_flags shape) (set_depth (bs_depth shape) h)
       in Inr (new_trade_quote h \<lparr> tq_trade = trade, tq_quote = quote \<rparr>)))))"

definition bond_trade_quote_handles :: "trcode \<Rightarrow> bool" where
  "bond_trade_quote_handles c \<longleftrightarrow> data_class c = [0x47, 0x37] \<and> is_bond_group c"

subsection \<open>Securities (securities/mod.rs)\<close>

definition SEC_DEPTH :: nat where "SEC_DEPTH = 10"
definition SEC_PRICE_LEN :: nat where "SEC_PRICE_LEN = 11"
definition SEC_QTY_LEN :: nat where "SEC_QTY_LEN = 12"
definition SLV_ASK_PRICE :: nat where "SLV_ASK_PRICE = 0"
definition SLV_BID_PRICE :: nat where "SLV_BID_PRICE = 11"
definition SLV_ASK_QTY :: nat where "SLV_ASK_QTY = 22"
definition SLV_BID_QTY :: nat where "SLV_BID_QTY = 34"
definition SLV_ASK_LP_QTY :: nat where "SLV_ASK_LP_QTY = 46"
definition SLV_BID_LP_QTY :: nat where "SLV_BID_LP_QTY = 58"

record level_shape =
  ls_stride :: nat
  ls_lp :: bool

definition PLAIN :: level_shape where "PLAIN = \<lparr> ls_stride = 46, ls_lp = False \<rparr>"
definition WITH_LP :: level_shape where "WITH_LP = \<lparr> ls_stride = 70, ls_lp = True \<rparr>"
definition SEC_TAIL_LEN :: nat where "SEC_TAIL_LEN = 83"
definition TAIL_EXPECTED_PRICE :: nat where "TAIL_EXPECTED_PRICE = 24"

definition securities_level ::
    "bytes \<Rightarrow> nat \<Rightarrow> level_shape \<Rightarrow> nat \<Rightarrow> book_accum \<times> quote_payload \<Rightarrow>
     (book_accum \<times> quote_payload) krx" where
  "securities_level payload first_level shp level acc =
     (case acc of (accum, out) \<Rightarrow>
        let at = first_level + level * ls_stride shp
        in and_then (price_at securities_price payload (at + SLV_ASK_PRICE) SEC_PRICE_LEN) (\<lambda>ask_price.
           and_then (price_at securities_price payload (at + SLV_BID_PRICE) SEC_PRICE_LEN) (\<lambda>bid_price.
           and_then (uint_at payload (at + SLV_ASK_QTY) SEC_QTY_LEN) (\<lambda>ask_qty.
           and_then (uint_at payload (at + SLV_BID_QTY) SEC_QTY_LEN) (\<lambda>bid_qty.
             let ask_qty = unwrap_or 0 ask_qty; bid_qty = unwrap_or 0 bid_qty;
                 accum = accum_observe level ask_qty bid_qty accum;
                 ask = level_new (unwrap_or 0 ask_price) ask_qty;
                 bid = level_new (unwrap_or 0 bid_price) bid_qty
             in and_then
                  (if ls_lp shp
                   then and_then (uint_at payload (at + SLV_ASK_LP_QTY) SEC_QTY_LEN) (\<lambda>ask_lp.
                        and_then (uint_at payload (at + SLV_BID_LP_QTY) SEC_QTY_LEN) (\<lambda>bid_lp.
                          Inr (ask\<lparr> l_ext := ucast (unwrap_or 0 ask_lp) \<rparr>,
                               bid\<lparr> l_ext := ucast (unwrap_or 0 bid_lp) \<rparr>)))
                   else Inr (ask, bid)) (\<lambda>(ask, bid).
                and_then (lift_panic (set_ask level ask out)) (\<lambda>out.
                and_then (lift_panic (set_bid level bid out)) (\<lambda>out.
                  Inr (accum, out)))))))))"

definition securities_fill_book ::
    "bytes \<Rightarrow> nat \<Rightarrow> level_shape \<Rightarrow> quote_payload \<Rightarrow> (book_shape \<times> quote_payload) krx" where
  "securities_fill_book payload first_level shp out =
     and_then (for_levels (securities_level payload first_level shp) [0..<SEC_DEPTH] (accum_default, out))
       (\<lambda>(accum, out).
          Inr (accum_finish accum, if ls_lp shp then with_level_ext LP_QUANTITY out else out))"

definition fill_expected_price :: "bytes \<Rightarrow> nat \<Rightarrow> quote_payload \<Rightarrow> quote_payload krx" where
  "fill_expected_price payload tail out =
     and_then (price_at securities_price payload (tail + TAIL_EXPECTED_PRICE) SEC_PRICE_LEN) (\<lambda>expected.
       Inr (with_expected expected out))"

text \<open>\<open>A3\<close> (securities/trade.rs).\<close>

definition SEC_OFF_PRICE :: nat where "SEC_OFF_PRICE = 59"
definition SEC_OFF_QTY :: nat where "SEC_OFF_QTY = 70"
definition SEC_OFF_CUMULATIVE_QTY :: nat where "SEC_OFF_CUMULATIVE_QTY = 113"
definition SEC_OFF_AGGRESSOR :: nat where "SEC_OFF_AGGRESSOR = 147"
definition SEC_TRADE_LEN :: nat where "SEC_TRADE_LEN = 186"

definition securities_trade_decode :: "bytes \<Rightarrow> u64 \<Rightarrow> wire_record krx" where
  "securities_trade_decode payload recv_ns =
     and_then (krx_validate payload SEC_TRADE_LEN) (\<lambda>_.
     and_then (krx_header_a payload) (\<lambda>msg.
     and_then (price_at securities_price payload SEC_OFF_PRICE SEC_PRICE_LEN) (\<lambda>price.
     and_then (uint_at payload SEC_OFF_QTY 10) (\<lambda>qty.
     and_then (uint_at payload SEC_OFF_CUMULATIVE_QTY SEC_QTY_LEN) (\<lambda>cumulative.
       let trade = trade_new (unwrap_or 0 price) (unwrap_or 0 qty);
           trade = (case cumulative of Some c \<Rightarrow> with_cumulative_qty c trade | None \<Rightarrow> trade)
       in and_then (byte_at payload SEC_OFF_AGGRESSOR) (\<lambda>code.
          let trade = with_kind (aggressor code) trade
          in Inr (new_trade (krx_record_header Trade msg recv_ns (scale_or_default securities_price)) trade)))))))"

definition is_securities_group :: "trcode \<Rightarrow> bool" where
  "is_securities_group c \<longleftrightarrow> product_group c \<in> set
     [[0x30, 0x31, 0x53], [0x30, 0x31, 0x51], [0x30, 0x31, 0x58], [0x30, 0x32, 0x53],
      [0x30, 0x33, 0x53], [0x30, 0x34, 0x53], [0x30, 0x35, 0x53]]"

definition securities_trade_handles :: "trcode \<Rightarrow> bool" where
  "securities_trade_handles c \<longleftrightarrow> data_class c = [0x41, 0x33] \<and> is_securities_group c"

text \<open>\<open>B6\<close> of stocks (stock/quote.rs) and \<open>B7\<close> of the products with a liquidity provider (etf/quote.rs).\<close>

definition is_stock_group :: "trcode \<Rightarrow> bool" where
  "is_stock_group c \<longleftrightarrow>
     product_group c \<in> set [[0x30, 0x31, 0x53], [0x30, 0x31, 0x51], [0x30, 0x31, 0x58]]"

definition is_lp_group :: "trcode \<Rightarrow> bool" where
  "is_lp_group c \<longleftrightarrow> product_group c \<in> set
     [[0x30, 0x32, 0x53], [0x30, 0x33, 0x53], [0x30, 0x34, 0x53], [0x30, 0x35, 0x53]]"

definition STOCK_QUOTE_LEN :: nat where
  "STOCK_QUOTE_LEN = HEADER_LEN + SEC_DEPTH * ls_stride PLAIN + SEC_TAIL_LEN"

definition ETF_QUOTE_LEN :: nat where
  "ETF_QUOTE_LEN = HEADER_LEN + SEC_DEPTH * ls_stride WITH_LP + SEC_TAIL_LEN"

definition stock_quote_decode :: "bytes \<Rightarrow> u64 \<Rightarrow> wire_record krx" where
  "stock_quote_decode payload recv_ns =
     and_then (krx_validate payload STOCK_QUOTE_LEN) (\<lambda>_.
     and_then (krx_header_a payload) (\<lambda>msg.
     and_then (securities_fill_book payload HEADER_LEN PLAIN quote_default) (\<lambda>(shape, quote).
     and_then (fill_expected_price payload (HEADER_LEN + SEC_DEPTH * ls_stride PLAIN) quote) (\<lambda>quote.
       let h = krx_record_header Quote msg recv_ns (scale_or_default securities_price);
           h = set_flags (bs_flags shape) (set_depth (bs_depth shape) h)
       in Inr (new_quote h quote)))))"

definition stock_quote_handles :: "trcode \<Rightarrow> bool" where
  "stock_quote_handles c \<longleftrightarrow> data_class c = [0x42, 0x36] \<and> is_stock_group c"

definition etf_quote_decode :: "bytes \<Rightarrow> u64 \<Rightarrow> wire_record krx" where
  "etf_quote_decode payload recv_ns =
     and_then (krx_validate payload ETF_QUOTE_LEN) (\<lambda>_.
     and_then (krx_header_a payload) (\<lambda>msg.
     and_then (securities_fill_book payload HEADER_LEN WITH_LP quote_default) (\<lambda>(shape, quote).
     and_then (fill_expected_price payload (HEADER_LEN + SEC_DEPTH * ls_stride WITH_LP) quote) (\<lambda>quote.
       let h = krx_record_header Quote msg recv_ns (scale_or_default securities_price);
           h = set_flags (bs_flags shape) (set_depth (bs_depth shape) h)
       in Inr (new_quote h quote)))))"

definition etf_quote_handles :: "trcode \<Rightarrow> bool" where
  "etf_quote_handles c \<longleftrightarrow> data_class c = [0x42, 0x37] \<and> is_lp_group c"

text \<open>The trade decoder under its market names (stock/trade.rs, etf/trade.rs).\<close>

definition stock_trade_handles :: "trcode \<Rightarrow> bool" where
  "stock_trade_handles c \<longleftrightarrow> data_class c = [0x41, 0x33] \<and> is_stock_group c"

definition etf_trade_handles :: "trcode \<Rightarrow> bool" where
  "etf_trade_handles c \<longleftrightarrow> data_class c = [0x41, 0x33] \<and> is_lp_group c"

subsection \<open>The market schedule (schedule.rs)\<close>

definition M4_PRODUCT_GROUP :: nat where "M4_PRODUCT_GROUP = 5"
definition M4_BOARD :: nat where "M4_BOARD = 8"
definition M4_EVENT_ID :: nat where "M4_EVENT_ID = 10"
definition M4_EVENT_TIME :: nat where "M4_EVENT_TIME = 13"
definition M4_EVENT_GROUP :: nat where "M4_EVENT_GROUP = 22"
definition M4_SESSION_ACTION :: nat where "M4_SESSION_ACTION = 27"
definition M4_SESSION_ID :: nat where "M4_SESSION_ID = 29"
definition M4_ISIN :: nat where "M4_ISIN = 31"
definition M4_COMMON_STOCK_ISIN :: nat where "M4_COMMON_STOCK_ISIN = 43"
definition M4_PRODUCT_ID :: nat where "M4_PRODUCT_ID = 55"
definition M4_HALT_REASON :: nat where "M4_HALT_REASON = 66"
definition M4_HALT_TYPE :: nat where "M4_HALT_TYPE = 69"
definition M4_STEP :: nat where "M4_STEP = 70"
definition M4_EXPANSION :: nat where "M4_EXPANSION = 72"
definition M4_EXPECTED_TIME :: nat where "M4_EXPECTED_TIME = 73"
definition M4_MESSAGE_LEN :: nat where "M4_MESSAGE_LEN = 83"

definition schedule_decode :: "bytes \<Rightarrow> u64 \<Rightarrow> wire_record krx" where
  "schedule_decode payload recv_ns =
     and_then (krx_validate payload M4_MESSAGE_LEN) (\<lambda>_.
     and_then (trcode_from_message payload) (\<lambda>code.
     and_then (time_at payload M4_EVENT_TIME 9) (\<lambda>event_time.
     and_then (time_at payload M4_EXPECTED_TIME 9) (\<lambda>expected_time.
     and_then (uint_at payload M4_EVENT_GROUP 5) (\<lambda>event_group.
     and_then (uint_at payload M4_STEP 2) (\<lambda>step.
     and_then (slice payload M4_ISIN 12) (\<lambda>isin.
       let flags = 0;
           flags = (if \<not> is_blank isin then flags OR INSTRUMENT_SCOPED else flags);
           flags = (if expected_time \<noteq> None then flags OR EXPECTED_TIME_VALID else flags)
       in and_then (byte_at payload M4_EXPANSION) (\<lambda>e.
          let expansion = (if e = 0x31 then UP else if e = 0x32 then DOWN else NOT_APPLICABLE)
          in and_then (slice payload M4_PRODUCT_GROUP 3) (\<lambda>product.
             and_then (slice payload M4_BOARD 2) (\<lambda>board.
             and_then (slice payload M4_EVENT_ID 3) (\<lambda>event_id.
             and_then (slice payload M4_SESSION_ACTION 2) (\<lambda>session_action.
             and_then (slice payload M4_SESSION_ID 2) (\<lambda>session_id.
             and_then (slice payload M4_PRODUCT_ID 11) (\<lambda>product_id.
             and_then (slice payload M4_COMMON_STOCK_ISIN 12) (\<lambda>common.
             and_then (slice payload M4_HALT_REASON 3) (\<lambda>halt_reason.
             and_then (byte_at payload M4_HALT_TYPE) (\<lambda>halt_type.
               let schedule = \<lparr> ms_event_time_of_day = unwrap_or 0 event_time,
                     ms_expected_time_of_day = unwrap_or 0 expected_time,
                     ms_board_event_group = ucast (unwrap_or 0 event_group),
                     ms_information_category = product_group code,
                     ms_market_operation_product_id = product, ms_board_id = board,
                     ms_board_event_id = event_id, ms_session_action = session_action,
                     ms_session_id = session_id, ms_product_id = product_id,
                     ms_common_stock_isin = common, ms_halt_reason = halt_reason,
                     ms_halt_type = halt_type, ms_step = ucast (unwrap_or 0 step),
                     ms_expansion_direction = expansion, ms_schedule_flags = flags,
                     ms_pad = replicate 7 0 \<rparr>;
                   h = (header_new MarketSchedule Krx (wire_symbol isin) recv_ns)\<lparr> h_recv_ns := recv_ns \<rparr>
               in Inr (new_market_schedule h schedule))))))))))))))))))"

definition schedule_handles :: "trcode \<Rightarrow> bool" where
  "schedule_handles c \<longleftrightarrow> data_class c = [0x4D, 0x34]"


subsection \<open>The bond decoders keep the contract\<close>

lemmas bond_offsets = BOND_HEADER_LEN_def BOND_SEQUENCE_def BOND_BOARD_def BOND_SESSION_def BOND_ISIN_def
  BOND_TIME_def BOND_DEPTH_def BOND_PRICE_LEN_def BOND_QTY_LEN_def BOND_YIELD_LEN_def BOND_LEVEL_LEN_def
  BLV_ASK_PRICE_def BLV_BID_PRICE_def BLV_ASK_QTY_def BLV_BID_QTY_def BLV_ASK_YIELD_def BLV_BID_YIELD_def
  BOOK_TAIL_LEN_def BOND_OFF_PRICE_def BOND_OFF_QTY_def BOND_OFF_TRADE_YIELD_def BOND_OFF_CUMULATIVE_QTY_def
  BOND_TRADE_BLOCK_END_def BOND_QUOTE_LEN_def BOND_TRADE_LEN_def BOND_TRADE_QUOTE_LEN_def

lemma narrow_yield_step:
  "(\<And>y. returns (f y) Q) \<Longrightarrow> returns (and_then (narrow_yield v at) f) Q"
  by (simp add: narrow_yield_def)

lemma bond_header_returns:
  "41 \<le> length payload \<Longrightarrow> returns (bond_header payload) (header_read 17 payload)"
  unfolding bond_header_def
  by (intro returns_if reader_steps) (simp_all add: bond_offsets header_read_def)

lemma bond_level_returns:
  assumes "first + (i + 1) * 78 \<le> length payload" "i < 10" "book_inv i acc"
  shows "returns (bond_level payload first i acc) (book_inv (Suc i))"
proof -
  obtain a q where acc: "acc = (a, q)"
    by (cases acc)
  show ?thesis
    unfolding bond_level_def acc prod.case Let_def
    using assms by (intro reader_steps narrow_yield_step)
      (simp_all add: bond_offsets lift_set_level acc level_new_def book_level)
qed

lemma bond_book_step:
  assumes "first + 390 \<le> length payload" and "\<And>shp q. shape_sound (shp, q) \<Longrightarrow> returns (f shp q) Q"
  shows "returns (and_then (bond_fill_book payload first quote_default) (\<lambda>(shp, q). f shp q)) Q"
proof -
  have "returns (for_levels (bond_level payload first) [0..<BOND_DEPTH] (accum_default, quote_default))
      (book_inv BOND_DEPTH)"
    using assms(1) quote_default_book by (intro for_levels_returns bond_level_returns) (auto simp: bond_offsets)
  then have "returns (bond_fill_book payload first quote_default) shape_sound"
    unfolding bond_fill_book_def
    by (rule returns_and_then) (clarsimp simp: kind_consts, rule shape_sound_level_ext, erule book_finish, simp)
  then show ?thesis
    using assms(2) by (auto intro: returns_and_then)
qed

lemma bond_trade_step:
  assumes "222 \<le> length payload" and "\<And>t. t_trade_kind t \<le> 3 \<Longrightarrow> returns (f t) Q"
  shows "returns (and_then (bond_fill_trade payload) f) Q"
proof -
  have "returns (case y of Some y \<Rightarrow> map_ok (\<lambda>n. with_yield n t) (narrow_yield y at) | None \<Rightarrow> Inr t) (\<lambda>_. True)" for y t at
    by (auto simp: narrow_yield_def split: option.splits)
  then have "returns (bond_fill_trade payload) (\<lambda>t. t_trade_kind t \<le> 3)"
    unfolding bond_fill_trade_def Let_def
    using assms(1) by (intro reader_steps returns_then) (simp_all add: bond_offsets with_kind_def kind_consts)
  then show ?thesis
    using assms(2) by (rule returns_and_then)
qed

interpretation bond_quote: krx_decoder bond_quote_decode BOND_QUOTE_LEN 17
proof
  show "returns (bond_quote_decode payload recv_ns) (decoded 17 payload recv_ns)"
    if "length payload = BOND_QUOTE_LEN" "krx_validate payload BOND_QUOTE_LEN = Inr ()" for payload recv_ns
    using that(1) unfolding bond_quote_decode_def that(2) and_then_simps Let_def
    by (intro returns_and_then [OF bond_header_returns] bond_book_step)
      (auto simp: bond_offsets shape_sound_def intro!: decoded_quote)
qed (simp_all add: bond_quote_decode_def bond_offsets)

interpretation bond_trade: krx_decoder bond_trade_decode BOND_TRADE_LEN 17
proof
  show "returns (bond_trade_decode payload recv_ns) (decoded 17 payload recv_ns)"
    if "length payload = BOND_TRADE_LEN" "krx_validate payload BOND_TRADE_LEN = Inr ()" for payload recv_ns
    using that(1) unfolding bond_trade_decode_def that(2) and_then_simps Let_def
    by (intro returns_and_then [OF bond_header_returns] bond_trade_step)
      (auto simp: bond_offsets intro!: decoded_trade)
qed (simp_all add: bond_trade_decode_def bond_offsets)

interpretation bond_trade_quote: krx_decoder bond_trade_quote_decode BOND_TRADE_QUOTE_LEN 17
proof
  show "returns (bond_trade_quote_decode payload recv_ns) (decoded 17 payload recv_ns)"
    if "length payload = BOND_TRADE_QUOTE_LEN" "krx_validate payload BOND_TRADE_QUOTE_LEN = Inr ()" for payload recv_ns
    using that(1) unfolding bond_trade_quote_decode_def that(2) and_then_simps Let_def
    by (intro returns_and_then [OF bond_header_returns] bond_book_step bond_trade_step)
      (auto simp: bond_offsets intro!: decoded_trade_quote)
qed (simp_all add: bond_trade_quote_decode_def bond_offsets)

subsection \<open>The securities decoders keep the contract\<close>

lemmas securities_offsets = SEC_DEPTH_def SEC_PRICE_LEN_def SEC_QTY_LEN_def SLV_ASK_PRICE_def SLV_BID_PRICE_def
  SLV_ASK_QTY_def SLV_BID_QTY_def SLV_ASK_LP_QTY_def SLV_BID_LP_QTY_def SEC_TAIL_LEN_def TAIL_EXPECTED_PRICE_def
  SEC_OFF_PRICE_def SEC_OFF_QTY_def SEC_OFF_CUMULATIVE_QTY_def SEC_OFF_AGGRESSOR_def SEC_TRADE_LEN_def
  STOCK_QUOTE_LEN_def ETF_QUOTE_LEN_def PLAIN_def WITH_LP_def HEADER_LEN_def

lemma and_then_assoc: "and_then (and_then r f) g = and_then r (\<lambda>x. and_then (f x) g)"
  by (cases r) simp_all

lemma securities_level_returns:
  assumes "first + (i + 1) * ls_stride shp \<le> length payload" "i < 10" "book_inv i acc"
    and "shp = PLAIN \<or> shp = WITH_LP"
  shows "returns (securities_level payload first shp i acc) (book_inv (Suc i))"
proof -
  obtain a q where acc: "acc = (a, q)"
    by (cases acc)
  have stride: "46 \<le> ls_stride shp" "ls_lp shp \<Longrightarrow> ls_stride shp = 70"
    using assms(4) by (auto simp: securities_offsets)
  have set: "returns (case (ask, bid) of (ask, bid) \<Rightarrow>
        and_then (lift_panic (set_ask i ask q)) (\<lambda>out.
        and_then (lift_panic (set_bid i bid out)) (\<lambda>out. Inr (accum_observe i aq bq a, out)))) (book_inv (Suc i))"
    if "l_qty ask = aq" "l_qty bid = bq" for ask bid aq bq
    using that assms(2,3) by (simp add: lift_set_level acc book_level)
  show ?thesis
    unfolding securities_level_def acc prod.case Let_def
    using assms(1) stride
    by (intro reader_steps)
      (auto simp: securities_offsets level_new_def algebra_simps and_then_assoc
        intro!: uint_at_step set [unfolded prod.case])
qed

lemma securities_book_step:
  assumes "first + 10 * ls_stride shp \<le> length payload" "shp = PLAIN \<or> shp = WITH_LP"
    and "\<And>s q. shape_sound (s, q) \<Longrightarrow> returns (f s q) Q"
  shows "returns (and_then (securities_fill_book payload first shp quote_default) (\<lambda>(s, q). f s q)) Q"
proof -
  have fits: "first + (i + 1) * ls_stride shp \<le> length payload" if "i < 10" for i
  proof -
    have "(i + 1) * ls_stride shp \<le> 10 * ls_stride shp"
      using that by (intro mult_le_mono1) simp
    then show ?thesis
      using assms(1) by linarith
  qed
  have "returns (for_levels (securities_level payload first shp) [0..<SEC_DEPTH] (accum_default, quote_default))
      (book_inv SEC_DEPTH)"
    using assms(2) quote_default_book fits
    by (intro for_levels_returns securities_level_returns) (auto simp: SEC_DEPTH_def)
  then have "returns (securities_fill_book payload first shp quote_default) shape_sound"
    unfolding securities_fill_book_def
    by (rule returns_and_then) (auto simp: kind_consts intro!: shape_sound_level_ext intro: book_finish)
  then show ?thesis
    using assms(3) by (auto intro: returns_and_then)
qed

lemma expected_price_step:
  assumes "tail + 35 \<le> length payload" and "\<And>e. returns (f (with_expected e q)) Q"
  shows "returns (and_then (fill_expected_price payload tail q) f) Q"
proof -
  have "returns (fill_expected_price payload tail q) (\<lambda>q'. \<exists>e. q' = with_expected e q)"
    unfolding fill_expected_price_def using assms(1) by (intro price_at_step) (auto simp: securities_offsets)
  then show ?thesis
    by (rule returns_and_then) (use assms(2) in auto)
qed

interpretation securities_trade: krx_decoder securities_trade_decode SEC_TRADE_LEN 17
proof
  show "returns (securities_trade_decode payload recv_ns) (decoded 17 payload recv_ns)"
    if "length payload = SEC_TRADE_LEN" "krx_validate payload SEC_TRADE_LEN = Inr ()" for payload recv_ns
    using that(1) unfolding securities_trade_decode_def that(2) and_then_simps Let_def
    by (intro returns_and_then [OF krx_header_a_returns] reader_steps)
      (auto simp: securities_offsets with_kind_def aggressor_def kind_consts intro!: decoded_trade)
qed (simp_all add: securities_trade_decode_def securities_offsets)

interpretation stock_quote: krx_decoder stock_quote_decode STOCK_QUOTE_LEN 17
proof
  show "returns (stock_quote_decode payload recv_ns) (decoded 17 payload recv_ns)"
    if "length payload = STOCK_QUOTE_LEN" "krx_validate payload STOCK_QUOTE_LEN = Inr ()" for payload recv_ns
    using that(1) unfolding stock_quote_decode_def that(2) and_then_simps Let_def
    by (intro returns_and_then [OF krx_header_a_returns] securities_book_step expected_price_step)
      (auto simp: securities_offsets shape_sound_def intro!: decoded_quote book_sound_expected)
qed (simp_all add: stock_quote_decode_def securities_offsets)

interpretation etf_quote: krx_decoder etf_quote_decode ETF_QUOTE_LEN 17
proof
  show "returns (etf_quote_decode payload recv_ns) (decoded 17 payload recv_ns)"
    if "length payload = ETF_QUOTE_LEN" "krx_validate payload ETF_QUOTE_LEN = Inr ()" for payload recv_ns
    using that(1) unfolding etf_quote_decode_def that(2) and_then_simps Let_def
    by (intro returns_and_then [OF krx_header_a_returns] securities_book_step expected_price_step)
      (auto simp: securities_offsets shape_sound_def intro!: decoded_quote book_sound_expected)
qed (simp_all add: etf_quote_decode_def securities_offsets)

subsection \<open>The schedule decoder keeps the contract\<close>

lemmas schedule_offsets = M4_PRODUCT_GROUP_def M4_BOARD_def M4_EVENT_ID_def M4_EVENT_TIME_def M4_EVENT_GROUP_def
  M4_SESSION_ACTION_def M4_SESSION_ID_def M4_ISIN_def M4_COMMON_STOCK_ISIN_def M4_PRODUCT_ID_def
  M4_HALT_REASON_def M4_HALT_TYPE_def M4_STEP_def M4_EXPANSION_def M4_EXPECTED_TIME_def M4_MESSAGE_LEN_def

lemma decoded_schedule:
  assumes "length isin = 12" "market_schedule_payload_ok ms" "ms_expansion_direction ms \<le> 2"
    and "isin = take 12 (drop at payload)"
  shows "decoded at payload recv_ns
    (new_market_schedule ((header_new MarketSchedule Krx (wire_symbol isin) recv_ns)\<lparr> h_recv_ns := recv_ns \<rparr>) ms)"
proof -
  let ?h = "(header_new MarketSchedule Krx (wire_symbol isin) recv_ns)\<lparr> h_recv_ns := recv_ns \<rparr>"
  have h: "?h = header_new MarketSchedule Krx (wire_symbol isin) recv_ns"
    by (simp add: header_new_def)
  let ?r = "install (PMarketSchedule ms) (with_header (header_new MarketSchedule Krx (wire_symbol isin) recv_ns))"
  have "record_ok ?r" "record_validate ?r = Inr ()" "record_view ?r = Inr (PMarketSchedule ms)"
    using assms(1,2,3) header_new_valid
    by (simp_all add: record_ok_install with_header_ok install_valid record_view_install del: install.simps)
  moreover have "venue_from_u8 0 = Some Krx"
    by (simp add: venue_from_u8_def)
  ultimately show ?thesis
    using assms(4) unfolding h new_install decoded_def
    by (simp add: r_header_install is_stale_def has_flags_def kind_consts header_venue_def del: install.simps)
      (simp add: with_header_def header_new_def HEADER_ZEROED_def)
qed

interpretation schedule: krx_decoder schedule_decode M4_MESSAGE_LEN 31
proof
  show "returns (schedule_decode payload recv_ns) (decoded 31 payload recv_ns)"
    if "length payload = M4_MESSAGE_LEN" "krx_validate payload M4_MESSAGE_LEN = Inr ()" for payload recv_ns
  proof -
    have isin: "slice payload M4_ISIN 12 = Inr (take 12 (drop 31 payload))"
      using that(1) by (simp add: schedule_offsets slice_eq)
    show ?thesis
      using that(1) unfolding schedule_decode_def that(2) and_then_simps Let_def isin
      by (intro reader_steps)
        (auto simp: schedule_offsets market_schedule_payload_ok_def kind_consts intro!: decoded_schedule)
  qed
qed (simp_all add: schedule_decode_def schedule_offsets)

end
