(* ===== verification/Krx_Dispatch.thy ===== *)
theory Krx_Dispatch
  imports Krx_Markets
begin

text \<open>
  \<open>crates/jeed-krx/src/decode/dispatch.rs\<close>: choosing a decoder from the five bytes of the transaction
  code. The decoders only enter through their contract \<open>krx_decoder\<close>: for every code \<open>message_len\<close>
  knows, \<open>decode\<close> is a decoder of exactly that length whose instrument stands where \<open>isin_offset\<close>
  says. That gives the safety of \<open>decode\<close> on every datagram and the agreement of the receive loop's
  checks with it.
\<close>

definition krx_quote :: "trcode \<Rightarrow> bytes \<Rightarrow> u64 \<Rightarrow> wire_record krx" where
  "krx_quote code payload recv_ns =
     (if is_derivative code then
        (if depth_for_product_group code = 10 then derivative_quote_decode 10 payload recv_ns
         else derivative_quote_decode 5 payload recv_ns)
      else if stock_quote_handles code then stock_quote_decode payload recv_ns
      else if bond_quote_handles code then bond_quote_decode payload recv_ns
      else Inl (Err (UnknownTrCode code)))"

definition krx_trade :: "trcode \<Rightarrow> bytes \<Rightarrow> u64 \<Rightarrow> wire_record krx" where
  "krx_trade code payload recv_ns =
     (if derivative_trade_handles code then derivative_trade_decode payload recv_ns
      else if securities_trade_handles code then securities_trade_decode payload recv_ns
      else if bond_trade_handles code then bond_trade_decode payload recv_ns
      else Inl (Err (UnknownTrCode code)))"

definition krx_trade_quote :: "trcode \<Rightarrow> bytes \<Rightarrow> u64 \<Rightarrow> wire_record krx" where
  "krx_trade_quote code payload recv_ns =
     (if is_derivative code then
        (if depth_for_product_group code = 10 then derivative_trade_quote_decode 10 payload recv_ns
         else derivative_trade_quote_decode 5 payload recv_ns)
      else if bond_trade_quote_handles code then bond_trade_quote_decode payload recv_ns
      else Inl (Err (UnknownTrCode code)))"

definition krx_decode :: "bytes \<Rightarrow> u64 \<Rightarrow> wire_record krx" where
  "krx_decode payload recv_ns =
     and_then (trcode_from_message payload) (\<lambda>code.
       if data_class code = [0x42, 0x36] then krx_quote code payload recv_ns
       else if data_class code = [0x42, 0x37] \<and> etf_quote_handles code then etf_quote_decode payload recv_ns
       else if data_class code = [0x41, 0x33] then krx_trade code payload recv_ns
       else if data_class code = [0x47, 0x37] then krx_trade_quote code payload recv_ns
       else if data_class code = [0x56, 0x31] \<and> price_limit_handles code then price_limit_decode payload recv_ns
       else if data_class code = [0x51, 0x32] \<and> dynamic_limit_handles code
       then dynamic_limit_decode payload recv_ns
       else if data_class code = [0x4D, 0x34] then schedule_decode payload recv_ns
       else Inl (Err (UnknownTrCode code)))"

definition krx_message_len :: "trcode \<Rightarrow> nat option" where
  "krx_message_len code =
     (let deep = (depth_for_product_group code = 10); dc = data_class code
      in if dc = [0x42, 0x36] \<and> is_derivative code
         then Some (if deep then derivative_quote_len 10 else derivative_quote_len 5)
         else if dc = [0x47, 0x37] \<and> is_derivative code
         then Some (if deep then derivative_trade_quote_len 10 else derivative_trade_quote_len 5)
         else if dc = [0x41, 0x33] \<and> derivative_trade_handles code then Some DERIVATIVE_TRADE_LEN
         else if dc = [0x56, 0x31] \<and> price_limit_handles code then Some V1_MESSAGE_LEN
         else if dc = [0x51, 0x32] \<and> dynamic_limit_handles code then Some Q2_MESSAGE_LEN
         else if dc = [0x42, 0x36] \<and> stock_quote_handles code then Some STOCK_QUOTE_LEN
         else if dc = [0x42, 0x37] \<and> etf_quote_handles code then Some ETF_QUOTE_LEN
         else if dc = [0x41, 0x33] \<and> securities_trade_handles code then Some SEC_TRADE_LEN
         else if dc = [0x42, 0x36] \<and> bond_quote_handles code then Some BOND_QUOTE_LEN
         else if dc = [0x41, 0x33] \<and> bond_trade_handles code then Some BOND_TRADE_LEN
         else if dc = [0x47, 0x37] \<and> bond_trade_quote_handles code then Some BOND_TRADE_QUOTE_LEN
         else if dc = [0x4D, 0x34] then Some M4_MESSAGE_LEN
         else None)"

definition isin_offset :: "trcode \<Rightarrow> nat option" where
  "isin_offset code =
     (let dc = data_class code
      in if dc = [0x42, 0x36] \<or> dc = [0x42, 0x37] \<or> dc = [0x41, 0x33] \<or> dc = [0x47, 0x37]
         then Some OFF_ISIN
         else if dc = [0x56, 0x31] \<or> dc = [0x51, 0x32] then Some LIM_ISIN
         else None)"

definition krx_handles :: "trcode \<Rightarrow> bool" where
  "krx_handles code \<longleftrightarrow> krx_message_len code \<noteq> None"

subsection \<open>Every code goes to a decoder of its contract\<close>

lemmas decoder_contracts =
  five_deep.krx_decoder_axioms ten_deep.krx_decoder_axioms derivative_trade.krx_decoder_axioms
  five_deep_trade.krx_decoder_axioms ten_deep_trade.krx_decoder_axioms price_limit.krx_decoder_axioms
  dynamic_limit.krx_decoder_axioms bond_quote.krx_decoder_axioms bond_trade.krx_decoder_axioms
  bond_trade_quote.krx_decoder_axioms securities_trade.krx_decoder_axioms stock_quote.krx_decoder_axioms
  etf_quote.krx_decoder_axioms schedule.krx_decoder_axioms

lemmas handles_defs = derivative_trade_handles_def price_limit_handles_def dynamic_limit_handles_def
  stock_quote_handles_def etf_quote_handles_def securities_trade_handles_def bond_quote_handles_def
  bond_trade_handles_def bond_trade_quote_handles_def schedule_handles_def

text \<open>The offset the receive loop reads, and the one of the schedule, which it does not read.\<close>

definition symbol_offset :: "trcode \<Rightarrow> nat" where
  "symbol_offset code = unwrap_or M4_ISIN (isin_offset code)"

lemma krx_decode_dispatch:
  assumes "trcode_from_message payload = Inr code"
  shows "case krx_message_len code of
      None \<Rightarrow> krx_decode payload recv_ns = Inl (Err (UnknownTrCode code))
    | Some n \<Rightarrow> \<exists>dec. krx_decoder dec n (symbol_offset code) \<and> krx_decode payload recv_ns = dec payload recv_ns"
proof -
  have at: "data_class code \<in> {[0x42, 0x36], [0x42, 0x37], [0x41, 0x33], [0x47, 0x37]} \<Longrightarrow> symbol_offset code = 17"
    "data_class code \<in> {[0x56, 0x31], [0x51, 0x32]} \<Longrightarrow> symbol_offset code = 15"
    "data_class code = [0x4D, 0x34] \<Longrightarrow> symbol_offset code = 31"
    by (auto simp: symbol_offset_def isin_offset_def OFF_ISIN_def LIM_ISIN_def M4_ISIN_def unwrap_or_def)
  show ?thesis
    using decoder_contracts at assms
    unfolding krx_decode_def krx_message_len_def Let_def
    by (auto simp: krx_quote_def krx_trade_def krx_trade_quote_def handles_defs)
qed

lemmas interface_lengths = quote_lengths bond_offsets securities_offsets schedule_offsets
  DERIVATIVE_TRADE_LEN_def V1_MESSAGE_LEN_def Q2_MESSAGE_LEN_def

lemma interface_length_values [simp]:
  "derivative_quote_len 5 = 324" "derivative_quote_len 10 = 554" "derivative_trade_quote_len 5 = 431"
  "derivative_trade_quote_len 10 = 661" "DERIVATIVE_TRADE_LEN = 173" "V1_MESSAGE_LEN = 65"
  "Q2_MESSAGE_LEN = 65" "STOCK_QUOTE_LEN = 590" "ETF_QUOTE_LEN = 830" "SEC_TRADE_LEN = 186"
  "BOND_QUOTE_LEN = 462" "BOND_TRADE_LEN = 223" "BOND_TRADE_QUOTE_LEN = 643" "M4_MESSAGE_LEN = 83"
  by (simp_all add: interface_lengths)

lemma isin_inside: "krx_message_len code = Some n \<Longrightarrow> symbol_offset code + 12 \<le> n"
  by (auto simp: krx_message_len_def symbol_offset_def isin_offset_def Let_def OFF_ISIN_def LIM_ISIN_def
    M4_ISIN_def unwrap_or_def handles_defs split: if_splits)

lemma isin_offset_inside:
  "krx_message_len code = Some n \<Longrightarrow> isin_offset code = Some at \<Longrightarrow> at + ISIN_LEN \<le> n"
  using isin_inside [of code n] by (simp add: symbol_offset_def unwrap_or_def krx_consts)

lemma krx_decode_returns:
  "returns (krx_decode payload recv_ns) (\<lambda>r. \<exists>code. trcode_from_message payload = Inr code \<and>
     krx_message_len code = Some (length payload) \<and> last payload = END_KEYWORD \<and>
     decoded (symbol_offset code) payload recv_ns r)"
proof (cases "trcode_from_message payload")
  case (Inl e)
  then show ?thesis
    by (auto simp: krx_decode_def trcode_from_message_def split: if_splits)
next
  case (Inr code)
  show ?thesis
  proof (cases "krx_message_len code")
    case None
    then show ?thesis
      using krx_decode_dispatch [OF Inr, of recv_ns] by simp
  next
    case (Some n)
    then obtain dec where "krx_decoder dec n (symbol_offset code)" "krx_decode payload recv_ns = dec payload recv_ns"
      using krx_decode_dispatch [OF Inr, of recv_ns] by auto
    then show ?thesis
      using krx_decoder.total [of dec n "symbol_offset code" payload recv_ns] Inr Some
      by (auto elim!: returns_mono)
  qed
qed

lemma krx_decode_wrong_length:
  assumes "trcode_from_message payload = Inr code" "krx_message_len code = Some n" "length payload \<noteq> n"
  shows "krx_decode payload recv_ns = Inl (Err (KrxLength n (length payload)))"
  using krx_decode_dispatch [OF assms(1), of recv_ns] assms(2,3) krx_decoder.wrong_length by fastforce

text \<open>The depth a decoder's own \<open>depth_for\<close> names is the depth the dispatch picks.\<close>

lemma depth_for_agrees:
  "quote_depth_for c = Some d \<Longrightarrow> krx_message_len c = Some (derivative_quote_len d)"
  "trade_quote_depth_for c = Some d \<Longrightarrow> krx_message_len c = Some (derivative_trade_quote_len d)"
  by (auto simp: quote_depth_for_def trade_quote_depth_for_def krx_message_len_def depth_for_product_group_def
    split: if_splits)

subsection \<open>Two blank messages\<close>

text \<open>A schedule message and a five-deep derivative book whose every field is blank.\<close>

definition blank_schedule :: bytes where
  "blank_schedule = [0x4D, 0x34, 0x30, 0x31, 0x46] @ replicate 77 0x20 @ [0xFF]"

definition blank_book :: bytes where
  "blank_book = [0x42, 0x36, 0x30, 0x31, 0x46] @ replicate 318 0x20 @ [0xFF]"

lemmas blank_simps = trcode_from_message_def krx_consts data_class_def krx_validate_def nth_append Let_def

lemma blank_schedule_decodes: "\<exists>r. krx_decode blank_schedule recv_ns = Inr r"
  by (simp add: krx_decode_def blank_schedule_def schedule_decode_def time_at_def uint_at_def slice_def
    time_of_day_ns_def field_uint_def is_blank_def byte_at_def schedule_offsets list_all_length blank_simps)

lemma blank_slice: "5 \<le> at \<Longrightarrow> at + len \<le> 323 \<Longrightarrow> slice blank_book at len = Inr (replicate len 0x20)"
proof -
  have "take len (drop at (c @ replicate 318 0x20 @ [0xFF])) = replicate len (0x20 :: u8)"
    if "length c = 5" "5 \<le> at" "at + len \<le> 323" for c
    using that by simp
  note cut = this [of "[0x42, 0x36, 0x30, 0x31, 0x46]"]
  assume "5 \<le> at" "at + len \<le> 323"
  moreover from this have "take len (drop at blank_book) = replicate len 0x20"
    unfolding blank_book_def by (intro cut) simp_all
  moreover have "length blank_book = 324"
    by (simp add: blank_book_def)
  ultimately show ?thesis
    unfolding slice_def by simp
qed

lemma blank_fields:
  assumes "5 \<le> at" "at + len \<le> 323"
  shows "price_at reader blank_book at len = Inr None" "uint_at blank_book at len = Inr None"
    "len = 12 \<Longrightarrow> time_at blank_book at len = Inr None"
  using assms
  by (simp_all add: price_at_def uint_at_def time_at_def field_price_def field_uint_def time_of_day_ns_def
    blank_slice is_blank_def list_all_length)

lemma blank_level: "i < 5 \<Longrightarrow> derivative_level blank_book 47 reader i (a, q) = Inr (a,
    q\<lparr> q_ask := (q_ask q)[i := level_new 0 0], q_bid := (q_bid q)[i := level_new 0 0] \<rparr>)"
  by (simp add: derivative_level_def blank_fields level_offsets unwrap_or_def lift_set_level accum_observe_def
    level_with_count_def level_new_def)

lemma blank_book_decodes:
  "\<exists>r q. krx_decode blank_book recv_ns = Inr r \<and> record_view r = Inr (PQuote q)"
proof -
  have code: "trcode_from_message blank_book = Inr (TrCode [0x42, 0x36, 0x30, 0x31, 0x46])"
    by (simp add: blank_book_def blank_simps)
  have frame: "krx_validate blank_book 324 = Inr ()"
    by (simp add: blank_book_def blank_simps)
  have header: "\<exists>msg. krx_header_a blank_book = Inr msg"
    by (simp add: krx_header_a_def code blank_fields blank_slice HEADER_LEN_def OFF_SEQUENCE_def OFF_ISIN_def
      OFF_INDEX_def OFF_TIME_def OFF_BOARD_def OFF_SESSION_def ISIN_LEN_def read_isin_def)
      (simp add: blank_book_def)
  have book: "\<exists>s q. derivative_fill_book blank_book 47 5 reader quote_default = Inr (s, q)" for reader
    by (simp add: derivative_fill_book_def upt_rec blank_level accum_default_def)
  have "krx_decode blank_book recv_ns = derivative_quote_decode 5 blank_book recv_ns"
    by (simp add: krx_decode_def code krx_quote_def data_class_def is_derivative_def depth_for_product_group_def
      product_group_def)
  moreover have "\<exists>h q. derivative_quote_decode 5 blank_book recv_ns = Inr (new_quote h q) \<and> quote_payload_ok q"
  proof -
    obtain msg where msg: "krx_header_a blank_book = Inr msg"
      using header by blast
    let ?reader = "derivative_price (kh_trcode msg) (kh_isin msg)"
    obtain s q where q: "derivative_fill_book blank_book 47 5 ?reader quote_default = Inr (s, q)"
      using book by blast
    moreover have "length blank_book = 324"
      by (simp add: blank_book_def)
    ultimately have "quote_payload_ok q"
      using derivative_fill_book_returns [of ?reader 47 5 blank_book] by (auto simp: shape_sound_def book_sound_def)
    then show ?thesis
      using q by (simp add: derivative_quote_decode_def frame msg HEADER_LEN_def LEVEL_LEN_def
        QUOTE_TAIL_EXPECTED_PRICE_def blank_fields with_expected_def Let_def) blast
  qed
  ultimately show ?thesis
    by (auto simp: new_install record_view_install simp del: install.simps)
qed

subsection \<open>What decoding promises\<close>

text \<open>
  C4. Decoding is total and safe: no datagram of any length or content makes \<open>decode\<close> panic, and
  every record it returns is laid out, passes the validation of the wire and survives its bytes; it
  carries the venue and the reception time, is not yet marked stale, and its sequence is zero.
\<close>

theorem krx_decode_safe:
  "krx_decode payload recv_ns \<noteq> Inl Panic \<and>
   (\<forall>r. krx_decode payload recv_ns = Inr r \<longrightarrow>
      record_from_bytes (record_as_bytes r) = Inr r \<and> record_validate r = Inr () \<and>
      header_venue (r_header r) = Inr Krx \<and> h_recv_ns (r_header r) = recv_ns \<and>
      \<not> is_stale (r_header r) \<and> h_producer_seq (r_header r) = 0)"
  using krx_decode_returns [of payload recv_ns]
  by (auto simp: returns_def no_panic_def decoded_def record_from_bytes_Inr length_record_as_bytes record_read_as_bytes)

theorem krx_decode_safe_witness:
  "\<exists>r. krx_decode blank_schedule 5 = Inr r \<and> record_validate r = Inr () \<and> h_recv_ns (r_header r) = 5"
  using blank_schedule_decodes [of 5] krx_decode_safe [of blank_schedule 5] by blast

text \<open>
  C25. The receive loop's length check and the decoder agree: a code \<open>message_len\<close> does not know is
  refused by \<open>decode\<close> as unknown; for a code it knows, a datagram of another length is a length
  error, one without the end keyword an end-keyword error, and the instrument of a filtered code
  lies inside the message.
\<close>

theorem krx_message_len_agrees:
  assumes "trcode_from_message payload = Inr code"
  shows "case krx_message_len code of
      None \<Rightarrow> krx_decode payload recv_ns = Inl (Err (UnknownTrCode code))
    | Some n \<Rightarrow>
        (length payload \<noteq> n \<longrightarrow> krx_decode payload recv_ns = Inl (Err (KrxLength n (length payload)))) \<and>
        (length payload = n \<longrightarrow> last payload \<noteq> END_KEYWORD \<longrightarrow>
           krx_decode payload recv_ns = Inl (Err (EndKeyword (last payload)))) \<and>
        (\<forall>at. isin_offset code = Some at \<longrightarrow> at + ISIN_LEN \<le> n)"
proof (cases "krx_message_len code")
  case None
  then show ?thesis
    using krx_decode_dispatch [OF assms, of recv_ns] by simp
next
  case (Some n)
  then obtain dec where dec: "krx_decoder dec n (symbol_offset code)" "krx_decode payload recv_ns = dec payload recv_ns"
    using krx_decode_dispatch [OF assms, of recv_ns] by auto
  have "0 < n"
    using dec(1) by (rule krx_decoder.nonempty)
  then have "dec payload recv_ns = Inl (Err (EndKeyword (last payload)))"
    if "length payload = n" "last payload \<noteq> END_KEYWORD"
    using that by (intro krx_decoder.frame [OF dec(1)]) (auto simp: krx_validate_def last_conv_nth Let_def)
  then show ?thesis
    using Some dec krx_decoder.wrong_length [OF dec(1)] isin_offset_inside [OF Some] by simp
qed

theorem krx_message_len_agrees_witness:
  "krx_decode (butlast blank_book) 5 = Inl (Err (KrxLength 324 323))"
proof -
  have "trcode_from_message (butlast blank_book) = Inr (TrCode [0x42, 0x36, 0x30, 0x31, 0x46])"
    by (simp add: blank_book_def blank_simps butlast_append)
  then show ?thesis
    using krx_message_len_agrees [of "butlast blank_book" "TrCode [0x42, 0x36, 0x30, 0x31, 0x46]" 5]
    by (simp add: krx_message_len_def data_class_def is_derivative_def depth_for_product_group_def product_group_def
      blank_book_def butlast_append)
qed

text \<open>
  C24. The instrument the allow-set looks at is the instrument the record is published under: where
  \<open>isin_offset\<close> names an offset, the twelve bytes there are the symbol of every record \<open>decode\<close>
  returns.
\<close>

theorem krx_filtered_symbol:
  assumes "trcode_from_message payload = Inr code" and "isin_offset code = Some at"
    and "krx_decode payload recv_ns = Inr r"
  shows "h_symbol (r_header r) = wire_symbol (take ISIN_LEN (drop at payload)) \<and> at + ISIN_LEN \<le> length payload"
  using krx_decode_returns [of payload recv_ns] assms isin_offset_inside [of code "length payload" at]
  by (auto simp: returns_def decoded_def symbol_offset_def unwrap_or_def krx_consts)

theorem krx_filtered_symbol_witness:
  "\<exists>r. krx_decode blank_book 5 = Inr r \<and> h_symbol (r_header r) = wire_symbol (replicate 12 0x20)"
proof -
  obtain r where "krx_decode blank_book 5 = Inr r"
    using blank_book_decodes [of 5] by blast
  moreover have "trcode_from_message blank_book = Inr (TrCode [0x42, 0x36, 0x30, 0x31, 0x46])"
    by (simp add: blank_book_def blank_simps)
  moreover have "isin_offset (TrCode [0x42, 0x36, 0x30, 0x31, 0x46]) = Some 17"
    by (simp add: isin_offset_def data_class_def OFF_ISIN_def)
  ultimately show ?thesis
    using krx_filtered_symbol [of blank_book "TrCode [0x42, 0x36, 0x30, 0x31, 0x46]" 17 5 r] blank_slice [of 17 12]
    by (simp add: slice_def krx_consts split: if_splits)
qed

text \<open>
  C23. A book is told truly by its header, whichever of the seven interfaces carried it: the depth is
  at most ten, it ends at the deepest level that has a quantity on either side and no level beyond it
  has one, and a side is flagged empty exactly when it has no quantity at all.
\<close>

theorem krx_book_told:
  assumes "krx_decode payload recv_ns = Inr r" and "record_view r = Inr p" and "book_of p = Some q"
  defines "d \<equiv> unat (h_depth (r_header r))"
  shows "d \<le> 10 \<and> (\<forall>i. d \<le> i \<and> i < 10 \<longrightarrow> l_qty (q_ask q ! i) = 0 \<and> l_qty (q_bid q ! i) = 0) \<and>
    (0 < d \<longrightarrow> 0 < l_qty (q_ask q ! (d - 1)) \<or> 0 < l_qty (q_bid q ! (d - 1))) \<and>
    (has_flags (r_header r) ASK_EMPTY \<longleftrightarrow> (\<forall>i < 10. l_qty (q_ask q ! i) = 0)) \<and>
    (has_flags (r_header r) BID_EMPTY \<longleftrightarrow> (\<forall>i < 10. l_qty (q_bid q ! i) = 0))"
proof -
  have "book_sound (h_depth (r_header r)) (has_flags (r_header r) ASK_EMPTY) (has_flags (r_header r) BID_EMPTY) q"
    using krx_decode_returns [of payload recv_ns] assms(1,2,3) by (auto simp: returns_def decoded_def)
  then show ?thesis
    unfolding book_sound_def d_def by (auto simp: word_less_nat_alt)
qed

theorem krx_book_told_witness:
  "\<exists>r q. krx_decode blank_book 5 = Inr r \<and> record_view r = Inr (PQuote q) \<and>
     (has_flags (r_header r) ASK_EMPTY \<longleftrightarrow> (\<forall>i < 10. l_qty (q_ask q ! i) = 0))"
proof -
  obtain r q where "krx_decode blank_book 5 = Inr r" "record_view r = Inr (PQuote q)"
    using blank_book_decodes [of 5] by blast
  then show ?thesis
    using krx_book_told [of blank_book 5 r "PQuote q" q] by auto
qed

end
