(* ===== verification/Krx_Pipeline.thy ===== *)
theory Krx_Pipeline
  imports Krx_Dispatch Krx_Filter Record_Sink
begin

text \<open>
  \<open>crates/jeed-krx/src/recv\<close>: the counters (\<open>stats.rs\<close>) and everything the receive loop does to a
  datagram between the socket and the ring (\<open>pipeline.rs\<close>). The pipeline knows its sink only through
  the interface \<open>record_sink\<close>; its lemmas are proved against the interface and reach the ring by
  interpretation.
\<close>

subsection \<open>Counters (stats.rs)\<close>

record krx_stats =
  ks_received :: u64
  ks_published :: u64
  ks_heartbeats :: u64
  ks_stale :: u64
  ks_filtered_trcode :: u64
  ks_filtered_isin :: u64
  ks_too_short :: u64
  ks_unknown_trcode :: u64
  ks_wrong_length :: u64
  ks_decode_failed :: u64
  ks_socket_errors :: u64

definition stats_default :: krx_stats where
  "stats_default =
     \<lparr> ks_received = 0, ks_published = 0, ks_heartbeats = 0, ks_stale = 0, ks_filtered_trcode = 0,
       ks_filtered_isin = 0, ks_too_short = 0, ks_unknown_trcode = 0, ks_wrong_length = 0,
       ks_decode_failed = 0, ks_socket_errors = 0 \<rparr>"

definition stats_dropped :: "krx_stats \<Rightarrow> u64" where
  "stats_dropped s = ks_too_short s + ks_unknown_trcode s + ks_wrong_length s + ks_decode_failed s"

definition stats_filtered :: "krx_stats \<Rightarrow> u64" where
  "stats_filtered s = ks_filtered_trcode s + ks_filtered_isin s"

subsection \<open>The pipeline (pipeline.rs)\<close>

datatype outcome =
    Published nat
  | FilteredTrCode
  | FilteredIsin
  | OutcomeTooShort
  | OutcomeUnknownTrCode trcode
  | OutcomeWrongLength nat nat
  | Failed krx_error

primrec published :: "outcome \<Rightarrow> bool" where
  "published (Published i) \<longleftrightarrow> True"
| "published FilteredTrCode \<longleftrightarrow> False"
| "published FilteredIsin \<longleftrightarrow> False"
| "published OutcomeTooShort \<longleftrightarrow> False"
| "published (OutcomeUnknownTrCode c) \<longleftrightarrow> False"
| "published (OutcomeWrongLength n m) \<longleftrightarrow> False"
| "published (Failed e) \<longleftrightarrow> False"

record 's pipeline =
  pl_trcodes :: trcode_filter
  pl_isins :: isin_filter
  pl_stale_ns :: u64
  pl_stats :: krx_stats
  pl_sink :: 's

definition pipeline_new :: "trcode_filter \<Rightarrow> isin_filter \<Rightarrow> u64 \<Rightarrow> 's \<Rightarrow> 's pipeline" where
  "pipeline_new trcodes isins stale_ns sink =
     \<lparr> pl_trcodes = trcodes, pl_isins = isins, pl_stale_ns = stale_ns, pl_stats = stats_default,
       pl_sink = sink \<rparr>"

definition count :: "(krx_stats \<Rightarrow> krx_stats) \<Rightarrow> 's pipeline \<Rightarrow> 's pipeline" where
  "count f p = p\<lparr> pl_stats := f (pl_stats p) \<rparr>"

definition drop_one :: "(u64 \<Rightarrow> 's \<Rightarrow> 's) \<Rightarrow> (krx_stats \<Rightarrow> krx_stats) \<Rightarrow> 's pipeline \<Rightarrow> 's pipeline" where
  "drop_one note_drops f p = (count f p)\<lparr> pl_sink := note_drops 1 (pl_sink p) \<rparr>"

text \<open>The function returns the flag and has set it in the record.\<close>

definition mark_stale :: "wire_record \<Rightarrow> u64 \<Rightarrow> u64 \<Rightarrow> wire_record \<times> bool" where
  "mark_stale rec recv_ns stale_ns =
     (if stale_ns = 0 \<or> h_flags (r_header rec) AND VENUE_TIME_VALID = 0 then (rec, False)
      else if saturating_sub recv_ns (h_venue_ns (r_header rec)) \<le> stale_ns then (rec, False)
      else (rec\<lparr> r_header := (r_header rec)\<lparr> h_flags := h_flags (r_header rec) OR STALE \<rparr> \<rparr>, True))"

text \<open>
  The closure given to \<open>publish\<close>. The variable \<open>stale\<close> it captures is what its \<open>Ok\<close> carries; a panic
  inside it would be the error \<open>Panic\<close>.
\<close>

type_synonym krx_fill = "wire_record \<Rightarrow> wire_record \<times> (krx_error fault + bool)"
type_synonym 's krx_publish = "krx_fill \<Rightarrow> 's \<Rightarrow> (krx_error fault + bool) \<times> 's"

definition krx_fill :: "bytes \<Rightarrow> u64 \<Rightarrow> u64 \<Rightarrow> krx_fill" where
  "krx_fill payload recv_ns stale_ns rec =
     (case krx_decode payload recv_ns of
        Inl e \<Rightarrow> (rec, Inl e)
      | Inr r \<Rightarrow> (case mark_stale r recv_ns stale_ns of (r', stale) \<Rightarrow> (r', Inr stale)))"

text \<open>The instrument of a datagram of the right length, held against the allow-set.\<close>

definition isin_check :: "isin_filter \<Rightarrow> trcode \<Rightarrow> bytes \<Rightarrow> bool krx" where
  "isin_check isins code payload =
     (case isin_offset code of
        Some at \<Rightarrow> map_ok (allows isins) (slice payload at ISIN_LEN)
      | None \<Rightarrow> Inr True)"

definition publish_datagram ::
    "'s krx_publish \<Rightarrow> (u64 \<Rightarrow> 's \<Rightarrow> 's) \<Rightarrow> bytes \<Rightarrow> u64 \<Rightarrow> nat \<Rightarrow> 's pipeline \<Rightarrow> (outcome \<times> 's pipeline) krx" where
  "publish_datagram publish note_drops payload recv_ns index p =
     (case publish (krx_fill payload recv_ns (pl_stale_ns p)) (pl_sink p) of
        (result, sink) \<Rightarrow>
          let p = p\<lparr> pl_sink := sink \<rparr>
          in case result of
               Inr stale \<Rightarrow>
                 Inr (Published index,
                   count (ks_stale_update (\<lambda>n. n + (if stale then 1 else 0)))
                     (count (ks_published_update (\<lambda>n. n + 1)) p))
             | Inl (Err e) \<Rightarrow>
                 Inr (Failed e, drop_one note_drops (ks_decode_failed_update (\<lambda>n. n + 1)) p)
             | Inl Panic \<Rightarrow> Inl Panic)"

definition ingest ::
    "'s krx_publish \<Rightarrow> (u64 \<Rightarrow> 's \<Rightarrow> 's) \<Rightarrow> bytes \<Rightarrow> u64 \<Rightarrow> 's pipeline \<Rightarrow> (outcome \<times> 's pipeline) krx" where
  "ingest publish note_drops payload recv_ns p =
     (let p = count (ks_received_update (\<lambda>n. n + 1)) p
      in case trcode_from_message payload of
           Inl Panic \<Rightarrow> Inl Panic
         | Inl (Err _) \<Rightarrow> Inr (OutcomeTooShort, drop_one note_drops (ks_too_short_update (\<lambda>n. n + 1)) p)
         | Inr code \<Rightarrow>
         (case index_of (pl_trcodes p) code of
            None \<Rightarrow> Inr (FilteredTrCode, count (ks_filtered_trcode_update (\<lambda>n. n + 1)) p)
          | Some index \<Rightarrow>
         (case krx_message_len code of
            None \<Rightarrow>
              Inr (OutcomeUnknownTrCode code, drop_one note_drops (ks_unknown_trcode_update (\<lambda>n. n + 1)) p)
          | Some expected \<Rightarrow>
              if length payload \<noteq> expected
              then Inr (OutcomeWrongLength expected (length payload),
                     drop_one note_drops (ks_wrong_length_update (\<lambda>n. n + 1)) p)
              else
                and_then (isin_check (pl_isins p) code payload) (\<lambda>allowed.
                  if \<not> allowed then Inr (FilteredIsin, count (ks_filtered_isin_update (\<lambda>n. n + 1)) p)
                  else publish_datagram publish note_drops payload recv_ns index p))))"

definition heartbeat_record :: "u64 \<Rightarrow> u64 \<Rightarrow> u64 \<Rightarrow> wire_record" where
  "heartbeat_record received forwarded now =
     new_heartbeat (header_new Heartbeat Krx (replicate SYMBOL_LEN 0) now)
       \<lparr> hb_received = received, hb_forwarded = forwarded \<rparr>"

definition heartbeat :: "'s krx_publish \<Rightarrow> u64 \<Rightarrow> 's pipeline \<Rightarrow> 's pipeline" where
  "heartbeat publish now p =
     (case publish
        (\<lambda>_. (heartbeat_record (ks_received (pl_stats p)) (ks_published (pl_stats p)) now, Inr False))
        (pl_sink p) of
        (_, sink) \<Rightarrow> count (ks_heartbeats_update (\<lambda>n. n + 1)) (p\<lparr> pl_sink := sink \<rparr>))"

definition note_socket_error :: "'s pipeline \<Rightarrow> 's pipeline" where
  "note_socket_error p = count (ks_socket_errors_update (\<lambda>n. n + 1)) p"

subsection \<open>What the pipeline is for\<close>

text \<open>
  The reference: decode every datagram, then keep the records whose transaction code and symbol the
  allow-sets keep. The pipeline checks the code, the length and the instrument before it decodes.
\<close>

definition krx_reference :: "trcode_filter \<Rightarrow> isin_filter \<Rightarrow> u64 \<Rightarrow> bytes \<Rightarrow> u64 \<Rightarrow> wire_record option" where
  "krx_reference trcodes isins stale_ns payload recv_ns =
     (case krx_decode payload recv_ns of
        Inl _ \<Rightarrow> None
      | Inr r \<Rightarrow>
          let code = TrCode (take TRCODE_LEN payload)
          in if filter_keeps trcodes code \<and>
                (isin_offset code = None \<or> allows isins (take ISIN_LEN (h_symbol (r_header r))))
             then Some (fst (mark_stale r recv_ns stale_ns)) else None)"

datatype krx_event = Datagram bytes u64 | Beat u64 | SocketError

definition pipeline_step ::
    "'s krx_publish \<Rightarrow> (u64 \<Rightarrow> 's \<Rightarrow> 's) \<Rightarrow> krx_event \<Rightarrow> 's pipeline \<Rightarrow> 's pipeline krx" where
  "pipeline_step publish note_drops e p =
     (case e of
        Datagram payload recv_ns \<Rightarrow> map_ok snd (ingest publish note_drops payload recv_ns p)
      | Beat now \<Rightarrow> Inr (heartbeat publish now p)
      | SocketError \<Rightarrow> Inr (note_socket_error p))"

fun pipeline_run ::
    "'s krx_publish \<Rightarrow> (u64 \<Rightarrow> 's \<Rightarrow> 's) \<Rightarrow> krx_event list \<Rightarrow> 's pipeline \<Rightarrow> 's pipeline krx" where
  "pipeline_run publish note_drops [] p = Inr p"
| "pipeline_run publish note_drops (e # es) p =
     and_then (pipeline_step publish note_drops e p) (pipeline_run publish note_drops es)"

text \<open>
  The abstract machine: two counters and the list of records. A datagram is counted and yields what
  the reference yields; a beat yields a record of the counters.
\<close>

fun krx_trace ::
    "trcode_filter \<Rightarrow> isin_filter \<Rightarrow> u64 \<Rightarrow> u64 \<Rightarrow> u64 \<Rightarrow> krx_event list \<Rightarrow> wire_record list" where
  "krx_trace t i st received forwarded [] = []"
| "krx_trace t i st received forwarded (Datagram payload recv_ns # es) =
     (case krx_reference t i st payload recv_ns of
        Some r \<Rightarrow> r # krx_trace t i st (received + 1) (forwarded + 1) es
      | None \<Rightarrow> krx_trace t i st (received + 1) forwarded es)"
| "krx_trace t i st received forwarded (Beat now # es) =
     heartbeat_record received forwarded now # krx_trace t i st received forwarded es"
| "krx_trace t i st received forwarded (SocketError # es) = krx_trace t i st received forwarded es"


subsection \<open>The records\<close>

lemma record_view_header: "h_kind h = h_kind (r_header r) \<Longrightarrow> record_view (r\<lparr> r_header := h \<rparr>) = record_view r"
  by (simp add: record_view_def get_defs typed_get_def expect_kind_def record_kind_def header_kind_def
    cong: wire_kind.case_cong)

lemma record_validate_header:
  assumes "record_validate r = Inr ()" "h_kind h = h_kind (r_header r)" "h_venue h = h_venue (r_header r)"
    "h_price_scale h = h_price_scale (r_header r)" "h_qty_scale h = h_qty_scale (r_header r)"
    "h_depth h = h_depth (r_header r)"
  shows "record_validate (r\<lparr> r_header := h \<rparr>) = Inr ()"
  using assms record_view_header [of h r] by (simp add: record_validate_view header_validate_iff)

definition record_good :: "wire_record \<Rightarrow> bool" where
  "record_good r \<longleftrightarrow> record_ok r \<and> record_validate r = Inr ()"

lemma record_good_set_seq [simp]: "record_good r \<Longrightarrow> record_good (set_seq n r)"
  by (simp add: record_good_def set_seq_def set_producer_seq_def record_validate_header record_ok_def header_ok_def)

lemma is_stale_set_seq [simp]: "is_stale (r_header (set_seq n r)) = is_stale (r_header r)"
  by (simp add: is_stale_def has_flags_def set_seq_def set_producer_seq_def)

lemma mark_stale_good:
  assumes "record_good r"
  shows "record_good (fst (mark_stale r recv_ns stale_ns))"
  using assms by (simp add: mark_stale_def record_good_def record_validate_header record_ok_def header_ok_def)

lemma mark_stale_flag:
  assumes "\<not> is_stale (r_header r)"
  shows "is_stale (r_header (fst (mark_stale r recv_ns stale_ns))) = snd (mark_stale r recv_ns stale_ns)"
  using assms by (simp add: mark_stale_def is_stale_def has_flags_def or_and_absorb)

lemma heartbeat_record_good: "record_good (heartbeat_record received forwarded now)"
  and heartbeat_not_stale: "\<not> is_stale (r_header (heartbeat_record received forwarded now))"
proof -
  let ?hb = "\<lparr> hb_received = received, hb_forwarded = forwarded \<rparr>"
  have r: "heartbeat_record received forwarded now =
      install (PHeartbeat ?hb) (with_header (header_new Heartbeat Krx (replicate SYMBOL_LEN 0) now))"
    by (simp add: heartbeat_record_def new_heartbeat_def typed_new_def set_defs)
  show "record_good (heartbeat_record received forwarded now)"
    unfolding r record_good_def
    by (simp add: record_ok_install with_header_ok install_valid header_new_valid SYMBOL_LEN_def del: install.simps)
  show "\<not> is_stale (r_header (heartbeat_record received forwarded now))"
    unfolding r
    by (simp add: r_header_install is_stale_def has_flags_def kind_consts with_header_def header_new_def
      HEADER_ZEROED_def del: install.simps)
qed

subsection \<open>The checks before decoding are the reference\<close>

lemma trcode_from_message_Inr:
  "trcode_from_message payload = Inr code \<Longrightarrow> 5 \<le> length payload \<and> code = TrCode (take 5 payload)"
  using trcode_from_take [of payload] by (auto simp: trcode_from_message_def krx_consts split: if_splits)

definition instrument_allowed :: "isin_filter \<Rightarrow> trcode \<Rightarrow> bytes \<Rightarrow> bool" where
  "instrument_allowed isins code payload =
     (case isin_offset code of Some at \<Rightarrow> allows isins (take ISIN_LEN (drop at payload)) | None \<Rightarrow> True)"

lemma isin_check_eq:
  "krx_message_len code = Some (length payload) \<Longrightarrow>
   isin_check isins code payload = Inr (instrument_allowed isins code payload)"
  using isin_offset_inside [of code "length payload"]
  by (auto simp: isin_check_def instrument_allowed_def slice_eq split: option.splits)

lemma take_wire_symbol: "length i = ISIN_LEN \<Longrightarrow> take ISIN_LEN (wire_symbol i) = i"
  by (simp add: wire_symbol_def)

lemma decoded_symbol:
  assumes "krx_decode payload recv_ns = Inr r" "trcode_from_message payload = Inr code" "isin_offset code = Some at"
  shows "take ISIN_LEN (h_symbol (r_header r)) = take ISIN_LEN (drop at payload)"
proof -
  have "h_symbol (r_header r) = wire_symbol (take ISIN_LEN (drop at payload))" "at + ISIN_LEN \<le> length payload"
    using krx_decode_returns [of payload recv_ns] assms isin_offset_inside [of code "length payload" at]
    by (auto simp: returns_def decoded_def symbol_offset_def unwrap_or_def krx_consts)
  then show ?thesis
    by (simp add: take_wire_symbol)
qed

lemma krx_reference_eq:
  assumes "trcode_from_message payload = Inr code"
  shows "krx_reference trcodes isins stale_ns payload recv_ns =
    (if filter_keeps trcodes code \<and> instrument_allowed isins code payload
     then case krx_decode payload recv_ns of
            Inr r \<Rightarrow> Some (fst (mark_stale r recv_ns stale_ns)) | Inl _ \<Rightarrow> None
     else None)"
proof (cases "krx_decode payload recv_ns")
  case (Inr r)
  then show ?thesis
    using trcode_from_message_Inr [OF assms] decoded_symbol [OF Inr assms]
    by (auto simp: krx_reference_def instrument_allowed_def krx_consts Let_def split: option.splits)
qed (simp add: krx_reference_def)

lemma krx_decode_too_short:
  "trcode_from_message payload = Inl e \<Longrightarrow> krx_decode payload recv_ns = Inl e \<and> (\<exists>x. e = Err x)"
  by (auto simp: krx_decode_def trcode_from_message_def split: if_splits)

lemma krx_decode_good:
  assumes "krx_decode payload recv_ns = Inr r"
  shows "record_good r \<and> \<not> is_stale (r_header r)"
  using krx_decode_returns [of payload recv_ns] assms by (auto simp: returns_def decoded_def record_good_def)

subsection \<open>The invariant\<close>

text \<open>
  Every datagram is accounted for exactly once, the sink holds one record per published datagram and
  per heartbeat, its drop counter moved by the drops only, the stale counter counts the records that
  carry the flag, and every record in the sink passes the wire's validation.
\<close>

definition pipeline_inv ::
    "('s \<Rightarrow> wire_record list \<Rightarrow> bool) \<Rightarrow> ('s \<Rightarrow> u64) \<Rightarrow> u64 \<Rightarrow> wire_record list \<Rightarrow> 's pipeline \<Rightarrow> bool" where
  "pipeline_inv holds drops d0 log p \<longleftrightarrow>
     (let s = pl_stats p
      in holds (pl_sink p) log \<and>
         ks_received s = ks_published s + stats_dropped s + stats_filtered s \<and>
         of_nat (length log) = ks_published s + ks_heartbeats s \<and>
         drops (pl_sink p) = d0 + stats_dropped s \<and>
         of_nat (length (filter (\<lambda>r. is_stale (r_header r)) log)) = ks_stale s \<and>
         list_all record_good log)"

definition same_config :: "'s pipeline \<Rightarrow> 's pipeline \<Rightarrow> bool" where
  "same_config p q \<longleftrightarrow> pl_trcodes q = pl_trcodes p \<and> pl_isins q = pl_isins p \<and> pl_stale_ns q = pl_stale_ns p"

lemma count_fields [simp]:
  "pl_trcodes (count f p) = pl_trcodes p" "pl_isins (count f p) = pl_isins p"
  "pl_stale_ns (count f p) = pl_stale_ns p" "pl_sink (count f p) = pl_sink p"
  "pl_stats (count f p) = f (pl_stats p)"
  by (simp_all add: count_def)

lemma drop_one_fields [simp]:
  "pl_trcodes (drop_one nd f p) = pl_trcodes p" "pl_isins (drop_one nd f p) = pl_isins p"
  "pl_stale_ns (drop_one nd f p) = pl_stale_ns p" "pl_sink (drop_one nd f p) = nd 1 (pl_sink p)"
  "pl_stats (drop_one nd f p) = f (pl_stats p)"
  by (simp_all add: drop_one_def)

lemma count_sink: "(count f p)\<lparr> pl_sink := s \<rparr> = count f (p\<lparr> pl_sink := s \<rparr>)"
  by (simp add: count_def)

lemmas pipeline_simps = pipeline_inv_def same_config_def Let_def stats_dropped_def
  stats_filtered_def

locale pipeline_sink = record_sink holds buffer publish note_drops drops
  for holds :: "'s \<Rightarrow> wire_record list \<Rightarrow> bool"
    and buffer :: "'s \<Rightarrow> wire_record"
    and publish :: "'s krx_publish"
    and note_drops :: "u64 \<Rightarrow> 's \<Rightarrow> 's"
    and drops :: "'s \<Rightarrow> u64"
begin

lemma inv_filtered:
  assumes "pipeline_inv holds drops d0 log p"
    and "f = ks_filtered_trcode_update (\<lambda>n. n + 1) \<or> f = ks_filtered_isin_update (\<lambda>n. n + 1)"
  shows "pipeline_inv holds drops d0 log (count f (count (ks_received_update (\<lambda>n. n + 1)) p))"
  using assms by (auto simp: pipeline_simps algebra_simps)

lemma inv_dropped:
  assumes "pipeline_inv holds drops d0 log p"
    and "f \<in> {ks_too_short_update (\<lambda>n. n + 1), ks_unknown_trcode_update (\<lambda>n. n + 1),
           ks_wrong_length_update (\<lambda>n. n + 1), ks_decode_failed_update (\<lambda>n. n + 1)}"
  shows "pipeline_inv holds drops d0 log (drop_one note_drops f (count (ks_received_update (\<lambda>n. n + 1)) p))"
  using assms note_drops [of "pl_sink p" log 1] by (auto simp: pipeline_simps algebra_simps)

lemma ingest_publish:
  assumes inv: "pipeline_inv holds drops d0 log p" and room: "Suc (length log) < 2 ^ 64"
  defines "p1 \<equiv> count (ks_received_update (\<lambda>n. n + 1)) p"
  shows "\<exists>res p'. publish_datagram publish note_drops payload recv_ns index p1 = Inr (res, p') \<and> same_config p p' \<and>
    ks_received (pl_stats p') = ks_received (pl_stats p) + 1 \<and>
    (case krx_decode payload recv_ns of
       Inr r \<Rightarrow> published res \<and> ks_published (pl_stats p') = ks_published (pl_stats p) + 1 \<and>
         pipeline_inv holds drops d0
           (log @ [set_seq (of_nat (length log)) (fst (mark_stale r recv_ns (pl_stale_ns p)))]) p'
     | Inl _ \<Rightarrow> \<not> published res \<and> ks_published (pl_stats p') = ks_published (pl_stats p) \<and>
         pipeline_inv holds drops d0 log p')"
proof -
  obtain sink' res r where fill: "krx_fill payload recv_ns (pl_stale_ns p) (buffer (pl_sink p)) = (r, res)"
    and pub: "publish (krx_fill payload recv_ns (pl_stale_ns p)) (pl_sink p) = (res, sink')"
    and holds: "holds sink' (case res of Inr _ \<Rightarrow> log @ [set_seq (of_nat (length log)) r] | Inl _ \<Rightarrow> log)"
      "drops sink' = drops (pl_sink p)"
  proof -
    obtain r res where fill: "krx_fill payload recv_ns (pl_stale_ns p) (buffer (pl_sink p)) = (r, res)"
      by fastforce
    then show ?thesis
      using publish_spec [of "pl_sink p" log "krx_fill payload recv_ns (pl_stale_ns p)" r res] inv room that
      by (auto simp: pipeline_inv_def Let_def)
  qed
  show ?thesis
  proof (cases "krx_decode payload recv_ns")
    case (Inl e)
    then obtain x where e: "e = Err x"
      using krx_decode_returns [of payload recv_ns] by (cases e) (auto simp: returns_def)
    have res: "res = Inl (Err x)"
      using fill Inl e by (simp add: krx_fill_def)
    have "pipeline_inv holds drops d0 log (p\<lparr> pl_sink := sink' \<rparr>)"
      using inv holds res by (simp add: pipeline_inv_def Let_def)
    from inv_dropped [OF this, of "ks_decode_failed_update (\<lambda>n. n + 1)"] show ?thesis
      using pub res Inl by (simp add: publish_datagram_def p1_def same_config_def Let_def count_sink)
  next
    case (Inr d)
    have res: "res = Inr (snd (mark_stale d recv_ns (pl_stale_ns p)))"
      "r = fst (mark_stale d recv_ns (pl_stale_ns p))"
      using fill Inr by (auto simp: krx_fill_def split: prod.splits)
    have good: "record_good r" "is_stale (r_header r) = snd (mark_stale d recv_ns (pl_stale_ns p))"
      using krx_decode_good [OF Inr] res by (simp_all add: mark_stale_good mark_stale_flag)
    show ?thesis
      using pub res Inr inv holds good
      by (auto simp: publish_datagram_def p1_def pipeline_simps count_sink algebra_simps)
  qed
qed

lemma ingest_step:
  assumes inv: "pipeline_inv holds drops d0 log p" and room: "Suc (length log) < 2 ^ 64"
  shows "\<exists>res p'. ingest publish note_drops payload recv_ns p = Inr (res, p') \<and> same_config p p' \<and>
    ks_received (pl_stats p') = ks_received (pl_stats p) + 1 \<and>
    (case krx_reference (pl_trcodes p) (pl_isins p) (pl_stale_ns p) payload recv_ns of
       Some r \<Rightarrow> published res \<and> ks_published (pl_stats p') = ks_published (pl_stats p) + 1 \<and>
         pipeline_inv holds drops d0 (log @ [set_seq (of_nat (length log)) r]) p'
     | None \<Rightarrow> \<not> published res \<and> ks_published (pl_stats p') = ks_published (pl_stats p) \<and>
         pipeline_inv holds drops d0 log p')"
proof (cases "trcode_from_message payload")
  case (Inl e)
  then show ?thesis
    using krx_decode_too_short [OF Inl, of recv_ns] inv_dropped [OF inv]
    by (auto simp: ingest_def krx_reference_def Let_def same_config_def)
next
  case (Inr code)
  note ref = krx_reference_eq [OF Inr]
  show ?thesis
  proof (cases "index_of (pl_trcodes p) code")
    case None
    then show ?thesis
      using Inr inv_filtered [OF inv] by (simp add: ingest_def ref filter_keeps_def Let_def same_config_def)
  next
    case (Some index)
    show ?thesis
    proof (cases "krx_message_len code = Some (length payload)")
      case False
      then obtain e where "krx_decode payload recv_ns = Inl e"
        using krx_decode_returns [of payload recv_ns] Inr by (cases "krx_decode payload recv_ns") (auto simp: returns_def)
      then have "krx_reference (pl_trcodes p) (pl_isins p) (pl_stale_ns p) payload recv_ns = None"
        by (simp add: ref)
      then show ?thesis
        using Inr Some False inv_dropped [OF inv]
        by (cases "krx_message_len code") (simp_all add: ingest_def Let_def same_config_def)
    next
      case len: True
      show ?thesis
      proof (cases "instrument_allowed (pl_isins p) code payload")
        case True
        then show ?thesis
          using ingest_publish [OF inv room, of payload recv_ns index] Inr Some len
          by (cases "krx_decode payload recv_ns") (simp_all add: ingest_def Let_def ref filter_keeps_def isin_check_eq)
      next
        case False
        then show ?thesis
          using Inr Some len inv_filtered [OF inv]
          by (simp add: ingest_def ref Let_def same_config_def isin_check_eq)
      qed
    qed
  qed
qed

lemma heartbeat_step:
  assumes inv: "pipeline_inv holds drops d0 log p" and room: "Suc (length log) < 2 ^ 64"
    and r_def: "r = heartbeat_record (ks_received (pl_stats p)) (ks_published (pl_stats p)) now"
  shows "pipeline_inv holds drops d0 (log @ [set_seq (of_nat (length log)) r]) (heartbeat publish now p) \<and>
    same_config p (heartbeat publish now p) \<and>
    ks_received (pl_stats (heartbeat publish now p)) = ks_received (pl_stats p) \<and>
    ks_published (pl_stats (heartbeat publish now p)) = ks_published (pl_stats p)"
proof -
  obtain sink' where pub: "publish (\<lambda>_. (r, Inr False)) (pl_sink p) = (Inr False, sink')"
    "drops sink' = drops (pl_sink p)" "holds sink' (log @ [set_seq (of_nat (length log)) r])"
    using publish_spec [of "pl_sink p" log "\<lambda>_. (r, Inr False)" r "Inr False"] inv room
    by (auto simp: pipeline_inv_def Let_def)
  have "record_good r" "\<not> is_stale (r_header r)"
    by (simp_all add: r_def heartbeat_record_good heartbeat_not_stale)
  then show ?thesis
    using pub inv unfolding heartbeat_def r_def [symmetric]
    by (simp add: pipeline_simps algebra_simps)
qed

lemma run_spec:
  assumes "pipeline_inv holds drops d0 log p" and "Suc (length log + length es) < 2 ^ 64"
  defines "tr \<equiv> \<lambda>q es. krx_trace (pl_trcodes q) (pl_isins q) (pl_stale_ns q) (ks_received (pl_stats q))
      (ks_published (pl_stats q)) es"
  shows "\<exists>p'. pipeline_run publish note_drops es p = Inr p' \<and>
    pipeline_inv holds drops d0 (log @ stamp_from (length log) (tr p es)) p'"
  using assms(1,2)
proof (induction es arbitrary: p log)
  case Nil
  then show ?case
    by (simp add: tr_def)
next
  case (Cons e es)
  have room: "Suc (length log) < 2 ^ 64"
    using Cons.prems(2) by simp
  have next_state: "\<exists>p'. pipeline_run publish note_drops (e # es) p = Inr p' \<and>
      pipeline_inv holds drops d0 (log @ stamp_from (length log) (rs @ tr q es)) p'"
    if "pipeline_step publish note_drops e p = Inr q"
      "pipeline_inv holds drops d0 (log @ stamp_from (length log) rs) q" "length rs \<le> 1" for q rs
    using Cons.IH [OF that(2)] that Cons.prems(2) by (cases rs) (auto simp: Suc_le_eq)
  show ?case
  proof (cases e)
    case (Datagram payload recv_ns)
    let ?ref = "krx_reference (pl_trcodes p) (pl_isins p) (pl_stale_ns p) payload recv_ns"
    obtain res q where q: "ingest publish note_drops payload recv_ns p = Inr (res, q)" "same_config p q"
      "ks_received (pl_stats q) = ks_received (pl_stats p) + 1"
      "case ?ref of
         Some r \<Rightarrow> published res \<and> ks_published (pl_stats q) = ks_published (pl_stats p) + 1 \<and>
           pipeline_inv holds drops d0 (log @ [set_seq (of_nat (length log)) r]) q
       | None \<Rightarrow> \<not> published res \<and> ks_published (pl_stats q) = ks_published (pl_stats p) \<and>
           pipeline_inv holds drops d0 log q"
      using ingest_step [OF Cons.prems(1) room, of payload recv_ns] by blast
    have "pipeline_step publish note_drops e p = Inr q"
      using q(1) by (simp add: pipeline_step_def Datagram)
    moreover have "tr p (e # es) = (case ?ref of Some r \<Rightarrow> [r] | None \<Rightarrow> []) @ tr q es"
      using q by (auto simp: tr_def Datagram same_config_def split: option.splits)
    ultimately show ?thesis
      using next_state [of q "case ?ref of Some r \<Rightarrow> [r] | None \<Rightarrow> []"] q(4) by (auto split: option.splits)
  next
    case (Beat now)
    let ?r = "heartbeat_record (ks_received (pl_stats p)) (ks_published (pl_stats p)) now"
    have "tr p (e # es) = [?r] @ tr (heartbeat publish now p) es"
      using heartbeat_step [OF Cons.prems(1) room refl, of now] by (simp add: tr_def Beat same_config_def)
    then show ?thesis
      using next_state [of "heartbeat publish now p" "[?r]"] heartbeat_step [OF Cons.prems(1) room refl, of now]
      by (simp add: pipeline_step_def Beat)
  next
    case SocketError
    have "pipeline_inv holds drops d0 log (note_socket_error p)"
      using Cons.prems(1) by (simp add: pipeline_simps note_socket_error_def)
    moreover have "tr p (e # es) = tr (note_socket_error p) es"
      by (simp add: tr_def SocketError note_socket_error_def)
    ultimately show ?thesis
      using next_state [of "note_socket_error p" "[]"] by (simp add: pipeline_step_def SocketError)
  qed
qed

end

interpretation krx_ring: pipeline_sink ring_holds ring_buffer ring_sink_publish ring_sink_note_drops ring_sink_drops
  by unfold_locales

lemma pipeline_new_inv:
  "ring_holds s [] \<Longrightarrow> pipeline_inv ring_holds ring_sink_drops (ring_sink_drops s) [] (pipeline_new t i st s)"
  by (simp add: pipeline_simps pipeline_new_def stats_default_def)

subsection \<open>The pipeline on the ring\<close>

text \<open>
  C12. Filtering before decoding changes nothing but the cost: on the ring, one datagram never panics
  and publishes exactly the record that decoding it first and filtering the decoded record
  afterwards would give, under the next sequence; otherwise nothing is published.
\<close>

theorem ingest_is_reference:
  assumes "pipeline_inv ring_holds ring_sink_drops d0 log p" and "Suc (length log) < 2 ^ 64"
  shows "\<exists>res p'. ingest ring_sink_publish ring_sink_note_drops payload recv_ns p = Inr (res, p') \<and>
    ring_holds (pl_sink p')
      (case krx_reference (pl_trcodes p) (pl_isins p) (pl_stale_ns p) payload recv_ns of
         Some r \<Rightarrow> log @ [set_seq (of_nat (length log)) r] | None \<Rightarrow> log) \<and>
    (published res \<longleftrightarrow> krx_reference (pl_trcodes p) (pl_isins p) (pl_stale_ns p) payload recv_ns \<noteq> None)"
  using krx_ring.ingest_step [OF assms, of payload recv_ns]
  by (auto simp: pipeline_inv_def Let_def split: option.splits)

text \<open>A ring of four slots, and a pipeline on it that keeps the codes given.\<close>

definition demo_sink :: ring_sink where
  "demo_sink = (demo_producer 4 0, demo_segment 7 0 [record_zeroed, record_zeroed, record_zeroed, record_zeroed])"

definition demo_pipeline :: "trcode list \<Rightarrow> ring_sink pipeline" where
  "demo_pipeline cs = pipeline_new (trcode_filter_new cs) isin_filter_all 500000000 demo_sink"

lemma demo_pipeline_inv:
  "pipeline_inv ring_holds ring_sink_drops (ring_sink_drops demo_sink) [] (demo_pipeline cs)"
  unfolding demo_pipeline_def by (rule pipeline_new_inv) (use demo_holds in \<open>simp add: demo_sink_def\<close>)

lemma blank_schedule_code:
  "trcode_from_message blank_schedule = Inr (TrCode [0x4D, 0x34, 0x30, 0x31, 0x46])"
  by (simp add: blank_schedule_def trcode_from_message_def krx_consts)

lemma blank_schedule_reference:
  "\<exists>r. krx_reference (trcode_filter_new [TrCode [0x4D, 0x34, 0x30, 0x31, 0x46]]) isin_filter_all st blank_schedule 5 = Some r"
proof -
  obtain r where "krx_decode blank_schedule 5 = Inr r"
    using blank_schedule_decodes [of 5] by blast
  moreover have "isin_offset (TrCode [0x4D, 0x34, 0x30, 0x31, 0x46]) = None"
    by (simp add: isin_offset_def data_class_def)
  ultimately show ?thesis
    using trcode_filter_new_keeps [of "[TrCode [0x4D, 0x34, 0x30, 0x31, 0x46]]" "TrCode [0x4D, 0x34, 0x30, 0x31, 0x46]"]
    by (simp add: krx_reference_eq [OF blank_schedule_code] instrument_allowed_def trcode_ok_def)
qed

theorem ingest_is_reference_witness:
  "\<exists>res p'. ingest ring_sink_publish ring_sink_note_drops blank_schedule 5
      (demo_pipeline [TrCode [0x4D, 0x34, 0x30, 0x31, 0x46]]) = Inr (res, p') \<and> published res"
proof -
  have "pl_trcodes (demo_pipeline cs) = trcode_filter_new cs" "pl_isins (demo_pipeline cs) = isin_filter_all" for cs
    by (simp_all add: demo_pipeline_def pipeline_new_def)
  then show ?thesis
    using ingest_is_reference [OF demo_pipeline_inv [of "[TrCode [0x4D, 0x34, 0x30, 0x31, 0x46]]"], of blank_schedule 5]
      blank_schedule_reference by force
qed

text \<open>
  C15. The invariant of the receive path, kept by every datagram, heartbeat and socket error: each
  received datagram is published, dropped or filtered, exactly one of the three; the ring holds one
  record per published datagram and per heartbeat and never loses one; the shared drop counter has
  moved by exactly the drops; the stale counter is the number of records that carry the flag; and
  every record in the ring is laid out and passes the wire's validation.
\<close>

theorem pipeline_accounts:
  assumes "pipeline_inv ring_holds ring_sink_drops d0 log p" and "Suc (Suc (length log)) < 2 ^ 64"
  shows "\<exists>p' log'. pipeline_step ring_sink_publish ring_sink_note_drops e p = Inr p' \<and>
    pipeline_inv ring_holds ring_sink_drops d0 (log @ log') p'"
  using krx_ring.run_spec [OF assms(1), of "[e]"] assms(2) by (force simp: and_then_Inr_iff)

theorem pipeline_accounts_witness:
  "\<exists>p' log'. pipeline_step ring_sink_publish ring_sink_note_drops (Beat 9) (demo_pipeline []) = Inr p' \<and>
     pipeline_inv ring_holds ring_sink_drops (ring_sink_drops demo_sink) log' p'"
  using pipeline_accounts [OF demo_pipeline_inv [of "[]"], of "Beat 9"] by simp

text \<open>
  C3. A whole run refines the abstract machine of two counters: from a fresh ring, any sequence of
  datagrams, heartbeats and socket errors ends without a panic, and the ring holds exactly the
  records of the machine, numbered from zero: what the reference yields for each datagram, and for
  each heartbeat the datagrams received and the records published before it.
\<close>

theorem pipeline_run_refines:
  assumes "ring_holds s []" and "Suc (length es) < 2 ^ 64"
  shows "\<exists>p'. pipeline_run ring_sink_publish ring_sink_note_drops es (pipeline_new t i st s) = Inr p' \<and>
    ring_holds (pl_sink p') (stamp_from 0 (krx_trace t i st 0 0 es)) \<and>
    ks_received (pl_stats p') =
      ks_published (pl_stats p') + stats_dropped (pl_stats p') + stats_filtered (pl_stats p')"
  using krx_ring.run_spec [OF pipeline_new_inv [OF assms(1), of t i st], of es] assms(2)
  by (auto simp: pipeline_inv_def Let_def pipeline_new_def stats_default_def)

theorem pipeline_run_refines_witness:
  "\<exists>p'. pipeline_run ring_sink_publish ring_sink_note_drops [Beat 3, Datagram [0x42] 4, Beat 9]
      (pipeline_new trcode_filter_none isin_filter_all 0 demo_sink) = Inr p' \<and>
    ring_holds (pl_sink p') [set_seq 0 (heartbeat_record 0 0 3), set_seq 1 (heartbeat_record 1 0 9)]"
proof -
  have "ring_holds demo_sink []"
    using demo_holds by (simp add: demo_sink_def)
  moreover have "krx_reference t i st [0x42] 4 = None" for t i st
    by (simp add: krx_reference_def krx_decode_def trcode_from_message_def krx_consts)
  ultimately show ?thesis
    using pipeline_run_refines [of demo_sink "[Beat 3, Datagram [0x42] 4, Beat 9]" trcode_filter_none isin_filter_all 0]
    by auto
qed

end
