(* ===== verification/Fix_Adapter.thy ===== *)
theory Fix_Adapter
  imports Fix_Market_Data Krx_Pipeline
begin

text \<open>
  The venue layer of a FIX feed. \<open>MdAdapter\<close> (\<open>crates/jeed-fix/src/recv/pipeline.rs\<close>) is a locale: what
  the pipeline relies on of any adapter; \<open>SnapshotAdapter\<close> (\<open>crates/jeed/src/fix.rs\<close>), which turns a
  full refresh into a quote and a trade into a trade, is its model. An adapter sees its sink only
  through \<open>publish\<close>, so its operations take that function and the state of the sink behind it.
\<close>

subsection \<open>The adapter (fix.rs)\<close>

datatype adapt_error = IncrementalBook | NoSize | NoSymbol | SymbolTooLong

record snapshot_adapter =
  sa_venue :: venue
  sa_scales :: fix_scales
  sa_default_qty :: "u64 option"

definition snapshot_adapter_new :: "venue \<Rightarrow> fix_scales \<Rightarrow> u64 option \<Rightarrow> snapshot_adapter" where
  "snapshot_adapter_new venue scales default_qty =
     \<lparr> sa_venue = venue, sa_scales = scales, sa_default_qty = default_qty \<rparr>"

definition size_of :: "snapshot_adapter \<Rightarrow> md_entry \<Rightarrow> (adapt_error, u64) res" where
  "size_of ad e = (if e_has_size e then Inr (e_size e) else ok_or (Err NoSize) (sa_default_qty ad))"

definition fix_wire_symbol :: "bytes \<Rightarrow> (adapt_error, bytes) res" where
  "fix_wire_symbol symbol =
     (if symbol = [] then Inl (Err NoSymbol) else ok_or (Err SymbolTooLong) (symbol_from_bytes symbol))"

text \<open>Indexing the level arrays; the only failure of a setter is the panic.\<close>

definition in_bounds :: "(wire_error, 'a) res \<Rightarrow> (adapt_error, 'a) res" where
  "in_bounds r = (case r of Inl _ \<Rightarrow> Inl Panic | Inr x \<Rightarrow> Inr x)"

text \<open>The loop of \<open>snapshot\<close> over the entries; its state is \<open>quote\<close> and \<open>depth\<close>.\<close>

fun snapshot_levels ::
    "snapshot_adapter \<Rightarrow> md_entry list \<Rightarrow> quote_payload \<times> nat \<Rightarrow> (adapt_error, quote_payload \<times> nat) res" where
  "snapshot_levels ad [] s = Inr s"
| "snapshot_levels ad (e # es) (quote, depth) =
     (if e_type e \<noteq> MdBid \<and> e_type e \<noteq> MdOffer then snapshot_levels ad es (quote, depth)
      else
        let level = unat (e_level e)
        in if level \<ge> WIRE_MAX_DEPTH then snapshot_levels ad es (quote, depth)
           else
             and_then (size_of ad e) (\<lambda>qty.
               let wire = level_new (e_price e) qty
               in and_then (in_bounds (if e_type e = MdBid then set_bid level wire quote else set_ask level wire quote))
                    (\<lambda>quote. snapshot_levels ad es (quote, max depth (level + 1)))))"

definition snapshot_header :: "snapshot_adapter \<Rightarrow> md_message \<Rightarrow> bytes \<Rightarrow> nat \<Rightarrow> u64 \<Rightarrow> record_header" where
  "snapshot_header ad msg symbol depth recv_ns =
     (let h = header_new Quote (sa_venue ad) symbol recv_ns;
          h = set_scales (fs_price (sa_scales ad)) (fs_quantity (sa_scales ad)) h;
          h = set_depth (word_of_nat depth) h;
          h = (case md_venue_time msg of Some venue_ns \<Rightarrow> set_venue_time venue_ns h | None \<Rightarrow> h);
          h = (if md_side_depth msg MdBid = 0 then set_flags BID_EMPTY h else h)
      in if md_side_depth msg MdOffer = 0 then set_flags ASK_EMPTY h else h)"

type_synonym ('e, 't) adapter_publish = "(wire_record \<Rightarrow> wire_record \<times> ('e + unit)) \<Rightarrow> 't \<Rightarrow> ('e + unit) \<times> 't"

text \<open>\<open>sink.publish(|rec| \{ *rec = r; Ok(()) \})?\<close>, then \<open>next\<close>.\<close>

definition publish_then ::
    "('e, 't) adapter_publish \<Rightarrow> wire_record \<Rightarrow> 't \<Rightarrow> ('t \<Rightarrow> ('e, nat) res \<times> 't) \<Rightarrow> ('e, nat) res \<times> 't" where
  "publish_then publish r t nxt =
     (case publish (\<lambda>_. (r, Inr ())) t of (Inl e, t) \<Rightarrow> (Inl (Err e), t) | (Inr _, t) \<Rightarrow> nxt t)"

definition adapter_snapshot ::
    "snapshot_adapter \<Rightarrow> (adapt_error, 't) adapter_publish \<Rightarrow> md_message \<Rightarrow> u64 \<Rightarrow> 't \<Rightarrow> (adapt_error, nat) res \<times> 't" where
  "adapter_snapshot ad publish msg recv_ns t =
     (case and_then (fix_wire_symbol (fix_text_bytes (m_symbol msg))) (\<lambda>symbol.
             map_ok (\<lambda>(quote, depth). (symbol, quote, depth)) (snapshot_levels ad (md_entries msg) (quote_default, 0))) of
        Inl e \<Rightarrow> (Inl e, t)
      | Inr (symbol, quote, depth) \<Rightarrow>
          publish_then publish (new_quote (snapshot_header ad msg symbol depth recv_ns) quote) t (\<lambda>t. (Inr 1, t)))"

definition trade_header :: "snapshot_adapter \<Rightarrow> md_entry \<Rightarrow> bytes \<Rightarrow> u64 \<Rightarrow> record_header" where
  "trade_header ad e symbol recv_ns =
     (let h = header_new Trade (sa_venue ad) symbol recv_ns;
          h = set_scales (fs_price (sa_scales ad)) (fs_quantity (sa_scales ad)) h
      in case entry_venue_time e of Some venue_ns \<Rightarrow> set_venue_time venue_ns h | None \<Rightarrow> h)"

text \<open>The loop of \<open>incremental\<close>; its state is \<open>published\<close> and the sink.\<close>

fun adapter_incremental ::
    "snapshot_adapter \<Rightarrow> (adapt_error, 't) adapter_publish \<Rightarrow> md_message \<Rightarrow> u64 \<Rightarrow> md_entry list \<Rightarrow> nat \<Rightarrow> 't \<Rightarrow>
     (adapt_error, nat) res \<times> 't" where
  "adapter_incremental ad publish msg recv_ns [] sent t = (Inr sent, t)"
| "adapter_incremental ad publish msg recv_ns (e # es) sent t =
     (if e_type e = MdBid \<or> e_type e = MdOffer then (Inl (Err IncrementalBook), t)
      else if e_type e \<noteq> MdTrade then adapter_incremental ad publish msg recv_ns es sent t
      else
        case and_then (fix_wire_symbol (md_entry_symbol msg e)) (\<lambda>symbol.
               map_ok (\<lambda>qty. (symbol, trade_new (e_price e) qty)) (size_of ad e)) of
          Inl err \<Rightarrow> (Inl err, t)
        | Inr (symbol, payload) \<Rightarrow>
            publish_then publish (new_trade (trade_header ad e symbol recv_ns) payload) t
              (adapter_incremental ad publish msg recv_ns es (sent + 1)))"

definition adapter_adapt ::
    "snapshot_adapter \<Rightarrow> (adapt_error, 't) adapter_publish \<Rightarrow> md_message \<Rightarrow> u64 \<Rightarrow> 't \<Rightarrow>
     (adapt_error, nat) res \<times> snapshot_adapter \<times> 't" where
  "adapter_adapt ad publish msg recv_ns t =
     (case (if md_is_snapshot msg then adapter_snapshot ad publish msg recv_ns t
            else adapter_incremental ad publish msg recv_ns (md_entries msg) 0 t) of
        (res, t) \<Rightarrow> (res, ad, t))"

text \<open>An adapter as the pipeline sees it: \<open>venue\<close>, \<open>scales\<close> and \<open>adapt\<close>.\<close>

record ('a, 'e, 't) md_adapter_ops =
  ao_venue :: "'a \<Rightarrow> venue"
  ao_scales :: "'a \<Rightarrow> fix_scales"
  ao_adapt :: "'a \<Rightarrow> ('e, 't) adapter_publish \<Rightarrow> md_message \<Rightarrow> u64 \<Rightarrow> 't \<Rightarrow> ('e, nat) res \<times> 'a \<times> 't"

definition snapshot_ops :: "(snapshot_adapter, adapt_error, 't) md_adapter_ops" where
  "snapshot_ops = \<lparr> ao_venue = sa_venue, ao_scales = sa_scales, ao_adapt = adapter_adapt \<rparr>"

subsection \<open>The interfaces\<close>

text \<open>
  A sink as an adapter sees it: a closure that overwrites the record with a valid one publishes that
  record, changed by \<open>mark\<close>, under the next sequence.
\<close>

locale marking_sink =
  fixes holds :: "'t \<Rightarrow> wire_record list \<Rightarrow> bool"
    and publish :: "('e, 't) adapter_publish"
    and mark :: "wire_record \<Rightarrow> wire_record"
  assumes publish_const:
    "holds t log \<Longrightarrow> Suc (length log) < 2 ^ 64 \<Longrightarrow> record_good r \<Longrightarrow> \<not> is_stale (r_header r) \<Longrightarrow>
     fst (publish (\<lambda>_. (r, Inr ())) t) = Inr () \<and>
     holds (snd (publish (\<lambda>_. (r, Inr ())) t)) (log @ [set_seq (of_nat (length log)) (mark r)])"

text \<open>
  What an adapter promises: through any such sink it publishes the records a message implies, in
  order, each of them valid and not yet marked stale; when it accepts the message it returns their
  number, and it does not panic.
\<close>

locale md_adapter =
  fixes ops :: "('a, 'e, 't) md_adapter_ops"
    and implied :: "'a \<Rightarrow> md_message \<Rightarrow> u64 \<Rightarrow> wire_record list"
    and capacity :: nat
  assumes adapts:
      "marking_sink holds publish mark \<Longrightarrow> holds t log \<Longrightarrow>
       Suc (length log + length (implied a msg recv_ns)) < 2 ^ 64 \<Longrightarrow>
       \<exists>res a' t'. ao_adapt ops a publish msg recv_ns t = (res, a', t') \<and>
         holds t' (log @ stamp_from (length log) (map mark (implied a msg recv_ns))) \<and>
         res \<noteq> Inl Panic \<and> (\<forall>n. res = Inr n \<longrightarrow> n = length (implied a msg recv_ns))"
    and implied_good: "r \<in> set (implied a msg recv_ns) \<Longrightarrow> record_good r \<and> \<not> is_stale (r_header r)"
    and implied_length: "length (implied a msg recv_ns) \<le> capacity"

subsection \<open>What SnapshotAdapter implies\<close>

text \<open>The records of a message and how its mapping ends, without a sink.\<close>

definition snapshot_records :: "snapshot_adapter \<Rightarrow> md_message \<Rightarrow> u64 \<Rightarrow> wire_record list \<times> (adapt_error, unit) res" where
  "snapshot_records ad msg recv_ns =
     (case fix_wire_symbol (fix_text_bytes (m_symbol msg)) of
        Inl e \<Rightarrow> ([], Inl e)
      | Inr symbol \<Rightarrow>
          case snapshot_levels ad (md_entries msg) (quote_default, 0) of
            Inl e \<Rightarrow> ([], Inl e)
          | Inr (quote, depth) \<Rightarrow> ([new_quote (snapshot_header ad msg symbol depth recv_ns) quote], Inr ()))"

fun trade_records ::
    "snapshot_adapter \<Rightarrow> md_message \<Rightarrow> u64 \<Rightarrow> md_entry list \<Rightarrow> wire_record list \<times> (adapt_error, unit) res" where
  "trade_records ad msg recv_ns [] = ([], Inr ())"
| "trade_records ad msg recv_ns (e # es) =
     (if e_type e = MdBid \<or> e_type e = MdOffer then ([], Inl (Err IncrementalBook))
      else if e_type e \<noteq> MdTrade then trade_records ad msg recv_ns es
      else
        case fix_wire_symbol (md_entry_symbol msg e) of
          Inl err \<Rightarrow> ([], Inl err)
        | Inr symbol \<Rightarrow>
            case size_of ad e of
              Inl err \<Rightarrow> ([], Inl err)
            | Inr qty \<Rightarrow>
                case trade_records ad msg recv_ns es of
                  (rs, fin) \<Rightarrow> (new_trade (trade_header ad e symbol recv_ns) (trade_new (e_price e) qty) # rs, fin))"

definition adapter_records :: "snapshot_adapter \<Rightarrow> md_message \<Rightarrow> u64 \<Rightarrow> wire_record list \<times> (adapt_error, unit) res" where
  "adapter_records ad msg recv_ns =
     (if md_is_snapshot msg then snapshot_records ad msg recv_ns
      else trade_records ad msg recv_ns (md_entries msg))"

definition adapter_implied :: "snapshot_adapter \<Rightarrow> md_message \<Rightarrow> u64 \<Rightarrow> wire_record list" where
  "adapter_implied ad msg recv_ns = fst (adapter_records ad msg recv_ns)"

subsection \<open>The records are valid\<close>

lemma size_of_no_panic: "size_of ad e \<noteq> Inl Panic"
  by (simp add: size_of_def ok_or_def split: option.split)

lemma fix_wire_symbol_cases:
  "fix_wire_symbol s \<noteq> Inl Panic" "fix_wire_symbol s = Inr symbol \<Longrightarrow> length symbol = 24"
  by (auto simp: fix_wire_symbol_def symbol_from_bytes_def ok_or_def SYMBOL_LEN_def split: if_splits)

text \<open>A quote whose levels were set is laid out, and its depth is at most ten.\<close>

definition quote_plain :: "quote_payload \<Rightarrow> bool" where
  "quote_plain q \<longleftrightarrow> quote_payload_ok q \<and> q_level_ext_kind q = 0 \<and> q_quote_ext_kind q = 0"

lemma quote_default_plain: "quote_plain quote_default"
  by (simp add: quote_plain_def quote_default_eq quote_payload_ok_def array_ok_def)

lemma set_level_plain:
  assumes "quote_plain q" and "i < 10"
  obtains q' where "in_bounds (if b then set_bid i l q else set_ask i l q) = Inr q'" "quote_plain q'"
    "q_bid q' = (if b then (q_bid q)[i := l] else q_bid q)" "q_ask q' = (if b then q_ask q else (q_ask q)[i := l])"
proof
  show "in_bounds (if b then set_bid i l q else set_ask i l q) =
      Inr (if b then q\<lparr> q_bid := (q_bid q)[i := l] \<rparr> else q\<lparr> q_ask := (q_ask q)[i := l] \<rparr>)"
    using assms(2) by (simp add: in_bounds_def set_bid_def set_ask_def wire_consts)
qed (use assms(1) in \<open>auto simp: quote_plain_def quote_payload_ok_def array_ok_def\<close>)

lemma snapshot_levels_skip:
  "\<not> (is_book_side (e_type e) \<and> unat (e_level e) < 10) \<Longrightarrow>
     snapshot_levels ad (e # es) (q, d) = snapshot_levels ad es (q, d)"
  by (cases "e_type e = MdBid"; cases "e_type e = MdOffer"; simp add: is_book_side_def wire_consts Let_def flip: not_less)

lemma snapshot_levels_err:
  "is_book_side (e_type e) \<Longrightarrow> unat (e_level e) < 10 \<Longrightarrow> size_of ad e = Inl err \<Longrightarrow>
     snapshot_levels ad (e # es) (q, d) = Inl err"
  by (cases "e_type e = MdBid"; cases "e_type e = MdOffer"; simp add: is_book_side_def wire_consts Let_def flip: not_less)

lemma snapshot_levels_set:
  "is_book_side (e_type e) \<Longrightarrow> unat (e_level e) < 10 \<Longrightarrow> size_of ad e = Inr qty \<Longrightarrow>
     in_bounds (if e_type e = MdBid then set_bid (unat (e_level e)) (level_new (e_price e) qty) q
       else set_ask (unat (e_level e)) (level_new (e_price e) qty) q) = Inr q' \<Longrightarrow>
     snapshot_levels ad (e # es) (q, d) = snapshot_levels ad es (q', max d (unat (e_level e) + 1))"
  by (cases "e_type e = MdBid"; cases "e_type e = MdOffer"; simp add: is_book_side_def wire_consts Let_def flip: not_less)

declare snapshot_levels.simps(2) [simp del]

lemma snapshot_levels_plain:
  assumes "quote_plain q" and "d \<le> 10"
  shows "snapshot_levels ad es (q, d) \<noteq> Inl Panic \<and>
    (\<forall>q' d'. snapshot_levels ad es (q, d) = Inr (q', d') \<longrightarrow> quote_plain q' \<and> d' \<le> 10)"
  using assms
proof (induction es arbitrary: q d)
  case Nil
  then show ?case
    by simp
next
  case (Cons e es)
  show ?case
  proof (cases "is_book_side (e_type e) \<and> unat (e_level e) < 10")
    case False
    then show ?thesis
      using Cons.IH [OF Cons.prems] snapshot_levels_skip [of e ad es q d] by simp
  next
    case True
    show ?thesis
    proof (cases "size_of ad e")
      case (Inl err)
      then have "snapshot_levels ad (e # es) (q, d) = Inl err" "err \<noteq> Panic"
        using True size_of_no_panic [of ad e] by (auto simp: snapshot_levels_err)
      then show ?thesis
        by simp
    next
      case (Inr qty)
      obtain q' where q': "in_bounds (if e_type e = MdBid then set_bid (unat (e_level e)) (level_new (e_price e) qty) q
          else set_ask (unat (e_level e)) (level_new (e_price e) qty) q) = Inr q'" "quote_plain q'"
        by (rule set_level_plain [OF Cons.prems(1) conjunct2 [OF True], where b = "e_type e = MdBid" and l = "level_new (e_price e) qty"])
      have step: "snapshot_levels ad (e # es) (q, d) = snapshot_levels ad es (q', max d (unat (e_level e) + 1))"
        using True Inr q'(1) by (intro snapshot_levels_set) simp_all
      have "max d (unat (e_level e) + 1) \<le> 10"
        using True Cons.prems(2) by simp
      from Cons.IH [OF q'(2) this] show ?thesis
        unfolding step .
    qed
  qed
qed

lemma header_facts:
  assumes "length symbol = 24" and "h = header_new k v symbol recv_ns"
  shows "header_ok h" "header_validate h = Inr ()" "h_flags h = 0" "h_kind h = kind_as_u8 k"
  using assms header_new_valid [of k v symbol recv_ns] by (simp_all add: header_ok_def header_new_def HEADER_ZEROED_def)

lemma snapshot_header_facts:
  fixes ad :: snapshot_adapter and msg :: md_message and recv_ns :: u64
  assumes "length symbol = 24" and "depth \<le> 10"
  defines "h \<equiv> snapshot_header ad msg symbol depth recv_ns"
  shows "header_ok h" "header_validate h = Inr ()" "h_kind h = kind_as_u8 Quote" "h_venue h = venue_as_u8 (sa_venue ad)"
    "h_symbol h = symbol" "h_recv_ns h = recv_ns" "unat (h_depth h) = depth" "\<not> is_stale h"
    "has_flags h BID_EMPTY \<longleftrightarrow> md_side_depth msg MdBid = 0" "has_flags h ASK_EMPTY \<longleftrightarrow> md_side_depth msg MdOffer = 0"
    "has_flags h VENUE_TIME_VALID \<longleftrightarrow> md_venue_time msg \<noteq> None"
    "md_venue_time msg = Some t \<Longrightarrow> h_venue_ns h = t"
    "h_price_scale h = scale_decimals (fs_price (sa_scales ad))" "h_qty_scale h = scale_decimals (fs_quantity (sa_scales ad))"
proof -
  have depth: "unat (word_of_nat depth :: u8) = depth"
    using assms(2) by (simp add: unsigned_of_nat take_bit_nat_eq_self)
  have kinds: "\<exists>k. kind_as_u8 Quote = kind_as_u8 k" "\<exists>v. venue_as_u8 (sa_venue ad) = venue_as_u8 v"
    by blast+
  note defs = h_def snapshot_header_def Let_def header_new_def HEADER_ZEROED_def set_scales_def set_depth_def
    set_flags_def set_venue_time_def
  show "header_ok h" "h_kind h = kind_as_u8 Quote" "h_venue h = venue_as_u8 (sa_venue ad)" "h_symbol h = symbol"
      "h_recv_ns h = recv_ns" "unat (h_depth h) = depth"
      "h_price_scale h = scale_decimals (fs_price (sa_scales ad))" "h_qty_scale h = scale_decimals (fs_quantity (sa_scales ad))"
    using assms(1) depth by (simp_all add: defs header_ok_def split: option.split)
  then show "header_validate h = Inr ()"
    using assms(2) kinds scale_code_le by (auto simp: header_validate_iff word_le_nat_alt)
  show "\<not> is_stale h" "has_flags h BID_EMPTY \<longleftrightarrow> md_side_depth msg MdBid = 0"
      "has_flags h ASK_EMPTY \<longleftrightarrow> md_side_depth msg MdOffer = 0"
      "has_flags h VENUE_TIME_VALID \<longleftrightarrow> md_venue_time msg \<noteq> None"
    by (simp_all add: defs is_stale_def has_flags_def kind_consts split: option.split)
  show "md_venue_time msg = Some t \<Longrightarrow> h_venue_ns h = t"
    by (simp add: defs)
qed

lemma trade_header_facts:
  fixes ad :: snapshot_adapter and e :: md_entry and recv_ns :: u64
  assumes "length symbol = 24"
  defines "h \<equiv> trade_header ad e symbol recv_ns"
  shows "header_ok h" "header_validate h = Inr ()" "\<not> is_stale h"
proof -
  note defs = h_def trade_header_def Let_def header_new_def HEADER_ZEROED_def set_scales_def set_venue_time_def
  have kinds: "\<exists>k. kind_as_u8 Trade = kind_as_u8 k" "\<exists>v. venue_as_u8 (sa_venue ad) = venue_as_u8 v"
    by blast+
  show "header_ok h" "\<not> is_stale h"
    using assms(1) by (simp_all add: defs header_ok_def is_stale_def has_flags_def kind_consts split: option.split)
  show "header_validate h = Inr ()"
    using kinds scale_code_le by (auto simp: defs header_validate_iff split: option.split)
qed

lemma installed_good:
  assumes "header_ok h" "header_validate h = Inr ()" "\<not> is_stale h" "payload_ok p" "payload_valid p"
  shows "record_good (install p (with_header h)) \<and> \<not> is_stale (r_header (install p (with_header h)))"
proof
  show "record_good (install p (with_header h))"
    using assms by (simp add: record_good_def record_ok_install with_header_ok install_valid)
  have "r_header (with_header h) = h"
    by (simp add: with_header_def)
  then show "\<not> is_stale (r_header (install p (with_header h)))"
    using assms(3) by (simp add: r_header_install is_stale_def has_flags_def)
qed

lemma quote_record_good:
  fixes ad :: snapshot_adapter and msg :: md_message and recv_ns :: u64
  assumes "length symbol = 24" and "depth \<le> 10" and "quote_plain q"
  defines "r \<equiv> new_quote (snapshot_header ad msg symbol depth recv_ns) q"
  shows "record_good r \<and> \<not> is_stale (r_header r)" "record_view r = Inr (PQuote q)"
  using assms(3) snapshot_header_facts(1,2,8) [OF assms(1,2), of ad msg recv_ns]
  by (simp_all add: r_def new_install installed_good quote_plain_def record_view_install del: install.simps)

lemma trade_record_good:
  fixes ad :: snapshot_adapter and e :: md_entry and recv_ns :: u64 and price :: i64 and qty :: u64
  assumes "length symbol = 24"
  defines "r \<equiv> new_trade (trade_header ad e symbol recv_ns) (trade_new price qty)"
  shows "record_good r \<and> \<not> is_stale (r_header r)"
  unfolding r_def new_install
  by (rule installed_good) (simp_all add: trade_header_facts [OF assms(1)] trade_new_def kind_consts)

lemma trade_records_good:
  "r \<in> set (fst (trade_records ad msg recv_ns es)) \<Longrightarrow> record_good r \<and> \<not> is_stale (r_header r)"
proof (induction es)
  case (Cons e es)
  then show ?case
    using trade_record_good fix_wire_symbol_cases(2)
    by (fastforce split: if_splits sum.splits prod.splits)
qed simp

lemma snapshot_records_good:
  "r \<in> set (fst (snapshot_records ad msg recv_ns)) \<Longrightarrow> record_good r \<and> \<not> is_stale (r_header r)"
  using quote_record_good(1) fix_wire_symbol_cases(2) snapshot_levels_plain [OF quote_default_plain, of 0 ad "md_entries msg"]
  by (auto simp: snapshot_records_def split: sum.splits)

lemma adapter_implied_good:
  "r \<in> set (adapter_implied ad msg recv_ns) \<Longrightarrow> record_good r \<and> \<not> is_stale (r_header r)"
  using trade_records_good snapshot_records_good
  by (fastforce simp: adapter_implied_def adapter_records_def split: if_splits)

subsection \<open>SnapshotAdapter is an adapter\<close>

lemma publish_then_ok:
  assumes "marking_sink holds publish mark" and "holds t log" and "Suc (length log) < 2 ^ 64"
    and "record_good r \<and> \<not> is_stale (r_header r)"
  obtains t' where "publish_then publish r t nxt = nxt t'" "holds t' (log @ [set_seq (of_nat (length log)) (mark r)])"
proof -
  have "fst (publish (\<lambda>_. (r, Inr ())) t) = Inr ()"
      "holds (snd (publish (\<lambda>_. (r, Inr ())) t)) (log @ [set_seq (of_nat (length log)) (mark r)])"
    using marking_sink.publish_const [OF assms(1-3)] assms(4) by blast+
  then show thesis
    by (intro that [of "snd (publish (\<lambda>_. (r, Inr ())) t)"]) (auto simp: publish_then_def split: prod.splits)
qed

lemma adapter_snapshot_publishes:
  assumes sink: "marking_sink holds publish mark" and "holds t log"
    and "Suc (length log + length (fst (snapshot_records ad msg recv_ns))) < 2 ^ 64"
  shows "\<exists>res t'. adapter_snapshot ad publish msg recv_ns t = (res, t') \<and>
    holds t' (log @ stamp_from (length log) (map mark (fst (snapshot_records ad msg recv_ns)))) \<and>
    res = map_ok (\<lambda>_. length (fst (snapshot_records ad msg recv_ns))) (snd (snapshot_records ad msg recv_ns))"
proof (cases "and_then (fix_wire_symbol (fix_text_bytes (m_symbol msg))) (\<lambda>symbol.
    map_ok (\<lambda>(quote, depth). (symbol, quote, depth)) (snapshot_levels ad (md_entries msg) (quote_default, 0)))")
  case (Inl e)
  then have "snapshot_records ad msg recv_ns = ([], Inl e)"
    by (auto simp: snapshot_records_def and_then_Inl_iff map_ok_Inl_iff split: sum.splits)
  then show ?thesis
    using assms(2) Inl by (simp add: adapter_snapshot_def)
next
  case (Inr sqd)
  then obtain symbol quote depth where parts: "fix_wire_symbol (fix_text_bytes (m_symbol msg)) = Inr symbol"
      "snapshot_levels ad (md_entries msg) (quote_default, 0) = Inr (quote, depth)" "sqd = (symbol, quote, depth)"
    by (auto simp: and_then_Inr_iff map_ok_Inr_iff)
  let ?r = "new_quote (snapshot_header ad msg symbol depth recv_ns) quote"
  have recs: "snapshot_records ad msg recv_ns = ([?r], Inr ())"
    by (simp add: snapshot_records_def parts)
  then have room: "Suc (length log) < 2 ^ 64"
    using assms(3) by simp
  have good: "record_good ?r \<and> \<not> is_stale (r_header ?r)"
    by (rule snapshot_records_good [of _ ad msg recv_ns]) (simp add: recs)
  obtain t' where "publish_then publish ?r t (\<lambda>t. (Inr 1, t)) = (Inr 1, t')"
      "holds t' (log @ [set_seq (of_nat (length log)) (mark ?r)])"
    by (rule publish_then_ok [OF sink assms(2) room good])
  then show ?thesis
    by (simp add: adapter_snapshot_def parts recs)
qed

lemma adapter_incremental_publishes:
  assumes sink: "marking_sink holds publish mark" and "holds t log"
    and "Suc (length log + length (fst (trade_records ad msg recv_ns es))) < 2 ^ 64"
  shows "\<exists>res t'. adapter_incremental ad publish msg recv_ns es n t = (res, t') \<and>
    holds t' (log @ stamp_from (length log) (map mark (fst (trade_records ad msg recv_ns es)))) \<and>
    res = map_ok (\<lambda>_. n + length (fst (trade_records ad msg recv_ns es))) (snd (trade_records ad msg recv_ns es))"
  using assms(2,3)
proof (induction es arbitrary: t log n)
  case Nil
  then show ?case
    by simp
next
  case (Cons e es)
  show ?case
  proof (cases "e_type e = MdTrade")
    case False
    then show ?thesis
      using Cons by auto
  next
    case trade: True
    show ?thesis
    proof (cases "and_then (fix_wire_symbol (md_entry_symbol msg e)) (\<lambda>symbol.
        map_ok (\<lambda>qty. (symbol, trade_new (e_price e) qty)) (size_of ad e))")
      case (Inl err)
      then have "trade_records ad msg recv_ns (e # es) = ([], Inl err)"
        using trade by (auto simp: and_then_Inl_iff map_ok_Inl_iff split: sum.splits)
      then show ?thesis
        using Cons.prems trade Inl by simp
    next
      case (Inr sp)
      then obtain symbol qty where parts: "fix_wire_symbol (md_entry_symbol msg e) = Inr symbol"
          "size_of ad e = Inr qty" "sp = (symbol, trade_new (e_price e) qty)"
        by (auto simp: and_then_Inr_iff map_ok_Inr_iff)
      let ?r = "new_trade (trade_header ad e symbol recv_ns) (trade_new (e_price e) qty)"
      obtain rs fin where tr: "trade_records ad msg recv_ns es = (rs, fin)"
        by fastforce
      have recs: "trade_records ad msg recv_ns (e # es) = (?r # rs, fin)"
        using trade by (simp add: parts tr)
      have good: "record_good ?r \<and> \<not> is_stale (r_header ?r)"
        by (rule trade_records_good [of _ ad msg recv_ns "e # es"]) (simp only: recs fst_conv list.set_intros)
      have room: "Suc (length log) < 2 ^ 64" "Suc (length (log @ [x]) + length rs) < 2 ^ 64" for x :: wire_record
        using Cons.prems(2) [unfolded recs] by simp_all
      obtain t' where t': "publish_then publish ?r t (adapter_incremental ad publish msg recv_ns es (n + 1)) =
          adapter_incremental ad publish msg recv_ns es (n + 1) t'"
          "holds t' (log @ [set_seq (of_nat (length log)) (mark ?r)])"
        by (rule publish_then_ok [OF sink Cons.prems(1) room(1) good])
      have "adapter_incremental ad publish msg recv_ns (e # es) n t =
          adapter_incremental ad publish msg recv_ns es (n + 1) t'"
        using trade Inr t'(1) by (simp add: parts)
      then show ?thesis
        using Cons.IH [OF t'(2), of "n + 1"] room(2) unfolding recs by (simp add: tr)
    qed
  qed
qed

lemma adapter_records_no_panic: "snd (adapter_records ad msg recv_ns) \<noteq> Inl Panic"
proof -
  have trades: "snd (trade_records ad msg recv_ns es) \<noteq> Inl Panic" for es
    by (induction es) (auto simp: fix_wire_symbol_cases size_of_no_panic split: sum.splits prod.splits)
  have "snd (snapshot_records ad msg recv_ns) \<noteq> Inl Panic"
    using fix_wire_symbol_cases(1) snapshot_levels_plain [OF quote_default_plain, of 0 ad "md_entries msg"]
    by (auto simp: snapshot_records_def split: sum.splits)
  with trades show ?thesis
    by (simp add: adapter_records_def)
qed

lemma adapter_publishes:
  assumes "marking_sink holds publish mark" and "holds t log"
    and "Suc (length log + length (adapter_implied ad msg recv_ns)) < 2 ^ 64"
  shows "\<exists>res t'. adapter_adapt ad publish msg recv_ns t = (res, ad, t') \<and>
    holds t' (log @ stamp_from (length log) (map mark (adapter_implied ad msg recv_ns))) \<and>
    res = map_ok (\<lambda>_. length (adapter_implied ad msg recv_ns)) (snd (adapter_records ad msg recv_ns))"
  using assms adapter_snapshot_publishes [OF assms(1,2), of ad msg recv_ns]
    adapter_incremental_publishes [OF assms(1,2), of ad msg recv_ns "md_entries msg" 0]
  by (auto simp: adapter_adapt_def adapter_implied_def adapter_records_def split: if_splits)

lemma length_adapter_implied: "length (adapter_implied ad msg recv_ns) \<le> 255"
proof -
  have "length (fst (trade_records ad msg recv_ns es)) \<le> length es" for es
    by (induction es) (auto split: sum.splits prod.splits)
  moreover have "unat (m_count msg) < 256"
    by (rule order_less_le_trans [OF unsigned_less]) simp
  then have "unat (m_count msg) \<le> 255"
    by linarith
  then have "length (md_entries msg) \<le> 255"
    unfolding md_entries_def length_take by (rule min.coboundedI2)
  ultimately have "length (fst (trade_records ad msg recv_ns (md_entries msg))) \<le> 255"
    using le_trans by blast
  then show ?thesis
    by (simp add: adapter_implied_def adapter_records_def snapshot_records_def split: sum.split)
qed

interpretation snapshot_venue: md_adapter snapshot_ops adapter_implied 255
proof
  fix holds :: "'t \<Rightarrow> wire_record list \<Rightarrow> bool" and publish :: "(adapt_error, 't) adapter_publish"
    and mark t log a msg recv_ns
  assume "marking_sink holds publish mark" "holds t log"
    "Suc (length log + length (adapter_implied a msg recv_ns)) < 2 ^ 64"
  from adapter_publishes [OF this]
  show "\<exists>res a' t'. ao_adapt snapshot_ops a publish msg recv_ns t = (res, a', t') \<and>
      holds t' (log @ stamp_from (length log) (map mark (adapter_implied a msg recv_ns))) \<and>
      res \<noteq> Inl Panic \<and> (\<forall>n. res = Inr n \<longrightarrow> n = length (adapter_implied a msg recv_ns))"
    using adapter_records_no_panic [of a msg recv_ns]
    by (cases "snd (adapter_records a msg recv_ns)") (fastforce simp: snapshot_ops_def)+
qed (use adapter_implied_good length_adapter_implied in auto)

subsection \<open>The quote of a full refresh\<close>

text \<open>What a book side says at a level: the last entry of that side and level.\<close>

definition level_of :: "snapshot_adapter \<Rightarrow> md_entry_type \<Rightarrow> nat \<Rightarrow> md_entry list \<Rightarrow> wire_level" where
  "level_of ad side i es =
     (let ls = filter (\<lambda>e. e_type e = side \<and> unat (e_level e) = i) es; e = last ls
      in if ls = [] then level_new 0 0
         else level_new (e_price e) (if e_has_size e then e_size e else the (sa_default_qty ad)))"

definition book_entries :: "md_entry list \<Rightarrow> md_entry list" where
  "book_entries es = filter (\<lambda>e. is_book_side (e_type e) \<and> unat (e_level e) < 10) es"

lemma level_of_snoc:
  "level_of ad side i (es @ [e]) =
   (if e_type e = side \<and> unat (e_level e) = i
    then level_new (e_price e) (if e_has_size e then e_size e else the (sa_default_qty ad)) else level_of ad side i es)"
  by (simp add: level_of_def Let_def)

text \<open>The loop from a state that already reflects the entries \<open>done\<close>.\<close>

definition levels_inv :: "snapshot_adapter \<Rightarrow> md_entry list \<Rightarrow> quote_payload \<times> nat \<Rightarrow> bool" where
  "levels_inv ad es s \<longleftrightarrow>
     (case s of (q, d) \<Rightarrow> quote_plain q \<and>
        (\<forall>i < 10. q_bid q ! i = level_of ad MdBid i es \<and> q_ask q ! i = level_of ad MdOffer i es) \<and>
        d = fold max (map (\<lambda>e. unat (e_level e) + 1) (book_entries es)) 0)"

lemma quote_plain_lengths: "quote_plain q \<Longrightarrow> length (q_bid q) = 10 \<and> length (q_ask q) = 10"
  by (simp add: quote_plain_def quote_payload_ok_def array_ok_def)

lemma levels_inv_start: "levels_inv ad [] (quote_default, 0)"
  by (simp add: levels_inv_def quote_default_plain level_of_def book_entries_def) (simp add: quote_default_eq)

lemma snapshot_levels_result:
  assumes "levels_inv ad seen s"
  shows "case snapshot_levels ad es s of
      Inr s' \<Rightarrow> levels_inv ad (seen @ es) s' \<and> (\<forall>e \<in> set (book_entries es). e_has_size e \<or> sa_default_qty ad \<noteq> None)
    | Inl err \<Rightarrow> err = Err NoSize \<and> sa_default_qty ad = None \<and> (\<exists>e \<in> set (book_entries es). \<not> e_has_size e)"
  using assms
proof (induction es arbitrary: seen s)
  case Nil
  then show ?case
    by (simp add: book_entries_def)
next
  case (Cons e es)
  obtain q d where s: "s = (q, d)"
    by fastforce
  show ?case
  proof (cases "is_book_side (e_type e) \<and> unat (e_level e) < 10")
    case False
    then have "snapshot_levels ad (e # es) s = snapshot_levels ad es s" "book_entries (e # es) = book_entries es"
        "book_entries (seen @ [e]) = book_entries seen"
      by (auto simp: s snapshot_levels_skip book_entries_def)
    moreover have "level_of ad side i (seen @ [e]) = level_of ad side i seen" if "i < 10" "is_book_side side" for side i
      using False that by (auto simp: level_of_snoc)
    then have "levels_inv ad (seen @ [e]) s"
      using Cons.prems calculation(3) by (simp add: levels_inv_def s is_book_side_def)
    ultimately show ?thesis
      using Cons.IH [of "seen @ [e]" s] by (cases "snapshot_levels ad es s") simp_all
  next
    case True
    let ?i = "unat (e_level e)"
    have book: "book_entries (e # es) = e # book_entries es" "book_entries (seen @ [e]) = book_entries seen @ [e]"
      using True by (simp_all add: book_entries_def)
    show ?thesis
    proof (cases "size_of ad e")
      case (Inl err)
      then have "err = Err NoSize \<and> sa_default_qty ad = None \<and> \<not> e_has_size e"
        by (auto simp: size_of_def ok_or_def split: if_splits option.splits)
      moreover have "snapshot_levels ad (e # es) s = Inl err"
        using True Inl unfolding s by (intro snapshot_levels_err) simp_all
      ultimately show ?thesis
        by (simp add: book)
    next
      case (Inr qty)
      then have qty: "qty = (if e_has_size e then e_size e else the (sa_default_qty ad))" "e_has_size e \<or> sa_default_qty ad \<noteq> None"
        by (auto simp: size_of_def ok_or_def split: if_splits option.splits)
      have inv: "quote_plain q" "\<And>i. i < 10 \<Longrightarrow> q_bid q ! i = level_of ad MdBid i seen"
          "\<And>i. i < 10 \<Longrightarrow> q_ask q ! i = level_of ad MdOffer i seen"
          "d = fold max (map (\<lambda>e. unat (e_level e) + 1) (book_entries seen)) 0"
        using Cons.prems by (auto simp: levels_inv_def s)
      have level: "?i < 10"
        using True by simp
      obtain q' where q': "in_bounds (if e_type e = MdBid then set_bid ?i (level_new (e_price e) qty) q
          else set_ask ?i (level_new (e_price e) qty) q) = Inr q'" "quote_plain q'"
          "q_bid q' = (if e_type e = MdBid then (q_bid q)[?i := level_new (e_price e) qty] else q_bid q)"
          "q_ask q' = (if e_type e = MdBid then q_ask q else (q_ask q)[?i := level_new (e_price e) qty])"
        by (rule set_level_plain [OF inv(1) level, where b = "e_type e = MdBid" and l = "level_new (e_price e) qty"])
      have step: "snapshot_levels ad (e # es) s = snapshot_levels ad es (q', max d (?i + 1))"
        using True Inr q'(1) unfolding s by (intro snapshot_levels_set) simp_all
      have "levels_inv ad (seen @ [e]) (q', max d (?i + 1))"
        using True q'(2-4) inv(2-4) quote_plain_lengths [OF inv(1)]
        by (auto simp: levels_inv_def level_of_snoc book qty(1) nth_list_update is_book_side_def)
      from Cons.IH [OF this] show ?thesis
        unfolding step using qty(2)
        by (cases "snapshot_levels ad es (q', max d (?i + 1))") (auto simp: book)
    qed
  qed
qed

lemma fold_max_le: "fold max (map f es) (d :: nat) \<le> n \<longleftrightarrow> d \<le> n \<and> (\<forall>e \<in> set es. f e \<le> n)"
  by (induction es arbitrary: d) auto

text \<open>
  C21. A full refresh becomes the book it describes, or is refused. Whatever sink the adapter publishes
  through, a snapshot with a usable symbol and sizes for every book entry (its own or the configured
  default) yields one valid quote: each side holds at each level the last entry of that side and level,
  and nothing elsewhere; the depth is the deepest level named, the empty flags say which side was not
  named, symbol, time of reception and venue time are those of the message, and venue and the scales of prices
  and sizes those of the configuration. Otherwise nothing is published and the error names the reason.
\<close>

theorem snapshot_becomes_quote:
  assumes "marking_sink holds publish mark" and "holds t log" and "Suc (Suc (length log)) < 2 ^ 64"
    and "md_is_snapshot msg" and "adapter_adapt ad publish msg recv_ns t = (res, ad', t')"
  defines "usable \<equiv> (\<forall>e \<in> set (book_entries (md_entries msg)). e_has_size e \<or> sa_default_qty ad \<noteq> None)"
  shows "case (fix_text_bytes (m_symbol msg), symbol_from_bytes (fix_text_bytes (m_symbol msg))) of
      ([], _) \<Rightarrow> res = Inl (Err NoSymbol) \<and> holds t' log
    | (_, None) \<Rightarrow> res = Inl (Err SymbolTooLong) \<and> holds t' log
    | (_, Some symbol) \<Rightarrow>
        if \<not> usable then res = Inl (Err NoSize) \<and> holds t' log
        else res = Inr 1 \<and> (\<exists>r q. holds t' (log @ [set_seq (of_nat (length log)) (mark r)]) \<and> record_good r \<and>
          record_view r = Inr (PQuote q) \<and> h_symbol (r_header r) = symbol \<and> h_recv_ns (r_header r) = recv_ns \<and>
          (\<forall>i < 10. q_bid q ! i = level_of ad MdBid i (md_entries msg) \<and>
             q_ask q ! i = level_of ad MdOffer i (md_entries msg)) \<and>
          unat (h_depth (r_header r)) = fold max (map (\<lambda>e. unat (e_level e) + 1) (book_entries (md_entries msg))) 0 \<and>
          (has_flags (r_header r) BID_EMPTY \<longleftrightarrow> md_side_depth msg MdBid = 0) \<and>
          (has_flags (r_header r) ASK_EMPTY \<longleftrightarrow> md_side_depth msg MdOffer = 0) \<and>
          header_venue (r_header r) = Inr (sa_venue ad) \<and>
          header_price_scale (r_header r) = Inr (fs_price (sa_scales ad)) \<and>
          header_qty_scale (r_header r) = Inr (fs_quantity (sa_scales ad)) \<and>
          venue_time (r_header r) = md_venue_time msg \<and>
          (has_flags (r_header r) VENUE_TIME_VALID \<longleftrightarrow> md_venue_time msg \<noteq> None))"
proof -
  let ?text = "fix_text_bytes (m_symbol msg)" and ?es = "md_entries msg"
  have run: "adapter_adapt ad publish msg recv_ns t = (res, ad', t')" "adapter_records ad msg recv_ns = snapshot_records ad msg recv_ns"
    using assms(4,5) by (simp_all add: adapter_records_def)
  have len: "length (adapter_implied ad msg recv_ns) \<le> 1"
    using run(2) by (simp add: adapter_implied_def snapshot_records_def split: sum.split)
  then have room: "Suc (length log + length (adapter_implied ad msg recv_ns)) < 2 ^ 64"
    using assms(3) by linarith
  have result: "holds t' (log @ stamp_from (length log) (map mark (fst (snapshot_records ad msg recv_ns))))"
      "res = map_ok (\<lambda>_. length (fst (snapshot_records ad msg recv_ns))) (snd (snapshot_records ad msg recv_ns))"
    using adapter_publishes [OF assms(1,2) room] run by (auto simp: adapter_implied_def)
  show ?thesis
  proof (cases "symbol_from_bytes ?text")
    case None
    then show ?thesis
      using result by (auto simp: snapshot_records_def fix_wire_symbol_def ok_or_def split: list.split)
  next
    case (Some symbol)
    then have ne: "?text \<noteq> []"
      by (auto simp: symbol_from_bytes_def)
    have wire: "fix_wire_symbol ?text = Inr symbol"
      using ne Some by (simp add: fix_wire_symbol_def ok_or_def)
    note levels = snapshot_levels_result [OF levels_inv_start, of ad ?es, simplified]
    have goal: "(case (?text, Some symbol) of ([], _) \<Rightarrow> P | (_, None) \<Rightarrow> Q | (_, Some s) \<Rightarrow> R s) = R symbol" for P Q R
      using ne by (simp split: list.split)
    show ?thesis
    proof (cases "snapshot_levels ad ?es (quote_default, 0)")
      case (Inl err)
      then have "err = Err NoSize" "\<not> usable"
        using levels by (auto simp: usable_def)
      then show ?thesis
        using result unfolding Some goal by (simp add: snapshot_records_def wire Inl)
    next
      case (Inr qd)
      obtain q d where qd: "qd = (q, d)"
        by fastforce
      have inv: "usable" "levels_inv ad ?es (q, d)"
        using levels Inr by (auto simp: usable_def qd)
      have d: "d \<le> 10"
        using inv(2) by (auto simp: levels_inv_def fold_max_le book_entries_def)
      let ?h = "snapshot_header ad msg symbol d recv_ns" and ?r = "new_quote (snapshot_header ad msg symbol d recv_ns) q"
      have recs: "snapshot_records ad msg recv_ns = ([?r], Inr ())"
        by (simp add: snapshot_records_def wire Inr qd)
      have symbol: "length symbol = 24"
        by (rule fix_wire_symbol_cases(2) [OF wire])
      have plain: "quote_plain q"
        using inv(2) by (simp add: levels_inv_def)
      have header: "h_symbol (r_header ?r) = h_symbol ?h" "h_recv_ns (r_header ?r) = h_recv_ns ?h"
          "h_depth (r_header ?r) = h_depth ?h" "h_flags (r_header ?r) = h_flags ?h" "h_venue (r_header ?r) = h_venue ?h"
          "h_price_scale (r_header ?r) = h_price_scale ?h" "h_qty_scale (r_header ?r) = h_qty_scale ?h"
          "h_venue_ns (r_header ?r) = h_venue_ns ?h"
        by (simp_all add: new_install r_header_install with_header_def del: install.simps)
      note good = quote_record_good [OF symbol d plain, where ad = ad and msg = msg and recv_ns = recv_ns]
      note h = snapshot_header_facts [OF symbol d, where ad = ad and msg = msg and recv_ns = recv_ns]
      have flags: "has_flags (r_header ?r) m = has_flags ?h m" for m
        by (simp add: has_flags_def header(4))
      have read: "header_venue (r_header ?r) = Inr (sa_venue ad)" "header_price_scale (r_header ?r) = Inr (fs_price (sa_scales ad))"
          "header_qty_scale (r_header ?r) = Inr (fs_quantity (sa_scales ad))"
        by (simp_all add: header_venue_def header_price_scale_def header_qty_scale_def scale_from_u8_def header(5-7) h(4,13,14))
      have time: "venue_time (r_header ?r) = md_venue_time msg"
        using h(11,12) by (cases "md_venue_time msg") (simp_all add: venue_time_def flags header(8))
      have "res = Inr 1" "holds t' (log @ [set_seq (of_nat (length log)) (mark ?r)])"
        using result by (simp_all add: recs)
      moreover have "(\<forall>i < 10. q_bid q ! i = level_of ad MdBid i ?es \<and> q_ask q ! i = level_of ad MdOffer i ?es)"
        using inv(2) by (simp add: levels_inv_def)
      moreover have "unat (h_depth (r_header ?r)) = fold max (map (\<lambda>e. unat (e_level e) + 1) (book_entries ?es)) 0"
        unfolding header(3) h(7) using inv(2) by (simp add: levels_inv_def)
      ultimately show ?thesis
        unfolding Some goal simp_thms(8) if_not_P [OF not_not [THEN iffD2, OF inv(1)]]
        using good h(5,6,9,10,11) by (intro conjI exI [of _ ?r] exI [of _ q]) (simp_all only: header(1,2) flags read time)
    qed
  qed
qed

text \<open>The ring, as an adapter sees it, and a snapshot of one bid.\<close>

interpretation ring_adapter: marking_sink ring_holds
  "ring_sink_publish :: ('e, ring_sink) adapter_publish" "\<lambda>r. r"
proof
  fix t log r
  assume "ring_holds t log" "Suc (length log) < 2 ^ 64"
  from ring.publish_ok [OF this, of "(\<lambda>_. (r, Inr ())) :: wire_record \<Rightarrow> wire_record \<times> ('e + unit)" r "()"]
  show "fst ((ring_sink_publish :: ('e, ring_sink) adapter_publish) (\<lambda>_. (r, Inr ())) t) = Inr () \<and>
      ring_holds (snd ((ring_sink_publish :: ('e, ring_sink) adapter_publish) (\<lambda>_. (r, Inr ())) t))
        (log @ [set_seq (word_of_nat (length log)) r])"
    by simp
qed

definition one_bid :: "msg_type \<Rightarrow> md_entry list \<Rightarrow> md_message" where
  "one_bid t es = MD_MESSAGE_EMPTY\<lparr> m_type := t, m_symbol := fix_text_new [0x55, 0x53, 0x44], m_entries := es,
     m_count := word_of_nat (length es) \<rparr>"

definition demo_entry :: "md_entry_type \<Rightarrow> md_entry" where
  "demo_entry t = MD_ENTRY_EMPTY\<lparr> e_type := t, e_price := 138500, e_has_price := True, e_size := 7, e_has_size := True \<rparr>"

lemma demo_entry_fields:
  "e_type (demo_entry t) = t" "e_has_size (demo_entry t)" "e_level (demo_entry t) = 0" "e_price (demo_entry t) = 138500"
  "e_size (demo_entry t) = 7" "e_symbol (demo_entry t) = FIX_TEXT_EMPTY"
  by (simp_all add: demo_entry_def MD_ENTRY_EMPTY_def)

definition demo_adapter :: snapshot_adapter where
  "demo_adapter = snapshot_adapter_new Smbs \<lparr> fs_price = S2, fs_quantity = S0 \<rparr> None"

lemma one_bid_parts:
  "md_is_snapshot (one_bid MarketDataSnapshot es)" "\<not> md_is_snapshot (one_bid MarketDataIncremental es)"
  "length es < 256 \<Longrightarrow> md_entries (one_bid t es) = es"
  "fix_text_bytes (m_symbol (one_bid t es)) = [0x55, 0x53, 0x44]"
  by (simp_all add: one_bid_def md_is_snapshot_def md_entries_def unsigned_of_nat take_bit_nat_eq_self FIX_TEXT_LEN_def)

theorem snapshot_becomes_quote_witness:
  "\<exists>t' r q. adapter_adapt demo_adapter ring_sink_publish (one_bid MarketDataSnapshot [demo_entry MdBid]) 9 demo_sink =
      (Inr 1, demo_adapter, t') \<and>
    ring_holds t' [set_seq 0 r] \<and> record_view r = Inr (PQuote q) \<and> q_bid q ! 0 = level_new 138500 7 \<and>
    has_flags (r_header r) ASK_EMPTY"
proof -
  let ?msg = "one_bid MarketDataSnapshot [demo_entry MdBid]"
  obtain res ad' t' where run: "adapter_adapt demo_adapter ring_sink_publish ?msg 9 demo_sink = (res, ad', t')"
    by (rule prod_cases3)
  have ad: "ad' = demo_adapter"
    using run by (auto simp: adapter_adapt_def split: prod.splits)
  have start: "ring_holds demo_sink []"
    using demo_holds by (simp add: demo_sink_def)
  have parts: "md_entries ?msg = [demo_entry MdBid]"
    by (simp add: one_bid_parts)
  have symbol: "symbol_from_bytes [0x55, 0x53, 0x44] = Some ([0x55, 0x53, 0x44] @ replicate 21 0)"
    by (simp add: symbol_from_bytes_def SYMBOL_LEN_def)
  have sized: "\<forall>e \<in> set (book_entries (md_entries ?msg)). e_has_size e \<or> sa_default_qty demo_adapter \<noteq> None"
    unfolding parts by (simp add: book_entries_def demo_entry_fields)
  have facts: "md_side_depth ?msg MdOffer = 0" "level_of demo_adapter MdBid 0 [demo_entry MdBid] = level_new 138500 7"
    unfolding md_side_depth_def parts by (simp_all add: level_of_def demo_entry_fields)
  have "res = Inr 1 \<and> (\<exists>r q. ring_holds t' ([] @ [set_seq (of_nat (length ([] :: wire_record list))) r]) \<and>
      record_view r = Inr (PQuote q) \<and> (\<forall>i < 10. q_bid q ! i = level_of demo_adapter MdBid i (md_entries ?msg)) \<and>
      (has_flags (r_header r) ASK_EMPTY \<longleftrightarrow> md_side_depth ?msg MdOffer = 0))"
    using snapshot_becomes_quote [OF ring_adapter.marking_sink_axioms start _ one_bid_parts(1) run]
    unfolding one_bid_parts(4) symbol if_not_P [OF not_not [THEN iffD2, OF sized]] by fastforce
  then obtain r q where "res = Inr 1" "ring_holds t' [set_seq 0 r]" "record_view r = Inr (PQuote q)"
      "\<forall>i < 10. q_bid q ! i = level_of demo_adapter MdBid i [demo_entry MdBid]" "has_flags (r_header r) ASK_EMPTY"
    by (auto simp: parts facts)
  then show ?thesis
    using run facts(2) by (auto simp: ad)
qed

subsection \<open>The trades of an incremental refresh\<close>

text \<open>What an entry is refused for, and the record of a trade that is not.\<close>

definition entry_fault :: "snapshot_adapter \<Rightarrow> md_message \<Rightarrow> md_entry \<Rightarrow> adapt_error option" where
  "entry_fault ad msg e =
     (if is_book_side (e_type e) then Some IncrementalBook
      else if e_type e \<noteq> MdTrade then None
      else if md_entry_symbol msg e = [] then Some NoSymbol
      else if symbol_from_bytes (md_entry_symbol msg e) = None then Some SymbolTooLong
      else if \<not> e_has_size e \<and> sa_default_qty ad = None then Some NoSize
      else None)"

definition trade_of :: "snapshot_adapter \<Rightarrow> md_message \<Rightarrow> u64 \<Rightarrow> md_entry \<Rightarrow> wire_record" where
  "trade_of ad msg recv_ns e =
     new_trade (trade_header ad e (the (symbol_from_bytes (md_entry_symbol msg e))) recv_ns)
       (trade_new (e_price e) (if e_has_size e then e_size e else the (sa_default_qty ad)))"

lemma trade_records_step:
  "trade_records ad msg recv_ns (e # es) =
    (case entry_fault ad msg e of
       Some f \<Rightarrow> ([], Inl (Err f))
     | None \<Rightarrow>
         if e_type e = MdTrade
         then (trade_of ad msg recv_ns e # fst (trade_records ad msg recv_ns es), snd (trade_records ad msg recv_ns es))
         else trade_records ad msg recv_ns es)"
proof (cases "e_type e = MdTrade")
  case False
  then show ?thesis
    by (simp add: entry_fault_def is_book_side_def)
next
  case trade: True
  show ?thesis
  proof (cases "symbol_from_bytes (md_entry_symbol msg e)")
    case None
    with trade show ?thesis
      by (simp add: entry_fault_def is_book_side_def fix_wire_symbol_def ok_or_def)
  next
    case (Some symbol)
    then have "md_entry_symbol msg e \<noteq> []"
      by (auto simp: symbol_from_bytes_def)
    with trade Some show ?thesis
      by (cases "e_has_size e"; cases "sa_default_qty ad"; cases "trade_records ad msg recv_ns es";
          simp add: entry_fault_def is_book_side_def fix_wire_symbol_def ok_or_def size_of_def trade_of_def)
  qed
qed

lemma trade_records_eq:
  "trade_records ad msg recv_ns es =
    (map (trade_of ad msg recv_ns) (filter (\<lambda>e. e_type e = MdTrade) (takeWhile (\<lambda>e. entry_fault ad msg e = None) es)),
     case find (\<lambda>e. entry_fault ad msg e \<noteq> None) es of None \<Rightarrow> Inr () | Some e \<Rightarrow> Inl (Err (the (entry_fault ad msg e))))"
proof (induction es)
  case (Cons e es)
  show ?case
    unfolding trade_records_step [of ad msg recv_ns e es] Cons.IH by (simp split: option.split)
qed simp

text \<open>
  C22. What an incremental refresh publishes. Through any sink, the adapter publishes one trade for each
  trade entry before the first entry it cannot map - a book side, a trade with no usable symbol, a trade
  with no size and no default - and returns their number when there is no such entry, else the error of
  that entry. So the trades before a refused entry are published although the message is refused.
\<close>

theorem incremental_publishes_trades:
  assumes "marking_sink holds publish mark" and "holds t log" and "length log + 256 < 2 ^ 64"
    and "\<not> md_is_snapshot msg" and "adapter_adapt ad publish msg recv_ns t = (res, ad', t')"
  defines "kept \<equiv> filter (\<lambda>e. e_type e = MdTrade) (takeWhile (\<lambda>e. entry_fault ad msg e = None) (md_entries msg))"
  shows "holds t' (log @ stamp_from (length log) (map (mark \<circ> trade_of ad msg recv_ns) kept)) \<and>
    res = (case find (\<lambda>e. entry_fault ad msg e \<noteq> None) (md_entries msg) of
             None \<Rightarrow> Inr (length kept) | Some e \<Rightarrow> Inl (Err (the (entry_fault ad msg e))))"
proof -
  have recs: "adapter_records ad msg recv_ns = trade_records ad msg recv_ns (md_entries msg)"
    using assms(4) by (simp add: adapter_records_def)
  have "Suc (length log + length (adapter_implied ad msg recv_ns)) < 2 ^ 64"
    using assms(3) length_adapter_implied [of ad msg recv_ns] by linarith
  from adapter_publishes [OF assms(1,2) this] assms(5) show ?thesis
    by (auto simp: adapter_implied_def recs trade_records_eq kept_def comp_def split: option.splits)
qed

theorem incremental_publishes_trades_witness:
  "\<exists>t' r. adapter_adapt demo_adapter ring_sink_publish
      (one_bid MarketDataIncremental [demo_entry MdTrade, demo_entry MdBid]) 9 demo_sink =
      (Inl (Err IncrementalBook), demo_adapter, t') \<and> ring_holds t' [set_seq 0 r]"
proof -
  let ?es = "[demo_entry MdTrade, demo_entry MdBid]" and ?msg = "one_bid MarketDataIncremental [demo_entry MdTrade, demo_entry MdBid]"
  obtain res ad' t' where run: "adapter_adapt demo_adapter ring_sink_publish ?msg 9 demo_sink = (res, ad', t')"
    by (rule prod_cases3)
  have ad: "ad' = demo_adapter"
    using run by (auto simp: adapter_adapt_def split: prod.splits)
  have start: "ring_holds demo_sink []"
    using demo_holds by (simp add: demo_sink_def)
  have parts: "md_entries ?msg = ?es"
    by (simp add: one_bid_parts)
  have symbol: "md_entry_symbol ?msg e = [0x55, 0x53, 0x44]" if "e \<in> set ?es" for e
    using that
    by (auto simp: md_entry_symbol_def one_bid_parts(4) demo_entry_fields fix_text_is_empty_def FIX_TEXT_EMPTY_def)
  have wire: "symbol_from_bytes [0x55, 0x53, 0x44] = Some ([0x55, 0x53, 0x44] @ replicate 21 0)"
    by (simp add: symbol_from_bytes_def SYMBOL_LEN_def)
  have fault: "entry_fault demo_adapter ?msg (demo_entry MdTrade) = None"
      "entry_fault demo_adapter ?msg (demo_entry MdBid) = Some IncrementalBook"
    using symbol wire by (simp_all add: entry_fault_def is_book_side_def demo_entry_fields)
  have "ring_holds t' ([] @ stamp_from (length ([] :: wire_record list)) (map ((\<lambda>r. r) \<circ> trade_of demo_adapter ?msg 9) [demo_entry MdTrade])) \<and>
      res = Inl (Err IncrementalBook)"
    using incremental_publishes_trades [OF ring_adapter.marking_sink_axioms start _ one_bid_parts(2) run]
    unfolding parts by (simp add: fault demo_entry_fields)
  then show ?thesis
    using run by (auto simp: ad)
qed

text \<open>
  A level without a price is published at price zero, where one without a size is refused: \<open>has\_price\<close>
  is set by the decoder and read by nobody.
\<close>

lemma missing_price_published:
  "snapshot_levels demo_adapter [(demo_entry MdBid)\<lparr> e_has_price := False, e_price := 0 \<rparr>] (quote_default, 0) =
   Inr (quote_default\<lparr> q_bid := (q_bid quote_default)[0 := level_new 0 7] \<rparr>, 1)"
  by (simp add: snapshot_levels.simps demo_entry_def MD_ENTRY_EMPTY_def size_of_def in_bounds_def set_bid_def wire_consts)

end
