(* ===== verification/Fix_Pipeline.thy ===== *)
theory Fix_Pipeline
  imports Rust_Text Fix_Session Fix_Filter Fix_Adapter
begin

text \<open>
  \<open>crates/jeed-fix/src/recv\<close>: the counters (\<open>stats.rs\<close>) and the transport-free half of the receive loop
  (\<open>pipeline.rs\<close>): route, decode, judge the sequence number, filter, adapt and publish, and say what the
  counterparty is owed. The venue adapter and the sink are known through their interfaces only
  (\<open>md_adapter\<close>, \<open>record_sink\<close>); the lemmas reach the code's own adapter and ring by interpretation.
\<close>

subsection \<open>Counters (stats.rs)\<close>

record fix_stats =
  st_bytes :: u64
  st_received :: u64
  st_published :: u64
  st_stale :: u64
  st_heartbeats :: u64
  st_market_data :: u64
  st_admin :: u64
  st_filtered_symbol :: u64
  st_unhandled :: u64
  st_decode_failed :: u64
  st_refused :: u64
  st_framing_errors :: u64
  st_gaps :: u64
  st_lost :: u64
  st_duplicates :: u64
  st_regressions :: u64
  st_logons :: u64
  st_disconnects :: u64
  st_connect_failures :: u64
  st_heartbeats_sent :: u64
  st_test_requests_sent :: u64
  st_resend_requests_sent :: u64

definition fix_stats_default :: fix_stats where
  "fix_stats_default =
     \<lparr> st_bytes = 0, st_received = 0, st_published = 0, st_stale = 0, st_heartbeats = 0, st_market_data = 0,
       st_admin = 0, st_filtered_symbol = 0, st_unhandled = 0, st_decode_failed = 0, st_refused = 0,
       st_framing_errors = 0, st_gaps = 0, st_lost = 0, st_duplicates = 0, st_regressions = 0, st_logons = 0,
       st_disconnects = 0, st_connect_failures = 0, st_heartbeats_sent = 0, st_test_requests_sent = 0,
       st_resend_requests_sent = 0 \<rparr>"

definition fix_stats_dropped :: "fix_stats \<Rightarrow> u64" where
  "fix_stats_dropped s = st_decode_failed s + st_refused s"

definition fix_stats_skipped :: "fix_stats \<Rightarrow> u64" where
  "fix_stats_skipped s = st_filtered_symbol s + st_unhandled s"

definition note_verdict :: "seq_verdict \<Rightarrow> fix_stats \<Rightarrow> fix_stats" where
  "note_verdict v s =
     (case v of
        InOrder \<Rightarrow> s
      | Gap _ _ missing \<Rightarrow> s\<lparr> st_gaps := st_gaps s + 1, st_lost := st_lost s + missing \<rparr>
      | Duplicate _ _ \<Rightarrow> s\<lparr> st_duplicates := st_duplicates s + 1 \<rparr>
      | Regression _ _ \<Rightarrow> s\<lparr> st_regressions := st_regressions s + 1 \<rparr>)"

subsection \<open>Outcomes and replies (pipeline.rs)\<close>

datatype reply =
    ReplyHeartbeat fix_text
  | ReplyResendRequest u64 u64
  | ReplySequenceReset u64
  | ReplyLogout bytes

datatype 'e fix_outcome =
    FixPublished nat
  | FixAdmin msg_type
  | FixFilteredSymbol
  | FixDuplicate
  | FixRegression
  | FixUnhandled msg_type
  | FixFailed fix_error
  | FixRefused 'e

record 'e ingested =
  in_outcome :: "'e fix_outcome"
  in_verdict :: "seq_verdict option"
  in_reply :: "reply option"
  in_disconnect :: bool

definition ingested_plain :: "'e fix_outcome \<Rightarrow> 'e ingested" where
  "ingested_plain outcome = \<lparr> in_outcome = outcome, in_verdict = None, in_reply = None, in_disconnect = False \<rparr>"

definition fix_published :: "'e fix_outcome \<Rightarrow> bool" where
  "fix_published outcome \<longleftrightarrow> (case outcome of FixPublished _ \<Rightarrow> True | _ \<Rightarrow> False)"

definition REGRESSION_TEXT :: bytes where
  "REGRESSION_TEXT = str ''MsgSeqNum went backwards without PossDupFlag''"

definition LOGOUT_TEXT :: bytes where
  "LOGOUT_TEXT = str ''logout acknowledged''"

subsection \<open>The stale guard\<close>

definition fix_mark_stale :: "wire_record \<Rightarrow> u64 \<Rightarrow> u64 \<Rightarrow> wire_record \<times> bool" where
  "fix_mark_stale rec recv_ns stale_ns =
     (if stale_ns = 0 \<or> h_flags (r_header rec) AND VENUE_TIME_VALID = 0 then (rec, False)
      else if saturating_sub recv_ns (h_venue_ns (r_header rec)) \<le> stale_ns then (rec, False)
      else (rec\<lparr> r_header := (r_header rec)\<lparr> h_flags := h_flags (r_header rec) OR STALE \<rparr> \<rparr>, True))"

type_synonym ('e, 's) fix_publish = "(wire_record \<Rightarrow> wire_record \<times> ('e + bool)) \<Rightarrow> 's \<Rightarrow> ('e + bool) \<times> 's"

text \<open>
  The state of the guard is the sink and the counter \<open>stale\<close> behind it; the variable \<open>hit\<close> the closure
  captures is what its \<open>Ok\<close> carries.
\<close>

definition guard_publish :: "('e, 's) fix_publish \<Rightarrow> u64 \<Rightarrow> u64 \<Rightarrow> ('e, 's \<times> u64) adapter_publish" where
  "guard_publish publish recv_ns stale_ns fill g =
     (case publish (\<lambda>rec. case fill rec of
               (r, Inl e) \<Rightarrow> (r, Inl e)
             | (r, Inr _) \<Rightarrow> (case fix_mark_stale r recv_ns stale_ns of (r', hit) \<Rightarrow> (r', Inr hit))) (fst g) of
        (Inl e, sink) \<Rightarrow> (Inl e, (sink, snd g))
      | (Inr hit, sink) \<Rightarrow> (Inr (), (sink, if hit then snd g + 1 else snd g)))"

definition guard_note_drops :: "(u64 \<Rightarrow> 's \<Rightarrow> 's) \<Rightarrow> u64 \<Rightarrow> 's \<times> u64 \<Rightarrow> 's \<times> u64" where
  "guard_note_drops note_drops n g = (note_drops n (fst g), snd g)"

subsection \<open>The pipeline\<close>

record ('a, 's) fix_pipeline =
  fp_symbols :: symbol_filter
  fp_stale_ns :: u64
  fp_session :: session_state
  fp_stats :: fix_stats
  fp_adapter :: 'a
  fp_sink :: 's

definition fix_pipeline_new :: "symbol_filter \<Rightarrow> u64 \<Rightarrow> 'a \<Rightarrow> 's \<Rightarrow> ('a, 's) fix_pipeline" where
  "fix_pipeline_new symbols stale_ns adapter sink =
     \<lparr> fp_symbols = symbols, fp_stale_ns = stale_ns, fp_session = session_new, fp_stats = fix_stats_default,
       fp_adapter = adapter, fp_sink = sink \<rparr>"

definition tally :: "(fix_stats \<Rightarrow> fix_stats) \<Rightarrow> ('a, 's) fix_pipeline \<Rightarrow> ('a, 's) fix_pipeline" where
  "tally f p = p\<lparr> fp_stats := f (fp_stats p) \<rparr>"

definition fix_failed ::
    "(u64 \<Rightarrow> 's \<Rightarrow> 's) \<Rightarrow> fix_error \<Rightarrow> ('a, 's) fix_pipeline \<Rightarrow> 'e ingested \<times> ('a, 's) fix_pipeline" where
  "fix_failed note_drops e p =
     (ingested_plain (FixFailed e),
      (tally (st_decode_failed_update (\<lambda>n. n + 1)) p)\<lparr> fp_sink := note_drops 1 (fp_sink p) \<rparr>)"

text \<open>The end of \<open>market\_data\<close>: adapt through the guard, and count what came of it.\<close>

definition fix_adapt ::
    "('a, 'e, 's \<times> u64) md_adapter_ops \<Rightarrow> ('e, 's) fix_publish \<Rightarrow> (u64 \<Rightarrow> 's \<Rightarrow> 's) \<Rightarrow> md_message \<Rightarrow> u64 \<Rightarrow>
     seq_verdict \<Rightarrow> reply option \<Rightarrow> ('a, 's) fix_pipeline \<Rightarrow> ('e, 'e ingested \<times> ('a, 's) fix_pipeline) res" where
  "fix_adapt ops publish note_drops msg recv_ns verdict reply p =
     (case ao_adapt ops (fp_adapter p) (guard_publish publish recv_ns (fp_stale_ns p)) msg recv_ns (fp_sink p, 0) of
        (adapted, adapter, sink, stale) \<Rightarrow>
          let p = tally (st_stale_update (\<lambda>n. n + stale)) (p\<lparr> fp_adapter := adapter, fp_sink := sink \<rparr>);
              ingested = (\<lambda>outcome. \<lparr> in_outcome = outcome, in_verdict = Some verdict, in_reply = reply, in_disconnect = False \<rparr>)
          in case adapted of
               Inr records \<Rightarrow>
                 Inr (ingested (FixPublished records), tally (st_published_update (\<lambda>n. n + of_nat records)) p)
             | Inl (Err e) \<Rightarrow>
                 Inr (ingested (FixRefused e),
                   (tally (st_refused_update (\<lambda>n. n + 1)) p)\<lparr> fp_sink := note_drops 1 (fp_sink p) \<rparr>)
             | Inl Panic \<Rightarrow> Inl Panic)"

definition fix_market_data ::
    "('a, 'e, 's \<times> u64) md_adapter_ops \<Rightarrow> ('e, 's) fix_publish \<Rightarrow> (u64 \<Rightarrow> 's \<Rightarrow> 's) \<Rightarrow> frame \<Rightarrow> u64 \<Rightarrow>
     ('a, 's) fix_pipeline \<Rightarrow> ('e, 'e ingested \<times> ('a, 's) fix_pipeline) res" where
  "fix_market_data ops publish note_drops fr recv_ns p =
     (case parse_md_message fr (ao_scales ops (fp_adapter p)) of
        Inl e \<Rightarrow> Inr (fix_failed note_drops e p)
      | Inr msg \<Rightarrow>
          let p = tally (st_market_data_update (\<lambda>n. n + 1)) p;
              (verdict, session) = session_observe (m_seq_num msg) (m_poss_dup msg) recv_ns (fp_session p);
              p = tally (note_verdict verdict) (p\<lparr> fp_session := session \<rparr>);
              go_on = (\<lambda>reply.
                if \<not> allows_message (fp_symbols p) msg then
                  Inr (\<lparr> in_outcome = FixFilteredSymbol, in_verdict = Some verdict, in_reply = reply, in_disconnect = False \<rparr>,
                    tally (st_filtered_symbol_update (\<lambda>n. n + 1)) p)
                else fix_adapt ops publish note_drops msg recv_ns verdict reply p)
          in case verdict of
               Duplicate _ _ \<Rightarrow>
                 Inr (\<lparr> in_outcome = FixDuplicate, in_verdict = Some verdict, in_reply = None, in_disconnect = False \<rparr>, p)
             | Regression _ _ \<Rightarrow>
                 Inr (\<lparr> in_outcome = FixRegression, in_verdict = Some verdict, in_reply = Some (ReplyLogout REGRESSION_TEXT),
                        in_disconnect = True \<rparr>, p)
             | Gap expected received _ \<Rightarrow> go_on (Some (ReplyResendRequest expected (received - 1)))
             | InOrder \<Rightarrow> go_on None)"

definition fix_answer :: "admin_message \<Rightarrow> seq_verdict option \<Rightarrow> reply option \<times> bool" where
  "fix_answer msg verdict =
     (let by_type =
        (case a_type msg of
           TestRequest \<Rightarrow> (Some (ReplyHeartbeat (a_test_req_id msg)), False)
         | ResendRequest \<Rightarrow> (Some (ReplySequenceReset 0), False)
         | Logout \<Rightarrow> (Some (ReplyLogout LOGOUT_TEXT), True)
         | _ \<Rightarrow> (None, False))
      in case verdict of
           Some (Regression _ _) \<Rightarrow> (Some (ReplyLogout REGRESSION_TEXT), True)
         | Some (Duplicate _ _) \<Rightarrow> (None, False)
         | Some (Gap expected received _) \<Rightarrow> (Some (ReplyResendRequest expected (received - 1)), False)
         | _ \<Rightarrow> by_type)"

definition fix_admin ::
    "(u64 \<Rightarrow> 's \<Rightarrow> 's) \<Rightarrow> frame \<Rightarrow> u64 \<Rightarrow> ('a, 's) fix_pipeline \<Rightarrow> 'e ingested \<times> ('a, 's) fix_pipeline" where
  "fix_admin note_drops fr recv_ns p =
     (case parse_admin_message fr of
        Inl e \<Rightarrow> fix_failed note_drops e p
      | Inr msg \<Rightarrow>
          let p = tally (st_admin_update (\<lambda>n. n + 1)) p;
              administrative = (a_type msg = SequenceReset \<and> \<not> a_gap_fill msg);
              (verdict, p) =
                (if administrative then (None, p)
                 else case session_observe (a_seq_num msg) (a_poss_dup msg) recv_ns (fp_session p) of
                   (v, session) \<Rightarrow> (Some v, tally (note_verdict v) (p\<lparr> fp_session := session \<rparr>)));
              p = p\<lparr> fp_session := session_apply_admin msg (fp_session p) \<rparr>;
              p = (if a_type msg = Logon then tally (st_logons_update (\<lambda>n. n + 1)) p else p);
              (reply, disconnect) = fix_answer msg verdict
          in (\<lparr> in_outcome = FixAdmin (a_type msg), in_verdict = verdict, in_reply = reply, in_disconnect = disconnect \<rparr>, p))"

definition fix_ingest ::
    "('a, 'e, 's \<times> u64) md_adapter_ops \<Rightarrow> ('e, 's) fix_publish \<Rightarrow> (u64 \<Rightarrow> 's \<Rightarrow> 's) \<Rightarrow> frame \<Rightarrow> u64 \<Rightarrow>
     ('a, 's) fix_pipeline \<Rightarrow> ('e, 'e ingested \<times> ('a, 's) fix_pipeline) res" where
  "fix_ingest ops publish note_drops fr recv_ns p =
     (let p = tally (st_received_update (\<lambda>n. n + 1)) p
      in case frame_msg_type fr of
           Inl e \<Rightarrow> Inr (fix_failed note_drops e p)
         | Inr kind \<Rightarrow>
             if is_market_data kind then fix_market_data ops publish note_drops fr recv_ns p
             else if is_admin kind then Inr (fix_admin note_drops fr recv_ns p)
             else Inr (ingested_plain (FixUnhandled kind), tally (st_unhandled_update (\<lambda>n. n + 1)) p))"

definition fix_heartbeat_record :: "venue \<Rightarrow> u64 \<Rightarrow> u64 \<Rightarrow> u64 \<Rightarrow> wire_record" where
  "fix_heartbeat_record venue received forwarded now =
     new_heartbeat (header_new Heartbeat venue (replicate SYMBOL_LEN 0) now)
       \<lparr> hb_received = received, hb_forwarded = forwarded \<rparr>"

definition fix_heartbeat ::
    "('a, 'e, 's \<times> u64) md_adapter_ops \<Rightarrow> ('e, 's) fix_publish \<Rightarrow> u64 \<Rightarrow> ('a, 's) fix_pipeline \<Rightarrow> ('a, 's) fix_pipeline" where
  "fix_heartbeat ops publish now p =
     (case publish
        (\<lambda>_. (fix_heartbeat_record (ao_venue ops (fp_adapter p)) (st_received (fp_stats p)) (st_published (fp_stats p)) now,
              Inr False)) (fp_sink p) of
        (_, sink) \<Rightarrow> tally (st_heartbeats_update (\<lambda>n. n + 1)) (p\<lparr> fp_sink := sink \<rparr>))"

definition reset_session :: "('a, 's) fix_pipeline \<Rightarrow> ('a, 's) fix_pipeline" where
  "reset_session p = p\<lparr> fp_session := session_new \<rparr>"

definition note_bytes :: "u64 \<Rightarrow> ('a, 's) fix_pipeline \<Rightarrow> ('a, 's) fix_pipeline" where
  "note_bytes n = tally (st_bytes_update (\<lambda>k. k + n))"

definition note_framing_error :: "('a, 's) fix_pipeline \<Rightarrow> ('a, 's) fix_pipeline" where
  "note_framing_error = tally (st_framing_errors_update (\<lambda>n. n + 1))"

definition note_disconnect :: "('a, 's) fix_pipeline \<Rightarrow> ('a, 's) fix_pipeline" where
  "note_disconnect = tally (st_disconnects_update (\<lambda>n. n + 1))"

definition note_connect_failure :: "('a, 's) fix_pipeline \<Rightarrow> ('a, 's) fix_pipeline" where
  "note_connect_failure = tally (st_connect_failures_update (\<lambda>n. n + 1))"

definition note_sent :: "reply \<Rightarrow> ('a, 's) fix_pipeline \<Rightarrow> ('a, 's) fix_pipeline" where
  "note_sent reply =
     (case reply of
        ReplyHeartbeat _ \<Rightarrow> tally (st_heartbeats_sent_update (\<lambda>n. n + 1))
      | ReplyResendRequest _ _ \<Rightarrow> tally (st_resend_requests_sent_update (\<lambda>n. n + 1))
      | _ \<Rightarrow> (\<lambda>p. p))"

definition note_test_request :: "('a, 's) fix_pipeline \<Rightarrow> ('a, 's) fix_pipeline" where
  "note_test_request = tally (st_test_requests_sent_update (\<lambda>n. n + 1))"

definition note_heartbeat_sent :: "('a, 's) fix_pipeline \<Rightarrow> ('a, 's) fix_pipeline" where
  "note_heartbeat_sent = tally (st_heartbeats_sent_update (\<lambda>n. n + 1))"

subsection \<open>What the pipeline is for\<close>

text \<open>
  The reference: the records a frame yields, and its verdict, from the session as it is. A message of
  market data yields what the adapter implies, marked by age, unless it was seen before or the filter
  keeps none of its symbols.
\<close>

definition fix_marked :: "u64 \<Rightarrow> u64 \<Rightarrow> wire_record \<Rightarrow> wire_record" where
  "fix_marked recv_ns stale_ns r = fst (fix_mark_stale r recv_ns stale_ns)"

definition fix_reference ::
    "('a \<Rightarrow> fix_scales) \<Rightarrow> ('a \<Rightarrow> md_message \<Rightarrow> u64 \<Rightarrow> wire_record list) \<Rightarrow> frame \<Rightarrow> u64 \<Rightarrow>
     ('a, 's) fix_pipeline \<Rightarrow> wire_record list" where
  "fix_reference scales implied fr recv_ns p =
     (case frame_msg_type fr of
        Inl _ \<Rightarrow> []
      | Inr kind \<Rightarrow>
          if \<not> is_market_data kind then []
          else case parse_md_message fr (scales (fp_adapter p)) of
                 Inl _ \<Rightarrow> []
               | Inr msg \<Rightarrow>
                   if (m_seq_num msg < se_next_expected (fp_session p)) \<or> \<not> allows_message (fp_symbols p) msg then []
                   else map (fix_marked recv_ns (fp_stale_ns p)) (implied (fp_adapter p) msg recv_ns))"

lemma fix_mark_stale_eq: "fix_mark_stale = mark_stale"
  by (intro ext) (simp add: fix_mark_stale_def mark_stale_def)

lemma fix_marked_good: "record_good r \<Longrightarrow> record_good (fix_marked recv_ns stale_ns r)"
  by (simp add: fix_marked_def fix_mark_stale_eq mark_stale_good)

lemma fix_heartbeat_record_good:
  "record_good (fix_heartbeat_record v received forwarded now) \<and>
   \<not> is_stale (r_header (fix_heartbeat_record v received forwarded now))"
proof -
  have "fix_heartbeat_record v received forwarded now =
      install (PHeartbeat \<lparr> hb_received = received, hb_forwarded = forwarded \<rparr>)
        (with_header (header_new Heartbeat v (replicate SYMBOL_LEN 0) now))"
    by (simp add: fix_heartbeat_record_def new_heartbeat_def typed_new_def set_defs)
  moreover have "\<not> is_stale (header_new Heartbeat v (replicate SYMBOL_LEN 0) now)"
    by (simp add: is_stale_def has_flags_def header_new_def HEADER_ZEROED_def kind_consts)
  ultimately show ?thesis
    using installed_good [of "header_new Heartbeat v (replicate SYMBOL_LEN 0) now"
        "PHeartbeat \<lparr> hb_received = received, hb_forwarded = forwarded \<rparr>"]
    by (simp add: header_new_valid SYMBOL_LEN_def del: install.simps)
qed

subsection \<open>The invariant\<close>

definition stale_count :: "wire_record list \<Rightarrow> u64" where
  "stale_count log = of_nat (length (filter (\<lambda>r. is_stale (r_header r)) log))"

lemma stale_count_simps [simp]:
  "stale_count [] = 0"
  "stale_count (log @ [r]) = stale_count log + (if is_stale (r_header r) then 1 else 0)"
  by (simp_all add: stale_count_def)

text \<open>
  Every framed message is counted in exactly one of four ways, the drop counter of the sink moved by the
  failures and refusals only, the stale counter counts the records that carry the flag, every record is
  valid, and the records are those of published messages, the heartbeats, and \<open>leaked\<close> ones that were
  published for a message the adapter then refused.
\<close>

definition fix_inv ::
    "('s \<Rightarrow> wire_record list \<Rightarrow> bool) \<Rightarrow> ('s \<Rightarrow> u64) \<Rightarrow> u64 \<Rightarrow> nat \<Rightarrow> wire_record list \<Rightarrow> ('a, 's) fix_pipeline \<Rightarrow> bool" where
  "fix_inv holds drops d0 leaked log p \<longleftrightarrow>
     (let s = fp_stats p
      in holds (fp_sink p) log \<and>
         st_received s = st_market_data s + st_admin s + st_unhandled s + st_decode_failed s \<and>
         of_nat (length log) = st_published s + st_heartbeats s + of_nat leaked \<and>
         drops (fp_sink p) = d0 + fix_stats_dropped s \<and>
         stale_count log = st_stale s \<and> list_all record_good log)"

lemma tally_fields [simp]:
  "fp_symbols (tally f p) = fp_symbols p" "fp_stale_ns (tally f p) = fp_stale_ns p" "fp_session (tally f p) = fp_session p"
  "fp_adapter (tally f p) = fp_adapter p" "fp_sink (tally f p) = fp_sink p" "fp_stats (tally f p) = f (fp_stats p)"
  by (simp_all add: tally_def)

lemma note_verdict_fields [simp]:
  "st_received (note_verdict v s) = st_received s" "st_market_data (note_verdict v s) = st_market_data s"
  "st_admin (note_verdict v s) = st_admin s" "st_unhandled (note_verdict v s) = st_unhandled s"
  "st_decode_failed (note_verdict v s) = st_decode_failed s" "st_published (note_verdict v s) = st_published s"
  "st_heartbeats (note_verdict v s) = st_heartbeats s" "st_refused (note_verdict v s) = st_refused s"
  "st_stale (note_verdict v s) = st_stale s" "st_filtered_symbol (note_verdict v s) = st_filtered_symbol s"
  by (cases v; simp add: note_verdict_def)+

definition fix_config :: "('a, 's) fix_pipeline \<Rightarrow> symbol_filter \<times> u64" where
  "fix_config p = (fp_symbols p, fp_stale_ns p)"

lemmas fix_simps = fix_inv_def Let_def fix_stats_dropped_def

lemma observe_verdict:
  assumes "session_observe seq dup t s = (v, s')"
  shows "seq < se_next_expected s \<longleftrightarrow> (\<exists>a b. v = Duplicate a b \<or> v = Regression a b)"
  using assms by (auto simp: session_observe_def Let_def split: if_splits)

text \<open>The guard over a sink: the sink, and the stale records it let through since \<open>before\<close>.\<close>

definition guard_holds ::
    "('s \<Rightarrow> wire_record list \<Rightarrow> bool) \<Rightarrow> ('s \<Rightarrow> u64) \<Rightarrow> u64 \<Rightarrow> u64 \<Rightarrow> 's \<times> u64 \<Rightarrow> wire_record list \<Rightarrow> bool" where
  "guard_holds holds drops d before g log \<longleftrightarrow>
     holds (fst g) log \<and> drops (fst g) = d \<and> stale_count log = before + snd g"

locale fix_feed = record_sink holds buffer publish note_drops drops + md_adapter ops implied capacity
  for holds :: "'s \<Rightarrow> wire_record list \<Rightarrow> bool"
    and buffer :: "'s \<Rightarrow> wire_record"
    and publish :: "('e, 's) fix_publish"
    and note_drops :: "u64 \<Rightarrow> 's \<Rightarrow> 's"
    and drops :: "'s \<Rightarrow> u64"
    and ops :: "('a, 'e, 's \<times> u64) md_adapter_ops"
    and implied :: "'a \<Rightarrow> md_message \<Rightarrow> u64 \<Rightarrow> wire_record list"
    and capacity :: nat
begin

lemma guard_marking: "marking_sink (guard_holds holds drops d before) (guard_publish publish recv_ns stale_ns) (fix_marked recv_ns stale_ns)"
proof
  fix g :: "'s \<times> u64" and log :: "wire_record list" and r
  assume g: "guard_holds holds drops d before g log" and room: "Suc (length log) < 2 ^ 64" and good: "record_good r" "\<not> is_stale (r_header r)"
  obtain r' hit where mark: "fix_mark_stale r recv_ns stale_ns = (r', hit)"
    by fastforce
  have r': "fix_marked recv_ns stale_ns r = r'" "is_stale (r_header r') = hit"
    using mark mark_stale_flag [OF good(2), of recv_ns stale_ns] by (simp_all add: fix_marked_def fix_mark_stale_eq)
  obtain s' where "publish (\<lambda>_. (r', Inr hit)) (fst g) = (Inr hit, s')" "drops s' = drops (fst g)"
      "holds s' (log @ [set_seq (of_nat (length log)) r'])"
    using publish_spec [of "fst g" log "\<lambda>_. (r', Inr hit)" r' "Inr hit"] g room by (auto simp: guard_holds_def)
  then show "fst (guard_publish publish recv_ns stale_ns (\<lambda>_. (r, Inr ())) g) = Inr () \<and>
      guard_holds holds drops d before (snd (guard_publish publish recv_ns stale_ns (\<lambda>_. (r, Inr ())) g))
        (log @ [set_seq (word_of_nat (length log)) (fix_marked recv_ns stale_ns r)])"
    using g by (simp add: guard_holds_def guard_publish_def mark r')
qed

lemma fix_failed_inv:
  assumes "fix_inv holds drops d0 leaked log p"
  shows "fix_inv holds drops d0 leaked log (snd (fix_failed note_drops e (tally (st_received_update (\<lambda>n. n + 1)) p)))"
  using assms note_drops [of "fp_sink p" log 1] by (auto simp: fix_simps fix_failed_def algebra_simps)

lemma fix_adapt_step:
  fixes p :: "('a, 's) fix_pipeline"
  assumes sink: "holds (fp_sink p) log" and room: "length log + capacity + 1 < 2 ^ 64"
    and stale: "stale_count log = st_stale (fp_stats p)"
    and rs: "rs = map (fix_marked recv_ns (fp_stale_ns p)) (implied (fp_adapter p) msg recv_ns)"
  shows "\<exists>ing p' n. fix_adapt ops publish note_drops msg recv_ns verdict reply p = Inr (ing, p') \<and>
    holds (fp_sink p') (log @ stamp_from (length log) rs) \<and>
    stale_count (log @ stamp_from (length log) rs) = st_stale (fp_stats p) + n \<and>
    in_verdict ing = Some verdict \<and> in_reply ing = reply \<and> \<not> in_disconnect ing \<and>
    fp_session p' = fp_session p \<and> fix_config p' = fix_config p \<and>
    (in_outcome ing = FixPublished (length rs) \<and> drops (fp_sink p') = drops (fp_sink p) \<and>
       fp_stats p' = st_published_update (\<lambda>k. k + of_nat (length rs)) (st_stale_update (\<lambda>k. k + n) (fp_stats p)) \<or>
     (\<exists>e. in_outcome ing = FixRefused e) \<and> drops (fp_sink p') = drops (fp_sink p) + 1 \<and>
       fp_stats p' = st_refused_update (\<lambda>k. k + 1) (st_stale_update (\<lambda>k. k + n) (fp_stats p)))"
proof -
  let ?rs = "implied (fp_adapter p) msg recv_ns"
  have start: "guard_holds holds drops (drops (fp_sink p)) (st_stale (fp_stats p)) (fp_sink p, 0) log"
    using sink stale by (simp add: guard_holds_def)
  have "Suc (length log + length ?rs) < 2 ^ 64"
    using room implied_length [of "fp_adapter p" msg recv_ns] by linarith
  from adapts [OF guard_marking start this, of recv_ns "fp_stale_ns p"]
  obtain res adapter g where run: "ao_adapt ops (fp_adapter p) (guard_publish publish recv_ns (fp_stale_ns p)) msg recv_ns
        (fp_sink p, 0) = (res, adapter, g)"
    and g: "guard_holds holds drops (drops (fp_sink p)) (st_stale (fp_stats p)) g (log @ stamp_from (length log) rs)"
    and res: "res \<noteq> Inl Panic" "\<And>n. res = Inr n \<Longrightarrow> n = length rs"
    unfolding rs by auto
  obtain sink' n where gs: "g = (sink', n)"
    by fastforce
  have g: "holds sink' (log @ stamp_from (length log) rs)" "drops sink' = drops (fp_sink p)"
      "stale_count (log @ stamp_from (length log) rs) = st_stale (fp_stats p) + n"
    using g by (simp_all add: guard_holds_def gs)
  consider (ok) "res = Inr (length rs)" | (refused) e where "res = Inl (Err e)"
    using res by (cases res) (auto, metis fault.exhaust)
  then show ?thesis
  proof cases
    case ok
    then show ?thesis
      using g by (simp add: fix_adapt_def run gs Let_def fix_config_def tally_def)
  next
    case refused
    then show ?thesis
      using g note_drops [OF g(1), of 1]
      by (simp add: fix_adapt_def run gs Let_def fix_config_def tally_def)
  qed
qed

lemma good_stamped: "list_all record_good rs \<Longrightarrow> list_all record_good (stamp_from n rs)"
  by (induction rs arbitrary: n) simp_all

lemma market_data_step:
  fixes p :: "('a, 's) fix_pipeline"
  assumes inv: "fix_inv holds drops d0 leaked log p" and room: "length log + capacity + 1 < 2 ^ 64"
  defines "p1 \<equiv> tally (st_received_update (\<lambda>n. n + 1)) p"
  assumes kind: "frame_msg_type fr = Inr kind" "is_market_data kind" and rs: "rs = fix_reference (ao_scales ops) implied fr recv_ns p"
  shows "\<exists>ing p'. fix_market_data ops publish note_drops fr recv_ns p1 = Inr (ing, p') \<and> fix_config p' = fix_config p \<and>
    fix_inv holds drops d0 (leaked + (case in_outcome ing of FixRefused _ \<Rightarrow> length rs | _ \<Rightarrow> 0))
      (log @ stamp_from (length log) rs) p' \<and>
    (\<forall>n. in_outcome ing = FixPublished n \<longrightarrow> n = length rs)"
proof (cases "parse_md_message fr (ao_scales ops (fp_adapter p))")
  case (Inl e)
  then have "rs = []"
    using kind by (simp add: rs fix_reference_def)
  moreover have "fix_config (snd (fix_failed note_drops e p1)) = fix_config p"
    by (simp add: fix_failed_def fix_config_def p1_def tally_def)
  ultimately show ?thesis
    using Inl fix_failed_inv [OF inv, of e, folded p1_def]
    by (auto simp: fix_market_data_def p1_def fix_failed_def ingested_plain_def)
next
  case (Inr msg)
  obtain v session where obs: "session_observe (m_seq_num msg) (m_poss_dup msg) recv_ns (fp_session p) = (v, session)"
    by fastforce
  let ?p = "tally (note_verdict v) ((tally (st_market_data_update (\<lambda>n. n + 1)) p1)\<lparr> fp_session := session \<rparr>)"
  have inv1: "fix_inv holds drops d0 leaked log ?p"
    using inv by (simp add: fix_simps p1_def algebra_simps)
  have config: "fix_config ?p = fix_config p"
    by (simp add: fix_config_def p1_def)
  show ?thesis
  proof (cases "(\<exists>a b. v = Duplicate a b \<or> v = Regression a b) \<or> \<not> allows_message (fp_symbols p) msg")
    case True
    then have "rs = []"
      using kind Inr observe_verdict [OF obs] by (auto simp: rs fix_reference_def)
    moreover have "fix_inv holds drops d0 leaked log (tally (st_filtered_symbol_update (\<lambda>n. n + 1)) ?p)"
      using inv1 by (simp add: fix_simps)
    ultimately show ?thesis
      using True Inr obs inv1 config
      by (cases v) (auto simp: fix_market_data_def p1_def Let_def fix_config_def)
  next
    case False
    have rs: "rs = map (fix_marked recv_ns (fp_stale_ns ?p)) (implied (fp_adapter ?p) msg recv_ns)"
      using False kind Inr observe_verdict [OF obs] by (auto simp: rs fix_reference_def p1_def)
    define reply where "reply = (case v of Gap e r _ \<Rightarrow> Some (ReplyResendRequest e (r - 1)) | _ \<Rightarrow> None)"
    have run: "fix_market_data ops publish note_drops fr recv_ns p1 = fix_adapt ops publish note_drops msg recv_ns v reply ?p"
      using False Inr obs by (cases v) (auto simp: fix_market_data_def p1_def Let_def reply_def)
    have parts: "holds (fp_sink ?p) log" "stale_count log = st_stale (fp_stats ?p)"
      using inv1 by (simp_all add: fix_simps)
    have good: "list_all record_good (stamp_from (length log) rs)"
      using implied_good fix_marked_good by (intro good_stamped) (auto simp: rs list_all_iff)
    obtain ing p' n where a: "fix_adapt ops publish note_drops msg recv_ns v reply ?p = Inr (ing, p')"
      "holds (fp_sink p') (log @ stamp_from (length log) rs)"
      "stale_count (log @ stamp_from (length log) rs) = st_stale (fp_stats ?p) + n" "fix_config p' = fix_config ?p"
      "in_outcome ing = FixPublished (length rs) \<and> drops (fp_sink p') = drops (fp_sink ?p) \<and>
         fp_stats p' = st_published_update (\<lambda>k. k + of_nat (length rs)) (st_stale_update (\<lambda>k. k + n) (fp_stats ?p)) \<or>
       (\<exists>e. in_outcome ing = FixRefused e) \<and> drops (fp_sink p') = drops (fp_sink ?p) + 1 \<and>
         fp_stats p' = st_refused_update (\<lambda>k. k + 1) (st_stale_update (\<lambda>k. k + n) (fp_stats ?p))"
      using fix_adapt_step [OF parts(1) room parts(2) rs, of v reply] by blast
    have "fix_inv holds drops d0 (leaked + (case in_outcome ing of FixRefused _ \<Rightarrow> length rs | _ \<Rightarrow> 0))
        (log @ stamp_from (length log) rs) p'"
      using a(5) a(2,3) good inv1 by (auto simp: fix_inv_def Let_def fix_stats_dropped_def algebra_simps)
    then show ?thesis
      using a(1,4,5) run config by auto
  qed
qed

lemma admin_keeps:
  assumes inv: "fix_inv holds drops d0 leaked log p"
    and run: "fix_admin note_drops fr recv_ns (tally (st_received_update (\<lambda>n. n + 1)) p) = (ing, p')"
  shows "fix_inv holds drops d0 leaked log p' \<and> fix_config p' = fix_config p"
proof (cases "parse_admin_message fr")
  case (Inl e)
  then show ?thesis
    using fix_failed_inv [OF inv, of e] run by (auto simp: fix_admin_def fix_config_def fix_failed_def)
next
  case (Inr msg)
  then show ?thesis
    using inv run by (auto simp: fix_admin_def fix_simps fix_config_def algebra_simps split: prod.splits if_splits)
qed

lemma ingest_step:
  fixes p :: "('a, 's) fix_pipeline"
  assumes inv: "fix_inv holds drops d0 leaked log p" and room: "length log + capacity + 1 < 2 ^ 64"
    and rs: "rs = fix_reference (ao_scales ops) implied fr recv_ns p"
  shows "\<exists>ing p'. fix_ingest ops publish note_drops fr recv_ns p = Inr (ing, p') \<and> fix_config p' = fix_config p \<and>
    fix_inv holds drops d0 (leaked + (case in_outcome ing of FixRefused _ \<Rightarrow> length rs | _ \<Rightarrow> 0))
      (log @ stamp_from (length log) rs) p' \<and>
    (\<forall>n. in_outcome ing = FixPublished n \<longrightarrow> n = length rs)"
proof (cases "frame_msg_type fr")
  case (Inl e)
  then have "rs = []"
    by (simp add: rs fix_reference_def)
  then show ?thesis
    using Inl fix_failed_inv [OF inv, of e]
    by (auto simp: fix_ingest_def fix_failed_def ingested_plain_def fix_config_def)
next
  case (Inr kind)
  show ?thesis
  proof (cases "is_market_data kind")
    case True
    then show ?thesis
      using market_data_step [OF inv room Inr True rs] Inr by (simp add: fix_ingest_def Let_def)
  next
    case False
    then have rs: "rs = []"
      using Inr by (simp add: rs fix_reference_def)
    show ?thesis
    proof (cases "is_admin kind")
      case True
      obtain ing p' where a: "fix_admin note_drops fr recv_ns (tally (st_received_update (\<lambda>n. n + 1)) p) =
          (ing :: 'e ingested, p')"
        by fastforce
      then have "\<not> (\<exists>n. in_outcome ing = FixPublished n)" "\<not> (\<exists>e. in_outcome ing = FixRefused e)"
        by (auto simp: fix_admin_def fix_failed_def ingested_plain_def Let_def split: sum.splits prod.splits if_splits)
      then show ?thesis
        using admin_keeps [OF inv a] False True Inr a
        by (cases "in_outcome ing") (auto simp: fix_ingest_def rs)
    next
      case admin: False
      have "fix_inv holds drops d0 leaked log (tally (st_unhandled_update (\<lambda>n. n + 1)) (tally (st_received_update (\<lambda>n. n + 1)) p))"
        using inv by (simp add: fix_simps algebra_simps)
      then show ?thesis
        using False admin Inr by (simp add: fix_ingest_def rs ingested_plain_def fix_config_def)
    qed
  qed
qed

lemma heartbeat_step:
  fixes p :: "('a, 's) fix_pipeline"
  assumes inv: "fix_inv holds drops d0 leaked log p" and room: "Suc (length log) < 2 ^ 64"
    and r: "r = fix_heartbeat_record (ao_venue ops (fp_adapter p)) (st_received (fp_stats p)) (st_published (fp_stats p)) now"
  shows "fix_inv holds drops d0 leaked (log @ [set_seq (of_nat (length log)) r]) (fix_heartbeat ops publish now p) \<and>
    fix_config (fix_heartbeat ops publish now p) = fix_config p"
proof -
  obtain sink' where pub: "publish (\<lambda>_. (r, Inr False)) (fp_sink p) = (Inr False, sink')"
    "drops sink' = drops (fp_sink p)" "holds sink' (log @ [set_seq (of_nat (length log)) r])"
    using publish_spec [of "fp_sink p" log "\<lambda>_. (r, Inr False)" r "Inr False"] inv room by (auto simp: fix_simps)
  have "record_good r" "\<not> is_stale (r_header r)"
    using fix_heartbeat_record_good by (simp_all add: r)
  then show ?thesis
    using pub inv unfolding fix_heartbeat_def r [symmetric] by (simp add: fix_simps fix_config_def algebra_simps)
qed

end

lemma snapshot_ops_scales: "ao_scales snapshot_ops = sa_scales"
  by (simp add: snapshot_ops_def)

interpretation ring_feed: fix_feed ring_holds ring_buffer ring_sink_publish ring_sink_note_drops ring_sink_drops
  snapshot_ops adapter_implied 255
  by unfold_locales

lemma fix_pipeline_new_inv:
  "ring_holds s [] \<Longrightarrow> fix_inv ring_holds ring_sink_drops (ring_sink_drops s) 0 [] (fix_pipeline_new f st ad s)"
  by (simp add: fix_simps fix_pipeline_new_def fix_stats_default_def)

subsection \<open>The pipeline on the ring\<close>

type_synonym fix_feed_state = "(snapshot_adapter, ring_sink) fix_pipeline"

definition ring_ingest :: "frame \<Rightarrow> u64 \<Rightarrow> fix_feed_state \<Rightarrow> (adapt_error, adapt_error ingested \<times> fix_feed_state) res" where
  "ring_ingest = fix_ingest snapshot_ops ring_sink_publish ring_sink_note_drops"

text \<open>
  C5. What a message publishes. On the ring and with the code's adapter, no frame makes the pipeline
  panic; the ring gains exactly the records of the reference - none unless the frame is market data that
  decodes, is new or leaves a gap, and names a symbol that is kept, and then what the adapter implies,
  marked by age - under the next sequences. Every frame is counted in exactly one way, drops and stale
  records are counted exactly, and every record is valid. A published message is counted with the
  records it published; those of a refused message are in the ring and in no counter.
\<close>

theorem fix_ingest_reference:
  assumes "fix_inv ring_holds ring_sink_drops d0 leaked log p" and "length log + 256 < 2 ^ 64"
  shows "\<exists>ing p'. ring_ingest fr recv_ns p = Inr (ing, p') \<and>
    (let rs = fix_reference sa_scales adapter_implied fr recv_ns p
     in fix_inv ring_holds ring_sink_drops d0 (leaked + (case in_outcome ing of FixRefused _ \<Rightarrow> length rs | _ \<Rightarrow> 0))
          (log @ stamp_from (length log) rs) p' \<and>
        (\<forall>n. in_outcome ing = FixPublished n \<longrightarrow> n = length rs))"
proof -
  have "length log + 255 + 1 < 2 ^ 64"
    using assms(2) by simp
  from ring_feed.ingest_step [OF assms(1) this refl, of fr recv_ns] show ?thesis
    unfolding ring_ingest_def Let_def snapshot_ops_scales by blast
qed

text \<open>A frame of the given fields, and a pipeline on the ring of four slots.\<close>

definition demo_frame :: "(bytes \<times> bytes) list \<Rightarrow> frame" where
  "demo_frame fs = \<lparr> fr_bytes = [], fr_begin = [], fr_body = body_text fs \<rparr>"

definition demo_feed :: fix_feed_state where
  "demo_feed = fix_pipeline_new symbol_filter_all 0 demo_adapter demo_sink"

lemma demo_feed_inv: "fix_inv ring_holds ring_sink_drops (ring_sink_drops demo_sink) 0 [] demo_feed"
  unfolding demo_feed_def by (rule fix_pipeline_new_inv) (use demo_holds in \<open>simp add: demo_sink_def\<close>)

theorem fix_ingest_reference_witness:
  "\<exists>ing p'. ring_ingest (demo_frame []) 9 demo_feed = Inr (ing, p') \<and>
     fix_inv ring_holds ring_sink_drops (ring_sink_drops demo_sink) 0 [] p'"
proof -
  have "frame_msg_type (demo_frame []) = Inl (MissingTag TAG_MSG_TYPE)"
    by (simp add: frame_msg_type_def demo_frame_def frame_fields_def fields_new_def msg_type_loop.simps
        fields_next_def fields_rest_def body_text_def)
  then have "fix_reference sa_scales adapter_implied (demo_frame []) 9 demo_feed = []"
    by (simp add: fix_reference_def)
  then obtain ing p' where "ring_ingest (demo_frame []) 9 demo_feed = Inr (ing, p')"
      "fix_inv ring_holds ring_sink_drops (ring_sink_drops demo_sink) (case in_outcome ing of FixRefused _ \<Rightarrow> length ([] :: wire_record list) | _ \<Rightarrow> 0) [] p'"
    using fix_ingest_reference [OF demo_feed_inv, of "demo_frame []" 9] by (auto simp: Let_def)
  then show ?thesis
    by (cases "in_outcome ing") auto
qed

subsection \<open>The session protocol\<close>

lemma observe_cases:
  assumes "session_observe seq dup t s = (v, s')"
  shows "case v of
      InOrder \<Rightarrow> seq = se_next_expected s
    | Gap first received missing \<Rightarrow> first = se_next_expected s \<and> received = seq \<and> first < received \<and> missing = received - first
    | Duplicate _ received \<Rightarrow> received = seq \<and> received < se_next_expected s
    | Regression _ received \<Rightarrow> received = seq \<and> received < se_next_expected s"
  using assms by (auto simp: session_observe_def Let_def split: if_splits)

text \<open>What a verdict owes, whatever the message.\<close>

definition owed :: "frame \<Rightarrow> 'e ingested \<Rightarrow> ('a, 's) fix_pipeline \<Rightarrow> bool" where
  "owed fr ing p \<longleftrightarrow> (case in_verdict ing of
      Some (Gap first received missing) \<Rightarrow>
        first < received \<and> missing = received - first \<and> first = se_next_expected (fp_session p) \<and>
        in_reply ing = Some (ReplyResendRequest first (received - 1)) \<and> \<not> in_disconnect ing
    | Some (Regression _ received) \<Rightarrow>
        received < se_next_expected (fp_session p) \<and>
        in_reply ing = Some (ReplyLogout REGRESSION_TEXT) \<and> in_disconnect ing \<and>
        (in_outcome ing = FixRegression \<or> (\<exists>t. in_outcome ing = FixAdmin t))
    | Some (Duplicate _ received) \<Rightarrow>
        received < se_next_expected (fp_session p) \<and>
        in_reply ing = None \<and> \<not> in_disconnect ing \<and>
        (in_outcome ing = FixDuplicate \<or> (\<exists>t. in_outcome ing = FixAdmin t))
    | _ \<Rightarrow>
        (case in_outcome ing of
           FixAdmin TestRequest \<Rightarrow>
             (\<exists>msg. parse_admin_message fr = Inr msg \<and> in_reply ing = Some (ReplyHeartbeat (a_test_req_id msg))) \<and>
             \<not> in_disconnect ing
         | FixAdmin ResendRequest \<Rightarrow> in_reply ing = Some (ReplySequenceReset 0) \<and> \<not> in_disconnect ing
         | FixAdmin Logout \<Rightarrow> in_reply ing = Some (ReplyLogout LOGOUT_TEXT) \<and> in_disconnect ing
         | _ \<Rightarrow> in_reply ing = None \<and> \<not> in_disconnect ing))"

lemma owed_plain: "(case outcome of FixAdmin _ \<Rightarrow> False | _ \<Rightarrow> True) \<Longrightarrow> owed fr (ingested_plain outcome) p"
  by (cases outcome) (simp_all add: owed_def ingested_plain_def)

lemma fix_adapt_fields:
  "fix_adapt ops publish note_drops msg recv_ns v reply p = Inr (ing, p') \<Longrightarrow>
   in_verdict ing = Some v \<and> in_reply ing = reply \<and> \<not> in_disconnect ing \<and> (\<forall>t. in_outcome ing \<noteq> FixAdmin t)"
  by (auto simp: fix_adapt_def Let_def split: prod.splits sum.splits fault.splits)

lemma fix_market_data_owed:
  assumes "fix_market_data ops publish note_drops fr recv_ns p = Inr (ing, p')"
  shows "owed fr ing p"
proof (cases "parse_md_message fr (ao_scales ops (fp_adapter p))")
  case (Inl e)
  then show ?thesis
    using assms owed_plain [of "FixFailed e"] by (auto simp: fix_market_data_def fix_failed_def)
next
  case (Inr msg)
  obtain v session where obs: "session_observe (m_seq_num msg) (m_poss_dup msg) recv_ns (fp_session p) = (v, session)"
    by fastforce
  note v = observe_cases [OF obs]
  have step: "fix_market_data ops publish note_drops fr recv_ns p =
      (let p = tally (note_verdict v) ((tally (st_market_data_update (\<lambda>n. n + 1)) p)\<lparr> fp_session := session \<rparr>);
           go_on = (\<lambda>reply.
                if \<not> allows_message (fp_symbols p) msg then
                  Inr (\<lparr> in_outcome = FixFilteredSymbol, in_verdict = Some v, in_reply = reply, in_disconnect = False \<rparr>,
                    tally (st_filtered_symbol_update (\<lambda>n. n + 1)) p)
                else fix_adapt ops publish note_drops msg recv_ns v reply p)
       in case v of
               Duplicate _ _ \<Rightarrow>
                 Inr (\<lparr> in_outcome = FixDuplicate, in_verdict = Some v, in_reply = None, in_disconnect = False \<rparr>, p)
             | Regression _ _ \<Rightarrow>
                 Inr (\<lparr> in_outcome = FixRegression, in_verdict = Some v, in_reply = Some (ReplyLogout REGRESSION_TEXT),
                        in_disconnect = True \<rparr>, p)
             | Gap first received _ \<Rightarrow> go_on (Some (ReplyResendRequest first (received - 1)))
             | InOrder \<Rightarrow> go_on None)"
    using Inr obs by (simp add: fix_market_data_def)
  show ?thesis
  proof (cases v)
    case InOrder
    then show ?thesis
      using assms unfolding step
      by (auto simp: Let_def owed_def split: if_splits fix_outcome.splits dest!: fix_adapt_fields)
  next
    case (Gap f r m)
    then show ?thesis
      using assms v unfolding step
      by (auto simp: Let_def owed_def split: if_splits dest!: fix_adapt_fields)
  qed (use assms v in \<open>auto simp: step owed_def fix_published_def\<close>)
qed

lemma fix_admin_owed:
  assumes "fix_admin note_drops fr recv_ns p = (ing, p')"
  shows "owed fr ing p"
proof (cases "parse_admin_message fr")
  case (Inl e)
  then show ?thesis
    using assms owed_plain [of "FixFailed e"] by (auto simp: fix_admin_def fix_failed_def)
next
  case (Inr msg)
  obtain v session where obs: "session_observe (a_seq_num msg) (a_poss_dup msg) recv_ns (fp_session p) = (v, session)"
    by fastforce
  note v = observe_cases [OF obs]
  have parts: "in_verdict ing = (if a_type msg = SequenceReset \<and> \<not> a_gap_fill msg then None else Some v)"
      "(in_reply ing, in_disconnect ing) = fix_answer msg (in_verdict ing)" "in_outcome ing = FixAdmin (a_type msg)"
    using assms Inr obs by (auto simp: fix_admin_def Let_def split: prod.splits if_splits)
  show ?thesis
    using parts v Inr
    by (cases v) (auto simp: owed_def fix_answer_def fix_published_def Let_def split: msg_type.splits if_splits)
qed

lemma demo_frame_admin:
  assumes "list_all (\<lambda>(tag, v). tag_ok tag \<and> SOH \<notin> set v) fs"
  shows "parse_admin_message (demo_frame fs) = and_then (step_fields admin_step fs (ADMIN_MESSAGE_EMPTY, False, False))
       (\<lambda>(m, have_type, have_seq).
          if \<not> have_type then Inl (MissingTag TAG_MSG_TYPE)
          else if \<not> have_seq then Inl (MissingTag TAG_MSG_SEQ_NUM)
          else Inr m)"
  using for_fields_text [OF assms, of admin_step "[]"]
  by (simp add: parse_admin_message_def demo_frame_def frame_fields_def fields_new_def)

text \<open>The answer to a resend request by a counterparty with nothing to replay: a gap fill, resent.\<close>

definition gap_fill_frame :: frame where
  "gap_fill_frame = demo_frame
     [([0x33, 0x35], [0x34]), ([0x33, 0x34], [0x32]), ([0x34, 0x33], [0x59]), ([0x31, 0x32, 0x33], [0x59]), ([0x33, 0x36], [0x34])]"

lemma gap_fill_parses:
  "frame_msg_type gap_fill_frame = Inr SequenceReset"
  "parse_admin_message gap_fill_frame = Inr (ADMIN_MESSAGE_EMPTY\<lparr> a_type := SequenceReset, a_seq_num := 2,
     a_poss_dup := True, a_gap_fill := True, a_new_seq_no := Some 4 \<rparr>)"
proof -
  have ok: "list_all (\<lambda>(tag, v). tag_ok tag \<and> SOH \<notin> set v)
      [([0x33, 0x35], [0x34]), ([0x33, 0x34], [0x32]), ([0x34, 0x33], [0x59]), ([0x31, 0x32, 0x33], [0x59]), ([0x33, 0x36], [0x34 :: u8])]"
    by (simp add: tag_ok_def SOH_def digits_def is_digit_def)
  show "parse_admin_message gap_fill_frame = Inr (ADMIN_MESSAGE_EMPTY\<lparr> a_type := SequenceReset, a_seq_num := 2,
     a_poss_dup := True, a_gap_fill := True, a_new_seq_no := Some 4 \<rparr>)"
    unfolding gap_fill_frame_def demo_frame_admin [OF ok]
    by (simp add: dec_value_Cons admin_step_def md_tag_defs admin_tag_defs Let_def msg_type_from_value_def is_admin_def
        field_as_u64_def fix_parse_u64_eq digits_def is_digit_def ok_or_def field_is_yes_def)
  have "field_text tag v \<noteq> []" for tag v
    by (simp add: field_text_def)
  then show "frame_msg_type gap_fill_frame = Inr SequenceReset"
    unfolding gap_fill_frame_def
    by (simp add: frame_msg_type_def demo_frame_def frame_fields_def fields_new_def msg_type_loop.simps
        fields_next_def fields_rest_def body_text_def split_field_text [of "[0x33, 0x35]" "[0x34]"] tag_ok_def SOH_def
        digits_def is_digit_def dec_value_Cons md_tag_defs msg_type_from_value_def Let_def)
qed

lemma gap_fill_ingested:
  "\<exists>ing p'. ring_ingest gap_fill_frame 9 p = Inr (ing, p') \<and>
     in_verdict ing = Some (fst (session_observe 2 True 9 (fp_session p)))"
  using gap_fill_parses
  by (auto simp: ring_ingest_def fix_ingest_def fix_admin_def is_market_data_def is_admin_def Let_def split: prod.split)

text \<open>What of the sink a frame can change: it is written to only when a message is adapted.\<close>

lemma fix_market_data_sink:
  assumes "fix_market_data ops publish note_drops fr recv_ns p = Inr (ing, p')"
  shows "case in_outcome ing of
      FixPublished _ \<Rightarrow> True
    | FixRefused _ \<Rightarrow> True
    | FixFailed _ \<Rightarrow> fp_sink p' = note_drops 1 (fp_sink p)
    | _ \<Rightarrow> fp_sink p' = fp_sink p"
proof (cases "parse_md_message fr (ao_scales ops (fp_adapter p))")
  case (Inl e)
  then show ?thesis
    using assms by (auto simp: fix_market_data_def fix_failed_def ingested_plain_def)
next
  case (Inr msg)
  then show ?thesis
    using assms
    by (auto simp: fix_market_data_def fix_adapt_def Let_def split: prod.splits sum.splits fault.splits seq_verdict.splits if_splits)
qed

lemma fix_admin_sink:
  assumes "fix_admin note_drops fr recv_ns p = (ing, p')"
  shows "case in_outcome ing of
      FixAdmin _ \<Rightarrow> fp_sink p' = fp_sink p
    | FixFailed _ \<Rightarrow> fp_sink p' = note_drops 1 (fp_sink p)
    | _ \<Rightarrow> False"
  using assms by (auto simp: fix_admin_def fix_failed_def ingested_plain_def Let_def split: prod.splits sum.splits if_splits)

lemma fix_ingest_sink:
  assumes "fix_ingest ops publish note_drops fr recv_ns p = Inr (ing, p')"
  shows "case in_outcome ing of
      FixPublished _ \<Rightarrow> True
    | FixRefused _ \<Rightarrow> True
    | FixFailed _ \<Rightarrow> fp_sink p' = note_drops 1 (fp_sink p)
    | _ \<Rightarrow> fp_sink p' = fp_sink p"
proof (cases "frame_msg_type fr")
  case (Inl e)
  then show ?thesis
    using assms by (auto simp: fix_ingest_def fix_failed_def ingested_plain_def)
next
  case (Inr kind)
  let ?p = "tally (st_received_update (\<lambda>n. n + 1)) p"
  consider (data) "is_market_data kind" | (admin) "\<not> is_market_data kind" "is_admin kind"
    | (other) "\<not> is_market_data kind" "\<not> is_admin kind" by blast
  then show ?thesis
  proof cases
    case data
    then have "fix_market_data ops publish note_drops fr recv_ns ?p = Inr (ing, p')"
      using assms Inr by (simp add: fix_ingest_def Let_def)
    from fix_market_data_sink [OF this] show ?thesis
      unfolding tally_fields .
  next
    case admin
    then have "fix_admin note_drops fr recv_ns ?p = (ing, p')"
      using assms Inr by (simp add: fix_ingest_def Let_def)
    from fix_admin_sink [OF this] show ?thesis
      unfolding tally_fields by (auto split: fix_outcome.splits)
  next
    case other
    then show ?thesis
      using assms Inr by (auto simp: fix_ingest_def ingested_plain_def Let_def)
  qed
qed

text \<open>
  C10. What the counterparty is owed, and what a frame may write. Whatever the venue and the sink, one frame
  owes at most one reply, decided by its verdict: a gap asks for exactly the missing numbers and keeps the
  connection - also when the message is a logout, although the documentation puts the logout first; a
  backwards number is answered with a logout and a disconnect; a resend of an old number owes nothing;
  otherwise only a test request, a resend request or a logout is answered - the test request with its own
  id -, and only a logout disconnects. A backwards number and a resend leave the sink as it was, and so does
  every other frame that is neither adapted nor damaged; a damaged one is a drop noted and nothing else.
\<close>

theorem fix_reply_protocol:
  assumes "fix_ingest ops publish note_drops fr recv_ns p = Inr (ing, p')"
  shows "(case in_verdict ing of
      Some (Gap first received missing) \<Rightarrow>
        first < received \<and> missing = received - first \<and> first = se_next_expected (fp_session p) \<and>
        in_reply ing = Some (ReplyResendRequest first (received - 1)) \<and> \<not> in_disconnect ing
    | Some (Regression _ received) \<Rightarrow>
        received < se_next_expected (fp_session p) \<and>
        in_reply ing = Some (ReplyLogout REGRESSION_TEXT) \<and> in_disconnect ing \<and>
        \<not> fix_published (in_outcome ing) \<and> fp_sink p' = fp_sink p
    | Some (Duplicate _ received) \<Rightarrow>
        received < se_next_expected (fp_session p) \<and>
        in_reply ing = None \<and> \<not> in_disconnect ing \<and>
        \<not> fix_published (in_outcome ing) \<and> fp_sink p' = fp_sink p
    | _ \<Rightarrow>
        (case in_outcome ing of
           FixAdmin TestRequest \<Rightarrow>
             (\<exists>msg. parse_admin_message fr = Inr msg \<and> in_reply ing = Some (ReplyHeartbeat (a_test_req_id msg))) \<and>
             \<not> in_disconnect ing
         | FixAdmin ResendRequest \<Rightarrow> in_reply ing = Some (ReplySequenceReset 0) \<and> \<not> in_disconnect ing
         | FixAdmin Logout \<Rightarrow> in_reply ing = Some (ReplyLogout LOGOUT_TEXT) \<and> in_disconnect ing
         | _ \<Rightarrow> in_reply ing = None \<and> \<not> in_disconnect ing)) \<and>
    (case in_outcome ing of
       FixPublished _ \<Rightarrow> True
     | FixRefused _ \<Rightarrow> True
     | FixFailed _ \<Rightarrow> fp_sink p' = note_drops 1 (fp_sink p)
     | _ \<Rightarrow> fp_sink p' = fp_sink p)"
proof -
  have owed: "owed fr ing p"
  proof (cases "frame_msg_type fr")
    case (Inl e)
    then show ?thesis
      using assms owed_plain [of "FixFailed e"] by (auto simp: fix_ingest_def fix_failed_def)
  next
    case (Inr kind)
    have "owed fr ing (tally (st_received_update (\<lambda>n. n + 1)) p)"
      using assms Inr owed_plain [of "FixUnhandled kind"] fix_market_data_owed fix_admin_owed
      by (auto simp: fix_ingest_def Let_def split: if_splits)
    then show ?thesis
      unfolding owed_def tally_fields .
  qed
  note sink = fix_ingest_sink [OF assms]
  have "\<not> fix_published (in_outcome ing) \<and> fp_sink p' = fp_sink p"
    if "in_outcome ing = FixRegression \<or> in_outcome ing = FixDuplicate \<or> (\<exists>t. in_outcome ing = FixAdmin t)"
    using that sink by (auto simp: fix_published_def)
  with owed sink show ?thesis
    unfolding owed_def by (intro conjI) (auto split: option.splits seq_verdict.splits)
qed

theorem fix_reply_protocol_witness:
  "\<exists>ing p'. ring_ingest gap_fill_frame 9 demo_feed = Inr (ing, p') \<and> in_reply ing = Some (ReplyResendRequest 1 1)"
proof -
  obtain ing p' where run: "ring_ingest gap_fill_frame 9 demo_feed = Inr (ing, p')"
      "in_verdict ing = Some (Gap 1 2 1)"
    using gap_fill_ingested [of demo_feed]
    by (auto simp: demo_feed_def fix_pipeline_new_def session_new_def session_observe_eqs)
  then show ?thesis
    using fix_reply_protocol [OF run(1) [unfolded ring_ingest_def]] unfolding run(2) by auto
qed

text \<open>
  C40. A resent gap fill rewinds the session. When a counterparty answers a resend request with a gap fill
  - a sequence reset with \<open>GapFillFlag\<close> and \<open>PossDupFlag\<close>, numbered inside the missing range - the
  verdict is \<open>Duplicate\<close>, but the number it names is installed all the same, although it lies below the
  one expected: the next live message, numbered as it should be, is then judged a gap, and messages that
  were received are counted as lost and asked for again.
\<close>

theorem gap_fill_rewinds:
  assumes "frame_msg_type fr = Inr SequenceReset" and "parse_admin_message fr = Inr msg"
    and "a_type msg = SequenceReset" "a_gap_fill msg" "a_poss_dup msg" "a_new_seq_no msg = Some n"
    and "a_seq_num msg < n" and "n < se_next_expected (fp_session p)"
    and "fix_ingest ops publish note_drops fr recv_ns p = Inr (ing, p')"
  shows "in_verdict ing = Some (Duplicate (se_next_expected (fp_session p)) (a_seq_num msg)) \<and>
    se_next_expected (fp_session p') = n \<and>
    fst (session_observe (se_next_expected (fp_session p)) dup t (fp_session p')) =
      Gap n (se_next_expected (fp_session p)) (se_next_expected (fp_session p) - n)"
proof -
  have "a_seq_num msg < se_next_expected (fp_session p)"
    using assms(7,8) by (rule less_trans)
  then have obs: "session_observe (a_seq_num msg) True recv_ns (fp_session p) =
      (Duplicate (se_next_expected (fp_session p)) (a_seq_num msg),
       (fp_session p)\<lparr> se_observed := se_observed (fp_session p) + 1, se_last_recv_ns := recv_ns,
          se_duplicates := se_duplicates (fp_session p) + 1 \<rparr>)"
    by (simp add: session_observe_eqs)
  have "\<not> is_market_data SequenceReset" "is_admin SequenceReset"
    by (simp_all add: is_market_data_def is_admin_def)
  then have "in_verdict ing = Some (Duplicate (se_next_expected (fp_session p)) (a_seq_num msg)) \<and>
      se_next_expected (fp_session p') = n"
    using assms obs by (auto simp: fix_ingest_def fix_admin_def Let_def session_apply_admin_def split: prod.splits)
  then show ?thesis
    using assms(8) by (simp add: session_observe_eqs)
qed


theorem gap_fill_rewinds_witness:
  "\<exists>ing p'. ring_ingest gap_fill_frame 9 (demo_feed\<lparr> fp_session := session_new\<lparr> se_next_expected := 5 \<rparr> \<rparr>) = Inr (ing, p') \<and>
     in_verdict ing = Some (Duplicate 5 2) \<and> fst (session_observe 5 False 10 (fp_session p')) = Gap 4 5 1"
proof -
  let ?p = "demo_feed\<lparr> fp_session := session_new\<lparr> se_next_expected := 5 \<rparr> \<rparr>"
  obtain ing p' where run: "ring_ingest gap_fill_frame 9 ?p = Inr (ing, p')"
    using gap_fill_ingested [of ?p] by blast
  show ?thesis
    using gap_fill_rewinds [OF gap_fill_parses, of 4 ?p snapshot_ops ring_sink_publish ring_sink_note_drops 9 ing p' False 10] run
    by (simp add: ring_ingest_def)
qed

end
