(* ===== verification/Fix_Emit.thy ===== *)
theory Fix_Emit
  imports Fix_Session
begin

text \<open>
  Outbound session messages (jeed-fix recv/emit.rs): the writer with its sticky overflow, the sending
  time, and the builders of every message the handler sends. A closure that writes fields is a
  function on writers. Buffers keep their length; a builder returns the buffer it wrote into, whether
  it succeeded or not.
\<close>

subsection \<open>The writer\<close>

record writer =
  w_buf :: bytes
  w_len :: nat
  w_full :: bool

definition writer_new :: "bytes \<Rightarrow> writer" where
  "writer_new buf = \<lparr> w_buf = buf, w_len = 0, w_full = False \<rparr>"

definition writer_at :: "bytes \<Rightarrow> nat \<Rightarrow> writer" where
  "writer_at buf at = \<lparr> w_buf = buf, w_len = min at (length buf), w_full = (at > length buf) \<rparr>"

definition w_byte :: "u8 \<Rightarrow> writer \<Rightarrow> writer" where
  "w_byte b w =
     (if w_len w < length (w_buf w)
      then w\<lparr> w_buf := (w_buf w)[w_len w := b], w_len := w_len w + 1 \<rparr>
      else w\<lparr> w_full := True \<rparr>)"

definition w_bytes :: "bytes \<Rightarrow> writer \<Rightarrow> writer" where
  "w_bytes bs w =
     (if w_len w + length bs > length (w_buf w) then w\<lparr> w_full := True \<rparr>
      else w\<lparr> w_buf := take (w_len w) (w_buf w) @ bs @ drop (w_len w + length bs) (w_buf w),
             w_len := w_len w + length bs \<rparr>)"

text \<open>The digits of a number from the last to the first, as the loop finds them.\<close>

fun low_digits :: "nat \<Rightarrow> bytes" where
  "low_digits v = (0x30 + word_of_nat (v mod 10)) # (if v div 10 = 0 then [] else low_digits (v div 10))"

declare low_digits.simps [simp del]

definition w_each :: "bytes \<Rightarrow> writer \<Rightarrow> writer" where
  "w_each bs w = fold w_byte bs w"

definition w_u64 :: "u64 \<Rightarrow> writer \<Rightarrow> writer" where
  "w_u64 v w = w_each (rev (low_digits (unat v))) w"

definition w_pad :: "u64 \<Rightarrow> nat \<Rightarrow> writer \<Rightarrow> writer" where
  "w_pad v width w =
     (let ds = low_digits (unat v)
      in w_each (rev ds) (w_each (replicate (width - length ds) 0x30) w))"

definition w_tag :: "u32 \<Rightarrow> bytes \<Rightarrow> writer \<Rightarrow> writer" where
  "w_tag tag v w = w_byte SOH (w_bytes v (w_byte 0x3D (w_u64 (ucast tag) w)))"

definition w_tag_u64 :: "u32 \<Rightarrow> u64 \<Rightarrow> writer \<Rightarrow> writer" where
  "w_tag_u64 tag v w = w_byte SOH (w_u64 v (w_byte 0x3D (w_u64 (ucast tag) w)))"

definition w_finish :: "writer \<Rightarrow> nat option" where
  "w_finish w = (if w_full w then None else Some (w_len w))"

subsection \<open>The sending time\<close>

text \<open>
  \<open>civil\_from\_days\<close>: the argument is a number of days of a \<open>u64\<close> of nanoseconds, so no step leaves
  \<open>i64\<close>; integers stand for its values.
\<close>

definition civil_from_days :: "int \<Rightarrow> int \<times> int \<times> int" where
  "civil_from_days z =
     (let z = z + 719468;
          era = (if z \<ge> 0 then z else z - 146096) sdiv 146097;
          doe = z - era * 146097;
          yoe = (doe - doe sdiv 1460 + doe sdiv 36524 - doe sdiv 146096) sdiv 365;
          y = yoe + era * 400;
          doy = doe - (365 * yoe + yoe sdiv 4 - yoe sdiv 100);
          mp = (5 * doy + 2) sdiv 153;
          d = doy - (153 * mp + 2) sdiv 5 + 1;
          m = (if mp < 10 then mp + 3 else mp - 9)
      in (if m \<le> 2 then y + 1 else y, m, d))"

definition write_sending_time :: "u64 \<Rightarrow> bytes \<Rightarrow> nat \<times> bytes" where
  "write_sending_time now out =
     (let secs = now div FIX_NS_PER_SEC;
          millis = (now mod FIX_NS_PER_SEC) div 1000000;
          days = uint (secs div 86400);
          sod = secs mod 86400
      in case civil_from_days days of (y, m, d) \<Rightarrow>
         let w = writer_new out;
             w = w_pad (word_of_int (y mod 10000)) 4 w;
             w = w_pad (word_of_int m) 2 w;
             w = w_pad (word_of_int d) 2 w;
             w = w_byte 0x2D w;
             w = w_pad (sod div 3600) 2 w;
             w = w_byte 0x3A w;
             w = w_pad ((sod div 60) mod 60) 2 w;
             w = w_byte 0x3A w;
             w = w_pad (sod mod 60) 2 w;
             w = w_byte 0x2E w;
             w = w_pad millis 3 w
         in (case w_finish w of Some n \<Rightarrow> n | None \<Rightarrow> 0, w_buf w))"

subsection \<open>The emitter\<close>

definition MAX_EMIT_LEN :: nat where "MAX_EMIT_LEN = 4096"
definition FIX_BEGIN_STRING :: bytes where "FIX_BEGIN_STRING = [0x46, 0x49, 0x58, 0x2E, 0x34, 0x2E, 0x34]"

definition OUT_SENDER_COMP_ID :: u32 where "OUT_SENDER_COMP_ID = 49"
definition OUT_TARGET_COMP_ID :: u32 where "OUT_TARGET_COMP_ID = 56"
definition OUT_TEXT :: u32 where "OUT_TEXT = 58"
definition OUT_ENCRYPT_METHOD :: u32 where "OUT_ENCRYPT_METHOD = 98"
definition OUT_RESET_SEQ_NUM_FLAG :: u32 where "OUT_RESET_SEQ_NUM_FLAG = 141"
definition OUT_SUBSCRIPTION_TYPE :: u32 where "OUT_SUBSCRIPTION_TYPE = 263"
definition OUT_MARKET_DEPTH :: u32 where "OUT_MARKET_DEPTH = 264"
definition OUT_MD_UPDATE_TYPE :: u32 where "OUT_MD_UPDATE_TYPE = 265"
definition OUT_NO_MD_ENTRY_TYPES :: u32 where "OUT_NO_MD_ENTRY_TYPES = 267"
definition OUT_NO_RELATED_SYM :: u32 where "OUT_NO_RELATED_SYM = 146"

lemmas out_tag_defs =
  OUT_SENDER_COMP_ID_def OUT_TARGET_COMP_ID_def OUT_TEXT_def OUT_ENCRYPT_METHOD_def
  OUT_RESET_SEQ_NUM_FLAG_def OUT_SUBSCRIPTION_TYPE_def OUT_MARKET_DEPTH_def OUT_MD_UPDATE_TYPE_def
  OUT_NO_MD_ENTRY_TYPES_def OUT_NO_RELATED_SYM_def

datatype emit_error = EmitError nat

record emitter =
  em_begin_string :: bytes
  em_begin_len :: u8
  em_sender :: fix_text
  em_target :: fix_text
  em_next_seq :: u64
  em_last_sent_ns :: u64
  em_body :: bytes

text \<open>A begin string, cut to 16 bytes and padded with zeros.\<close>

definition padded_begin :: "bytes \<Rightarrow> bytes" where
  "padded_begin bs = (let n = min (length bs) 16 in take n bs @ replicate (16 - n) 0)"

definition emitter_new :: "bytes \<Rightarrow> bytes \<Rightarrow> emitter" where
  "emitter_new sender target =
     \<lparr> em_begin_string = padded_begin FIX_BEGIN_STRING,
       em_begin_len = word_of_nat (min (length FIX_BEGIN_STRING) 16),
       em_sender = fix_text_new sender, em_target = fix_text_new target, em_next_seq = 1, em_last_sent_ns = 0,
       em_body = replicate MAX_EMIT_LEN 0 \<rparr>"

definition emitter_with_begin_string :: "bytes \<Rightarrow> emitter \<Rightarrow> emitter" where
  "emitter_with_begin_string bs em =
     em\<lparr> em_begin_string := padded_begin bs, em_begin_len := word_of_nat (min (length bs) 16) \<rparr>"

definition emitter_owes_heartbeat :: "u64 \<Rightarrow> u64 \<Rightarrow> emitter \<Rightarrow> bool" where
  "emitter_owes_heartbeat now interval_ns em \<longleftrightarrow>
     interval_ns \<noteq> 0 \<and> em_last_sent_ns em \<noteq> 0 \<and> saturating_sub now (em_last_sent_ns em) \<ge> interval_ns"

definition emitter_reset :: "emitter \<Rightarrow> emitter" where
  "emitter_reset em = em\<lparr> em_next_seq := 1, em_last_sent_ns := 0 \<rparr>"

definition emitter_set_next_seq :: "u64 \<Rightarrow> emitter \<Rightarrow> emitter" where
  "emitter_set_next_seq seq em = em\<lparr> em_next_seq := seq \<rparr>"

type_synonym emitted = "(emit_error + nat) \<times> bytes \<times> emitter"

text \<open>\<open>build\<close>: the body into the emitter's buffer, then head, body and trailer into \<open>out\<close>.\<close>

definition emit_body :: "bytes \<Rightarrow> u64 \<Rightarrow> (writer \<Rightarrow> writer) \<Rightarrow> emitter \<Rightarrow> writer" where
  "emit_body mtype now put em =
     (let w = writer_new (em_body em);
          w = w_tag TAG_MSG_TYPE mtype w;
          w = w_tag OUT_SENDER_COMP_ID (fix_text_bytes (em_sender em)) w;
          w = w_tag OUT_TARGET_COMP_ID (fix_text_bytes (em_target em)) w;
          w = w_tag_u64 TAG_MSG_SEQ_NUM (em_next_seq em) w;
          (n, stamp) = write_sending_time now (replicate 21 0);
          w = w_tag TAG_SENDING_TIME (take n stamp) w
      in put w)"

definition emit_build :: "bytes \<Rightarrow> u64 \<Rightarrow> bytes \<Rightarrow> (writer \<Rightarrow> writer) \<Rightarrow> emitter \<Rightarrow> emitted" where
  "emit_build mtype now out put em =
     (let w = emit_body mtype now put em;
          em = em\<lparr> em_body := w_buf w \<rparr>
      in case w_finish w of
           None \<Rightarrow> (Inl (EmitError MAX_EMIT_LEN), out, em)
         | Some body_len \<Rightarrow>
             let w = writer_new out;
                 w = w_bytes [0x38, 0x3D] w;
                 w = w_bytes (take (unat (em_begin_len em)) (em_begin_string em)) w;
                 w = w_byte SOH w;
                 w = w_tag_u64 9 (word_of_nat body_len) w;
                 w = w_bytes (take body_len (em_body em)) w;
                 out = w_buf w
             in case w_finish w of
                  None \<Rightarrow> (Inl (EmitError (length out)), out, em)
                | Some head \<Rightarrow>
                    let sum = checksum (take head out);
                        w = writer_at out head;
                        w = w_bytes [0x31, 0x30, 0x3D] w;
                        w = w_byte (0x30 + (sum div 100) mod 10) w;
                        w = w_byte (0x30 + (sum div 10) mod 10) w;
                        w = w_byte (0x30 + sum mod 10) w;
                        w = w_byte SOH w;
                        out = w_buf w
                    in case w_finish w of
                         None \<Rightarrow> (Inl (EmitError (length out)), out, em)
                       | Some n \<Rightarrow>
                           (Inr n, out, em\<lparr> em_next_seq := em_next_seq em + 1, em_last_sent_ns := now \<rparr>))"

subsection \<open>The builders\<close>

definition emit_logon :: "u32 \<Rightarrow> bool \<Rightarrow> u64 \<Rightarrow> bytes \<Rightarrow> emitter \<Rightarrow> emitted" where
  "emit_logon heartbeat_secs reset_seq now out em =
     emit_build [0x41] now out (\<lambda>w.
       let w = w_tag_u64 OUT_ENCRYPT_METHOD 0 w;
           w = w_tag_u64 TAG_HEART_BT_INT (ucast heartbeat_secs) w
       in if reset_seq then w_tag OUT_RESET_SEQ_NUM_FLAG [0x59] w else w) em"

definition emit_heartbeat :: "bytes option \<Rightarrow> u64 \<Rightarrow> bytes \<Rightarrow> emitter \<Rightarrow> emitted" where
  "emit_heartbeat test_req_id now out em =
     emit_build [0x30] now out (\<lambda>w. case test_req_id of Some i \<Rightarrow> w_tag TAG_TEST_REQ_ID i w | None \<Rightarrow> w) em"

definition emit_test_request :: "bytes \<Rightarrow> u64 \<Rightarrow> bytes \<Rightarrow> emitter \<Rightarrow> emitted" where
  "emit_test_request i now out em = emit_build [0x31] now out (w_tag TAG_TEST_REQ_ID i) em"

definition emit_resend_request :: "u64 \<Rightarrow> u64 \<Rightarrow> u64 \<Rightarrow> bytes \<Rightarrow> emitter \<Rightarrow> emitted" where
  "emit_resend_request first until now out em =
     emit_build [0x32] now out (\<lambda>w. w_tag_u64 TAG_END_SEQ_NO until (w_tag_u64 TAG_BEGIN_SEQ_NO first w)) em"

definition emit_sequence_reset :: "u64 \<Rightarrow> bool \<Rightarrow> u64 \<Rightarrow> bytes \<Rightarrow> emitter \<Rightarrow> emitted" where
  "emit_sequence_reset new_seq gap_fill now out em =
     emit_build [0x34] now out (\<lambda>w.
       let w = w_tag_u64 TAG_NEW_SEQ_NO new_seq w
       in if gap_fill then w_tag TAG_GAP_FILL_FLAG [0x59] w else w) em"

definition emit_logout :: "bytes option \<Rightarrow> u64 \<Rightarrow> bytes \<Rightarrow> emitter \<Rightarrow> emitted" where
  "emit_logout reason now out em =
     emit_build [0x35] now out (\<lambda>w. case reason of Some t \<Rightarrow> w_tag OUT_TEXT t w | None \<Rightarrow> w) em"

datatype subscription_type = SubSnapshot | SnapshotPlusUpdates | Unsubscribe

fun subscription_as_byte :: "subscription_type \<Rightarrow> u8" where
  "subscription_as_byte SubSnapshot = 0x30"
| "subscription_as_byte SnapshotPlusUpdates = 0x31"
| "subscription_as_byte Unsubscribe = 0x32"

record subscription_request =
  sr_req_id :: bytes
  sr_subscription :: subscription_type
  sr_depth :: u32
  sr_update_type :: "u8 option"
  sr_entry_types :: "md_entry_type list"
  sr_symbols :: "bytes list"

definition emit_market_data_request :: "subscription_request \<Rightarrow> u64 \<Rightarrow> bytes \<Rightarrow> emitter \<Rightarrow> emitted" where
  "emit_market_data_request req now out em =
     emit_build [0x56] now out (\<lambda>w.
       let w = w_tag TAG_MD_REQ_ID (sr_req_id req) w;
           w = w_tag OUT_SUBSCRIPTION_TYPE [subscription_as_byte (sr_subscription req)] w;
           w = w_tag_u64 OUT_MARKET_DEPTH (ucast (sr_depth req)) w;
           w = (case sr_update_type req of Some u \<Rightarrow> w_tag OUT_MD_UPDATE_TYPE [u] w | None \<Rightarrow> w);
           w = w_tag_u64 OUT_NO_MD_ENTRY_TYPES (word_of_nat (length (sr_entry_types req))) w;
           w = fold (\<lambda>e. w_tag TAG_MD_ENTRY_TYPE [md_entry_type_as_byte e]) (sr_entry_types req) w;
           w = w_tag_u64 OUT_NO_RELATED_SYM (word_of_nat (length (sr_symbols req))) w
       in fold (w_tag TAG_SYMBOL) (sr_symbols req) w) em"

subsection \<open>What the writer writes\<close>

definition w_text :: "writer \<Rightarrow> bytes" where
  "w_text w = take (w_len w) (w_buf w)"

definition w_ok :: "writer \<Rightarrow> bool" where
  "w_ok w \<longleftrightarrow> w_len w \<le> length (w_buf w)"

text \<open>
  \<open>f\<close> appends \<open>bs\<close>: it keeps the buffer's length; with room it appends exactly \<open>bs\<close>, without it marks
  the writer full; a full writer stays full.
\<close>

definition appends :: "(writer \<Rightarrow> writer) \<Rightarrow> bytes \<Rightarrow> bool" where
  "appends f bs \<longleftrightarrow>
     (\<forall>w. w_ok w \<longrightarrow> w_ok (f w) \<and> length (w_buf (f w)) = length (w_buf w) \<and>
        (w_full w \<longrightarrow> w_full (f w)) \<and>
        (\<not> w_full w \<longrightarrow>
           (if w_len w + length bs \<le> length (w_buf w)
            then \<not> w_full (f w) \<and> w_text (f w) = w_text w @ bs \<and> w_len (f w) = w_len w + length bs
            else w_full (f w))))"

named_theorems appends_rules

lemma appends_id [appends_rules]: "appends (\<lambda>w. w) []"
  by (auto simp: appends_def w_ok_def)

lemma appends_comp:
  assumes f: "appends f as" and g: "appends g bs"
  shows "appends (\<lambda>w. g (f w)) (as @ bs)"
  unfolding appends_def
proof (intro allI impI)
  fix w assume ok: "w_ok w"
  have 1: "w_ok (f w)" "length (w_buf (f w)) = length (w_buf w)" "w_full w \<Longrightarrow> w_full (f w)"
      "\<not> w_full w \<Longrightarrow> w_len w + length as \<le> length (w_buf w) \<Longrightarrow>
        \<not> w_full (f w) \<and> w_text (f w) = w_text w @ as \<and> w_len (f w) = w_len w + length as"
      "\<not> w_full w \<Longrightarrow> \<not> w_len w + length as \<le> length (w_buf w) \<Longrightarrow> w_full (f w)"
    using f ok unfolding appends_def by metis+
  have 2: "w_ok (g (f w))" "length (w_buf (g (f w))) = length (w_buf w)" "w_full (f w) \<Longrightarrow> w_full (g (f w))"
      "\<not> w_full (f w) \<Longrightarrow> w_len (f w) + length bs \<le> length (w_buf w) \<Longrightarrow>
        \<not> w_full (g (f w)) \<and> w_text (g (f w)) = w_text (f w) @ bs \<and> w_len (g (f w)) = w_len (f w) + length bs"
      "\<not> w_full (f w) \<Longrightarrow> \<not> w_len (f w) + length bs \<le> length (w_buf w) \<Longrightarrow> w_full (g (f w))"
    using g 1(1,2) unfolding appends_def by metis+
  have "if w_len w + length (as @ bs) \<le> length (w_buf w)
      then \<not> w_full (g (f w)) \<and> w_text (g (f w)) = w_text w @ as @ bs \<and> w_len (g (f w)) = w_len w + length (as @ bs)
      else w_full (g (f w))" if "\<not> w_full w"
  proof (cases "w_len w + length as \<le> length (w_buf w)")
    case True
    then show ?thesis
      using 1(4) [OF that True] 2(4,5) by (simp add: add.assoc)
  next
    case False
    then show ?thesis
      using 1(5) [OF that False] 2(3) by simp
  qed
  then show "w_ok (g (f w)) \<and> length (w_buf (g (f w))) = length (w_buf w) \<and> (w_full w \<longrightarrow> w_full (g (f w))) \<and>
      (\<not> w_full w \<longrightarrow>
        (if w_len w + length (as @ bs) \<le> length (w_buf w)
         then \<not> w_full (g (f w)) \<and> w_text (g (f w)) = w_text w @ as @ bs \<and> w_len (g (f w)) = w_len w + length (as @ bs)
         else w_full (g (f w))))"
    using 1(3) 2(1-3) by blast
qed

lemma appends_byte [appends_rules]: "appends (w_byte b) [b]"
  by (auto simp: appends_def w_byte_def w_ok_def w_text_def take_Suc_conv_app_nth)

lemma appends_bytes [appends_rules]: "appends (w_bytes bs) bs"
  by (auto simp: appends_def w_bytes_def w_ok_def w_text_def)

lemma appends_fold: "(\<And>x. appends (f x) (g x)) \<Longrightarrow> appends (fold f xs) (concat (map g xs))"
proof (induction xs)
  case Nil
  then show ?case
    using appends_id by (simp add: id_def)
next
  case (Cons x xs)
  then show ?case
    using appends_comp [of "f x" "g x" "fold f xs"] by (simp add: comp_def)
qed

lemma appends_each [appends_rules]: "appends (w_each bs) bs"
proof -
  have "concat (map (\<lambda>b. [b]) bs) = bs"
    by (induction bs) simp_all
  then show ?thesis
    using appends_fold [of w_byte "\<lambda>b. [b]" bs, OF appends_byte] by (simp add: w_each_def [abs_def])
qed

text \<open>Numbers in decimal.\<close>

definition dec_text :: "nat \<Rightarrow> bytes" where
  "dec_text v = rev (low_digits v)"

lemma digit_byte: "d < 10 \<Longrightarrow> is_digit (0x30 + word_of_nat d) \<and> unat (0x30 + word_of_nat d :: u8) mod 16 = d"
proof -
  assume d: "d < 10"
  then have "unat (0x30 + word_of_nat d :: u8) = 48 + d"
    by (simp add: unat_word_ariths unsigned_of_nat take_bit_nat_eq_self)
  moreover have "(48 + d) mod 16 = d"
    using d by presburger
  ultimately show ?thesis
    using d by (simp add: is_digit_def word_le_nat_alt)
qed

lemma dec_text_spec: "digits (dec_text v) \<and> dec_value (dec_text v) = v \<and> dec_text v \<noteq> []"
proof (induction v rule: low_digits.induct)
  case (1 v)
  have step: "dec_text v = (if v div 10 = 0 then [] else dec_text (v div 10)) @ [0x30 + word_of_nat (v mod 10)]"
    by (simp add: dec_text_def low_digits.simps [of v])
  show ?case
  proof (cases "v div 10 = 0")
    case True
    then show ?thesis
      using digit_byte [of "v mod 10"] unfolding step by (simp add: dec_value_Cons)
  next
    case False
    then show ?thesis
      using digit_byte [of "v mod 10"] 1 unfolding step
      by (simp add: dec_value_append dec_value_Cons)
  qed
qed

lemma length_dec_text: "v < 10 ^ Suc n \<Longrightarrow> length (dec_text v) \<le> Suc n"
proof (induction n arbitrary: v)
  case 0
  then show ?case
    by (simp add: dec_text_def low_digits.simps [of v])
next
  case (Suc n)
  have "v div 10 < 10 ^ Suc n"
    using Suc.prems by (simp add: less_mult_imp_div_less mult.commute)
  then show ?case
    using Suc.IH [of "v div 10"] by (simp add: dec_text_def low_digits.simps [of v])
qed

definition pad_text :: "nat \<Rightarrow> nat \<Rightarrow> bytes" where
  "pad_text v width = replicate (width - length (dec_text v)) 0x30 @ dec_text v"

lemma pad_text_spec:
  assumes "v < 10 ^ Suc n"
  shows "digits (pad_text v (Suc n))" "dec_value (pad_text v (Suc n)) = v" "length (pad_text v (Suc n)) = Suc n"
  using dec_text_spec [of v] length_dec_text [OF assms] by (simp_all add: pad_text_def dec_value_append)

lemma appends_u64 [appends_rules]: "appends (w_u64 v) (dec_text (unat v))"
  using appends_each by (simp add: w_u64_def [abs_def] dec_text_def)

lemma appends_pad [appends_rules]: "appends (w_pad v n) (pad_text (unat v) n)"
  using appends_comp [OF appends_each appends_each]
  by (simp add: w_pad_def [abs_def] pad_text_def dec_text_def Let_def)

lemma appends_tag [appends_rules]: "appends (w_tag tag v) (field_text (dec_text (unat tag)) v)"
proof -
  have "unat (ucast tag :: u64) = unat tag"
    by (simp add: unsigned_ucast_eq take_bit_nat_eq_self less_trans [OF unsigned_less])
  then show ?thesis
    using appends_comp [OF appends_comp [OF appends_comp [OF appends_u64 [of "ucast tag"] appends_byte [of "0x3D"]]
          appends_bytes [of v]] appends_byte [of SOH]]
    by (simp add: w_tag_def [abs_def] field_text_def)
qed

lemma appends_tag_u64 [appends_rules]: "appends (w_tag_u64 tag v) (field_text (dec_text (unat tag)) (dec_text (unat v)))"
proof -
  have "unat (ucast tag :: u64) = unat tag"
    by (simp add: unsigned_ucast_eq take_bit_nat_eq_self less_trans [OF unsigned_less])
  then show ?thesis
    using appends_comp [OF appends_comp [OF appends_comp [OF appends_u64 [of "ucast tag"] appends_byte [of "0x3D"]]
          appends_u64 [of v]] appends_byte [of SOH]]
    by (simp add: w_tag_u64_def [abs_def] field_text_def)
qed

subsection \<open>The calendar\<close>

lemma sdiv_nonneg: "0 \<le> (x::int) \<Longrightarrow> 0 < y \<Longrightarrow> x sdiv y = x div y"
  by (cases "x = 0") (simp_all add: signed_divide_int_def)

lemma smod_nonneg: "0 \<le> (x::int) \<Longrightarrow> 0 < y \<Longrightarrow> x smod y = x mod y"
  by (cases "x = 0") (simp_all add: signed_modulo_int_def)

lemma div_parts:
  fixes x :: int
  assumes "0 < y"
  obtains q r where "x div y = q" "x = y * q + r" "0 \<le> r" "r < y"
  by (rule that [of "x div y" "x mod y"]) (use assms in simp_all)

lemma div_partsI: "x = y * q + r \<Longrightarrow> 0 \<le> r \<Longrightarrow> r < y \<Longrightarrow> x div y = (q::int)"
  by (metis int_div_pos_eq)

text \<open>The year of the era and the day of its year.\<close>

lemma year_of_era:
  fixes doe :: int
  assumes "0 \<le> doe" and "doe \<le> 146096"
  defines "yoe \<equiv> (doe - doe div 1460 + doe div 36524 - doe div 146096) div 365"
  shows "0 \<le> yoe \<and> yoe \<le> 399 \<and> 0 \<le> doe - (365 * yoe + yoe div 4 - yoe div 100) \<and>
    doe - (365 * yoe + yoe div 4 - yoe div 100) \<le> 365"
proof (cases "doe = 146096")
  case True
  then show ?thesis
    by (simp add: yoe_def)
next
  case False
  obtain c r where c: "doe div 36524 = c" and doe: "doe = 36524 * c + r" and r: "0 \<le> r" "r < 36524"
    using div_parts [of 36524 doe] by auto
  obtain q s where qs: "24 * c + r = 1460 * q + s" and s: "0 \<le> s" "s < 1460"
    using div_parts [of 1460 "24 * c + r"] by auto
  obtain k t where k: "s - 24 * c - q = 365 * k + t" and t: "0 \<le> t" "t < 365"
    using div_parts [of 365 "s - 24 * c - q"] by auto
  have cb: "0 \<le> c" "c \<le> 3"
    using assms(1,2) False doe r by arith+
  have qb: "0 \<le> q" "q \<le> 25"
    using cb r qs s by arith+
  have kb: "-1 \<le> k" "k \<le> 3"
    using k t cb qb s by arith+
  have "doe div 1460 = 25 * c + q"
    by (rule div_partsI [OF _ s]) (use doe qs in arith)
  moreover have "doe div 146096 = 0"
    using assms(1,2) False by simp
  moreover have "doe - (25 * c + q) + c = 365 * (100 * c + 4 * q + k) + t"
    using doe qs k by arith
  ultimately have yoe: "yoe = 100 * c + 4 * q + k"
    unfolding yoe_def c by (simp add: div_partsI [OF _ t])
  have low: "0 \<le> 4 * q + k" "4 * q + k < 100"
    using k t qs r cb qb kb s by arith+
  have "yoe div 100 = c"
    by (rule div_partsI [OF _ low]) (use yoe in arith)
  moreover have "yoe div 4 = 25 * c + q + (if k = -1 then -1 else 0)"
    by (rule div_partsI [where r = "if k = -1 then 3 else k"]) (use yoe kb in auto)
  ultimately show ?thesis
    unfolding yoe using doe qs k kb t low cb by (auto split: if_splits)
qed

lemma day_of_year:
  fixes doy :: int
  assumes "0 \<le> doy" and "doy \<le> 365"
  defines "mp \<equiv> (5 * doy + 2) div 153"
  shows "0 \<le> mp \<and> mp \<le> 11 \<and> 1 \<le> doy - (153 * mp + 2) div 5 + 1 \<and> doy - (153 * mp + 2) div 5 + 1 \<le> 31"
proof -
  obtain q t where q: "(5 * doy + 2) div 153 = q" and mp: "5 * doy + 2 = 153 * q + t" "0 \<le> t" "t < 153"
    by (rule div_parts [of 153 "5 * doy + 2"]) simp
  have mp_q: "mp = q"
    by (simp add: mp_def q)
  obtain u v where u: "(153 * q + 2) div 5 = u" "153 * q + 2 = 5 * u + v" "0 \<le> v" "v < 5"
    by (rule div_parts [of 5 "153 * q + 2"]) simp
  show ?thesis
    unfolding mp_q u(1) using mp u(2-4) assms(1,2) by arith
qed

text \<open>The two calendar functions of the crate are inverse to each other.\<close>

lemma days_from_civil_from_days:
  assumes "0 \<le> z" and "civil_from_days z = (y, m, d)"
  shows "days_from_civil y m d = z" "1 \<le> m" "m \<le> 12" "1 \<le> d" "d \<le> 31" "0 \<le> y"
    "y \<le> (z + 719468) div 146097 * 400 + 400"
proof -
  define era where "era = (z + 719468) div 146097"
  define doe where "doe = (z + 719468) - era * 146097"
  define yoe where "yoe = (doe - doe div 1460 + doe div 36524 - doe div 146096) div 365"
  define doy where "doy = doe - (365 * yoe + yoe div 4 - yoe div 100)"
  define mp where "mp = (5 * doy + 2) div 153"
  define d0 where "d0 = doy - (153 * mp + 2) div 5 + 1"
  have era: "0 \<le> era"
    using assms(1) by (simp add: era_def pos_imp_zdiv_nonneg_iff)
  have doe: "0 \<le> doe" "doe \<le> 146096"
    using div_parts [of 146097 "z + 719468"] by (auto simp: doe_def era_def)
  note year = year_of_era [OF doe, folded yoe_def]
  then have yoe: "0 \<le> yoe" "yoe \<le> 399" and doy: "0 \<le> doy" "doy \<le> 365"
    by (simp_all add: doy_def)
  note day = day_of_year [OF doy, folded mp_def]
  then have mp: "0 \<le> mp" "mp \<le> 11" and d0: "1 \<le> d0" "d0 \<le> 31"
    by (simp_all add: d0_def)
  have "doe div 1460 \<le> doe" "0 \<le> doe div 36524 - doe div 146096"
    using doe zdiv_mono2 [of doe 36524 146096] zdiv_mono2 [of doe 1 1460] by simp_all
  then have quot: "0 \<le> doe - doe div 1460 + doe div 36524 - doe div 146096"
    by simp
  have 1: "(if 0 \<le> z + 719468 then z + 719468 else z + 719468 - 146096) sdiv 146097 = era"
    using assms(1) by (simp add: sdiv_nonneg era_def)
  have 2: "(doe - doe sdiv 1460 + doe sdiv 36524 - doe sdiv 146096) sdiv 365 = yoe"
    using doe(1) quot by (simp add: sdiv_nonneg yoe_def)
  have 3: "doe - (365 * yoe + yoe sdiv 4 - yoe sdiv 100) = doy"
    using yoe(1) by (simp add: sdiv_nonneg doy_def)
  have 4: "(5 * doy + 2) sdiv 153 = mp"
    using doy(1) by (simp add: sdiv_nonneg mp_def)
  have 5: "doy - (153 * mp + 2) sdiv 5 + 1 = d0"
    using mp(1) by (simp add: sdiv_nonneg d0_def)
  have shifted: "(if mp < 10 then mp + 3 else mp - 9) \<le> 2 \<longleftrightarrow> \<not> mp < 10"
    using mp by auto
  have civil: "(y, m, d) = (if mp < 10 then yoe + era * 400 else yoe + era * 400 + 1,
      if mp < 10 then mp + 3 else mp - 9, d0)"
    using assms(2) unfolding civil_from_days_def Let_def 1 doe_def [symmetric] 2 3 4 5 shifted by auto
  have shift: "(if mp < 10 then mp + 3 else mp - 9) \<le> 2 \<longleftrightarrow> \<not> mp < 10"
      "((if mp < 10 then mp + 3 else mp - 9) + 9) mod 12 = mp"
    using mp by auto
  have same: "(yoe + era * 400) div 400 = era" "0 \<le> yoe + era * 400"
    using yoe era by simp_all
  have "days_from_civil y m d = era * 146097 + (yoe * 365 + yoe div 4 - yoe div 100 + ((153 * mp + 2) div 5 + d0 - 1)) - 719468"
    using civil shift same yoe mp
    by (auto simp: days_from_civil_def Let_def sdiv_nonneg smod_nonneg)
  then show "days_from_civil y m d = z"
    by (simp add: d0_def doy_def doe_def)
  show "1 \<le> m" "m \<le> 12" "1 \<le> d" "d \<le> 31" "0 \<le> y" "y \<le> (z + 719468) div 146097 * 400 + 400"
    using civil mp d0 yoe era by (auto simp: era_def [symmetric] split: if_splits)
qed

subsection \<open>Sequences of writes\<close>

lemma appends_seq:
  assumes "list_all2 appends fs bss"
  shows "appends (\<lambda>w. fold (\<lambda>f w. f w) fs w) (concat bss)"
  using assms
proof (induction fs bss rule: list_all2_induct)
  case Nil
  then show ?case
    by (simp add: appends_id)
next
  case (Cons f fs bs bss)
  then show ?case
    using appends_comp [of f bs "\<lambda>w. fold (\<lambda>f w. f w) fs w"] by simp
qed

lemma appends_new:
  fixes buf :: bytes
  assumes "appends f bs"
  defines "w \<equiv> f (writer_new buf)"
  shows "w_finish w = (if length bs \<le> length buf then Some (length bs) else None)"
    "length (w_buf w) = length buf"
    "length bs \<le> length buf \<Longrightarrow> take (length bs) (w_buf w) = bs"
proof -
  have ok: "w_ok (writer_new buf)"
    by (simp add: w_ok_def writer_new_def)
  have new: "w_text (writer_new buf) = []" "w_len (writer_new buf) = 0" "\<not> w_full (writer_new buf)"
      "w_buf (writer_new buf) = buf"
    by (simp_all add: w_text_def writer_new_def)
  note a = assms(1) [unfolded appends_def, rule_format, OF ok, unfolded new, folded w_def]
  show "w_finish w = (if length bs \<le> length buf then Some (length bs) else None)"
      "length (w_buf w) = length buf"
    using a new(3) by (simp_all add: w_finish_def split: if_splits)
  show "take (length bs) (w_buf w) = bs" if "length bs \<le> length buf"
    using a new(3) that by (auto simp: w_text_def)
qed

lemma appends_at:
  fixes buf :: bytes
  assumes "appends f bs" and "at \<le> length buf"
  defines "w \<equiv> f (writer_at buf at)"
  shows "w_finish w = (if at + length bs \<le> length buf then Some (at + length bs) else None)"
    "length (w_buf w) = length buf"
    "at + length bs \<le> length buf \<Longrightarrow> take (at + length bs) (w_buf w) = take at buf @ bs"
proof -
  have ok: "w_ok (writer_at buf at)"
    by (simp add: w_ok_def writer_at_def)
  have new: "w_text (writer_at buf at) = take at buf" "w_len (writer_at buf at) = at" "\<not> w_full (writer_at buf at)"
      "w_buf (writer_at buf at) = buf"
    using assms(2) by (simp_all add: w_text_def writer_at_def min_def)
  note a = assms(1) [unfolded appends_def, rule_format, OF ok, unfolded new, folded w_def]
  show "w_finish w = (if at + length bs \<le> length buf then Some (at + length bs) else None)"
      "length (w_buf w) = length buf"
    using a new(3) by (simp_all add: w_finish_def split: if_splits)
  show "take (at + length bs) (w_buf w) = take at buf @ bs" if "at + length bs \<le> length buf"
    using a new(3) that by (auto simp: w_text_def)
qed

subsection \<open>The sending time reads back\<close>

text \<open>The 21 bytes of a sending time.\<close>

definition time_text :: "u64 \<Rightarrow> bytes" where
  "time_text now =
     (let secs = unat now div 10 ^ 9; sod = secs mod 86400
      in case civil_from_days (int (secs div 86400)) of (y, m, d) \<Rightarrow>
         pad_text (nat y) 4 @ pad_text (nat m) 2 @ pad_text (nat d) 2 @ [0x2D] @ pad_text (sod div 3600) 2 @ [0x3A] @
         pad_text (sod div 60 mod 60) 2 @ [0x3A] @ pad_text (sod mod 60) 2 @ [0x2E] @
         pad_text (unat now mod 10 ^ 9 div 10 ^ 6) 3)"

lemma unat_u64_div: "unat ((x :: u64) div y) = unat x div unat y" "unat (x mod y) = unat x mod unat y"
  by (simp_all add: unat_div unat_mod)

lemma civil_bounds:
  assumes "civil_from_days (int (unat (now :: u64) div 10 ^ 9 div 86400)) = (y, m, d)"
  shows "days_from_civil y m d = int (unat now div 10 ^ 9 div 86400)" "1 \<le> m" "m \<le> 12" "1 \<le> d" "d \<le> 31"
    "0 \<le> y" "y < 10 ^ 4"
proof -
  note c = days_from_civil_from_days [OF _ assms]
  show "days_from_civil y m d = int (unat now div 10 ^ 9 div 86400)" "1 \<le> m" "m \<le> 12" "1 \<le> d" "d \<le> 31" "0 \<le> y"
    using c by simp_all
  have "unat now div 10 ^ 9 div 86400 < 300000"
    using u64_bound [of now] by (simp add: less_mult_imp_div_less div_mult2_eq [symmetric])
  then have "int (unat now div 10 ^ 9 div 86400) + 719468 < 1100000"
    by linarith
  then have "(int (unat now div 10 ^ 9 div 86400) + 719468) div 146097 \<le> 7"
    by simp
  then show "y < 10 ^ 4"
    using c(7) by simp
qed

lemma time_fields:
  fixes now :: u64
  shows "unat now div 10 ^ 9 mod 86400 div 3600 < 24" "unat now div 10 ^ 9 mod 86400 div 60 mod 60 < 60"
    "unat now div 10 ^ 9 mod 86400 mod 60 < 60" "unat now mod 10 ^ 9 div 10 ^ 6 < 1000"
  by (simp_all add: less_mult_imp_div_less)

lemma length_time_text: "length (time_text now) = 21"
proof -
  obtain y m d where c: "civil_from_days (int (unat now div 10 ^ 9 div 86400)) = (y, m, d)"
    by (cases "civil_from_days (int (unat now div 10 ^ 9 div 86400))") auto
  note b = civil_bounds [OF c]
  have len: "length (pad_text v 4) = 4" if "v < 10 ^ 4" for v
    using pad_text_spec(3) [of v 3] that by simp
  have len2: "length (pad_text v 2) = 2" if "v < 100" for v
    using pad_text_spec(3) [of v 1] that by (simp add: numeral_2_eq_2)
  have len3: "length (pad_text v 3) = 3" if "v < 1000" for v
    using pad_text_spec(3) [of v 2] that by (simp add: numeral_3_eq_3)
  have m60: "v mod 60 < 100" for v :: nat
    by (rule less_trans [of _ 60]) simp_all
  show ?thesis
    unfolding time_text_def Let_def c prod.case
    using b time_fields [of now] m60 by (simp add: len len2 len3)
qed

lemma write_sending_time_eq:
  "write_sending_time now (replicate 21 0) = (21, time_text now)"
proof -
  obtain y m d where c: "civil_from_days (int (unat now div 10 ^ 9 div 86400)) = (y, m, d)"
    by (cases "civil_from_days (int (unat now div 10 ^ 9 div 86400))") auto
  note b = civil_bounds [OF c]
  define secs where "secs = now div FIX_NS_PER_SEC"
  have secs: "unat secs = unat now div 10 ^ 9" "unat (now mod FIX_NS_PER_SEC) = unat now mod 10 ^ 9"
    by (simp_all add: secs_def FIX_NS_PER_SEC_def unat_u64_div)
  have days: "uint (secs div 86400) = int (unat now div 10 ^ 9 div 86400)"
    by (simp add: uint_nat unat_u64_div secs)
  have ymd: "unat (word_of_int (y mod 10000) :: u64) = nat y" "unat (word_of_int m :: u64) = nat m"
      "unat (word_of_int d :: u64) = nat d"
    using b by (simp_all add: unsigned_of_int take_bit_int_eq_self nat_take_bit_eq)
  let ?fs = "[w_pad (word_of_int (y mod 10000)) 4, w_pad (word_of_int m) 2, w_pad (word_of_int d) 2, w_byte 0x2D,
      w_pad (secs mod 86400 div 3600) 2, w_byte 0x3A, w_pad (secs mod 86400 div 60 mod 60) 2, w_byte 0x3A,
      w_pad (secs mod 86400 mod 60) 2, w_byte 0x2E, w_pad (now mod FIX_NS_PER_SEC div 1000000) 3]"
  let ?bss = "[pad_text (unat (word_of_int (y mod 10000) :: u64)) 4, pad_text (unat (word_of_int m :: u64)) 2,
      pad_text (unat (word_of_int d :: u64)) 2, [0x2D], pad_text (unat (secs mod 86400 div 3600)) 2, [0x3A],
      pad_text (unat (secs mod 86400 div 60 mod 60)) 2, [0x3A], pad_text (unat (secs mod 86400 mod 60)) 2, [0x2E],
      pad_text (unat (now mod FIX_NS_PER_SEC div 1000000)) 3]"
  have app: "appends (\<lambda>w. fold (\<lambda>f w. f w) ?fs w) (concat ?bss)"
    by (rule appends_seq) (simp only: list_all2_Cons list_all2_Nil appends_rules simp_thms)
  have bss: "concat ?bss = time_text now"
    unfolding time_text_def Let_def c prod.case
    by (simp add: ymd unat_u64_div secs [unfolded FIX_NS_PER_SEC_def] FIX_NS_PER_SEC_def)
  note w = appends_new [OF app, of "replicate 21 0", unfolded bss length_time_text]
  have "write_sending_time now (replicate 21 0) =
      (case w_finish (fold (\<lambda>f w. f w) ?fs (writer_new (replicate 21 0))) of Some n \<Rightarrow> n | None \<Rightarrow> 0,
       w_buf (fold (\<lambda>f w. f w) ?fs (writer_new (replicate 21 0))))"
    unfolding write_sending_time_def Let_def secs_def [symmetric] days c prod.case by simp
  then show ?thesis
    using w by simp
qed

lemma parse_pad: "v < 10 ^ Suc n \<Longrightarrow> n < 19 \<Longrightarrow> fix_parse_u64 (pad_text v (Suc n)) = Some (word_of_nat v)"
  using pad_text_spec [of v n] by (auto simp: fix_parse_u64_eq)

lemma uint_word_of_int_small: "0 \<le> x \<Longrightarrow> x < 10 ^ 4 \<Longrightarrow> uint (word_of_int x :: u64) = x"
  by (simp add: unsigned_of_int take_bit_int_eq_self)

lemma parse_date_text:
  assumes "days_from_civil y m d = int days" and "days < 213504"
    and "0 \<le> y" "y < 10 ^ 4" "1 \<le> m" "m \<le> 12" "1 \<le> d" "d \<le> 31"
  shows "parse_utc_date (pad_text (nat y) 4 @ pad_text (nat m) 2 @ pad_text (nat d) 2) =
    Some (word_of_nat (days * 86400 * 10 ^ 9))"
proof -
  have p: "fix_parse_u64 (pad_text (nat y) 4) = Some (word_of_nat (nat y))" "length (pad_text (nat y) 4) = 4"
    using parse_pad [of "nat y" 3] pad_text_spec(3) [of "nat y" 3] assms by simp_all
  have p2: "fix_parse_u64 (pad_text v 2) = Some (word_of_nat v)" "length (pad_text v 2) = 2" if "v < 10 ^ 2" for v
    using parse_pad [of v 1] pad_text_spec(3) [of v 1] that by (simp_all add: numeral_2_eq_2)
  have md: "nat m < 10 ^ 2" "nat d < 10 ^ 2"
    using assms by simp_all
  have u: "uint (word_of_nat (nat y) :: u64) = y" "uint (word_of_nat (nat m) :: u64) = m"
      "uint (word_of_nat (nat d) :: u64) = d"
    using assms(3-8) by (simp_all add: uint_word_of_int_small)
  have range: "1 \<le> (word_of_nat (nat m) :: u64)" "(word_of_nat (nat m) :: u64) \<le> 12"
      "1 \<le> (word_of_nat (nat d) :: u64)" "(word_of_nat (nat d) :: u64) \<le> 31"
    unfolding word_le_def u using assms(5-8) by simp_all
  have days: "unat (word_of_nat days :: u64) = days" "unat (word_of_nat days * 86400 :: u64) = days * 86400"
    using assms(2) by (simp_all add: unat_word_ariths unsigned_of_nat take_bit_nat_eq_self)
  have "u64_checked_mul (word_of_nat days) 86400 = Some (word_of_nat days * 86400)"
      "u64_checked_mul (word_of_nat days * 86400) FIX_NS_PER_SEC = Some (word_of_nat days * 86400 * FIX_NS_PER_SEC)"
    using assms(2) by (simp_all add: u64_checked_mul_def days FIX_NS_PER_SEC_def)
  then show ?thesis
    using p p2 [OF md(1)] p2 [OF md(2)] range
    by (simp add: parse_utc_date_def u assms(1) FIX_NS_PER_SEC_def)
qed

lemma parse_time_text:
  assumes "h < 24" "m < 60" "s < 60" "ms < 1000"
  shows "parse_utc_time (pad_text h 2 @ [0x3A] @ pad_text m 2 @ [0x3A] @ pad_text s 2 @ [0x2E] @ pad_text ms 3) =
    Some (word_of_nat ((h * 3600 + m * 60 + s) * 10 ^ 9 + ms * 10 ^ 6))"
proof -
  have p2: "fix_parse_u64 (pad_text v 2) = Some (word_of_nat v)" "length (pad_text v 2) = 2" if "v < 60" for v
    using parse_pad [of v 1] pad_text_spec(3) [of v 1] that by (simp_all add: numeral_2_eq_2)
  have p3: "fix_parse_u64 (pad_text ms 3) = Some (word_of_nat ms)" "length (pad_text ms 3) = 3"
    using parse_pad [of ms 2] pad_text_spec(3) [of ms 2] assms by (simp_all add: numeral_3_eq_3)
  have h: "h < 60"
    using assms by simp
  have range: "\<not> (word_of_nat h :: u64) > 23" "\<not> (word_of_nat m :: u64) > 59" "\<not> (word_of_nat s :: u64) > 60"
    using assms by (simp_all add: word_less_nat_alt unsigned_of_nat take_bit_nat_eq_self)
  have ne: "pad_text ms 3 \<noteq> []"
    using p3(2) by auto
  show ?thesis
    using p2 [OF h] p2 [OF assms(2)] p2 [OF assms(3)] p3 range ne
    by (simp add: parse_utc_time_def nth_append FIX_NS_PER_SEC_def)
qed

lemma split_at_8:
  assumes "length xs = 8"
  shows "take 8 (xs @ [x] @ ys) = xs" "drop 9 (xs @ [x] @ ys) = ys" "(xs @ [x] @ ys) ! 8 = x"
  using assms by (simp_all add: nth_append)

text \<open>What the handler writes as its clock, the parser reads back to the millisecond.\<close>

lemma time_text_parses: "parse_utc_timestamp (time_text now) = Some (now - now mod 1000000)"
proof -
  obtain y m d where c: "civil_from_days (int (unat now div 10 ^ 9 div 86400)) = (y, m, d)"
    by (cases "civil_from_days (int (unat now div 10 ^ 9 div 86400))") auto
  note b = civil_bounds [OF c]
  define n where "n = unat now"
  define days where "days = n div 10 ^ 9 div 86400"
  define sod where "sod = n div 10 ^ 9 mod 86400"
  define ms where "ms = n mod 10 ^ 9 div 10 ^ 6"
  have pad_lengths: "length (pad_text (nat y) 4) = 4" "length (pad_text (nat m) 2) = 2" "length (pad_text (nat d) 2) = 2"
    using b pad_text_spec(3) [of "nat y" 3] pad_text_spec(3) [of "nat m" 1] pad_text_spec(3) [of "nat d" 1]
    by (simp_all add: numeral_2_eq_2)
  let ?date = "pad_text (nat y) 4 @ pad_text (nat m) 2 @ pad_text (nat d) 2"
  let ?time = "pad_text (sod div 3600) 2 @ [0x3A] @ pad_text (sod div 60 mod 60) 2 @ [0x3A] @
      pad_text (sod mod 60) 2 @ [0x2E] @ pad_text ms 3"
  have written: "time_text now = ?date @ [0x2D] @ ?time"
    unfolding time_text_def Let_def c prod.case by (simp add: n_def sod_def ms_def)
  have "n < 2 ^ 64"
    using u64_bound [of now] by (simp add: n_def)
  then have few: "days < 213504" "n = days * 86400 * 10 ^ 9 + sod * 10 ^ 9 + ms * 10 ^ 6 + n mod 10 ^ 6"
  proof -
    have "n < 213504 * (10 ^ 9 * 86400)"
      using \<open>n < 2 ^ 64\<close> by simp
    then show "days < 213504"
      unfolding days_def div_mult2_eq [symmetric] by (rule less_mult_imp_div_less)
    have whole: "n = n div 10 ^ 9 * 10 ^ 9 + n mod 10 ^ 9"
      by (rule div_mult_mod_eq [symmetric])
    have secs: "n div 10 ^ 9 = days * 86400 + sod"
      unfolding days_def sod_def by (rule div_mult_mod_eq [symmetric])
    have "n mod 10 ^ 9 mod 10 ^ 6 = n mod 10 ^ 6"
      by (rule mod_mod_cancel) (simp add: dvd_def)
    moreover have "n mod 10 ^ 9 = ms * 10 ^ 6 + n mod 10 ^ 9 mod 10 ^ 6"
      unfolding ms_def by (rule div_mult_mod_eq [symmetric])
    ultimately have rest: "n mod 10 ^ 9 = ms * 10 ^ 6 + n mod 10 ^ 6"
      by (rule back_subst [where P = "\<lambda>r. n mod 10 ^ 9 = ms * 10 ^ 6 + r", rotated])
    show "n = days * 86400 * 10 ^ 9 + sod * 10 ^ 9 + ms * 10 ^ 6 + n mod 10 ^ 6"
      using whole unfolding secs rest by (simp only: add_mult_distrib add.assoc)
  qed
  have date: "parse_utc_date ?date = Some (word_of_nat (days * 86400 * 10 ^ 9))"
    by (rule parse_date_text) (use b few in \<open>simp_all add: days_def n_def\<close>)
  have time: "parse_utc_time ?time =
      Some (word_of_nat ((sod div 3600 * 3600 + sod div 60 mod 60 * 60 + sod mod 60) * 10 ^ 9 + ms * 10 ^ 6))"
    by (rule parse_time_text) (use time_fields [of now] in \<open>simp_all add: sod_def ms_def n_def\<close>)
  have sod: "sod div 3600 * 3600 + sod div 60 mod 60 * 60 + sod mod 60 = sod"
    using mod_mult2_eq [of sod 60 60] div_mult_mod_eq [of sod 3600] by simp
  have "unat (now mod 1000000) = n mod 10 ^ 6"
    by (simp add: n_def unat_u64_div)
  then have "now mod 1000000 = word_of_nat (n mod 10 ^ 6)"
    by (metis of_nat_unat ucast_id)
  then have "now - now mod 1000000 = word_of_nat (n - n mod 10 ^ 6)"
    by (simp add: n_def of_nat_diff)
  also have "n - n mod 10 ^ 6 = days * 86400 * 10 ^ 9 + (sod * 10 ^ 9 + ms * 10 ^ 6)"
    using few(2) by simp
  finally have sum: "now - now mod 1000000 = word_of_nat (days * 86400 * 10 ^ 9) + word_of_nat (sod * 10 ^ 9 + ms * 10 ^ 6)"
    by (simp only: of_nat_add)
  have len: "length ?date = 8" "17 \<le> length (?date @ [0x2D] @ ?time)"
    using length_time_text [of now] pad_lengths unfolding written by simp_all
  note parts = split_at_8 [OF len(1), of "0x2D" ?time]
  show ?thesis
    unfolding written parse_utc_timestamp_def parts date time sod sum using len(2) by simp
qed

subsection \<open>Building a message\<close>

definition num_text :: "u32 \<Rightarrow> bytes" where
  "num_text tag = dec_text (unat tag)"

definition emitter_begin :: "emitter \<Rightarrow> bytes" where
  "emitter_begin em = take (unat (em_begin_len em)) (em_begin_string em)"

definition emitter_ok :: "emitter \<Rightarrow> bool" where
  "emitter_ok em \<longleftrightarrow>
     length (em_body em) = MAX_EMIT_LEN \<and> length (em_begin_string em) = 16 \<and> em_begin_len em \<noteq> 0 \<and>
     SOH \<notin> set (emitter_begin em)"

text \<open>The fields every message opens with.\<close>

definition header_fields :: "bytes \<Rightarrow> u64 \<Rightarrow> emitter \<Rightarrow> (bytes \<times> bytes) list" where
  "header_fields mtype now em =
     [(num_text TAG_MSG_TYPE, mtype),
      (num_text OUT_SENDER_COMP_ID, fix_text_bytes (em_sender em)),
      (num_text OUT_TARGET_COMP_ID, fix_text_bytes (em_target em)),
      (num_text TAG_MSG_SEQ_NUM, dec_text (unat (em_next_seq em))),
      (num_text TAG_SENDING_TIME, time_text now)]"

lemma body_text_append: "body_text (fs @ gs) = body_text fs @ body_text gs"
  by (simp add: body_text_def)

lemma emit_body_writes:
  fixes mtype :: bytes and now :: u64
  assumes "appends put (body_text fs)" and "length (em_body em) = MAX_EMIT_LEN"
  defines "w \<equiv> emit_body mtype now put em" and "body \<equiv> body_text (header_fields mtype now em @ fs)"
  shows "w_finish w = (if length body \<le> MAX_EMIT_LEN then Some (length body) else None)"
    "length (w_buf w) = MAX_EMIT_LEN" "length body \<le> MAX_EMIT_LEN \<Longrightarrow> take (length body) (w_buf w) = body"
proof -
  let ?fs = "[w_tag TAG_MSG_TYPE mtype, w_tag OUT_SENDER_COMP_ID (fix_text_bytes (em_sender em)),
      w_tag OUT_TARGET_COMP_ID (fix_text_bytes (em_target em)), w_tag_u64 TAG_MSG_SEQ_NUM (em_next_seq em),
      w_tag TAG_SENDING_TIME (time_text now), put]"
  let ?bss = "map (\<lambda>(tag, v). field_text tag v) (header_fields mtype now em) @ [body_text fs]"
  have stamp: "take 21 (time_text now) = time_text now"
    by (simp add: length_time_text)
  have w: "w = fold (\<lambda>f w. f w) ?fs (writer_new (em_body em))"
    by (simp add: w_def emit_body_def write_sending_time_eq stamp)
  have "list_all2 appends ?fs ?bss"
    unfolding header_fields_def num_text_def using assms(1)
    by (simp only: list.map prod.case append.simps list_all2_Cons list_all2_Nil appends_rules simp_thms)
  then have "appends (\<lambda>w. fold (\<lambda>f w. f w) ?fs w) (concat ?bss)"
    by (rule appends_seq)
  moreover have "concat ?bss = body"
    by (simp add: body_def body_text_def)
  ultimately have app: "appends (\<lambda>w. fold (\<lambda>f w. f w) ?fs w) body"
    by simp
  show "w_finish w = (if length body \<le> MAX_EMIT_LEN then Some (length body) else None)"
      "length (w_buf w) = MAX_EMIT_LEN" "length body \<le> MAX_EMIT_LEN \<Longrightarrow> take (length body) (w_buf w) = body"
    unfolding w using appends_new [OF app, of "em_body em"] by (simp_all add: assms(2))
qed

text \<open>The three digits of a checksum.\<close>

definition sum_text :: "u8 \<Rightarrow> bytes" where
  "sum_text s = [0x30 + (s div 100) mod 10, 0x30 + (s div 10) mod 10, 0x30 + s mod 10]"

lemma sum_text_spec: "digits (sum_text s) \<and> dec_value (sum_text s) = unat s \<and> length (sum_text s) = 3"
proof -
  have d: "unat (x mod 10) < 10" "x mod 10 = word_of_nat (unat (x mod 10))" for x :: u8
    by (simp add: unat_mod, metis of_nat_unat ucast_id)
  have digit: "is_digit (0x30 + x mod 10)" "unat (0x30 + x mod 10) mod 16 = unat (x mod 10)" for x :: u8
    using digit_byte [OF d(1) [of x]] d(2) [of x] by simp_all
  have "unat s < 10 * 100"
    by (rule order_less_le_trans [OF unsigned_less]) simp
  then have "unat s div 100 mod 10 = unat s div 100"
    using less_mult_imp_div_less [of "unat s" 10 100] by simp
  moreover have "unat s div 100 * 100 + (unat s div 10 mod 10 * 10 + unat s mod 10) = unat s"
    using mod_mult2_eq [of "unat s" 10 10] div_mult_mod_eq [of "unat s" 100] by simp
  ultimately show ?thesis
    using digit by (simp add: sum_text_def dec_value_Cons unat_mod unat_div)
qed

lemma head_writes:
  fixes body :: bytes and out :: bytes and bs :: bytes
  assumes "length body \<le> MAX_EMIT_LEN"
  defines "w \<equiv> w_bytes body (w_tag_u64 9 (word_of_nat (length body)) (w_byte SOH (w_bytes bs
      (w_bytes [0x38, 0x3D] (writer_new out)))))" and "h \<equiv> message_head bs (dec_text (length body)) @ body"
  shows "w_finish w = (if length h \<le> length out then Some (length h) else None)"
    "length (w_buf w) = length out" "length h \<le> length out \<Longrightarrow> take (length h) (w_buf w) = h"
proof -
  let ?fs = "[w_bytes [0x38, 0x3D], w_bytes bs, w_byte SOH, w_tag_u64 9 (word_of_nat (length body)), w_bytes body]"
  let ?bss = "[[0x38, 0x3D], bs, [SOH], field_text (dec_text (unat (9::u32)))
      (dec_text (unat (word_of_nat (length body) :: u64))), body]"
  have "appends (\<lambda>w. fold (\<lambda>f w. f w) ?fs w) (concat ?bss)"
    by (rule appends_seq) (simp only: list_all2_Cons list_all2_Nil appends_rules simp_thms)
  moreover have "concat ?bss = h"
  proof -
    have "unat (word_of_nat (length body) :: u64) = length body"
      using assms(1) by (intro unat_u64) (simp add: MAX_EMIT_LEN_def)
    moreover have "dec_text 9 = [0x39]"
      by (simp add: dec_text_def low_digits.simps)
    ultimately show ?thesis
      by (simp add: h_def message_head_def field_text_def)
  qed
  ultimately have app: "appends (\<lambda>w. fold (\<lambda>f w. f w) ?fs w) h"
    by simp
  show "w_finish w = (if length h \<le> length out then Some (length h) else None)"
      "length (w_buf w) = length out" "length h \<le> length out \<Longrightarrow> take (length h) (w_buf w) = h"
    unfolding w_def using appends_new [OF app, of out] by simp_all
qed

lemma trailer_writes:
  fixes out :: bytes and s :: u8
  assumes "at \<le> length out"
  defines "w \<equiv> w_byte SOH (w_byte (0x30 + s mod 10) (w_byte (0x30 + (s div 10) mod 10)
      (w_byte (0x30 + (s div 100) mod 10) (w_bytes [0x31, 0x30, 0x3D] (writer_at out at)))))"
    and "t \<equiv> [0x31, 0x30, 0x3D] @ sum_text s @ [SOH]"
  shows "w_finish w = (if at + length t \<le> length out then Some (at + length t) else None)"
    "length (w_buf w) = length out" "at + length t \<le> length out \<Longrightarrow> take (at + length t) (w_buf w) = take at out @ t"
proof -
  let ?fs = "[w_bytes [0x31, 0x30, 0x3D], w_byte (0x30 + (s div 100) mod 10), w_byte (0x30 + (s div 10) mod 10),
      w_byte (0x30 + s mod 10), w_byte SOH]"
  let ?bss = "[[0x31, 0x30, 0x3D], [0x30 + (s div 100) mod 10], [0x30 + (s div 10) mod 10], [0x30 + s mod 10], [SOH]]"
  have "appends (\<lambda>w. fold (\<lambda>f w. f w) ?fs w) (concat ?bss)"
    by (rule appends_seq) (simp only: list_all2_Cons list_all2_Nil appends_rules simp_thms)
  then have app: "appends (\<lambda>w. fold (\<lambda>f w. f w) ?fs w) t"
    by (simp add: t_def sum_text_def)
  show "w_finish w = (if at + length t \<le> length out then Some (at + length t) else None)"
      "length (w_buf w) = length out" "at + length t \<le> length out \<Longrightarrow> take (at + length t) (w_buf w) = take at out @ t"
    unfolding w_def using appends_at [OF app assms(1)] by simp_all
qed

definition built_message :: "bytes \<Rightarrow> bytes \<Rightarrow> bytes" where
  "built_message bs body =
     (let ds = dec_text (length body) in message bs ds body (sum_text (checksum (message_head bs ds @ body))))"

text \<open>What \<open>build\<close> returns, by what fits.\<close>

lemma emit_build_spec:
  fixes mtype :: bytes and now :: u64 and out :: bytes
  assumes put: "appends put (body_text fs)" and ok: "emitter_ok em"
    and run: "emit_build mtype now out put em = (r, out', em')"
  defines "body \<equiv> body_text (header_fields mtype now em @ fs)"
  defines "m \<equiv> built_message (emitter_begin em) body"
  shows "length out' = length out \<and> length (em_body em') = MAX_EMIT_LEN \<and>
    em' = (case r of Inl _ \<Rightarrow> em\<lparr> em_body := em_body em' \<rparr>
       | Inr _ \<Rightarrow> em\<lparr> em_body := em_body em', em_next_seq := em_next_seq em + 1, em_last_sent_ns := now \<rparr>) \<and>
    r = (if MAX_EMIT_LEN < length body then Inl (EmitError MAX_EMIT_LEN)
         else if length out < length m then Inl (EmitError (length out)) else Inr (length m)) \<and>
    (\<forall>n. r = Inr n \<longrightarrow> take n out' = m)"
proof -
  have len: "length (em_body em) = MAX_EMIT_LEN"
    using ok by (simp add: emitter_ok_def)
  define w where "w = emit_body mtype now put em"
  note b = emit_body_writes [OF put len, of mtype now, folded w_def body_def]
  show ?thesis
  proof (cases "length body \<le> MAX_EMIT_LEN")
    case False
    then have "(r, out', em') = (Inl (EmitError MAX_EMIT_LEN), out, em\<lparr> em_body := w_buf w \<rparr>)"
      unfolding run [symmetric] using b(1) by (simp add: emit_build_def Let_def w_def [symmetric])
    then show ?thesis
      using False b(2) by simp
  next
    case True
    let ?bs = "emitter_begin em"
    define h where "h = message_head ?bs (dec_text (length body)) @ body"
    define w2 where "w2 = w_bytes body (w_tag_u64 9 (word_of_nat (length body)) (w_byte SOH (w_bytes ?bs
        (w_bytes [0x38, 0x3D] (writer_new out)))))"
    note h = head_writes [OF True, of ?bs out, folded h_def w2_def]
    have m: "m = h @ [0x31, 0x30, 0x3D] @ sum_text (checksum h) @ [SOH]"
      by (simp add: m_def built_message_def message_def h_def Let_def)
    have body: "take (length body) (w_buf w) = body"
      using b(3) True by simp
    show ?thesis
    proof (cases "length h \<le> length out")
      case False
      then have "(r, out', em') = (Inl (EmitError (length out)), w_buf w2, em\<lparr> em_body := w_buf w \<rparr>)"
        unfolding run [symmetric] using b(1) True h(1,2)
        by (simp add: emit_build_def Let_def w_def [symmetric] body w2_def emitter_begin_def)
      moreover have "length out < length m"
        using False by (simp add: m)
      ultimately show ?thesis
        using True b(2) h(2) by simp
    next
      case fits: True
      define w3 where "w3 = w_byte SOH (w_byte (0x30 + checksum h mod 10) (w_byte (0x30 + (checksum h div 10) mod 10)
          (w_byte (0x30 + (checksum h div 100) mod 10) (w_bytes [0x31, 0x30, 0x3D] (writer_at (w_buf w2) (length h))))))"
      have "length h \<le> length (w_buf w2)"
        using fits h(2) by simp
      note t = trailer_writes [OF this, of "checksum h", folded w3_def]
      have n: "length h + length ([0x31, 0x30, 0x3D] @ sum_text (checksum h) @ [SOH]) = length m"
        by (simp add: m)
      note t = t [unfolded n h(2)]
      have "(r, out', em') = (case w_finish w3 of None \<Rightarrow> (Inl (EmitError (length out)), w_buf w3, em\<lparr> em_body := w_buf w \<rparr>)
          | Some n \<Rightarrow> (Inr n, w_buf w3,
              em\<lparr> em_body := w_buf w, em_next_seq := em_next_seq em + 1, em_last_sent_ns := now \<rparr>))"
        unfolding run [symmetric] using b(1) True h fits t(2)
        by (simp add: emit_build_def Let_def w_def [symmetric] body w2_def [symmetric] w3_def [symmetric]
            emitter_begin_def [symmetric] split: option.split)
      then show ?thesis
        using t b(2) True h(3) fits by (auto simp: m split: if_splits)
    qed
  qed
qed

lemma built_message_short:
  assumes "bs \<noteq> []" "SOH \<notin> set bs" "length bs \<le> 16" and "body \<noteq> []" "last body = SOH" "length body \<le> MAX_EMIT_LEN"
  shows "short_message (built_message bs body)" "frame (built_message bs body @ rest) =
    Inr \<lparr> fr_bytes = built_message bs body, fr_begin = bs, fr_body = body \<rparr>"
proof -
  let ?ds = "dec_text (length body)"
  let ?cs = "sum_text (checksum (message_head bs ?ds @ body))"
  have m: "built_message bs body = message bs ?ds body ?cs"
    by (simp add: built_message_def Let_def)
  have len: "length ?ds \<le> 4"
    using length_dec_text [of "length body" 3] assms(6) by (simp add: MAX_EMIT_LEN_def)
  have ok: "message_ok bs ?ds body ?cs"
    using assms dec_text_spec [of "length body"] sum_text_spec len
    by (simp add: message_ok_def MAX_EMIT_LEN_def FIX_MAX_BODY_LENGTH_def)
  show "short_message (built_message bs body)"
    unfolding short_message_def m using ok len assms(3) by fastforce
  show "frame (built_message bs body @ rest) = Inr \<lparr> fr_bytes = built_message bs body, fr_begin = bs, fr_body = body \<rparr>"
    unfolding frame_Inr m using ok by blast
qed

subsection \<open>Every message of the session\<close>

text \<open>The messages the handler sends, their types and the fields each writes after the header.\<close>

datatype outbound =
    OutLogon u32 bool
  | OutHeartbeat "bytes option"
  | OutTestRequest bytes
  | OutResendRequest u64 u64
  | OutSequenceReset u64 bool
  | OutLogout "bytes option"
  | OutMarketDataRequest subscription_request

fun emit :: "outbound \<Rightarrow> u64 \<Rightarrow> bytes \<Rightarrow> emitter \<Rightarrow> emitted" where
  "emit (OutLogon secs reset) = emit_logon secs reset"
| "emit (OutHeartbeat i) = emit_heartbeat i"
| "emit (OutTestRequest i) = emit_test_request i"
| "emit (OutResendRequest first until) = emit_resend_request first until"
| "emit (OutSequenceReset seq gap_fill) = emit_sequence_reset seq gap_fill"
| "emit (OutLogout reason) = emit_logout reason"
| "emit (OutMarketDataRequest req) = emit_market_data_request req"

fun outbound_type :: "outbound \<Rightarrow> bytes" where
  "outbound_type (OutLogon _ _) = [0x41]"
| "outbound_type (OutHeartbeat _) = [0x30]"
| "outbound_type (OutTestRequest _) = [0x31]"
| "outbound_type (OutResendRequest _ _) = [0x32]"
| "outbound_type (OutSequenceReset _ _) = [0x34]"
| "outbound_type (OutLogout _) = [0x35]"
| "outbound_type (OutMarketDataRequest _) = [0x56]"

definition num_field :: "u32 \<Rightarrow> 'a::len word \<Rightarrow> bytes \<times> bytes" where
  "num_field tag v = (num_text tag, dec_text (unat v))"

fun outbound_fields :: "outbound \<Rightarrow> (bytes \<times> bytes) list" where
  "outbound_fields (OutLogon secs reset) =
     [num_field OUT_ENCRYPT_METHOD (0 :: u64), num_field TAG_HEART_BT_INT secs] @
     (if reset then [(num_text OUT_RESET_SEQ_NUM_FLAG, [0x59])] else [])"
| "outbound_fields (OutHeartbeat i) = (case i of Some i \<Rightarrow> [(num_text TAG_TEST_REQ_ID, i)] | None \<Rightarrow> [])"
| "outbound_fields (OutTestRequest i) = [(num_text TAG_TEST_REQ_ID, i)]"
| "outbound_fields (OutResendRequest first until) =
     [num_field TAG_BEGIN_SEQ_NO first, num_field TAG_END_SEQ_NO until]"
| "outbound_fields (OutSequenceReset seq gap_fill) =
     num_field TAG_NEW_SEQ_NO seq # (if gap_fill then [(num_text TAG_GAP_FILL_FLAG, [0x59])] else [])"
| "outbound_fields (OutLogout reason) = (case reason of Some t \<Rightarrow> [(num_text OUT_TEXT, t)] | None \<Rightarrow> [])"
| "outbound_fields (OutMarketDataRequest req) =
     [(num_text TAG_MD_REQ_ID, sr_req_id req),
      (num_text OUT_SUBSCRIPTION_TYPE, [subscription_as_byte (sr_subscription req)]),
      num_field OUT_MARKET_DEPTH (sr_depth req)] @
     (case sr_update_type req of Some u \<Rightarrow> [(num_text OUT_MD_UPDATE_TYPE, [u])] | None \<Rightarrow> []) @
     num_field OUT_NO_MD_ENTRY_TYPES (word_of_nat (length (sr_entry_types req)) :: u64) #
     map (\<lambda>e. (num_text TAG_MD_ENTRY_TYPE, [md_entry_type_as_byte e])) (sr_entry_types req) @
     num_field OUT_NO_RELATED_SYM (word_of_nat (length (sr_symbols req)) :: u64) #
     map (\<lambda>s. (num_text TAG_SYMBOL, s)) (sr_symbols req)"

lemma unat_ucast_u32: "unat (ucast (v :: u32) :: u64) = unat v"
  by (simp add: unsigned_ucast_eq take_bit_nat_eq_self less_trans [OF unsigned_less])

text \<open>One field written is one field of the body.\<close>

lemma puts_field:
  "appends (w_tag tag v) (body_text [(num_text tag, v)])"
  "appends (w_tag_u64 tag n) (body_text [num_field tag n])"
  "appends (w_tag_u64 tag (ucast (u :: u32))) (body_text [num_field tag u])"
  using appends_tag [of tag v] appends_tag_u64 [of tag n] appends_tag_u64 [of tag "ucast u"]
  by (simp_all add: body_text_def num_field_def num_text_def unat_ucast_u32)

lemma puts_then:
  assumes "appends f (body_text fs)" and "appends g (body_text gs)"
  shows "appends (\<lambda>w. g (f w)) (body_text (fs @ gs))"
  using appends_comp [OF assms] by (simp add: body_text_append)

lemma puts_none: "appends (\<lambda>w. w) (body_text [])"
  by (simp add: body_text_def appends_id)

lemma puts_each: "appends (fold (\<lambda>x. w_tag tag (g x)) xs) (body_text (map (\<lambda>x. (num_text tag, g x)) xs))"
proof (induction xs)
  case Nil
  then show ?case
    using puts_none by (simp add: id_def)
next
  case (Cons x xs)
  then show ?case
    using puts_then [OF puts_field(1) [of tag "g x"] Cons] by (simp add: comp_def)
qed

text \<open>Every builder is \<open>build\<close> with its type and a closure that writes its fields.\<close>

lemma emit_is_build:
  obtains put where "emit msg now out em = emit_build (outbound_type msg) now out put em"
    "appends put (body_text (outbound_fields msg))"
proof (cases msg)
  case (OutLogon secs reset)
  have "appends (\<lambda>w. (if reset then w_tag OUT_RESET_SEQ_NUM_FLAG [0x59] else (\<lambda>w. w))
      (w_tag_u64 TAG_HEART_BT_INT (ucast secs) (w_tag_u64 OUT_ENCRYPT_METHOD 0 w)))
      (body_text (([num_field OUT_ENCRYPT_METHOD (0 :: u64)] @ [num_field TAG_HEART_BT_INT secs]) @
        (if reset then [(num_text OUT_RESET_SEQ_NUM_FLAG, [0x59])] else [])))"
    using puts_field(1) puts_none by (intro puts_then [OF puts_then [OF puts_field(2) puts_field(3)]]) auto
  then show thesis
    by (intro that) (auto simp: OutLogon emit_logon_def Let_def if_distrib [of "\<lambda>f. f _"] cong: if_cong)
next
  case (OutHeartbeat i)
  show thesis
    using puts_field(1) puts_none
    by (intro that) (auto simp: OutHeartbeat emit_heartbeat_def split: option.split)
next
  case (OutTestRequest i)
  show thesis
    using puts_field(1) by (intro that) (auto simp: OutTestRequest emit_test_request_def)
next
  case (OutResendRequest first until)
  show thesis
    using puts_then [OF puts_field(2) puts_field(2)]
    by (intro that) (auto simp: OutResendRequest emit_resend_request_def)
next
  case (OutSequenceReset seq gap_fill)
  have "appends (\<lambda>w. (if gap_fill then w_tag TAG_GAP_FILL_FLAG [0x59] else (\<lambda>w. w)) (w_tag_u64 TAG_NEW_SEQ_NO seq w))
      (body_text ([num_field TAG_NEW_SEQ_NO seq] @ (if gap_fill then [(num_text TAG_GAP_FILL_FLAG, [0x59])] else [])))"
    using puts_field(1) puts_none by (intro puts_then [OF puts_field(2)]) auto
  then show thesis
    by (intro that) (auto simp: OutSequenceReset emit_sequence_reset_def Let_def if_distrib [of "\<lambda>f. f _"] cong: if_cong)
next
  case (OutLogout reason)
  show thesis
    using puts_field(1) puts_none
    by (intro that) (auto simp: OutLogout emit_logout_def split: option.split)
next
  case (OutMarketDataRequest req)
  let ?upd = "case sr_update_type req of Some u \<Rightarrow> w_tag OUT_MD_UPDATE_TYPE [u] | None \<Rightarrow> (\<lambda>w. w)"
  have upd: "appends ?upd (body_text (case sr_update_type req of Some u \<Rightarrow> [(num_text OUT_MD_UPDATE_TYPE, [u])] | None \<Rightarrow> []))"
    using puts_field(1) puts_none by (auto split: option.split)
  note puts = puts_then [OF puts_then [OF puts_then [OF puts_then [OF puts_then [OF puts_then [OF puts_then
      [OF puts_field(1) [of TAG_MD_REQ_ID "sr_req_id req"]
        puts_field(1) [of OUT_SUBSCRIPTION_TYPE "[subscription_as_byte (sr_subscription req)]"]]
        puts_field(3) [of OUT_MARKET_DEPTH "sr_depth req"]] upd]
        puts_field(2) [of OUT_NO_MD_ENTRY_TYPES "word_of_nat (length (sr_entry_types req))"]]
        puts_each [of TAG_MD_ENTRY_TYPE "\<lambda>e. [md_entry_type_as_byte e]" "sr_entry_types req"]]
        puts_field(2) [of OUT_NO_RELATED_SYM "word_of_nat (length (sr_symbols req))"]]
        puts_each [of TAG_SYMBOL "\<lambda>s. s" "sr_symbols req"]]
  show thesis
    by (rule that [rotated], rule puts [THEN iffD1 [OF arg_cong [where f = "appends _"], rotated]])
      (simp_all add: OutMarketDataRequest emit_market_data_request_def Let_def option.case_distrib [of "\<lambda>f. f _"]
        cong: option.case_cong)
qed

definition outbound_body :: "outbound \<Rightarrow> u64 \<Rightarrow> emitter \<Rightarrow> bytes" where
  "outbound_body msg now em = body_text (header_fields (outbound_type msg) now em @ outbound_fields msg)"

lemma outbound_body_end: "outbound_body msg now em \<noteq> [] \<and> last (outbound_body msg now em) = SOH"
proof -
  have "fs \<noteq> [] \<Longrightarrow> body_text fs \<noteq> [] \<and> last (body_text fs) = SOH" for fs
    by (cases fs rule: rev_cases) (auto simp: body_text_def field_text_def split: prod.splits)
  moreover have "header_fields (outbound_type msg) now em @ outbound_fields msg \<noteq> []"
    by (simp add: header_fields_def)
  ultimately show ?thesis
    unfolding outbound_body_def by blast
qed

lemma emit_spec:
  assumes "emitter_ok em" and "emit msg now out em = (r, out', em')"
  defines "m \<equiv> built_message (emitter_begin em) (outbound_body msg now em)"
  shows "length out' = length out \<and> length (em_body em') = MAX_EMIT_LEN \<and>
    em' = (case r of Inl _ \<Rightarrow> em\<lparr> em_body := em_body em' \<rparr>
       | Inr _ \<Rightarrow> em\<lparr> em_body := em_body em', em_next_seq := em_next_seq em + 1, em_last_sent_ns := now \<rparr>) \<and>
    r = (if MAX_EMIT_LEN < length (outbound_body msg now em) then Inl (EmitError MAX_EMIT_LEN)
         else if length out < length m then Inl (EmitError (length out)) else Inr (length m)) \<and>
    (\<forall>n. r = Inr n \<longrightarrow> take n out' = m)"
proof -
  obtain put where put: "emit msg now out em = emit_build (outbound_type msg) now out put em"
      "appends put (body_text (outbound_fields msg))"
    by (rule emit_is_build)
  show ?thesis
    unfolding m_def outbound_body_def
    by (rule emit_build_spec [OF put(2) assms(1) assms(2) [unfolded put(1)]])
qed

lemma emitter_begin_props:
  assumes "emitter_ok em"
  shows "emitter_begin em \<noteq> []" "SOH \<notin> set (emitter_begin em)" "length (emitter_begin em) \<le> 16"
  using assms by (auto simp: emitter_ok_def emitter_begin_def unat_eq_0)

lemma emit_sent:
  assumes "emitter_ok em" and "emit msg now out em = (Inr n, out', em')"
  defines "m \<equiv> built_message (emitter_begin em) (outbound_body msg now em)"
  shows "take n out' = m" "short_message m"
    "frame (m @ rest) = Inr \<lparr> fr_bytes = m, fr_begin = emitter_begin em, fr_body = outbound_body msg now em \<rparr>"
proof -
  note spec = emit_spec [OF assms(1,2), folded m_def]
  show "take n out' = m"
    using spec by simp
  have "length (outbound_body msg now em) \<le> MAX_EMIT_LEN"
    using spec by (simp split: if_splits)
  note b = built_message_short [OF emitter_begin_props [OF assms(1)] _ _ this, folded m_def]
  show "short_message m"
      "frame (m @ rest) = Inr \<lparr> fr_bytes = m, fr_begin = emitter_begin em, fr_body = outbound_body msg now em \<rparr>"
    using b outbound_body_end by simp_all
qed

text \<open>
  C28. Every message the handler sends is a message the framer accepts. For each builder - logon,
  heartbeat, test request, resend request, sequence reset, logout, market data request - what a
  successful call leaves in the buffer, followed by any other bytes, frames to exactly that message,
  with the emitter's begin string and a body that is the header fields (type, parties, sequence number,
  sending time) followed by the builder's own fields; the length and the checksum written are the ones
  the framer computes. The sequence number advances by one and the time of the last message is \<open>now\<close>. The
  begin string the emitter was given is not empty and holds no field separator, which the code does not check.
\<close>

theorem emit_frames:
  assumes "emitter_ok em" and "emit msg now out em = (Inr n, out', em')"
  shows "(\<exists>f. frame (take n out' @ rest) = Inr f \<and> fr_bytes f = take n out' \<and> fr_begin f = emitter_begin em \<and>
      fr_body f = body_text (header_fields (outbound_type msg) now em @ outbound_fields msg)) \<and>
    short_message (take n out') \<and>
    em_next_seq em' = em_next_seq em + 1 \<and> em_last_sent_ns em' = now \<and> emitter_ok em'"
proof (intro conjI)
  show "\<exists>f. frame (take n out' @ rest) = Inr f \<and> fr_bytes f = take n out' \<and> fr_begin f = emitter_begin em \<and>
      fr_body f = body_text (header_fields (outbound_type msg) now em @ outbound_fields msg)"
    unfolding emit_sent(1) [OF assms] emit_sent(3) [OF assms, of rest] by (simp add: outbound_body_def)
  show "short_message (take n out')"
    unfolding emit_sent(1) [OF assms] by (rule emit_sent(2) [OF assms])
  obtain b where "length b = MAX_EMIT_LEN"
      "em' = em\<lparr> em_body := b, em_next_seq := em_next_seq em + 1, em_last_sent_ns := now \<rparr>"
    using emit_spec [OF assms] by (intro that [of "em_body em'"]) simp_all
  then show "em_next_seq em' = em_next_seq em + 1" "em_last_sent_ns em' = now" "emitter_ok em'"
    using assms(1) by (simp_all add: emitter_ok_def emitter_begin_def)
qed

lemma length_built_message:
  "length (built_message bs body) = length bs + length (dec_text (length body)) + length body + 13"
  using sum_text_spec by (simp add: built_message_def message_def message_head_def Let_def)

text \<open>The first heartbeat of a session, for the witnesses.\<close>

definition first_emitter :: emitter where
  "first_emitter = emitter_new [0x4D, 0x45] [0x58]"

lemma first_emitter_ok: "emitter_ok first_emitter" "em_next_seq first_emitter = 1"
  by (simp_all add: first_emitter_def emitter_ok_def emitter_begin_def emitter_new_def padded_begin_def
      FIX_BEGIN_STRING_def Let_def SOH_def MAX_EMIT_LEN_def)

lemma first_heartbeat:
  obtains n out' em' where
    "emit (OutHeartbeat None) now (replicate 256 0) first_emitter = (Inr n, out', em')"
proof -
  obtain r out' em' where run: "emit (OutHeartbeat None) now (replicate 256 0) first_emitter = (r, out', em')"
    by (rule prod_cases3)
  have body: "length (outbound_body (OutHeartbeat None) now first_emitter) = 46"
    by (simp add: outbound_body_def header_fields_def body_text_def field_text_def length_time_text first_emitter_def
        emitter_new_def num_text_def dec_text_def low_digits.simps md_tag_defs out_tag_defs FIX_TEXT_LEN_def)
  then have "length (built_message (emitter_begin first_emitter) (outbound_body (OutHeartbeat None) now first_emitter)) = 68"
    unfolding length_built_message body
    by (simp add: first_emitter_def emitter_begin_def emitter_new_def padded_begin_def FIX_BEGIN_STRING_def Let_def
        dec_text_def low_digits.simps)
  then show thesis
    using emit_spec [OF first_emitter_ok(1) run] body run by (intro that) (simp add: MAX_EMIT_LEN_def)
qed

theorem emit_frames_witness:
  "\<exists>n out' em' f. emit (OutHeartbeat None) 1000000000 (replicate 256 0) first_emitter = (Inr n, out', em') \<and>
     frame (take n out' @ [0x38]) = Inr f \<and> em_next_seq em' = 2"
proof -
  obtain n out' em' where run: "emit (OutHeartbeat None) 1000000000 (replicate 256 0) first_emitter = (Inr n, out', em')"
    by (rule first_heartbeat)
  show ?thesis
    using emit_frames [OF first_emitter_ok(1) run, of "[0x38]"] run first_emitter_ok(2) by auto
qed

text \<open>
  A message that does not fit is refused and changes nothing of the session. The error names the
  capacity of the buffer that was too small: the emitter's own 4096 bytes when the body exceeds it,
  else the caller's buffer; it is returned only then. The sequence number and the time of the last
  message stay as they were, so the next message carries the number this one would have.
\<close>

theorem emit_refuses:
  assumes "emitter_ok em" and "emit msg now out em = (Inl e, out', em')"
  shows "e = EmitError (if MAX_EMIT_LEN < length (outbound_body msg now em) then MAX_EMIT_LEN else length out) \<and>
    (length (outbound_body msg now em) \<le> MAX_EMIT_LEN \<longrightarrow>
      length out < length (built_message (emitter_begin em) (outbound_body msg now em))) \<and>
    em_next_seq em' = em_next_seq em \<and> em_last_sent_ns em' = em_last_sent_ns em \<and> emitter_ok em' \<and>
    length out' = length out"
proof -
  obtain b where "length b = MAX_EMIT_LEN" "em' = em\<lparr> em_body := b \<rparr>"
    using emit_spec [OF assms] by (intro that [of "em_body em'"]) simp_all
  then show ?thesis
    using emit_spec [OF assms] assms(1) by (auto simp: emitter_ok_def emitter_begin_def split: if_splits)
qed

theorem emit_refuses_witness:
  "\<exists>e out' em'. emit (OutHeartbeat None) 0 [] first_emitter = (Inl e, out', em') \<and> em_next_seq em' = 1"
proof -
  obtain r out' em' where run: "emit (OutHeartbeat None) 0 [] first_emitter = (r, out', em')"
    by (rule prod_cases3)
  then obtain e where r: "r = Inl e"
    using emit_spec [OF first_emitter_ok(1) run] by (auto simp: length_built_message split: if_splits)
  show ?thesis
    using emit_refuses [OF first_emitter_ok(1) run [unfolded r]] run r first_emitter_ok(2) by auto
qed

subsection \<open>The other side reads what was sent\<close>

fun outbound_texts :: "outbound \<Rightarrow> bytes list" where
  "outbound_texts (OutHeartbeat (Some i)) = [i]"
| "outbound_texts (OutTestRequest i) = [i]"
| "outbound_texts (OutLogout (Some t)) = [t]"
| "outbound_texts (OutMarketDataRequest req) =
     sr_req_id req # (case sr_update_type req of Some u \<Rightarrow> [[u]] | None \<Rightarrow> []) @ map (\<lambda>e. [md_entry_type_as_byte e]) (sr_entry_types req) @ sr_symbols req"
| "outbound_texts _ = []"

fun outbound_numbers :: "outbound \<Rightarrow> u64 list" where
  "outbound_numbers (OutResendRequest first until) = [first, until]"
| "outbound_numbers (OutSequenceReset seq _) = [seq]"
| "outbound_numbers _ = []"

text \<open>What an administration message says, as the parser's record.\<close>

fun outbound_admin :: "outbound \<Rightarrow> admin_message \<Rightarrow> admin_message option" where
  "outbound_admin (OutLogon secs _) m = Some (m\<lparr> a_type := Logon, a_heartbeat_secs := Some secs \<rparr>)"
| "outbound_admin (OutHeartbeat i) m =
     Some (case i of Some i \<Rightarrow> m\<lparr> a_type := MtHeartbeat, a_test_req_id := fix_text_new i \<rparr> | None \<Rightarrow> m\<lparr> a_type := MtHeartbeat \<rparr>)"
| "outbound_admin (OutTestRequest i) m = Some (m\<lparr> a_type := TestRequest, a_test_req_id := fix_text_new i \<rparr>)"
| "outbound_admin (OutResendRequest first until) m =
     Some (m\<lparr> a_type := ResendRequest, a_begin_seq_no := Some first, a_end_seq_no := Some until \<rparr>)"
| "outbound_admin (OutSequenceReset seq gap_fill) m =
     Some (m\<lparr> a_type := SequenceReset, a_new_seq_no := Some seq, a_gap_fill := gap_fill \<rparr>)"
| "outbound_admin (OutLogout _) m = Some (m\<lparr> a_type := Logout \<rparr>)"
| "outbound_admin (OutMarketDataRequest _) m = None"

definition sendable :: "outbound \<Rightarrow> emitter \<Rightarrow> bool" where
  "sendable msg em \<longleftrightarrow>
     list_all (\<lambda>t. SOH \<notin> set t) (fix_text_bytes (em_sender em) # fix_text_bytes (em_target em) # outbound_texts msg) \<and>
     list_all (\<lambda>v. unat v < 10 ^ 19) (em_next_seq em # outbound_numbers msg)"

lemma num_text_field: "unat tag < 10 ^ 9 \<Longrightarrow> tag_ok (num_text tag) \<and> word_of_nat (dec_value (num_text tag)) = tag"
  using dec_text_spec [of "unat tag"] length_dec_text [of "unat tag" 8]
  by (simp add: num_text_def tag_ok_def)

lemma dec_text_parses: "unat (v :: u64) < 10 ^ 19 \<Longrightarrow> fix_parse_u64 (dec_text (unat v)) = Some v"
  using dec_text_spec [of "unat v"] length_dec_text [of "unat v" 18]
  by (simp add: fix_parse_u64_eq)

lemma dec_text_parses_u32: "fix_parse_u64 (dec_text (unat (v :: u32))) = Some (ucast v)"
proof -
  have "unat (ucast v :: u64) < 10 ^ 19"
    unfolding unat_ucast_u32 by (rule order_less_le_trans [OF unsigned_less]) simp
  from dec_text_parses [OF this] show ?thesis
    by (simp only: unat_ucast_u32)
qed

lemma dec_text_clean: "SOH \<notin> set (dec_text v)"
  using dec_text_spec [of v] soh_not_digit by blast

lemma pad_text_clean: "SOH \<notin> set (pad_text v n)"
  using dec_text_clean by (simp add: pad_text_def SOH_def)

lemma time_text_clean: "SOH \<notin> set (time_text now)"
  using pad_text_clean by (simp add: time_text_def Let_def SOH_def split: prod.split)

lemma step_fields_append: "step_fields step (fs @ gs) acc = and_then (step_fields step fs acc) (step_fields step gs)"
  by (induction step fs acc rule: step_fields.induct) (simp_all add: and_then_def split: sum.splits)

definition admin_header :: "bytes \<Rightarrow> u64 \<Rightarrow> emitter \<Rightarrow> admin_message" where
  "admin_header mtype now em = ADMIN_MESSAGE_EMPTY\<lparr> a_type := msg_type_from_value mtype, a_seq_num := em_next_seq em,
     a_sending_time := now - now mod 1000000 \<rparr>"

lemmas all_tag_defs = md_tag_defs admin_tag_defs out_tag_defs

lemma field_tag: "unat tag < 10 ^ 9 \<Longrightarrow> word_of_nat (dec_value (num_text tag)) = tag"
  by (simp add: num_text_field)

lemma header_steps:
  assumes "is_admin (msg_type_from_value mtype)" and "unat (em_next_seq em) < 10 ^ 19"
  shows "step_fields admin_step (header_fields mtype now em) (ADMIN_MESSAGE_EMPTY, False, False) =
    Inr (admin_header mtype now em, True, True)"
  using assms
  by (simp add: header_fields_def field_tag all_tag_defs admin_step_def Let_def dec_text_parses time_text_parses
      field_as_u64_def field_as_utc_timestamp_def admin_header_def ok_or_def)

lemma step_one:
  "unat tag < 10 ^ 9 \<Longrightarrow> step_fields step [(num_text tag, v)] acc = step \<lparr> f_tag = tag, f_value = v \<rparr> acc"
  by (cases "step \<lparr> f_tag = tag, f_value = v \<rparr> acc") (simp_all add: field_tag)

lemma outbound_steps:
  assumes "outbound_admin msg m = Some m'" and "list_all (\<lambda>v. unat v < 10 ^ 19) (outbound_numbers msg)"
    and m: "\<not> a_gap_fill m" "is_admin (a_type m)" "a_type m = msg_type_from_value (outbound_type msg)"
  shows "step_fields admin_step (outbound_fields msg) (m, True, True) = Inr (m', True, True)"
proof -
  have hb: "unat (ucast (v :: u32) :: u64) < 4294967296" for v
    unfolding unat_ucast_u32 by (rule order_less_le_trans [OF unsigned_less]) simp
  have narrow: "ucast (ucast (v :: u32) :: u64) = v" for v
    by (metis of_nat_unat ucast_id unat_ucast_u32)
  note type = m(3) [symmetric]
  note simps = step_one field_tag num_field_def all_tag_defs admin_step_def Let_def dec_text_parses dec_text_parses_u32
    field_as_u64_def field_as_u32_def ok_or_def msg_type_from_value_def field_is_yes_def hb narrow
  show ?thesis
  proof (cases msg)
    case (OutHeartbeat i)
    then show ?thesis
      using assms(1,2) type by (cases m; cases i) (auto simp: simps)
  next
    case (OutSequenceReset seq gap_fill)
    then show ?thesis
      using assms(1,2) type m(1) by (cases m) (auto simp: simps)
  next
    case (OutLogout reason)
    then show ?thesis
      using assms(1,2) type by (cases m; cases reason) (auto simp: simps)
  qed (use assms(1,2) type in \<open>cases m, auto simp: simps\<close>)+
qed

lemma outbound_fields_ok:
  assumes "sendable msg em"
  shows "list_all (\<lambda>(tag, v). tag_ok tag \<and> SOH \<notin> set v) (header_fields (outbound_type msg) now em @ outbound_fields msg)"
proof -
  have tag: "unat tag < 10 ^ 9 \<Longrightarrow> tag_ok (num_text tag)" for tag
    by (simp add: num_text_field)
  have type: "SOH \<notin> set (outbound_type msg)"
    by (cases msg) (simp_all add: SOH_def)
  have sub_type: "SOH \<noteq> subscription_as_byte t" for t
    by (cases t) (simp_all add: SOH_def)
  have soh: "SOH \<noteq> 0x59"
    by (simp add: SOH_def)
  have "list_all (\<lambda>(tag, v). tag_ok tag \<and> SOH \<notin> set v) (header_fields (outbound_type msg) now em)"
    using assms type by (simp add: header_fields_def tag all_tag_defs dec_text_clean time_text_clean sendable_def)
  moreover have "list_all (\<lambda>(tag, v). tag_ok tag \<and> SOH \<notin> set v) (outbound_fields msg)"
    using assms soh sub_type
    by (cases msg) (auto simp: num_field_def tag all_tag_defs dec_text_clean sendable_def list_all_iff split: option.splits)
  ultimately show ?thesis
    by simp
qed

text \<open>
  C20. The other side reads an administration message as it was meant. A logon, heartbeat, test request,
  resend request, sequence reset or logout that the handler sends, whatever bytes follow it, frames and
  parses to a message of that type with the emitter's sequence number, the time it was sent to the
  millisecond, and the fields the builder was given: heartbeat interval, test request id, range asked
  for, new sequence number, gap-fill flag. Texts must not contain the separator, and the numbers must
  have at most 19 digits, which is what the parser reads.
\<close>

theorem admin_roundtrip:
  assumes "emitter_ok em" and "sendable msg em" and "emit msg now out em = (Inr n, out', em')"
    and "outbound_admin msg (admin_header (outbound_type msg) now em) = Some m"
  shows "\<exists>f. frame (take n out' @ rest) = Inr f \<and> parse_admin_message f = Inr m \<and>
    frame_msg_type f = Inr (a_type m)"
proof -
  let ?h = "header_fields (outbound_type msg) now em" and ?body = "outbound_body msg now em"
  let ?f = "\<lparr> fr_bytes = take n out', fr_begin = emitter_begin em, fr_body = ?body \<rparr>"
  have frame: "frame (take n out' @ rest) = Inr ?f"
    unfolding emit_sent(1) [OF assms(1,3)] by (rule emit_sent(3) [OF assms(1,3)])
  have admin: "is_admin (msg_type_from_value (outbound_type msg))"
    using assms(4) by (cases msg) (simp_all add: msg_type_from_value_def is_admin_def)
  have "for_fields admin_step (frame_fields ?f) (ADMIN_MESSAGE_EMPTY, False, False) =
      step_fields admin_step (?h @ outbound_fields msg) (ADMIN_MESSAGE_EMPTY, False, False)"
    using for_fields_text [OF outbound_fields_ok [OF assms(2)], of admin_step "[]" now]
    by (simp add: frame_fields_def fields_new_def outbound_body_def)
  also have "... = step_fields admin_step (outbound_fields msg) (admin_header (outbound_type msg) now em, True, True)"
    using assms(2) admin by (simp add: step_fields_append header_steps sendable_def)
  also have "... = Inr (m, True, True)"
    by (rule outbound_steps [OF assms(4)])
      (use assms(2) admin in \<open>simp_all add: sendable_def admin_header_def ADMIN_MESSAGE_EMPTY_def\<close>)
  finally have "parse_admin_message ?f = Inr m"
    by (simp add: parse_admin_message_def)
  moreover have "frame_msg_type ?f = Inr (a_type m)"
  proof -
    have "a_type m = msg_type_from_value (outbound_type msg)"
      using assms(4) by (cases msg) (auto simp: admin_header_def msg_type_from_value_def split: option.splits)
    moreover have "SOH \<notin> set (outbound_type msg)"
      by (cases msg) (simp_all add: SOH_def)
    moreover have "?body = field_text (num_text TAG_MSG_TYPE) (outbound_type msg) @
        body_text (tl ?h @ outbound_fields msg)"
      by (simp add: outbound_body_def header_fields_def body_text_def)
    moreover have "field_text (num_text TAG_MSG_TYPE) (outbound_type msg) \<noteq> []"
      by (simp add: field_text_def)
    ultimately show ?thesis
      by (simp add: Let_def frame_msg_type_def frame_fields_def fields_new_def msg_type_loop.simps fields_next_def fields_rest_def
          split_field_text num_text_field field_tag all_tag_defs)
  qed
  ultimately show ?thesis
    using frame by blast
qed

theorem admin_roundtrip_witness:
  "\<exists>n out' em' f m. emit (OutHeartbeat None) 1700000000123456789 (replicate 256 0) first_emitter = (Inr n, out', em') \<and>
     frame (take n out' @ [0x38]) = Inr f \<and> parse_admin_message f = Inr m \<and> a_seq_num m = 1 \<and>
     a_sending_time m = 1700000000123000000"
proof -
  obtain n out' em' where run: "emit (OutHeartbeat None) 1700000000123456789 (replicate 256 0) first_emitter = (Inr n, out', em')"
    by (rule first_heartbeat)
  have send: "sendable (OutHeartbeat None) first_emitter"
    by (simp add: sendable_def first_emitter_def emitter_new_def FIX_TEXT_LEN_def SOH_def)
  obtain m where m: "outbound_admin (OutHeartbeat None) (admin_header [0x30] 1700000000123456789 first_emitter) = Some m"
      "a_seq_num m = 1" "a_sending_time m = 1700000000123000000"
    by (simp add: admin_header_def first_emitter_ok(2))
  show ?thesis
    using admin_roundtrip [OF first_emitter_ok(1) send run, of m "[0x38]"] run m by auto
qed

end
