(* ===== verification/Fix_Link.thy ===== *)
theory Fix_Link
  imports Fix_Frame Rust_Text
begin

text \<open>
  \<open>crates/jeed-fix/src/recv/endpoint.rs\<close> and \<open>link.rs\<close>: where a session connects, and the connection with
  its reassembly buffer. Sockets, the resolver and the clock are the operating system's: a record of
  operations on its state \<open>'k\<close>, an argument of every function that calls them. Nothing is assumed of it.
\<close>

subsection \<open>Endpoints (endpoint.rs)\<close>

record fix_endpoint =
  fe_host :: chars
  fe_port :: u16

datatype fix_endpoint_error = MissingPort | BadPort | EmptyHost | Unbracketed

definition fix_endpoint_show :: "fix_endpoint \<Rightarrow> chars" where
  "fix_endpoint_show e = fe_host e @ lit '':'' @ dec_chars (unat (fe_port e))"

text \<open>The host and the text of the port, with an IPv6 literal in brackets.\<close>

definition endpoint_parts :: "chars \<Rightarrow> fix_endpoint_error + chars \<times> chars" where
  "endpoint_parts s =
     (case strip_char 91 s of
        Some tail \<Rightarrow>
          (case split_once 93 tail of
             None \<Rightarrow> Inl Unbracketed
           | Some (host, tail) \<Rightarrow> (case strip_char 58 tail of None \<Rightarrow> Inl MissingPort | Some port \<Rightarrow> Inr (host, port)))
      | None \<Rightarrow> (case rsplit_once 58 s of None \<Rightarrow> Inl MissingPort | Some parts \<Rightarrow> Inr parts))"

definition fix_endpoint_parse :: "chars \<Rightarrow> fix_endpoint_error + fix_endpoint" where
  "fix_endpoint_parse s =
     (case endpoint_parts (trim s) of
        Inl e \<Rightarrow> Inl e
      | Inr (host, port) \<Rightarrow>
          if host = [] then Inl EmptyHost
          else case parse_unsigned (2 ^ 16) port of
                 None \<Rightarrow> Inl BadPort
               | Some port \<Rightarrow> if port = 0 then Inl BadPort else Inr \<lparr> fe_host = host, fe_port = word_of_nat port \<rparr>)"

subsection \<open>The operating system\<close>

datatype io_kind = WouldBlock | TimedOut | Interrupted | NotFound | UnexpectedEof | OtherIo

text \<open>An address is its octets and its port; a stream is the number that names it.\<close>

datatype socket_addr = AddrV4 bytes u16 | AddrV6 bytes u16

fun is_ipv4 :: "socket_addr \<Rightarrow> bool" where
  "is_ipv4 (AddrV4 _ _) = True"
| "is_ipv4 (AddrV6 _ _) = False"

type_synonym stream = nat

text \<open>Durations are nanoseconds.\<close>

datatype tcp_option =
    NoDelay bool
  | WriteTimeout nat
  | NonBlocking bool
  | ReadTimeout "nat option"

text \<open>
  Name resolution, connecting within a time, the peer of a stream, its options, one read into a slice of
  the given length (the bytes that arrived), writing and flushing, closing, and the clock.
\<close>

record 'k tcp =
  tcp_addrs :: "chars \<Rightarrow> u16 \<Rightarrow> 'k \<Rightarrow> (io_kind + socket_addr list) \<times> 'k"
  tcp_connect :: "socket_addr \<Rightarrow> nat \<Rightarrow> 'k \<Rightarrow> (io_kind + stream) \<times> 'k"
  tcp_peer :: "stream \<Rightarrow> 'k \<Rightarrow> (io_kind + socket_addr) \<times> 'k"
  tcp_set :: "stream \<Rightarrow> tcp_option \<Rightarrow> 'k \<Rightarrow> (io_kind + unit) \<times> 'k"
  tcp_read :: "stream \<Rightarrow> nat \<Rightarrow> 'k \<Rightarrow> (io_kind + bytes) \<times> 'k"
  tcp_write_all :: "stream \<Rightarrow> bytes \<Rightarrow> 'k \<Rightarrow> (io_kind + unit) \<times> 'k"
  tcp_flush :: "stream \<Rightarrow> 'k \<Rightarrow> (io_kind + unit) \<times> 'k"
  tcp_close :: "stream \<Rightarrow> 'k \<Rightarrow> 'k"
  tcp_now :: "'k \<Rightarrow> u64 \<times> 'k"

text \<open>The first IPv4 address, else the first address, of those the loop of \<open>resolve\<close> goes through.\<close>

fun prefer_ipv4 :: "socket_addr list \<Rightarrow> socket_addr option \<Rightarrow> socket_addr option" where
  "prefer_ipv4 [] best = best"
| "prefer_ipv4 (a # as) best =
     (if is_ipv4 a then Some a else prefer_ipv4 as (case best of None \<Rightarrow> Some a | Some b \<Rightarrow> Some b))"

definition endpoint_resolve :: "'k tcp \<Rightarrow> fix_endpoint \<Rightarrow> 'k \<Rightarrow> (io_kind + socket_addr) \<times> 'k" where
  "endpoint_resolve os e k =
     (case tcp_addrs os (fe_host e) (fe_port e) k of
        (Inl err, k) \<Rightarrow> (Inl err, k)
      | (Inr as, k) \<Rightarrow> (case prefer_ipv4 as None of None \<Rightarrow> (Inl NotFound, k) | Some a \<Rightarrow> (Inr a, k)))"

subsection \<open>The link (link.rs)\<close>

definition FIX_RECV_BUFFER :: nat where "FIX_RECV_BUFFER = 16 * 1024"

record link_options =
  lo_nodelay :: bool
  lo_connect_timeout :: nat
  lo_read_timeout :: nat
  lo_write_timeout :: nat

definition link_options_default :: link_options where
  "link_options_default =
     \<lparr> lo_nodelay = True, lo_connect_timeout = 5 * 10 ^ 9, lo_read_timeout = 100 * 10 ^ 6, lo_write_timeout = 5 * 10 ^ 9 \<rparr>"

record link_error =
  le_call :: string
  le_source :: "io_kind option"

definition link_error_new :: "string \<Rightarrow> io_kind \<Rightarrow> link_error" where
  "link_error_new call source = \<lparr> le_call = call, le_source = Some source \<rparr>"

definition link_error_closed :: link_error where
  "link_error_closed = \<lparr> le_call = ''closed'', le_source = None \<rparr>"

definition link_error_oversize :: link_error where
  "link_error_oversize = \<lparr> le_call = ''oversize'', le_source = None \<rparr>"

definition is_closed :: "link_error \<Rightarrow> bool" where
  "is_closed e \<longleftrightarrow> le_call e = ''closed''"

definition would_block :: "io_kind \<Rightarrow> bool" where
  "would_block e \<longleftrightarrow> e = WouldBlock \<or> e = TimedOut \<or> e = Interrupted"

record link =
  lk_stream :: stream
  lk_peer :: socket_addr
  lk_buf :: frame_buffer

text \<open>\<open>f(..).map\_err(|e| LinkError::new(call, e))?\<close>, and what follows with its value.\<close>

definition io_then ::
    "string \<Rightarrow> ('k \<Rightarrow> (io_kind + 'b) \<times> 'k) \<Rightarrow> ('b \<Rightarrow> 'k \<Rightarrow> (link_error + 'a) \<times> 'k) \<Rightarrow> 'k \<Rightarrow> (link_error + 'a) \<times> 'k" where
  "io_then call f nxt k = (case f k of (Inl e, k) \<Rightarrow> (Inl (link_error_new call e), k) | (Inr v, k) \<Rightarrow> nxt v k)"

text \<open>A stream that is given up is dropped, which closes it.\<close>

definition or_close :: "'k tcp \<Rightarrow> stream \<Rightarrow> (link_error + 'a) \<times> 'k \<Rightarrow> (link_error + 'a) \<times> 'k" where
  "or_close os fd res = (case res of (Inl e, k) \<Rightarrow> (Inl e, tcp_close os fd k) | (Inr v, k) \<Rightarrow> (Inr v, k))"

definition link_connect :: "'k tcp \<Rightarrow> fix_endpoint \<Rightarrow> link_options \<Rightarrow> 'k \<Rightarrow> (link_error + link) \<times> 'k" where
  "link_connect os e opts =
     io_then ''resolve'' (endpoint_resolve os e) (\<lambda>peer.
       io_then ''connect'' (tcp_connect os peer (lo_connect_timeout opts)) (\<lambda>fd k.
         or_close os fd
           (io_then ''set_nodelay'' (tcp_set os fd (NoDelay (lo_nodelay opts))) (\<lambda>_.
              io_then ''set_write_timeout'' (tcp_set os fd (WriteTimeout (lo_write_timeout opts))) (\<lambda>_ k.
                (Inr \<lparr> lk_stream = fd, lk_peer = peer, lk_buf = fb_new FIX_RECV_BUFFER \<rparr>, k))) k)))"

definition link_from_stream :: "'k tcp \<Rightarrow> stream \<Rightarrow> 'k \<Rightarrow> (link_error + link) \<times> 'k" where
  "link_from_stream os fd k =
     or_close os fd
       (io_then ''peer_addr'' (tcp_peer os fd) (\<lambda>peer k.
          (Inr \<lparr> lk_stream = fd, lk_peer = peer, lk_buf = fb_new FIX_RECV_BUFFER \<rparr>, k)) k)"

definition link_set_mode :: "'k tcp \<Rightarrow> bool \<Rightarrow> nat \<Rightarrow> link \<Rightarrow> 'k \<Rightarrow> (link_error + unit) \<times> 'k" where
  "link_set_mode os spin read_timeout l =
     io_then ''set_nonblocking'' (tcp_set os (lk_stream l) (NonBlocking spin)) (\<lambda>_.
       io_then ''set_read_timeout'' (tcp_set os (lk_stream l) (ReadTimeout (if spin then None else Some read_timeout)))
         (\<lambda>_ k. (Inr (), k)))"

text \<open>A read gives at most as many bytes as the slice is long.\<close>

definition link_fill :: "'k tcp \<Rightarrow> link \<Rightarrow> 'k \<Rightarrow> (link_error + nat) \<times> link \<times> 'k" where
  "link_fill os l k =
     (let spare = length (fb_spare (lk_buf l))
      in if spare = 0 then (Inl link_error_oversize, l, k)
         else
           case tcp_read os (lk_stream l) spare k of
             (Inr bs, k) \<Rightarrow>
               let bs = take spare bs; n = length bs
               in if n = 0 then (Inl link_error_closed, l, k)
                  else (Inr n, l\<lparr> lk_buf := fb_commit n (fb_write_spare bs (lk_buf l)) \<rparr>, k)
           | (Inl e, k) \<Rightarrow> if would_block e then (Inr 0, l, k) else (Inl (link_error_new ''read'' e), l, k))"

definition link_peek :: "link \<Rightarrow> (fix_error, frame option) res" where
  "link_peek l = fb_peek (lk_buf l)"

definition link_consume :: "nat \<Rightarrow> link \<Rightarrow> link" where
  "link_consume n l = l\<lparr> lk_buf := fb_consume n (lk_buf l) \<rparr>"

definition link_pending :: "link \<Rightarrow> nat" where
  "link_pending l = length (fb_filled (lk_buf l))"

definition link_send :: "'k tcp \<Rightarrow> bytes \<Rightarrow> link \<Rightarrow> 'k \<Rightarrow> (link_error + unit) \<times> 'k" where
  "link_send os bs l =
     io_then ''write'' (tcp_write_all os (lk_stream l) bs) (\<lambda>_.
       io_then ''flush'' (tcp_flush os (lk_stream l)) (\<lambda>_ k. (Inr (), k)))"

subsection \<open>What endpoints and links do\<close>

lemma lit_colon: "lit '':'' = [58]"
  by (simp add: lit_def)

lemma endpoint_parts_show:
  assumes "fe_host e \<noteq> []" and "hd (fe_host e) \<noteq> 91"
  shows "endpoint_parts (fix_endpoint_show e) = Inr (fe_host e, dec_chars (unat (fe_port e)))"
proof -
  have "strip_char 91 (fix_endpoint_show e) = None"
    using assms by (cases "fe_host e") (simp_all add: fix_endpoint_show_def)
  moreover have "58 \<notin> set (dec_chars (unat (fe_port e)))"
    using dec_chars_spec [of "unat (fe_port e)"] by (auto simp: list_all_iff char_digit_def)
  ultimately show ?thesis
    by (simp add: endpoint_parts_def fix_endpoint_show_def lit_colon rsplit_once_append)
qed

lemma trim_show:
  assumes "fe_host e \<noteq> []" and "\<not> is_whitespace (hd (fe_host e))"
  shows "trim (fix_endpoint_show e) = fix_endpoint_show e"
proof (rule trim_fixed)
  note digits = dec_chars_spec [of "unat (fe_port e)"]
  then have "char_digit (last (fix_endpoint_show e))"
    by (auto simp: fix_endpoint_show_def lit_colon list_all_iff)
  then show "\<not> is_whitespace (last (fix_endpoint_show e))"
    by (auto simp: char_digit_def is_whitespace_def)
qed (use assms in \<open>simp_all add: fix_endpoint_show_def lit_colon\<close>)

text \<open>
  What an endpoint prints, it reads back. Every endpoint with a port and a host that neither starts
  with white space nor with an opening bracket - an IPv6 literal printed without brackets included, since
  the port is what follows the last colon - is read back from its own text. Nothing is read without a
  host and a port between 1 and 65535.
\<close>

theorem endpoint_roundtrip:
  "(fe_host e \<noteq> [] \<and> \<not> is_whitespace (hd (fe_host e)) \<and> hd (fe_host e) \<noteq> 91 \<and> fe_port e \<noteq> 0 \<longrightarrow>
      fix_endpoint_parse (fix_endpoint_show e) = Inr e) \<and>
   (fix_endpoint_parse s = Inr e' \<longrightarrow> fe_host e' \<noteq> [] \<and> fe_port e' \<noteq> 0)"
proof (intro conjI impI)
  assume ok: "fe_host e \<noteq> [] \<and> \<not> is_whitespace (hd (fe_host e)) \<and> hd (fe_host e) \<noteq> 91 \<and> fe_port e \<noteq> 0"
  then have "unat (fe_port e) \<noteq> 0"
    by (simp add: unat_eq_0)
  moreover have "unat (fe_port e) < 2 ^ 16"
    by (rule order_less_le_trans [OF unsigned_less]) simp
  ultimately show "fix_endpoint_parse (fix_endpoint_show e) = Inr e"
    using ok parse_unsigned_dec [of "unat (fe_port e)" "2 ^ 16"]
    by (simp add: fix_endpoint_parse_def trim_show endpoint_parts_show)
next
  assume "fix_endpoint_parse s = Inr e'"
  then obtain host port where p: "host \<noteq> []" "port < 2 ^ 16" "port \<noteq> 0" "e' = \<lparr> fe_host = host, fe_port = word_of_nat port \<rparr>"
    by (auto simp: fix_endpoint_parse_def parse_unsigned_def Let_def split: sum.splits option.splits if_splits)
  then show "fe_host e' \<noteq> []" "fe_port e' \<noteq> 0"
    by (auto simp: word_of_nat_eq_0_iff dest: dvd_imp_le)
qed

theorem endpoint_roundtrip_witness:
  "fix_endpoint_parse (fix_endpoint_show \<lparr> fe_host = lit ''::1'', fe_port = 9876 \<rparr>) = Inr \<lparr> fe_host = lit ''::1'', fe_port = 9876 \<rparr>"
  using endpoint_roundtrip [of "\<lparr> fe_host = lit ''::1'', fe_port = 9876 \<rparr>"]
  by (simp add: lit_def is_whitespace_def)

lemma prefer_ipv4_spec:
  "prefer_ipv4 as best =
     (case find is_ipv4 as of Some a \<Rightarrow> Some a
      | None \<Rightarrow> (case best of Some b \<Rightarrow> Some b | None \<Rightarrow> (case as of [] \<Rightarrow> None | a # _ \<Rightarrow> Some a)))"
  by (induction as arbitrary: best) (auto split: option.splits list.splits)

text \<open>A link keeps its stream and a buffer of the one size.\<close>

definition link_ok :: "link \<Rightarrow> bool" where
  "link_ok l \<longleftrightarrow> fb_ok FIX_RECV_BUFFER (lk_buf l)"

lemma link_fill_ok:
  assumes "link_ok l" and "link_fill os l k = (r, l', k')"
  shows "link_ok l' \<and> lk_stream l' = lk_stream l \<and>
    (case r of
       Inl _ \<Rightarrow> lk_buf l' = lk_buf l
     | Inr n \<Rightarrow> \<exists>bs. length bs = n \<and> fb_filled (lk_buf l') = fb_filled (lk_buf l) @ bs)"
proof -
  let ?n = "length (fb_spare (lk_buf l))"
  have read: "fb_ok FIX_RECV_BUFFER (fb_commit (min (length bs) ?n) (fb_write_spare (take ?n bs) (lk_buf l)))"
      "fb_filled (fb_commit (min (length bs) ?n) (fb_write_spare (take ?n bs) (lk_buf l))) = fb_filled (lk_buf l) @ take ?n bs"
    for bs
    using fb_read [OF assms(1) [unfolded link_ok_def], of "take ?n bs"] by simp_all
  show ?thesis
    using assms read
    by (auto intro: exI [where x = "take ?n bs" for bs] simp: link_fill_def link_ok_def Let_def split: if_splits prod.splits sum.splits)
qed

lemma link_consume_ok: "link_ok l \<Longrightarrow> link_ok (link_consume n l) \<and> lk_stream (link_consume n l) = lk_stream l"
  by (simp add: link_ok_def link_consume_def fb_consume_spec)


lemma link_peek_no_panic: "link_peek l \<noteq> Inl Panic"
  using frame_no_panic [of "fb_filled (lk_buf l)"]
  by (auto simp: link_peek_def fb_peek_def no_panic_def split: sum.splits fault.splits fix_error.splits)

lemma link_connect_ok: "link_connect os e opts k = (Inr l, k') \<Longrightarrow> link_ok l \<and> fb_filled (lk_buf l) = []"
  by (auto simp: link_connect_def io_then_def or_close_def link_ok_def fb_new_ok split: prod.splits sum.splits)

subsection \<open>What was written on a stream\<close>

text \<open>
  The interface the session relies on: a way to tell what was written on a stream since it was connected - the
  bytes of each call of \<open>write\_all\<close>, and whether the call succeeded - that connecting starts, writing extends
  and nothing else changes. A call that failed may have written any part of its bytes.
\<close>

locale wire_log =
  fixes os :: "'k tcp"
    and sent :: "stream \<Rightarrow> (bytes \<times> bool) list \<Rightarrow> 'k \<Rightarrow> bool"
  assumes sent_connect: "tcp_connect os a t k = (Inr fd, k') \<Longrightarrow> sent fd [] k'"
    and sent_write: "tcp_write_all os fd bs k = (res, k') \<Longrightarrow> sent fd ms k \<Longrightarrow> sent fd (ms @ [(bs, res = Inr ())]) k'"
    and sent_flush: "tcp_flush os fd k = (res, k') \<Longrightarrow> sent fd ms k \<Longrightarrow> sent fd ms k'"
    and sent_set: "tcp_set os fd opt k = (res, k') \<Longrightarrow> sent fd ms k \<Longrightarrow> sent fd ms k'"
    and sent_read: "tcp_read os fd n k = (got, k') \<Longrightarrow> sent fd ms k \<Longrightarrow> sent fd ms k'"
    and sent_now: "tcp_now os k = (now, k') \<Longrightarrow> sent fd ms k \<Longrightarrow> sent fd ms k'"
begin

lemma link_connect_sent: "link_connect os e opts k = (Inr l, k') \<Longrightarrow> sent (lk_stream l) [] k'"
  by (auto simp: link_connect_def io_then_def or_close_def split: prod.splits sum.splits dest!: sent_connect)
    (blast intro: sent_set)

lemma link_set_mode_sent:
  "link_set_mode os spin t l k = (r, k') \<Longrightarrow> sent (lk_stream l) ms k \<Longrightarrow> sent (lk_stream l) ms k'"
  by (auto simp: link_set_mode_def io_then_def split: prod.splits sum.splits intro: sent_set)

lemma link_fill_sent: "link_fill os l k = (r, l', k') \<Longrightarrow> sent (lk_stream l) ms k \<Longrightarrow> sent (lk_stream l) ms k'"
  by (auto simp: link_fill_def Let_def split: prod.splits sum.splits if_splits intro: sent_read)

lemma link_send_sent:
  assumes "link_send os bs l k = (r, k')" "sent (lk_stream l) ms k"
  shows "\<exists>complete. sent (lk_stream l) (ms @ [(bs, complete)]) k' \<and> (r = Inr () \<longrightarrow> complete)"
proof -
  obtain res k1 where w: "tcp_write_all os (lk_stream l) bs k = (res, k1)"
    by fastforce
  note written = sent_write [OF w assms(2)]
  show ?thesis
  proof (cases res)
    case (Inl e)
    then show ?thesis
      using assms(1) w written by (auto simp: link_send_def io_then_def)
  next
    case (Inr u)
    obtain v k2 where f: "tcp_flush os (lk_stream l) k1 = (v, k2)"
      by fastforce
    have "sent (lk_stream l) (ms @ [(bs, True)]) k2"
      using sent_flush [OF f written] Inr by simp
    then show ?thesis
      using assms(1) w f Inr by (cases v) (auto simp: link_send_def io_then_def)
  qed
qed

end

text \<open>An operating system that keeps a journal of the streams it opened and of the writes on them, each with its success.\<close>

datatype wire_event = Opened stream | Wrote stream "bytes \<times> bool"

definition journaled :: "('k \<Rightarrow> 'a \<times> 'k) \<Rightarrow> ('a \<Rightarrow> wire_event list) \<Rightarrow> 'k \<times> wire_event list \<Rightarrow> 'a \<times> 'k \<times> wire_event list" where
  "journaled f note st = (case f (fst st) of (v, k) \<Rightarrow> (v, k, snd st @ note v))"

definition recording :: "'k tcp \<Rightarrow> ('k \<times> wire_event list) tcp" where
  "recording os =
     \<lparr> tcp_addrs = \<lambda>host port. journaled (tcp_addrs os host port) (\<lambda>_. []),
       tcp_connect = \<lambda>a t. journaled (tcp_connect os a t) (\<lambda>r. case r of Inr fd \<Rightarrow> [Opened fd] | Inl _ \<Rightarrow> []),
       tcp_peer = \<lambda>fd. journaled (tcp_peer os fd) (\<lambda>_. []),
       tcp_set = \<lambda>fd opt. journaled (tcp_set os fd opt) (\<lambda>_. []),
       tcp_read = \<lambda>fd n. journaled (tcp_read os fd n) (\<lambda>_. []),
       tcp_write_all = \<lambda>fd bs. journaled (tcp_write_all os fd bs) (\<lambda>res. [Wrote fd (bs, res = Inr ())]),
       tcp_flush = \<lambda>fd. journaled (tcp_flush os fd) (\<lambda>_. []),
       tcp_close = \<lambda>fd st. (tcp_close os fd (fst st), snd st),
       tcp_now = journaled (tcp_now os) (\<lambda>_. []) \<rparr>"

definition journal_sent :: "stream \<Rightarrow> (bytes \<times> bool) list \<Rightarrow> 'k \<times> wire_event list \<Rightarrow> bool" where
  "journal_sent fd ms st \<longleftrightarrow> (\<exists>earlier. snd st = earlier @ Opened fd # map (Wrote fd) ms)"

interpretation journal: wire_log "recording os" journal_sent for os
proof
  fix a t k fd k'
  assume "tcp_connect (recording os) a t k = (Inr fd, k')"
  then show "journal_sent fd [] k'"
    by (auto simp: recording_def journaled_def journal_sent_def split: prod.splits)
qed (auto simp: recording_def journaled_def journal_sent_def split: prod.splits)

text \<open>Of any operating system nothing need be told.\<close>

interpretation unlogged: wire_log os "\<lambda>_ _ _. True" for os
  by unfold_locales simp_all

end
