(* ===== verification/Krx_Receiver.thy ===== *)
theory Krx_Receiver
  imports Krx_Pipeline
begin

text \<open>
  \<open>crates/jeed-krx/src/recv\<close>: the endpoint a socket joins (\<open>endpoint.rs\<close>), the per-socket counters
  (\<open>stats.rs\<close>) and the receive loop (\<open>receiver.rs\<close>). The sockets, the readiness wait and the clock
  are the operating system's: a record of operations on its state \<open>'k\<close>, an argument of every function
  that calls them. Nothing is assumed of it. The parsing and printing of endpoints is not modelled;
  it is the standard library's reading of addresses.
\<close>

subsection \<open>Endpoints (endpoint.rs)\<close>

text \<open>An IPv4 address is its four octets.\<close>

record endpoint =
  ep_group :: bytes
  ep_port :: u16
  ep_interface :: bytes

definition endpoint_new :: "bytes \<Rightarrow> u16 \<Rightarrow> endpoint" where
  "endpoint_new g port = \<lparr> ep_group = g, ep_port = port, ep_interface = [0, 0, 0, 0] \<rparr>"

definition endpoint_on :: "bytes \<Rightarrow> endpoint \<Rightarrow> endpoint" where
  "endpoint_on interface e = e\<lparr> ep_interface := interface \<rparr>"

definition group_is_multicast :: "endpoint \<Rightarrow> bool" where
  "group_is_multicast e \<longleftrightarrow> 224 \<le> ep_group e ! 0 \<and> ep_group e ! 0 \<le> 239"

subsection \<open>The operating system (socket/mod.rs)\<close>

record net_error =
  ne_call :: string
  ne_endpoint :: endpoint
  ne_code :: i32

text \<open>
  The calls of the platform module: joining, reading one datagram into the buffer of
  \<open>MAX_DATAGRAM\<close> bytes (the bytes read, or none when the socket is empty), the readiness wait, what it
  said of a socket, the clock, and which codes are transient.
\<close>

record 'k os =
  os_join :: "endpoint \<Rightarrow> 'k \<Rightarrow> (net_error + unit) \<times> 'k"
  os_recv :: "nat \<Rightarrow> 'k \<Rightarrow> (net_error + bytes option) \<times> 'k"
  os_wait :: "i32 \<Rightarrow> 'k \<Rightarrow> (net_error + nat) \<times> 'k"
  os_is_ready :: "nat \<Rightarrow> 'k \<Rightarrow> bool"
  os_now :: "'k \<Rightarrow> u64 \<times> 'k"
  os_is_transient :: "i32 \<Rightarrow> bool"

definition feed_socket_join :: "'k os \<Rightarrow> endpoint \<Rightarrow> 'k \<Rightarrow> (net_error + unit) \<times> 'k" where
  "feed_socket_join os e k =
     (if \<not> group_is_multicast e then (Inl \<lparr> ne_call = ''join'', ne_endpoint = e, ne_code = 0 \<rparr>, k)
      else os_join os e k)"

definition is_transient :: "'k os \<Rightarrow> net_error \<Rightarrow> bool" where
  "is_transient os e = os_is_transient os (ne_code e)"

subsection \<open>Counters of a socket (stats.rs)\<close>

record socket_stats =
  ss_endpoint :: endpoint
  ss_received :: u64
  ss_published :: u64
  ss_last_recv_ns :: u64
  ss_errors :: u64
  ss_seen :: "bool list"

definition socket_stats_new :: "endpoint \<Rightarrow> trcode_filter \<Rightarrow> socket_stats" where
  "socket_stats_new e f =
     \<lparr> ss_endpoint = e, ss_received = 0, ss_published = 0, ss_last_recv_ns = 0, ss_errors = 0,
       ss_seen = replicate (filter_len f) False \<rparr>"

definition mark_seen :: "nat \<Rightarrow> socket_stats \<Rightarrow> socket_stats" where
  "mark_seen i s = (if i < length (ss_seen s) then s\<lparr> ss_seen := (ss_seen s)[i := True] \<rparr> else s)"

definition saw :: "socket_stats \<Rightarrow> nat \<Rightarrow> bool" where
  "saw s i \<longleftrightarrow> (if i < length (ss_seen s) then ss_seen s ! i else False)"

definition never_seen :: "socket_stats \<Rightarrow> trcode_filter \<Rightarrow> trcode list" where
  "never_seen s f = map snd (filter (\<lambda>(i, _). \<not> saw s i) (enumerate 0 (tf_codes f)))"

subsection \<open>Configuration (receiver.rs)\<close>

definition MAX_DATAGRAM :: nat where "MAX_DATAGRAM = 2048"

datatype recv_mode = Spin | Block

record socket_options =
  so_recv_buffer_bytes :: u32
  so_nonblocking :: bool
  so_reuse_addr :: bool

definition socket_options_default :: socket_options where
  "socket_options_default =
     \<lparr> so_recv_buffer_bytes = push_bit 20 8, so_nonblocking = True, so_reuse_addr = True \<rparr>"

record recv_config =
  cf_mode :: recv_mode
  cf_heartbeat_ns :: u64
  cf_stale_ns :: u64
  cf_burst :: u32
  cf_socket :: socket_options

definition recv_config_default :: recv_config where
  "recv_config_default =
     \<lparr> cf_mode = Spin, cf_heartbeat_ns = 100000000, cf_stale_ns = 500000000, cf_burst = 64,
       cf_socket = socket_options_default \<rparr>"

definition poll_timeout_ms :: "recv_config \<Rightarrow> i32" where
  "poll_timeout_ms c =
     (if cf_heartbeat_ns c = 0 then 100
      else
        let ms = cf_heartbeat_ns c div 1000000
        in if ms < 1 then 1 else if ms > 1000 then 1000 else ucast ms)"

subsection \<open>The receive loop (receiver.rs)\<close>

record 's receiver =
  rc_cfg :: recv_config
  rc_channels :: "socket_stats list"
  rc_pipeline :: "'s pipeline"
  rc_next_heartbeat_ns :: u64

text \<open>Joining every endpoint, none of them on a port already taken.\<close>

fun join_all ::
    "'k os \<Rightarrow> trcode_filter \<Rightarrow> endpoint list \<Rightarrow> endpoint list \<Rightarrow> socket_stats list \<Rightarrow> 'k \<Rightarrow>
     (net_error + socket_stats list) \<times> 'k" where
  "join_all os f before [] channels k = (Inr channels, k)"
| "join_all os f before (e # es) channels k =
     (if list_ex (\<lambda>d. ep_port d = ep_port e) before
      then (Inl \<lparr> ne_call = ''duplicate port'', ne_endpoint = e, ne_code = 0 \<rparr>, k)
      else
        case feed_socket_join os e k of
          (Inl x, k) \<Rightarrow> (Inl x, k)
        | (Inr _, k) \<Rightarrow> join_all os f (before @ [e]) es (channels @ [socket_stats_new e f]) k)"

definition receiver_new ::
    "'k os \<Rightarrow> recv_config \<Rightarrow> endpoint list \<Rightarrow> trcode_filter \<Rightarrow> isin_filter \<Rightarrow> 's \<Rightarrow> 'k \<Rightarrow>
     (net_error + 's receiver) \<times> 'k" where
  "receiver_new os cfg endpoints trcodes isins sink k =
     (case join_all os trcodes [] endpoints [] k of
        (Inl x, k) \<Rightarrow> (Inl x, k)
      | (Inr channels, k) \<Rightarrow>
          (Inr \<lparr> rc_cfg = cfg, rc_channels = channels,
                 rc_pipeline = pipeline_new trcodes isins (cf_stale_ns cfg) sink,
                 rc_next_heartbeat_ns = 0 \<rparr>, k))"

definition on_channel :: "nat \<Rightarrow> (socket_stats \<Rightarrow> socket_stats) \<Rightarrow> 's receiver \<Rightarrow> 's receiver" where
  "on_channel i f r = r\<lparr> rc_channels := (rc_channels r)[i := f (rc_channels r ! i)] \<rparr>"

definition channel_ingested :: "u64 \<Rightarrow> outcome \<Rightarrow> socket_stats \<Rightarrow> socket_stats" where
  "channel_ingested recv_ns res s =
     (let s = s\<lparr> ss_received := ss_received s + 1, ss_last_recv_ns := recv_ns \<rparr>
      in case res of
           Published i \<Rightarrow> mark_seen i (s\<lparr> ss_published := ss_published s + 1 \<rparr>)
         | _ \<Rightarrow> s)"

text \<open>The loop of \<open>drain\<close>; the first argument is what is left of the burst.\<close>

fun drain_loop ::
    "'k os \<Rightarrow> 's krx_publish \<Rightarrow> (u64 \<Rightarrow> 's \<Rightarrow> 's) \<Rightarrow> nat \<Rightarrow> nat \<Rightarrow> u64 option \<Rightarrow> 's receiver \<Rightarrow> 'k \<Rightarrow>
     (net_error, u64 option) res \<times> 's receiver \<times> 'k" where
  "drain_loop os publish note_drops 0 index latest r k = (Inr latest, r, k)"
| "drain_loop os publish note_drops (Suc n) index latest r k =
     (case os_recv os index k of
        (Inr None, k) \<Rightarrow> (Inr latest, r, k)
      | (Inl e, k) \<Rightarrow>
          if is_transient os e
          then drain_loop os publish note_drops n index latest
                 ((on_channel index (ss_errors_update (\<lambda>n. n + 1)) r)
                    \<lparr> rc_pipeline := note_socket_error (rc_pipeline r) \<rparr>) k
          else (Inl (Err e), r, k)
      | (Inr (Some payload), k) \<Rightarrow>
          (case os_now os k of
             (recv_ns, k) \<Rightarrow>
               (case ingest publish note_drops payload recv_ns (rc_pipeline r) of
                  Inl _ \<Rightarrow> (Inl Panic, r, k)
                | Inr (res, p) \<Rightarrow>
                    drain_loop os publish note_drops n index (Some recv_ns)
                      (on_channel index (channel_ingested recv_ns res) (r\<lparr> rc_pipeline := p \<rparr>)) k)))"

definition drain ::
    "'k os \<Rightarrow> 's krx_publish \<Rightarrow> (u64 \<Rightarrow> 's \<Rightarrow> 's) \<Rightarrow> nat \<Rightarrow> 's receiver \<Rightarrow> 'k \<Rightarrow>
     (net_error, u64 option) res \<times> 's receiver \<times> 'k" where
  "drain os publish note_drops index r k =
     (if index < length (rc_channels r)
      then drain_loop os publish note_drops (unat (cf_burst (rc_cfg r))) index None r k
      else (Inl Panic, r, k))"

definition beat :: "'s krx_publish \<Rightarrow> u64 \<Rightarrow> 's receiver \<Rightarrow> 's receiver" where
  "beat publish now r =
     (if cf_heartbeat_ns (rc_cfg r) = 0 \<or> now < rc_next_heartbeat_ns r then r
      else r\<lparr> rc_pipeline := heartbeat publish now (rc_pipeline r),
              rc_next_heartbeat_ns := saturating_add now (cf_heartbeat_ns (rc_cfg r)) \<rparr>)"

text \<open>\<open>latest = self.drain(i)?.or(latest)\<close> for the sockets the mode visits.\<close>

fun visit ::
    "'k os \<Rightarrow> 's krx_publish \<Rightarrow> (u64 \<Rightarrow> 's \<Rightarrow> 's) \<Rightarrow> (nat \<Rightarrow> 'k \<Rightarrow> bool) \<Rightarrow> nat list \<Rightarrow> u64 option \<Rightarrow>
     's receiver \<Rightarrow> 'k \<Rightarrow> (net_error, u64 option) res \<times> 's receiver \<times> 'k" where
  "visit os publish note_drops wanted [] latest r k = (Inr latest, r, k)"
| "visit os publish note_drops wanted (i # is) latest r k =
     (if wanted i k then
        (case drain os publish note_drops i r k of
           (Inl e, r, k) \<Rightarrow> (Inl e, r, k)
         | (Inr seen, r, k) \<Rightarrow>
             visit os publish note_drops wanted is (case seen of Some t \<Rightarrow> Some t | None \<Rightarrow> latest) r k)
      else visit os publish note_drops wanted is latest r k)"

definition poll_sockets ::
    "'k os \<Rightarrow> 's krx_publish \<Rightarrow> (u64 \<Rightarrow> 's \<Rightarrow> 's) \<Rightarrow> 's receiver \<Rightarrow> 'k \<Rightarrow>
     (net_error, u64 option) res \<times> 's receiver \<times> 'k" where
  "poll_sockets os publish note_drops r k =
     (let all = [0..<length (rc_channels r)]
      in case cf_mode (rc_cfg r) of
           Spin \<Rightarrow> visit os publish note_drops (\<lambda>_ _. True) all None r k
         | Block \<Rightarrow>
             (case os_wait os (poll_timeout_ms (rc_cfg r)) k of
                (Inl e, k) \<Rightarrow> (Inl (Err e), r, k)
              | (Inr ready, k) \<Rightarrow>
                  if ready > 0 then visit os publish note_drops (os_is_ready os) all None r k
                  else (Inr None, r, k)))"

definition poll_once ::
    "'k os \<Rightarrow> 's krx_publish \<Rightarrow> (u64 \<Rightarrow> 's \<Rightarrow> 's) \<Rightarrow> 's receiver \<Rightarrow> 'k \<Rightarrow>
     (net_error, unit) res \<times> 's receiver \<times> 'k" where
  "poll_once os publish note_drops r k =
     (case poll_sockets os publish note_drops r k of
        (Inl e, r, k) \<Rightarrow> (Inl e, r, k)
      | (Inr (Some now), r, k) \<Rightarrow> (Inr (), beat publish now r, k)
      | (Inr None, r, k) \<Rightarrow> (case os_now os k of (now, k) \<Rightarrow> (Inr (), beat publish now r, k)))"

text \<open>The loop ends when \<open>stop\<close> says so or a round fails, which may be never.\<close>

partial_function (option) run_until ::
    "'k os \<Rightarrow> 's krx_publish \<Rightarrow> (u64 \<Rightarrow> 's \<Rightarrow> 's) \<Rightarrow> ('k \<Rightarrow> bool) \<Rightarrow> 's receiver \<Rightarrow> 'k \<Rightarrow>
     ((net_error, unit) res \<times> 's receiver \<times> 'k) option" where
  "run_until os publish note_drops stop r k =
     (if stop k then Some (Inr (), r, k)
      else
        case poll_once os publish note_drops r k of
          (result, r, k) \<Rightarrow>
            (case result of
               Inl e \<Rightarrow> Some (Inl e, r, k)
             | Inr _ \<Rightarrow> run_until os publish note_drops stop r k))"


subsection \<open>The sockets' counters add up\<close>

definition receiver_inv ::
    "('s \<Rightarrow> wire_record list \<Rightarrow> bool) \<Rightarrow> ('s \<Rightarrow> u64) \<Rightarrow> u64 \<Rightarrow> wire_record list \<Rightarrow> 's receiver \<Rightarrow> bool" where
  "receiver_inv holds drops d0 log r \<longleftrightarrow>
     pipeline_inv holds drops d0 log (rc_pipeline r) \<and>
     sum_list (map ss_received (rc_channels r)) = ks_received (pl_stats (rc_pipeline r)) \<and>
     sum_list (map ss_published (rc_channels r)) = ks_published (pl_stats (rc_pipeline r)) \<and>
     sum_list (map ss_errors (rc_channels r)) = ks_socket_errors (pl_stats (rc_pipeline r))"

lemma sum_list_update_word:
  "i < length xs \<Longrightarrow> sum_list (map f (xs[i := x])) = sum_list (map f xs) + (f x - f (xs ! i) :: 'a::len word)"
  by (induction xs arbitrary: i) (auto split: nat.split simp: algebra_simps)

lemma mark_seen_counts [simp]:
  "ss_received (mark_seen i s) = ss_received s" "ss_published (mark_seen i s) = ss_published s"
  "ss_errors (mark_seen i s) = ss_errors s"
  by (simp_all add: mark_seen_def)

lemma channel_ingested_counts [simp]:
  "ss_received (channel_ingested t res s) = ss_received s + 1"
  "ss_published (channel_ingested t res s) = ss_published s + (if published res then 1 else 0)"
  "ss_errors (channel_ingested t res s) = ss_errors s"
  by (cases res; simp add: channel_ingested_def Let_def)+

lemma on_channel_fields [simp]:
  "rc_pipeline (on_channel i f r) = rc_pipeline r" "rc_cfg (on_channel i f r) = rc_cfg r"
  "length (rc_channels (on_channel i f r)) = length (rc_channels r)"
  "rc_channels (on_channel i f r) = (rc_channels r)[i := f (rc_channels r ! i)]"
  by (simp_all add: on_channel_def)

definition same_shape :: "'s receiver \<Rightarrow> 's receiver \<Rightarrow> bool" where
  "same_shape r q \<longleftrightarrow> length (rc_channels q) = length (rc_channels r) \<and> rc_cfg q = rc_cfg r"

text \<open>
  What a stretch of the loop keeps: it does not panic, the receiver keeps its invariant and its
  shape, and the log grew by at most \<open>n\<close> records.
\<close>

definition keeps ::
    "('s \<Rightarrow> wire_record list \<Rightarrow> bool) \<Rightarrow> ('s \<Rightarrow> u64) \<Rightarrow> u64 \<Rightarrow> wire_record list \<Rightarrow> nat \<Rightarrow> 's receiver \<Rightarrow>
     (net_error, 'a) res \<times> 's receiver \<times> 'k \<Rightarrow> bool" where
  "keeps holds drops d0 log n r = (\<lambda>(res, q, k). no_panic res \<and> same_shape r q \<and>
     (\<exists>log'. length log' \<le> n \<and> receiver_inv holds drops d0 (log @ log') q))"

lemma keeps_refl: "no_panic res \<Longrightarrow> receiver_inv holds drops d0 log r \<Longrightarrow> keeps holds drops d0 log n r (res, r, k)"
  by (auto simp: keeps_def same_shape_def intro: exI [of _ "[]"])

lemma keeps_trans:
  assumes "same_shape r q" "length log' + m \<le> n" "keeps holds drops d0 (log @ log') m q x"
  shows "keeps holds drops d0 log n r x"
proof -
  obtain log'' where "length log'' \<le> m" "receiver_inv holds drops d0 (log @ log' @ log'') (fst (snd x))"
    using assms(3) by (auto simp: keeps_def)
  then show ?thesis
    using assms by (auto simp: keeps_def same_shape_def intro!: exI [of _ "log' @ log''"])
qed

lemma ingest_socket_errors:
  "ingest publish note_drops payload recv_ns p = Inr (res, p') \<Longrightarrow>
   ks_socket_errors (pl_stats p') = ks_socket_errors (pl_stats p)"
  by (auto simp: ingest_def publish_datagram_def Let_def and_then_Inr_iff
    split: sum.splits fault.splits option.splits prod.splits if_splits)

lemma heartbeat_socket_errors:
  "ks_socket_errors (pl_stats (heartbeat publish now p)) = ks_socket_errors (pl_stats p)"
  by (simp add: heartbeat_def split: prod.split)

context pipeline_sink
begin

lemma ingest_channel:
  assumes inv: "receiver_inv holds drops d0 log r" and room: "Suc (length log) < 2 ^ 64"
    and i: "i < length (rc_channels r)"
  shows "\<exists>res p. ingest publish note_drops payload recv_ns (rc_pipeline r) = Inr (res, p) \<and>
    (\<exists>log'. length log' \<le> 1 \<and> receiver_inv holds drops d0 (log @ log')
       (on_channel i (channel_ingested recv_ns res) (r\<lparr> rc_pipeline := p \<rparr>)))"
proof -
  have pinv: "pipeline_inv holds drops d0 log (rc_pipeline r)"
    using inv by (simp add: receiver_inv_def)
  let ?ref = "krx_reference (pl_trcodes (rc_pipeline r)) (pl_isins (rc_pipeline r)) (pl_stale_ns (rc_pipeline r))
    payload recv_ns"
  obtain res p where p: "ingest publish note_drops payload recv_ns (rc_pipeline r) = Inr (res, p)"
    "ks_received (pl_stats p) = ks_received (pl_stats (rc_pipeline r)) + 1"
    "case ?ref of
       Some q \<Rightarrow> published res \<and> ks_published (pl_stats p) = ks_published (pl_stats (rc_pipeline r)) + 1 \<and>
         pipeline_inv holds drops d0 (log @ [set_seq (of_nat (length log)) q]) p
     | None \<Rightarrow> \<not> published res \<and> ks_published (pl_stats p) = ks_published (pl_stats (rc_pipeline r)) \<and>
         pipeline_inv holds drops d0 log p"
    using ingest_step [OF pinv room, of payload recv_ns] by blast
  have errors: "ks_socket_errors (pl_stats p) = ks_socket_errors (pl_stats (rc_pipeline r))"
    by (rule ingest_socket_errors [OF p(1)])
  show ?thesis
    using p errors inv i
    by (cases ?ref) (auto simp: receiver_inv_def sum_list_update_word
      intro: exI [of _ "[]"] exI [of _ "[set_seq (of_nat (length log)) q]" for q])
qed

lemma drain_loop_keeps:
  assumes "receiver_inv holds drops d0 log r" "Suc (length log + n) < 2 ^ 64" "i < length (rc_channels r)"
  shows "keeps holds drops d0 log n r (drain_loop os publish note_drops n i latest r k)"
  using assms
proof (induction n arbitrary: log latest r k)
  case 0
  then show ?case
    by (simp add: keeps_refl)
next
  case (Suc n)
  obtain x k1 where recv: "os_recv os i k = (x, k1)"
    by fastforce
  consider (fatal) e where "x = Inl e" "\<not> is_transient os e" | (transient) e where "x = Inl e" "is_transient os e"
    | (empty) "x = Inr None" | (got) payload where "x = Inr (Some payload)"
    by (metis sum.exhaust option.exhaust)
  then show ?case
  proof cases
    case transient
    let ?r = "(on_channel i (ss_errors_update (\<lambda>n. n + 1)) r)\<lparr> rc_pipeline := note_socket_error (rc_pipeline r) \<rparr>"
    have "receiver_inv holds drops d0 log ?r" "same_shape r ?r"
      using Suc.prems by (simp_all add: receiver_inv_def same_shape_def sum_list_update_word note_socket_error_def
        pipeline_inv_def Let_def stats_dropped_def stats_filtered_def)
    then have "keeps holds drops d0 log (Suc n) r (drain_loop os publish note_drops n i latest ?r k1)"
      using Suc.IH [of log ?r latest k1] Suc.prems keeps_trans [of r ?r "[]" n "Suc n"] by simp
    then show ?thesis
      by (simp add: recv transient)
  next
    case (got payload)
    obtain recv_ns k2 where now: "os_now os k1 = (recv_ns, k2)"
      by fastforce
    have room: "Suc (length log) < 2 ^ 64"
      using Suc.prems(2) by simp
    obtain res p log' where p: "ingest publish note_drops payload recv_ns (rc_pipeline r) = Inr (res, p)"
      "length log' \<le> 1" "receiver_inv holds drops d0 (log @ log')
         (on_channel i (channel_ingested recv_ns res) (r\<lparr> rc_pipeline := p \<rparr>))"
      using ingest_channel [OF Suc.prems(1) room Suc.prems(3), of payload recv_ns] by blast
    let ?r = "on_channel i (channel_ingested recv_ns res) (r\<lparr> rc_pipeline := p \<rparr>)"
    have "same_shape r ?r" "i < length (rc_channels ?r)" "Suc (length (log @ log') + n) < 2 ^ 64"
      using Suc.prems p(2) by (simp_all add: same_shape_def)
    then have "keeps holds drops d0 log (Suc n) r
        (drain_loop os publish note_drops n i (Some recv_ns) ?r k2)"
      using Suc.IH [OF p(3)] p(2) by (auto intro: keeps_trans [of r ?r log' n])
    then show ?thesis
      by (simp add: recv got now p(1))
  qed (use Suc.prems recv in \<open>simp_all add: keeps_refl\<close>)
qed

lemma drain_keeps:
  assumes "receiver_inv holds drops d0 log r" "Suc (length log + unat (cf_burst (rc_cfg r))) < 2 ^ 64"
    "i < length (rc_channels r)"
  shows "keeps holds drops d0 log (unat (cf_burst (rc_cfg r))) r (drain os publish note_drops i r k)"
  using drain_loop_keeps [OF assms] assms(3) by (simp add: drain_def)

lemma visit_keeps:
  assumes "receiver_inv holds drops d0 log r" "b = unat (cf_burst (rc_cfg r))"
    "Suc (length log + length is * b) < 2 ^ 64" "\<forall>i \<in> set is. i < length (rc_channels r)"
  shows "keeps holds drops d0 log (length is * b) r (visit os publish note_drops wanted is latest r k)"
  using assms
proof (induction "is" arbitrary: log latest r k)
  case Nil
  then show ?case
    by (simp add: keeps_refl)
next
  case (Cons i "is")
  show ?case
  proof (cases "wanted i k")
    case False
    have "keeps holds drops d0 log (length is * b) r (visit os publish note_drops wanted is latest r k)"
      using Cons.IH [OF Cons.prems(1,2), of latest k] Cons.prems(3,4) by simp
    then have "keeps holds drops d0 log (length (i # is) * b) r (visit os publish note_drops wanted is latest r k)"
      using keeps_trans [of r r "[]" "length is * b" "length (i # is) * b"] by (simp add: same_shape_def)
    with False show ?thesis
      by simp
  next
    case True
    have "Suc (length log + unat (cf_burst (rc_cfg r))) < 2 ^ 64" "i < length (rc_channels r)"
      using Cons.prems by auto
    note step = drain_keeps [OF Cons.prems(1) this, of os k]
    obtain x q k1 where d: "drain os publish note_drops i r k = (x, q, k1)"
      by (cases "drain os publish note_drops i r k")
    obtain log' where q: "no_panic x" "same_shape r q" "length log' \<le> b" "receiver_inv holds drops d0 (log @ log') q"
      using step unfolding d keeps_def prod.case Cons.prems(2) by blast
    show ?thesis
    proof (cases x)
      case (Inl e)
      then show ?thesis
        using q d True by (auto simp: keeps_def intro!: exI [of _ log'])
    next
      case (Inr seen)
      have "keeps holds drops d0 (log @ log') (length is * b) q
          (visit os publish note_drops wanted is (case seen of Some t \<Rightarrow> Some t | None \<Rightarrow> latest) q k1)"
        using Cons.IH [OF q(4)] q(2,3) Cons.prems(2,3,4) by (auto simp: same_shape_def)
      then have "keeps holds drops d0 log (length (i # is) * b) r
          (visit os publish note_drops wanted is (case seen of Some t \<Rightarrow> Some t | None \<Rightarrow> latest) q k1)"
        using q(2,3) by (intro keeps_trans [of r q log' "length is * b"]) simp_all
      then show ?thesis
        using True by (simp add: d Inr)
    qed
  qed
qed

lemma beat_keeps:
  assumes "receiver_inv holds drops d0 log r" "Suc (length log) < 2 ^ 64"
  shows "same_shape r (beat publish now r) \<and>
    (\<exists>log'. length log' \<le> 1 \<and> receiver_inv holds drops d0 (log @ log') (beat publish now r))"
proof (cases "cf_heartbeat_ns (rc_cfg r) = 0 \<or> now < rc_next_heartbeat_ns r")
  case True
  then show ?thesis
    using assms(1) by (auto simp: beat_def same_shape_def intro: exI [of _ "[]"])
next
  case False
  have "pipeline_inv holds drops d0 log (rc_pipeline r)"
    using assms(1) by (simp add: receiver_inv_def)
  from heartbeat_step [OF this assms(2) refl, of now] False show ?thesis
    using assms(1) by (auto simp: beat_def same_shape_def receiver_inv_def heartbeat_socket_errors
      intro!: exI [of _ "[set_seq (of_nat (length log))
        (heartbeat_record (ks_received (pl_stats (rc_pipeline r))) (ks_published (pl_stats (rc_pipeline r))) now)]"])
qed

lemma poll_once_keeps:
  fixes os :: "'k os"
  assumes "receiver_inv holds drops d0 log r"
    and "Suc (Suc (length log + length (rc_channels r) * unat (cf_burst (rc_cfg r)))) < 2 ^ 64"
  shows "keeps holds drops d0 log (length (rc_channels r) * unat (cf_burst (rc_cfg r)) + 1) r
    (poll_once os publish note_drops r k)"
proof -
  let ?n = "length (rc_channels r) * unat (cf_burst (rc_cfg r))"
  have "keeps holds drops d0 log ?n r (poll_sockets os publish note_drops r k)"
    using visit_keeps [OF assms(1) refl, of "[0..<length (rc_channels r)]"] assms
    by (auto simp: poll_sockets_def Let_def keeps_refl split: recv_mode.split prod.split sum.split)
  moreover obtain x q k1 where poll: "poll_sockets os publish note_drops r k = (x, q, k1)"
    by (cases "poll_sockets os publish note_drops r k")
  ultimately have "keeps holds drops d0 log ?n r (x, q, k1)"
    by simp
  then obtain log' where q: "no_panic x" "same_shape r q" "length log' \<le> ?n"
      "receiver_inv holds drops d0 (log @ log') q"
    unfolding keeps_def prod.case by blast
  have "keeps holds drops d0 log (?n + 1) r (Inr (), beat publish now q, k')" for now and k' :: 'k
    using beat_keeps [OF q(4), of now] assms(2) q(2,3)
    by (intro keeps_trans [of r q log' 1]) (auto simp: keeps_def)
  note tick = this
  show ?thesis
  proof (cases x)
    case (Inl e)
    then have "keeps holds drops d0 log (?n + 1) r (Inl e, q, k1)"
      using q by (auto simp: keeps_def no_panic_def intro!: exI [of _ log'])
    with Inl show ?thesis
      by (simp add: poll_once_def poll)
  next
    case (Inr latest)
    then show ?thesis
      using tick by (cases latest) (simp_all add: poll_once_def poll split: prod.split)
  qed
qed

end

subsection \<open>The loop on the ring\<close>

text \<open>
  C11. A round of the receive loop, whatever the sockets, the readiness wait and the clock do: it does
  not panic, it publishes at most one record per datagram of a burst and one heartbeat, the counters
  of the sockets keep adding up to those of the pipeline, every datagram stays accounted for, and
  every record in the ring validates. A fatal socket error keeps all of it.
\<close>

theorem poll_once_accounts:
  assumes "receiver_inv ring_holds ring_sink_drops d0 log r"
    and "Suc (Suc (length log + length (rc_channels r) * unat (cf_burst (rc_cfg r)))) < 2 ^ 64"
  shows "case poll_once os ring_sink_publish ring_sink_note_drops r k of (res, r', k') \<Rightarrow>
    res \<noteq> Inl Panic \<and>
    (\<exists>log'. length log' \<le> length (rc_channels r) * unat (cf_burst (rc_cfg r)) + 1 \<and>
      receiver_inv ring_holds ring_sink_drops d0 (log @ log') r')"
  using krx_ring.poll_once_keeps [OF assms, of os k] by (auto simp: keeps_def no_panic_def)

text \<open>An operating system whose one socket has a datagram of one byte and then nothing.\<close>

definition demo_os :: "nat os" where
  "demo_os =
     \<lparr> os_join = (\<lambda>_ k. (Inr (), k)),
       os_recv = (\<lambda>_ k. if k = 0 then (Inr (Some [0x42]), 1) else (Inr None, k)),
       os_wait = (\<lambda>_ k. (Inr 1, k)), os_is_ready = (\<lambda>_ _. True), os_now = (\<lambda>k. (7, k)),
       os_is_transient = (\<lambda>_. False) \<rparr>"

definition demo_receiver :: "ring_sink receiver" where
  "demo_receiver =
     \<lparr> rc_cfg = recv_config_default,
       rc_channels = [socket_stats_new (endpoint_new [239, 255, 77, 88] 30882) trcode_filter_none],
       rc_pipeline = demo_pipeline [], rc_next_heartbeat_ns = 0 \<rparr>"

lemma demo_receiver_inv: "receiver_inv ring_holds ring_sink_drops (ring_sink_drops demo_sink) [] demo_receiver"
  using demo_pipeline_inv [of "[]"]
  by (simp add: receiver_inv_def demo_receiver_def socket_stats_new_def)
    (simp add: demo_pipeline_def pipeline_new_def stats_default_def)

theorem poll_once_accounts_witness:
  "\<exists>r' k' log'. poll_once demo_os ring_sink_publish ring_sink_note_drops demo_receiver 0 = (Inr (), r', k') \<and>
     length log' \<le> 65 \<and> receiver_inv ring_holds ring_sink_drops (ring_sink_drops demo_sink) log' r'"
proof -
  have shape: "rc_channels demo_receiver = [socket_stats_new (endpoint_new [239, 255, 77, 88] 30882) trcode_filter_none]"
    "rc_cfg demo_receiver = recv_config_default" "cf_burst recv_config_default = 64"
    by (simp_all add: demo_receiver_def recv_config_default_def)
  obtain res r' k' where poll:
    "poll_once demo_os ring_sink_publish ring_sink_note_drops demo_receiver 0 = (res, r', k')"
    by (cases "poll_once demo_os ring_sink_publish ring_sink_note_drops demo_receiver 0")
  have "\<exists>q. drain_loop demo_os ring_sink_publish ring_sink_note_drops (Suc (Suc n)) 0 None demo_receiver 0 = (Inr (Some 7), q, 1)"
    for n
    by (simp add: demo_os_def ingest_def trcode_from_message_def krx_consts Let_def)
  from this [of 62] have "res = Inr ()"
    using poll by (auto simp: poll_once_def poll_sockets_def drain_def shape recv_config_default_def Let_def)
  then show ?thesis
    using poll_once_accounts [OF demo_receiver_inv, of demo_os 0] poll shape by auto
qed

lemma join_all_joins:
  "join_all os f before es channels k = (Inr cs, k') \<Longrightarrow> distinct (map ep_port before) \<Longrightarrow>
   map ss_endpoint cs = map ss_endpoint channels @ es \<and> distinct (map ep_port (before @ es)) \<and>
   (\<forall>e \<in> set es. group_is_multicast e)"
proof (induction es arbitrary: before channels k)
  case (Cons e es)
  obtain j k1 where join: "feed_socket_join os e k = (j, k1)"
    by fastforce
  have new: "ep_port e \<notin> ep_port ` set before"
    using Cons.prems(1) by (force simp: list_ex_iff split: if_splits)
  obtain u where j: "j = Inr u"
    using Cons.prems(1) join by (cases j) (auto split: if_splits)
  have "group_is_multicast e"
    using join j by (auto simp: feed_socket_join_def split: if_splits)
  moreover have "join_all os f (before @ [e]) es (channels @ [socket_stats_new e f]) k1 = (Inr cs, k')"
    using Cons.prems(1) join j by (auto split: if_splits)
  ultimately show ?case
    using Cons.IH [of "before @ [e]" "channels @ [socket_stats_new e f]" k1] new Cons.prems(2)
    by (simp add: socket_stats_new_def)
qed simp

text \<open>
  A receiver that starts has joined every endpoint it was given, in order, each of them a multicast
  group and no two of them on one port; and its first round owes a heartbeat.
\<close>

theorem receiver_new_joins:
  assumes "receiver_new os cfg endpoints trcodes isins sink k = (Inr r, k')"
  shows "map ss_endpoint (rc_channels r) = endpoints \<and> distinct (map ep_port endpoints) \<and>
    (\<forall>e \<in> set endpoints. group_is_multicast e) \<and> rc_next_heartbeat_ns r = 0"
  using assms join_all_joins [of os trcodes "[]" endpoints "[]" k]
  by (auto simp: receiver_new_def split: prod.splits sum.splits)

theorem receiver_new_joins_witness:
  "\<exists>r. receiver_new demo_os recv_config_default [endpoint_new [239, 255, 77, 88] 30882]
      trcode_filter_none isin_filter_all demo_sink 0 = (Inr r, 0) \<and>
    map ss_endpoint (rc_channels r) = [endpoint_new [239, 255, 77, 88] 30882]"
proof -
  obtain r where "receiver_new demo_os recv_config_default [endpoint_new [239, 255, 77, 88] 30882]
      trcode_filter_none isin_filter_all demo_sink 0 = (Inr r, 0)"
    by (simp add: receiver_new_def feed_socket_join_def group_is_multicast_def endpoint_new_def demo_os_def)
  then show ?thesis
    using receiver_new_joins [of demo_os recv_config_default "[endpoint_new [239, 255, 77, 88] 30882]"
      trcode_filter_none isin_filter_all demo_sink 0] by blast
qed

text \<open>
  The wait of a blocking feed is between a millisecond and a second, and it never outlasts a
  heartbeat interval of at least a millisecond, so a quiet socket still wakes for its heartbeat.
\<close>

theorem poll_timeout_bounds:
  "1 \<le> sint (poll_timeout_ms c) \<and> sint (poll_timeout_ms c) \<le> 1000 \<and>
   (1000000 \<le> unat (cf_heartbeat_ns c) \<longrightarrow> nat (sint (poll_timeout_ms c)) * 1000000 \<le> unat (cf_heartbeat_ns c))"
proof -
  let ?ms = "cf_heartbeat_ns c div 1000000"
  have ms: "unat ?ms = unat (cf_heartbeat_ns c) div 1000000"
    by (simp add: unat_div)
  have small: "sint (ucast w :: i32) = int (unat w)" if "unat w \<le> 1000" for w :: u64
  proof -
    have "sint (ucast w :: i32) = signed_take_bit 31 (int (unat w))"
      by (simp add: sint_uint unsigned_ucast_eq signed_take_bit_take_bit flip: uint_nat)
    moreover have "0 \<le> uint w" "uint w \<le> 1000"
      using int_bounds(2) [OF that] by simp_all
    then have "signed_take_bit 31 (uint w) = uint w"
      by (intro signed_take_bit_int_eq_self order_trans [of "- (2 ^ 31)" 0 "uint w"]) simp_all
    ultimately show ?thesis
      by simp
  qed
  show ?thesis
    using small [of ?ms] ms by (auto simp: poll_timeout_ms_def Let_def word_less_nat_alt not_less)
qed

end
