(* ===== verification/Fix_Receiver.thy ===== *)
theory Fix_Receiver
  imports Fix_Pipeline Fix_Emit Fix_Link Krx_Receiver
begin

text \<open>
  \<open>crates/jeed-fix/src/recv/receiver.rs\<close>: the loop that connects, logs on, reads, answers and reconnects,
  over the operating system's operations on its state \<open>'k\<close> of the theory of the link. The venue adapter and
  the sink are the pipeline's.
\<close>

subsection \<open>Configuration (receiver.rs)\<close>

datatype fix_mode = FixSpin | FixBlock

datatype link_state = Disconnected | LoggingOn | LoggedOn

definition link_connected :: "link_state \<Rightarrow> bool" where
  "link_connected s \<longleftrightarrow> s \<noteq> Disconnected"

record fix_recv_config =
  fc_mode :: fix_mode
  fc_heartbeat_secs :: u32
  fc_reset_seq_on_logon :: bool
  fc_record_heartbeat_ns :: u64
  fc_stale_ns :: u64
  fc_burst :: u32
  fc_reconnect_ns :: u64
  fc_logon_timeout_ns :: u64
  fc_link :: link_options

definition fix_recv_config_default :: fix_recv_config where
  "fix_recv_config_default =
     \<lparr> fc_mode = FixBlock, fc_heartbeat_secs = 30, fc_reset_seq_on_logon = True, fc_record_heartbeat_ns = 100000000,
       fc_stale_ns = 500000000, fc_burst = 64, fc_reconnect_ns = 5000000000, fc_logon_timeout_ns = 10000000000,
       fc_link = link_options_default \<rparr>"

definition fc_heartbeat_ns :: "fix_recv_config \<Rightarrow> u64" where
  "fc_heartbeat_ns c = ucast (fc_heartbeat_secs c) * 1000000000"

subsection \<open>The receiver\<close>

record ('a, 's) fix_receiver =
  fx_cfg :: fix_recv_config
  fx_endpoint :: fix_endpoint
  fx_emitter :: emitter
  fx_pipeline :: "('a, 's) fix_pipeline"
  fx_link :: "link option"
  fx_state :: link_state
  fx_next_connect_ns :: u64
  fx_next_record_heartbeat_ns :: u64
  fx_logon_sent_ns :: u64
  fx_tested :: bool
  fx_out :: bytes

definition fix_receiver_new ::
    "fix_recv_config \<Rightarrow> fix_endpoint \<Rightarrow> emitter \<Rightarrow> symbol_filter \<Rightarrow> 'a \<Rightarrow> 's \<Rightarrow> ('a, 's) fix_receiver" where
  "fix_receiver_new cfg e em symbols adapter sink =
     \<lparr> fx_cfg = cfg, fx_endpoint = e, fx_emitter = em, fx_pipeline = fix_pipeline_new symbols (fc_stale_ns cfg) adapter sink,
       fx_link = None, fx_state = Disconnected, fx_next_connect_ns = 0, fx_next_record_heartbeat_ns = 0,
       fx_logon_sent_ns = 0, fx_tested = False, fx_out = replicate MAX_EMIT_LEN 0 \<rparr>"

definition on_pipeline :: "(('a, 's) fix_pipeline \<Rightarrow> ('a, 's) fix_pipeline) \<Rightarrow> ('a, 's) fix_receiver \<Rightarrow> ('a, 's) fix_receiver" where
  "on_pipeline f r = r\<lparr> fx_pipeline := f (fx_pipeline r) \<rparr>"

text \<open>A builder of the emitter, into the receiver's own buffer.\<close>

definition fx_emit :: "(bytes \<Rightarrow> emitter \<Rightarrow> emitted) \<Rightarrow> ('a, 's) fix_receiver \<Rightarrow> (emit_error + nat) \<times> ('a, 's) fix_receiver" where
  "fx_emit build r =
     (case build (fx_out r) (fx_emitter r) of (res, out, em) \<Rightarrow> (res, r\<lparr> fx_out := out, fx_emitter := em \<rparr>))"

text \<open>Dropping the stream closes it.\<close>

definition drop_link :: "'k tcp \<Rightarrow> ('a, 's) fix_receiver \<Rightarrow> 'k \<Rightarrow> ('a, 's) fix_receiver \<times> 'k" where
  "drop_link os r k =
     (r\<lparr> fx_link := None, fx_state := Disconnected, fx_tested := False \<rparr>,
      case fx_link r of None \<Rightarrow> k | Some l \<Rightarrow> tcp_close os (lk_stream l) k)"

definition fix_fail :: "'k tcp \<Rightarrow> ('a, 's) fix_receiver \<Rightarrow> 'k \<Rightarrow> ('a, 's) fix_receiver \<times> 'k" where
  "fix_fail os r k = drop_link os (on_pipeline note_disconnect r) k"

definition fix_write :: "'k tcp \<Rightarrow> reply \<Rightarrow> u64 \<Rightarrow> ('a, 's) fix_receiver \<Rightarrow> 'k \<Rightarrow> (link_error + unit) \<times> ('a, 's) fix_receiver \<times> 'k" where
  "fix_write os reply now r k =
     (case fx_emit (case reply of
               ReplyHeartbeat i \<Rightarrow>
                 (let i = fix_text_bytes i in emit_heartbeat (if i = [] then None else Some i) now)
             | ReplyResendRequest first until \<Rightarrow> emit_resend_request first until now
             | ReplySequenceReset new_seq \<Rightarrow>
                 emit_sequence_reset (if new_seq = 0 then em_next_seq (fx_emitter r) + 1 else new_seq) True now
             | ReplyLogout t \<Rightarrow> emit_logout (Some t) now) r of
        (Inl _, r) \<Rightarrow> (Inr (), r, k)
      | (Inr n, r) \<Rightarrow>
          let r = on_pipeline (note_sent reply) r
          in case fx_link r of
               Some l \<Rightarrow> (case link_send os (take n (fx_out r)) l k of (res, k) \<Rightarrow> (res, r, k))
             | None \<Rightarrow> (Inr (), r, k))"

definition fix_shutdown :: "'k tcp \<Rightarrow> bytes \<Rightarrow> ('a, 's) fix_receiver \<Rightarrow> 'k \<Rightarrow> ('a, 's) fix_receiver \<times> 'k" where
  "fix_shutdown os reason r k =
     (if fx_link r \<noteq> None
      then case tcp_now os k of (now, k) \<Rightarrow>
           case fix_write os (ReplyLogout reason) now r k of (_, r, k) \<Rightarrow> drop_link os r k
      else drop_link os r k)"

text \<open>The logon of a new connection, shared by \<open>try\_connect\<close> and \<open>attach\<close>.\<close>

definition fix_start_session :: "('a, 's) fix_receiver \<Rightarrow> ('a, 's) fix_receiver" where
  "fix_start_session r =
     on_pipeline reset_session (r\<lparr> fx_emitter := emitter_reset (fx_emitter r) \<rparr>)"

definition fix_logged_out :: "u64 \<Rightarrow> link \<Rightarrow> ('a, 's) fix_receiver \<Rightarrow> ('a, 's) fix_receiver" where
  "fix_logged_out now l r =
     r\<lparr> fx_link := Some l, fx_state := LoggingOn, fx_logon_sent_ns := now, fx_tested := False \<rparr>"

definition send_logon :: "u64 \<Rightarrow> ('a, 's) fix_receiver \<Rightarrow> (emit_error + nat) \<times> ('a, 's) fix_receiver" where
  "send_logon now r =
     fx_emit (emit_logon (fc_heartbeat_secs (fx_cfg r)) (fc_reset_seq_on_logon (fx_cfg r)) now) r"

text \<open>A link that was connected and is given up is dropped, which closes its stream.\<close>

definition close_link :: "'k tcp \<Rightarrow> link \<Rightarrow> 'k \<Rightarrow> 'k" where
  "close_link os l = tcp_close os (lk_stream l)"

definition link_mode :: "'k tcp \<Rightarrow> ('a, 's) fix_receiver \<Rightarrow> link \<Rightarrow> 'k \<Rightarrow> (link_error + unit) \<times> 'k" where
  "link_mode os r l = link_set_mode os (fc_mode (fx_cfg r) = FixSpin) (lo_read_timeout (fc_link (fx_cfg r))) l"

definition try_connect :: "'k tcp \<Rightarrow> u64 \<Rightarrow> ('a, 's) fix_receiver \<Rightarrow> 'k \<Rightarrow> link_error option \<times> ('a, 's) fix_receiver \<times> 'k" where
  "try_connect os now r k =
     (if now < fx_next_connect_ns r then (None, r, k)
      else
        let r = r\<lparr> fx_next_connect_ns := saturating_add now (fc_reconnect_ns (fx_cfg r)) \<rparr>
        in case link_connect os (fx_endpoint r) (fc_link (fx_cfg r)) k of
             (Inl e, k) \<Rightarrow> (Some e, on_pipeline note_connect_failure r, k)
           | (Inr l, k) \<Rightarrow>
               case link_mode os r l k of
                 (Inl e, k) \<Rightarrow> (Some e, on_pipeline note_connect_failure r, close_link os l k)
               | (Inr _, k) \<Rightarrow>
                   case send_logon now (fix_start_session r) of
                     (Inl _, r) \<Rightarrow>
                       (Some \<lparr> le_call = ''logon'', le_source = None \<rparr>, on_pipeline note_connect_failure r, close_link os l k)
                   | (Inr n, r) \<Rightarrow>
                       case link_send os (take n (fx_out r)) l k of
                         (Inl e, k) \<Rightarrow> (Some e, on_pipeline note_connect_failure r, close_link os l k)
                       | (Inr _, k) \<Rightarrow> (None, fix_logged_out now l r, k))"

text \<open>\<open>attach\<close> may replace a link, which is dropped with its stream.\<close>

definition fix_attach :: "'k tcp \<Rightarrow> link \<Rightarrow> u64 \<Rightarrow> ('a, 's) fix_receiver \<Rightarrow> 'k \<Rightarrow> (link_error + unit) \<times> ('a, 's) fix_receiver \<times> 'k" where
  "fix_attach os l now r k =
     (case link_mode os r l k of
        (Inl e, k) \<Rightarrow> (Inl e, r, close_link os l k)
      | (Inr _, k) \<Rightarrow>
          case send_logon now (fix_start_session r) of
            (Inl _, r) \<Rightarrow> (Inl \<lparr> le_call = ''logon'', le_source = None \<rparr>, r, close_link os l k)
          | (Inr n, r) \<Rightarrow>
              case link_send os (take n (fx_out r)) l k of
                (Inl e, k) \<Rightarrow> (Inl e, r, close_link os l k)
              | (Inr _, k) \<Rightarrow>
                  (Inr (), fix_logged_out now l r, case fx_link r of None \<Rightarrow> k | Some old \<Rightarrow> close_link os old k))"

definition fix_apply ::
    "'k tcp \<Rightarrow> 'e ingested \<Rightarrow> u64 \<Rightarrow> ('a, 's) fix_receiver \<Rightarrow> 'k \<Rightarrow> link_error option \<times> ('a, 's) fix_receiver \<times> 'k" where
  "fix_apply os ing now r k =
     (let r = (if in_outcome ing = FixAdmin Logon then
                 (let r = r\<lparr> fx_state := LoggedOn, fx_tested := False \<rparr>
                  in on_pipeline (\<lambda>p.
                       if se_heartbeat_interval_ns (fp_session p) = 0
                       then p\<lparr> fp_session := (fp_session p)\<lparr> se_heartbeat_interval_ns := fc_heartbeat_ns (fx_cfg r) \<rparr> \<rparr>
                       else p) r)
               else r)
      in case (case in_reply ing of Some reply \<Rightarrow> fix_write os reply now r k | None \<Rightarrow> (Inr (), r, k)) of
           (Inl e, r, k) \<Rightarrow> (case fix_fail os r k of (r, k) \<Rightarrow> (Some e, r, k))
         | (Inr _, r, k) \<Rightarrow>
             if in_disconnect ing
             then (case drop_link os (on_pipeline note_disconnect r) k of (r, k) \<Rightarrow> (None, r, k))
             else (None, r, k))"

definition JEED_ID :: bytes where
  "JEED_ID = str ''JEED''"

text \<open>\<open>link.send(..)\<close> of the two messages \<open>tick\<close> sends on its own; then \<open>nxt\<close>.\<close>

definition tick_send ::
    "'k tcp \<Rightarrow> (bytes \<Rightarrow> emitter \<Rightarrow> emitted) \<Rightarrow> (('a, 's) fix_pipeline \<Rightarrow> ('a, 's) fix_pipeline) \<Rightarrow>
     (('a, 's) fix_receiver \<Rightarrow> 'k \<Rightarrow> link_error option \<times> ('a, 's) fix_receiver \<times> 'k) \<Rightarrow>
     ('a, 's) fix_receiver \<Rightarrow> 'k \<Rightarrow> link_error option \<times> ('a, 's) fix_receiver \<times> 'k" where
  "tick_send os build note nxt r k =
     (case fx_emit build r of
        (Inl _, r) \<Rightarrow> (None, r, k)
      | (Inr n, r) \<Rightarrow>
          let r = on_pipeline note r
          in case fx_link r of
               None \<Rightarrow> nxt r k
             | Some l \<Rightarrow>
                 case link_send os (take n (fx_out r)) l k of
                   (Inl e, k) \<Rightarrow> (case fix_fail os r k of (r, k) \<Rightarrow> (Some e, r, k))
                 | (Inr _, k) \<Rightarrow> nxt r k)"

definition owed_heartbeat :: "'k tcp \<Rightarrow> u64 \<Rightarrow> ('a, 's) fix_receiver \<Rightarrow> 'k \<Rightarrow> link_error option \<times> ('a, 's) fix_receiver \<times> 'k" where
  "owed_heartbeat os now r k =
     (if emitter_owes_heartbeat now (fc_heartbeat_ns (fx_cfg r)) (fx_emitter r)
      then tick_send os (emit_heartbeat None now) note_heartbeat_sent (\<lambda>r k. (None, r, k)) r k
      else (None, r, k))"

definition fix_tick :: "'k tcp \<Rightarrow> u64 \<Rightarrow> ('a, 's) fix_receiver \<Rightarrow> 'k \<Rightarrow> link_error option \<times> ('a, 's) fix_receiver \<times> 'k" where
  "fix_tick os now r k =
     (if fx_state r = LoggingOn \<and> fc_logon_timeout_ns (fx_cfg r) \<noteq> 0 \<and>
         saturating_sub now (fx_logon_sent_ns r) > fc_logon_timeout_ns (fx_cfg r)
      then (case drop_link os (on_pipeline note_disconnect r) k of
              (r, k) \<Rightarrow> (Some \<lparr> le_call = ''logon timeout'', le_source = None \<rparr>, r, k))
      else if session_is_silent now 2 (fp_session (fx_pipeline r))
      then (case fix_shutdown os (str ''no response to TestRequest'') (on_pipeline note_disconnect r) k of
              (r, k) \<Rightarrow> (Some \<lparr> le_call = ''peer silent'', le_source = None \<rparr>, r, k))
      else if \<not> fx_tested r \<and> session_is_silent now 1 (fp_session (fx_pipeline r))
      then tick_send os (emit_test_request JEED_ID now) note_test_request (owed_heartbeat os now) (r\<lparr> fx_tested := True \<rparr>) k
      else owed_heartbeat os now r k)"

text \<open>The loop of \<open>pump\<close>; the first argument is what is left of the burst.\<close>

fun pump_loop ::
    "'k tcp \<Rightarrow> ('a, 'e, 's \<times> u64) md_adapter_ops \<Rightarrow> ('e, 's) fix_publish \<Rightarrow> (u64 \<Rightarrow> 's \<Rightarrow> 's) \<Rightarrow> nat \<Rightarrow> u64 \<Rightarrow>
     ('a, 's) fix_receiver \<Rightarrow> 'k \<Rightarrow> ('e, link_error option) res \<times> ('a, 's) fix_receiver \<times> 'k" where
  "pump_loop os ops publish note_drops 0 now r k = (case fix_tick os now r k of (e, r, k) \<Rightarrow> (Inr e, r, k))"
| "pump_loop os ops publish note_drops (Suc n) now r k =
     (case tcp_now os k of (recv_ns, k) \<Rightarrow>
        case fx_link r of
          None \<Rightarrow> (case fix_tick os now r k of (e, r, k) \<Rightarrow> (Inr e, r, k))
        | Some l \<Rightarrow>
            case link_peek l of
              Inl Panic \<Rightarrow> (Inl Panic, r, k)
            | Inl (Err _) \<Rightarrow>
                (case fix_fail os (on_pipeline note_framing_error r) k of
                   (r, k) \<Rightarrow> (Inr (Some \<lparr> le_call = ''framing'', le_source = None \<rparr>), r, k))
            | Inr None \<Rightarrow> (case fix_tick os now r k of (e, r, k) \<Rightarrow> (Inr e, r, k))
            | Inr (Some f) \<Rightarrow>
                (case fix_ingest ops publish note_drops f recv_ns (fx_pipeline r) of
                   Inl _ \<Rightarrow> (Inl Panic, r, k)
                 | Inr (ing, p) \<Rightarrow>
                     let r = r\<lparr> fx_pipeline := p, fx_link := Some (link_consume (frame_len f) l) \<rparr>
                     in case fix_apply os ing now r k of
                          (Some e, r, k) \<Rightarrow> (Inr (Some e), r, k)
                        | (None, r, k) \<Rightarrow>
                            if \<not> link_connected (fx_state r) then (Inr None, r, k)
                            else pump_loop os ops publish note_drops n now r k))"

definition pump ::
    "'k tcp \<Rightarrow> ('a, 'e, 's \<times> u64) md_adapter_ops \<Rightarrow> ('e, 's) fix_publish \<Rightarrow> (u64 \<Rightarrow> 's \<Rightarrow> 's) \<Rightarrow> u64 \<Rightarrow>
     ('a, 's) fix_receiver \<Rightarrow> 'k \<Rightarrow> ('e, link_error option) res \<times> ('a, 's) fix_receiver \<times> 'k" where
  "pump os ops publish note_drops now r k =
     (case fx_link r of
        None \<Rightarrow> (Inr None, r\<lparr> fx_state := Disconnected \<rparr>, k)
      | Some l \<Rightarrow>
          case link_fill os l k of
            (Inl e, l, k) \<Rightarrow> (case fix_fail os (r\<lparr> fx_link := Some l \<rparr>) k of (r, k) \<Rightarrow> (Inr (Some e), r, k))
          | (Inr n, l, k) \<Rightarrow>
              pump_loop os ops publish note_drops (unat (fc_burst (fx_cfg r))) now
                (on_pipeline (note_bytes (of_nat n)) (r\<lparr> fx_link := Some l \<rparr>)) k)"

definition beat_record ::
    "('a, 'e, 's \<times> u64) md_adapter_ops \<Rightarrow> ('e, 's) fix_publish \<Rightarrow> u64 \<Rightarrow> ('a, 's) fix_receiver \<Rightarrow> ('a, 's) fix_receiver" where
  "beat_record ops publish now r =
     (if fc_record_heartbeat_ns (fx_cfg r) = 0 \<or> now < fx_next_record_heartbeat_ns r then r
      else (on_pipeline (fix_heartbeat ops publish now) r)
             \<lparr> fx_next_record_heartbeat_ns := saturating_add now (fc_record_heartbeat_ns (fx_cfg r)) \<rparr>)"

definition fix_poll_once ::
    "'k tcp \<Rightarrow> ('a, 'e, 's \<times> u64) md_adapter_ops \<Rightarrow> ('e, 's) fix_publish \<Rightarrow> (u64 \<Rightarrow> 's \<Rightarrow> 's) \<Rightarrow>
     ('a, 's) fix_receiver \<Rightarrow> 'k \<Rightarrow> ('e, link_error option) res \<times> ('a, 's) fix_receiver \<times> 'k" where
  "fix_poll_once os ops publish note_drops r k =
     (case tcp_now os k of (now, k) \<Rightarrow>
        case (if fx_state r = Disconnected
              then (case try_connect os now r k of (e, r, k) \<Rightarrow> (Inr e, r, k))
              else pump os ops publish note_drops now r k) of
          (Inl x, r, k) \<Rightarrow> (Inl x, r, k)
        | (Inr failure, r, k) \<Rightarrow>
            case tcp_now os k of (now, k) \<Rightarrow> (Inr failure, beat_record ops publish now r, k))"

text \<open>The loop, which may run forever; the errors handed to \<open>on\_error\<close> are what it returns.\<close>

partial_function (option) fix_run_until ::
    "'k tcp \<Rightarrow> ('a, 'e, 's \<times> u64) md_adapter_ops \<Rightarrow> ('e, 's) fix_publish \<Rightarrow> (u64 \<Rightarrow> 's \<Rightarrow> 's) \<Rightarrow> ('k \<Rightarrow> bool) \<Rightarrow>
     link_error list \<Rightarrow> ('a, 's) fix_receiver \<Rightarrow> 'k \<Rightarrow> (('e, link_error list) res \<times> ('a, 's) fix_receiver \<times> 'k) option" where
  "fix_run_until os ops publish note_drops stop errors r k =
     (if stop k
      then (case fix_shutdown os (str ''handler stopping'') r k of (r, k) \<Rightarrow> Some (Inr errors, r, k))
      else
        case fix_poll_once os ops publish note_drops r k of
          (result, r, k) \<Rightarrow>
            (case result of
               Inl x \<Rightarrow> Some (Inl x, r, k)
             | Inr None \<Rightarrow> fix_run_until os ops publish note_drops stop errors r k
             | Inr (Some e) \<Rightarrow> fix_run_until os ops publish note_drops stop (errors @ [e]) r k))"

datatype send_error = SendDisconnected | SendTooLong emit_error | SendLink link_error

definition fix_subscribe ::
    "'k tcp \<Rightarrow> subscription_request \<Rightarrow> ('a, 's) fix_receiver \<Rightarrow> 'k \<Rightarrow> (send_error + unit) \<times> ('a, 's) fix_receiver \<times> 'k" where
  "fix_subscribe os req r k =
     (case tcp_now os k of (now, k) \<Rightarrow>
        case fx_emit (emit_market_data_request req now) r of
          (Inl e, r) \<Rightarrow> (Inl (SendTooLong e), r, k)
        | (Inr n, r) \<Rightarrow>
            case fx_link r of
              None \<Rightarrow> (Inl SendDisconnected, r, k)
            | Some l \<Rightarrow>
                case link_send os (take n (fx_out r)) l k of
                  (Inl e, k) \<Rightarrow> (Inl (SendLink e), r, k)
                | (Inr _, k) \<Rightarrow> (Inr (), r, k))"

subsection \<open>The feed thread (jeed/src/fix.rs)\<close>

text \<open>
  One turn of \<open>run\<close>: a round, and the subscription after every fresh logon, of which the thread remembers
  how many it has seen. Pinning, sleeping and reporting are left out.
\<close>

definition ENTRY_TYPES :: "md_entry_type list" where
  "ENTRY_TYPES = [MdBid, MdOffer, MdTrade]"

definition feed_request :: "bytes \<Rightarrow> subscription_type \<Rightarrow> u32 \<Rightarrow> bytes list \<Rightarrow> subscription_request" where
  "feed_request name subscription depth symbols =
     \<lparr> sr_req_id = name, sr_subscription = subscription, sr_depth = depth, sr_update_type = None,
       sr_entry_types = ENTRY_TYPES, sr_symbols = symbols \<rparr>"

definition fix_feed_turn ::
    "'k tcp \<Rightarrow> ('a, 'e, 's \<times> u64) md_adapter_ops \<Rightarrow> ('e, 's) fix_publish \<Rightarrow> (u64 \<Rightarrow> 's \<Rightarrow> 's) \<Rightarrow> subscription_request \<Rightarrow>
     u64 \<Rightarrow> ('a, 's) fix_receiver \<Rightarrow> 'k \<Rightarrow> ('e, u64) res \<times> ('a, 's) fix_receiver \<times> 'k" where
  "fix_feed_turn os ops publish note_drops req seen r k =
     (case fix_poll_once os ops publish note_drops r k of
        (Inl x, r, k) \<Rightarrow> (Inl x, r, k)
      | (Inr _, r, k) \<Rightarrow>
          let logons = st_logons (fp_stats (fx_pipeline r))
          in if seen < logons \<and> fx_state r = LoggedOn
             then (case fix_subscribe os req r k of (_, r, k) \<Rightarrow> (Inr logons, r, k))
             else (Inr seen, r, k))"

end
