(* ===== verification/Fix_Loop.thy ===== *)
theory Fix_Loop
  imports Fix_Receiver
begin

text \<open>
  What the FIX session loop promises: the invariant of the receiver and of its pipeline over any number of
  rounds, one count per lost connection, and what the counterparty is sent on a connection.
\<close>

subsection \<open>The messages of a session\<close>

text \<open>
  Message \<open>n\<close> of a session as it is written; it depends on who the emitter is, not on how far it has
  come.
\<close>

definition numbered_message :: "emitter \<Rightarrow> u64 \<Rightarrow> outbound \<times> u64 \<Rightarrow> bytes" where
  "numbered_message em n out =
     built_message (emitter_begin em) (outbound_body (fst out) (snd out) (em\<lparr> em_next_seq := n \<rparr>))"

definition emitter_id :: "emitter \<Rightarrow> bytes \<times> u8 \<times> fix_text \<times> fix_text" where
  "emitter_id em = (em_begin_string em, em_begin_len em, em_sender em, em_target em)"

text \<open>The first messages of a session, numbered from one.\<close>

definition numbered :: "emitter \<Rightarrow> (outbound \<times> u64) list \<Rightarrow> bytes list" where
  "numbered em outs = map (\<lambda>(n, out). numbered_message em (of_nat n) out) (enumerate 1 outs)"

fun is_logon :: "outbound \<times> u64 \<Rightarrow> bool" where
  "is_logon (OutLogon _ _, _) = True"
| "is_logon _ = False"

definition in_session :: "emitter \<Rightarrow> (outbound \<times> u64) list \<Rightarrow> bool" where
  "in_session em outs \<longleftrightarrow>
     outs \<noteq> [] \<and> is_logon (hd outs) \<and> em_next_seq em = of_nat (Suc (length outs)) \<and> list_all short_message (numbered em outs)"

text \<open>
  The writes of a session, each with its success: all of them succeeded, requests for market data apart.
\<close>

fun is_request :: "outbound \<times> u64 \<Rightarrow> bool" where
  "is_request (OutMarketDataRequest _, _) = True"
| "is_request _ = False"

definition only_requests_failed :: "(outbound \<times> u64) list \<Rightarrow> bool list \<Rightarrow> bool" where
  "only_requests_failed outs oks \<longleftrightarrow> list_all2 (\<lambda>out ok. ok \<or> is_request out) outs oks"

lemma only_requests_failed_snoc:
  "only_requests_failed outs oks \<Longrightarrow> ok \<or> is_request out \<Longrightarrow> only_requests_failed (outs @ [out]) (oks @ [ok])"
  by (simp add: only_requests_failed_def list_all2_appendI)

lemma length_numbered [simp]: "length (numbered em outs) = length outs"
  by (simp add: numbered_def)

lemma numbered_message_id: "emitter_id em = emitter_id em' \<Longrightarrow> numbered_message em = numbered_message em'"
  by (intro ext) (simp add: numbered_message_def emitter_id_def emitter_begin_def outbound_body_def header_fields_def)

lemma numbered_id: "emitter_id em = emitter_id em' \<Longrightarrow> numbered em = numbered em'"
  by (intro ext) (simp add: numbered_def numbered_message_id [of em em'])

lemma enumerate_snoc: "enumerate n (xs @ [x]) = enumerate n xs @ [(n + length xs, x)]"
  by (induction xs arbitrary: n) simp_all

lemma numbered_snoc: "numbered em (outs @ [out]) = numbered em outs @ [numbered_message em (of_nat (Suc (length outs))) out]"
  by (simp add: numbered_def enumerate_snoc)

text \<open>What one builder leaves in the buffer.\<close>

lemma emitter_id_simps [simp]:
  "emitter_id (em\<lparr> em_next_seq := n \<rparr>) = emitter_id em" "emitter_id (em\<lparr> em_last_sent_ns := t \<rparr>) = emitter_id em"
  "emitter_id (em\<lparr> em_body := b \<rparr>) = emitter_id em"
  by (simp_all add: emitter_id_def)

lemma emit_in_session:
  assumes "emitter_ok em" and "emit msg now out em = (r, out', em')"
  shows "length out' = length out \<and> emitter_ok em' \<and> emitter_id em' = emitter_id em \<and>
    (case r of
       Inl _ \<Rightarrow> em_next_seq em' = em_next_seq em
     | Inr n \<Rightarrow> em_next_seq em' = em_next_seq em + 1 \<and> take n out' = numbered_message em (em_next_seq em) (msg, now) \<and>
         short_message (take n out'))"
proof -
  note spec = emit_spec [OF assms]
  obtain b where b: "length b = MAX_EMIT_LEN"
      "em' = (case r of Inl _ \<Rightarrow> em\<lparr> em_body := b \<rparr>
         | Inr _ \<Rightarrow> em\<lparr> em_body := b, em_next_seq := em_next_seq em + 1, em_last_sent_ns := now \<rparr>)"
    using spec by (intro that [of "em_body em'"]) blast+
  have "emitter_ok em' \<and> emitter_id em' = emitter_id em"
    using b assms(1) by (cases r) (simp_all add: emitter_ok_def emitter_id_def emitter_begin_def)
  moreover have "numbered_message em (em_next_seq em) (msg, now) = built_message (emitter_begin em) (outbound_body msg now em)"
    by (simp add: numbered_message_def)
  moreover have "take n out' = built_message (emitter_begin em) (outbound_body msg now em) \<and> short_message (take n out')"
    if "r = Inr n" for n
    using emit_sent [OF assms(1) assms(2) [unfolded that]] by simp
  ultimately show ?thesis
    using spec b by (cases r) auto
qed

lemma in_session_first:
  "is_logon (msg, now) \<Longrightarrow> em_next_seq em' = 2 \<Longrightarrow> emitter_id em' = emitter_id em \<Longrightarrow>
   short_message (numbered_message em 1 (msg, now)) \<Longrightarrow> in_session em' [(msg, now)]"
  using numbered_snoc [of em' "[]" "(msg, now)"] numbered_message_id [of em' em]
  by (simp add: in_session_def numbered_def)

lemma in_session_next:
  assumes "in_session em outs" and "em_next_seq em' = em_next_seq em + 1" "emitter_id em' = emitter_id em"
    and "short_message (numbered_message em (em_next_seq em) out)"
  shows "in_session em' (outs @ [out])"
    "numbered em outs @ [numbered_message em (em_next_seq em) out] = numbered em' (outs @ [out])"
  using assms numbered_id [OF assms(3)] numbered_message_id [OF assms(3)]
  by (auto simp: in_session_def numbered_snoc add.commute)

lemma in_session_same:
  "in_session em outs \<Longrightarrow> em_next_seq em' = em_next_seq em \<Longrightarrow> emitter_id em' = emitter_id em \<Longrightarrow> in_session em' outs"
  using numbered_id [of em' em] by (simp add: in_session_def)

subsection \<open>Counters the pipeline leaves alone\<close>

definition lost_links :: "('a, 's) fix_receiver \<Rightarrow> u64" where
  "lost_links r = st_disconnects (fp_stats (fx_pipeline r)) + st_connect_failures (fp_stats (fx_pipeline r))"

definition link_counts :: "fix_stats \<Rightarrow> u64 \<times> u64" where
  "link_counts s = (st_disconnects s, st_connect_failures s)"

lemma note_verdict_links [simp]: "link_counts (note_verdict v s) = link_counts s"
  by (cases v) (simp_all add: note_verdict_def link_counts_def)

lemma link_counts_simps [simp]:
  "link_counts (st_received_update f s) = link_counts s" "link_counts (st_published_update f s) = link_counts s"
  "link_counts (st_stale_update f s) = link_counts s" "link_counts (st_market_data_update f s) = link_counts s"
  "link_counts (st_admin_update f s) = link_counts s" "link_counts (st_filtered_symbol_update f s) = link_counts s"
  "link_counts (st_unhandled_update f s) = link_counts s" "link_counts (st_decode_failed_update f s) = link_counts s"
  "link_counts (st_refused_update f s) = link_counts s" "link_counts (st_logons_update f s) = link_counts s"
  "link_counts (st_heartbeats_update f s) = link_counts s"
  by (simp_all add: link_counts_def)

lemma ingest_links:
  assumes "fix_ingest ops publish note_drops fr recv_ns p = Inr (ing, p')"
  shows "link_counts (fp_stats p') = link_counts (fp_stats p)"
proof -
  have adapt: "link_counts (fp_stats p') = link_counts (fp_stats p)"
    if "fix_adapt ops publish note_drops msg recv_ns v reply p = Inr (ing, p')" for msg v reply p p' ing
    using that by (auto simp: fix_adapt_def Let_def split: prod.splits sum.splits fault.splits)
  show ?thesis
  proof (cases "frame_msg_type fr")
    case (Inl e)
    then show ?thesis
      using assms by (auto simp: fix_ingest_def fix_failed_def)
  next
    case (Inr kind)
    consider (md) "is_market_data kind" | (admin) "\<not> is_market_data kind" "is_admin kind"
      | (other) "\<not> is_market_data kind" "\<not> is_admin kind"
      by blast
    then show ?thesis
    proof cases
      case md
      then show ?thesis
        using assms Inr
        by (auto simp: fix_ingest_def fix_market_data_def fix_failed_def Let_def split: sum.splits prod.splits seq_verdict.splits if_splits
            dest!: adapt)
    next
      case admin
      then show ?thesis
        using assms Inr
        by (auto simp: fix_ingest_def fix_admin_def fix_failed_def Let_def split: sum.splits prod.splits if_splits)
    next
      case other
      then show ?thesis
        using assms Inr by (auto simp: fix_ingest_def)
    qed
  qed
qed

subsection \<open>The loop over a feed and an operating system\<close>

lemma note_stats:
  "fix_inv holds drops d0 leaked log (tally f p) = fix_inv holds drops d0 leaked log p"
  if "\<And>s. st_received (f s) = st_received s" "\<And>s. st_market_data (f s) = st_market_data s" "\<And>s. st_admin (f s) = st_admin s"
    "\<And>s. st_unhandled (f s) = st_unhandled s" "\<And>s. st_decode_failed (f s) = st_decode_failed s"
    "\<And>s. st_published (f s) = st_published s" "\<And>s. st_heartbeats (f s) = st_heartbeats s" "\<And>s. st_refused (f s) = st_refused s"
    "\<And>s. st_stale (f s) = st_stale s"
  by (simp add: fix_inv_def fix_stats_dropped_def Let_def that)

lemma inv_notes [simp]:
  "fix_inv holds drops d0 leaked log (note_bytes n p) = fix_inv holds drops d0 leaked log p"
  "fix_inv holds drops d0 leaked log (note_framing_error p) = fix_inv holds drops d0 leaked log p"
  "fix_inv holds drops d0 leaked log (note_disconnect p) = fix_inv holds drops d0 leaked log p"
  "fix_inv holds drops d0 leaked log (note_connect_failure p) = fix_inv holds drops d0 leaked log p"
  "fix_inv holds drops d0 leaked log (note_sent reply p) = fix_inv holds drops d0 leaked log p"
  "fix_inv holds drops d0 leaked log (note_test_request p) = fix_inv holds drops d0 leaked log p"
  "fix_inv holds drops d0 leaked log (note_heartbeat_sent p) = fix_inv holds drops d0 leaked log p"
  "fix_inv holds drops d0 leaked log (p\<lparr> fp_session := se \<rparr>) = fix_inv holds drops d0 leaked log p"
  by (simp_all add: note_bytes_def note_framing_error_def note_disconnect_def note_connect_failure_def note_sent_def
      note_test_request_def note_heartbeat_sent_def note_stats split: reply.split)
    (simp add: fix_inv_def)

text \<open>What stays as it is between two states of a receiver, links and counters of links apart.\<close>

definition same_feed :: "('a, 's) fix_receiver \<Rightarrow> ('a, 's) fix_receiver \<Rightarrow> bool" where
  "same_feed r r' \<longleftrightarrow>
     fx_cfg r' = fx_cfg r \<and> fx_endpoint r' = fx_endpoint r \<and> emitter_id (fx_emitter r') = emitter_id (fx_emitter r)"

lemma same_feed_refl [simp]: "same_feed r r"
  by (simp add: same_feed_def)

lemma same_feed_trans: "same_feed r r' \<Longrightarrow> same_feed r' r'' \<Longrightarrow> same_feed r r''"
  by (simp add: same_feed_def)

text \<open>The receiver by itself.\<close>

definition receiver_ok :: "('a, 's) fix_receiver \<Rightarrow> bool" where
  "receiver_ok r \<longleftrightarrow>
     emitter_ok (fx_emitter r) \<and> length (fx_out r) = MAX_EMIT_LEN \<and>
     (fx_link r = None \<longleftrightarrow> fx_state r = Disconnected) \<and>
     (fx_link r = None \<longrightarrow> \<not> fx_tested r) \<and> (\<forall>l. fx_link r = Some l \<longrightarrow> link_ok l)"

text \<open>The invariant: the receiver is sound, so is the pipeline, and what was sent on the stream is the session so far.\<close>

definition loop_inv ::
    "('s \<Rightarrow> wire_record list \<Rightarrow> bool) \<Rightarrow> ('s \<Rightarrow> u64) \<Rightarrow> (stream \<Rightarrow> (bytes \<times> bool) list \<Rightarrow> 'k \<Rightarrow> bool) \<Rightarrow>
     u64 \<Rightarrow> nat \<Rightarrow> wire_record list \<Rightarrow> ('a, 's) fix_receiver \<Rightarrow> 'k \<Rightarrow> bool" where
  "loop_inv holds drops sent d0 leaked log r k \<longleftrightarrow>
     receiver_ok r \<and> fix_inv holds drops d0 leaked log (fx_pipeline r) \<and>
     (\<forall>l. fx_link r = Some l \<longrightarrow>
        (\<exists>outs oks. in_session (fx_emitter r) outs \<and> only_requests_failed outs oks \<and>
           sent (lk_stream l) (zip (numbered (fx_emitter r) outs) oks) k))"

text \<open>What holds also where a write has just failed and the link is about to be given up.\<close>

definition feed_inv :: "('s \<Rightarrow> wire_record list \<Rightarrow> bool) \<Rightarrow> ('s \<Rightarrow> u64) \<Rightarrow> u64 \<Rightarrow> nat \<Rightarrow> wire_record list \<Rightarrow> ('a, 's) fix_receiver \<Rightarrow> bool" where
  "feed_inv holds drops d0 leaked log r \<longleftrightarrow> receiver_ok r \<and> fix_inv holds drops d0 leaked log (fx_pipeline r)"

lemma loop_inv_feed: "loop_inv holds drops sent d0 leaked log r k \<Longrightarrow> feed_inv holds drops d0 leaked log r"
  by (simp add: loop_inv_def feed_inv_def)

text \<open>What a writer leaves: the link, and the counters of links, as they were.\<close>

definition wrote :: "('s \<Rightarrow> wire_record list \<Rightarrow> bool) \<Rightarrow> ('s \<Rightarrow> u64) \<Rightarrow> (stream \<Rightarrow> (bytes \<times> bool) list \<Rightarrow> 'k \<Rightarrow> bool) \<Rightarrow>
     u64 \<Rightarrow> nat \<Rightarrow> wire_record list \<Rightarrow> ('a, 's) fix_receiver \<Rightarrow> ('a, 's) fix_receiver \<Rightarrow> 'k \<Rightarrow> bool" where
  "wrote holds drops sent d0 leaked log r r' k' \<longleftrightarrow>
     loop_inv holds drops sent d0 leaked log r' k' \<and> same_feed r r' \<and> fx_link r' = fx_link r \<and> lost_links r' = lost_links r"

definition tried :: "('s \<Rightarrow> wire_record list \<Rightarrow> bool) \<Rightarrow> ('s \<Rightarrow> u64) \<Rightarrow> u64 \<Rightarrow> nat \<Rightarrow> wire_record list \<Rightarrow>
     ('a, 's) fix_receiver \<Rightarrow> ('a, 's) fix_receiver \<Rightarrow> bool" where
  "tried holds drops d0 leaked log r r' \<longleftrightarrow>
     feed_inv holds drops d0 leaked log r' \<and> same_feed r r' \<and> fx_link r' = fx_link r \<and> lost_links r' = lost_links r"

lemma wrote_tried: "wrote holds drops sent d0 leaked log r r' k \<Longrightarrow> tried holds drops d0 leaked log r r'"
  by (auto simp: wrote_def tried_def intro: loop_inv_feed)

text \<open>What a step leaves of a receiver that had a link: an error means that the link is gone, and a link that is gone is counted once.\<close>

definition settled ::
    "('s \<Rightarrow> wire_record list \<Rightarrow> bool) \<Rightarrow> ('s \<Rightarrow> u64) \<Rightarrow> (stream \<Rightarrow> (bytes \<times> bool) list \<Rightarrow> 'k \<Rightarrow> bool) \<Rightarrow>
     u64 \<Rightarrow> nat \<Rightarrow> wire_record list \<Rightarrow> ('a, 's) fix_receiver \<Rightarrow> link_error option \<Rightarrow> ('a, 's) fix_receiver \<Rightarrow> 'k \<Rightarrow> bool" where
  "settled holds drops sent d0 leaked log r e r' k' \<longleftrightarrow>
     loop_inv holds drops sent d0 leaked log r' k' \<and> same_feed r r' \<and> (e \<noteq> None \<longrightarrow> fx_link r' = None) \<and>
     lost_links r' = lost_links r + (if fx_link r' = None then 1 else 0)"

text \<open>What an attempt to connect leaves of a receiver that had none.\<close>

definition connected_or_counted ::
    "('s \<Rightarrow> wire_record list \<Rightarrow> bool) \<Rightarrow> ('s \<Rightarrow> u64) \<Rightarrow> (stream \<Rightarrow> (bytes \<times> bool) list \<Rightarrow> 'k \<Rightarrow> bool) \<Rightarrow>
     u64 \<Rightarrow> nat \<Rightarrow> wire_record list \<Rightarrow> ('a, 's) fix_receiver \<Rightarrow> link_error option \<Rightarrow> ('a, 's) fix_receiver \<Rightarrow> 'k \<Rightarrow> bool" where
  "connected_or_counted holds drops sent d0 leaked log r e r' k' \<longleftrightarrow>
     loop_inv holds drops sent d0 leaked log r' k' \<and> same_feed r r' \<and> (e \<noteq> None \<longrightarrow> fx_link r' = None) \<and>
     lost_links r' = lost_links r + (if e = None then 0 else 1)"

text \<open>How far a log may grow by one round.\<close>

definition round_room :: "nat \<Rightarrow> nat \<Rightarrow> ('a, 's) fix_receiver \<Rightarrow> nat" where
  "round_room capacity n r = n + capacity * unat (fc_burst (fx_cfg r)) + 1"

text \<open>The message a reply is.\<close>

definition reply_message :: "reply \<Rightarrow> ('a, 's) fix_receiver \<Rightarrow> outbound" where
  "reply_message reply r =
     (case reply of
        ReplyHeartbeat i \<Rightarrow> OutHeartbeat (let i = fix_text_bytes i in if i = [] then None else Some i)
      | ReplyResendRequest first until \<Rightarrow> OutResendRequest first until
      | ReplySequenceReset new_seq \<Rightarrow>
          OutSequenceReset (if new_seq = 0 then em_next_seq (fx_emitter r) + 1 else new_seq) True
      | ReplyLogout t \<Rightarrow> OutLogout (Some t))"

text \<open>The receiver that has been logged on.\<close>

definition logged_on :: "('a, 's) fix_receiver \<Rightarrow> ('a, 's) fix_receiver" where
  "logged_on r =
     (let r = r\<lparr> fx_state := LoggedOn, fx_tested := False \<rparr>
      in on_pipeline (\<lambda>p.
           if se_heartbeat_interval_ns (fp_session p) = 0
           then p\<lparr> fp_session := (fp_session p)\<lparr> se_heartbeat_interval_ns := fc_heartbeat_ns (fx_cfg r) \<rparr> \<rparr>
           else p) r)"

locale fix_loop = fix_feed holds buffer publish note_drops drops ops implied capacity + wire_log os sent
  for holds :: "'s \<Rightarrow> wire_record list \<Rightarrow> bool"
    and buffer :: "'s \<Rightarrow> wire_record"
    and publish :: "('e, 's) fix_publish"
    and note_drops :: "u64 \<Rightarrow> 's \<Rightarrow> 's"
    and drops :: "'s \<Rightarrow> u64"
    and ops :: "('a, 'e, 's \<times> u64) md_adapter_ops"
    and implied :: "'a \<Rightarrow> md_message \<Rightarrow> u64 \<Rightarrow> wire_record list"
    and capacity :: nat
    and os :: "'k tcp"
    and sent :: "stream \<Rightarrow> (bytes \<times> bool) list \<Rightarrow> 'k \<Rightarrow> bool"
begin

lemma loop_invI:
  fixes r :: "('a, 's) fix_receiver"
  assumes "loop_inv holds drops sent d0 leaked log r k" and "fx_emitter r' = fx_emitter r" "fx_out r' = fx_out r" "fx_link r' = fx_link r"
    and "fix_inv holds drops d0 leaked' log' (fx_pipeline r')"
    and "\<And>l ms. fx_link r = Some l \<Longrightarrow> sent (lk_stream l) ms k \<Longrightarrow> sent (lk_stream l) ms k'"
    and "fx_state r' = Disconnected \<longleftrightarrow> fx_state r = Disconnected" "fx_link r = None \<Longrightarrow> \<not> fx_tested r'"
  shows "loop_inv holds drops sent d0 leaked' log' r' k'"
  using assms unfolding loop_inv_def receiver_ok_def by (cases "fx_link r") (simp_all, blast)

text \<open>A builder writes the next message of the session into the buffer, or leaves everything as it is.\<close>

lemma fx_emit_step:
  fixes r :: "('a, 's) fix_receiver"
  assumes "loop_inv holds drops sent d0 leaked log r k" and "build = emit msg now" and "fx_emit build r = (res, r')"
  shows "same_feed r r' \<and> fx_link r' = fx_link r \<and> fx_state r' = fx_state r \<and> fx_pipeline r' = fx_pipeline r \<and>
    fx_tested r' = fx_tested r \<and> receiver_ok r' \<and> (\<forall>e. res = Inl e \<longrightarrow> loop_inv holds drops sent d0 leaked log r' k) \<and>
    (\<forall>n l k' v. res = Inr n \<longrightarrow> fx_link r = Some l \<longrightarrow> link_send os (take n (fx_out r')) l k = (v, k') \<longrightarrow>
       v = Inr () \<or> is_request (msg, now) \<longrightarrow> loop_inv holds drops sent d0 leaked log r' k') \<and>
    (\<forall>n. res = Inr n \<longrightarrow> fx_link r = None \<longrightarrow> loop_inv holds drops sent d0 leaked log r' k)"
proof -
  obtain out em where e: "emit msg now (fx_out r) (fx_emitter r) = (res, out, em)" "r' = r\<lparr> fx_out := out, fx_emitter := em \<rparr>"
    using assms(2,3) by (auto simp: fx_emit_def split: prod.splits)
  have ok: "receiver_ok r" and em: "emitter_ok (fx_emitter r)"
    using assms(1) by (simp_all add: loop_inv_def receiver_ok_def)
  note step = emit_in_session [OF em e(1)]
  have ok': "receiver_ok r'"
    using ok step by (cases "fx_link r") (simp_all add: receiver_ok_def e(2))
  have same: "same_feed r r'"
    using step by (simp add: same_feed_def e(2))
  have "loop_inv holds drops sent d0 leaked log r' k" if "res = Inl e" for e
    using assms(1) ok' step in_session_same [of "fx_emitter r" _ em] numbered_id [of em "fx_emitter r"] that
    by (auto simp: loop_inv_def e(2)) blast
  moreover have "loop_inv holds drops sent d0 leaked log r' k'"
    if n: "res = Inr n" and l: "fx_link r = Some l" and snd: "link_send os (take n (fx_out r')) l k = (v, k')"
      and fine: "v = Inr () \<or> is_request (msg, now)" for n l k' v
  proof -
    obtain outs oks where outs: "in_session (fx_emitter r) outs" "only_requests_failed outs oks"
        "sent (lk_stream l) (zip (numbered (fx_emitter r) outs) oks) k"
      using assms(1) l by (auto simp: loop_inv_def)
    have m: "take n out = numbered_message (fx_emitter r) (em_next_seq (fx_emitter r)) (msg, now)" "short_message (take n out)"
        "em_next_seq em = em_next_seq (fx_emitter r) + 1" "emitter_id em = emitter_id (fx_emitter r)"
      using step n by auto
    note nxt = in_session_next [OF outs(1) m(3,4), of "(msg, now)", folded m(1), OF m(2)]
    obtain ok where "sent (lk_stream l) (zip (numbered (fx_emitter r) outs) oks @ [(take n out, ok)]) k'" "v = Inr () \<longrightarrow> ok"
      using link_send_sent [OF snd outs(3)] by (auto simp: e(2))
    moreover have "length outs = length oks"
      using outs(2) by (simp add: only_requests_failed_def list_all2_lengthD)
    ultimately have "sent (lk_stream l) (zip (numbered em (outs @ [(msg, now)])) (oks @ [ok])) k'"
        "only_requests_failed (outs @ [(msg, now)]) (oks @ [ok])"
      using nxt(2) fine only_requests_failed_snoc [OF outs(2)] by (auto simp flip: nxt(2))
    then show ?thesis
      using assms(1) ok' nxt(1) l by (auto simp: loop_inv_def e(2))
  qed
  moreover have "loop_inv holds drops sent d0 leaked log r' k" if "fx_link r = None"
    using assms(1) ok' that by (auto simp: loop_inv_def e(2))
  ultimately show ?thesis
    using same ok' by (auto simp: e(2))
qed

text \<open>Giving the connection up.\<close>

lemma drop_link_step:
  fixes r :: "('a, 's) fix_receiver"
  assumes "feed_inv holds drops d0 leaked log r" and "drop_link os r k = (r', k')"
  shows "loop_inv holds drops sent d0 leaked log r' k' \<and> same_feed r r' \<and> fx_link r' = None \<and> lost_links r' = lost_links r"
  using assms by (auto simp: drop_link_def loop_inv_def feed_inv_def receiver_ok_def same_feed_def lost_links_def)

lemma note_disconnect_step:
  fixes r :: "('a, 's) fix_receiver"
  assumes "feed_inv holds drops d0 leaked log r"
  shows "feed_inv holds drops d0 leaked log (on_pipeline note_disconnect r) \<and> same_feed r (on_pipeline note_disconnect r) \<and>
    fx_link (on_pipeline note_disconnect r) = fx_link r \<and> lost_links (on_pipeline note_disconnect r) = lost_links r + 1"
  using assms
  by (simp add: on_pipeline_def feed_inv_def receiver_ok_def same_feed_def lost_links_def) (simp add: note_disconnect_def)

lemma note_disconnect_loop:
  fixes r :: "('a, 's) fix_receiver"
  assumes "loop_inv holds drops sent d0 leaked log r k"
  shows "loop_inv holds drops sent d0 leaked log (on_pipeline note_disconnect r) k"
  using assms by (simp add: on_pipeline_def loop_inv_def receiver_ok_def)

lemma fix_fail_step:
  fixes r :: "('a, 's) fix_receiver"
  assumes "feed_inv holds drops d0 leaked log r" and "fix_fail os r k = (r', k')"
  shows "loop_inv holds drops sent d0 leaked log r' k' \<and> same_feed r r' \<and> fx_link r' = None \<and> lost_links r' = lost_links r + 1"
  using note_disconnect_step [OF assms(1)] drop_link_step [of d0 leaked log "on_pipeline note_disconnect r" k r' k'] assms(2)
    same_feed_trans [of r "on_pipeline note_disconnect r" r']
  by (simp add: fix_fail_def)

text \<open>The writers of the loop.\<close>

lemma on_pipeline_inv:
  fixes r :: "('a, 's) fix_receiver"
  assumes "loop_inv holds drops sent d0 leaked log r k" and "fix_inv holds drops d0 leaked log (f (fx_pipeline r))"
  shows "loop_inv holds drops sent d0 leaked log (on_pipeline f r) k" "same_feed r (on_pipeline f r)"
    "fx_link (on_pipeline f r) = fx_link r" "fx_state (on_pipeline f r) = fx_state r" "fx_emitter (on_pipeline f r) = fx_emitter r"
    "fx_out (on_pipeline f r) = fx_out r" "fx_cfg (on_pipeline f r) = fx_cfg r"
    "lost_links (on_pipeline f r) = (let s = fp_stats (f (fx_pipeline r)) in st_disconnects s + st_connect_failures s)"
  using assms by (simp_all add: on_pipeline_def loop_inv_def receiver_ok_def same_feed_def lost_links_def Let_def)

lemma note_sent_links [simp]: "link_counts (fp_stats (note_sent reply p)) = link_counts (fp_stats p)"
  by (cases reply) (simp_all add: note_sent_def link_counts_def)

text \<open>Emit, note, send: the shape of every message the loop writes.\<close>

lemma emit_and_send:
  fixes r :: "('a, 's) fix_receiver"
  assumes inv: "loop_inv holds drops sent d0 leaked log r k" and build: "build = emit msg now" and emitted: "fx_emit build r = (Inr n, r1)"
    and noted: "\<And>p. fix_inv holds drops d0 leaked log p \<Longrightarrow> fix_inv holds drops d0 leaked log (note p)"
      "\<And>p. link_counts (fp_stats (note p)) = link_counts (fp_stats p)"
    and l: "fx_link r = Some l" and snd: "link_send os (take n (fx_out r1)) l k = (v, k')"
  shows "tried holds drops d0 leaked log r (on_pipeline note r1)"
    "v = Inr () \<Longrightarrow> wrote holds drops sent d0 leaked log r (on_pipeline note r1) k'"
proof -
  note e = fx_emit_step [OF inv build emitted]
  have noted1: "fix_inv holds drops d0 leaked log (note (fx_pipeline r1))"
    using e inv noted(1) by (simp add: loop_inv_def)
  have lost: "lost_links (on_pipeline note r1) = lost_links r"
    using e noted(2) [of "fx_pipeline r"] by (simp add: lost_links_def link_counts_def Let_def on_pipeline_def)
  have "receiver_ok (on_pipeline note r1)"
    using e by (auto simp: on_pipeline_def receiver_ok_def)
  then show "tried holds drops d0 leaked log r (on_pipeline note r1)"
    using e noted1 lost by (simp add: tried_def feed_inv_def on_pipeline_def same_feed_def)
  assume "v = Inr ()"
  then have inv1: "loop_inv holds drops sent d0 leaked log r1 k'"
    using e l snd by blast
  note p = on_pipeline_inv [where f = "note", OF inv1 noted1]
  then show "wrote holds drops sent d0 leaked log r (on_pipeline note r1) k'"
    using lost e same_feed_trans [of r r1] by (simp add: wrote_def)
qed

lemma fix_write_eq:
  "fix_write os reply now r k =
     (case fx_emit (emit (reply_message reply r) now) r of
        (Inl _, r) \<Rightarrow> (Inr (), r, k)
      | (Inr n, r) \<Rightarrow>
          let r = on_pipeline (note_sent reply) r
          in case fx_link r of
               Some l \<Rightarrow> (case link_send os (take n (fx_out r)) l k of (res, k) \<Rightarrow> (res, r, k))
             | None \<Rightarrow> (Inr (), r, k))"
  by (simp add: fix_write_def reply_message_def Let_def split: reply.split)

lemma fix_write_step:
  fixes r :: "('a, 's) fix_receiver"
  assumes inv: "loop_inv holds drops sent d0 leaked log r k" and l: "fx_link r = Some l" and run: "fix_write os reply now r k = (res, r', k')"
  shows "tried holds drops d0 leaked log r r' \<and> (res = Inr () \<longrightarrow> wrote holds drops sent d0 leaked log r r' k')"
proof -
  obtain v r1 where e: "fx_emit (emit (reply_message reply r) now) r = (v, r1)"
    by fastforce
  note step = fx_emit_step [OF inv refl e]
  show ?thesis
  proof (cases v)
    case (Inl x)
    then show ?thesis
      using run e step by (auto simp: fix_write_eq wrote_def tried_def lost_links_def loop_inv_feed)
  next
    case (Inr n)
    have r1: "fx_link (on_pipeline (note_sent reply) r1) = Some l" "fx_out (on_pipeline (note_sent reply) r1) = fx_out r1"
      using step l by (simp_all add: on_pipeline_def)
    obtain res' k1 where s: "link_send os (take n (fx_out r1)) l k = (res', k1)"
      by fastforce
    then have "r' = on_pipeline (note_sent reply) r1" "k' = k1" "res' = res"
      using run e Inr r1 by (auto simp: fix_write_eq)
    then show ?thesis
      using emit_and_send [OF inv refl e [unfolded Inr] _ _ l s, of "note_sent reply"] by simp
  qed
qed

lemma settled_wrote:
  fixes r :: "('a, 's) fix_receiver"
  shows "tried holds drops d0 leaked log r r1 \<Longrightarrow> settled holds drops sent d0 leaked' log' r1 e r' k' \<Longrightarrow> settled holds drops sent d0 leaked' log' r e r' k'"
  using same_feed_trans [of r r1 r'] by (simp add: tried_def settled_def)

lemma settled_none:
  fixes r :: "('a, 's) fix_receiver"
  shows "wrote holds drops sent d0 leaked log r r' k' \<Longrightarrow> fx_link r = Some l \<Longrightarrow> settled holds drops sent d0 leaked log r None r' k'"
  by (simp add: wrote_def settled_def)

lemma settled_fail:
  fixes r :: "('a, 's) fix_receiver"
  shows "feed_inv holds drops d0 leaked log r \<Longrightarrow> fix_fail os r k = (r', k') \<Longrightarrow> settled holds drops sent d0 leaked log r e r' k'"
  using fix_fail_step [of d0 leaked log r k r' k'] by (simp add: settled_def)

lemma wrote_fail:
  fixes r :: "('a, 's) fix_receiver"
  assumes "tried holds drops d0 leaked log r r1" and "fix_fail os r1 k = (r', k')"
  shows "settled holds drops sent d0 leaked log r e r' k'"
proof -
  have "feed_inv holds drops d0 leaked log r1"
    using assms(1) by (simp add: tried_def)
  then show ?thesis
    using settled_wrote [OF assms(1) settled_fail] assms(2) by blast
qed

lemma fix_shutdown_step:
  fixes r :: "('a, 's) fix_receiver"
  assumes "loop_inv holds drops sent d0 leaked log r k" and "fix_shutdown os reason r k = (r', k')"
  shows "loop_inv holds drops sent d0 leaked log r' k' \<and> same_feed r r' \<and> fx_link r' = None \<and> lost_links r' = lost_links r"
proof (cases "fx_link r")
  case None
  then show ?thesis
    using assms drop_link_step [OF loop_inv_feed [OF assms(1)]] by (simp add: fix_shutdown_def)
next
  case (Some l)
  obtain now k1 res r1 k2 where t: "tcp_now os k = (now, k1)" and w: "fix_write os (ReplyLogout reason) now r k1 = (res, r1, k2)"
    by (metis prod.exhaust)
  have "loop_inv holds drops sent d0 leaked log r k1"
    using loop_invI [OF assms(1), of r] assms(1) sent_now [OF t] by (auto simp: loop_inv_def receiver_ok_def)
  from fix_write_step [OF this Some w] have r1: "tried holds drops d0 leaked log r r1"
    by simp
  then show ?thesis
    using drop_link_step [of d0 leaked log r1 k2 r' k'] same_feed_trans [of r r1 r'] assms(2) Some t w
    by (simp add: fix_shutdown_def tried_def)
qed

lemma tick_send_step:
  fixes r :: "('a, 's) fix_receiver"
  assumes inv: "loop_inv holds drops sent d0 leaked log r k" and l: "fx_link r = Some l" and build: "build = emit msg now"
    and noted: "\<And>p. fix_inv holds drops d0 leaked log p \<Longrightarrow> fix_inv holds drops d0 leaked log (note p)"
      "\<And>p. link_counts (fp_stats (note p)) = link_counts (fp_stats p)"
    and nxt: "\<And>r1 k1 e r' k'. loop_inv holds drops sent d0 leaked log r1 k1 \<Longrightarrow> fx_link r1 = Some l \<Longrightarrow> nxt r1 k1 = (e, r', k') \<Longrightarrow>
      settled holds drops sent d0 leaked log r1 e r' k'"
    and run: "tick_send os build note nxt r k = (e, r', k')"
  shows "settled holds drops sent d0 leaked log r e r' k'"
proof -
  obtain v r1 where e: "fx_emit build r = (v, r1)"
    by fastforce
  note step = fx_emit_step [OF inv build e]
  show ?thesis
  proof (cases v)
    case (Inl x)
    then have "wrote holds drops sent d0 leaked log r r1 k"
      using step by (auto simp: wrote_def lost_links_def)
    then show ?thesis
      using run e Inl settled_none [OF _ l] by (simp add: tick_send_def)
  next
    case (Inr n)
    obtain res k1 where s: "link_send os (take n (fx_out r1)) l k = (res, k1)"
      by fastforce
    note w = emit_and_send [OF inv build e [unfolded Inr] noted l s]
    have r1: "fx_link (on_pipeline note r1) = Some l" "fx_out (on_pipeline note r1) = fx_out r1"
      using step l by (simp_all add: on_pipeline_def)
    show ?thesis
    proof (cases res)
      case (Inl x)
      then show ?thesis
        using run e Inr r1 s wrote_fail [OF w(1)] by (auto simp: tick_send_def split: prod.splits)
    next
      case (Inr u)
      then have run': "nxt (on_pipeline note r1) k1 = (e, r', k')"
        using run e \<open>v = Inr n\<close> r1 s by (simp add: tick_send_def)
      have "loop_inv holds drops sent d0 leaked log (on_pipeline note r1) k1"
        using w(2) Inr by (simp add: wrote_def)
      then show ?thesis
        using settled_wrote [OF w(1) nxt [OF _ r1(1) run']] by blast
    qed
  qed
qed

lemma tick_notes [simp]:
  "link_counts (fp_stats (note_test_request p)) = link_counts (fp_stats p)"
  "link_counts (fp_stats (note_heartbeat_sent p)) = link_counts (fp_stats p)"
  by (simp_all add: note_test_request_def note_heartbeat_sent_def link_counts_def)

lemma owed_heartbeat_step:
  fixes r :: "('a, 's) fix_receiver"
  assumes "loop_inv holds drops sent d0 leaked log r k" and "fx_link r = Some l" and "owed_heartbeat os now r k = (e, r', k')"
  shows "settled holds drops sent d0 leaked log r e r' k'"
proof -
  have none: "settled holds drops sent d0 leaked log r1 None r1 k1" if "loop_inv holds drops sent d0 leaked log r1 k1" "fx_link r1 = Some l" for r1 k1
    using that by (simp add: settled_def)
  show ?thesis
  proof (cases "emitter_owes_heartbeat now (fc_heartbeat_ns (fx_cfg r)) (fx_emitter r)")
    case True
    then show ?thesis
      using tick_send_step [OF assms(1,2), of "emit_heartbeat None now" "OutHeartbeat None" now note_heartbeat_sent "\<lambda>r k. (None, r, k)" e r' k']
        assms(3) none by (auto simp: owed_heartbeat_def)
  qed (use assms none in \<open>auto simp: owed_heartbeat_def\<close>)
qed

lemma fix_tick_step:
  fixes r :: "('a, 's) fix_receiver"
  assumes inv: "loop_inv holds drops sent d0 leaked log r k" and l: "fx_link r = Some l" and run: "fix_tick os now r k = (e, r', k')"
  shows "settled holds drops sent d0 leaked log r e r' k'"
proof -
  note nd = note_disconnect_step [OF loop_inv_feed [OF inv]]
  consider
      (late) "fix_tick os now r k = (case fix_fail os r k of (r, k) \<Rightarrow> (Some \<lparr> le_call = ''logon timeout'', le_source = None \<rparr>, r, k))"
    | (silent) "fix_tick os now r k = (case fix_shutdown os (str ''no response to TestRequest'') (on_pipeline note_disconnect r) k of
              (r, k) \<Rightarrow> (Some \<lparr> le_call = ''peer silent'', le_source = None \<rparr>, r, k))"
    | (ask) "fix_tick os now r k =
        tick_send os (emit_test_request JEED_ID now) note_test_request (owed_heartbeat os now) (r\<lparr> fx_tested := True \<rparr>) k"
    | (quiet) "fix_tick os now r k = owed_heartbeat os now r k"
    unfolding fix_tick_def fix_fail_def by presburger
  then show ?thesis
  proof cases
    case late
    then show ?thesis
      using settled_fail [OF loop_inv_feed [OF inv]] run by (auto split: prod.splits)
  next
    case silent
    moreover obtain r1 k1 where sh: "fix_shutdown os (str ''no response to TestRequest'') (on_pipeline note_disconnect r) k = (r1, k1)"
      by fastforce
    ultimately show ?thesis
      using fix_shutdown_step [OF note_disconnect_loop [OF inv] sh] nd run same_feed_trans [of r "on_pipeline note_disconnect r"]
      by (auto simp: settled_def)
  next
    case ask
    have "loop_inv holds drops sent d0 leaked log (r\<lparr> fx_tested := True \<rparr>) k"
      using inv l by (auto simp: loop_inv_def receiver_ok_def)
    moreover have "tick_send os (emit_test_request JEED_ID now) note_test_request (owed_heartbeat os now) (r\<lparr> fx_tested := True \<rparr>) k =
        (e, r', k')"
      using ask run by simp
    ultimately have "settled holds drops sent d0 leaked log (r\<lparr> fx_tested := True \<rparr>) e r' k'"
      using tick_send_step [of d0 leaked log "r\<lparr> fx_tested := True \<rparr>" k l "emit_test_request JEED_ID now" "OutTestRequest JEED_ID" now
          note_test_request "owed_heartbeat os now" e r' k'] l owed_heartbeat_step
      by simp
    then show ?thesis
      by (simp add: settled_def same_feed_def lost_links_def)
  next
    case quiet
    then show ?thesis
      using owed_heartbeat_step [OF inv l] run by simp
  qed
qed

text \<open>One message applied.\<close>

lemma fix_apply_eq:
  "fix_apply os ing now r k =
     (let r = (if in_outcome ing = FixAdmin Logon then logged_on r else r)
      in case (case in_reply ing of Some reply \<Rightarrow> fix_write os reply now r k | None \<Rightarrow> (Inr (), r, k)) of
           (Inl e, r, k) \<Rightarrow> (case fix_fail os r k of (r, k) \<Rightarrow> (Some e, r, k))
         | (Inr _, r, k) \<Rightarrow>
             if in_disconnect ing then (case fix_fail os r k of (r, k) \<Rightarrow> (None, r, k)) else (None, r, k))"
  unfolding fix_apply_def logged_on_def fix_fail_def Let_def by (rule refl)

lemma logged_on_step:
  fixes r :: "('a, 's) fix_receiver"
  assumes "loop_inv holds drops sent d0 leaked log r k" and "fx_link r = Some l"
  shows "wrote holds drops sent d0 leaked log r (logged_on r) k"
  using assms by (auto simp: wrote_def logged_on_def Let_def on_pipeline_def loop_inv_def receiver_ok_def same_feed_def lost_links_def)

lemma fix_apply_step:
  fixes r :: "('a, 's) fix_receiver"
  assumes inv: "loop_inv holds drops sent d0 leaked log r k" and l: "fx_link r = Some l" and run: "fix_apply os ing now r k = (e, r', k')"
  shows "settled holds drops sent d0 leaked log r e r' k'"
proof -
  define r0 where "r0 = (if in_outcome ing = FixAdmin Logon then logged_on r else r)"
  have r0: "wrote holds drops sent d0 leaked log r r0 k"
    using logged_on_step [OF inv l] inv by (auto simp: r0_def wrote_def)
  obtain v r1 k1 where w: "(case in_reply ing of Some reply \<Rightarrow> fix_write os reply now r0 k | None \<Rightarrow> (Inr (), r0, k)) = (v, r1, k1)"
    by (metis prod.exhaust)
  have inv0: "loop_inv holds drops sent d0 leaked log r0 k" and l0: "fx_link r0 = Some l"
    using r0 l by (simp_all add: wrote_def)
  have "tried holds drops d0 leaked log r0 r1 \<and> (v = Inr () \<longrightarrow> wrote holds drops sent d0 leaked log r0 r1 k1)"
    using w fix_write_step [OF inv0 l0] inv0 by (cases "in_reply ing") (auto simp: wrote_def tried_def loop_inv_feed)
  then have r1: "tried holds drops d0 leaked log r r1" "v = Inr () \<Longrightarrow> wrote holds drops sent d0 leaked log r r1 k1"
    using r0 same_feed_trans [of r r0 r1] by (simp_all add: wrote_def tried_def)
  obtain r2 k2 where f: "fix_fail os r1 k1 = (r2, k2)"
    by fastforce
  show ?thesis
  proof (cases v)
    case (Inl x)
    then show ?thesis
      using run w f wrote_fail [OF r1(1) f] by (simp add: fix_apply_eq r0_def [symmetric] Let_def)
  next
    case (Inr u)
    then show ?thesis
      using run w f wrote_fail [OF r1(1) f] settled_none [OF r1(2) l]
      by (simp add: fix_apply_eq r0_def [symmetric] Let_def split: if_splits)
  qed
qed

text \<open>The messages of one read.\<close>

lemma settled_more:
  fixes r :: "('a, 's) fix_receiver"
  assumes "same_feed r r1" and "fx_link r1 = Some l" "lost_links r1 = lost_links r" and "settled holds drops sent d0 leaked log r1 e r' k'"
  shows "settled holds drops sent d0 leaked log r e r' k'"
  using assms same_feed_trans [of r r1 r'] by (simp add: settled_def)

lemma clock_step:
  fixes r :: "('a, 's) fix_receiver"
  shows "loop_inv holds drops sent d0 leaked log r k \<Longrightarrow> tcp_now os k = (now, k') \<Longrightarrow> loop_inv holds drops sent d0 leaked log r k'"
  using sent_now unfolding loop_inv_def by blast

lemma framing_error_step:
  fixes r :: "('a, 's) fix_receiver"
  assumes "loop_inv holds drops sent d0 leaked log r k" and "fx_link r = Some l" and "fix_fail os (on_pipeline note_framing_error r) k = (r', k')"
  shows "settled holds drops sent d0 leaked log r e r' k'"
proof -
  have w: "wrote holds drops sent d0 leaked log r (on_pipeline note_framing_error r) k"
    using assms on_pipeline_inv [OF assms(1), of note_framing_error]
    by (simp add: wrote_def loop_inv_def lost_links_def) (simp add: note_framing_error_def)
  show ?thesis
    using wrote_fail [OF wrote_tried [OF w]] assms(3) by blast
qed

lemma pump_message:
  fixes r :: "('a, 's) fix_receiver"
  assumes inv: "loop_inv holds drops sent d0 leaked log r k" and l: "fx_link r = Some l" and room: "length log + capacity + 1 < 2 ^ 64"
  shows "\<exists>ing p leaked' rs. fix_ingest ops publish note_drops fr recv_ns (fx_pipeline r) = Inr (ing, p) \<and> length rs \<le> capacity \<and>
    loop_inv holds drops sent d0 leaked' (log @ rs) (r\<lparr> fx_pipeline := p, fx_link := Some (link_consume n l) \<rparr>) k \<and>
    same_feed r (r\<lparr> fx_pipeline := p, fx_link := Some (link_consume n l) \<rparr>) \<and>
    lost_links (r\<lparr> fx_pipeline := p, fx_link := Some (link_consume n l) \<rparr>) = lost_links r"
proof -
  have p: "fix_inv holds drops d0 leaked log (fx_pipeline r)"
    using inv by (simp add: loop_inv_def)
  define rs where "rs = fix_reference (ao_scales ops) implied fr recv_ns (fx_pipeline r)"
  obtain ing p' leaked' where ing: "fix_ingest ops publish note_drops fr recv_ns (fx_pipeline r) = Inr (ing, p')"
      "fix_inv holds drops d0 leaked' (log @ stamp_from (length log) rs) p'"
    using ingest_step [OF p room rs_def] by blast
  have "length (stamp_from (length log) rs) \<le> capacity"
    using implied_length by (simp add: rs_def fix_reference_def split: sum.split)
  moreover have "link_ok (link_consume n l)" "lk_stream (link_consume n l) = lk_stream l"
    using inv l link_consume_ok [of l n] by (simp_all add: loop_inv_def receiver_ok_def)
  then have "loop_inv holds drops sent d0 leaked' (log @ stamp_from (length log) rs) (r\<lparr> fx_pipeline := p', fx_link := Some (link_consume n l) \<rparr>) k"
    using ing(2) inv l by (auto simp: loop_inv_def receiver_ok_def)
  ultimately show ?thesis
    using ing(1) ingest_links [OF ing(1)]
    by (intro exI [of _ ing] exI [of _ p'] exI [of _ leaked'] exI [of _ "stamp_from (length log) rs"])
       (simp add: same_feed_def lost_links_def link_counts_def)
qed

lemma pump_loop_step:
  fixes r :: "('a, 's) fix_receiver"
  assumes "loop_inv holds drops sent d0 leaked log r k" and "fx_link r = Some l" and "length log + capacity * n + 1 < 2 ^ 64"
  shows "\<exists>e r' k' leaked' rs. pump_loop os ops publish note_drops n now r k = (Inr e, r', k') \<and>
    length rs \<le> capacity * n \<and> settled holds drops sent d0 leaked' (log @ rs) r e r' k'"
  using assms
proof (induction n arbitrary: leaked log r k l)
  case 0
  obtain e r' k' where tick: "fix_tick os now r k = (e, r', k')"
    by (metis prod.exhaust)
  show ?case
    using fix_tick_step [OF 0(1,2) tick] tick by (intro exI [of _ e] exI [of _ r'] exI [of _ k'] exI [of _ leaked] exI [of _ "[]"]) simp
next
  case (Suc n)
  obtain recv_ns k1 where t: "tcp_now os k = (recv_ns, k1)"
    by fastforce
  note inv = clock_step [OF Suc.prems(1) t] and l = Suc.prems(2)
  note pump_loop.simps(2) [simp del]
  note step = pump_loop.simps(2) [of os ops publish note_drops n now r k, unfolded t prod.case l option.case]
  obtain r2 k2 e where tick: "fix_tick os now r k1 = (e, r2, k2)"
    by (metis prod.exhaust)
  consider (err) x where "link_peek l = Inl (Err x)" | (more) "link_peek l = Inr None" | (msg) f where "link_peek l = Inr (Some f)"
    using link_peek_no_panic [of l] by (metis fault.exhaust option.exhaust sum.exhaust)
  then show ?case
  proof cases
    case err
    obtain r3 k3 where f: "fix_fail os (on_pipeline note_framing_error r) k1 = (r3, k3)"
      by fastforce
    show ?thesis
      using framing_error_step [OF inv l f] err f
      by (simp add: step) (intro exI [of _ leaked] exI [of _ "[]"], simp)
  next
    case more
    show ?thesis
      using fix_tick_step [OF inv l tick] more tick
      by (simp add: step) (intro exI [of _ leaked] exI [of _ "[]"], simp)
  next
    case msg
    have room: "length log + capacity + 1 < 2 ^ 64" "length log + capacity + capacity * n + 1 < 2 ^ 64"
      using Suc.prems(3) by (simp_all add: algebra_simps)
    obtain ing p leaked1 rs where m: "fix_ingest ops publish note_drops f recv_ns (fx_pipeline r) = Inr (ing, p)" "length rs \<le> capacity"
        "loop_inv holds drops sent d0 leaked1 (log @ rs) (r\<lparr> fx_pipeline := p, fx_link := Some (link_consume (frame_len f) l) \<rparr>) k1"
        "same_feed r (r\<lparr> fx_pipeline := p, fx_link := Some (link_consume (frame_len f) l) \<rparr>)"
        "lost_links (r\<lparr> fx_pipeline := p, fx_link := Some (link_consume (frame_len f) l) \<rparr>) = lost_links r"
      using pump_message [OF inv l room(1), of f recv_ns "frame_len f"] by blast
    define r1 where "r1 = r\<lparr> fx_pipeline := p, fx_link := Some (link_consume (frame_len f) l) \<rparr>"
    have r1: "fx_link r1 = Some (link_consume (frame_len f) l)"
      by (simp add: r1_def)
    obtain e1 r2 k2 where a: "fix_apply os ing now r1 k1 = (e1, r2, k2)"
      by (metis prod.exhaust)
    have s: "settled holds drops sent d0 leaked1 (log @ rs) r e1 r2 k2"
      using settled_more [OF m(4) [folded r1_def] r1 m(5) [folded r1_def] fix_apply_step [OF m(3) [folded r1_def] r1 a]] .
    show ?thesis
    proof (cases "e1 = None \<and> link_connected (fx_state r2)")
      case True
      have inv2: "loop_inv holds drops sent d0 leaked1 (log @ rs) r2 k2"
        using s by (simp add: settled_def)
      then obtain l2 where l2: "fx_link r2 = Some l2"
        using True by (cases "fx_link r2") (auto simp: loop_inv_def receiver_ok_def link_connected_def)
      have "length (log @ rs) + capacity * n + 1 < 2 ^ 64"
        using room(2) m(2) by simp
      from Suc.IH [OF inv2 l2 this] obtain e' r' k' leaked' rs' where
        ih: "pump_loop os ops publish note_drops n now r2 k2 = (Inr e', r', k')" "length rs' \<le> capacity * n"
          "settled holds drops sent d0 leaked' (log @ rs @ rs') r2 e' r' k'"
        by auto
      have "settled holds drops sent d0 leaked' (log @ rs @ rs') r e' r' k'"
        using settled_more [OF _ l2 _ ih(3), of r] s l2 by (simp add: settled_def)
      then show ?thesis
        using msg m(1,2) a ih True
        by (intro exI [of _ e'] exI [of _ r'] exI [of _ k'] exI [of _ leaked'] exI [of _ "rs @ rs'"])
           (simp add: step r1_def)
    next
      case False
      then have "pump_loop os ops publish note_drops (Suc n) now r k = (Inr e1, r2, k2)"
        using msg m(1) a by (cases e1) (simp_all add: step r1_def)
      then show ?thesis
        using s m(2) by (intro exI conjI) auto
    qed
  qed
qed

text \<open>One read and its messages.\<close>

lemma pump_step:
  fixes r :: "('a, 's) fix_receiver"
  assumes inv: "loop_inv holds drops sent d0 leaked log r k" and l: "fx_link r = Some l"
    and room: "length log + capacity * unat (fc_burst (fx_cfg r)) + 1 < 2 ^ 64"
  shows "\<exists>e r' k' leaked' rs. pump os ops publish note_drops now r k = (Inr e, r', k') \<and>
    length rs \<le> capacity * unat (fc_burst (fx_cfg r)) \<and> settled holds drops sent d0 leaked' (log @ rs) r e r' k'"
proof -
  obtain v l1 k1 where fill: "link_fill os l k = (v, l1, k1)"
    by (metis prod.exhaust)
  define r1 where "r1 = r\<lparr> fx_link := Some l1 \<rparr>"
  have ok: "link_ok l1" "lk_stream l1 = lk_stream l"
    using link_fill_ok [OF _ fill] inv l by (auto simp: loop_inv_def receiver_ok_def)
  have r1: "loop_inv holds drops sent d0 leaked log r1 k1" "same_feed r r1" "fx_link r1 = Some l1" "lost_links r1 = lost_links r"
    using inv l ok link_fill_sent [OF fill] by (auto simp: r1_def loop_inv_def receiver_ok_def same_feed_def lost_links_def)
  show ?thesis
  proof (cases v)
    case (Inl e)
    obtain r2 k2 where f: "fix_fail os r1 k1 = (r2, k2)"
      by fastforce
    have "settled holds drops sent d0 leaked log r (Some e) r2 k2"
      using settled_more [OF r1(2,3,4) settled_fail [OF loop_inv_feed [OF r1(1)] f]] .
    then show ?thesis
      using l fill Inl f
      by (intro exI [of _ "Some e"] exI [of _ r2] exI [of _ k2] exI [of _ leaked] exI [of _ "[]"]) (simp add: pump_def r1_def)
  next
    case (Inr n)
    let ?r = "on_pipeline (note_bytes (of_nat n)) r1"
    have p: "loop_inv holds drops sent d0 leaked log ?r k1" "same_feed r1 ?r" "fx_link ?r = Some l1" "lost_links ?r = lost_links r1" "fx_cfg ?r = fx_cfg r"
      using on_pipeline_inv [OF r1(1), of "note_bytes (of_nat n)"] r1
      by (simp_all add: loop_inv_def lost_links_def Let_def) (simp_all add: note_bytes_def r1_def)
    have same: "same_feed r ?r" "lost_links ?r = lost_links r"
      using same_feed_trans [OF r1(2) p(2)] p(4) r1(4) by simp_all
    obtain e r' k' leaked' rs where run: "pump_loop os ops publish note_drops (unat (fc_burst (fx_cfg r))) now ?r k1 = (Inr e, r', k')"
        "length rs \<le> capacity * unat (fc_burst (fx_cfg r))" "settled holds drops sent d0 leaked' (log @ rs) ?r e r' k'"
      using pump_loop_step [OF p(1,3) room, of now] by blast
    have "settled holds drops sent d0 leaked' (log @ rs) r e r' k'"
      using settled_more [OF same(1) p(3) same(2) run(3)] .
    then show ?thesis
      using l fill Inr run(1,2)
      by (intro exI [of _ e] exI [of _ r'] exI [of _ k'] exI [of _ leaked'] exI [of _ rs]) (simp add: pump_def r1_def)
  qed
qed

text \<open>A connection attempt: an error is a failure counted once, and a connection starts with a logon numbered one.\<close>

lemma connect_failure_step:
  fixes r :: "('a, 's) fix_receiver"
  assumes "receiver_ok r" "fix_inv holds drops d0 leaked log (fx_pipeline r)" "fx_link r = None"
  shows "loop_inv holds drops sent d0 leaked log (on_pipeline note_connect_failure r) k \<and> same_feed r (on_pipeline note_connect_failure r) \<and>
    fx_link (on_pipeline note_connect_failure r) = None \<and> lost_links (on_pipeline note_connect_failure r) = lost_links r + 1"
  using assms
  by (simp add: on_pipeline_def loop_inv_def receiver_ok_def same_feed_def lost_links_def) (simp add: note_connect_failure_def)

lemma logon_step:
  fixes r :: "('a, 's) fix_receiver"
  assumes ok: "receiver_ok r" and p: "fix_inv holds drops d0 leaked log (fx_pipeline r)" and none: "fx_link r = None"
    and run: "send_logon now (fix_start_session r) = (v, r1)"
  shows "receiver_ok r1 \<and> fix_inv holds drops d0 leaked log (fx_pipeline r1) \<and> fx_link r1 = None \<and> same_feed r r1 \<and>
    lost_links r1 = lost_links r \<and>
    (\<forall>n l. v = Inr n \<longrightarrow> link_ok l \<longrightarrow> sent (lk_stream l) [(take n (fx_out r1), True)] k \<longrightarrow>
       loop_inv holds drops sent d0 leaked log (fix_logged_out now l r1) k \<and> same_feed r (fix_logged_out now l r1) \<and>
       lost_links (fix_logged_out now l r1) = lost_links r)"
proof -
  define r0 where "r0 = fix_start_session r"
  define msg where "msg = OutLogon (fc_heartbeat_secs (fx_cfg r)) (fc_reset_seq_on_logon (fx_cfg r))"
  have r0: "receiver_ok r0" "fix_inv holds drops d0 leaked log (fx_pipeline r0)" "fx_link r0 = None" "fx_cfg r0 = fx_cfg r"
      "same_feed r r0" "lost_links r0 = lost_links r" "em_next_seq (fx_emitter r0) = 1" "emitter_ok (fx_emitter r0)"
    using ok p none
    by (simp_all add: r0_def fix_start_session_def on_pipeline_def reset_session_def emitter_reset_def receiver_ok_def emitter_ok_def
        emitter_begin_def same_feed_def lost_links_def)
  obtain out em where e: "emit msg now (fx_out r0) (fx_emitter r0) = (v, out, em)" "r1 = r0\<lparr> fx_out := out, fx_emitter := em \<rparr>"
    using run r0(4) by (auto simp: send_logon_def fx_emit_def r0_def [symmetric] msg_def split: prod.splits)
  note step = emit_in_session [OF r0(8) e(1)]
  have r1: "receiver_ok r1" "fix_inv holds drops d0 leaked log (fx_pipeline r1)" "fx_link r1 = None" "same_feed r r1"
      "lost_links r1 = lost_links r"
    using r0 step by (simp_all add: e(2) receiver_ok_def same_feed_def lost_links_def)
  moreover have "loop_inv holds drops sent d0 leaked log (fix_logged_out now l r1) k \<and> same_feed r (fix_logged_out now l r1) \<and>
       lost_links (fix_logged_out now l r1) = lost_links r"
    if n: "v = Inr n" and l: "link_ok l" and m: "sent (lk_stream l) [(take n (fx_out r1), True)] k" for n l
  proof -
    have s: "take n out = numbered_message (fx_emitter r0) 1 (msg, now)" "short_message (take n out)" "em_next_seq em = 2"
        "emitter_id em = emitter_id (fx_emitter r0)"
      using step n r0(7) by auto
    have first: "in_session em [(msg, now)]"
      using in_session_first [of msg now em "fx_emitter r0"] s by (simp add: msg_def)
    have "numbered em [(msg, now)] = [take n out]"
      using numbered_message_id [OF s(4)] s(1) by (simp add: numbered_def)
    then have "sent (lk_stream l) (zip (numbered em [(msg, now)]) [True]) k" "only_requests_failed [(msg, now)] [True]"
      using m by (simp_all add: e(2) only_requests_failed_def)
    then have "\<exists>outs oks. in_session em outs \<and> only_requests_failed outs oks \<and> sent (lk_stream l) (zip (numbered em outs) oks) k"
      using first by blast
    then show ?thesis
      using r1 l by (auto simp: fix_logged_out_def loop_inv_def receiver_ok_def same_feed_def lost_links_def e(2))
  qed
  ultimately show ?thesis
    by blast
qed

lemma failed_connect:
  fixes r :: "('a, 's) fix_receiver"
  assumes "receiver_ok r1" "fix_inv holds drops d0 leaked log (fx_pipeline r1)" "fx_link r1 = None" "same_feed r r1"
    "lost_links r1 = lost_links r"
  shows "connected_or_counted holds drops sent d0 leaked log r (Some e) (on_pipeline note_connect_failure r1) k"
  using connect_failure_step [OF assms(1-3)] assms same_feed_trans [of r r1] by (simp add: connected_or_counted_def)

lemma try_connect_step:
  fixes r :: "('a, 's) fix_receiver"
  assumes inv: "loop_inv holds drops sent d0 leaked log r k" and none: "fx_link r = None" and run: "try_connect os now r k = (e, r', k')"
  shows "connected_or_counted holds drops sent d0 leaked log r e r' k'"
proof (cases "now < fx_next_connect_ns r")
  case True
  then show ?thesis
    using inv run by (simp add: try_connect_def connected_or_counted_def)
next
  case False
  define r0 where "r0 = r\<lparr> fx_next_connect_ns := saturating_add now (fc_reconnect_ns (fx_cfg r)) \<rparr>"
  have r0: "receiver_ok r0" "fix_inv holds drops d0 leaked log (fx_pipeline r0)" "fx_link r0 = None" "same_feed r r0"
      "lost_links r0 = lost_links r"
    using inv none by (simp_all add: r0_def loop_inv_def receiver_ok_def same_feed_def lost_links_def)
  note failed = failed_connect [OF r0]
  obtain c k1 where c: "link_connect os (fx_endpoint r0) (fc_link (fx_cfg r0)) k = (c, k1)"
    by fastforce
  note step = run [unfolded try_connect_def, folded r0_def, unfolded Let_def c]
  show ?thesis
  proof (cases c)
    case (Inl x)
    then show ?thesis
      using step False failed by (auto simp: r0_def [symmetric])
  next
    case (Inr l)
    have l: "link_ok l" "sent (lk_stream l) [] k1"
      using link_connect_ok [OF c [unfolded Inr]] link_connect_sent [OF c [unfolded Inr]] by simp_all
    obtain m k2 where m: "link_mode os r0 l k1 = (m, k2)"
      by fastforce
    have sent2: "sent (lk_stream l) [] k2"
      using link_set_mode_sent m l(2) unfolding link_mode_def by blast
    obtain v r1 where g: "send_logon now (fix_start_session r0) = (v, r1)"
      by fastforce
    have r1: "receiver_ok r1" "fix_inv holds drops d0 leaked log (fx_pipeline r1)" "fx_link r1 = None" "same_feed r r1"
        "lost_links r1 = lost_links r"
      using logon_step [OF r0(1-3) g] r0(4,5) same_feed_trans [of r r0 r1] by simp_all
    show ?thesis
    proof (cases v)
      case Inl
      then show ?thesis
        using step False failed failed_connect [OF r1] Inr m g by (cases m) (auto simp: r0_def [symmetric])
    next
      case n: (Inr n)
      obtain w k3 where w: "link_send os (take n (fx_out r1)) l k2 = (w, k3)"
        by fastforce
      have "w = Inr () \<Longrightarrow> sent (lk_stream l) [(take n (fx_out r1), True)] k3"
        using link_send_sent [OF w sent2] by auto
      then have "w = Inr () \<Longrightarrow> connected_or_counted holds drops sent d0 leaked log r None (fix_logged_out now l r1) k3"
        using logon_step [OF r0(1-3) g, of k3] n l(1) r0(4,5) same_feed_trans [of r r0] by (auto simp: connected_or_counted_def)
      then show ?thesis
        using step False failed failed_connect [OF r1] Inr m g n w by (cases m; cases w) (auto simp: r0_def [symmetric])
    qed
  qed
qed

text \<open>A round.\<close>

lemma beat_record_step:
  fixes r :: "('a, 's) fix_receiver"
  assumes inv: "loop_inv holds drops sent d0 leaked log r k" and room: "Suc (length log) < 2 ^ 64"
  shows "\<exists>rs. length rs \<le> 1 \<and> loop_inv holds drops sent d0 leaked (log @ rs) (beat_record ops publish now r) k \<and>
    same_feed r (beat_record ops publish now r) \<and> fx_link (beat_record ops publish now r) = fx_link r \<and>
    lost_links (beat_record ops publish now r) = lost_links r"
proof (cases "fc_record_heartbeat_ns (fx_cfg r) = 0 \<or> now < fx_next_record_heartbeat_ns r")
  case True
  then show ?thesis
    using inv by (intro exI [of _ "[]"]) (simp add: beat_record_def)
next
  case False
  have p: "fix_inv holds drops d0 leaked log (fx_pipeline r)"
    using inv by (simp add: loop_inv_def)
  from heartbeat_step [OF this room refl, of now] obtain rec where
    h: "fix_inv holds drops d0 leaked (log @ [rec]) (fix_heartbeat ops publish now (fx_pipeline r))"
    by blast
  have "link_counts (fp_stats (fix_heartbeat ops publish now (fx_pipeline r))) = link_counts (fp_stats (fx_pipeline r))"
    by (simp add: fix_heartbeat_def split: prod.split)
  then show ?thesis
    using False inv h
    by (intro exI [of _ "[rec]"])
       (simp add: beat_record_def on_pipeline_def loop_inv_def receiver_ok_def same_feed_def lost_links_def link_counts_def)
qed

lemma fix_poll_once_step:
  fixes r :: "('a, 's) fix_receiver"
  assumes inv: "loop_inv holds drops sent d0 leaked log r k" and room: "round_room capacity (length log) r < 2 ^ 64"
  shows "\<exists>e r' k' leaked' rs. fix_poll_once os ops publish note_drops r k = (Inr e, r', k') \<and>
    length rs \<le> round_room capacity 0 r \<and> loop_inv holds drops sent d0 leaked' (log @ rs) r' k' \<and> same_feed r r' \<and>
    (e \<noteq> None \<longrightarrow> fx_link r' = None) \<and>
    lost_links r' = lost_links r + (if e \<noteq> None \<or> fx_link r \<noteq> None \<and> fx_link r' = None then 1 else 0)"
proof -
  obtain now k0 where t: "tcp_now os k = (now, k0)"
    by fastforce
  note inv0 = clock_step [OF inv t]
  obtain e r1 k1 leaked' rs where step:
      "(if fx_state r = Disconnected then (case try_connect os now r k0 of (e, r, k) \<Rightarrow> (Inr e, r, k))
        else pump os ops publish note_drops now r k0) = (Inr e, r1, k1)"
      "length rs \<le> capacity * unat (fc_burst (fx_cfg r))" "loop_inv holds drops sent d0 leaked' (log @ rs) r1 k1" "same_feed r r1"
      "e \<noteq> None \<longrightarrow> fx_link r1 = None"
      "lost_links r1 = lost_links r + (if e \<noteq> None \<or> fx_link r \<noteq> None \<and> fx_link r1 = None then 1 else 0)"
  proof (cases "fx_link r")
    case None
    then have "fx_state r = Disconnected"
      using inv by (simp add: loop_inv_def receiver_ok_def)
    moreover obtain e r1 k1 where "try_connect os now r k0 = (e, r1, k1)"
      by (metis prod.exhaust)
    ultimately show ?thesis
      using that [of e r1 k1 "[]" leaked] try_connect_step [OF inv0 None] None by (simp add: connected_or_counted_def)
  next
    case (Some l)
    then have "fx_state r \<noteq> Disconnected"
      using inv by (simp add: loop_inv_def receiver_ok_def)
    moreover obtain e r1 k1 leaked' rs where "pump os ops publish note_drops now r k0 = (Inr e, r1, k1)"
        "length rs \<le> capacity * unat (fc_burst (fx_cfg r))" "settled holds drops sent d0 leaked' (log @ rs) r e r1 k1"
      using pump_step [OF inv0 Some, of now] room by (auto simp: round_room_def)
    ultimately show ?thesis
      using that [of e r1 k1 rs leaked'] Some by (auto simp: settled_def)
  qed
  obtain now' k2 where t': "tcp_now os k1 = (now', k2)"
    by fastforce
  have "Suc (length (log @ rs)) < 2 ^ 64"
    using room step(2) by (simp add: round_room_def)
  from beat_record_step [OF clock_step [OF step(3) t'] this, of now'] obtain rs' where
    b: "length rs' \<le> 1" "loop_inv holds drops sent d0 leaked' ((log @ rs) @ rs') (beat_record ops publish now' r1) k2"
      "same_feed r1 (beat_record ops publish now' r1)" "fx_link (beat_record ops publish now' r1) = fx_link r1"
      "lost_links (beat_record ops publish now' r1) = lost_links r1"
    by blast
  have "fix_poll_once os ops publish note_drops r k = (Inr e, beat_record ops publish now' r1, k2)"
    using step(1) t t' by (simp add: fix_poll_once_def)
  then show ?thesis
    using b step(2,5,6) same_feed_trans [OF step(4) b(3)]
    by (intro exI [of _ e] exI [of _ "beat_record ops publish now' r1"] exI [of _ k2] exI [of _ leaked'] exI [of _ "rs @ rs'"])
       (simp add: round_room_def)
qed

text \<open>A subscription writes its message when there is a link.\<close>

lemma fix_subscribe_step:
  fixes r :: "('a, 's) fix_receiver"
  assumes inv: "loop_inv holds drops sent d0 leaked log r k" and run: "fix_subscribe os req r k = (res, r', k')"
  shows "wrote holds drops sent d0 leaked log r r' k'"
proof -
  obtain now k1 where t: "tcp_now os k = (now, k1)"
    by fastforce
  note inv1 = clock_step [OF inv t]
  obtain v r1 where e: "fx_emit (emit_market_data_request req now) r = (v, r1)"
    by fastforce
  have "emit_market_data_request req now = emit (OutMarketDataRequest req) now"
    by simp
  note step = fx_emit_step [OF inv1 this e]
  have w: "wrote holds drops sent d0 leaked log r r1 k2" if "loop_inv holds drops sent d0 leaked log r1 k2" for k2
    using step that by (simp add: wrote_def lost_links_def)
  have out: "link_send os (take n (fx_out r1)) l k1 = (x, k2) \<Longrightarrow> v = Inr n \<Longrightarrow> fx_link r = Some l \<Longrightarrow> wrote holds drops sent d0 leaked log r r1 k2"
    for n l x k2
    using w step by auto
  have quiet: "v = Inl x \<or> fx_link r = None \<Longrightarrow> wrote holds drops sent d0 leaked log r r1 k1" for x
    using w step by (cases v) auto
  show ?thesis
    using run t e step out quiet
    by (auto simp: fix_subscribe_def split: sum.splits option.splits prod.splits)
qed

text \<open>A turn of the feed thread.\<close>

lemma fix_feed_turn_step:
  fixes r :: "('a, 's) fix_receiver"
  assumes inv: "loop_inv holds drops sent d0 leaked log r k" and room: "round_room capacity (length log) r < 2 ^ 64"
  shows "\<exists>seen' r' k' leaked' rs. fix_feed_turn os ops publish note_drops req seen r k = (Inr seen', r', k') \<and>
    length rs \<le> round_room capacity 0 r \<and> loop_inv holds drops sent d0 leaked' (log @ rs) r' k' \<and> same_feed r r'"
proof -
  obtain e r1 k1 leaked' rs where p: "fix_poll_once os ops publish note_drops r k = (Inr e, r1, k1)"
      "length rs \<le> round_room capacity 0 r" "loop_inv holds drops sent d0 leaked' (log @ rs) r1 k1" "same_feed r r1"
    using fix_poll_once_step [OF inv room] by blast
  obtain v r2 k2 where s: "fix_subscribe os req r1 k1 = (v, r2, k2)"
    by (metis prod.exhaust)
  have "loop_inv holds drops sent d0 leaked' (log @ rs) r2 k2" "same_feed r r2"
    using fix_subscribe_step [OF p(3) s] same_feed_trans [OF p(4), of r2] by (simp_all add: wrote_def)
  then show ?thesis
    using p s by (cases "seen < st_logons (fp_stats (fx_pipeline r1)) \<and> fx_state r1 = LoggedOn") (auto simp: fix_feed_turn_def Let_def)
qed

end

subsection \<open>The loop on the ring\<close>

interpretation recorded: fix_loop ring_holds ring_buffer ring_sink_publish ring_sink_note_drops ring_sink_drops
  snapshot_ops adapter_implied 255 "recording os" journal_sent for os
  by unfold_locales

type_synonym feed_receiver = "(snapshot_adapter, ring_sink) fix_receiver"

definition ring_poll :: "'k tcp \<Rightarrow> feed_receiver \<Rightarrow> 'k \<Rightarrow> (adapt_error, link_error option) res \<times> feed_receiver \<times> 'k" where
  "ring_poll os = fix_poll_once os snapshot_ops ring_sink_publish ring_sink_note_drops"

text \<open>Turns of the feed thread, as long as none panics.\<close>

fun fix_turns ::
    "'k tcp \<Rightarrow> subscription_request \<Rightarrow> nat \<Rightarrow> u64 \<Rightarrow> feed_receiver \<Rightarrow> 'k \<Rightarrow> (adapt_error, u64) res \<times> feed_receiver \<times> 'k" where
  "fix_turns os req 0 seen r k = (Inr seen, r, k)"
| "fix_turns os req (Suc n) seen r k =
     (case fix_feed_turn os snapshot_ops ring_sink_publish ring_sink_note_drops req seen r k of
        (Inl x, r, k) \<Rightarrow> (Inl x, r, k)
      | (Inr seen, r, k) \<Rightarrow> fix_turns os req n seen r k)"

lemma same_room: "same_feed r r' \<Longrightarrow> round_room c n r' = round_room c n r"
  by (simp add: round_room_def same_feed_def)

lemma fix_turns_step:
  assumes "loop_inv ring_holds ring_sink_drops journal_sent d0 leaked log r st"
    and "length log + round_room 255 0 r * n < 2 ^ 64"
  shows "\<exists>seen' r' st' leaked' rs. fix_turns (recording os) req n seen r st = (Inr seen', r', st') \<and>
    length rs \<le> round_room 255 0 r * n \<and>
    loop_inv ring_holds ring_sink_drops journal_sent d0 leaked' (log @ rs) r' st' \<and> same_feed r r'"
  using assms
proof (induction n arbitrary: leaked log r st seen)
  case 0
  then show ?case
    by (intro exI [of _ seen] exI [of _ r] exI [of _ st] exI [of _ leaked] exI [of _ "[]"]) simp
next
  case (Suc n)
  have "round_room 255 (length log) r < 2 ^ 64"
    using Suc.prems(2) by (simp add: round_room_def)
  from recorded.fix_feed_turn_step [OF Suc.prems(1) this, of os req seen] obtain seen1 r1 st1 leaked1 rs where
    t: "fix_feed_turn (recording os) snapshot_ops ring_sink_publish ring_sink_note_drops req seen r st = (Inr seen1, r1, st1)"
      "length rs \<le> round_room 255 0 r" "loop_inv ring_holds ring_sink_drops journal_sent d0 leaked1 (log @ rs) r1 st1" "same_feed r r1"
    by blast
  have "length (log @ rs) + round_room 255 0 r1 * n < 2 ^ 64"
    using Suc.prems(2) t(2) by (simp add: same_room [OF t(4)])
  from Suc.IH [OF t(3) this, of seen1] obtain seen' r' st' leaked' rs' where
    ih: "fix_turns (recording os) req n seen1 r1 st1 = (Inr seen', r', st')" "length rs' \<le> round_room 255 0 r1 * n"
      "loop_inv ring_holds ring_sink_drops journal_sent d0 leaked' (log @ rs @ rs') r' st'" "same_feed r1 r'"
    by auto
  then show ?case
    using t same_feed_trans [OF t(4) ih(4)]
    by (intro exI [of _ seen'] exI [of _ r'] exI [of _ st'] exI [of _ leaked'] exI [of _ "rs @ rs'"]) (simp add: same_room [OF t(4)])
qed

lemma new_receiver_inv:
  assumes "emitter_ok em" and "ring_holds sink []"
  shows "loop_inv ring_holds ring_sink_drops journal_sent (ring_sink_drops sink) 0 []
    (fix_receiver_new cfg e em symbols ad sink) st"
  using assms fix_pipeline_new_inv [of sink symbols "fc_stale_ns cfg" ad]
  by (simp add: loop_inv_def receiver_ok_def fix_receiver_new_def)

text \<open>
  C6. Whatever the network does. Over any number of turns of the feed thread of a new receiver, on any
  operating system, with an emitter whose begin string is not empty and holds no field separator, and an
  empty ring that is never filled past its sequences: nothing panics; the ring holds exactly the records the
  counters account for, each of them valid; the receiver is connected exactly when it has a link. And the
  writes tried on the stream of an open connection, since it was opened, are one FIX session: one write for
  each message, framed whole, carrying the sequence numbers 1, 2, 3 and so on without a gap, the first of
  them a logon, and the next number is the one that follows. Every one of these writes succeeded, except
  perhaps requests for market data: up to the first request whose write failed, the counterparty was sent
  exactly this session. A failed write of any other message ends the connection; that of a request does not, so
  behind one the counterparty may see a part of a message (the finding on \<open>subscribe\<close>).
\<close>

theorem fix_session_numbered:
  assumes "emitter_ok em" and "ring_holds sink []" and "(255 * unat (fc_burst cfg) + 1) * n < 2 ^ 64"
  shows "\<exists>seen r k' journal leaked log.
    fix_turns (recording os) req n 0 (fix_receiver_new cfg e em symbols ad sink) (k, []) = (Inr seen, r, k', journal) \<and>
    receiver_ok r \<and> fix_inv ring_holds ring_sink_drops (ring_sink_drops sink) leaked log (fx_pipeline r) \<and>
    (\<forall>l. fx_link r = Some l \<longrightarrow>
       (\<exists>earlier outs oks. journal = earlier @ Opened (lk_stream l) # map (Wrote (lk_stream l)) (zip (numbered em outs) oks) \<and>
          length oks = length outs \<and> (\<forall>i<length outs. oks ! i \<or> is_request (outs ! i)) \<and>
          outs \<noteq> [] \<and> is_logon (hd outs) \<and> list_all short_message (numbered em outs) \<and>
          em_next_seq (fx_emitter r) = of_nat (Suc (length outs))))"
proof -
  let ?r = "fix_receiver_new cfg e em symbols ad sink"
  have room: "length [] + round_room 255 0 ?r * n < 2 ^ 64"
    using assms(3) by (simp add: round_room_def fix_receiver_new_def)
  have start: "loop_inv ring_holds ring_sink_drops journal_sent (ring_sink_drops sink) 0 [] ?r (k, [])"
    by (rule new_receiver_inv [OF assms(1,2)])
  obtain seen r st leaked log where t: "fix_turns (recording os) req n 0 ?r (k, []) = (Inr seen, r, st)"
      "loop_inv ring_holds ring_sink_drops journal_sent (ring_sink_drops sink) leaked log r st" "same_feed ?r r"
    using fix_turns_step [OF start room, of os req 0] by auto
  have em: "numbered (fx_emitter r) = numbered em"
    using t(3) by (intro numbered_id) (simp add: same_feed_def fix_receiver_new_def)
  have "\<exists>earlier outs oks. snd st = earlier @ Opened (lk_stream l) # map (Wrote (lk_stream l)) (zip (numbered em outs) oks) \<and>
          length oks = length outs \<and> (\<forall>i<length outs. oks ! i \<or> is_request (outs ! i)) \<and>
          outs \<noteq> [] \<and> is_logon (hd outs) \<and> list_all short_message (numbered em outs) \<and>
          em_next_seq (fx_emitter r) = of_nat (Suc (length outs))" if link: "fx_link r = Some l" for l
  proof -
    obtain outs oks where outs: "in_session (fx_emitter r) outs" "only_requests_failed outs oks"
        "journal_sent (lk_stream l) (zip (numbered em outs) oks) st"
      using t(2) link em by (auto simp: loop_inv_def)
    then obtain earlier where "snd st = earlier @ Opened (lk_stream l) # map (Wrote (lk_stream l)) (zip (numbered em outs) oks)"
      by (auto simp: journal_sent_def)
    then show ?thesis
      using outs(1,2) em
      by (intro exI [of _ earlier] exI [of _ outs] exI [of _ oks]) (simp add: in_session_def only_requests_failed_def list_all2_conv_all_nth)
  qed
  then show ?thesis
    using t(1,2) by (intro exI [of _ seen] exI [of _ r] exI [of _ "fst st"] exI [of _ "snd st"] exI [of _ leaked] exI [of _ log])
      (simp add: loop_inv_def)
qed

text \<open>An operating system on which connecting works and nothing is ever received, for the witnesses.\<close>

definition demo_tcp :: "u64 tcp" where
  "demo_tcp =
     \<lparr> tcp_addrs = \<lambda>_ port k. (Inr [AddrV4 [127, 0, 0, 1] port], k), tcp_connect = \<lambda>_ _ k. (Inr 7, k),
       tcp_peer = \<lambda>_ k. (Inr (AddrV4 [127, 0, 0, 1] 1), k), tcp_set = \<lambda>_ _ k. (Inr (), k), tcp_read = \<lambda>_ _ k. (Inl WouldBlock, k),
       tcp_write_all = \<lambda>_ _ k. (Inr (), k), tcp_flush = \<lambda>_ k. (Inr (), k), tcp_close = \<lambda>_ k. k, tcp_now = \<lambda>k. (k, k + 1000) \<rparr>"

definition demo_receiver :: feed_receiver where
  "demo_receiver =
     fix_receiver_new fix_recv_config_default \<lparr> fe_host = lit ''localhost'', fe_port = 9876 \<rparr> first_emitter symbol_filter_all
       demo_adapter demo_sink"

theorem fix_session_numbered_witness:
  "\<exists>seen r k' journal.
     fix_turns (recording demo_tcp) (feed_request [0x46] SubSnapshot 5 [[0x4B]]) 1000 0 demo_receiver (5, []) = (Inr seen, r, k', journal) \<and>
     receiver_ok r"
proof -
  have "ring_holds demo_sink []"
    using demo_holds by (simp add: demo_sink_def)
  moreover have "(255 * unat (fc_burst fix_recv_config_default) + 1) * 1000 < (2 :: nat) ^ 64"
    by (simp add: fix_recv_config_default_def)
  ultimately show ?thesis
    using fix_session_numbered [OF first_emitter_ok(1), of demo_sink fix_recv_config_default 1000 demo_tcp]
    unfolding demo_receiver_def by blast
qed

text \<open>
  C7. Every lost connection is counted once. A round never panics; an error it hands back means that the
  connection is already gone; and the counters of disconnects and of failed connects together move by
  exactly one when the round returned an error or lost the link it had, and not at all otherwise. The
  invariant of the loop is kept, and the ring gains at most 255 records for each message of the burst and
  one heartbeat.
\<close>

theorem fix_round_accounts:
  assumes "loop_inv ring_holds ring_sink_drops journal_sent d0 leaked log r st"
    and "length log + 255 * unat (fc_burst (fx_cfg r)) + 1 < 2 ^ 64"
  shows "\<exists>e r' st' leaked' rs. ring_poll (recording os) r st = (Inr e, r', st') \<and>
    (e \<noteq> None \<longrightarrow> fx_link r' = None \<and> fx_state r' = Disconnected) \<and>
    lost_links r' = lost_links r + (if e \<noteq> None \<or> fx_link r \<noteq> None \<and> fx_link r' = None then 1 else 0) \<and>
    loop_inv ring_holds ring_sink_drops journal_sent d0 leaked' (log @ rs) r' st' \<and>
    length rs \<le> 255 * unat (fc_burst (fx_cfg r)) + 1"
proof -
  have "round_room 255 (length log) r < 2 ^ 64"
    using assms(2) by (simp add: round_room_def)
  from recorded.fix_poll_once_step [OF assms(1) this, of os] obtain e r' st' leaked' rs where
    p: "ring_poll (recording os) r st = (Inr e, r', st')" "length rs \<le> round_room 255 0 r"
      "loop_inv ring_holds ring_sink_drops journal_sent d0 leaked' (log @ rs) r' st'" "e \<noteq> None \<longrightarrow> fx_link r' = None"
      "lost_links r' = lost_links r + (if e \<noteq> None \<or> fx_link r \<noteq> None \<and> fx_link r' = None then 1 else 0)"
    unfolding ring_poll_def by blast
  moreover have "fx_link r' = None \<longrightarrow> fx_state r' = Disconnected"
    using p(3) by (simp add: loop_inv_def receiver_ok_def)
  ultimately show ?thesis
    by (intro exI [of _ e] exI [of _ r'] exI [of _ st'] exI [of _ leaked'] exI [of _ rs]) (simp add: round_room_def)
qed

theorem fix_round_accounts_witness:
  "\<exists>e r' st'. ring_poll (recording demo_tcp) demo_receiver (5, []) = (Inr e, r', st') \<and>
     lost_links r' = (if e \<noteq> None then 1 else 0)"
proof -
  have "ring_holds demo_sink []"
    using demo_holds by (simp add: demo_sink_def)
  then have "loop_inv ring_holds ring_sink_drops journal_sent (ring_sink_drops demo_sink) 0 [] demo_receiver (5, [])"
    unfolding demo_receiver_def by (rule new_receiver_inv [OF first_emitter_ok(1)])
  moreover have "length ([] :: wire_record list) + 255 * unat (fc_burst (fx_cfg demo_receiver)) + 1 < 2 ^ 64"
    by (simp add: demo_receiver_def fix_receiver_new_def fix_recv_config_default_def)
  ultimately obtain e r' st' where "ring_poll (recording demo_tcp) demo_receiver (5, []) = (Inr e, r', st')"
      "lost_links r' = lost_links demo_receiver + (if e \<noteq> None \<or> fx_link demo_receiver \<noteq> None \<and> fx_link r' = None then 1 else 0)"
    using fix_round_accounts [of _ _ _ demo_receiver "(5, [])" demo_tcp] by blast
  then show ?thesis
    by (simp add: demo_receiver_def fix_receiver_new_def lost_links_def fix_pipeline_new_def fix_stats_default_def)
qed

end
