(* ===== verification/Ws_Frame.thy ===== *)
theory Ws_Frame
  imports Rust_Text
begin

text \<open>
  \<open>crates/jeed-crypto/src/recv/ws\<close>: frame headers in and masked frames out (\<open>frame.rs\<close>), and the
  reassembly of fragmented messages (\<open>assemble.rs\<close>). A frame a server sends is read where it is written;
  a frame a client sends goes through its mask, and comes out the same.
\<close>

unbundle bit_operations_syntax

subsection \<open>Opcodes and errors (frame.rs, mod.rs)\<close>

definition MAX_CONTROL_PAYLOAD :: nat where "MAX_CONTROL_PAYLOAD = 125"

datatype opcode = Continuation | Text | Binary | Close | Ping | Pong

definition opcode_from_u8 :: "u8 \<Rightarrow> opcode option" where
  "opcode_from_u8 b =
     (if b = 0x0 then Some Continuation
      else if b = 0x1 then Some Text
      else if b = 0x2 then Some Binary
      else if b = 0x8 then Some Close
      else if b = 0x9 then Some Ping
      else if b = 0xA then Some Pong
      else None)"

fun opcode_u8 :: "opcode \<Rightarrow> u8" where
  "opcode_u8 Continuation = 0x0"
| "opcode_u8 Text = 0x1"
| "opcode_u8 Binary = 0x2"
| "opcode_u8 Close = 0x8"
| "opcode_u8 Ping = 0x9"
| "opcode_u8 Pong = 0xA"

definition is_control :: "opcode \<Rightarrow> bool" where
  "is_control op \<longleftrightarrow> opcode_u8 op AND 0x8 \<noteq> 0"

datatype ws_error =
    WsReservedBits
  | WsOpcode u8
  | WsMaskedByServer
  | WsLength
  | WsFragmentedControl
  | WsControlTooLong nat
  | WsUnexpectedContinuation
  | WsInterleavedMessage
  | WsMessageTooLong nat
  | WsNoRoom
  | WsStatus u16
  | WsMalformedResponse
  | WsUpgrade
  | WsConnection
  | WsAccept
  | WsExtension
  | WsSubprotocol

text \<open>\<open>from\_be\_bytes\<close> and \<open>to\_be\_bytes\<close>, the width in bytes an argument.\<close>

definition from_be_bytes :: "bytes \<Rightarrow> 'a::len word" where
  "from_be_bytes bs = from_le_bytes (rev bs)"

definition to_be_bytes :: "nat \<Rightarrow> 'a::len word \<Rightarrow> bytes" where
  "to_be_bytes n w = rev (to_le_bytes n w)"

subsection \<open>Headers in\<close>

record ws_header =
  wh_fin :: bool
  wh_opcode :: opcode
  wh_header_len :: nat
  wh_payload_len :: nat

definition ws_header_total :: "ws_header \<Rightarrow> nat" where
  "ws_header_total h = wh_header_len h + wh_payload_len h"

text \<open>The lengths of header and payload that the seven length bits and the bytes after them give.\<close>

definition ws_lengths :: "u8 \<Rightarrow> bytes \<Rightarrow> ws_error + (nat \<times> nat) option" where
  "ws_lengths len tail =
     (if len = 126 then
        (case tail of
           hi # lo # _ \<Rightarrow> Inr (Some (4, unat (from_be_bytes [hi, lo] :: u16)))
         | _ \<Rightarrow> Inr None)
      else if len = 127 then
        (if length tail < 8 then Inr None
         else let n = from_be_bytes (take 8 tail) :: u64
              in if drop_bit 63 n \<noteq> 0 then Inl WsLength else Inr (Some (10, unat n)))
      else Inr (Some (2, unat len)))"

definition parse_header :: "bytes \<Rightarrow> ws_error + ws_header option" where
  "parse_header buf =
     (case buf of
        b0 # b1 # tail \<Rightarrow>
          (if b0 AND 0x70 \<noteq> 0 then Inl WsReservedBits
           else
             (case opcode_from_u8 (b0 AND 0x0F) of
                None \<Rightarrow> Inl (WsOpcode (b0 AND 0x0F))
              | Some op \<Rightarrow>
                  let fin = b0 AND 0x80 \<noteq> 0
                  in if b1 AND 0x80 \<noteq> 0 then Inl WsMaskedByServer
                     else
                       (case ws_lengths (b1 AND 0x7F) tail of
                          Inl e \<Rightarrow> Inl e
                        | Inr None \<Rightarrow> Inr None
                        | Inr (Some (header_len, payload_len)) \<Rightarrow>
                            if is_control op \<and> \<not> fin then Inl WsFragmentedControl
                            else if is_control op \<and> payload_len > MAX_CONTROL_PAYLOAD
                            then Inl (WsControlTooLong payload_len)
                            else Inr (Some \<lparr> wh_fin = fin, wh_opcode = op, wh_header_len = header_len,
                                             wh_payload_len = payload_len \<rparr>))))
      | _ \<Rightarrow> Inr None)"

subsection \<open>Frames out\<close>

definition framed_len :: "nat \<Rightarrow> nat" where
  "framed_len n = 2 + (if n < 126 then 0 else if n \<le> 65535 then 2 else 8) + 4 + n"

text \<open>\<open>copy\_from\_slice\<close> into a buffer from a position on.\<close>

definition copy_at :: "nat \<Rightarrow> bytes \<Rightarrow> bytes \<Rightarrow> bytes" where
  "copy_at i bs buf = take i buf @ bs @ drop (i + length bs) buf"

text \<open>The loop that copies the payload through its mask.\<close>

definition ws_mask :: "bytes \<Rightarrow> bytes \<Rightarrow> bytes" where
  "ws_mask key payload = map (\<lambda>i. payload ! i XOR key ! (i AND 3)) [0..<length payload]"

definition write_frame :: "opcode \<Rightarrow> bytes \<Rightarrow> bytes \<Rightarrow> bytes \<Rightarrow> (ws_error + nat) \<times> bytes" where
  "write_frame op payload key buf =
     (if is_control op \<and> length payload > MAX_CONTROL_PAYLOAD then (Inl (WsControlTooLong (length payload)), buf)
      else
        let total = framed_len (length payload)
        in if length buf < total then (Inl WsNoRoom, buf)
           else
             let n = length payload;
                 buf = buf[0 := 0x80 OR opcode_u8 op];
                 (buf, pos) =
                   (if n < 126 then (buf[1 := 0x80 OR word_of_nat n], 2)
                    else if n \<le> 65535 then (copy_at 2 (to_be_bytes 2 (word_of_nat n :: u16)) (buf[1 := 0x80 OR 126]), 4)
                    else (copy_at 2 (to_be_bytes 8 (word_of_nat n :: u64)) (buf[1 := 0x80 OR 127]), 10));
                 buf = copy_at pos key buf;
                 pos = pos + 4
             in (Inr total, copy_at pos (ws_mask key payload) buf))"

definition write_close :: "u16 \<Rightarrow> bytes \<Rightarrow> bytes \<Rightarrow> (ws_error + nat) \<times> bytes" where
  "write_close code key buf = write_frame Close (to_be_bytes 2 code) key buf"

fun close_code :: "bytes \<Rightarrow> u16 option" where
  "close_code (hi # lo # _) = Some (from_be_bytes [hi, lo])"
| "close_code _ = None"

subsection \<open>Reassembly (assemble.rs)\<close>

record assembly =
  as_buf :: bytes
  as_len :: nat
  as_open :: "opcode option"

definition assembly_new :: "nat \<Rightarrow> assembly" where
  "assembly_new capacity = \<lparr> as_buf = replicate capacity 0, as_len = 0, as_open = None \<rparr>"

definition assembly_bytes :: "assembly \<Rightarrow> bytes" where
  "assembly_bytes a = take (as_len a) (as_buf a)"

definition assembly_is_open :: "assembly \<Rightarrow> bool" where
  "assembly_is_open a \<longleftrightarrow> as_open a \<noteq> None"

definition assembly_reset :: "assembly \<Rightarrow> assembly" where
  "assembly_reset a = a\<lparr> as_len := 0, as_open := None \<rparr>"

definition assembly_push :: "bytes \<Rightarrow> assembly \<Rightarrow> (ws_error + unit) \<times> assembly" where
  "assembly_push fragment a =
     (let stop = as_len a + length fragment
      in if stop > length (as_buf a) then (Inl (WsMessageTooLong (length (as_buf a))), assembly_reset a)
         else (Inr (), a\<lparr> as_buf := copy_at (as_len a) fragment (as_buf a), as_len := stop \<rparr>))"

definition assembly_begin :: "opcode \<Rightarrow> bytes \<Rightarrow> assembly \<Rightarrow> (ws_error + unit) \<times> assembly" where
  "assembly_begin op fragment a =
     (if assembly_is_open a then (Inl WsInterleavedMessage, a)
      else assembly_push fragment (a\<lparr> as_len := 0, as_open := Some op \<rparr>))"

definition assembly_append :: "bytes \<Rightarrow> assembly \<Rightarrow> (ws_error + unit) \<times> assembly" where
  "assembly_append fragment a =
     (if as_open a = None then (Inl WsUnexpectedContinuation, a) else assembly_push fragment a)"

definition assembly_take :: "assembly \<Rightarrow> (opcode \<times> bytes) option \<times> assembly" where
  "assembly_take a =
     (case as_open a of
        None \<Rightarrow> (None, a)
      | Some op \<Rightarrow> (Some (op, assembly_bytes a), a\<lparr> as_open := None \<rparr>))"

subsection \<open>The wire format\<close>

text \<open>
  The frames of the protocol, written from its picture (RFC 6455, section 5) and not from the code: what a
  server sends, and what a client sends with the masking key \<open>key\<close>. Octet \<open>i\<close> of a payload is masked with octet
  \<open>i mod 4\<close> of the key.
\<close>

definition ws_length_bytes :: "nat \<Rightarrow> bytes" where
  "ws_length_bytes n =
     (if n < 126 then [word_of_nat n]
      else if n < 2 ^ 16 then 126 # rev (nat_to_le 2 n)
      else 127 # rev (nat_to_le 8 n))"

definition ws_head :: "bool \<Rightarrow> opcode \<Rightarrow> nat \<Rightarrow> bytes" where
  "ws_head fin op n = (opcode_u8 op OR (if fin then 0x80 else 0)) # ws_length_bytes n"

definition ws_frame :: "bool \<Rightarrow> opcode \<Rightarrow> bytes \<Rightarrow> bytes" where
  "ws_frame fin op payload = ws_head fin op (length payload) @ payload"

fun set_mask_bit :: "bytes \<Rightarrow> bytes" where
  "set_mask_bit (b0 # b1 # tail) = b0 # (b1 OR 0x80) # tail"
| "set_mask_bit bs = bs"

definition rfc_masked :: "bytes \<Rightarrow> bytes \<Rightarrow> bytes" where
  "rfc_masked key payload = map (\<lambda>(i, b). b XOR key ! (i mod 4)) (enumerate 0 payload)"

definition ws_client_frame :: "opcode \<Rightarrow> bytes \<Rightarrow> bytes \<Rightarrow> bytes" where
  "ws_client_frame op key payload =
     set_mask_bit (ws_head True op (length payload)) @ key @ rfc_masked key payload"

subsection \<open>Bits of a header\<close>

lemma opcode_from_u8_u8 [simp]: "opcode_from_u8 (opcode_u8 op) = Some op"
  by (cases op) (simp_all add: opcode_from_u8_def)

lemma opcode_from_u8_Some: "opcode_from_u8 b = Some op \<Longrightarrow> opcode_u8 op = b"
  by (auto simp: opcode_from_u8_def split: if_splits)

lemma first_byte:
  "(opcode_u8 op OR (if fin then 0x80 else 0)) AND 0x70 = 0"
  "(opcode_u8 op OR (if fin then 0x80 else 0)) AND 0x0F = opcode_u8 op"
  "(opcode_u8 op OR (if fin then 0x80 else 0)) AND 0x80 \<noteq> 0 \<longleftrightarrow> fin"
  by (cases op; simp)+

lemma is_control_simps [simp]:
  "\<not> is_control Continuation" "\<not> is_control Text" "\<not> is_control Binary"
  "is_control Close" "is_control Ping" "is_control Pong"
  by (simp_all add: is_control_def)

lemma low_bits:
  assumes "n < 128"
  shows "(word_of_nat n :: u8) AND 0x80 = 0" "(word_of_nat n :: u8) AND 0x7F = word_of_nat n"
    "unat (word_of_nat n :: u8) = n"
proof -
  show n: "unat (word_of_nat n :: u8) = n"
    using assms by (simp add: unat_of_nat)
  have m: "(word_of_nat n :: u8) AND mask 7 = word_of_nat n"
    using assms by (simp add: word_unat_eq_iff unat_of_nat take_bit_eq_mod flip: take_bit_eq_mask)
      (simp add: unat_mod n)
  then show "(word_of_nat n :: u8) AND 0x7F = word_of_nat n"
    by (simp add: mask_eq_exp_minus_1)
  have "(word_of_nat n :: u8) AND 0x80 = (word_of_nat n AND mask 7) AND 0x80"
    by (simp only: m)
  also have "\<dots> = 0"
    by (simp only: and.assoc) (simp add: mask_eq_exp_minus_1)
  finally show "(word_of_nat n :: u8) AND 0x80 = 0" .
qed

lemma be_nat_to_le:
  assumes "n < 256 ^ k" and "LENGTH('a::len) = 8 * k"
  shows "unat (from_be_bytes (rev (nat_to_le k n)) :: 'a word) = n"
  using assms unat_from_le_bytes [where 'a = 'a, of "nat_to_le k n"] by (simp add: from_be_bytes_def le_val_nat_to_le)

lemma ws_length_bytes_read:
  assumes "n < 2 ^ 63"
  obtains b more where "ws_length_bytes n = b # more" "b AND 0x80 = 0"
    "\<And>tail. ws_lengths (b AND 0x7F) (more @ tail) = Inr (Some (2 + length more, n))"
    "\<And>k. k < length more \<Longrightarrow> ws_lengths (b AND 0x7F) (take k more) = Inr None"
proof -
  consider (short) "n < 126" | (middle) "126 \<le> n" "n < 2 ^ 16" | (long) "2 ^ 16 \<le> n" by linarith
  then show thesis
  proof cases
    case short
    then have "(word_of_nat n :: u8) \<noteq> 126" "(word_of_nat n :: u8) \<noteq> 127"
      by (auto simp: word_unat_eq_iff low_bits)
    then show thesis
      using short low_bits [of n] by (intro that [of "word_of_nat n" "[]"]) (simp_all add: ws_length_bytes_def ws_lengths_def)
  next
    case middle
    obtain hi lo where bs: "rev (nat_to_le 2 n) = [hi, lo]"
      using length_nat_to_le [of 2 n] by (auto simp: numeral_2_eq_2)
    then have "unat (from_be_bytes [hi, lo] :: u16) = n"
      using be_nat_to_le [where 'a = 16, of n 2] middle by simp
    then show thesis
      using middle bs
      by (intro that [of "126" "[hi, lo]"]) (auto simp: ws_length_bytes_def ws_lengths_def less_Suc_eq split: list.split)
  next
    case long
    define w where "w = (from_be_bytes (rev (nat_to_le 8 n)) :: u64)"
    have "unat w = n"
      using be_nat_to_le [where 'a = 64, of n 8] assms by (simp add: w_def)
    moreover from this have "drop_bit 63 w = 0"
      using assms by (simp add: word_unat_eq_iff drop_bit_eq_div unat_div)
    ultimately show thesis
      using long by (intro that [of "127" "rev (nat_to_le 8 n)"]) (simp_all add: ws_length_bytes_def ws_lengths_def w_def Let_def)
  qed
qed

lemma parse_header_frame:
  assumes "n < 2 ^ 63" and "is_control op \<longrightarrow> fin \<and> n \<le> MAX_CONTROL_PAYLOAD"
  shows "parse_header (ws_head fin op n @ tail) =
    Inr (Some \<lparr> wh_fin = fin, wh_opcode = op, wh_header_len = length (ws_head fin op n), wh_payload_len = n \<rparr>)"
    "k < length (ws_head fin op n) \<Longrightarrow> parse_header (take k (ws_head fin op n)) = Inr None"
proof -
  obtain b more where b: "ws_length_bytes n = b # more" "b AND 0x80 = 0"
    "\<And>tail. ws_lengths (b AND 0x7F) (more @ tail) = Inr (Some (2 + length more, n))"
    "\<And>k. k < length more \<Longrightarrow> ws_lengths (b AND 0x7F) (take k more) = Inr None"
    using ws_length_bytes_read [OF assms(1)] by blast
  show "parse_header (ws_head fin op n @ tail) =
    Inr (Some \<lparr> wh_fin = fin, wh_opcode = op, wh_header_len = length (ws_head fin op n), wh_payload_len = n \<rparr>)"
    using assms(2) by (auto simp add: parse_header_def ws_head_def b first_byte Let_def)
  show "parse_header (take k (ws_head fin op n)) = Inr None" if "k < length (ws_head fin op n)"
  proof -
    have "k < 2 \<or> (\<exists>j. k = Suc (Suc j) \<and> j < length more)"
      using that by (cases k; cases "k - 1") (auto simp: ws_head_def b)
    then consider "k < 2" | j where "k = Suc (Suc j)" "j < length more"
      by blast
    then show ?thesis
      by cases (auto simp: parse_header_def ws_head_def b first_byte Let_def take_Cons' split: list.split)
  qed
qed

text \<open>What a header says stands in its two bytes.\<close>

lemma parse_header_Some:
  assumes "parse_header buf = Inr (Some h)"
  obtains b0 b1 tail where "buf = b0 # b1 # tail" "b0 AND 0x70 = 0" "opcode_u8 (wh_opcode h) = b0 AND 0x0F"
    "wh_fin h \<longleftrightarrow> b0 AND 0x80 \<noteq> 0" "b1 AND 0x80 = 0"
    "ws_lengths (b1 AND 0x7F) tail = Inr (Some (wh_header_len h, wh_payload_len h))"
    "is_control (wh_opcode h) \<longrightarrow> wh_fin h \<and> wh_payload_len h \<le> MAX_CONTROL_PAYLOAD"
  using assms
  by (auto simp: parse_header_def Let_def not_less dest: opcode_from_u8_Some
      split: list.splits if_splits option.splits sum.splits prod.splits)

lemma ws_lengths_header: "ws_lengths b tail = Inr (Some (h, p)) \<Longrightarrow> 2 \<le> h \<and> h \<le> 2 + length tail \<and> h \<le> 10"
  by (auto simp: ws_lengths_def Let_def split: if_splits list.splits)

lemma parse_header_len:
  assumes "parse_header buf = Inr (Some h)"
  shows "2 \<le> wh_header_len h" "wh_header_len h \<le> length buf" "wh_header_len h \<le> 10"
  using parse_header_Some [OF assms] ws_lengths_header by (metis add.commute length_Cons add_2_eq_Suc')+

subsection \<open>Masks and slices\<close>

lemma length_copy_at [simp]: "i + length bs \<le> length buf \<Longrightarrow> length (copy_at i bs buf) = length buf"
  by (simp add: copy_at_def)

lemma copy_at_after: "length pre = i \<Longrightarrow> length mid = length bs \<Longrightarrow> copy_at i bs (pre @ mid @ post) = pre @ bs @ post"
  by (simp add: copy_at_def)

lemma length_ws_mask [simp]: "length (ws_mask key payload) = length payload"
  by (simp add: ws_mask_def)

lemma ws_mask_rfc: "ws_mask key payload = rfc_masked key payload"
proof (rule nth_equalityI)
  fix i
  assume "i < length (ws_mask key payload)"
  moreover have "i AND 3 = i mod 4"
    using take_bit_eq_mask [of 2 i] take_bit_eq_mod [of 2 i] by (simp add: mask_eq_exp_minus_1)
  ultimately show "ws_mask key payload ! i = rfc_masked key payload ! i"
    by (simp add: ws_mask_def rfc_masked_def nth_enumerate_eq)
qed (simp add: ws_mask_def rfc_masked_def)

lemma ws_client_frame_eq:
  "ws_client_frame op key payload = set_mask_bit (ws_head True op (length payload)) @ key @ ws_mask key payload"
  by (simp add: ws_client_frame_def ws_mask_rfc)

lemma length_rfc_masked [simp]: "length (rfc_masked key payload) = length payload"
  by (simp add: rfc_masked_def)

lemma rfc_masked_involution [simp]: "rfc_masked key (rfc_masked key payload) = payload"
  by (rule nth_equalityI) (simp_all add: rfc_masked_def nth_enumerate_eq xor.assoc)

lemma length_ws_length_bytes: "length (ws_length_bytes n) = (if n < 126 then 1 else if n \<le> 65535 then 3 else 9)"
  by (simp add: ws_length_bytes_def)

lemma ws_client_frame_parts:
  obtains b more where "ws_length_bytes (length payload) = b # more"
    "ws_client_frame op key payload = (opcode_u8 op OR 0x80) # (b OR 0x80) # more @ key @ ws_mask key payload"
    "framed_len (length payload) = 6 + length more + length payload"
proof (cases "ws_length_bytes (length payload)")
  case Nil
  then show thesis
    using length_ws_length_bytes [of "length payload"] by (simp split: if_splits)
next
  case (Cons b more)
  then show thesis
    using length_ws_length_bytes [of "length payload"]
    by (intro that [OF Cons]) (auto simp: ws_client_frame_eq ws_head_def framed_len_def split: if_splits)
qed

lemma take_copy_at: "i \<le> length buf \<Longrightarrow> take (i + length bs) (copy_at i bs buf) = take i buf @ bs"
  by (simp add: copy_at_def)

lemma drop_copy_at: "i \<le> length buf \<Longrightarrow> i + length bs \<le> j \<Longrightarrow> drop j (copy_at i bs buf) = drop j buf"
  by (simp add: copy_at_def)

lemma two_updates: "2 \<le> length buf \<Longrightarrow> take 2 (buf[0 := a, 1 := b]) = [a, b]"
  by (cases buf; cases "tl buf") auto

text \<open>After the two bytes and the length come the key and the masked payload.\<close>

lemma write_rest:
  assumes "take pos buf = pre" "pos + 4 + length payload \<le> length buf" "length key = 4"
  shows "copy_at (pos + 4) (ws_mask key payload) (copy_at pos key buf) =
    pre @ key @ ws_mask key payload @ drop (pos + 4 + length payload) buf"
proof -
  have "take (pos + 4) (copy_at pos key buf) = pre @ key"
    using take_copy_at [of pos buf key] assms by simp
  moreover have "drop (pos + 4 + length payload) (copy_at pos key buf) = drop (pos + 4 + length payload) buf"
    using drop_copy_at [of pos buf key] assms by simp
  ultimately show ?thesis
    by (simp add: copy_at_def [of "pos + 4"])
qed

lemma to_be_bytes_nat: "n < 256 ^ k \<Longrightarrow> LENGTH('a::len) = 8 * k \<Longrightarrow> to_be_bytes k (word_of_nat n :: 'a word) = rev (nat_to_le k n)"
  by (simp add: to_be_bytes_def to_le_bytes_def unat_of_nat take_bit_eq_mod power_mult)

lemma write_frame_spec:
  assumes "length key = 4" "length payload < 2 ^ 64" "is_control op \<longrightarrow> length payload \<le> MAX_CONTROL_PAYLOAD"
    "framed_len (length payload) \<le> length buf"
  shows "write_frame op payload key buf =
    (Inr (framed_len (length payload)), ws_client_frame op key payload @ drop (framed_len (length payload)) buf)"
proof -
  let ?n = "length payload"
  define buf1 where "buf1 b = buf[0 := 0x80 OR opcode_u8 op, 1 := b]" for b
  have two: "take 2 (buf1 b) = [0x80 OR opcode_u8 op, b]" "length (buf1 b) = length buf" "2 \<le> length buf" for b
  proof -
    show "2 \<le> length buf"
      using assms(4) by (simp add: framed_len_def)
    then show "take 2 (buf1 b) = [0x80 OR opcode_u8 op, b]" "length (buf1 b) = length buf"
      unfolding buf1_def by (simp_all only: two_updates length_list_update)
  qed
  have drp: "2 \<le> j \<Longrightarrow> drop j (buf1 b) = drop j buf" for j b
    by (simp add: buf1_def)
  have guard: "\<not> (is_control op \<and> ?n > MAX_CONTROL_PAYLOAD)" "\<not> length buf < framed_len ?n"
    using assms by auto
  have ext: "take (2 + length bs) (copy_at 2 bs (buf1 b)) = [0x80 OR opcode_u8 op, b] @ bs"
    "2 + length bs \<le> j \<Longrightarrow> drop j (copy_at 2 bs (buf1 b)) = drop j buf" for bs b j
    using take_copy_at [of 2 "buf1 b" bs] drop_copy_at [of 2 "buf1 b" bs j] two(1,2) [of b] two(3) drp [of j b] by simp_all
  consider (short) "?n < 126" | (middle) "126 \<le> ?n" "?n \<le> 65535" | (long) "65535 < ?n" by linarith
  then show ?thesis
  proof cases
    case short
    have "write_frame op payload key buf =
        (Inr (framed_len ?n), copy_at (2 + 4) (ws_mask key payload) (copy_at 2 key (buf1 (0x80 OR word_of_nat ?n))))"
      unfolding write_frame_def using guard short by (simp add: buf1_def Let_def)
    also have "\<dots> = (Inr (framed_len ?n), ws_client_frame op key payload @ drop (framed_len ?n) buf)"
      using write_rest [OF two(1), of payload "0x80 OR word_of_nat ?n" key] assms short two
      by (simp add: drp framed_len_def ws_client_frame_eq ws_head_def ws_length_bytes_def or.commute)
    finally show ?thesis .
  next
    case middle
    have bs: "to_be_bytes 2 (word_of_nat ?n :: u16) = rev (nat_to_le 2 ?n)"
      using middle by (simp add: to_be_bytes_nat)
    have "write_frame op payload key buf =
        (Inr (framed_len ?n), copy_at (4 + 4) (ws_mask key payload)
           (copy_at 4 key (copy_at 2 (to_be_bytes 2 (word_of_nat ?n :: u16)) (buf1 (0x80 OR 126)))))"
      unfolding write_frame_def using guard middle by (simp add: buf1_def Let_def)
    also have "\<dots> = (Inr (framed_len ?n), ws_client_frame op key payload @ drop (framed_len ?n) buf)"
      using write_rest [OF ext(1) [of "rev (nat_to_le 2 ?n)" "0x80 OR 126"], of payload key] assms middle two
      by (simp add: bs ext framed_len_def ws_client_frame_eq ws_head_def ws_length_bytes_def or.commute)
    finally show ?thesis .
  next
    case long
    have bs: "to_be_bytes 8 (word_of_nat ?n :: u64) = rev (nat_to_le 8 ?n)"
      using assms(2) by (simp add: to_be_bytes_nat)
    have "write_frame op payload key buf =
        (Inr (framed_len ?n), copy_at (10 + 4) (ws_mask key payload)
           (copy_at 10 key (copy_at 2 (to_be_bytes 8 (word_of_nat ?n :: u64)) (buf1 (0x80 OR 127)))))"
      unfolding write_frame_def using guard long by (simp add: buf1_def Let_def)
    also have "\<dots> = (Inr (framed_len ?n), ws_client_frame op key payload @ drop (framed_len ?n) buf)"
      using write_rest [OF ext(1) [of "rev (nat_to_le 8 ?n)" "0x80 OR 127"], of payload key] assms long two
      by (simp add: bs ext framed_len_def ws_client_frame_eq ws_head_def ws_length_bytes_def or.commute)
    finally show ?thesis .
  qed
qed

lemma write_frame_total:
  assumes "length key = 4" "length payload < 2 ^ 64" "is_control op \<longrightarrow> length payload \<le> MAX_CONTROL_PAYLOAD"
  shows "write_frame op payload key buf =
    (if length buf < framed_len (length payload) then (Inl WsNoRoom, buf)
     else (Inr (framed_len (length payload)), ws_client_frame op key payload @ drop (framed_len (length payload)) buf))"
proof (cases "length buf < framed_len (length payload)")
  case True
  moreover have "\<not> (is_control op \<and> length payload > MAX_CONTROL_PAYLOAD)"
    using assms(3) by auto
  ultimately show ?thesis
    unfolding write_frame_def by simp
qed (use write_frame_spec assms in simp)

lemma length_ws_client_frame:
  assumes "length key = 4"
  shows "length (ws_client_frame op key payload) = framed_len (length payload)"
  by (rule ws_client_frame_parts [of payload op key]) (simp add: assms)

subsection \<open>What reassembly keeps\<close>

definition assembly_ok :: "assembly \<Rightarrow> bool" where
  "assembly_ok a \<longleftrightarrow> as_len a \<le> length (as_buf a)"

lemma assembly_new_ok [simp]: "assembly_ok (assembly_new n)" "length (as_buf (assembly_new n)) = n"
  "as_open (assembly_new n) = None"
  by (simp_all add: assembly_ok_def assembly_new_def)

lemma assembly_reset_ok [simp]: "assembly_ok (assembly_reset a)" "as_buf (assembly_reset a) = as_buf a"
  "as_open (assembly_reset a) = None"
  by (simp_all add: assembly_ok_def assembly_reset_def)

lemma assembly_push_spec:
  assumes "assembly_ok a"
  shows "length (assembly_bytes a) + length fragment \<le> length (as_buf a) \<Longrightarrow>
      \<exists>a'. assembly_push fragment a = (Inr (), a') \<and> assembly_ok a' \<and> length (as_buf a') = length (as_buf a) \<and>
        as_open a' = as_open a \<and> assembly_bytes a' = assembly_bytes a @ fragment"
    "length (as_buf a) < length (assembly_bytes a) + length fragment \<Longrightarrow>
      assembly_push fragment a = (Inl (WsMessageTooLong (length (as_buf a))), assembly_reset a)"
  using assms by (auto simp: assembly_ok_def assembly_push_def assembly_bytes_def copy_at_def Let_def)

lemma assembly_begin_spec:
  assumes "assembly_ok a" "as_open a = None" "length fragment \<le> length (as_buf a)"
  shows "\<exists>a'. assembly_begin op fragment a = (Inr (), a') \<and> assembly_ok a' \<and>
    length (as_buf a') = length (as_buf a) \<and> as_open a' = Some op \<and> assembly_bytes a' = fragment"
  using assembly_push_spec(1) [of "a\<lparr> as_len := 0, as_open := Some op \<rparr>" fragment] assms
  by (auto simp: assembly_begin_def assembly_is_open_def assembly_ok_def assembly_bytes_def)

lemma assembly_append_spec:
  assumes "assembly_ok a" "as_open a = Some op" "length (assembly_bytes a) + length fragment \<le> length (as_buf a)"
  shows "\<exists>a'. assembly_append fragment a = (Inr (), a') \<and> assembly_ok a' \<and>
    length (as_buf a') = length (as_buf a) \<and> as_open a' = Some op \<and> assembly_bytes a' = assembly_bytes a @ fragment"
  using assembly_push_spec(1) [of a fragment] assms by (auto simp: assembly_append_def)

lemma assembly_take_spec:
  assumes "as_open a = Some op"
  shows "assembly_take a = (Some (op, assembly_bytes a), a\<lparr> as_open := None \<rparr>)"
    "assembly_ok (a\<lparr> as_open := None \<rparr>) = assembly_ok a"
  using assms by (simp_all add: assembly_take_def assembly_ok_def)

subsection \<open>Frames are read as they were written\<close>

text \<open>
  How a server reads a frame, again from the picture of the protocol: the numbers its bytes hold, the length in
  network order, and the payload with the mask taken off. \<open>None\<close> is a frame a server has to refuse.
\<close>

definition be_value :: "bytes \<Rightarrow> nat" where
  "be_value bs = foldl (\<lambda>v b. 256 * v + unat b) 0 bs"

definition rfc_opcode :: "nat \<Rightarrow> opcode option" where
  "rfc_opcode = map_of [(0, Continuation), (1, Text), (2, Binary), (8, Close), (9, Ping), (10, Pong)]"

definition server_reads :: "bytes \<Rightarrow> (opcode \<times> bytes) option" where
  "server_reads bs =
     (case bs of
        b0 # b1 # tail \<Rightarrow>
          let short = unat b1 mod 128;
              extended = (if short = 126 then 2 else if short = 127 then 8 else 0);
              n = (if extended = 0 then short else be_value (take extended tail));
              key = take 4 (drop extended tail);
              masked = drop (extended + 4) tail
          in if unat b0 div 128 = 1 \<and> unat b0 div 16 mod 8 = 0 \<and> unat b1 div 128 = 1 \<and> length key = 4 \<and> length masked = n
             then map_option (\<lambda>op. (op, rfc_masked key masked)) (rfc_opcode (unat b0 mod 16))
             else None
      | _ \<Rightarrow> None)"

lemma be_value_rev: "be_value (rev bs) = le_val bs"
  by (induction bs) (simp_all add: be_value_def)

lemma first_byte_value:
  "unat (opcode_u8 op OR 0x80) div 128 = 1" "unat (opcode_u8 op OR 0x80) div 16 mod 8 = 0"
  "rfc_opcode (unat (opcode_u8 op OR 0x80) mod 16) = Some op"
  by (cases op; simp add: rfc_opcode_def)+

lemma masked_length_value:
  assumes "n < 128"
  shows "unat (word_of_nat n OR 0x80 :: u8) = n + 128"
proof -
  have "(word_of_nat n :: u8) OR 0x80 = word_of_nat n + 0x80"
    using disjunctive_add_eq_or [of "word_of_nat n :: u8" "0x80"] low_bits(1) [OF assms] by simp
  then show ?thesis
    using assms low_bits(3) [OF assms] by (simp add: unat_word_ariths)
qed

lemma be_value_length:
  assumes "n < 256 ^ k"
  shows "be_value (rev (nat_to_le k n)) = n" "length (rev (nat_to_le k n)) = k"
  using assms by (simp_all add: be_value_rev le_val_nat_to_le)

lemma server_reads_client_frame:
  assumes "length key = 4" "length payload < 2 ^ 63"
  shows "server_reads (ws_client_frame op key payload) = Some (op, payload)"
proof -
  let ?n = "length payload" and ?b0 = "opcode_u8 op OR 0x80"
  have read: "server_reads (?b0 # b1 # more @ key @ rfc_masked key payload) = Some (op, payload)"
    if "unat b1 div 128 = 1" "length more = (if unat b1 mod 128 = 126 then 2 else if unat b1 mod 128 = 127 then 8 else 0)"
      "?n = (if more = [] then unat b1 mod 128 else be_value more)" for b1 more
    using that assms(1) first_byte_value [of op] by (auto simp: server_reads_def Let_def split: if_splits)
  consider (short) "?n < 126" | (middle) "126 \<le> ?n" "?n < 2 ^ 16" | (long) "2 ^ 16 \<le> ?n" by linarith
  then show ?thesis
  proof cases
    case short
    then show ?thesis
      using read [of "word_of_nat ?n OR 0x80" "[]"] masked_length_value [of ?n]
      by (simp add: ws_client_frame_def ws_head_def ws_length_bytes_def)
  next
    case middle
    define more where bytes: "more = rev (nat_to_le 2 ?n)"
    then have more: "be_value more = ?n" "length more = 2"
      using be_value_length [of ?n 2] middle by simp_all
    then have "more \<noteq> []"
      by auto
    then show ?thesis
      using read [of "0xFE" more] middle more by (auto simp: ws_client_frame_def ws_head_def ws_length_bytes_def simp flip: bytes)
  next
    case long
    define more where bytes: "more = rev (nat_to_le 8 ?n)"
    then have more: "be_value more = ?n" "length more = 8"
      using be_value_length [of ?n 8] assms(2) by simp_all
    then have "more \<noteq> []"
      by auto
    then show ?thesis
      using read [of "0xFF" more] long more by (auto simp: ws_client_frame_def ws_head_def ws_length_bytes_def simp flip: bytes)
  qed
qed

text \<open>
  C16. Frames are read as they were written, in both directions. The frame of a server is decoded at the
  head of whatever is in the buffer, with its exact lengths, whichever of the three length encodings it
  uses; a header of which bytes are missing is waited for. A frame the client writes takes exactly the
  promised bytes, leaves the rest of the buffer alone, and a server - which reads the bytes as the protocol
  draws them and takes the mask off octet by octet - reads the opcode and the payload back; a buffer too
  short is refused untouched. Payloads are shorter than \<open>2 ^ 63\<close> bytes, those of control frames than 126.
\<close>

theorem ws_frame_roundtrip:
  assumes "length key = 4" "length payload < 2 ^ 63" "is_control op \<longrightarrow> fin \<and> length payload \<le> MAX_CONTROL_PAYLOAD"
  shows "(\<exists>h. parse_header (ws_frame fin op payload @ tail) = Inr (Some h) \<and> wh_fin h = fin \<and> wh_opcode h = op \<and>
        ws_header_total h = length (ws_frame fin op payload) \<and>
        take (wh_payload_len h) (drop (wh_header_len h) (ws_frame fin op payload @ tail)) = payload) \<and>
    (k < length (ws_frame fin op payload) - length payload \<longrightarrow>
        parse_header (take k (ws_frame fin op payload)) = Inr None) \<and>
    write_frame op payload key buf =
      (if length buf < framed_len (length payload) then (Inl WsNoRoom, buf)
       else (Inr (framed_len (length payload)), ws_client_frame op key payload @ drop (framed_len (length payload)) buf)) \<and>
    length (ws_client_frame op key payload) = framed_len (length payload) \<and>
    server_reads (ws_client_frame op key payload) = Some (op, payload)"
proof (intro conjI impI)
  note head = parse_header_frame [OF assms(2), of op fin]
  show "\<exists>h. parse_header (ws_frame fin op payload @ tail) = Inr (Some h) \<and> wh_fin h = fin \<and> wh_opcode h = op \<and>
      ws_header_total h = length (ws_frame fin op payload) \<and>
      take (wh_payload_len h) (drop (wh_header_len h) (ws_frame fin op payload @ tail)) = payload"
    using head(1) [of "payload @ tail"] assms(3) by (simp add: ws_frame_def ws_header_total_def)
  show "parse_header (take k (ws_frame fin op payload)) = Inr None"
    if "k < length (ws_frame fin op payload) - length payload"
    using head(2) [of k] assms(3) that by (simp add: ws_frame_def)
  show "write_frame op payload key buf =
      (if length buf < framed_len (length payload) then (Inl WsNoRoom, buf)
       else (Inr (framed_len (length payload)), ws_client_frame op key payload @ drop (framed_len (length payload)) buf))"
    using write_frame_total [of key payload op buf] assms by simp
  show "length (ws_client_frame op key payload) = framed_len (length payload)"
    using length_ws_client_frame assms(1) by blast
  show "server_reads (ws_client_frame op key payload) = Some (op, payload)"
    using server_reads_client_frame assms(1,2) by blast
qed

lemma demo_client_frame:
  "ws_client_frame Ping [1, 2, 3, 4] [106, 101, 101, 100] = [0x89, 0x84, 1, 2, 3, 4, 107, 103, 102, 96]"
  by code_simp

theorem ws_frame_roundtrip_witness:
  "write_frame Ping [106, 101, 101, 100] [1, 2, 3, 4] (replicate 10 0 @ [7, 7]) =
     (Inr 10, [0x89, 0x84, 1, 2, 3, 4, 107, 103, 102, 96, 7, 7]) \<and>
   server_reads [0x89, 0x84, 1, 2, 3, 4, 107, 103, 102, 96] = Some (Ping, [106, 101, 101, 100])"
proof -
  have "framed_len (length [106, 101, 101, 100 :: u8]) = 10"
    by (simp add: framed_len_def)
  then show ?thesis
    using ws_frame_roundtrip [of "[1, 2, 3, 4]" "[106, 101, 101, 100]" Ping True "[]" 0 "replicate 10 0 @ [7, 7]"]
    by (simp add: MAX_CONTROL_PAYLOAD_def demo_client_frame)
qed

end
