(* ===== verification/Ws_Handshake.thy ===== *)
theory Ws_Handshake
  imports Ws_Frame
begin

text \<open>
  \<open>crates/jeed-crypto/src/recv\<close>: the URL a connection is made to (\<open>endpoint.rs\<close>) and the opening
  handshake (\<open>ws/handshake.rs\<close>, \<open>ws/sha1.rs\<close>): the request that is sent and the response that is let in.
\<close>

unbundle bit_operations_syntax

subsection \<open>Slices\<close>

fun strip_prefix :: "'a list \<Rightarrow> 'a list \<Rightarrow> 'a list option" where
  "strip_prefix [] xs = Some xs"
| "strip_prefix (p # ps) [] = None"
| "strip_prefix (p # ps) (x # xs) = (if p = x then strip_prefix ps xs else None)"

text \<open>\<open>chunks\_exact\<close> and its \<open>remainder\<close>.\<close>

function chunks_exact :: "nat \<Rightarrow> 'a list \<Rightarrow> 'a list list" where
  "chunks_exact n xs = (if n = 0 \<or> length xs < n then [] else take n xs # chunks_exact n (drop n xs))"
  by pat_completeness auto
termination
  by (relation "measure (length \<circ> snd)") auto

declare chunks_exact.simps [simp del]

definition chunks_remainder :: "nat \<Rightarrow> 'a list \<Rightarrow> 'a list" where
  "chunks_remainder n xs = drop (length xs div n * n) xs"

subsection \<open>Endpoints (endpoint.rs)\<close>

record ws_endpoint =
  we_host :: chars
  we_port :: u16
  we_path :: chars
  we_tls :: bool

datatype ws_endpoint_error = WsScheme | WsEmptyHost | WsBadPort | WsUnbracketed

definition ws_default_port :: "bool \<Rightarrow> u16" where
  "ws_default_port tls = (if tls then 443 else 80)"

definition ws_endpoint_show :: "ws_endpoint \<Rightarrow> chars" where
  "ws_endpoint_show e =
     (let scheme = lit (if we_tls e then ''wss'' else ''ws'');
          host = (if 58 \<in> set (we_host e) then lit ''['' @ we_host e @ lit '']'' else we_host e)
      in scheme @ lit ''://'' @ host @ lit '':'' @ dec_chars (unat (we_port e)) @ we_path e)"

text \<open>The scheme, then the authority and the path, then the host and the text of a port.\<close>

definition ws_scheme :: "chars \<Rightarrow> (bool \<times> chars) option" where
  "ws_scheme s =
     (case strip_prefix (lit ''wss://'') s of
        Some tail \<Rightarrow> Some (True, tail)
      | None \<Rightarrow> map_option (Pair False) (strip_prefix (lit ''ws://'') s))"

definition ws_authority :: "chars \<Rightarrow> chars \<times> chars" where
  "ws_authority s =
     (takeWhile (\<lambda>c. c \<noteq> 47) s, if 47 \<in> set s then dropWhile (\<lambda>c. c \<noteq> 47) s else lit ''/'')"

definition ws_host_port :: "chars \<Rightarrow> ws_endpoint_error + chars \<times> chars option" where
  "ws_host_port authority =
     (case strip_char 91 authority of
        Some inner \<Rightarrow>
          (case split_once 93 inner of
             None \<Rightarrow> Inl WsUnbracketed
           | Some (host, tail) \<Rightarrow>
               (case strip_char 58 tail of
                  Some p \<Rightarrow> Inr (host, Some p)
                | None \<Rightarrow> if tail = [] then Inr (host, None) else Inl WsBadPort))
      | None \<Rightarrow>
          (case rsplit_once 58 authority of
             Some (h, p) \<Rightarrow> Inr (h, Some p)
           | None \<Rightarrow> Inr (authority, None)))"

definition ws_endpoint_parse :: "chars \<Rightarrow> ws_endpoint_error + ws_endpoint" where
  "ws_endpoint_parse s =
     (case ws_scheme (trim s) of
        None \<Rightarrow> Inl WsScheme
      | Some (tls, tail) \<Rightarrow>
          (case ws_authority tail of
             (authority, path) \<Rightarrow>
               (case ws_host_port authority of
                  Inl e \<Rightarrow> Inl e
                | Inr (host, port) \<Rightarrow>
                    if host = [] then Inl WsEmptyHost
                    else
                      (case port of
                         None \<Rightarrow> Inr \<lparr> we_host = host, we_port = ws_default_port tls, we_path = path, we_tls = tls \<rparr>
                       | Some p \<Rightarrow>
                           (case parse_unsigned (2 ^ 16) p of
                              None \<Rightarrow> Inl WsBadPort
                            | Some p \<Rightarrow>
                                if p = 0 then Inl WsBadPort
                                else Inr \<lparr> we_host = host, we_port = word_of_nat p, we_path = path, we_tls = tls \<rparr>)))))"

subsection \<open>SHA-1 (sha1.rs)\<close>

definition sha1_init :: "u32 list" where
  "sha1_init = [0x67452301, 0xEFCDAB89, 0x98BADCFE, 0x10325476, 0xC3D2E1F0]"

definition sha1_schedule :: "bytes \<Rightarrow> u32 list" where
  "sha1_schedule block =
     foldl (\<lambda>w i. w[i := word_rotl 1 (w ! (i - 3) XOR w ! (i - 8) XOR w ! (i - 14) XOR w ! (i - 16))])
       (map from_be_bytes (chunks_exact 4 block) @ replicate 64 0) [16..<80]"

fun sha1_round :: "u32 \<times> u32 \<times> u32 \<times> u32 \<times> u32 \<Rightarrow> nat \<times> u32 \<Rightarrow> u32 \<times> u32 \<times> u32 \<times> u32 \<times> u32" where
  "sha1_round (a, b, c, d, e) (i, wi) =
     (let (f, k) =
            (if i \<le> 19 then ((b AND c) OR (NOT b AND d), 0x5A827999)
             else if i \<le> 39 then (b XOR c XOR d, 0x6ED9EBA1)
             else if i \<le> 59 then ((b AND c) OR (b AND d) OR (c AND d), 0x8F1BBCDC)
             else (b XOR c XOR d, 0xCA62C1D6));
          t = word_rotl 5 a + f + e + k + wi
      in (t, a, word_rotl 30 b, c, d))"

fun sha1_compress :: "u32 list \<Rightarrow> bytes \<Rightarrow> u32 list" where
  "sha1_compress [h0, h1, h2, h3, h4] block =
     (case foldl sha1_round (h0, h1, h2, h3, h4) (enumerate 0 (sha1_schedule block)) of
        (a, b, c, d, e) \<Rightarrow> [h0 + a, h1 + b, h2 + c, h3 + d, h4 + e])"
| "sha1_compress h block = h"

definition sha1_padded :: "bytes \<Rightarrow> bytes" where
  "sha1_padded data =
     (let rem = chunks_remainder 64 data;
          tail = copy_at 0 rem (replicate 128 0);
          tail = tail[length rem := 0x80];
          total = (if length rem < 56 then 64 else 128);
          bits = word_of_nat (length data) * 8 :: u64
      in take total (copy_at (total - 8) (to_be_bytes 8 bits) tail))"

definition sha1 :: "bytes \<Rightarrow> bytes" where
  "sha1 data =
     (let h = foldl sha1_compress sha1_init (chunks_exact 64 data);
          h = foldl sha1_compress h (chunks_exact 64 (sha1_padded data))
      in concat (map (to_be_bytes 4) h))"

subsection \<open>Keys (handshake.rs)\<close>

definition WS_GUID :: bytes where
  "WS_GUID = str ''258EAFA5-E914-47DA-95CA-C5AB0DC85B11''"

definition BASE64_ALPHABET :: bytes where
  "BASE64_ALPHABET = str ''ABCDEFGHIJKLMNOPQRSTUVWXYZabcdefghijklmnopqrstuvwxyz0123456789+/''"

text \<open>The character of six bits of the register.\<close>

definition base64_char :: "u32 \<Rightarrow> nat \<Rightarrow> u8" where
  "base64_char n shift = BASE64_ALPHABET ! (unat (drop_bit shift n) AND 63)"

definition base64_register :: "bytes \<Rightarrow> u32" where
  "base64_register c =
     push_bit 16 (ucast (c ! 0)) OR (if 1 < length c then push_bit 8 (ucast (c ! 1)) else 0)
       OR (if 2 < length c then ucast (c ! 2) else 0)"

definition base64_tail :: "bytes \<Rightarrow> bytes" where
  "base64_tail c =
     (let n = base64_register c
      in case length c of
           Suc 0 \<Rightarrow> [base64_char n 18, base64_char n 12, 61, 61]
         | Suc (Suc 0) \<Rightarrow> [base64_char n 18, base64_char n 12, base64_char n 6, 61]
         | _ \<Rightarrow> [])"

definition base64 :: "bytes \<Rightarrow> bytes" where
  "base64 input =
     concat (map (\<lambda>c. let n = base64_register c
                      in [base64_char n 18, base64_char n 12, base64_char n 6, base64_char n 0]) (chunks_exact 3 input))
       @ base64_tail (chunks_remainder 3 input)"

definition ws_key :: "bytes \<Rightarrow> bytes" where
  "ws_key nonce = base64 nonce"

definition ws_accept :: "bytes \<Rightarrow> bytes" where
  "ws_accept key = base64 (sha1 (key @ WS_GUID))"

subsection \<open>The request\<close>

record ws_writer =
  ww_out :: bytes
  ww_pos :: nat

definition ws_put :: "bytes \<Rightarrow> ws_writer \<Rightarrow> (ws_error + unit) \<times> ws_writer" where
  "ws_put bs w =
     (let stop = ww_pos w + length bs
      in if stop > length (ww_out w) then (Inl WsNoRoom, w)
         else (Inr (), w\<lparr> ww_out := copy_at (ww_pos w) bs (ww_out w), ww_pos := stop \<rparr>))"

fun ws_puts :: "bytes list \<Rightarrow> ws_writer \<Rightarrow> (ws_error + unit) \<times> ws_writer" where
  "ws_puts [] w = (Inr (), w)"
| "ws_puts (bs # bss) w = (case ws_put bs w of (Inl e, w) \<Rightarrow> (Inl e, w) | (Inr _, w) \<Rightarrow> ws_puts bss w)"

text \<open>The loop of \<open>decimal\<close>: the digits, filled from the last.\<close>

fun ws_digits :: "nat \<Rightarrow> bytes \<Rightarrow> bytes" where
  "ws_digits n ds =
     (let ds = (48 + word_of_nat (n mod 10)) # ds
      in if n div 10 = 0 then ds else ws_digits (n div 10) ds)"

declare ws_digits.simps [simp del]

definition CRLF :: bytes where "CRLF = [13, 10]"

text \<open>The pieces of the request, in the order they are put.\<close>

definition ws_request_pieces :: "ws_endpoint \<Rightarrow> bytes \<Rightarrow> bytes list" where
  "ws_request_pieces e key =
     [str ''GET '', utf8 (we_path e), str '' HTTP/1.1'' @ CRLF @ str ''Host: '', utf8 (we_host e)] @
     (if we_port e \<noteq> ws_default_port (we_tls e) then [str '':'', ws_digits (unat (we_port e)) []] else []) @
     [CRLF @ str ''Upgrade: websocket'' @ CRLF @ str ''Connection: Upgrade'' @ CRLF @ str ''Sec-WebSocket-Key: '', key,
      CRLF @ str ''Sec-WebSocket-Version: 13'' @ CRLF @ CRLF]"

definition ws_request :: "bytes \<Rightarrow> ws_endpoint \<Rightarrow> bytes \<Rightarrow> (ws_error + nat) \<times> bytes" where
  "ws_request out e key =
     (case ws_puts (ws_request_pieces e key) \<lparr> ww_out = out, ww_pos = 0 \<rparr> of
        (Inl err, w) \<Rightarrow> (Inl err, ww_out w)
      | (Inr _, w) \<Rightarrow> (Inr (ww_pos w), ww_out w))"

subsection \<open>The response\<close>

fun find_bytes :: "bytes \<Rightarrow> bytes \<Rightarrow> nat option" where
  "find_bytes needle [] = None"
| "find_bytes needle (b # bs) =
     (if take (length needle) (b # bs) = needle then Some 0 else map_option Suc (find_bytes needle bs))"

definition ascii_lower :: "u8 \<Rightarrow> u8" where
  "ascii_lower b = (if 65 \<le> b \<and> b \<le> 90 then b + 32 else b)"

definition eq_ignore_case :: "bytes \<Rightarrow> bytes \<Rightarrow> bool" where
  "eq_ignore_case a b \<longleftrightarrow> map ascii_lower a = map ascii_lower b"

definition is_ascii_space :: "u8 \<Rightarrow> bool" where
  "is_ascii_space b \<longleftrightarrow> b = 0x20 \<or> b = 0x09 \<or> b = 0x0A \<or> b = 0x0C \<or> b = 0x0D"

definition trim_ascii :: "bytes \<Rightarrow> bytes" where
  "trim_ascii bs = rev (dropWhile is_ascii_space (rev (dropWhile is_ascii_space bs)))"

fun parse_u16_from :: "nat \<Rightarrow> bytes \<Rightarrow> nat option" where
  "parse_u16_from n [] = Some n"
| "parse_u16_from n (b # bs) =
     (if \<not> is_digit b then None
      else if n * 10 \<ge> 2 ^ 16 then None
      else if n * 10 + unat (b - 48) \<ge> 2 ^ 16 then None
      else parse_u16_from (n * 10 + unat (b - 48)) bs)"

definition ws_strip_return :: "bytes \<Rightarrow> bytes" where
  "ws_strip_return l = (if l \<noteq> [] \<and> last l = 13 then butlast l else l)"

definition ws_status :: "bytes \<Rightarrow> nat option" where
  "ws_status line =
     (case strip_prefix (str ''HTTP/1.1 '') line of
        None \<Rightarrow> None
      | Some s \<Rightarrow> if length s < 3 then None else parse_u16_from 0 (take 3 s))"

text \<open>The loop over the header lines, with its flags \<open>upgrade\<close>, \<open>connection\<close> and \<open>accepted\<close>.\<close>

fun ws_headers :: "bytes \<Rightarrow> bytes list \<Rightarrow> bool \<times> bool \<times> bool \<Rightarrow> ws_error + bool \<times> bool \<times> bool" where
  "ws_headers expected [] flags = Inr flags"
| "ws_headers expected (line # lines) (upgrade, connection, accepted) =
     (case split_once 58 line of
        None \<Rightarrow> Inl WsMalformedResponse
      | Some (name, v) \<Rightarrow>
          let name = trim_ascii name; v = trim_ascii v
          in if eq_ignore_case name (str ''upgrade'')
             then ws_headers expected lines (eq_ignore_case v (str ''websocket''), connection, accepted)
             else if eq_ignore_case name (str ''connection'')
             then ws_headers expected lines
                    (upgrade, list_ex (\<lambda>t. eq_ignore_case (trim_ascii t) (str ''upgrade'')) (split_at_char 44 v), accepted)
             else if eq_ignore_case name (str ''sec-websocket-accept'')
             then ws_headers expected lines (upgrade, connection, v = expected)
             else if eq_ignore_case name (str ''sec-websocket-extensions'') \<and> v \<noteq> [] then Inl WsExtension
             else if eq_ignore_case name (str ''sec-websocket-protocol'') \<and> v \<noteq> [] then Inl WsSubprotocol
             else ws_headers expected lines (upgrade, connection, accepted))"

definition parse_response :: "bytes \<Rightarrow> bytes \<Rightarrow> ws_error + nat option" where
  "parse_response buf expected =
     (case find_bytes (CRLF @ CRLF) buf of
        None \<Rightarrow> Inr None
      | Some stop \<Rightarrow>
          (case map ws_strip_return (split_at_char 10 (take stop buf)) of
             [] \<Rightarrow> Inl WsMalformedResponse
           | status # lines \<Rightarrow>
               (case ws_status status of
                  None \<Rightarrow> Inl WsMalformedResponse
                | Some code \<Rightarrow>
                    if code \<noteq> 101 then Inl (WsStatus (word_of_nat code))
                    else
                      (case ws_headers expected lines (False, False, False) of
                         Inl e \<Rightarrow> Inl e
                       | Inr (upgrade, connection, accepted) \<Rightarrow>
                           if \<not> upgrade then Inl WsUpgrade
                           else if \<not> connection then Inl WsConnection
                           else if \<not> accepted then Inl WsAccept
                           else Inr (Some (stop + 4))))))"

subsection \<open>What is sent\<close>

lemma ws_puts_spec:
  "ww_pos w + length (concat bss) \<le> length (ww_out w) \<Longrightarrow>
     ws_puts bss w = (Inr (), w\<lparr> ww_out := copy_at (ww_pos w) (concat bss) (ww_out w), ww_pos := ww_pos w + length (concat bss) \<rparr>)"
  "length (ww_out w) < ww_pos w + length (concat bss) \<Longrightarrow> ww_pos w \<le> length (ww_out w) \<Longrightarrow> fst (ws_puts bss w) = Inl WsNoRoom"
proof (induction bss arbitrary: w)
  case Nil
  {
    case 1
    then show ?case by (simp add: copy_at_def)
  next
    case 2
    then show ?case by simp
  }
next
  case (Cons bs bss)
  {
    case 1
    then show ?case
      using Cons.IH(1) [of "w\<lparr> ww_out := copy_at (ww_pos w) bs (ww_out w), ww_pos := ww_pos w + length bs \<rparr>"]
      by (simp add: ws_put_def Let_def copy_at_def ac_simps)
  next
    case 2
    then show ?case
      using Cons.IH(2) [of "w\<lparr> ww_out := copy_at (ww_pos w) bs (ww_out w), ww_pos := ww_pos w + length bs \<rparr>"]
      by (simp add: ws_put_def Let_def)
  }
qed

lemma ws_request_spec:
  "concat (ws_request_pieces e key) = text \<Longrightarrow>
   ws_request out e key =
     (if length text \<le> length out then (Inr (length text), text @ drop (length text) out)
      else (Inl WsNoRoom, snd (ws_request out e key)))"
  using ws_puts_spec [of "\<lparr> ww_out = out, ww_pos = 0 \<rparr>" "ws_request_pieces e key"]
  by (auto simp: ws_request_def copy_at_def not_le split: prod.splits sum.splits)

subsection \<open>What is let in\<close>

text \<open>A response as a server writes it: a status line and named values, a blank line behind them.\<close>

definition ws_response :: "bytes \<Rightarrow> (bytes \<times> bytes) list \<Rightarrow> bytes" where
  "ws_response status hs = concat (map (\<lambda>l. l @ CRLF) (status # map (\<lambda>(n, v). n @ str '':'' @ v) hs)) @ CRLF"

text \<open>The value of the last header of a name, whatever the case the name is written in.\<close>

definition header_named :: "string \<Rightarrow> bytes \<Rightarrow> bool" where
  "header_named n name \<longleftrightarrow> eq_ignore_case (trim_ascii name) (str n)"

fun header_value :: "string \<Rightarrow> (bytes \<times> bytes) list \<Rightarrow> bytes option" where
  "header_value n [] = None"
| "header_value n ((name, v) # hs) =
     (case header_value n hs of Some v' \<Rightarrow> Some v' | None \<Rightarrow> if header_named n name then Some (trim_ascii v) else None)"

definition clean_line :: "bytes \<Rightarrow> bool" where
  "clean_line l \<longleftrightarrow> 10 \<notin> set l \<and> 13 \<notin> set l"

definition names_upgrade :: "bytes \<Rightarrow> bool" where
  "names_upgrade v \<longleftrightarrow> (\<exists>t\<in>set (split_at_char 44 v). eq_ignore_case (trim_ascii t) (str ''upgrade''))"

text \<open>Nothing is negotiated: no extension and no subprotocol has a value.\<close>

definition nothing_negotiated :: "(bytes \<times> bytes) list \<Rightarrow> bool" where
  "nothing_negotiated hs \<longleftrightarrow>
     (\<forall>(name, v)\<in>set hs. header_named ''sec-websocket-extensions'' name \<or> header_named ''sec-websocket-protocol'' name
        \<longrightarrow> trim_ascii v = [])"

lemma header_named_disjoint:
  assumes "header_named n name" "header_named m name"
  shows "map ascii_lower (str n) = map ascii_lower (str m)"
  using assms by (simp add: header_named_def eq_ignore_case_def)

lemma ascii_lower_names:
  "map ascii_lower (str ''upgrade'') = str ''upgrade''"
  "map ascii_lower (str ''connection'') = str ''connection''"
  "map ascii_lower (str ''sec-websocket-accept'') = str ''sec-websocket-accept''"
  "map ascii_lower (str ''sec-websocket-extensions'') = str ''sec-websocket-extensions''"
  "map ascii_lower (str ''sec-websocket-protocol'') = str ''sec-websocket-protocol''"
  by (simp_all add: str_def ascii_lower_def)

lemma header_named_excl:
  "header_named ''upgrade'' n \<Longrightarrow> \<not> header_named ''connection'' n \<and> \<not> header_named ''sec-websocket-accept'' n \<and>
     \<not> header_named ''sec-websocket-extensions'' n \<and> \<not> header_named ''sec-websocket-protocol'' n"
  "header_named ''connection'' n \<Longrightarrow> \<not> header_named ''sec-websocket-accept'' n \<and>
     \<not> header_named ''sec-websocket-extensions'' n \<and> \<not> header_named ''sec-websocket-protocol'' n"
  "header_named ''sec-websocket-accept'' n \<Longrightarrow>
     \<not> header_named ''sec-websocket-extensions'' n \<and> \<not> header_named ''sec-websocket-protocol'' n"
proof -
  have "str ''upgrade'' \<noteq> str ''connection''" "str ''upgrade'' \<noteq> str ''sec-websocket-accept''"
    "str ''upgrade'' \<noteq> str ''sec-websocket-extensions''" "str ''upgrade'' \<noteq> str ''sec-websocket-protocol''"
    "str ''connection'' \<noteq> str ''sec-websocket-accept''" "str ''connection'' \<noteq> str ''sec-websocket-extensions''"
    "str ''connection'' \<noteq> str ''sec-websocket-protocol''" "str ''sec-websocket-accept'' \<noteq> str ''sec-websocket-extensions''"
    "str ''sec-websocket-accept'' \<noteq> str ''sec-websocket-protocol''"
    by (simp_all add: str_def)
  note distinct = this
  show "header_named ''upgrade'' n \<Longrightarrow> \<not> header_named ''connection'' n \<and> \<not> header_named ''sec-websocket-accept'' n \<and>
     \<not> header_named ''sec-websocket-extensions'' n \<and> \<not> header_named ''sec-websocket-protocol'' n"
    "header_named ''connection'' n \<Longrightarrow> \<not> header_named ''sec-websocket-accept'' n \<and>
     \<not> header_named ''sec-websocket-extensions'' n \<and> \<not> header_named ''sec-websocket-protocol'' n"
    "header_named ''sec-websocket-accept'' n \<Longrightarrow>
     \<not> header_named ''sec-websocket-extensions'' n \<and> \<not> header_named ''sec-websocket-protocol'' n"
    using distinct header_named_disjoint [of _ n] by (metis ascii_lower_names)+
qed

lemma ws_headers_line:
  assumes "58 \<notin> set n"
  shows "ws_headers expected ((n @ str '':'' @ v) # lines) (u, c, a) =
     (if header_named ''upgrade'' n then ws_headers expected lines (eq_ignore_case (trim_ascii v) (str ''websocket''), c, a)
      else if header_named ''connection'' n then ws_headers expected lines (u, names_upgrade (trim_ascii v), a)
      else if header_named ''sec-websocket-accept'' n then ws_headers expected lines (u, c, trim_ascii v = expected)
      else if header_named ''sec-websocket-extensions'' n \<and> trim_ascii v \<noteq> [] then Inl WsExtension
      else if header_named ''sec-websocket-protocol'' n \<and> trim_ascii v \<noteq> [] then Inl WsSubprotocol
      else ws_headers expected lines (u, c, a))"
proof -
  have "split_once 58 (n @ str '':'' @ v) = Some (n, v)"
    using split_once_append [OF assms] by (simp add: str_def)
  then show ?thesis
    by (simp only: ws_headers.simps option.case prod.case Let_def header_named_def names_upgrade_def list_ex_iff)
qed

declare ws_headers.simps(2) [simp del]

lemma option_case_same [simp]: "(case x of None \<Rightarrow> None | Some y \<Rightarrow> Some y) = x"
  by (cases x) simp_all

lemma ws_headers_spec:
  assumes "\<forall>(name, v)\<in>set hs. 58 \<notin> set name"
  shows "(nothing_negotiated hs \<longrightarrow> ws_headers expected (map (\<lambda>(n, v). n @ str '':'' @ v) hs) (u, c, a) =
      Inr (case header_value ''upgrade'' hs of None \<Rightarrow> u | Some v \<Rightarrow> eq_ignore_case v (str ''websocket''),
           case header_value ''connection'' hs of None \<Rightarrow> c | Some v \<Rightarrow> names_upgrade v,
           case header_value ''sec-websocket-accept'' hs of None \<Rightarrow> a | Some v \<Rightarrow> v = expected)) \<and>
    (\<not> nothing_negotiated hs \<longrightarrow>
      (\<exists>e. ws_headers expected (map (\<lambda>(n, v). n @ str '':'' @ v) hs) (u, c, a) = Inl e))"
  using assms
proof (induction hs arbitrary: u c a)
  case Nil
  then show ?case by (simp add: nothing_negotiated_def)
next
  case (Cons h hs)
  obtain n v where h: "h = (n, v)" by (cases h)
  have "58 \<notin> set n" "\<forall>(name, v)\<in>set hs. 58 \<notin> set name"
    using Cons.prems by (auto simp: h)
  note step = ws_headers_line [OF this(1), of expected v] and ih = Cons.IH [OF this(2)]
  have neg: "nothing_negotiated (h # hs) \<longleftrightarrow>
      (header_named ''sec-websocket-extensions'' n \<or> header_named ''sec-websocket-protocol'' n \<longrightarrow> trim_ascii v = []) \<and>
      nothing_negotiated hs"
    by (auto simp: nothing_negotiated_def h)
  consider (up) "header_named ''upgrade'' n" | (conn) "header_named ''connection'' n" "\<not> header_named ''upgrade'' n"
    | (acc) "header_named ''sec-websocket-accept'' n" "\<not> header_named ''upgrade'' n" "\<not> header_named ''connection'' n"
    | (other) "\<not> header_named ''upgrade'' n" "\<not> header_named ''connection'' n" "\<not> header_named ''sec-websocket-accept'' n"
    by blast
  then show ?case
  proof cases
    case up
    then show ?thesis
      using header_named_excl(1) [OF up] ih [of "eq_ignore_case (trim_ascii v) (str ''websocket'')" c a]
      by (cases "header_value ''upgrade'' hs") (simp_all add: neg [unfolded h] step h)
  next
    case conn
    then show ?thesis
      using header_named_excl(2) [OF conn(1)] ih [of u "names_upgrade (trim_ascii v)" a]
      by (cases "header_value ''connection'' hs") (simp_all add: neg [unfolded h] step h)
  next
    case acc
    then show ?thesis
      using header_named_excl(3) [OF acc(1)] ih [of u c "trim_ascii v = expected"]
      by (cases "header_value ''sec-websocket-accept'' hs") (simp_all add: neg [unfolded h] step h)
  next
    case other
    then show ?thesis
      using ih [of u c a] by (auto simp: neg [unfolded h] step h)
  qed
qed

lemma find_bytes_skip:
  "13 \<notin> set l \<Longrightarrow> find_bytes (13 # needle) (l @ xs) = map_option ((+) (length l)) (find_bytes (13 # needle) xs)"
proof (induction l)
  case (Cons b l)
  then show ?case
    by (cases "find_bytes (13 # needle) xs") auto
qed (cases "find_bytes (13 # needle) xs"; simp)

lemma concat_lines_nonempty: "lines \<noteq> [] \<Longrightarrow> 2 \<le> length (concat (map (\<lambda>l. l @ CRLF) lines))"
  by (cases lines) (simp_all add: CRLF_def)

lemma find_blank_line:
  assumes "list_all (\<lambda>l. clean_line l \<and> l \<noteq> []) lines" "lines \<noteq> []"
  shows "find_bytes (CRLF @ CRLF) (concat (map (\<lambda>l. l @ CRLF) lines) @ CRLF @ tail) =
    Some (length (concat (map (\<lambda>l. l @ CRLF) lines)) - 2)"
  using assms
proof (induction lines)
  case (Cons l lines)
  have l: "13 \<notin> set l"
    using Cons.prems by (simp add: clean_line_def)
  show ?case
  proof (cases "lines = []")
    case True
    then show ?thesis
      using find_bytes_skip [OF l, of "[10, 13, 10]" "[13, 10, 13, 10] @ tail"] by (simp add: CRLF_def)
  next
    case False
    then obtain m ms where m: "lines = m # ms" by (meson neq_Nil_conv)
    then obtain b bs where b: "m = b # bs" "b \<noteq> 13"
      using Cons.prems by (auto simp: clean_line_def neq_Nil_conv)
    have "find_bytes (CRLF @ CRLF) (CRLF @ concat (map (\<lambda>l. l @ CRLF) lines) @ CRLF @ tail) =
        Some (length (concat (map (\<lambda>l. l @ CRLF) lines)))"
      using Cons.IH Cons.prems False b(2) concat_lines_nonempty [OF False] by (simp add: CRLF_def m b(1))
    then show ?thesis
      using find_bytes_skip [OF l, of "[10, 13, 10]" "CRLF @ concat (map (\<lambda>l. l @ CRLF) lines) @ CRLF @ tail"]
      by (simp add: CRLF_def)
  qed
qed simp

lemma split_lines:
  assumes "list_all clean_line lines" "clean_line l"
  shows "map ws_strip_return (split_at_char 10 (concat (map (\<lambda>l. l @ CRLF) lines) @ l)) = lines @ [l]"
  using assms(1)
proof (induction lines)
  case Nil
  have "l \<noteq> [] \<Longrightarrow> last l \<noteq> 13"
    using assms(2) last_in_set [of l] unfolding clean_line_def by metis
  then show ?case
    using assms(2) by (auto simp: clean_line_def split_at_char_clean ws_strip_return_def)
next
  case (Cons m lines)
  then have "10 \<notin> set (m @ [13])"
    by (simp add: clean_line_def)
  from split_at_char_append [OF this] have
    "split_at_char 10 (m @ CRLF @ xs) = (m @ [13]) # split_at_char 10 xs" for xs
    by (simp add: CRLF_def)
  then show ?case
    using Cons by (simp add: ws_strip_return_def)
qed

lemma ws_strip_prefix [simp]: "strip_prefix p (p @ xs) = Some xs"
  by (induction p) simp_all

text \<open>The three digits of a status.\<close>

lemma ws_status_digits:
  assumes "digits code" "length code = 3"
  shows "ws_status (str ''HTTP/1.1 '' @ code @ reason) = Some (dec_value code)"
proof -
  obtain a b c where code: "code = [a, b, c]"
    using assms(2) by (auto simp: numeral_3_eq_3 length_Suc_conv)
  have digit: "unat (d - 48) = unat d mod 16" "unat d mod 16 \<le> 9" if "is_digit d" for d
    using that by (auto simp: digit_nibble digit_nibble_le is_digit_def unat_sub_if' word_le_nat_alt)
  have "is_digit a" "is_digit b" "is_digit c"
    using assms(1) by (simp_all add: code)
  then show ?thesis
    using digit [of a] digit [of b] digit [of c]
    by (simp add: ws_status_def code dec_value_Cons algebra_simps)
qed

lemma find_bytes_short: "length xs < length needle \<Longrightarrow> find_bytes needle xs = None"
proof (induction xs)
  case (Cons b xs)
  then have "take (length needle) (b # xs) \<noteq> needle"
    by (metis length_take min_less_iff_conj order_less_irrefl)
  then show ?case
    using Cons by simp
qed simp

lemma find_bytes_early: "find_bytes needle xs = Some i \<Longrightarrow> k < i + length needle \<Longrightarrow> find_bytes needle (take k xs) = None"
proof (induction xs arbitrary: i k)
  case (Cons b xs)
  show ?case
  proof (cases k)
    case (Suc j)
    have "take (length needle) (take k (b # xs)) \<noteq> needle"
    proof
      assume *: "take (length needle) (take k (b # xs)) = needle"
      then have "length needle \<le> k"
        by (metis length_take min.bounded_iff nle_le)
      then have "take (length needle) (b # xs) = needle"
        using * by (simp add: min_def)
      then show False
        using Cons.prems \<open>length needle \<le> k\<close> by simp
    qed
    then show ?thesis
      using Cons.prems Cons.IH [of _ j] Suc find_bytes_short [of "take j xs" needle] by (auto split: if_splits)
  qed simp
qed simp

definition well_formed_response :: "bytes \<Rightarrow> bytes \<Rightarrow> (bytes \<times> bytes) list \<Rightarrow> bool" where
  "well_formed_response code reason hs \<longleftrightarrow>
     digits code \<and> length code = 3 \<and> clean_line reason \<and>
     (\<forall>(n, v)\<in>set hs. clean_line n \<and> clean_line v \<and> 58 \<notin> set n)"

lemma response_lines:
  assumes "well_formed_response code reason hs"
  defines "status \<equiv> str ''HTTP/1.1 '' @ code @ reason"
  defines "lines \<equiv> status # map (\<lambda>(n, v). n @ str '':'' @ v) hs"
  shows "list_all (\<lambda>l. clean_line l \<and> l \<noteq> []) lines"
proof -
  have "clean_line code"
    using assms(1) unfolding well_formed_response_def clean_line_def digits_def is_digit_def list_all_iff
    by (auto simp: word_le_nat_alt)
  then have "clean_line status \<and> status \<noteq> []"
    using assms(1) by (auto simp: well_formed_response_def clean_line_def status_def str_def)
  then show ?thesis
    using assms(1) by (auto simp: lines_def well_formed_response_def list_all_iff clean_line_def str_def)
qed

lemma response_ends:
  assumes "well_formed_response code reason hs"
  defines "status \<equiv> str ''HTTP/1.1 '' @ code @ reason"
  shows "find_bytes (CRLF @ CRLF) (ws_response status hs @ tail) = Some (length (ws_response status hs) - 4)"
    "4 \<le> length (ws_response status hs)"
proof -
  let ?lines = "status # map (\<lambda>(n, v). n @ str '':'' @ v) hs"
  have ok: "list_all (\<lambda>l. clean_line l \<and> l \<noteq> []) ?lines"
    using response_lines [OF assms(1)] by (simp add: status_def)
  show "find_bytes (CRLF @ CRLF) (ws_response status hs @ tail) = Some (length (ws_response status hs) - 4)"
    using find_blank_line [OF ok, of tail] by (simp add: ws_response_def CRLF_def)
  show "4 \<le> length (ws_response status hs)"
    using concat_lines_nonempty [of ?lines] by (simp add: ws_response_def CRLF_def)
qed

lemma parse_response_complete:
  assumes "well_formed_response code reason hs"
  defines "status \<equiv> str ''HTTP/1.1 '' @ code @ reason"
  shows "parse_response (ws_response status hs @ tail) expected =
    (if dec_value code \<noteq> 101 then Inl (WsStatus (word_of_nat (dec_value code)))
     else case ws_headers expected (map (\<lambda>(n, v). n @ str '':'' @ v) hs) (False, False, False) of
            Inl e \<Rightarrow> Inl e
          | Inr (upgrade, connection, accepted) \<Rightarrow>
              if \<not> upgrade then Inl WsUpgrade
              else if \<not> connection then Inl WsConnection
              else if \<not> accepted then Inl WsAccept
              else Inr (Some (length (ws_response status hs))))"
proof -
  let ?lines = "status # map (\<lambda>(n, v). n @ str '':'' @ v) hs"
  let ?text = "concat (map (\<lambda>l. l @ CRLF) ?lines)"
  have ok: "list_all (\<lambda>l. clean_line l \<and> l \<noteq> []) ?lines"
    using response_lines [OF assms(1)] by (simp add: status_def)
  then have clean: "list_all clean_line (butlast ?lines)" "clean_line (last ?lines)"
    using in_set_butlastD [of _ ?lines] last_in_set [of ?lines] unfolding list_all_iff by (metis list.distinct(1))+
  have two: "2 \<le> length ?text"
    by (rule concat_lines_nonempty) simp
  have "find_bytes (CRLF @ CRLF) (ws_response status hs @ tail) = Some (length ?text - 2)"
    using response_ends [OF assms(1)] by (simp add: status_def ws_response_def CRLF_def)
  moreover have "take (length ?text - 2) (ws_response status hs @ tail) =
      concat (map (\<lambda>l. l @ CRLF) (butlast ?lines)) @ last ?lines"
  proof -
    have "?text = concat (map (\<lambda>l. l @ CRLF) (butlast ?lines @ [last ?lines]))"
      by (subst append_butlast_last_id) simp_all
    then have "?text = (concat (map (\<lambda>l. l @ CRLF) (butlast ?lines)) @ last ?lines) @ CRLF"
      by (simp only: map_append concat_append) simp
    moreover have "ws_response status hs @ tail = ?text @ CRLF @ tail"
      by (simp add: ws_response_def)
    ultimately show ?thesis
      by (simp only:) (simp add: CRLF_def)
  qed
  moreover have "map ws_strip_return (split_at_char 10 (concat (map (\<lambda>l. l @ CRLF) (butlast ?lines)) @ last ?lines)) = ?lines"
    using split_lines [OF clean] append_butlast_last_id [of ?lines] by simp
  moreover have "length ?text - 2 + 4 = length (ws_response status hs)"
    using two by (simp add: ws_response_def CRLF_def)
  moreover have "ws_status status = Some (dec_value code)"
    using ws_status_digits assms by (simp add: well_formed_response_def)
  ultimately show ?thesis
    unfolding parse_response_def by (simp only: option.case list.case)
qed

text \<open>Trimming takes off the white space on both sides and nothing else.\<close>

lemma trim_ascii_around:
  "\<exists>a b. bs = a @ trim_ascii bs @ b \<and> set a \<union> set b \<subseteq> {9, 10, 12, 13, 32} \<and>
     (trim_ascii bs = [] \<or> hd (trim_ascii bs) \<notin> {9, 10, 12, 13, 32} \<and> last (trim_ascii bs) \<notin> {9, 10, 12, 13, 32})"
proof -
  define r where "r = dropWhile is_ascii_space bs"
  define a where "a = takeWhile is_ascii_space bs"
  define q where "q = dropWhile is_ascii_space (rev r)"
  define b where "b = rev (takeWhile is_ascii_space (rev r))"
  have parts: "bs = a @ r" "r = rev q @ b" "trim_ascii bs = rev q"
    by (simp_all add: a_def r_def q_def b_def trim_ascii_def flip: rev_append)
  have spaces: "is_ascii_space x" if "x \<in> set a \<union> set b" for x
    using that by (auto simp: a_def b_def dest: set_takeWhileD)
  have first: "\<not> is_ascii_space (hd r)" if "r \<noteq> []"
    using that hd_dropWhile [of is_ascii_space bs] by (simp add: r_def)
  have last: "\<not> is_ascii_space (hd q)" if "q \<noteq> []"
    using that hd_dropWhile [of is_ascii_space "rev r"] by (simp add: q_def)
  have "hd r = hd (rev q)" "r \<noteq> []" if "q \<noteq> []"
    using that parts(2) by (simp_all add: hd_append)
  then show ?thesis
    using parts spaces first last
    by (intro exI [of _ a] exI [of _ b]) (auto simp: last_rev is_ascii_space_def)
qed

text \<open>
  C17. The handshake lets in exactly what answers it. A well-formed response, with its headers in any order, any
  case and any white space, is accepted if and only if its status is 101, the last \<open>Upgrade\<close> says
  \<open>websocket\<close>, a token of the last \<open>Connection\<close> is \<open>upgrade\<close>, the last \<open>Sec-WebSocket-Accept\<close> is the
  expected one, and it selects no extension and no subprotocol; what follows it is left for the first frame.
  Everything else is an error, and a response of which bytes are missing is waited for. The white space that
  does not count is the blanks, tabs, line and form feeds around a name, a value or a token, all of it.
\<close>

theorem ws_upgrade_accepted:
  assumes "well_formed_response code reason hs"
  defines "response \<equiv> ws_response (str ''HTTP/1.1 '' @ code @ reason) hs"
  shows "(k < length response \<longrightarrow> parse_response (take k response) expected = Inr None) \<and>
    (if dec_value code = 101 \<and> nothing_negotiated hs \<and>
        (\<exists>v. header_value ''upgrade'' hs = Some v \<and> eq_ignore_case v (str ''websocket'')) \<and>
        (\<exists>v. header_value ''connection'' hs = Some v \<and> names_upgrade v) \<and>
        header_value ''sec-websocket-accept'' hs = Some expected
     then parse_response (response @ tail) expected = Inr (Some (length response))
     else \<exists>e. parse_response (response @ tail) expected = Inl e) \<and>
    (\<exists>a b. bs = a @ trim_ascii bs @ b \<and> set a \<union> set b \<subseteq> {9, 10, 12, 13, 32} \<and>
       (trim_ascii bs = [] \<or> hd (trim_ascii bs) \<notin> {9, 10, 12, 13, 32} \<and> last (trim_ascii bs) \<notin> {9, 10, 12, 13, 32}))"
proof (intro conjI)
  show "\<exists>a b. bs = a @ trim_ascii bs @ b \<and> set a \<union> set b \<subseteq> {9, 10, 12, 13, 32} \<and>
       (trim_ascii bs = [] \<or> hd (trim_ascii bs) \<notin> {9, 10, 12, 13, 32} \<and> last (trim_ascii bs) \<notin> {9, 10, 12, 13, 32})"
    by (rule trim_ascii_around)
  have "find_bytes (CRLF @ CRLF) (take k response) = None" if "k < length response"
    using find_bytes_early [OF response_ends(1) [OF assms(1), of "[]"], of k] response_ends(2) [OF assms(1)] that
    by (simp add: response_def CRLF_def)
  then show "k < length response \<longrightarrow> parse_response (take k response) expected = Inr None"
    by (simp add: parse_response_def)
  have "\<forall>(name, v)\<in>set hs. 58 \<notin> set name"
    using assms(1) by (auto simp: well_formed_response_def)
  note hd = ws_headers_spec [OF this, of expected False False False]
  show "if dec_value code = 101 \<and> nothing_negotiated hs \<and>
        (\<exists>v. header_value ''upgrade'' hs = Some v \<and> eq_ignore_case v (str ''websocket'')) \<and>
        (\<exists>v. header_value ''connection'' hs = Some v \<and> names_upgrade v) \<and>
        header_value ''sec-websocket-accept'' hs = Some expected
     then parse_response (response @ tail) expected = Inr (Some (length response))
     else \<exists>e. parse_response (response @ tail) expected = Inl e"
    using hd unfolding response_def parse_response_complete [OF assms(1)]
    by (auto split: option.splits)
qed

definition demo_headers :: "(bytes \<times> bytes) list" where
  "demo_headers =
     [(str ''UPGRADE'', str '' WebSocket''), (str ''Connection'', str '' keep-alive, Upgrade''),
      (str ''Sec-WebSocket-Accept'', str '' s3pP'')]"

theorem ws_upgrade_accepted_witness:
  "parse_response (ws_response (str ''HTTP/1.1 '' @ str ''101'' @ str '' OK'') demo_headers @ [0x81, 0]) (str ''s3pP'') =
     Inr (Some (length (ws_response (str ''HTTP/1.1 '' @ str ''101'' @ str '' OK'') demo_headers)))"
proof -
  have "well_formed_response (str ''101'') (str '' OK'') demo_headers"
    by (simp add: well_formed_response_def demo_headers_def str_def clean_line_def is_digit_def)
  moreover have "dec_value (str ''101'') = 101"
    by (simp add: str_def dec_value_Cons)
  moreover have "nothing_negotiated demo_headers"
    by (simp add: nothing_negotiated_def demo_headers_def header_named_def eq_ignore_case_def trim_ascii_def
        is_ascii_space_def str_def ascii_lower_def)
  moreover have "header_value ''upgrade'' demo_headers = Some (str ''WebSocket'')"
    "header_value ''connection'' demo_headers = Some (str ''keep-alive, Upgrade'')"
    "header_value ''sec-websocket-accept'' demo_headers = Some (str ''s3pP'')"
    by (simp_all add: demo_headers_def header_named_def eq_ignore_case_def trim_ascii_def is_ascii_space_def str_def ascii_lower_def)
  moreover have "eq_ignore_case (str ''WebSocket'') (str ''websocket'')" "names_upgrade (str ''keep-alive, Upgrade'')"
    by (simp_all add: eq_ignore_case_def names_upgrade_def trim_ascii_def is_ascii_space_def str_def ascii_lower_def)
  ultimately show ?thesis
    using ws_upgrade_accepted [of "str ''101''" "str '' OK''" demo_headers 0 "str ''s3pP''" "[0x81, 0]"] by simp
qed

end
