(* ===== verification/Crypto_Pipeline.thy ===== *)
theory Crypto_Pipeline
  imports Fix_Pipeline Ws_Handshake
begin

text \<open>
  \<open>crates/jeed-crypto/src\<close>: the errors of a decoder (\<open>error.rs\<close>), the counters (\<open>recv/stats.rs\<close>) and the
  transport-free half of the receive loop (\<open>recv/pipeline.rs\<close>). The venue is a router of which nothing is
  known but its calls, the sink a publisher of records.
\<close>

subsection \<open>Errors (error.rs)\<close>

datatype instrument_error = InstrumentSymbol | InstrumentScale nat

datatype crypto_error =
    CryptoEmpty
  | CryptoField string parse_err
  | CryptoMissing string
  | CryptoUnexpected string
  | CryptoSymbolMismatch
  | CryptoDeltaOverflow nat
  | CryptoInstrument instrument_error
  | CryptoWire wire_error

subsection \<open>Counters (stats.rs)\<close>

record ws_stats =
  ws_bytes :: u64
  ws_frames :: u64
  ws_messages :: u64
  ws_published :: u64
  ws_stale :: u64
  ws_heartbeats :: u64
  ws_decode_failed :: u64
  ws_rest :: u64
  ws_binary :: u64
  ws_fragments :: u64
  ws_pings :: u64
  ws_pongs :: u64
  ws_closes :: u64
  ws_pings_sent :: u64
  ws_pongs_sent :: u64
  ws_keepalives_sent :: u64
  ws_protocol_errors :: u64
  ws_disconnects :: u64
  ws_connect_failures :: u64
  ws_opens :: u64

definition ws_stats_default :: ws_stats where
  "ws_stats_default =
     \<lparr> ws_bytes = 0, ws_frames = 0, ws_messages = 0, ws_published = 0, ws_stale = 0, ws_heartbeats = 0,
       ws_decode_failed = 0, ws_rest = 0, ws_binary = 0, ws_fragments = 0, ws_pings = 0, ws_pongs = 0, ws_closes = 0,
       ws_pings_sent = 0, ws_pongs_sent = 0, ws_keepalives_sent = 0, ws_protocol_errors = 0, ws_disconnects = 0,
       ws_connect_failures = 0, ws_opens = 0 \<rparr>"

definition ws_stats_dropped :: "ws_stats \<Rightarrow> u64" where
  "ws_stats_dropped s = ws_decode_failed s"

subsection \<open>Routers\<close>

definition MAX_KEEPALIVE_LEN :: nat where "MAX_KEEPALIVE_LEN = 256"

text \<open>
  The operations of a router: \<open>venue\<close>, \<open>route\<close> and \<open>route\_rest\<close> through the sink they are handed, and
  \<open>keepalive\<close>, which fills a buffer. What it is to send, fetch or dial is not asked by the loop.
\<close>

type_synonym ('e, 't) router_publish = "(wire_record \<Rightarrow> wire_record \<times> ('e + unit)) \<Rightarrow> 't \<Rightarrow> ('e + unit) \<times> 't"

record ('r, 'e, 't) router_ops =
  ro_venue :: "'r \<Rightarrow> venue"
  ro_route :: "'r \<Rightarrow> ('e, 't) router_publish \<Rightarrow> bytes \<Rightarrow> u64 \<Rightarrow> 't \<Rightarrow> (crypto_error + nat) \<times> 'r \<times> 't"
  ro_route_rest :: "'r \<Rightarrow> ('e, 't) router_publish \<Rightarrow> nat \<Rightarrow> bytes \<Rightarrow> u64 \<Rightarrow> 't \<Rightarrow> (crypto_error + nat) \<times> 'r \<times> 't"
  ro_keepalive :: "'r \<Rightarrow> u64 \<Rightarrow> bytes \<Rightarrow> nat option \<times> 'r \<times> bytes"

text \<open>What the trait gives a router that says nothing.\<close>

definition router_keepalive_default :: "'r \<Rightarrow> u64 \<Rightarrow> bytes \<Rightarrow> nat option \<times> 'r \<times> bytes" where
  "router_keepalive_default r now out = (None, r, out)"

definition router_route_rest_default ::
    "'r \<Rightarrow> ('e, 't) router_publish \<Rightarrow> nat \<Rightarrow> bytes \<Rightarrow> u64 \<Rightarrow> 't \<Rightarrow> (crypto_error + nat) \<times> 'r \<times> 't" where
  "router_route_rest_default r publish instrument body recv_ns t = (Inl CryptoEmpty, r, t)"

subsection \<open>Outcomes and failures\<close>

datatype ws_outcome = WsPublished nat | WsFailed crypto_error

definition ws_outcome_published :: "ws_outcome \<Rightarrow> bool" where
  "ws_outcome_published outcome \<longleftrightarrow> (case outcome of WsPublished records \<Rightarrow> records > 0 | WsFailed _ \<Rightarrow> False)"

definition FAILURE_HEAD :: nat where "FAILURE_HEAD = 240"

record ws_failure =
  wf_error :: crypto_error
  wf_bytes :: bytes
  wf_len :: nat
  wf_total :: nat

definition failure_new :: "crypto_error \<Rightarrow> bytes \<Rightarrow> ws_failure" where
  "failure_new error msg =
     (let len = min (length msg) FAILURE_HEAD
      in \<lparr> wf_error = error, wf_bytes = copy_at 0 (take len msg) (replicate FAILURE_HEAD 0), wf_len = len,
           wf_total = length msg \<rparr>)"

definition failure_head :: "ws_failure \<Rightarrow> bytes" where
  "failure_head f = take (wf_len f) (wf_bytes f)"

subsection \<open>The stale guard\<close>

definition ws_mark_stale :: "wire_record \<Rightarrow> u64 \<Rightarrow> u64 \<Rightarrow> wire_record \<times> bool" where
  "ws_mark_stale rec recv_ns stale_ns =
     (if stale_ns = 0 \<or> h_flags (r_header rec) AND VENUE_TIME_VALID = 0 then (rec, False)
      else if saturating_sub recv_ns (h_venue_ns (r_header rec)) \<le> stale_ns then (rec, False)
      else (rec\<lparr> r_header := (r_header rec)\<lparr> h_flags := h_flags (r_header rec) OR STALE \<rparr> \<rparr>, True))"

text \<open>
  The state of the guard is the sink and the counter \<open>stale\<close> behind it; the variable \<open>hit\<close> the closure
  captures is what its \<open>Ok\<close> carries.
\<close>

type_synonym ('e, 's) ws_publish = "(wire_record \<Rightarrow> wire_record \<times> ('e + bool)) \<Rightarrow> 's \<Rightarrow> ('e + bool) \<times> 's"

definition ws_guard_publish :: "('e, 's) ws_publish \<Rightarrow> u64 \<Rightarrow> u64 \<Rightarrow> ('e, 's \<times> u64) router_publish" where
  "ws_guard_publish publish recv_ns stale_ns fill g =
     (case publish (\<lambda>rec. case fill rec of
               (r, Inl e) \<Rightarrow> (r, Inl e)
             | (r, Inr _) \<Rightarrow> (case ws_mark_stale r recv_ns stale_ns of (r', hit) \<Rightarrow> (r', Inr hit))) (fst g) of
        (Inl e, sink) \<Rightarrow> (Inl e, (sink, snd g))
      | (Inr hit, sink) \<Rightarrow> (Inr (), (sink, if hit then snd g + 1 else snd g)))"

subsection \<open>The pipeline\<close>

record ('r, 's) ws_pipeline =
  cp_stale_ns :: u64
  cp_stats :: ws_stats
  cp_router :: 'r
  cp_sink :: 's
  cp_last_failure :: "ws_failure option"

definition ws_pipeline_new :: "u64 \<Rightarrow> 'r \<Rightarrow> 's \<Rightarrow> ('r, 's) ws_pipeline" where
  "ws_pipeline_new stale_ns router sink =
     \<lparr> cp_stale_ns = stale_ns, cp_stats = ws_stats_default, cp_router = router, cp_sink = sink, cp_last_failure = None \<rparr>"

definition ws_tally :: "(ws_stats \<Rightarrow> ws_stats) \<Rightarrow> ('r, 's) ws_pipeline \<Rightarrow> ('r, 's) ws_pipeline" where
  "ws_tally f p = p\<lparr> cp_stats := f (cp_stats p) \<rparr>"

text \<open>\<open>guarded\<close>: a call of the router with the guard over the sink.\<close>

definition ws_guarded ::
    "('e, 's) ws_publish \<Rightarrow> u64 \<Rightarrow> ('r \<Rightarrow> ('e, 's \<times> u64) router_publish \<Rightarrow> 's \<times> u64 \<Rightarrow> (crypto_error + nat) \<times> 'r \<times> 's \<times> u64) \<Rightarrow>
     ('r, 's) ws_pipeline \<Rightarrow> (crypto_error + nat) \<times> ('r, 's) ws_pipeline" where
  "ws_guarded publish recv_ns route p =
     (case route (cp_router p) (ws_guard_publish publish recv_ns (cp_stale_ns p)) (cp_sink p, 0) of
        (routed, router, sink, stale) \<Rightarrow>
          (routed, ws_tally (ws_stale_update (\<lambda>n. n + stale)) (p\<lparr> cp_router := router, cp_sink := sink \<rparr>)))"

definition ws_book ::
    "(u64 \<Rightarrow> 's \<Rightarrow> 's) \<Rightarrow> crypto_error + nat \<Rightarrow> bytes \<Rightarrow> ('r, 's) ws_pipeline \<Rightarrow> ws_outcome \<times> ('r, 's) ws_pipeline" where
  "ws_book note_drops routed msg p =
     (case routed of
        Inr records \<Rightarrow> (WsPublished records, ws_tally (ws_published_update (\<lambda>n. n + of_nat records)) p)
      | Inl error \<Rightarrow>
          (WsFailed error,
           (ws_tally (ws_decode_failed_update (\<lambda>n. n + 1)) p)
             \<lparr> cp_sink := note_drops 1 (cp_sink p), cp_last_failure := Some (failure_new error msg) \<rparr>))"

definition ws_ingest ::
    "('r, 'e, 's \<times> u64) router_ops \<Rightarrow> ('e, 's) ws_publish \<Rightarrow> (u64 \<Rightarrow> 's \<Rightarrow> 's) \<Rightarrow> bytes \<Rightarrow> u64 \<Rightarrow>
     ('r, 's) ws_pipeline \<Rightarrow> ws_outcome \<times> ('r, 's) ws_pipeline" where
  "ws_ingest ops publish note_drops msg recv_ns p =
     (let p = ws_tally (ws_messages_update (\<lambda>n. n + 1)) p
      in case ws_guarded publish recv_ns (\<lambda>router sink. ro_route ops router sink msg recv_ns) p of
           (routed, p) \<Rightarrow> ws_book note_drops routed msg p)"

definition ws_ingest_rest ::
    "('r, 'e, 's \<times> u64) router_ops \<Rightarrow> ('e, 's) ws_publish \<Rightarrow> (u64 \<Rightarrow> 's \<Rightarrow> 's) \<Rightarrow> nat \<Rightarrow> bytes \<Rightarrow> u64 \<Rightarrow>
     ('r, 's) ws_pipeline \<Rightarrow> ws_outcome \<times> ('r, 's) ws_pipeline" where
  "ws_ingest_rest ops publish note_drops instrument body recv_ns p =
     (let p = ws_tally (ws_rest_update (\<lambda>n. n + 1)) p
      in case ws_guarded publish recv_ns (\<lambda>router sink. ro_route_rest ops router sink instrument body recv_ns) p of
           (routed, p) \<Rightarrow> ws_book note_drops routed body p)"

definition ws_take_failure :: "('r, 's) ws_pipeline \<Rightarrow> ws_failure option \<times> ('r, 's) ws_pipeline" where
  "ws_take_failure p = (cp_last_failure p, p\<lparr> cp_last_failure := None \<rparr>)"

definition ws_heartbeat_record :: "venue \<Rightarrow> u64 \<Rightarrow> u64 \<Rightarrow> u64 \<Rightarrow> wire_record" where
  "ws_heartbeat_record venue received forwarded now =
     new_heartbeat (header_new Heartbeat venue (replicate SYMBOL_LEN 0) now)
       \<lparr> hb_received = received, hb_forwarded = forwarded \<rparr>"

definition ws_heartbeat ::
    "('r, 'e, 's \<times> u64) router_ops \<Rightarrow> ('e, 's) ws_publish \<Rightarrow> u64 \<Rightarrow> ('r, 's) ws_pipeline \<Rightarrow> ('r, 's) ws_pipeline" where
  "ws_heartbeat ops publish now p =
     (case publish
        (\<lambda>_. (ws_heartbeat_record (ro_venue ops (cp_router p)) (ws_messages (cp_stats p)) (ws_published (cp_stats p)) now,
              Inr False)) (cp_sink p) of
        (_, sink) \<Rightarrow> ws_tally (ws_heartbeats_update (\<lambda>n. n + 1)) (p\<lparr> cp_sink := sink \<rparr>))"

definition ws_note_bytes :: "u64 \<Rightarrow> ('r, 's) ws_pipeline \<Rightarrow> ('r, 's) ws_pipeline" where
  "ws_note_bytes n = ws_tally (ws_bytes_update (\<lambda>k. k + n))"

definition ws_note_frame :: "('r, 's) ws_pipeline \<Rightarrow> ('r, 's) ws_pipeline" where
  "ws_note_frame = ws_tally (ws_frames_update (\<lambda>n. n + 1))"

definition ws_note_fragment :: "('r, 's) ws_pipeline \<Rightarrow> ('r, 's) ws_pipeline" where
  "ws_note_fragment = ws_tally (ws_fragments_update (\<lambda>n. n + 1))"

definition ws_note_binary :: "('r, 's) ws_pipeline \<Rightarrow> ('r, 's) ws_pipeline" where
  "ws_note_binary = ws_tally (ws_binary_update (\<lambda>n. n + 1))"

definition ws_note_ping :: "('r, 's) ws_pipeline \<Rightarrow> ('r, 's) ws_pipeline" where
  "ws_note_ping = ws_tally (ws_pings_update (\<lambda>n. n + 1))"

definition ws_note_pong :: "('r, 's) ws_pipeline \<Rightarrow> ('r, 's) ws_pipeline" where
  "ws_note_pong = ws_tally (ws_pongs_update (\<lambda>n. n + 1))"

definition ws_note_close :: "('r, 's) ws_pipeline \<Rightarrow> ('r, 's) ws_pipeline" where
  "ws_note_close = ws_tally (ws_closes_update (\<lambda>n. n + 1))"

definition ws_note_ping_sent :: "('r, 's) ws_pipeline \<Rightarrow> ('r, 's) ws_pipeline" where
  "ws_note_ping_sent = ws_tally (ws_pings_sent_update (\<lambda>n. n + 1))"

definition ws_note_pong_sent :: "('r, 's) ws_pipeline \<Rightarrow> ('r, 's) ws_pipeline" where
  "ws_note_pong_sent = ws_tally (ws_pongs_sent_update (\<lambda>n. n + 1))"

definition ws_note_keepalive :: "('r, 's) ws_pipeline \<Rightarrow> ('r, 's) ws_pipeline" where
  "ws_note_keepalive = ws_tally (ws_keepalives_sent_update (\<lambda>n. n + 1))"

definition ws_note_protocol_error :: "('r, 's) ws_pipeline \<Rightarrow> ('r, 's) ws_pipeline" where
  "ws_note_protocol_error = ws_tally (ws_protocol_errors_update (\<lambda>n. n + 1))"

definition ws_note_disconnect :: "('r, 's) ws_pipeline \<Rightarrow> ('r, 's) ws_pipeline" where
  "ws_note_disconnect = ws_tally (ws_disconnects_update (\<lambda>n. n + 1))"

definition ws_note_connect_failure :: "('r, 's) ws_pipeline \<Rightarrow> ('r, 's) ws_pipeline" where
  "ws_note_connect_failure = ws_tally (ws_connect_failures_update (\<lambda>n. n + 1))"

definition ws_note_open :: "('r, 's) ws_pipeline \<Rightarrow> ('r, 's) ws_pipeline" where
  "ws_note_open = ws_tally (ws_opens_update (\<lambda>n. n + 1))"

lemmas ws_notes = ws_note_bytes_def ws_note_frame_def ws_note_fragment_def ws_note_binary_def ws_note_ping_def
  ws_note_pong_def ws_note_close_def ws_note_ping_sent_def ws_note_pong_sent_def ws_note_keepalive_def
  ws_note_protocol_error_def ws_note_disconnect_def ws_note_connect_failure_def ws_note_open_def

subsection \<open>What a pipeline does with a message\<close>

text \<open>Router, sink and kept failure: what the messages make of a pipeline, its counters left out.\<close>

definition cp_feed :: "('r, 's) ws_pipeline \<Rightarrow> 'r \<times> 's \<times> ws_failure option \<times> u64" where
  "cp_feed p = (cp_router p, cp_sink p, cp_last_failure p, cp_stale_ns p)"

lemma ws_tally_fields [simp]:
  "cp_stale_ns (ws_tally f p) = cp_stale_ns p" "cp_stats (ws_tally f p) = f (cp_stats p)"
  "cp_router (ws_tally f p) = cp_router p" "cp_sink (ws_tally f p) = cp_sink p"
  "cp_last_failure (ws_tally f p) = cp_last_failure p" "cp_feed (ws_tally f p) = cp_feed p"
  by (simp_all add: ws_tally_def cp_feed_def)

lemma ws_ingest_feed:
  "cp_feed p = cp_feed q \<Longrightarrow>
   cp_feed (snd (ws_ingest ops publish note_drops msg recv_ns p)) = cp_feed (snd (ws_ingest ops publish note_drops msg recv_ns q))"
  by (simp add: ws_ingest_def ws_guarded_def ws_book_def cp_feed_def Let_def split: prod.split sum.split)

end
