(* ===== verification/Ws_Link.thy ===== *)
theory Ws_Link
  imports Ws_Handshake Fix_Link
begin

text \<open>
  \<open>crates/jeed-crypto/src/recv/link.rs\<close>: the connection of a WebSocket feed. TCP, TLS and the random source
  are the operating system's and the TLS library's: a record of operations on their state \<open>'k\<close>, an argument
  of every function that calls them, of which nothing is assumed. A frame is read where it lies in the
  receive buffer.
\<close>

unbundle bit_operations_syntax

subsection \<open>What is outside\<close>

text \<open>
  Beside the TCP operations: whether a host can be a TLS server name, a TLS session over a connected stream,
  reading, writing and flushing through it, and sixteen random bytes. An error of the TLS library is a number.
\<close>

type_synonym tls_error = nat

record 'k ws_os =
  wo_tcp :: "'k tcp"
  wo_server_name :: "chars \<Rightarrow> bool"
  wo_tls_new :: "chars \<Rightarrow> stream \<Rightarrow> 'k \<Rightarrow> (tls_error + unit) \<times> 'k"
  wo_tls_read :: "stream \<Rightarrow> nat \<Rightarrow> 'k \<Rightarrow> (io_kind + bytes) \<times> 'k"
  wo_tls_write_all :: "stream \<Rightarrow> bytes \<Rightarrow> 'k \<Rightarrow> (io_kind + unit) \<times> 'k"
  wo_tls_flush :: "stream \<Rightarrow> 'k \<Rightarrow> (io_kind + unit) \<times> 'k"
  wo_random :: "'k \<Rightarrow> bytes option \<times> 'k"

subsection \<open>Constants, options and errors\<close>

definition WS_RECV_BUFFER :: nat where "WS_RECV_BUFFER = 2 ^ 20"
definition WS_MESSAGE_BUFFER :: nat where "WS_MESSAGE_BUFFER = 2 ^ 20"
definition WS_SEND_BUFFER :: nat where "WS_SEND_BUFFER = 16 * 1024"

definition CLOSE_NORMAL :: u16 where "CLOSE_NORMAL = 1000"
definition CLOSE_GOING_AWAY :: u16 where "CLOSE_GOING_AWAY = 1001"
definition CLOSE_PROTOCOL_ERROR :: u16 where "CLOSE_PROTOCOL_ERROR = 1002"

record ws_options =
  wp_nodelay :: bool
  wp_connect_timeout :: nat
  wp_handshake_timeout :: nat
  wp_read_timeout :: nat
  wp_write_timeout :: nat

definition ws_options_default :: ws_options where
  "ws_options_default =
     \<lparr> wp_nodelay = True, wp_connect_timeout = 5 * 10 ^ 9, wp_handshake_timeout = 10 * 10 ^ 9,
       wp_read_timeout = 100 * 10 ^ 6, wp_write_timeout = 5 * 10 ^ 9 \<rparr>"

datatype ws_link_error =
    WlIo string io_kind
  | WlClosed "u16 option"
  | WlProtocol ws_error
  | WlOversize nat
  | WlTimeout string
  | WlSilent
  | WlName
  | WlTls tls_error
  | WlRandom

fun ws_is_closed :: "ws_link_error \<Rightarrow> bool" where
  "ws_is_closed (WlClosed _) = True"
| "ws_is_closed _ = False"

subsection \<open>The receive buffer\<close>

record recv_buffer =
  rb_buf :: bytes
  rb_head :: nat
  rb_len :: nat

definition rb_new :: "nat \<Rightarrow> recv_buffer" where
  "rb_new capacity = \<lparr> rb_buf = replicate capacity 0, rb_head = 0, rb_len = 0 \<rparr>"

definition rb_filled :: "recv_buffer \<Rightarrow> bytes" where
  "rb_filled b = drop (rb_head b) (take (rb_len b) (rb_buf b))"

definition rb_capacity :: "recv_buffer \<Rightarrow> nat" where
  "rb_capacity b = length (rb_buf b)"

definition rb_compact :: "recv_buffer \<Rightarrow> recv_buffer" where
  "rb_compact b =
     (if rb_head b > 0
      then b\<lparr> rb_buf := copy_at 0 (rb_filled b) (rb_buf b), rb_len := rb_len b - rb_head b, rb_head := 0 \<rparr>
      else b)"

definition rb_spare :: "recv_buffer \<Rightarrow> bytes" where
  "rb_spare b = drop (rb_len b) (rb_buf b)"

text \<open>What a \<open>read\<close> does to the spare tail it is given.\<close>

definition rb_write_spare :: "bytes \<Rightarrow> recv_buffer \<Rightarrow> recv_buffer" where
  "rb_write_spare bs b = b\<lparr> rb_buf := copy_at (rb_len b) bs (rb_buf b) \<rparr>"

definition rb_commit :: "nat \<Rightarrow> recv_buffer \<Rightarrow> recv_buffer" where
  "rb_commit n b = b\<lparr> rb_len := min (rb_len b + n) (length (rb_buf b)) \<rparr>"

definition rb_consume :: "nat \<Rightarrow> recv_buffer \<Rightarrow> recv_buffer" where
  "rb_consume n b =
     (let head = min (rb_head b + n) (rb_len b)
      in if head = rb_len b then b\<lparr> rb_head := 0, rb_len := 0 \<rparr> else b\<lparr> rb_head := head \<rparr>)"

subsection \<open>Streams\<close>

datatype ws_stream = PlainStream stream | TlsStream stream

fun ws_tcp :: "ws_stream \<Rightarrow> stream" where
  "ws_tcp (PlainStream fd) = fd"
| "ws_tcp (TlsStream fd) = fd"

fun ws_read :: "'k ws_os \<Rightarrow> ws_stream \<Rightarrow> nat \<Rightarrow> 'k \<Rightarrow> (io_kind + bytes) \<times> 'k" where
  "ws_read os (PlainStream fd) = tcp_read (wo_tcp os) fd"
| "ws_read os (TlsStream fd) = wo_tls_read os fd"

fun ws_write_all :: "'k ws_os \<Rightarrow> ws_stream \<Rightarrow> bytes \<Rightarrow> 'k \<Rightarrow> (io_kind + unit) \<times> 'k" where
  "ws_write_all os (PlainStream fd) = tcp_write_all (wo_tcp os) fd"
| "ws_write_all os (TlsStream fd) = wo_tls_write_all os fd"

fun ws_flush :: "'k ws_os \<Rightarrow> ws_stream \<Rightarrow> 'k \<Rightarrow> (io_kind + unit) \<times> 'k" where
  "ws_flush os (PlainStream fd) = tcp_flush (wo_tcp os) fd"
| "ws_flush os (TlsStream fd) = wo_tls_flush os fd"

text \<open>Dropping a stream closes its socket.\<close>

definition ws_drop_stream :: "'k ws_os \<Rightarrow> ws_stream \<Rightarrow> 'k \<Rightarrow> 'k" where
  "ws_drop_stream os s = tcp_close (wo_tcp os) (ws_tcp s)"

definition ws_or_drop :: "'k ws_os \<Rightarrow> ws_stream \<Rightarrow> (ws_link_error + 'a) \<times> 'k \<Rightarrow> (ws_link_error + 'a) \<times> 'k" where
  "ws_or_drop os s res = (case res of (Inl e, k) \<Rightarrow> (Inl e, ws_drop_stream os s k) | (Inr v, k) \<Rightarrow> (Inr v, k))"

text \<open>\<open>f(..).map\_err(|e| LinkError::io(call, e))?\<close>, and what follows with its value.\<close>

definition wl_then ::
    "string \<Rightarrow> ('k \<Rightarrow> (io_kind + 'b) \<times> 'k) \<Rightarrow> ('b \<Rightarrow> 'k \<Rightarrow> (ws_link_error + 'a) \<times> 'k) \<Rightarrow> 'k \<Rightarrow> (ws_link_error + 'a) \<times> 'k" where
  "wl_then call f nxt k = (case f k of (Inl e, k) \<Rightarrow> (Inl (WlIo call e), k) | (Inr v, k) \<Rightarrow> nxt v k)"

definition ws_resolve :: "'k ws_os \<Rightarrow> ws_endpoint \<Rightarrow> 'k \<Rightarrow> (io_kind + socket_addr) \<times> 'k" where
  "ws_resolve os e k =
     (case tcp_addrs (wo_tcp os) (we_host e) (we_port e) k of
        (Inl err, k) \<Rightarrow> (Inl err, k)
      | (Inr as, k) \<Rightarrow> (case prefer_ipv4 as None of None \<Rightarrow> (Inl NotFound, k) | Some a \<Rightarrow> (Inr a, k)))"

definition ws_stream_open :: "'k ws_os \<Rightarrow> ws_endpoint \<Rightarrow> nat \<Rightarrow> 'k \<Rightarrow> (ws_link_error + ws_stream) \<times> 'k" where
  "ws_stream_open os e connect_timeout =
     wl_then ''resolve'' (ws_resolve os e) (\<lambda>peer.
       wl_then ''connect'' (tcp_connect (wo_tcp os) peer connect_timeout) (\<lambda>fd k.
         if \<not> we_tls e then (Inr (PlainStream fd), k)
         else if \<not> wo_server_name os (we_host e) then (Inl WlName, tcp_close (wo_tcp os) fd k)
         else
           (case wo_tls_new os (we_host e) fd k of
              (Inl err, k) \<Rightarrow> (Inl (WlTls err), tcp_close (wo_tcp os) fd k)
            | (Inr _, k) \<Rightarrow> (Inr (TlsStream fd), k))))"

subsection \<open>The link\<close>

record ws_link =
  wl_stream :: ws_stream
  wl_peer :: socket_addr
  wl_buf :: recv_buffer
  wl_out :: bytes
  wl_mask :: u64

definition next_mask :: "ws_link \<Rightarrow> bytes \<times> ws_link" where
  "next_mask l =
     (let x = wl_mask l;
          x = x XOR push_bit 13 x;
          x = x XOR drop_bit 7 x;
          x = x XOR push_bit 17 x
      in (to_le_bytes 4 (ucast x :: u32), l\<lparr> wl_mask := x \<rparr>))"

definition wl_prepare :: "'k ws_os \<Rightarrow> stream \<Rightarrow> ws_options \<Rightarrow> 'k \<Rightarrow> (ws_link_error + unit) \<times> 'k" where
  "wl_prepare os fd opts =
     wl_then ''set_nodelay'' (tcp_set (wo_tcp os) fd (NoDelay (wp_nodelay opts))) (\<lambda>_.
       wl_then ''set_write_timeout'' (tcp_set (wo_tcp os) fd (WriteTimeout (wp_write_timeout opts))) (\<lambda>_.
         wl_then ''set_read_timeout'' (tcp_set (wo_tcp os) fd (ReadTimeout (Some (wp_handshake_timeout opts))))
           (\<lambda>_ k. (Inr (), k))))"

text \<open>A read gives at most as many bytes as the slice is long.\<close>

definition wl_fill :: "'k ws_os \<Rightarrow> ws_link \<Rightarrow> 'k \<Rightarrow> (ws_link_error + nat) \<times> ws_link \<times> 'k" where
  "wl_fill os l k =
     (let b = rb_compact (wl_buf l); l = l\<lparr> wl_buf := b \<rparr>; spare = length (rb_spare b)
      in if spare = 0 then (Inl (WlOversize (rb_capacity b)), l, k)
         else
           case ws_read os (wl_stream l) spare k of
             (Inr bs, k) \<Rightarrow>
               let bs = take spare bs; n = length bs
               in if n = 0 then (Inl (WlClosed None), l, k)
                  else (Inr n, l\<lparr> wl_buf := rb_commit n (rb_write_spare bs b) \<rparr>, k)
           | (Inl e, k) \<Rightarrow>
               if would_block e then (Inr 0, l, k)
               else if e = UnexpectedEof then (Inl (WlClosed None), l, k)
               else (Inl (WlIo ''read'' e), l, k))"

record ws_in =
  wi_fin :: bool
  wi_opcode :: opcode
  wi_payload :: bytes
  wi_len :: nat

definition wl_peek :: "ws_link \<Rightarrow> ws_link_error + ws_in option" where
  "wl_peek l =
     (let filled = rb_filled (wl_buf l)
      in case parse_header filled of
           Inl e \<Rightarrow> Inl (WlProtocol e)
         | Inr None \<Rightarrow> Inr None
         | Inr (Some h) \<Rightarrow>
             let len = ws_header_total h
             in if len > rb_capacity (wl_buf l) then Inl (WlOversize (rb_capacity (wl_buf l)))
                else if length filled < len then Inr None
                else Inr (Some \<lparr> wi_fin = wh_fin h, wi_opcode = wh_opcode h,
                                 wi_payload = drop (wh_header_len h) (take len filled), wi_len = len \<rparr>))"

definition wl_consume :: "nat \<Rightarrow> ws_link \<Rightarrow> ws_link" where
  "wl_consume n l = l\<lparr> wl_buf := rb_consume n (wl_buf l) \<rparr>"

definition wl_pending :: "ws_link \<Rightarrow> nat" where
  "wl_pending l = length (rb_filled (wl_buf l))"

definition wl_write :: "'k ws_os \<Rightarrow> nat \<Rightarrow> ws_link \<Rightarrow> 'k \<Rightarrow> (ws_link_error + unit) \<times> 'k" where
  "wl_write os n l k =
     wl_then ''write'' (ws_write_all os (wl_stream l) (take n (wl_out l))) (\<lambda>_ k.
       case ws_flush os (wl_stream l) k of
         (Inr _, k) \<Rightarrow> (Inr (), k)
       | (Inl e, k) \<Rightarrow> if would_block e then (Inr (), k) else (Inl (WlIo ''flush'' e), k)) k"

definition wl_send :: "'k ws_os \<Rightarrow> opcode \<Rightarrow> bytes \<Rightarrow> ws_link \<Rightarrow> 'k \<Rightarrow> (ws_link_error + unit) \<times> ws_link \<times> 'k" where
  "wl_send os op payload l k =
     (case next_mask l of
        (key, l) \<Rightarrow>
          case write_frame op payload key (wl_out l) of
            (Inl e, buf) \<Rightarrow> (Inl (WlProtocol e), l\<lparr> wl_out := buf \<rparr>, k)
          | (Inr n, buf) \<Rightarrow> let l = l\<lparr> wl_out := buf \<rparr> in (case wl_write os n l k of (res, k) \<Rightarrow> (res, l, k)))"

definition wl_send_close :: "'k ws_os \<Rightarrow> u16 \<Rightarrow> ws_link \<Rightarrow> 'k \<Rightarrow> (ws_link_error + unit) \<times> ws_link \<times> 'k" where
  "wl_send_close os code l k =
     (case next_mask l of
        (key, l) \<Rightarrow>
          case write_close code key (wl_out l) of
            (Inl e, buf) \<Rightarrow> (Inl (WlProtocol e), l\<lparr> wl_out := buf \<rparr>, k)
          | (Inr n, buf) \<Rightarrow> let l = l\<lparr> wl_out := buf \<rparr> in (case wl_write os n l k of (res, k) \<Rightarrow> (res, l, k)))"

definition wl_set_mode :: "'k ws_os \<Rightarrow> bool \<Rightarrow> nat \<Rightarrow> ws_link \<Rightarrow> 'k \<Rightarrow> (ws_link_error + unit) \<times> 'k" where
  "wl_set_mode os spin read_timeout l =
     (let fd = ws_tcp (wl_stream l)
      in wl_then ''set_nonblocking'' (tcp_set (wo_tcp os) fd (NonBlocking spin)) (\<lambda>_.
           wl_then ''set_read_timeout'' (tcp_set (wo_tcp os) fd (ReadTimeout (if spin then None else Some read_timeout)))
             (\<lambda>_ k. (Inr (), k))))"

subsection \<open>Connecting\<close>

text \<open>
  The loop of \<open>handshake\<close> ends with the response, an error, or the deadline; on a clock that stands still
  it may run for ever.
\<close>

partial_function (option) wl_await ::
    "'k ws_os \<Rightarrow> bytes \<Rightarrow> u64 \<Rightarrow> ws_link \<Rightarrow> 'k \<Rightarrow> ((ws_link_error + unit) \<times> ws_link \<times> 'k) option" where
  "wl_await os expected deadline l k =
     (case parse_response (rb_filled (wl_buf l)) expected of
        Inl e \<Rightarrow> Some (Inl (WlProtocol e), l, k)
      | Inr (Some n) \<Rightarrow> Some (Inr (), wl_consume n l, k)
      | Inr None \<Rightarrow>
          (case tcp_now (wo_tcp os) k of
             (now, k) \<Rightarrow>
               if now > deadline then Some (Inl (WlTimeout ''handshake''), l, k)
               else
                 (case wl_fill os l k of
                    (res, l, k) \<Rightarrow> (case res of Inl e \<Rightarrow> Some (Inl e, l, k) | Inr _ \<Rightarrow> wl_await os expected deadline l k))))"

definition wl_handshake ::
    "'k ws_os \<Rightarrow> ws_endpoint \<Rightarrow> bytes \<Rightarrow> nat \<Rightarrow> ws_link \<Rightarrow> 'k \<Rightarrow> ((ws_link_error + unit) \<times> ws_link \<times> 'k) option" where
  "wl_handshake os e key timeout l k =
     (let expected = ws_accept key
      in case ws_request (wl_out l) e key of
           (Inl err, buf) \<Rightarrow> Some (Inl (WlProtocol err), l\<lparr> wl_out := buf \<rparr>, k)
         | (Inr n, buf) \<Rightarrow>
             let l = l\<lparr> wl_out := buf \<rparr>
             in case wl_then ''write'' (ws_write_all os (wl_stream l) (take n buf)) (\<lambda>_.
                       wl_then ''flush'' (ws_flush os (wl_stream l)) (\<lambda>_ k. (Inr (), k))) k of
                  (Inl err, k) \<Rightarrow> Some (Inl err, l, k)
                | (Inr _, k) \<Rightarrow>
                    (case tcp_now (wo_tcp os) k of
                       (now, k) \<Rightarrow> wl_await os expected (saturating_add now (word_of_nat timeout)) l k))"

definition wl_open ::
    "'k ws_os \<Rightarrow> ws_stream \<Rightarrow> socket_addr \<Rightarrow> ws_endpoint \<Rightarrow> nat \<Rightarrow> 'k \<Rightarrow> ((ws_link_error + ws_link) \<times> 'k) option" where
  "wl_open os s peer e timeout k =
     (case wo_random os k of
        (None, k) \<Rightarrow> Some (Inl WlRandom, ws_drop_stream os s k)
      | (Some nonce, k) \<Rightarrow>
          let l = \<lparr> wl_stream = s, wl_peer = peer, wl_buf = rb_new WS_RECV_BUFFER, wl_out = replicate WS_SEND_BUFFER 0,
                    wl_mask = from_le_bytes (take 8 nonce) OR 1 \<rparr>
          in map_option (\<lambda>(res, l, k). case res of Inl err \<Rightarrow> (Inl err, ws_drop_stream os s k) | Inr _ \<Rightarrow> (Inr l, k))
               (wl_handshake os e (ws_key nonce) timeout l k))"

definition wl_connect :: "'k ws_os \<Rightarrow> ws_endpoint \<Rightarrow> ws_options \<Rightarrow> 'k \<Rightarrow> ((ws_link_error + ws_link) \<times> 'k) option" where
  "wl_connect os e opts k =
     (case ws_stream_open os e (wp_connect_timeout opts) k of
        (Inl err, k) \<Rightarrow> Some (Inl err, k)
      | (Inr s, k) \<Rightarrow>
          (case ws_or_drop os s
                  (wl_then ''peer_addr'' (tcp_peer (wo_tcp os) (ws_tcp s)) (\<lambda>peer k.
                     case wl_prepare os (ws_tcp s) opts k of (Inl err, k) \<Rightarrow> (Inl err, k) | (Inr _, k) \<Rightarrow> (Inr peer, k)) k) of
             (Inl err, k) \<Rightarrow> Some (Inl err, k)
           | (Inr peer, k) \<Rightarrow> wl_open os s peer e (wp_handshake_timeout opts) k))"

definition wl_upgrade :: "'k ws_os \<Rightarrow> stream \<Rightarrow> ws_endpoint \<Rightarrow> ws_options \<Rightarrow> 'k \<Rightarrow> ((ws_link_error + ws_link) \<times> 'k) option" where
  "wl_upgrade os fd e opts k =
     (case ws_or_drop os (PlainStream fd)
             (wl_then ''peer_addr'' (tcp_peer (wo_tcp os) fd) (\<lambda>peer k.
                case wl_prepare os fd opts k of (Inl err, k) \<Rightarrow> (Inl err, k) | (Inr _, k) \<Rightarrow> (Inr peer, k)) k) of
        (Inl err, k) \<Rightarrow> Some (Inl err, k)
      | (Inr peer, k) \<Rightarrow> wl_open os (PlainStream fd) peer e (wp_handshake_timeout opts) k)"

end
