(* ===== verification/Ws_Receiver.thy ===== *)
theory Ws_Receiver
  imports Crypto_Pipeline Ws_Link
begin

text \<open>
  \<open>crates/jeed-crypto/src/recv/receiver.rs\<close>: the loop that connects, reads, answers pings, reassembles
  messages, keeps the connection alive and reconnects.
\<close>

subsection \<open>Configuration\<close>

datatype ws_mode = WsSpin | WsBlock

datatype ws_state = WsDisconnected | WsOpen

definition ws_connected :: "ws_state \<Rightarrow> bool" where
  "ws_connected s \<longleftrightarrow> s = WsOpen"

record ws_config =
  wc_mode :: ws_mode
  wc_ping_interval_ns :: u64
  wc_record_heartbeat_ns :: u64
  wc_stale_ns :: u64
  wc_burst :: u32
  wc_reconnect_ns :: u64
  wc_link :: ws_options

definition ws_config_default :: ws_config where
  "ws_config_default =
     \<lparr> wc_mode = WsBlock, wc_ping_interval_ns = 30000000000, wc_record_heartbeat_ns = 100000000, wc_stale_ns = 500000000,
       wc_burst = 64, wc_reconnect_ns = 5000000000, wc_link = ws_options_default \<rparr>"

subsection \<open>The receiver\<close>

record ('r, 's) ws_receiver =
  wr_cfg :: ws_config
  wr_endpoint :: ws_endpoint
  wr_pipeline :: "('r, 's) ws_pipeline"
  wr_link :: "ws_link option"
  wr_assembly :: assembly
  wr_state :: ws_state
  wr_next_connect_ns :: u64
  wr_next_record_heartbeat_ns :: u64
  wr_last_rx_ns :: u64
  wr_pinged :: bool
  wr_keep :: bytes

definition ws_receiver_new :: "ws_config \<Rightarrow> ws_endpoint \<Rightarrow> 'r \<Rightarrow> 's \<Rightarrow> ('r, 's) ws_receiver" where
  "ws_receiver_new cfg e router sink =
     \<lparr> wr_cfg = cfg, wr_endpoint = e, wr_pipeline = ws_pipeline_new (wc_stale_ns cfg) router sink, wr_link = None,
       wr_assembly = assembly_new WS_MESSAGE_BUFFER, wr_state = WsDisconnected, wr_next_connect_ns = 0,
       wr_next_record_heartbeat_ns = 0, wr_last_rx_ns = 0, wr_pinged = False, wr_keep = replicate MAX_KEEPALIVE_LEN 0 \<rparr>"

definition on_ws_pipeline :: "(('r, 's) ws_pipeline \<Rightarrow> ('r, 's) ws_pipeline) \<Rightarrow> ('r, 's) ws_receiver \<Rightarrow> ('r, 's) ws_receiver" where
  "on_ws_pipeline f r = r\<lparr> wr_pipeline := f (wr_pipeline r) \<rparr>"

subsection \<open>One frame\<close>

datatype ws_action = ActionNone | ActionPong bytes nat | ActionClose "u16 option"

definition ws_ingest_message ::
    "('r, 'e, 's \<times> u64) router_ops \<Rightarrow> ('e, 's) ws_publish \<Rightarrow> (u64 \<Rightarrow> 's \<Rightarrow> 's) \<Rightarrow> opcode \<Rightarrow> bytes \<Rightarrow> u64 \<Rightarrow>
     ('r, 's) ws_pipeline \<Rightarrow> ('r, 's) ws_pipeline" where
  "ws_ingest_message ops publish note_drops op bs recv_ns p =
     snd (ws_ingest ops publish note_drops bs recv_ns (if op = Binary then ws_note_binary p else p))"

definition on_frame ::
    "('r, 'e, 's \<times> u64) router_ops \<Rightarrow> ('e, 's) ws_publish \<Rightarrow> (u64 \<Rightarrow> 's \<Rightarrow> 's) \<Rightarrow> ws_in \<Rightarrow> u64 \<Rightarrow>
     ('r, 's) ws_pipeline \<Rightarrow> assembly \<Rightarrow> (ws_link_error + ws_action) \<times> ('r, 's) ws_pipeline \<times> assembly" where
  "on_frame ops publish note_drops f recv_ns p a =
     (let p = ws_note_frame p
      in case wi_opcode f of
           Ping \<Rightarrow>
             let n = min (length (wi_payload f)) MAX_CONTROL_PAYLOAD;
                 payload = copy_at 0 (take n (wi_payload f)) (replicate MAX_CONTROL_PAYLOAD 0)
             in (Inr (ActionPong payload n), ws_note_ping p, a)
         | Pong \<Rightarrow> (Inr ActionNone, ws_note_pong p, a)
         | Close \<Rightarrow> (Inr (ActionClose (close_code (wi_payload f))), ws_note_close p, a)
         | Continuation \<Rightarrow>
             (case assembly_append (wi_payload f) a of
                (Inl e, a) \<Rightarrow> (Inl (WlProtocol e), p, a)
              | (Inr _, a) \<Rightarrow>
                  let p = ws_note_fragment p
                  in if wi_fin f
                     then (case assembly_take a of
                             (Some (op, bs), a) \<Rightarrow> (Inr ActionNone, ws_ingest_message ops publish note_drops op bs recv_ns p, a)
                           | (None, a) \<Rightarrow> (Inr ActionNone, p, a))
                     else (Inr ActionNone, p, a))
         | _ \<Rightarrow>
             if wi_fin f \<and> \<not> assembly_is_open a
             then (Inr ActionNone, ws_ingest_message ops publish note_drops (wi_opcode f) (wi_payload f) recv_ns p, a)
             else
               (case assembly_begin (wi_opcode f) (wi_payload f) a of
                  (Inl e, a) \<Rightarrow> (Inl (WlProtocol e), p, a)
                | (Inr _, a) \<Rightarrow> (Inr ActionNone, ws_note_fragment p, a)))"

subsection \<open>Losing the connection\<close>

definition wr_drop_link :: "'k ws_os \<Rightarrow> ('r, 's) ws_receiver \<Rightarrow> 'k \<Rightarrow> ('r, 's) ws_receiver \<times> 'k" where
  "wr_drop_link os r k =
     (r\<lparr> wr_link := None, wr_assembly := assembly_reset (wr_assembly r), wr_state := WsDisconnected, wr_pinged := False \<rparr>,
      case wr_link r of None \<Rightarrow> k | Some l \<Rightarrow> ws_drop_stream os (wl_stream l) k)"

definition wr_fail :: "'k ws_os \<Rightarrow> ('r, 's) ws_receiver \<Rightarrow> 'k \<Rightarrow> ('r, 's) ws_receiver \<times> 'k" where
  "wr_fail os r k = wr_drop_link os (on_ws_pipeline ws_note_disconnect r) k"

definition wr_shutdown :: "'k ws_os \<Rightarrow> u16 \<Rightarrow> ('r, 's) ws_receiver \<Rightarrow> 'k \<Rightarrow> ('r, 's) ws_receiver \<times> 'k" where
  "wr_shutdown os code r k =
     (case wr_link r of
        None \<Rightarrow> wr_drop_link os r k
      | Some l \<Rightarrow> (case wl_send_close os code l k of (_, l, k) \<Rightarrow> wr_drop_link os (r\<lparr> wr_link := Some l \<rparr>) k))"

text \<open>\<open>if let Some(link) = .. \&\& let Err(e) = link.send(..)\<close>: a send on the link there is, and the error of it.\<close>

definition wr_send :: "'k ws_os \<Rightarrow> opcode \<Rightarrow> bytes \<Rightarrow> ('r, 's) ws_receiver \<Rightarrow> 'k \<Rightarrow> ws_link_error option \<times> ('r, 's) ws_receiver \<times> 'k" where
  "wr_send os op payload r k =
     (case wr_link r of
        None \<Rightarrow> (None, r, k)
      | Some l \<Rightarrow>
          (case wl_send os op payload l k of
             (Inr _, l, k) \<Rightarrow> (None, r\<lparr> wr_link := Some l \<rparr>, k)
           | (Inl e, l, k) \<Rightarrow> (case wr_fail os (r\<lparr> wr_link := Some l \<rparr>) k of (r, k) \<Rightarrow> (Some e, r, k))))"

datatype ws_send_error = WsSendDisconnected | WsSendLink ws_link_error

definition wr_send_text :: "'k ws_os \<Rightarrow> bytes \<Rightarrow> ('r, 's) ws_receiver \<Rightarrow> 'k \<Rightarrow> (ws_send_error + unit) \<times> ('r, 's) ws_receiver \<times> 'k" where
  "wr_send_text os payload r k =
     (if wr_link r = None then (Inl WsSendDisconnected, r, k)
      else case wr_send os Text payload r k of
             (None, r, k) \<Rightarrow> (Inr (), r, k)
           | (Some e, r, k) \<Rightarrow> (Inl (WsSendLink e), r, k))"

subsection \<open>Silence and keepalives\<close>

definition PING_PAYLOAD :: bytes where "PING_PAYLOAD = str ''jeed''"

definition wr_keepalive ::
    "'k ws_os \<Rightarrow> ('r, 'e, 's \<times> u64) router_ops \<Rightarrow> u64 \<Rightarrow> ('r, 's) ws_receiver \<Rightarrow> 'k \<Rightarrow> ws_link_error option \<times> ('r, 's) ws_receiver \<times> 'k" where
  "wr_keepalive os ops now r k =
     (case ro_keepalive ops (cp_router (wr_pipeline r)) now (wr_keep r) of
        (due, router, keep) \<Rightarrow>
          let r = (on_ws_pipeline (\<lambda>p. p\<lparr> cp_router := router \<rparr>) r)\<lparr> wr_keep := keep \<rparr>
          in case due of
               None \<Rightarrow> (None, r, k)
             | Some n \<Rightarrow> wr_send os Text (take n keep) (on_ws_pipeline ws_note_keepalive r) k)"

definition wr_tick ::
    "'k ws_os \<Rightarrow> ('r, 'e, 's \<times> u64) router_ops \<Rightarrow> u64 \<Rightarrow> ('r, 's) ws_receiver \<Rightarrow> 'k \<Rightarrow> ws_link_error option \<times> ('r, 's) ws_receiver \<times> 'k" where
  "wr_tick os ops now r k =
     (let interval = wc_ping_interval_ns (wr_cfg r); quiet = saturating_sub now (wr_last_rx_ns r)
      in if interval \<noteq> 0 \<and> quiet > saturating_mul interval 2
         then (case wr_shutdown os CLOSE_GOING_AWAY (on_ws_pipeline ws_note_disconnect r) k of (r, k) \<Rightarrow> (Some WlSilent, r, k))
         else if interval \<noteq> 0 \<and> \<not> wr_pinged r \<and> quiet > interval
         then (case wr_send os Ping PING_PAYLOAD (on_ws_pipeline ws_note_ping_sent (r\<lparr> wr_pinged := True \<rparr>)) k of
                 (Some e, r, k) \<Rightarrow> (Some e, r, k)
               | (None, r, k) \<Rightarrow> wr_keepalive os ops now r k)
         else wr_keepalive os ops now r k)"

subsection \<open>A round\<close>

text \<open>The loop of \<open>pump\<close>; the number is what is left of the burst.\<close>

fun wr_frames ::
    "'k ws_os \<Rightarrow> ('r, 'e, 's \<times> u64) router_ops \<Rightarrow> ('e, 's) ws_publish \<Rightarrow> (u64 \<Rightarrow> 's \<Rightarrow> 's) \<Rightarrow> nat \<Rightarrow> u64 \<Rightarrow>
     ('r, 's) ws_receiver \<Rightarrow> 'k \<Rightarrow> ws_link_error option \<times> ('r, 's) ws_receiver \<times> 'k" where
  "wr_frames os ops publish note_drops 0 now r k = wr_tick os ops now r k"
| "wr_frames os ops publish note_drops (Suc n) now r k =
     (case tcp_now (wo_tcp os) k of
        (recv_ns, k) \<Rightarrow>
          case wr_link r of
            None \<Rightarrow> wr_tick os ops now r k
          | Some l \<Rightarrow>
              (case wl_peek l of
                 Inl e \<Rightarrow> (case wr_fail os (on_ws_pipeline ws_note_protocol_error r) k of (r, k) \<Rightarrow> (Some e, r, k))
               | Inr None \<Rightarrow> wr_tick os ops now r k
               | Inr (Some f) \<Rightarrow>
                   (case on_frame ops publish note_drops f recv_ns (wr_pipeline r) (wr_assembly r) of
                      (acted, p, a) \<Rightarrow>
                        let r = r\<lparr> wr_pipeline := p, wr_assembly := a, wr_link := Some (wl_consume (wi_len f) l),
                                   wr_last_rx_ns := recv_ns, wr_pinged := False \<rparr>
                        in case acted of
                             Inr ActionNone \<Rightarrow> wr_frames os ops publish note_drops n now r k
                           | Inr (ActionPong payload m) \<Rightarrow>
                               (case wr_send os Pong (take m payload) (on_ws_pipeline ws_note_pong_sent r) k of
                                  (Some e, r, k) \<Rightarrow> (Some e, r, k)
                                | (None, r, k) \<Rightarrow> wr_frames os ops publish note_drops n now r k)
                           | Inr (ActionClose code) \<Rightarrow>
                               (case wr_shutdown os CLOSE_NORMAL (on_ws_pipeline ws_note_disconnect r) k of
                                  (r, k) \<Rightarrow> (Some (WlClosed code), r, k))
                           | Inl e \<Rightarrow>
                               (case wr_shutdown os CLOSE_PROTOCOL_ERROR
                                       (on_ws_pipeline ws_note_disconnect (on_ws_pipeline ws_note_protocol_error r)) k of
                                  (r, k) \<Rightarrow> (Some e, r, k)))))"

definition wr_pump ::
    "'k ws_os \<Rightarrow> ('r, 'e, 's \<times> u64) router_ops \<Rightarrow> ('e, 's) ws_publish \<Rightarrow> (u64 \<Rightarrow> 's \<Rightarrow> 's) \<Rightarrow> u64 \<Rightarrow>
     ('r, 's) ws_receiver \<Rightarrow> 'k \<Rightarrow> ws_link_error option \<times> ('r, 's) ws_receiver \<times> 'k" where
  "wr_pump os ops publish note_drops now r k =
     (case wr_link r of
        None \<Rightarrow> (None, r\<lparr> wr_state := WsDisconnected \<rparr>, k)
      | Some l \<Rightarrow>
          (case wl_fill os l k of
             (Inl e, l, k) \<Rightarrow> (case wr_fail os (r\<lparr> wr_link := Some l \<rparr>) k of (r, k) \<Rightarrow> (Some e, r, k))
           | (Inr n, l, k) \<Rightarrow>
               wr_frames os ops publish note_drops (unat (wc_burst (wr_cfg r))) now
                 (on_ws_pipeline (ws_note_bytes (of_nat n)) (r\<lparr> wr_link := Some l \<rparr>)) k))"

definition wr_beat ::
    "('r, 'e, 's \<times> u64) router_ops \<Rightarrow> ('e, 's) ws_publish \<Rightarrow> u64 \<Rightarrow> ('r, 's) ws_receiver \<Rightarrow> ('r, 's) ws_receiver" where
  "wr_beat ops publish now r =
     (if wc_record_heartbeat_ns (wr_cfg r) = 0 \<or> now < wr_next_record_heartbeat_ns r then r
      else (on_ws_pipeline (ws_heartbeat ops publish now) r)
             \<lparr> wr_next_record_heartbeat_ns := saturating_add now (wc_record_heartbeat_ns (wr_cfg r)) \<rparr>)"

subsection \<open>Connecting and the loop\<close>

definition wr_try_connect ::
    "'k ws_os \<Rightarrow> u64 \<Rightarrow> ('r, 's) ws_receiver \<Rightarrow> 'k \<Rightarrow> (ws_link_error option \<times> ('r, 's) ws_receiver \<times> 'k) option" where
  "wr_try_connect os now r k =
     (if now < wr_next_connect_ns r then Some (None, r, k)
      else
        let r = r\<lparr> wr_next_connect_ns := saturating_add now (wc_reconnect_ns (wr_cfg r)) \<rparr>
        in map_option (\<lambda>(res, k).
             case res of
               Inl e \<Rightarrow> (Some e, on_ws_pipeline ws_note_connect_failure r, k)
             | Inr l \<Rightarrow>
                 (case wl_set_mode os (wc_mode (wr_cfg r) = WsSpin) (wp_read_timeout (wc_link (wr_cfg r))) l k of
                    (Inl e, k) \<Rightarrow> (Some e, on_ws_pipeline ws_note_connect_failure r, ws_drop_stream os (wl_stream l) k)
                  | (Inr _, k) \<Rightarrow>
                      (None, on_ws_pipeline ws_note_open
                         (r\<lparr> wr_assembly := assembly_reset (wr_assembly r), wr_link := Some l, wr_state := WsOpen,
                             wr_last_rx_ns := now, wr_pinged := False \<rparr>), k)))
             (wl_connect os (wr_endpoint r) (wc_link (wr_cfg r)) k))"

definition wr_poll_once ::
    "'k ws_os \<Rightarrow> ('r, 'e, 's \<times> u64) router_ops \<Rightarrow> ('e, 's) ws_publish \<Rightarrow> (u64 \<Rightarrow> 's \<Rightarrow> 's) \<Rightarrow>
     ('r, 's) ws_receiver \<Rightarrow> 'k \<Rightarrow> (ws_link_error option \<times> ('r, 's) ws_receiver \<times> 'k) option" where
  "wr_poll_once os ops publish note_drops r k =
     (case tcp_now (wo_tcp os) k of
        (now, k) \<Rightarrow>
          map_option (\<lambda>(failure, r, k).
              case tcp_now (wo_tcp os) k of (now, k) \<Rightarrow> (failure, wr_beat ops publish now r, k))
            (case wr_state r of
               WsDisconnected \<Rightarrow> wr_try_connect os now r k
             | WsOpen \<Rightarrow> Some (wr_pump os ops publish note_drops now r k)))"

text \<open>The loop, which may run forever; the errors handed to \<open>on\_error\<close> are what it returns.\<close>

partial_function (option) wr_run_until ::
    "'k ws_os \<Rightarrow> ('r, 'e, 's \<times> u64) router_ops \<Rightarrow> ('e, 's) ws_publish \<Rightarrow> (u64 \<Rightarrow> 's \<Rightarrow> 's) \<Rightarrow> ('k \<Rightarrow> bool) \<Rightarrow>
     ws_link_error list \<Rightarrow> ('r, 's) ws_receiver \<Rightarrow> 'k \<Rightarrow> (ws_link_error list \<times> ('r, 's) ws_receiver \<times> 'k) option" where
  "wr_run_until os ops publish note_drops stop errors r k =
     (if stop k
      then (case wr_shutdown os CLOSE_GOING_AWAY r k of (r, k) \<Rightarrow> Some (errors, r, k))
      else
        Option.bind (wr_poll_once os ops publish note_drops r k) (\<lambda>res.
          wr_run_until os ops publish note_drops stop
            (case fst res of None \<Rightarrow> errors | Some e \<Rightarrow> errors @ [e]) (fst (snd res)) (snd (snd res))))"

definition wr_ingest_rest ::
    "('r, 'e, 's \<times> u64) router_ops \<Rightarrow> ('e, 's) ws_publish \<Rightarrow> (u64 \<Rightarrow> 's \<Rightarrow> 's) \<Rightarrow> nat \<Rightarrow> bytes \<Rightarrow> u64 \<Rightarrow>
     ('r, 's) ws_receiver \<Rightarrow> ws_outcome \<times> ('r, 's) ws_receiver" where
  "wr_ingest_rest ops publish note_drops instrument body recv_ns r =
     (case ws_ingest_rest ops publish note_drops instrument body recv_ns (wr_pipeline r) of
        (outcome, p) \<Rightarrow> (outcome, r\<lparr> wr_pipeline := p \<rparr>))"

definition wr_set_endpoint :: "ws_endpoint \<Rightarrow> ('r, 's) ws_receiver \<Rightarrow> ('r, 's) ws_receiver" where
  "wr_set_endpoint e r = r\<lparr> wr_endpoint := e \<rparr>"

end
