(* ===== verification/Ws_Stream.thy ===== *)
theory Ws_Stream
  imports Ws_Receiver
begin

text \<open>
  What the receive loop of a WebSocket feed is for: whatever way the messages of a venue are cut into
  frames, the frames into segments, and the segments into reads, the pipeline gets the messages, whole and
  in order, and every ping is answered.
\<close>

subsection \<open>Frames that carry messages\<close>

type_synonym wframe = "bool \<times> opcode \<times> bytes"

fun enc_frame :: "wframe \<Rightarrow> bytes" where
  "enc_frame (fin, op, payload) = ws_frame fin op payload"

fun frame_sendable :: "nat \<Rightarrow> wframe \<Rightarrow> bool" where
  "frame_sendable N (fin, op, payload) \<longleftrightarrow>
     (is_control op \<longrightarrow> fin \<and> length payload \<le> MAX_CONTROL_PAYLOAD) \<and> length payload < 2 ^ 63 \<and>
     length (ws_frame fin op payload) \<le> N"

text \<open>
  The grammar of the protocol: from a state of reassembly, the frames carry the messages. A message is one
  frame, or a first frame and its continuations; pings and pongs may stand between them.
\<close>

inductive carries :: "(opcode \<times> bytes) option \<Rightarrow> wframe list \<Rightarrow> (opcode \<times> bytes) list \<Rightarrow> bool" where
  nothing: "carries None [] []"
| control: "carries s fs ms \<Longrightarrow> op = Ping \<or> op = Pong \<Longrightarrow> carries s ((True, op, p) # fs) ms"
| single: "carries None fs ms \<Longrightarrow> op = Text \<or> op = Binary \<Longrightarrow> carries None ((True, op, p) # fs) ((op, p) # ms)"
| first: "carries (Some (op, p)) fs ms \<Longrightarrow> op = Text \<or> op = Binary \<Longrightarrow> carries None ((False, op, p) # fs) ms"
| middle: "carries (Some (op, acc @ p)) fs ms \<Longrightarrow> carries (Some (op, acc)) ((False, Continuation, p) # fs) ms"
| last: "carries None fs ms \<Longrightarrow> carries (Some (op, acc)) ((True, Continuation, p) # fs) ((op, acc @ p) # ms)"

inductive_cases carries_None: "carries None (f # fs) ms"
inductive_cases carries_Some: "carries (Some x) (f # fs) ms"

text \<open>The bytes gathered so far begin a message.\<close>

lemma carries_open:
  "carries s fs ms \<Longrightarrow> s = Some (op, acc) \<Longrightarrow> list_all (\<lambda>(op, p). length p \<le> M) ms \<Longrightarrow> length acc \<le> M"
  by (induction arbitrary: op acc rule: carries.induct) force+

fun pings :: "wframe list \<Rightarrow> bytes list" where
  "pings [] = []"
| "pings ((fin, op, p) # fs) = (if op = Ping then p # pings fs else pings fs)"

lemma pings_append: "pings (fs @ gs) = pings fs @ pings gs"
  by (induction fs rule: pings.induct) simp_all

subsection \<open>The receive buffer\<close>

definition rb_ok :: "nat \<Rightarrow> recv_buffer \<Rightarrow> bool" where
  "rb_ok N b \<longleftrightarrow> length (rb_buf b) = N \<and> rb_head b \<le> rb_len b \<and> rb_len b \<le> N"

lemma rb_new_ok: "rb_ok N (rb_new N)" "rb_filled (rb_new N) = []"
  by (simp_all add: rb_ok_def rb_new_def rb_filled_def)

lemma length_rb_filled: "rb_ok N b \<Longrightarrow> length (rb_filled b) = rb_len b - rb_head b"
  by (simp add: rb_ok_def rb_filled_def)

lemma rb_compact_ok:
  assumes "rb_ok N b"
  shows "rb_ok N (rb_compact b)" "rb_filled (rb_compact b) = rb_filled b" "rb_head (rb_compact b) = 0"
    "rb_len (rb_compact b) = length (rb_filled b)" "length (rb_spare (rb_compact b)) = N - length (rb_filled b)"
    "rb_capacity (rb_compact b) = N"
  using assms by (auto simp: rb_ok_def rb_compact_def rb_filled_def copy_at_def rb_spare_def rb_capacity_def)

lemma rb_read_ok:
  assumes "rb_ok N b" "rb_head b = 0" "length bs \<le> length (rb_spare b)"
  defines "b' \<equiv> rb_commit (length bs) (rb_write_spare bs b)"
  shows "rb_ok N b'" "rb_filled b' = rb_filled b @ bs"
  using assms by (auto simp: b'_def rb_ok_def rb_commit_def rb_write_spare_def rb_filled_def rb_spare_def copy_at_def)

lemma rb_consume_ok:
  assumes "rb_ok N b"
  shows "rb_ok N (rb_consume n b)" "rb_filled (rb_consume n b) = drop n (rb_filled b)"
  using assms by (auto simp: rb_ok_def rb_consume_def rb_filled_def Let_def min_def add.commute)

lemma wl_peek_frame:
  assumes "rb_ok N (wl_buf l)" "rb_filled (wl_buf l) = enc_frame f @ tail" "frame_sendable N f"
  shows "wl_peek l = Inr (Some \<lparr> wi_fin = fst f, wi_opcode = fst (snd f), wi_payload = snd (snd f), wi_len = length (enc_frame f) \<rparr>)"
proof -
  obtain fin op p where f: "f = (fin, op, p)"
    by (cases f)
  have "parse_header (ws_head fin op (length p) @ p @ tail) =
    Inr (Some \<lparr> wh_fin = fin, wh_opcode = op, wh_header_len = length (ws_head fin op (length p)), wh_payload_len = length p \<rparr>)"
    using assms(3) by (intro parse_header_frame(1)) (simp_all add: f)
  then show ?thesis
    using assms by (simp add: wl_peek_def f ws_frame_def ws_header_total_def rb_capacity_def rb_ok_def)
qed

lemma wl_peek_partial:
  assumes "rb_ok N (wl_buf l)" "rb_filled (wl_buf l) = take k (enc_frame f)" "k < length (enc_frame f)" "frame_sendable N f"
  shows "wl_peek l = Inr None"
proof -
  obtain fin op p where f: "f = (fin, op, p)"
    by (cases f)
  let ?head = "ws_head fin op (length p)"
  have ok: "length p < 2 ^ 63" "is_control op \<longrightarrow> fin \<and> length p \<le> MAX_CONTROL_PAYLOAD"
    using assms(4) by (simp_all add: f)
  show ?thesis
  proof (cases "k < length ?head")
    case True
    then show ?thesis
      using parse_header_frame(2) [OF ok, of k] assms(2) by (simp add: wl_peek_def f ws_frame_def)
  next
    case False
    then have "rb_filled (wl_buf l) = ?head @ take (k - length ?head) p"
      using assms(2) by (simp add: f ws_frame_def)
    then show ?thesis
      using parse_header_frame(1) [OF ok, of "take (k - length ?head) p"] assms False
      by (simp add: wl_peek_def f ws_frame_def ws_header_total_def rb_capacity_def rb_ok_def)
  qed
qed

lemma enc_frame_nonempty [simp]: "enc_frame f \<noteq> []" "0 < length (enc_frame f)"
  by (cases f; simp add: ws_frame_def ws_head_def)+

text \<open>What the buffer and the wire hold is a list of frames: the first is seen when it is all there.\<close>

lemma wl_peek_stream:
  assumes "rb_ok N (wl_buf l)" "rb_filled (wl_buf l) @ unread = concat (map enc_frame fs)" "list_all (frame_sendable N) fs"
  shows "case fs of
      [] \<Rightarrow> wl_peek l = Inr None
    | f # gs \<Rightarrow>
        if length (enc_frame f) \<le> length (rb_filled (wl_buf l))
        then wl_peek l = Inr (Some \<lparr> wi_fin = fst f, wi_opcode = fst (snd f), wi_payload = snd (snd f), wi_len = length (enc_frame f) \<rparr>) \<and>
             drop (length (enc_frame f)) (rb_filled (wl_buf l)) @ unread = concat (map enc_frame gs)
        else wl_peek l = Inr None"
proof (cases fs)
  case Nil
  then show ?thesis
    using assms(2) by (simp add: wl_peek_def parse_header_def)
next
  case (Cons f gs)
  show ?thesis
  proof (cases "length (enc_frame f) \<le> length (rb_filled (wl_buf l))")
    case True
    then obtain tail where tail: "rb_filled (wl_buf l) = enc_frame f @ tail"
      using assms(2) unfolding Cons by (metis append_eq_append_conv_if append_take_drop_id concat.simps(2) list.simps(9))
    then show ?thesis
      using wl_peek_frame [OF assms(1) tail] assms(2,3) by (simp add: Cons)
  next
    case False
    then have "rb_filled (wl_buf l) = take (length (rb_filled (wl_buf l))) (enc_frame f)"
      using assms(2) unfolding Cons
      by (metis append_eq_conv_conj concat.simps(2) linorder_not_le list.simps(9) nle_le take_all take_append
          append_eq_append_conv_if less_imp_le_nat)
    then show ?thesis
      using wl_peek_partial [OF assms(1)] False assms(3) by (simp add: Cons)
  qed
qed

subsection \<open>One frame\<close>

text \<open>What reassembly holds when the grammar is in a state.\<close>

definition assembled :: "nat \<Rightarrow> (opcode \<times> bytes) option \<Rightarrow> assembly \<Rightarrow> bool" where
  "assembled M s a \<longleftrightarrow>
     assembly_ok a \<and> length (as_buf a) = M \<and> as_open a = map_option fst s \<and>
     (\<forall>op acc. s = Some (op, acc) \<longrightarrow> assembly_bytes a = acc)"

text \<open>
  What of a pipeline the loop can tell apart: router, sink, kept failure, and the two counters a liveness
  record carries.
\<close>

definition cp_shown :: "('r, 's) ws_pipeline \<Rightarrow> ('r \<times> 's \<times> ws_failure option \<times> u64) \<times> u64 \<times> u64" where
  "cp_shown p = (cp_feed p, ws_messages (cp_stats p), ws_published (cp_stats p))"

lemma cp_shown_notes [simp]:
  "cp_shown (ws_note_bytes n p) = cp_shown p" "cp_shown (ws_note_frame p) = cp_shown p"
  "cp_shown (ws_note_fragment p) = cp_shown p" "cp_shown (ws_note_binary p) = cp_shown p"
  "cp_shown (ws_note_ping p) = cp_shown p" "cp_shown (ws_note_pong p) = cp_shown p"
  "cp_shown (ws_note_ping_sent p) = cp_shown p" "cp_shown (ws_note_pong_sent p) = cp_shown p"
  "cp_shown (ws_note_keepalive p) = cp_shown p"
  by (simp_all add: cp_shown_def ws_notes)

lemma cp_shown_router: "cp_shown p = cp_shown q \<Longrightarrow> cp_router p = cp_router q"
  by (simp add: cp_shown_def cp_feed_def)

lemma cp_shown_set_router: "cp_shown p = cp_shown q \<Longrightarrow> cp_shown (p\<lparr> cp_router := x \<rparr>) = cp_shown (q\<lparr> cp_router := x \<rparr>)"
  by (simp add: cp_shown_def cp_feed_def)

lemma ws_ingest_shown:
  "cp_shown p = cp_shown q \<Longrightarrow>
   cp_shown (snd (ws_ingest ops publish note_drops m t p)) = cp_shown (snd (ws_ingest ops publish note_drops m t q))"
  by (simp add: cp_shown_def ws_ingest_def ws_guarded_def ws_book_def cp_feed_def Let_def split: prod.split sum.split)

lemma ws_heartbeat_shown:
  "cp_shown p = cp_shown q \<Longrightarrow> cp_shown (ws_heartbeat ops publish now p) = cp_shown (ws_heartbeat ops publish now q)"
  by (simp add: cp_shown_def ws_heartbeat_def cp_feed_def split: prod.split)

text \<open>
  What the loop does, as a sequence of events: a message of the venue is taken in, a ping answered, a ping of
  our own sent, the router asked for its keepalive, a liveness record written. \<open>replay\<close> says what a sequence
  makes of a pipeline, of the buffer of the keepalive and of the frames sent so far, as the venue reads them.
\<close>

datatype ws_event = Took bytes u64 | Answered bytes | Pinged | Asked u64 | Beat u64

type_synonym ('r, 's) ws_told = "('r, 's) ws_pipeline \<times> bytes \<times> (opcode \<times> bytes) option list"

fun happens ::
    "('r, 'e, 's \<times> u64) router_ops \<Rightarrow> ('e, 's) ws_publish \<Rightarrow> (u64 \<Rightarrow> 's \<Rightarrow> 's) \<Rightarrow> ws_event \<Rightarrow> ('r, 's) ws_told \<Rightarrow> ('r, 's) ws_told" where
  "happens ops publish note_drops (Took m t) (p, keep, out) = (snd (ws_ingest ops publish note_drops m t p), keep, out)"
| "happens ops publish note_drops (Answered q) (p, keep, out) = (p, keep, out @ [Some (Pong, q)])"
| "happens ops publish note_drops Pinged (p, keep, out) = (p, keep, out @ [Some (Ping, PING_PAYLOAD)])"
| "happens ops publish note_drops (Asked now) (p, keep, out) =
     (case ro_keepalive ops (cp_router p) now keep of
        (due, router, keep) \<Rightarrow>
          (p\<lparr> cp_router := router \<rparr>, keep, out @ (case due of None \<Rightarrow> [] | Some n \<Rightarrow> [Some (Text, take n keep)])))"
| "happens ops publish note_drops (Beat now) (p, keep, out) = (ws_heartbeat ops publish now p, keep, out)"

definition replay ::
    "('r, 'e, 's \<times> u64) router_ops \<Rightarrow> ('e, 's) ws_publish \<Rightarrow> (u64 \<Rightarrow> 's \<Rightarrow> 's) \<Rightarrow> ws_event list \<Rightarrow> ('r, 's) ws_told \<Rightarrow> ('r, 's) ws_told" where
  "replay ops publish note_drops evs = fold (happens ops publish note_drops) evs"

fun took_by :: "ws_event list \<Rightarrow> bytes list" where
  "took_by [] = []"
| "took_by (Took m t # evs) = m # took_by evs"
| "took_by (_ # evs) = took_by evs"

fun answered_by :: "ws_event list \<Rightarrow> bytes list" where
  "answered_by [] = []"
| "answered_by (Answered q # evs) = q # answered_by evs"
| "answered_by (_ # evs) = answered_by evs"

text \<open>What a configuration leaves out: the pings of our own, or the liveness records.\<close>

definition events_of :: "ws_config \<Rightarrow> ws_event \<Rightarrow> bool" where
  "events_of cfg e \<longleftrightarrow>
     (e = Pinged \<longrightarrow> wc_ping_interval_ns cfg \<noteq> 0) \<and> (\<forall>t. e = Beat t \<longrightarrow> wc_record_heartbeat_ns cfg \<noteq> 0)"

lemma events_append [simp]:
  "took_by (es @ fs) = took_by es @ took_by fs" "answered_by (es @ fs) = answered_by es @ answered_by fs"
  "replay ops publish note_drops (es @ fs) st = replay ops publish note_drops fs (replay ops publish note_drops es st)"
  by (induction es rule: took_by.induct) (simp_all add: replay_def)

definition seen :: "('r, 's) ws_told \<Rightarrow> (('r \<times> 's \<times> ws_failure option \<times> u64) \<times> u64 \<times> u64) \<times> bytes \<times> (opcode \<times> bytes) option list" where
  "seen st = (case st of (p, keep, out) \<Rightarrow> (cp_shown p, keep, out))"

lemma happens_seen:
  assumes "seen st = seen st'"
  shows "seen (happens ops publish note_drops e st) = seen (happens ops publish note_drops e st')"
proof -
  obtain p q keep out where st: "st = (p, keep, out)" "st' = (q, keep, out)" and shown: "cp_shown p = cp_shown q"
    using assms by (cases st; cases st') (simp add: seen_def)
  show ?thesis
  proof (cases e)
    case (Took m t)
    then show ?thesis
      using ws_ingest_shown [OF shown, of ops publish note_drops m t] by (simp add: st seen_def)
  next
    case (Asked now)
    obtain due router keep' where "ro_keepalive ops (cp_router q) now keep = (due, router, keep')"
      by (cases "ro_keepalive ops (cp_router q) now keep")
    then show ?thesis
      using cp_shown_set_router [OF shown, of router] unfolding Asked st seen_def happens.simps cp_shown_router [OF shown]
      by simp
  next
    case (Beat now)
    then show ?thesis
      using ws_heartbeat_shown [OF shown, of ops publish now] by (simp add: st seen_def)
  qed (use shown in \<open>simp_all add: st seen_def\<close>)
qed

lemma replay_seen:
  "seen st = seen st' \<Longrightarrow> seen (replay ops publish note_drops evs st) = seen (replay ops publish note_drops evs st')"
proof (induction evs arbitrary: st st')
  case (Cons e evs)
  show ?case
    using Cons.IH [OF happens_seen [OF Cons.prems]] by (simp add: replay_def)
qed (simp add: replay_def)

text \<open>The action a frame of the grammar asks for.\<close>

definition frame_action :: "wframe \<Rightarrow> ws_action" where
  "frame_action f =
     (case f of (fin, op, p) \<Rightarrow>
        if op = Ping then ActionPong (copy_at 0 p (replicate MAX_CONTROL_PAYLOAD 0)) (length p) else ActionNone)"

definition took_all :: "u64 \<Rightarrow> (opcode \<times> bytes) list \<Rightarrow> ws_event list" where
  "took_all t ms = map (\<lambda>m. Took (snd m) t) ms"

lemma took_all_simps [simp]:
  "took_by (took_all t ms) = map snd ms" "answered_by (took_all t ms) = []" "\<forall>e \<in> set (took_all t ms). events_of cfg e"
  by (induction ms) (simp_all add: took_all_def events_of_def)

lemma ingest_message_shown:
  assumes "cp_shown p = cp_shown q"
  shows "seen (ws_ingest_message ops publish note_drops op m t p, keep, out) =
    seen (replay ops publish note_drops (took_all t [(op', m)]) (q, keep, out))"
proof -
  have "cp_shown (if op = Binary then ws_note_binary p else p) = cp_shown q"
    using assms by simp
  from ws_ingest_shown [OF this, of ops publish note_drops m t] show ?thesis
    by (simp add: seen_def ws_ingest_message_def replay_def took_all_def)
qed

lemma on_frame_step:
  assumes "carries s (f # fs) ms" "assembled M s a" "list_all (\<lambda>(op, p). length p \<le> M) ms" "frame_sendable N f"
  shows "\<exists>s' a' ms1 ms2 p'. on_frame ops publish note_drops
        \<lparr> wi_fin = fst f, wi_opcode = fst (snd f), wi_payload = snd (snd f), wi_len = n \<rparr> t p a = (Inr (frame_action f), p', a') \<and>
      ms = ms1 @ ms2 \<and> carries s' fs ms2 \<and> assembled M s' a' \<and>
      (\<forall>keep out. seen (p', keep, out) = seen (replay ops publish note_drops (took_all t ms1) (p, keep, out)))"
  using assms(1)
proof (cases rule: carries.cases)
  case (control op p)
  then show ?thesis
    using assms by (intro exI [of _ s] exI [of _ a] exI [of _ "[]"] exI [of _ ms])
      (auto simp: on_frame_def Let_def frame_action_def seen_def replay_def took_all_def)
next
  case (single ms' op p)
  then have "\<not> assembly_is_open a"
    using assms(2) by (simp add: assembled_def assembly_is_open_def)
  then show ?thesis
    using single assms(2)
    by (intro exI [of _ "None"] exI [of _ a] exI [of _ "[(op, p)]"] exI [of _ ms'])
      (auto simp: on_frame_def Let_def frame_action_def intro!: ingest_message_shown)
next
  case (first op p)
  have "length p \<le> M"
    using carries_open [OF first(3)] assms(3) by blast
  then obtain a' where a': "assembly_begin op p a = (Inr (), a')" "assembled M (Some (op, p)) a'"
    using assembly_begin_spec [of a p op] assms(2) first by (auto simp: assembled_def)
  then show ?thesis
    using first by (intro exI [of _ "Some (op, p)"] exI [of _ a'] exI [of _ "[]"] exI [of _ ms])
      (auto simp: on_frame_def Let_def frame_action_def seen_def replay_def took_all_def)
next
  case (middle op acc p)
  have "length (acc @ p) \<le> M"
    using carries_open [OF middle(3)] assms(3) by blast
  then obtain a' where a': "assembly_append p a = (Inr (), a')" "assembled M (Some (op, acc @ p)) a'"
    using assembly_append_spec [of a op p] assms(2) middle by (auto simp: assembled_def)
  then show ?thesis
    using middle by (intro exI [of _ "Some (op, acc @ p)"] exI [of _ a'] exI [of _ "[]"] exI [of _ ms])
      (auto simp: on_frame_def Let_def frame_action_def seen_def replay_def took_all_def)
next
  case (last ms' op acc p)
  have "length (acc @ p) \<le> M"
    using assms(3) last by simp
  then obtain a' where a': "assembly_append p a = (Inr (), a')" "assembled M (Some (op, acc @ p)) a'"
    using assembly_append_spec [of a op p] assms(2) last by (auto simp: assembled_def)
  then have "assembly_take a' = (Some (op, acc @ p), a'\<lparr> as_open := None \<rparr>)" "assembled M None (a'\<lparr> as_open := None \<rparr>)"
    using assembly_take_spec [of a' op] by (auto simp: assembled_def)
  then show ?thesis
    using last a'
    by (intro exI [of _ "None"] exI [of _ "a'\<lparr> as_open := None \<rparr>"] exI [of _ "[(op, acc @ p)]"] exI [of _ ms'])
      (auto simp: on_frame_def Let_def frame_action_def intro!: ingest_message_shown)
qed

subsection \<open>A connection that delivers a stream\<close>

text \<open>
  The other end of a connection: the bytes it has still to deliver, what was written to it, how many reads
  and other calls there were. \<open>chunk\<close> says how much a read can get, where nothing is a read that would block,
  and \<open>clock\<close> what the time is. Every write is taken whole. Connecting is not needed.
\<close>

record script =
  sc_unread :: bytes
  sc_sent :: "bytes list"
  sc_reads :: nat
  sc_turn :: nat

definition sc_tick :: "script \<Rightarrow> script" where
  "sc_tick k = k\<lparr> sc_turn := Suc (sc_turn k) \<rparr>"

definition script_read :: "(nat \<Rightarrow> nat) \<Rightarrow> stream \<Rightarrow> nat \<Rightarrow> script \<Rightarrow> (io_kind + bytes) \<times> script" where
  "script_read chunk fd n k =
     (let bs = take (min n (chunk (sc_reads k))) (sc_unread k);
          k = k\<lparr> sc_unread := drop (length bs) (sc_unread k), sc_reads := Suc (sc_reads k) \<rparr>
      in if bs = [] then (Inl WouldBlock, k) else (Inr bs, k))"

definition script_write :: "stream \<Rightarrow> bytes \<Rightarrow> script \<Rightarrow> (io_kind + unit) \<times> script" where
  "script_write fd bs k = (Inr (), k\<lparr> sc_sent := sc_sent k @ [bs] \<rparr>)"

definition script_os :: "(nat \<Rightarrow> nat) \<Rightarrow> (nat \<Rightarrow> u64) \<Rightarrow> script ws_os" where
  "script_os chunk clock =
     \<lparr> wo_tcp = \<lparr> tcp_addrs = \<lambda>_ _ k. (Inl NotFound, k), tcp_connect = \<lambda>_ _ k. (Inl OtherIo, k),
         tcp_peer = \<lambda>_ k. (Inl OtherIo, k), tcp_set = \<lambda>_ _ k. (Inr (), k), tcp_read = script_read chunk,
         tcp_write_all = script_write, tcp_flush = \<lambda>_ k. (Inr (), k), tcp_close = \<lambda>_ k. k,
         tcp_now = \<lambda>k. (clock (sc_turn k), sc_tick k) \<rparr>,
       wo_server_name = \<lambda>_. False, wo_tls_new = \<lambda>_ _ k. (Inl 0, k), wo_tls_read = script_read chunk,
       wo_tls_write_all = script_write, wo_tls_flush = \<lambda>_ k. (Inr (), k), wo_random = \<lambda>k. (None, k) \<rparr>"

lemma script_simps [simp]:
  "ws_read (script_os chunk clock) st = script_read chunk (ws_tcp st)"
  "ws_write_all (script_os chunk clock) st = script_write (ws_tcp st)"
  "ws_flush (script_os chunk clock) st k = (Inr (), k)"
  "tcp_now (wo_tcp (script_os chunk clock)) k = (clock (sc_turn k), sc_tick k)"
  by (cases st; simp add: script_os_def)+

lemma sc_tick_simps [simp]:
  "sc_unread (sc_tick k) = sc_unread k" "sc_sent (sc_tick k) = sc_sent k" "sc_reads (sc_tick k) = sc_reads k"
  by (simp_all add: sc_tick_def)

text \<open>
  The frames the loop sends of its own accord fit the send buffer, and the other end reads each as what it
  says. The links of two states of the loop differ in nothing else.
\<close>

definition SEND_ROOM :: nat where "SEND_ROOM = 264"

lemma send_room: "framed_len MAX_KEEPALIVE_LEN = SEND_ROOM" "SEND_ROOM \<le> WS_SEND_BUFFER"
  by (simp_all add: framed_len_def MAX_KEEPALIVE_LEN_def SEND_ROOM_def WS_SEND_BUFFER_def)

definition same_link :: "('r, 's) ws_receiver \<Rightarrow> script \<Rightarrow> ('r, 's) ws_receiver \<Rightarrow> script \<Rightarrow> bool" where
  "same_link r k r' k' \<longleftrightarrow>
     (\<exists>l l'. wr_link r = Some l \<and> wr_link r' = Some l' \<and> wl_buf l' = wl_buf l \<and> length (wl_out l') = length (wl_out l)) \<and>
     wr_assembly r' = wr_assembly r \<and> wr_state r' = wr_state r \<and> wr_cfg r' = wr_cfg r \<and>
     wr_last_rx_ns r' = wr_last_rx_ns r \<and> sc_unread k' = sc_unread k \<and> sc_reads k' = sc_reads k"

lemma wr_send_script:
  assumes "wr_link r = Some l" "length payload \<le> MAX_KEEPALIVE_LEN" "SEND_ROOM \<le> length (wl_out l)"
    "is_control op \<longrightarrow> length payload \<le> MAX_CONTROL_PAYLOAD"
  shows "\<exists>l' k'. wr_send (script_os chunk clock) op payload r k = (None, r\<lparr> wr_link := Some l' \<rparr>, k') \<and>
    same_link r k (r\<lparr> wr_link := Some l' \<rparr>) k' \<and>
    map server_reads (sc_sent k') = map server_reads (sc_sent k) @ [Some (op, payload)]"
proof -
  obtain key l1 where key: "next_mask l = (key, l1)"
    by fastforce
  then have l1: "length key = 4" "wl_buf l1 = wl_buf l" "wl_out l1 = wl_out l"
    by (auto simp: next_mask_def Let_def)
  have len: "length payload < 2 ^ 63" "framed_len (length payload) \<le> length (wl_out l)"
    using assms(2,3) by (simp_all add: MAX_KEEPALIVE_LEN_def SEND_ROOM_def framed_len_def)
  let ?frame = "ws_client_frame op key payload"
  let ?out = "?frame @ drop (framed_len (length payload)) (wl_out l)"
  have "write_frame op payload key (wl_out l) = (Inr (framed_len (length payload)), ?out)"
    using write_frame_total [of key payload op "wl_out l"] l1 len assms(4) by simp
  moreover have "take (framed_len (length payload)) ?out = ?frame" "length ?out = length (wl_out l)"
    using length_ws_client_frame [OF l1(1), of op payload] len by simp_all
  moreover have "server_reads ?frame = Some (op, payload)"
    using server_reads_client_frame [OF l1(1) len(1)] .
  ultimately show ?thesis
    using l1 length_ws_client_frame [OF l1(1), of op payload] assms(1)
    by (intro exI [of _ "l1\<lparr> wl_out := ?out \<rparr>"] exI [of _ "k\<lparr> sc_sent := sc_sent k @ [?frame] \<rparr>"])
      (simp add: wr_send_def wl_send_def key wl_write_def wl_then_def script_write_def same_link_def Let_def)
qed

subsection \<open>States between two frames\<close>

text \<open>
  Connected, \<open>N\<close> bytes of receive buffer and \<open>M\<close> of reassembly, the buffer of the keepalive of its type's
  length; frames that carry \<open>ms\<close> are what the buffer and the wire hold.
\<close>

definition wr_ready ::
    "nat \<Rightarrow> nat \<Rightarrow> (opcode \<times> bytes) option \<Rightarrow> wframe list \<Rightarrow> (opcode \<times> bytes) list \<Rightarrow> ('r, 's) ws_receiver \<Rightarrow> script \<Rightarrow> bool" where
  "wr_ready N M s fs ms r k \<longleftrightarrow>
     (\<exists>l. wr_link r = Some l \<and> rb_ok N (wl_buf l) \<and> SEND_ROOM \<le> length (wl_out l) \<and>
        rb_filled (wl_buf l) @ sc_unread k = concat (map enc_frame fs)) \<and>
     assembled M s (wr_assembly r) \<and> carries s fs ms \<and> list_all (frame_sendable N) fs \<and>
     list_all (\<lambda>(op, p). length p \<le> M) ms \<and> wr_state r = WsOpen \<and> length (wr_keep r) = MAX_KEEPALIVE_LEN"

text \<open>There is room for another read.\<close>

definition wr_room :: "nat \<Rightarrow> ('r, 's) ws_receiver \<Rightarrow> bool" where
  "wr_room N r \<longleftrightarrow> (\<forall>l. wr_link r = Some l \<longrightarrow> length (rb_filled (wl_buf l)) < N)"

lemma same_link_ready:
  assumes "same_link r k r' k'" "length (wr_keep r') = length (wr_keep r)"
  shows "wr_ready N M s fs ms r k \<Longrightarrow> wr_ready N M s fs ms r' k'" "wr_room N r \<Longrightarrow> wr_room N r'"
  using assms by (auto simp: same_link_def wr_ready_def wr_room_def)

text \<open>
  The silence after which the loop gives a connection up does not fall into the run: no reading of the clock
  is more than two ping intervals after another one, or after the frame before the run.
\<close>

definition no_silence :: "(nat \<Rightarrow> u64) \<Rightarrow> ('r, 's) ws_receiver \<Rightarrow> bool" where
  "no_silence clock r \<longleftrightarrow>
     wc_ping_interval_ns (wr_cfg r) \<noteq> 0 \<longrightarrow>
       (\<forall>i. \<forall>t \<in> insert (wr_last_rx_ns r) (range clock).
          saturating_sub (clock i) t \<le> saturating_mul (wc_ping_interval_ns (wr_cfg r)) 2)"

text \<open>
  What a router keeps to: the buffer it is given for a keepalive stays as long as it is, and the length it
  answers is within it.
\<close>

definition keepalive_ok :: "('r, 'e, 't) router_ops \<Rightarrow> bool" where
  "keepalive_ok ops \<longleftrightarrow>
     (\<forall>r now out. length out = MAX_KEEPALIVE_LEN \<longrightarrow>
        (case ro_keepalive ops r now out of
           (due, _, keep) \<Rightarrow> length keep = MAX_KEEPALIVE_LEN \<and> (\<forall>n. due = Some n \<longrightarrow> n \<le> MAX_KEEPALIVE_LEN)))"

text \<open>From one state of the loop to another, the events \<open>evs\<close> happened and nothing else can be seen.\<close>

definition told :: "('r, 's) ws_receiver \<Rightarrow> script \<Rightarrow> ('r, 's) ws_told" where
  "told r k = (wr_pipeline r, wr_keep r, map server_reads (sc_sent k))"

definition wr_did ::
    "('r, 'e, 's \<times> u64) router_ops \<Rightarrow> ('e, 's) ws_publish \<Rightarrow> (u64 \<Rightarrow> 's \<Rightarrow> 's) \<Rightarrow> (nat \<Rightarrow> u64) \<Rightarrow> ws_event list \<Rightarrow>
     ('r, 's) ws_receiver \<Rightarrow> script \<Rightarrow> ('r, 's) ws_receiver \<Rightarrow> script \<Rightarrow> bool" where
  "wr_did ops publish note_drops clock evs r k r' k' \<longleftrightarrow>
     seen (told r' k') = seen (replay ops publish note_drops evs (told r k)) \<and> wr_cfg r' = wr_cfg r \<and>
     (\<forall>e \<in> set evs. events_of (wr_cfg r) e) \<and> wr_last_rx_ns r' \<in> insert (wr_last_rx_ns r) (range clock)"

lemma wr_did_trans:
  assumes "wr_did ops publish note_drops clock es r k r' k'" "wr_did ops publish note_drops clock fs r' k' r'' k''"
  shows "wr_did ops publish note_drops clock (es @ fs) r k r'' k''"
  using assms replay_seen [of "told r' k'" "replay ops publish note_drops es (told r k)" ops publish note_drops fs]
  by (auto simp: wr_did_def)

lemma wr_did_nothing:
  assumes "seen (told r' k') = seen (told r k)" "wr_cfg r' = wr_cfg r" "wr_last_rx_ns r' = wr_last_rx_ns r"
  shows "wr_did ops publish note_drops clock [] r k r' k'"
  using assms by (simp add: wr_did_def replay_def)

lemma no_silence_did: "no_silence clock r \<Longrightarrow> wr_did ops publish note_drops clock evs r k r' k' \<Longrightarrow> no_silence clock r'"
  by (auto simp: no_silence_def wr_did_def)

subsection \<open>The tick\<close>

lemma wr_keepalive_spec:
  assumes "wr_link r = Some l" "SEND_ROOM \<le> length (wl_out l)" "length (wr_keep r) = MAX_KEEPALIVE_LEN" "keepalive_ok ops"
  shows "\<exists>r' k'. wr_keepalive (script_os chunk clock) ops now r k = (None, r', k') \<and> same_link r k r' k' \<and>
    length (wr_keep r') = MAX_KEEPALIVE_LEN \<and> wr_did ops publish note_drops clock [Asked now] r k r' k'"
proof -
  obtain due router keep where asked: "ro_keepalive ops (cp_router (wr_pipeline r)) now (wr_keep r) = (due, router, keep)"
    by (cases "ro_keepalive ops (cp_router (wr_pipeline r)) now (wr_keep r)")
  then have keep: "length keep = MAX_KEEPALIVE_LEN" "\<And>n. due = Some n \<Longrightarrow> n \<le> MAX_KEEPALIVE_LEN"
    using assms(3,4) by (auto simp: keepalive_ok_def split: prod.splits)
  let ?r = "(on_ws_pipeline (\<lambda>p. p\<lparr> cp_router := router \<rparr>) r)\<lparr> wr_keep := keep \<rparr>"
  show ?thesis
  proof (cases due)
    case None
    then show ?thesis
      using asked assms(1) keep(1)
      by (intro exI [of _ ?r] exI [of _ k])
        (simp add: wr_keepalive_def same_link_def wr_did_def told_def seen_def replay_def events_of_def on_ws_pipeline_def)
  next
    case (Some n)
    let ?r1 = "on_ws_pipeline ws_note_keepalive ?r"
    have "wr_link ?r1 = Some l" "length (take n keep) \<le> MAX_KEEPALIVE_LEN"
      using assms(1) keep(1) by (simp_all add: on_ws_pipeline_def)
    from wr_send_script [OF this assms(2), of Text chunk clock k] obtain l' k' where sent:
      "wr_send (script_os chunk clock) Text (take n keep) ?r1 k = (None, ?r1\<lparr> wr_link := Some l' \<rparr>, k')"
      "same_link ?r1 k (?r1\<lparr> wr_link := Some l' \<rparr>) k'"
      "map server_reads (sc_sent k') = map server_reads (sc_sent k) @ [Some (Text, take n keep)]"
      by (auto simp: is_control_def)
    then show ?thesis
      using asked assms(1) keep(1) Some
      by (intro exI [of _ "?r1\<lparr> wr_link := Some l' \<rparr>"] exI [of _ k'])
        (simp add: wr_keepalive_def same_link_def wr_did_def told_def seen_def replay_def events_of_def on_ws_pipeline_def)
  qed
qed

lemma wr_tick_spec:
  assumes ready: "wr_ready N M s fs ms r k" and "keepalive_ok ops" "no_silence clock r" "now \<in> range clock"
  shows "\<exists>r' k' evs. wr_tick (script_os chunk clock) ops now r k = (None, r', k') \<and> took_by evs = [] \<and> answered_by evs = [] \<and>
    wr_did ops publish note_drops clock evs r k r' k' \<and> wr_ready N M s fs ms r' k' \<and> (wr_room N r \<longrightarrow> wr_room N r') \<and>
    sc_unread k' = sc_unread k \<and> sc_reads k' = sc_reads k"
proof -
  obtain l where l: "wr_link r = Some l" "SEND_ROOM \<le> length (wl_out l)" "length (wr_keep r) = MAX_KEEPALIVE_LEN"
    using ready by (auto simp: wr_ready_def)
  let ?interval = "wc_ping_interval_ns (wr_cfg r)" and ?quiet = "saturating_sub now (wr_last_rx_ns r)"
  have heard: "\<not> (?interval \<noteq> 0 \<and> ?quiet > saturating_mul ?interval 2)"
    using assms(3,4) by (auto simp: no_silence_def not_less)
  show ?thesis
  proof (cases "?interval \<noteq> 0 \<and> \<not> wr_pinged r \<and> ?quiet > ?interval")
    case False
    obtain r' k' where "wr_keepalive (script_os chunk clock) ops now r k = (None, r', k')" "same_link r k r' k'"
      "length (wr_keep r') = MAX_KEEPALIVE_LEN" "wr_did ops publish note_drops clock [Asked now] r k r' k'"
      using wr_keepalive_spec [OF l assms(2)] by blast
    then show ?thesis
      using heard False same_link_ready [of r k r' k'] ready l(3)
      by (intro exI [of _ r'] exI [of _ k'] exI [of _ "[Asked now]"]) (auto simp: wr_tick_def Let_def same_link_def)
  next
    case True
    define r1 where "r1 = on_ws_pipeline ws_note_ping_sent (r\<lparr> wr_pinged := True \<rparr>)"
    have r1: "wr_link r1 = Some l" "wr_keep r1 = wr_keep r" "wr_cfg r1 = wr_cfg r" "wr_assembly r1 = wr_assembly r"
      "wr_state r1 = wr_state r" "wr_last_rx_ns r1 = wr_last_rx_ns r" "cp_shown (wr_pipeline r1) = cp_shown (wr_pipeline r)"
      using l(1) by (simp_all add: r1_def on_ws_pipeline_def)
    have "length PING_PAYLOAD \<le> MAX_KEEPALIVE_LEN" "is_control Ping \<longrightarrow> length PING_PAYLOAD \<le> MAX_CONTROL_PAYLOAD"
      by (simp_all add: PING_PAYLOAD_def str_def MAX_KEEPALIVE_LEN_def MAX_CONTROL_PAYLOAD_def)
    from wr_send_script [OF r1(1) this(1) l(2) this(2), of chunk clock k] obtain l2 k2 where sent:
      "wr_send (script_os chunk clock) Ping PING_PAYLOAD r1 k = (None, r1\<lparr> wr_link := Some l2 \<rparr>, k2)"
      "same_link r1 k (r1\<lparr> wr_link := Some l2 \<rparr>) k2"
      "map server_reads (sc_sent k2) = map server_reads (sc_sent k) @ [Some (Ping, PING_PAYLOAD)]"
      by blast
    let ?r2 = "r1\<lparr> wr_link := Some l2 \<rparr>"
    have link2: "same_link r k ?r2 k2"
      using sent(2) l(1) r1 by (simp add: same_link_def)
    have did: "wr_did ops publish note_drops clock [Pinged] r k ?r2 k2"
      using r1 sent(3) True by (simp add: wr_did_def told_def seen_def replay_def events_of_def)
    have l2: "wr_link ?r2 = Some l2" "SEND_ROOM \<le> length (wl_out l2)" "length (wr_keep ?r2) = MAX_KEEPALIVE_LEN"
      using sent(2) l r1 by (auto simp: same_link_def)
    obtain r' k' where keep: "wr_keepalive (script_os chunk clock) ops now ?r2 k2 = (None, r', k')" "same_link ?r2 k2 r' k'"
      "length (wr_keep r') = MAX_KEEPALIVE_LEN" "wr_did ops publish note_drops clock [Asked now] ?r2 k2 r' k'"
      using wr_keepalive_spec [OF l2 assms(2)] by blast
    have "wr_tick (script_os chunk clock) ops now r k = (None, r', k')"
      using heard True sent(1) keep(1) by (simp add: wr_tick_def Let_def flip: r1_def)
    moreover have "same_link r k r' k'"
      using link2 keep(2) by (auto simp: same_link_def)
    ultimately show ?thesis
      using same_link_ready [of r k r' k'] ready l(3) keep(3) wr_did_trans [OF did keep(4)]
      by (intro exI [of _ r'] exI [of _ k'] exI [of _ "[Pinged] @ [Asked now]"]) (auto simp: same_link_def)
  qed
qed

subsection \<open>A round\<close>

lemma wl_consume_frame:
  assumes "rb_ok N (wl_buf l)" "rb_filled (wl_buf l) @ unread = concat (map enc_frame (f # gs))"
    "length (enc_frame f) \<le> length (rb_filled (wl_buf l))"
  defines "l' \<equiv> wl_consume (length (enc_frame f)) l"
  shows "rb_ok N (wl_buf l')" "wl_out l' = wl_out l" "rb_filled (wl_buf l') @ unread = concat (map enc_frame gs)"
    "length (rb_filled (wl_buf l')) < N"
proof -
  have filled: "rb_filled (wl_buf l') = drop (length (enc_frame f)) (rb_filled (wl_buf l))"
    using rb_consume_ok [OF assms(1)] by (simp add: l'_def wl_consume_def)
  then show "rb_ok N (wl_buf l')" "wl_out l' = wl_out l" "rb_filled (wl_buf l') @ unread = concat (map enc_frame gs)"
    using rb_consume_ok [OF assms(1)] arg_cong [OF assms(2), of "drop (length (enc_frame f))"] assms(3)
    by (simp_all add: l'_def wl_consume_def)
  have "length (rb_filled (wl_buf l)) \<le> N"
    using length_rb_filled [OF assms(1)] assms(1) unfolding rb_ok_def by linarith
  moreover have "length (rb_filled (wl_buf l')) = length (rb_filled (wl_buf l)) - length (enc_frame f)"
    using filled by simp
  ultimately show "length (rb_filled (wl_buf l')) < N"
    using assms(3) enc_frame_nonempty(2) [of f] by linarith
qed

text \<open>A frame that is all there is handled, and the loop goes on with the next.\<close>

lemma wr_frame_taken:
  assumes ready: "wr_ready N M s (f # gs) ms r k" and link: "wr_link r = Some l"
    and there: "length (enc_frame f) \<le> length (rb_filled (wl_buf l))"
  obtains r2 k2 s' ms1 ms2 evs where
    "\<And>n now. wr_frames (script_os chunk clock) ops publish note_drops (Suc n) now r k =
       wr_frames (script_os chunk clock) ops publish note_drops n now r2 k2"
    "ms = ms1 @ ms2" "wr_ready N M s' gs ms2 r2 k2" "wr_did ops publish note_drops clock evs r k r2 k2"
    "took_by evs = map snd ms1" "answered_by evs = pings [f]"
    "sc_unread k2 = sc_unread k" "sc_reads k2 = sc_reads k" "wr_room N r2"
proof -
  have l: "rb_ok N (wl_buf l)" "SEND_ROOM \<le> length (wl_out l)" "rb_filled (wl_buf l) @ sc_unread k = concat (map enc_frame (f # gs))"
    and ok: "list_all (frame_sendable N) (f # gs)" "assembled M s (wr_assembly r)" "carries s (f # gs) ms"
      "list_all (\<lambda>(op, p). length p \<le> M) ms" "wr_state r = WsOpen"
      "length (wr_keep r) = MAX_KEEPALIVE_LEN"
    using ready link by (auto simp: wr_ready_def)
  have pk: "wl_peek l =
      Inr (Some \<lparr> wi_fin = fst f, wi_opcode = fst (snd f), wi_payload = snd (snd f), wi_len = length (enc_frame f) \<rparr>)"
    using wl_peek_stream [OF l(1,3) ok(1)] there by simp
  have sendable: "frame_sendable N f" "list_all (frame_sendable N) gs"
    using ok(1) by simp_all
  let ?t = "clock (sc_turn k)"
  obtain s' a' ms1 ms2 p' where step: "on_frame ops publish note_drops
      \<lparr> wi_fin = fst f, wi_opcode = fst (snd f), wi_payload = snd (snd f), wi_len = length (enc_frame f) \<rparr> ?t
        (wr_pipeline r) (wr_assembly r) = (Inr (frame_action f), p', a')"
    "ms = ms1 @ ms2" "carries s' gs ms2" "assembled M s' a'"
    "\<And>keep out. seen (p', keep, out) = seen (replay ops publish note_drops (took_all ?t ms1) (wr_pipeline r, keep, out))"
    using on_frame_step [OF ok(3,2,4) sendable(1)] by metis
  define l1 where "l1 = wl_consume (length (enc_frame f)) l"
  note l1 = wl_consume_frame [OF l(1,3) there, folded l1_def]
  define r1 where "r1 = r\<lparr> wr_pipeline := p', wr_assembly := a', wr_link := Some l1, wr_last_rx_ns := ?t, wr_pinged := False \<rparr>"
  have did: "wr_did ops publish note_drops clock (took_all ?t ms1) r k r1 (sc_tick k)"
    using step(5) by (simp add: wr_did_def told_def r1_def)
  show thesis
  proof (cases "fst (snd f) = Ping")
    case False
    then have act: "frame_action f = ActionNone" "pings [f] = []"
      by (cases f; simp add: frame_action_def)+
    show thesis
    proof (rule that [of r1 "sc_tick k" ms1 ms2 s' "took_all ?t ms1"])
      show "wr_frames (script_os chunk clock) ops publish note_drops (Suc n) now r k =
          wr_frames (script_os chunk clock) ops publish note_drops n now r1 (sc_tick k)" for n now
        using act by (simp add: link pk step(1) r1_def l1_def Let_def)
      show "wr_ready N M s' gs ms2 r1 (sc_tick k)"
        using l(2) l1 step ok sendable(2) by (simp add: wr_ready_def r1_def)
      show "wr_room N r1"
        using l1(4) by (simp add: wr_room_def r1_def)
    qed (simp_all add: step(2) did act(2))
  next
    case True
    then obtain p where p: "f = (True, Ping, p)" "length p \<le> MAX_CONTROL_PAYLOAD"
      using sendable(1) by (cases f) auto
    define r2 where "r2 = on_ws_pipeline ws_note_pong_sent r1"
    have r2: "wr_link r2 = Some l1" "wr_cfg r2 = wr_cfg r" "wr_assembly r2 = a'" "wr_state r2 = wr_state r"
      "wr_keep r2 = wr_keep r" "wr_last_rx_ns r2 = wr_last_rx_ns r1" "cp_shown (wr_pipeline r2) = cp_shown (wr_pipeline r1)"
      by (simp_all add: r2_def on_ws_pipeline_def r1_def)
    have "SEND_ROOM \<le> length (wl_out l1)" "length p \<le> MAX_KEEPALIVE_LEN"
      using l(2) l1(2) p(2) by (simp_all add: MAX_KEEPALIVE_LEN_def MAX_CONTROL_PAYLOAD_def)
    with wr_send_script [OF r2(1), of p Pong chunk clock "sc_tick k"] p(2) obtain l2 k2 where send:
      "wr_send (script_os chunk clock) Pong p r2 (sc_tick k) = (None, r2\<lparr> wr_link := Some l2 \<rparr>, k2)"
      "same_link r2 (sc_tick k) (r2\<lparr> wr_link := Some l2 \<rparr>) k2"
      "map server_reads (sc_sent k2) = map server_reads (sc_sent k) @ [Some (Pong, p)]"
      by auto
    then have l2: "wl_buf l2 = wl_buf l1" "length (wl_out l2) = length (wl_out l1)" "sc_unread k2 = sc_unread k"
      "sc_reads k2 = sc_reads k"
      using r2(1) by (simp_all add: same_link_def)
    have pong: "wr_did ops publish note_drops clock [Answered p] r1 (sc_tick k) (r2\<lparr> wr_link := Some l2 \<rparr>) k2"
      using r2 send(3) by (simp add: wr_did_def told_def seen_def replay_def events_of_def r1_def)
    show thesis
    proof (rule that [of "r2\<lparr> wr_link := Some l2 \<rparr>" k2 ms1 ms2 s' "took_all ?t ms1 @ [Answered p]"])
      have "take (length p) (copy_at 0 p (replicate MAX_CONTROL_PAYLOAD 0)) = p"
        by (simp add: copy_at_def)
      then have "wr_frames (script_os chunk clock) ops publish note_drops (Suc n) now r k =
          (case wr_send (script_os chunk clock) Pong p r2 (sc_tick k) of
              (Some e, r, k) \<Rightarrow> (Some e, r, k)
            | (None, r, k) \<Rightarrow> wr_frames (script_os chunk clock) ops publish note_drops n now r k)" for n now
        using step(1) pk by (simp add: link p frame_action_def r2_def r1_def l1_def Let_def)
      then show "wr_frames (script_os chunk clock) ops publish note_drops (Suc n) now r k =
          wr_frames (script_os chunk clock) ops publish note_drops n now (r2\<lparr> wr_link := Some l2 \<rparr>) k2" for n now
        using send(1) by (simp del: wr_frames.simps)
      show "wr_ready N M s' gs ms2 (r2\<lparr> wr_link := Some l2 \<rparr>) k2"
        using l(2) l1 l2 step ok sendable(2) r2 by (simp add: wr_ready_def)
      show "wr_room N (r2\<lparr> wr_link := Some l2 \<rparr>)"
        using l1(4) l2(1) by (simp add: wr_room_def)
    qed (use wr_did_trans [OF did pong] p(1) in \<open>simp_all add: step(2) l2\<close>)
  qed
qed

lemma wr_frames_spec:
  assumes "wr_ready N M s fs ms r k" "no_silence clock r" "keepalive_ok ops" "now \<in> range clock" "0 < N"
  shows "\<exists>r' k' s' fs1 fs2 ms1 ms2 evs.
    wr_frames (script_os chunk clock) ops publish note_drops n now r k = (None, r', k') \<and>
    fs = fs1 @ fs2 \<and> ms = ms1 @ ms2 \<and> wr_ready N M s' fs2 ms2 r' k' \<and> sc_unread k' = sc_unread k \<and> sc_reads k' = sc_reads k \<and>
    wr_did ops publish note_drops clock evs r k r' k' \<and> took_by evs = map snd ms1 \<and> answered_by evs = pings fs1 \<and>
    (0 < n \<or> wr_room N r \<longrightarrow> wr_room N r') \<and> (0 < n \<and> fs \<noteq> [] \<and> sc_unread k = [] \<longrightarrow> fs1 \<noteq> [])"
  using assms(1,2)
proof (induction n arbitrary: s fs ms r k)
  case 0
  obtain r' k' evs where "wr_tick (script_os chunk clock) ops now r k = (None, r', k')" "took_by evs = []" "answered_by evs = []"
    "wr_did ops publish note_drops clock evs r k r' k'" "wr_ready N M s fs ms r' k'" "wr_room N r \<longrightarrow> wr_room N r'"
    "sc_unread k' = sc_unread k" "sc_reads k' = sc_reads k"
    using wr_tick_spec [OF 0(1) assms(3) 0(2) assms(4)] by blast
  then show ?case
    by - (rule exI [of _ r'], rule exI [of _ k'], rule exI [of _ s], rule exI [of _ "[]"], rule exI [of _ fs],
        rule exI [of _ "[]"], rule exI [of _ ms], rule exI [of _ evs], simp)
next
  case (Suc n)
  obtain l where l: "wr_link r = Some l" "rb_ok N (wl_buf l)" "rb_filled (wl_buf l) @ sc_unread k = concat (map enc_frame fs)"
    and sendable: "list_all (frame_sendable N) fs"
    using Suc.prems(1) by (auto simp: wr_ready_def)
  note peek = wl_peek_stream [OF l(2,3) sendable]
  show ?case
  proof (cases "wl_peek l = Inr None")
    case True
    have ticked: "wr_ready N M s fs ms r (sc_tick k)"
      using Suc.prems(1) by (simp add: wr_ready_def)
    obtain r' k' evs where tick: "wr_tick (script_os chunk clock) ops now r (sc_tick k) = (None, r', k')" "took_by evs = []"
      "answered_by evs = []" "wr_did ops publish note_drops clock evs r (sc_tick k) r' k'" "wr_ready N M s fs ms r' k'"
      "wr_room N r \<longrightarrow> wr_room N r'" "sc_unread k' = sc_unread k" "sc_reads k' = sc_reads k"
      using wr_tick_spec [OF ticked assms(3) Suc.prems(2) assms(4)] by (metis sc_tick_simps(1,3))
    have "wr_frames (script_os chunk clock) ops publish note_drops (Suc n) now r k = (None, r', k')"
      using True tick(1) by (simp add: l(1))
    moreover have "wr_did ops publish note_drops clock evs r k r' k'"
      using tick(4) by (simp add: wr_did_def told_def)
    moreover have "wr_room N r" "fs = [] \<or> sc_unread k \<noteq> []"
      using peek True l sendable assms(5) by (cases fs; force simp: wr_room_def split: if_splits)+
    ultimately show ?thesis
      by - (rule exI [of _ r'], rule exI [of _ k'], rule exI [of _ s], rule exI [of _ "[]"], rule exI [of _ fs],
          rule exI [of _ "[]"], rule exI [of _ ms], rule exI [of _ evs], use tick in \<open>simp del: wr_frames.simps\<close>)
  next
    case False
    then obtain f gs where f: "fs = f # gs" "length (enc_frame f) \<le> length (rb_filled (wl_buf l))"
      using peek by (cases fs) (auto split: if_splits)
    obtain r2 k2 s' ms1 ms2 evs where taken:
      "\<And>n now. wr_frames (script_os chunk clock) ops publish note_drops (Suc n) now r k =
         wr_frames (script_os chunk clock) ops publish note_drops n now r2 k2"
      "ms = ms1 @ ms2" "wr_ready N M s' gs ms2 r2 k2" "wr_did ops publish note_drops clock evs r k r2 k2"
      "took_by evs = map snd ms1" "answered_by evs = pings [f]"
      "sc_unread k2 = sc_unread k" "sc_reads k2 = sc_reads k" "wr_room N r2"
      using wr_frame_taken [OF Suc.prems(1) [unfolded f(1)] l(1) f(2)] by metis
    from Suc.IH [OF taken(3) no_silence_did [OF Suc.prems(2) taken(4)]] obtain r' k' s'' fs1 fs2 ms3 ms4 evs' where ih:
      "wr_frames (script_os chunk clock) ops publish note_drops n now r2 k2 = (None, r', k')"
      "gs = fs1 @ fs2" "ms2 = ms3 @ ms4" "wr_ready N M s'' fs2 ms4 r' k'" "sc_unread k' = sc_unread k2" "sc_reads k' = sc_reads k2"
      "wr_did ops publish note_drops clock evs' r2 k2 r' k'" "took_by evs' = map snd ms3" "answered_by evs' = pings fs1"
      "0 < n \<or> wr_room N r2 \<longrightarrow> wr_room N r'"
      by blast
    then show ?thesis
      by - (rule exI [of _ r'], rule exI [of _ k'], rule exI [of _ s''], rule exI [of _ "f # fs1"], rule exI [of _ fs2],
          rule exI [of _ "ms1 @ ms3"], rule exI [of _ ms4], rule exI [of _ "evs @ evs'"],
          use taken ih f(1) wr_did_trans [OF taken(4) ih(7)] pings_append [of "[f]" fs1] in \<open>simp del: wr_frames.simps\<close>)
  qed
qed

lemma wr_pump_spec:
  assumes ready: "wr_ready N M s fs ms r k" and room: "wr_room N r" and "no_silence clock r"
    "keepalive_ok ops" "now \<in> range clock" "0 < unat (wc_burst (wr_cfg r))"
  shows "\<exists>r' k' s' fs1 fs2 ms1 ms2 evs.
    wr_pump (script_os chunk clock) ops publish note_drops now r k = (None, r', k') \<and>
    fs = fs1 @ fs2 \<and> ms = ms1 @ ms2 \<and> wr_ready N M s' fs2 ms2 r' k' \<and> wr_room N r' \<and> sc_reads k' = Suc (sc_reads k) \<and>
    wr_did ops publish note_drops clock evs r k r' k' \<and> took_by evs = map snd ms1 \<and> answered_by evs = pings fs1 \<and>
    length (sc_unread k') \<le> length (sc_unread k) \<and>
    (fs = [] \<or> chunk (sc_reads k) = 0 \<or> length (sc_unread k') + length fs2 < length (sc_unread k) + length fs)"
proof -
  obtain l where l: "wr_link r = Some l" "rb_ok N (wl_buf l)" "SEND_ROOM \<le> length (wl_out l)"
    "rb_filled (wl_buf l) @ sc_unread k = concat (map enc_frame fs)"
    using ready by (auto simp: wr_ready_def)
  have spare: "0 < N - length (rb_filled (wl_buf l))"
    using room l(1) by (simp add: wr_room_def)
  then have N: "0 < N"
    by simp
  define m where "m = min (N - length (rb_filled (wl_buf l))) (chunk (sc_reads k))"
  define bs where "bs = take m (sc_unread k)"
  define k1 where "k1 = k\<lparr> sc_unread := drop (length bs) (sc_unread k), sc_reads := Suc (sc_reads k) \<rparr>"
  define b where "b = rb_compact (wl_buf l)"
  define l1 where "l1 = l\<lparr> wl_buf := if bs = [] then b else rb_commit (length bs) (rb_write_spare bs b) \<rparr>"
  note b = rb_compact_ok [OF l(2), folded b_def]
  have fits: "length bs \<le> length (rb_spare b)"
    using b(5) by (simp add: bs_def m_def)
  have spare_nonempty: "rb_spare b \<noteq> []"
    using spare b(5) by (metis length_0_conv less_irrefl)
  have fill: "wl_fill (script_os chunk clock) l k = (Inr (length bs), l1, k1)"
    using spare fits spare_nonempty
    by (simp add: wl_fill_def b(5) script_read_def l1_def k1_def would_block_def Let_def flip: b_def bs_def m_def)
  have l1: "rb_ok N (wl_buf l1)" "rb_filled (wl_buf l1) = rb_filled (wl_buf l) @ bs" "wl_out l1 = wl_out l"
    using b(1,2) rb_read_ok [OF b(1,3) fits] by (simp_all add: l1_def)
  have k1: "sc_unread k1 = drop (length bs) (sc_unread k)" "sc_sent k1 = sc_sent k" "sc_reads k1 = Suc (sc_reads k)"
    by (simp_all add: k1_def)
  have split: "bs @ sc_unread k1 = sc_unread k"
    by (simp add: k1(1)) (simp add: bs_def min_def)
  define r1 where "r1 = on_ws_pipeline (ws_note_bytes (of_nat (length bs))) (r\<lparr> wr_link := Some l1 \<rparr>)"
  have r1: "wr_link r1 = Some l1" "wr_cfg r1 = wr_cfg r" "wr_assembly r1 = wr_assembly r" "wr_state r1 = wr_state r"
    "wr_keep r1 = wr_keep r" "wr_last_rx_ns r1 = wr_last_rx_ns r" "cp_shown (wr_pipeline r1) = cp_shown (wr_pipeline r)"
    by (simp_all add: r1_def on_ws_pipeline_def)
  have ready1: "wr_ready N M s fs ms r1 k1"
    using ready l l1 r1 split by (auto simp: wr_ready_def)
  have did1: "wr_did ops publish note_drops clock [] r k r1 k1"
    using r1 k1 by (intro wr_did_nothing) (simp_all add: told_def seen_def)
  obtain r' k' s' fs1 fs2 ms1 ms2 evs where loop:
    "wr_frames (script_os chunk clock) ops publish note_drops (unat (wc_burst (wr_cfg r))) now r1 k1 = (None, r', k')"
    "fs = fs1 @ fs2" "ms = ms1 @ ms2" "wr_ready N M s' fs2 ms2 r' k'" "sc_unread k' = sc_unread k1" "sc_reads k' = sc_reads k1"
    "wr_did ops publish note_drops clock evs r1 k1 r' k'" "took_by evs = map snd ms1" "answered_by evs = pings fs1"
    "wr_room N r'" "fs \<noteq> [] \<and> sc_unread k1 = [] \<longrightarrow> fs1 \<noteq> []"
    using wr_frames_spec [OF ready1 no_silence_did [OF assms(3) did1] assms(4,5) N, of chunk publish note_drops
        "unat (wc_burst (wr_cfg r))"] assms(6) by blast
  have pump: "wr_pump (script_os chunk clock) ops publish note_drops now r k = (None, r', k')"
    using loop(1) by (simp add: wr_pump_def l(1) fill flip: r1_def)
  from wr_did_trans [OF did1 loop(7)] have did: "wr_did ops publish note_drops clock evs r k r' k'"
    by simp
  have less: "length (sc_unread k') \<le> length (sc_unread k)"
    "sc_unread k \<noteq> [] \<Longrightarrow> 0 < chunk (sc_reads k) \<Longrightarrow> length (sc_unread k') < length (sc_unread k)"
    using spare loop(5) k1(1) by (auto simp: bs_def m_def)
  have "length (sc_unread k') + length fs2 < length (sc_unread k) + length fs" if "fs \<noteq> []" "0 < chunk (sc_reads k)"
  proof (cases "sc_unread k = []")
    case True
    then have "0 < length fs1"
      using loop(11) that(1) k1(1) by simp
    then have "length fs2 < length fs"
      using loop(2) by simp
    with less(1) show ?thesis
      by linarith
  next
    case False
    have "length fs2 \<le> length fs"
      using loop(2) by simp
    with less(2) [OF False that(2)] show ?thesis
      by linarith
  qed
  then show ?thesis
    using pump loop(2-4,8-10) did less(1) loop(6) k1(3)
    by - (rule exI [of _ r'], rule exI [of _ k'], rule exI [of _ s'], rule exI [of _ fs1], rule exI [of _ fs2],
        rule exI [of _ ms1], rule exI [of _ ms2], rule exI [of _ evs], auto)
qed

text \<open>A round ends with a liveness record, if one is due.\<close>

lemma wr_poll_once_spec:
  assumes "wr_ready N M s fs ms r k" "wr_room N r" "no_silence clock r" "keepalive_ok ops" "0 < unat (wc_burst (wr_cfg r))"
  shows "\<exists>r' k' s' fs1 fs2 ms1 ms2 evs.
    wr_poll_once (script_os chunk clock) ops publish note_drops r k = Some (None, r', k') \<and>
    fs = fs1 @ fs2 \<and> ms = ms1 @ ms2 \<and> wr_ready N M s' fs2 ms2 r' k' \<and> wr_room N r' \<and> sc_reads k' = Suc (sc_reads k) \<and>
    wr_did ops publish note_drops clock evs r k r' k' \<and> took_by evs = map snd ms1 \<and> answered_by evs = pings fs1 \<and>
    length (sc_unread k') \<le> length (sc_unread k) \<and>
    (fs = [] \<or> chunk (sc_reads k) = 0 \<or> length (sc_unread k') + length fs2 < length (sc_unread k) + length fs)"
proof -
  have ready: "wr_ready N M s fs ms r (sc_tick k)"
    using assms(1) by (simp add: wr_ready_def)
  obtain r1 k1 s1 fs1 fs2 ms1 ms2 evs where pump:
    "wr_pump (script_os chunk clock) ops publish note_drops (clock (sc_turn k)) r (sc_tick k) = (None, r1, k1)"
    "fs = fs1 @ fs2" "ms = ms1 @ ms2" "wr_ready N M s1 fs2 ms2 r1 k1" "wr_room N r1" "sc_reads k1 = Suc (sc_reads k)"
    "wr_did ops publish note_drops clock evs r (sc_tick k) r1 k1" "took_by evs = map snd ms1" "answered_by evs = pings fs1"
    "length (sc_unread k1) \<le> length (sc_unread k)"
    "fs = [] \<or> chunk (sc_reads k) = 0 \<or> length (sc_unread k1) + length fs2 < length (sc_unread k) + length fs"
    using wr_pump_spec [OF ready assms(2-4) rangeI assms(5), of chunk publish note_drops "sc_turn k"] by auto
  define now where "now = clock (sc_turn k1)"
  define r2 where "r2 = wr_beat ops publish now r1"
  define es where "es = (if wc_record_heartbeat_ns (wr_cfg r1) = 0 \<or> now < wr_next_record_heartbeat_ns r1 then [] else [Beat now])"
  have once: "wr_poll_once (script_os chunk clock) ops publish note_drops r k = Some (None, r2, sc_tick k1)"
    using pump(1) assms(1) by (simp add: wr_poll_once_def wr_ready_def r2_def now_def)
  have r2: "wr_link r2 = wr_link r1" "wr_assembly r2 = wr_assembly r1" "wr_state r2 = wr_state r1" "wr_keep r2 = wr_keep r1"
    by (simp_all add: r2_def wr_beat_def on_ws_pipeline_def)
  have beat: "wr_did ops publish note_drops clock es r1 k1 r2 (sc_tick k1)"
    by (simp add: wr_did_def told_def r2_def es_def wr_beat_def on_ws_pipeline_def replay_def seen_def events_of_def)
  have "wr_did ops publish note_drops clock evs r k r1 k1"
    using pump(7) by (simp add: wr_did_def told_def)
  from wr_did_trans [OF this beat] have did: "wr_did ops publish note_drops clock (evs @ es) r k r2 (sc_tick k1)" .
  have "wr_ready N M s1 fs2 ms2 r2 (sc_tick k1)" "wr_room N r2" "took_by es = []" "answered_by es = []"
    using pump(4,5) r2 by (simp_all add: wr_ready_def wr_room_def es_def)
  then show ?thesis
    using once did pump
    by - (rule exI [of _ r2], rule exI [of _ "sc_tick k1"], rule exI [of _ s1], rule exI [of _ fs1], rule exI [of _ fs2],
        rule exI [of _ ms1], rule exI [of _ ms2], rule exI [of _ "evs @ es"], simp)
qed

text \<open>Rounds of the loop, with what each returned; and how many of the next reads can get something.\<close>

fun wr_polls ::
    "'k ws_os \<Rightarrow> ('r, 'e, 's \<times> u64) router_ops \<Rightarrow> ('e, 's) ws_publish \<Rightarrow> (u64 \<Rightarrow> 's \<Rightarrow> 's) \<Rightarrow> nat \<Rightarrow>
     ('r, 's) ws_receiver \<Rightarrow> 'k \<Rightarrow> (ws_link_error option list \<times> ('r, 's) ws_receiver \<times> 'k) option" where
  "wr_polls os ops publish note_drops 0 r k = Some ([], r, k)"
| "wr_polls os ops publish note_drops (Suc n) r k =
     (case wr_poll_once os ops publish note_drops r k of
        None \<Rightarrow> None
      | Some (e, r, k) \<Rightarrow> map_option (\<lambda>(es, r, k). (e # es, r, k)) (wr_polls os ops publish note_drops n r k))"

fun arrivals :: "(nat \<Rightarrow> nat) \<Rightarrow> nat \<Rightarrow> nat \<Rightarrow> nat" where
  "arrivals chunk i 0 = 0"
| "arrivals chunk i (Suc n) = (if 0 < chunk i then 1 else 0) + arrivals chunk (Suc i) n"

lemma wr_polls_spec:
  assumes "wr_ready N M s fs ms r k" "wr_room N r" "no_silence clock r" "keepalive_ok ops" "0 < unat (wc_burst (wr_cfg r))"
    "length (sc_unread k) + length fs \<le> arrivals chunk (sc_reads k) n"
  shows "\<exists>r' k' evs. wr_polls (script_os chunk clock) ops publish note_drops n r k = Some (replicate n None, r', k') \<and>
    wr_ready N M None [] [] r' k' \<and> wr_room N r' \<and> wr_did ops publish note_drops clock evs r k r' k' \<and>
    took_by evs = map snd ms \<and> answered_by evs = pings fs"
  using assms
proof (induction n arbitrary: s fs ms r k)
  case 0
  then have "carries s [] ms" "fs = []"
    by (simp_all add: wr_ready_def)
  moreover from this have "s = None" "ms = []"
    by (auto elim: carries.cases)
  ultimately show ?case
    using 0 wr_did_nothing [of r k r k ops publish note_drops clock]
    by (intro exI [of _ r] exI [of _ k] exI [of _ "[]"]) simp
next
  case (Suc n)
  obtain r1 k1 s1 fs1 fs2 ms1 ms2 evs where once:
    "wr_poll_once (script_os chunk clock) ops publish note_drops r k = Some (None, r1, k1)"
    "fs = fs1 @ fs2" "ms = ms1 @ ms2" "wr_ready N M s1 fs2 ms2 r1 k1" "wr_room N r1" "sc_reads k1 = Suc (sc_reads k)"
    "wr_did ops publish note_drops clock evs r k r1 k1" "took_by evs = map snd ms1" "answered_by evs = pings fs1"
    "length (sc_unread k1) \<le> length (sc_unread k)"
    "fs = [] \<or> chunk (sc_reads k) = 0 \<or> length (sc_unread k1) + length fs2 < length (sc_unread k) + length fs"
    using wr_poll_once_spec [OF Suc.prems(1-5), of chunk publish note_drops] by blast
  have "wr_cfg r1 = wr_cfg r"
    using once(7) by (simp add: wr_did_def)
  moreover have "length (sc_unread k1) + length fs2 \<le> arrivals chunk (sc_reads k1) n"
  proof (cases "fs = []")
    case True
    then have "sc_unread k = []"
      using Suc.prems(1) by (auto simp: wr_ready_def)
    then show ?thesis
      using True once(2,10) by simp
  next
    case False
    then show ?thesis
      using once(2,6,10,11) Suc.prems(6) by (auto split: if_splits)
  qed
  ultimately obtain r' k' es where rst:
    "wr_polls (script_os chunk clock) ops publish note_drops n r1 k1 = Some (replicate n None, r', k')"
    "wr_ready N M None [] [] r' k'" "wr_room N r'" "wr_did ops publish note_drops clock es r1 k1 r' k'"
    "took_by es = map snd ms2" "answered_by es = pings fs2"
    using Suc.IH [OF once(4,5) no_silence_did [OF Suc.prems(3) once(7)] Suc.prems(4)] Suc.prems(5) by auto
  show ?case
    using once rst wr_did_trans [OF once(7) rst(4)]
    by (intro exI [of _ r'] exI [of _ k'] exI [of _ "evs @ es"]) (simp add: pings_append)
qed

subsection \<open>What the venue and the pipeline get\<close>

text \<open>A receiver with an open connection, between two messages; what is already in its buffer.\<close>

definition wr_idle :: "nat \<Rightarrow> nat \<Rightarrow> ('r, 's) ws_receiver \<Rightarrow> bool" where
  "wr_idle N M r \<longleftrightarrow>
     (\<exists>l. wr_link r = Some l \<and> rb_ok N (wl_buf l) \<and> length (rb_filled (wl_buf l)) < N \<and> SEND_ROOM \<le> length (wl_out l)) \<and>
     assembled M None (wr_assembly r) \<and> wr_state r = WsOpen \<and> length (wr_keep r) = MAX_KEEPALIVE_LEN"

definition wr_pending :: "('r, 's) ws_receiver \<Rightarrow> bytes" where
  "wr_pending r = (case wr_link r of None \<Rightarrow> [] | Some l \<Rightarrow> rb_filled (wl_buf l))"

lemma wr_idle_ready:
  "wr_ready N M None fs ms r k \<and> wr_room N r \<longleftrightarrow>
     wr_idle N M r \<and> wr_pending r @ sc_unread k = concat (map enc_frame fs) \<and> carries None fs ms \<and>
     list_all (frame_sendable N) fs \<and> list_all (\<lambda>(op, p). length p \<le> M) ms"
  by (auto simp: wr_ready_def wr_room_def wr_idle_def wr_pending_def)

text \<open>The payloads of the pongs among frames that were sent, as a server reads them.\<close>

fun pongs_read :: "(opcode \<times> bytes) option list \<Rightarrow> bytes list" where
  "pongs_read [] = []"
| "pongs_read (Some (op, p) # out) = (if op = Pong then p # pongs_read out else pongs_read out)"
| "pongs_read (None # out) = pongs_read out"

lemma pongs_read_append [simp]: "pongs_read (xs @ ys) = pongs_read xs @ pongs_read ys"
  by (induction xs rule: pongs_read.induct) simp_all

lemma replay_pongs:
  "pongs_read (snd (snd (replay ops publish note_drops evs st))) = pongs_read (snd (snd st)) @ answered_by evs"
proof (induction evs arbitrary: st)
  case (Cons e evs)
  obtain p keep out where st: "st = (p, keep, out)"
    by (cases st)
  show ?case
    using Cons.IH [of "happens ops publish note_drops e st"]
    by (cases e) (simp_all add: replay_def st split: prod.splits option.split)
qed (simp add: replay_def)

text \<open>
  C8. A venue cuts its messages into frames as it likes - whole, or in fragments with pings and pongs between
  them -, and the frames arrive as the network likes - many in one read, one in many, with reads between that
  would block. Then the loop takes in exactly the messages, whole and in order; it answers every ping with a
  masked pong which a server that knows only the protocol reads as the ping's payload, in order; whatever else
  reaches the pipeline or the venue is a ping of the loop's own, a keepalive of the router or a liveness record,
  and the configuration has to ask for those; no round reports an error, and the loop ends where the theorem
  starts, with an empty buffer. It is enough that as many of the reads get something as there are bytes and
  frames.

  The conditions: a frame with its header fits the receive buffer and a message the reassembly buffer
  (\<open>N\<close> and \<open>M\<close>, a megabyte each in the program: a longer one is \<open>Oversize\<close> or \<open>MessageTooLong\<close> and ends
  the connection); control frames are whole and at most 125 bytes; a burst is at least one frame; the venue
  sends no close frame; writes succeed; a router's keepalive stays in its buffer; with pings on, the clock
  shows no more than two ping intervals in the run, after which the loop would take the venue for silent.
\<close>

theorem ws_stream_delivered:
  fixes r :: "('r, 's) ws_receiver" and ops :: "('r, 'e, 's \<times> u64) router_ops"
  assumes "wr_idle N M r" "wr_pending r @ sc_unread k = concat (map enc_frame fs)" "carries None fs ms"
    and "list_all (frame_sendable N) fs" "list_all (\<lambda>(op, p). length p \<le> M) ms"
    and "keepalive_ok ops" "no_silence clock r" "0 < unat (wc_burst (wr_cfg r))"
    and "length (sc_unread k) + length fs \<le> arrivals chunk (sc_reads k) n"
  shows "\<exists>r' k' evs. wr_polls (script_os chunk clock) ops publish note_drops n r k = Some (replicate n None, r', k') \<and>
    seen (told r' k') = seen (replay ops publish note_drops evs (told r k)) \<and>
    took_by evs = map snd ms \<and> (\<forall>e \<in> set evs. events_of (wr_cfg r) e) \<and>
    pongs_read (map server_reads (sc_sent k')) = pongs_read (map server_reads (sc_sent k)) @ pings fs \<and>
    wr_idle N M r' \<and> wr_pending r' = [] \<and> sc_unread k' = []"
proof -
  have "wr_ready N M None fs ms r k" "wr_room N r"
    using assms(1-5) wr_idle_ready [of N M fs ms r k] by blast+
  from wr_polls_spec [OF this assms(7,6,8,9), of publish note_drops] obtain r' k' evs where run:
    "wr_polls (script_os chunk clock) ops publish note_drops n r k = Some (replicate n None, r', k')"
    "wr_ready N M None [] [] r' k'" "wr_room N r'" "wr_did ops publish note_drops clock evs r k r' k'"
    "took_by evs = map snd ms" "answered_by evs = pings fs"
    by blast
  have same: "seen (told r' k') = seen (replay ops publish note_drops evs (told r k))" "\<forall>e \<in> set evs. events_of (wr_cfg r) e"
    using run(4) by (simp_all add: wr_did_def)
  have "map server_reads (sc_sent k') = snd (snd (replay ops publish note_drops evs (told r k)))"
    using same(1) by (simp add: seen_def told_def split: prod.splits)
  then have "pongs_read (map server_reads (sc_sent k')) = pongs_read (map server_reads (sc_sent k)) @ pings fs"
    using replay_pongs [of ops publish note_drops evs "told r k"] run(6) by (simp add: told_def)
  moreover have "wr_idle N M r'" "wr_pending r' = []" "sc_unread k' = []"
    using run(2,3) wr_idle_ready [of N M "[]" "[]" r' k'] by auto
  ultimately show ?thesis
    using run(1,5) same by blast
qed

subsection \<open>A conversation\<close>

text \<open>A router that adds up what it is given, and wants a keepalive whenever the clock is late.\<close>

definition demo_ops :: "(nat, unit, unit \<times> u64) router_ops" where
  "demo_ops =
     \<lparr> ro_venue = \<lambda>_. Krx, ro_route = \<lambda>r _ msg _ t. (Inr 0, r * 10 + length msg, t),
       ro_route_rest = router_route_rest_default,
       ro_keepalive = \<lambda>r now out. (if now < 500 then None else Some 4, r, copy_at 0 (str ''ping'') out) \<rparr>"

definition demo_link :: ws_link where
  "demo_link =
     \<lparr> wl_stream = PlainStream 3, wl_peer = AddrV4 [127, 0, 0, 1] 443, wl_buf = rb_new 64, wl_out = replicate SEND_ROOM 0, wl_mask = 1 \<rparr>"

definition demo_ws_receiver :: "(nat, unit) ws_receiver" where
  "demo_ws_receiver =
     (ws_receiver_new ws_config_default \<lparr> we_host = lit ''h'', we_port = 80, we_path = lit ''/'', we_tls = False \<rparr> 0 ())
       \<lparr> wr_link := Some demo_link, wr_state := WsOpen, wr_assembly := assembly_new 16 \<rparr>"

text \<open>A message in two fragments around a ping, and a message in one frame; every third read would block.\<close>

definition demo_frames :: "wframe list" where
  "demo_frames = [(False, Text, [1, 2]), (True, Ping, [7]), (True, Continuation, [3]), (True, Binary, [4])]"

definition demo_script :: script where
  "demo_script = \<lparr> sc_unread = concat (map enc_frame demo_frames), sc_sent = [], sc_reads = 0, sc_turn = 0 \<rparr>"

definition demo_chunk :: "nat \<Rightarrow> nat" where
  "demo_chunk i = i mod 3"

definition demo_clock :: "nat \<Rightarrow> u64" where
  "demo_clock i = word_of_nat (i mod 1000)"

lemma demo_carries: "carries None demo_frames [(Text, [1, 2, 3]), (Binary, [4])]"
proof -
  have "carries (Some (Text, [1, 2])) [(True, Continuation, [3]), (True, Binary, [4])] [(Text, [1, 2] @ [3]), (Binary, [4])]"
    by (intro carries.last carries.single carries.nothing disjI2 refl)
  then have "carries (Some (Text, [1, 2])) [(True, Continuation, [3]), (True, Binary, [4])] [(Text, [1, 2, 3]), (Binary, [4])]"
    by simp
  then have "carries (Some (Text, [1, 2])) [(True, Ping, [7]), (True, Continuation, [3]), (True, Binary, [4])]
      [(Text, [1, 2, 3]), (Binary, [4])]"
    by (rule carries.control) simp
  then show ?thesis
    unfolding demo_frames_def by (rule carries.first) simp
qed

lemma demo_conditions:
  "wr_idle 64 16 demo_ws_receiver" "wr_pending demo_ws_receiver @ sc_unread demo_script = concat (map enc_frame demo_frames)"
  "keepalive_ok demo_ops" "no_silence demo_clock demo_ws_receiver" "0 < unat (wc_burst (wr_cfg demo_ws_receiver))"
  "list_all (frame_sendable 64) demo_frames" "length (sc_unread demo_script) = 13"
proof -
  show "wr_idle 64 16 demo_ws_receiver"
    using rb_new_ok [of 64]
    by (simp add: wr_idle_def demo_ws_receiver_def demo_link_def ws_receiver_new_def assembled_def)
  show "wr_pending demo_ws_receiver @ sc_unread demo_script = concat (map enc_frame demo_frames)"
    using rb_new_ok [of 64] by (simp add: wr_pending_def demo_ws_receiver_def demo_link_def demo_script_def)
  show "keepalive_ok demo_ops"
    by (simp add: keepalive_ok_def demo_ops_def MAX_KEEPALIVE_LEN_def str_def)
  have "demo_clock i \<le> 999" for i
    by (simp add: demo_clock_def word_le_nat_alt unat_of_nat less_Suc_eq_le [symmetric])
  then have "saturating_sub (demo_clock i) t \<le> 999" for i t
    unfolding word_le_nat_alt unat_saturating_sub by (meson diff_le_self order_trans)
  moreover have "(999 :: u64) \<le> saturating_mul 30000000000 2"
    by (simp add: saturating_mul_def)
  ultimately show "no_silence demo_clock demo_ws_receiver"
    by (auto simp: no_silence_def demo_ws_receiver_def ws_receiver_new_def ws_config_default_def intro: order_trans)
  show "0 < unat (wc_burst (wr_cfg demo_ws_receiver))"
    by (simp add: demo_ws_receiver_def ws_receiver_new_def ws_config_default_def)
  show "list_all (frame_sendable 64) demo_frames" "length (sc_unread demo_script) = 13"
    by (simp_all add: demo_script_def demo_frames_def ws_frame_def ws_head_def ws_length_bytes_def MAX_CONTROL_PAYLOAD_def)
qed

lemma demo_router:
  "cp_router (fst (replay demo_ops publish note_drops evs st)) = foldl (\<lambda>r m. r * 10 + length m) (cp_router (fst st)) (took_by evs)"
proof (induction evs arbitrary: st)
  case (Cons e evs)
  obtain p keep out where st: "st = (p, keep, out)"
    by (cases st)
  show ?case
    using Cons.IH [of "happens demo_ops publish note_drops e st"]
    by (cases e)
      (simp_all add: replay_def st ws_ingest_def ws_guarded_def ws_book_def demo_ops_def ws_heartbeat_def Let_def split: prod.splits)
qed (simp add: replay_def)

theorem ws_stream_delivered_witness:
  "\<exists>r' k'. wr_polls (script_os demo_chunk demo_clock) demo_ops (\<lambda>fill s. (Inl (), s)) (\<lambda>n s. s) 40 demo_ws_receiver demo_script
       = Some (replicate 40 None, r', k') \<and>
     cp_router (wr_pipeline r') = 31 \<and> pongs_read (map server_reads (sc_sent k')) = [[7]]"
proof -
  have enough: "length (sc_unread demo_script) + length demo_frames \<le> arrivals demo_chunk (sc_reads demo_script) 40"
  proof -
    have "17 \<le> arrivals demo_chunk 0 40"
      by code_simp
    moreover have "sc_reads demo_script = 0" "length demo_frames = 4"
      by (simp_all add: demo_script_def demo_frames_def)
    ultimately show ?thesis
      using demo_conditions(7) by simp
  qed
  have small: "list_all (\<lambda>(op, p). length p \<le> 16) [(Text, [1, 2, 3 :: u8]), (Binary, [4])]"
    by simp
  obtain r' k' evs where run:
    "wr_polls (script_os demo_chunk demo_clock) demo_ops (\<lambda>fill s. (Inl (), s)) (\<lambda>n s. s) 40 demo_ws_receiver demo_script
       = Some (replicate 40 None, r', k')"
    "seen (told r' k') = seen (replay demo_ops (\<lambda>fill s. (Inl (), s)) (\<lambda>n s. s) evs (told demo_ws_receiver demo_script))"
    "took_by evs = map snd [(Text, [1, 2, 3 :: u8]), (Binary, [4])]"
    "pongs_read (map server_reads (sc_sent k')) = pongs_read (map server_reads (sc_sent demo_script)) @ pings demo_frames"
    using ws_stream_delivered [OF demo_conditions(1,2) demo_carries demo_conditions(6) small demo_conditions(3-5) enough,
        of "\<lambda>fill s. (Inl (), s)" "\<lambda>n s. s"] by blast
  have "cp_shown (wr_pipeline r') =
      cp_shown (fst (replay demo_ops (\<lambda>fill s. (Inl (), s)) (\<lambda>n s. s) evs (told demo_ws_receiver demo_script)))"
    using run(2) by (simp add: seen_def told_def split: prod.splits)
  from cp_shown_router [OF this] have "cp_router (wr_pipeline r') = 31"
    using run(3) by (simp add: demo_router told_def demo_ws_receiver_def ws_receiver_new_def ws_pipeline_new_def)
  moreover have "pongs_read (map server_reads (sc_sent k')) = [[7]]"
    using run(4) by (simp add: demo_script_def demo_frames_def)
  ultimately show ?thesis
    using run(1) by blast
qed

end
