(* ===== verification/Crypto_Json.thy ===== *)
theory Crypto_Json
  imports Dynamic_Extractor Crypto_Pipeline
begin

text \<open>
  \<open>crates/jeed-crypto/src/json.rs\<close>: the scanner that reads a venue's messages where they lie. A scanner is
  given the message and a position in it and gives what it read and the position after it; a byte string
  that is borrowed is the slice of the message it is. Lemmas \<open>scan_bounds\<close> keep every position within the
  message, so that no slice and no index of this file is out of range.
\<close>

subsection \<open>Scanning primitives\<close>

text \<open>\<open>while pos < data.len() && p(data[pos]) { pos += 1 }\<close>, which every scanner here is made of.\<close>

function scan :: "(u8 \<Rightarrow> bool) \<Rightarrow> bytes \<Rightarrow> nat \<Rightarrow> nat" where
  "scan p data pos = (if pos < length data \<and> p (data ! pos) then scan p data (Suc pos) else pos)"
  by pat_completeness auto
termination
  by (relation "measure (\<lambda>(p, data, pos). length data - pos)") auto

declare scan.simps [simp del]

text \<open>\<open>&data[from..to]\<close>.\<close>

definition span :: "bytes \<Rightarrow> nat \<Rightarrow> nat \<Rightarrow> bytes" where
  "span data from to = take (to - from) (drop from data)"

definition is_space :: "u8 \<Rightarrow> bool" where
  "is_space b \<longleftrightarrow> b \<in> {0x20, 0x09, 0x0A, 0x0D}"

definition is_alphabetic :: "u8 \<Rightarrow> bool" where
  "is_alphabetic b \<longleftrightarrow> 0x41 \<le> b \<and> b \<le> 0x5A \<or> 0x61 \<le> b \<and> b \<le> 0x7A"

definition is_numeric :: "u8 \<Rightarrow> bool" where
  "is_numeric b \<longleftrightarrow> is_digit b \<or> b \<in> {0x2D, 0x2B, 0x2E, 0x65, 0x45}"

definition skip_ws :: "bytes \<Rightarrow> nat \<Rightarrow> nat" where
  "skip_ws = scan is_space"

definition skip_literal :: "bytes \<Rightarrow> nat \<Rightarrow> nat" where
  "skip_literal = scan is_alphabetic"

definition skip_number :: "bytes \<Rightarrow> nat \<Rightarrow> nat" where
  "skip_number = scan is_numeric"

text \<open>The inner loop of \<open>parse_string_bytes\<close>: to the closing quote, over \<open>\x\<close> pairs.\<close>

function scan_string :: "bytes \<Rightarrow> nat \<Rightarrow> nat" where
  "scan_string data pos =
     (if pos < length data \<and> data ! pos \<noteq> 0x22
      then if data ! pos = 0x5C \<and> pos + 1 < length data then scan_string data (pos + 2) else scan_string data (pos + 1)
      else pos)"
  by pat_completeness auto
termination
  by (relation "measure (\<lambda>(data, pos). length data - pos)") auto

declare scan_string.simps [simp del]

definition parse_string_bytes :: "bytes \<Rightarrow> nat \<Rightarrow> bytes \<times> nat" where
  "parse_string_bytes data pos =
     (let pos = scan (\<lambda>b. b \<noteq> 0x22) data pos
      in if pos \<ge> length data then ([], pos)
         else let start = pos + 1; pos = scan_string data start
              in (span data start pos, if pos < length data then pos + 1 else pos))"

text \<open>The first byte of the next key and where its value is; 0 when there is no key.\<close>

function next_key :: "bytes \<Rightarrow> nat \<Rightarrow> u8 \<times> nat" where
  "next_key data pos =
     (if pos < length data then
        if data ! pos = 0x22 then
          if pos + 1 < length data then
            let p = scan (\<lambda>b. b \<noteq> 0x3A) data (pos + 2);
                p = (if p < length data then p + 1 else p)
            in (data ! (pos + 1), skip_ws data p)
          else next_key data (pos + 1)
        else next_key data (pos + 1)
      else (0, pos))"
  by pat_completeness auto
termination
  by (relation "measure (\<lambda>(data, pos). length data - pos)") auto

declare next_key.simps [simp del]

definition next_field :: "bytes \<Rightarrow> nat \<Rightarrow> bytes \<times> nat" where
  "next_field data pos =
     (let pos = scan (\<lambda>b. b \<noteq> 0x22) data pos
      in if pos \<ge> length data then ([], pos)
         else case parse_string_bytes data pos of (key, pos) \<Rightarrow>
           let pos = skip_ws data pos;
               pos = (if pos < length data \<and> data ! pos = 0x3A then pos + 1 else pos)
           in (key, skip_ws data pos))"

text \<open>\<open>out.saturating_mul(10).saturating_add(digit)\<close> over digits.\<close>

definition saturating_digits :: "bytes \<Rightarrow> u64" where
  "saturating_digits = foldl (\<lambda>out b. saturating_add (saturating_mul out 10) (ucast (b - 0x30))) 0"

definition parse_u64 :: "bytes \<Rightarrow> nat \<Rightarrow> u64 \<times> nat" where
  "parse_u64 data pos =
     (let from = scan (\<lambda>b. \<not> is_digit b) data pos; to = scan is_digit data from
      in (saturating_digits (span data from to), to))"

definition parse_bool :: "bytes \<Rightarrow> nat \<Rightarrow> bool \<times> nat" where
  "parse_bool data pos =
     (let pos = skip_ws data pos
      in if pos < length data \<and> data ! pos = 0x74 then (True, min (pos + 4) (length data))
         else (False, min (pos + 5) (length data)))"

lemma scan_drop: "scan p data pos = pos + length (takeWhile p (drop pos data))"
proof (induction p data pos rule: scan.induct)
  case (1 p data pos)
  show ?case
  proof (cases "pos < length data")
    case True
    then have "drop pos data = data ! pos # drop (Suc pos) data"
      by (simp add: Cons_nth_drop_Suc)
    then show ?thesis
      using 1 True by (subst scan.simps) simp
  qed (subst scan.simps, simp)
qed

lemma scan_ge: "pos \<le> scan p data pos"
  by (simp add: scan_drop)

lemma scan_le: "pos \<le> length data \<Longrightarrow> scan p data pos \<le> length data"
  using length_takeWhile_le [of p "drop pos data"] by (simp add: scan_drop)

lemma scan_string_ge: "pos \<le> scan_string data pos"
proof (induction data pos rule: scan_string.induct)
  case (1 data pos)
  then show ?case
    by (subst scan_string.simps) (auto intro: Suc_leD)
qed

lemma scan_string_le: "pos \<le> length data \<Longrightarrow> scan_string data pos \<le> length data"
proof (induction data pos rule: scan_string.induct)
  case (1 data pos)
  then show ?case
    by (subst scan_string.simps) auto
qed

lemmas skip_defs = skip_ws_def skip_literal_def skip_number_def

lemma parse_string_bounds:
  "pos \<le> snd (parse_string_bytes data pos)"
  "pos \<le> length data \<Longrightarrow> snd (parse_string_bytes data pos) \<le> length data"
  "pos < length data \<Longrightarrow> pos < snd (parse_string_bytes data pos)"
proof -
  let ?q = "scan (\<lambda>b. b \<noteq> 0x22) data pos"
  have q: "pos \<le> ?q" "?q < scan_string data (?q + 1)"
    using scan_ge scan_string_ge [of "?q + 1" data] by simp_all
  show "pos \<le> snd (parse_string_bytes data pos)" "pos < length data \<Longrightarrow> pos < snd (parse_string_bytes data pos)"
    using q by (auto simp: parse_string_bytes_def Let_def)
  show "pos \<le> length data \<Longrightarrow> snd (parse_string_bytes data pos) \<le> length data"
    using q scan_string_le [of "?q + 1" data] scan_le [of pos data "\<lambda>b. b \<noteq> 0x22"]
    by (auto simp: parse_string_bytes_def Let_def)
qed

lemma next_key_bounds:
  "pos \<le> length data \<Longrightarrow> snd (next_key data pos) \<le> length data \<and>
     (if fst (next_key data pos) = 0 then pos \<le> snd (next_key data pos) else pos < snd (next_key data pos))"
proof (induction data pos rule: next_key.induct)
  case (1 data pos)
  let ?p = "scan (\<lambda>b. b \<noteq> 0x3A) data (pos + 2)"
  let ?q = "if ?p < length data then ?p + 1 else ?p"
  show ?case
  proof (cases "pos + 1 < length data \<and> data ! pos = 0x22")
    case True
    then have "pos + 2 \<le> ?p" "?p \<le> length data"
      using scan_ge scan_le [of "pos + 2" data] by auto
    then have "?q \<le> length data" "pos < ?q"
      by auto
    then have "pos < skip_ws data ?q" "skip_ws data ?q \<le> length data"
      using scan_ge [of ?q is_space data] scan_le [of ?q data is_space] by (auto simp only: skip_ws_def)
    moreover have "next_key data pos = (data ! (pos + 1), skip_ws data ?q)"
      using True by (subst next_key.simps) (simp add: Let_def)
    ultimately show ?thesis
      by simp
  next
    case False
    show ?thesis
    proof (cases "pos < length data")
      case True
      then have "next_key data pos = next_key data (pos + 1)"
        using False by (subst next_key.simps) auto
      then show ?thesis
        using "1.IH"(1,2) True False "1.prems" by (cases "data ! pos = 0x22") (auto split: if_splits)
    next
      case False
      then show ?thesis
        using "1.prems" by (subst (1 2 3 4) next_key.simps) simp
    qed
  qed
qed

subsection \<open>Brackets and scalars\<close>

text \<open>To just past the \<open>close\<close> that balances \<open>depth\<close> open brackets; the depth is an \<open>i32\<close>.\<close>

function skip_to_close :: "bytes \<Rightarrow> nat \<Rightarrow> i32 \<Rightarrow> u8 \<Rightarrow> u8 \<Rightarrow> nat" where
  "skip_to_close data pos depth open close =
     (if pos < length data \<and> 0 < sint depth then
        let b = data ! pos
        in if b = open then skip_to_close data (pos + 1) (depth + 1) open close
           else if b = close then
             (let depth = depth - 1 in if depth = 0 then pos + 1 else skip_to_close data (pos + 1) depth open close)
           else if b = 0x22 then skip_to_close data (snd (parse_string_bytes data pos)) depth open close
           else skip_to_close data (pos + 1) depth open close
      else pos)"
  by pat_completeness auto
termination
proof (relation "measure (\<lambda>(data, pos, _). length data - pos)")
  fix data :: bytes and pos :: nat and depth :: i32 and op cl b
  assume "pos < length data \<and> 0 < sint depth"
  then show "((data, snd (parse_string_bytes data pos), depth, op, cl), data, pos, depth, op, cl)
      \<in> measure (\<lambda>(data, pos, _). length data - pos)"
    using parse_string_bounds [of pos data] by simp
qed auto

declare skip_to_close.simps [simp del]

definition skip_bracketed :: "bytes \<Rightarrow> nat \<Rightarrow> u8 \<Rightarrow> u8 \<Rightarrow> nat" where
  "skip_bracketed data pos = skip_to_close data (pos + 1) 1"

definition skip_rest_of_array :: "bytes \<Rightarrow> nat \<Rightarrow> nat" where
  "skip_rest_of_array data pos = skip_to_close data pos 1 0x5B 0x5D"

definition skip_value :: "bytes \<Rightarrow> nat \<Rightarrow> nat" where
  "skip_value data pos =
     (let pos = skip_ws data pos
      in if pos \<ge> length data then pos
         else if data ! pos = 0x7B then skip_bracketed data pos 0x7B 0x7D
         else if data ! pos = 0x5B then skip_bracketed data pos 0x5B 0x5D
         else if data ! pos = 0x22 then snd (parse_string_bytes data pos)
         else if data ! pos \<in> {0x74, 0x66, 0x6E} then skip_literal data pos
         else skip_number data pos)"

definition parse_scalar_bytes :: "bytes \<Rightarrow> nat \<Rightarrow> bytes \<times> nat" where
  "parse_scalar_bytes data pos =
     (let pos = skip_ws data pos
      in if pos \<ge> length data then ([], pos)
         else if data ! pos = 0x22 then parse_string_bytes data pos
         else if data ! pos = 0x6E then ([], skip_literal data pos)
         else let end_pos = skip_number data pos in (span data pos end_pos, end_pos))"

definition parse_scalar_u64 :: "bytes \<Rightarrow> nat \<Rightarrow> u64 \<times> nat" where
  "parse_scalar_u64 data pos =
     (case parse_scalar_bytes data pos of (bs, next_pos) \<Rightarrow> (saturating_digits (takeWhile is_digit bs), next_pos))"

subsection \<open>Envelopes\<close>

text \<open>The bytes between the braces of the object at \<open>pos\<close>, and the position past it.\<close>

definition object_at :: "bytes \<Rightarrow> nat \<Rightarrow> (bytes \<times> nat) option" where
  "object_at data pos =
     (let open = skip_ws data pos
      in if open \<ge> length data \<or> data ! open \<noteq> 0x7B then None
         else let past = skip_bracketed data open 0x7B 0x7D
              in if past \<le> open + 1 \<or> data ! (past - 1) \<noteq> 0x7D then None
                 else Some (span data (open + 1) (past - 1), past))"

text \<open>An \<open>Objects\<close> is the payload and a position in it.\<close>

definition objects_at :: "bytes \<Rightarrow> nat \<Rightarrow> (bytes \<times> nat) option" where
  "objects_at data pos =
     (let open = skip_ws data pos
      in if open \<ge> length data \<or> data ! open \<noteq> 0x5B then None else Some (data, open + 1))"

function objects_next :: "bytes \<times> nat \<Rightarrow> bytes option \<times> (bytes \<times> nat)" where
  "objects_next (data, pos) =
     (let pos = skip_ws data pos
      in if pos \<ge> length data \<or> data ! pos = 0x5D then (None, (data, pos))
         else if data ! pos = 0x2C then objects_next (data, pos + 1)
         else case object_at data pos of
                None \<Rightarrow> (None, (data, pos))
              | Some (inner, past) \<Rightarrow> (Some inner, (data, past)))"
  by pat_completeness auto
termination
proof (relation "measure (\<lambda>(data, pos). length data - pos)")
  fix data :: bytes and pos p
  assume "p = skip_ws data pos" "\<not> (length data \<le> p \<or> data ! p = 0x5D)"
  then show "((data, p + 1), data, pos) \<in> measure (\<lambda>(data, pos). length data - pos)"
    using scan_ge [of pos is_space data] by (auto simp: skip_ws_def)
qed auto

declare objects_next.simps [simp del]

text \<open>Level arrays begin here; what reads them needs the instrument.\<close>

definition enter_array :: "bytes \<Rightarrow> nat \<Rightarrow> nat option" where
  "enter_array data pos =
     (let pos = skip_ws data pos in if pos < length data \<and> data ! pos = 0x5B then Some (pos + 1) else None)"

definition skip_comma :: "bytes \<Rightarrow> nat \<Rightarrow> nat" where
  "skip_comma data pos =
     (let pos = skip_ws data pos in if pos < length data \<and> data ! pos = 0x2C then pos + 1 else pos)"

subsection \<open>Positions stay in the message and move on\<close>

lemma skip_to_close_bounds:
  "pos \<le> length data \<Longrightarrow> pos \<le> skip_to_close data pos depth op cl \<and> skip_to_close data pos depth op cl \<le> length data"
proof (induction data pos depth op cl rule: skip_to_close.induct)
  case (1 data pos depth op cl)
  show ?case
  proof (cases "pos < length data \<and> 0 < sint depth")
    case True
    note eq = skip_to_close.simps [of data pos depth op cl] and IH = "1.IH" [OF True refl]
    consider "data ! pos = op" | "data ! pos \<noteq> op" "data ! pos = cl"
      | "data ! pos \<noteq> op" "data ! pos \<noteq> cl" "data ! pos = 0x22" | "data ! pos \<noteq> op" "data ! pos \<noteq> cl" "data ! pos \<noteq> 0x22"
      by blast
    then show ?thesis
    proof cases
      case 1 with IH(1) True eq show ?thesis by simp
    next
      case 2 with IH(2) True eq show ?thesis by (auto simp: Let_def)
    next
      case 3 with IH(3) True eq parse_string_bounds(2,3) [of pos data] show ?thesis by simp
    next
      case 4 with IH(4) True eq show ?thesis by simp
    qed
  qed (use "1.prems" in \<open>auto simp: skip_to_close.simps [of data pos depth op cl]\<close>)
qed

lemma skip_ws_bounds:
  "pos \<le> skip_ws data pos" "pos \<le> length data \<Longrightarrow> skip_ws data pos \<le> length data"
  by (simp_all add: skip_ws_def scan_ge scan_le)

lemma skip_bracketed_bounds:
  "pos < length data \<Longrightarrow> pos < skip_bracketed data pos op cl"
  "pos < length data \<Longrightarrow> skip_bracketed data pos op cl \<le> length data"
  using skip_to_close_bounds [of "pos + 1" data 1 op cl] by (simp_all add: skip_bracketed_def)

lemma skip_rest_bounds:
  "pos \<le> length data \<Longrightarrow> pos \<le> skip_rest_of_array data pos \<and> skip_rest_of_array data pos \<le> length data"
  by (simp add: skip_rest_of_array_def skip_to_close_bounds)

lemma skip_value_bounds:
  "pos \<le> length data \<Longrightarrow> pos \<le> skip_value data pos \<and> skip_value data pos \<le> length data"
proof -
  assume "pos \<le> length data"
  moreover define p where "p = skip_ws data pos"
  ultimately have p: "pos \<le> p" "p \<le> length data"
    using skip_ws_bounds by auto
  then have "pos \<le> skip_bracketed data p op cl" if "p < length data" for op cl
    using skip_bracketed_bounds(1) [OF that, of op cl] by simp
  then show ?thesis
    unfolding skip_value_def Let_def p_def [symmetric]
    using parse_string_bounds(1,2) [of p data] p
    by (auto simp: skip_literal_def skip_number_def skip_bracketed_bounds(2) scan_le intro: le_trans [OF p(1)] scan_ge)
qed

lemma parse_scalar_bounds:
  "pos \<le> length data \<Longrightarrow> pos \<le> snd (parse_scalar_bytes data pos) \<and> snd (parse_scalar_bytes data pos) \<le> length data"
proof -
  assume "pos \<le> length data"
  moreover define p where "p = skip_ws data pos"
  ultimately have "pos \<le> p" "p \<le> length data"
    using skip_ws_bounds by auto
  then show ?thesis
    unfolding parse_scalar_bytes_def Let_def p_def [symmetric]
    using parse_string_bounds(1,2) [of p data] scan_ge [of p _ data] scan_le [of p data]
    by (auto simp: skip_literal_def skip_number_def intro: le_trans)
qed

lemma parse_u64_bounds:
  "pos \<le> length data \<Longrightarrow> pos \<le> snd (parse_u64 data pos) \<and> snd (parse_u64 data pos) \<le> length data"
  by (auto simp: parse_u64_def Let_def intro: scan_le order_trans [OF scan_ge scan_ge])

lemma parse_bool_bounds:
  "pos \<le> length data \<Longrightarrow> pos \<le> snd (parse_bool data pos) \<and> snd (parse_bool data pos) \<le> length data"
  using skip_ws_bounds [of pos data] by (auto simp: parse_bool_def Let_def)

lemma object_at_bounds:
  assumes "object_at data pos = Some (inner, past)"
  shows "pos < past" "past \<le> length data"
proof -
  have "skip_ws data pos < length data" "past = skip_bracketed data (skip_ws data pos) 0x7B 0x7D"
    using assms by (auto simp: object_at_def Let_def split: if_splits)
  then show "pos < past" "past \<le> length data"
    using skip_bracketed_bounds [of "skip_ws data pos" data] skip_ws_bounds(1) [of pos data] by (auto intro: le_less_trans)
qed

lemma enter_array_bounds: "enter_array data pos = Some p \<Longrightarrow> pos < p \<and> p \<le> length data"
  using skip_ws_bounds(1) [of pos data] by (auto simp: enter_array_def Let_def split: if_splits)

lemma skip_comma_bounds: "pos \<le> length data \<Longrightarrow> pos \<le> skip_comma data pos \<and> skip_comma data pos \<le> length data"
  using skip_ws_bounds [of pos data] by (auto simp: skip_comma_def Let_def)

subsection \<open>Exponent notation\<close>

definition PLAIN_DECIMAL_LEN :: nat where "PLAIN_DECIMAL_LEN = 64"

text \<open>
  \<open>push\<close> refuses when the buffer is full; the buffer is what has been written of it, \<open>out[..len]\<close>. A loop of
  pushes is \<open>push_all\<close>.
\<close>

fun push_all :: "bytes \<Rightarrow> bytes \<Rightarrow> bytes option" where
  "push_all [] out = Some out"
| "push_all (b # bs) out = (if length out = PLAIN_DECIMAL_LEN then None else push_all bs (out @ [b]))"

fun mantissa_digits :: "bytes \<Rightarrow> bytes \<Rightarrow> nat option \<Rightarrow> (bytes \<times> nat option) option" where
  "mantissa_digits [] ds point = Some (ds, point)"
| "mantissa_digits (b # bs) ds point =
     (if is_digit b then
        (if length ds = PLAIN_DECIMAL_LEN then None else mantissa_digits bs (ds @ [b]) point)
      else if b = 0x2E \<and> point = None then mantissa_digits bs ds (Some (length ds))
      else None)"

fun leading_sign :: "bytes \<Rightarrow> bool \<times> bytes" where
  "leading_sign [] = (False, [])"
| "leading_sign (b # bs) = (if b = 0x2D then (True, bs) else if b = 0x2B then (False, bs) else (False, b # bs))"

definition exponent_value :: "bytes \<Rightarrow> int" where
  "exponent_value = foldl (\<lambda>e b. e * 10 + int (unat (b - 0x30))) 0"

text \<open>The digits with the point at \<open>shifted\<close>.\<close>

definition push_shifted :: "bytes \<Rightarrow> int \<Rightarrow> bytes \<Rightarrow> bytes option" where
  "push_shifted ds shifted out =
     (if shifted \<le> 0 then
        Option.bind (push_all [0x30, 0x2E] out) (\<lambda>out.
        Option.bind (push_all (replicate (nat (- shifted)) 0x30) out) (push_all ds))
      else if shifted \<ge> int (length ds) then
        Option.bind (push_all ds out) (push_all (replicate (nat (shifted - int (length ds))) 0x30))
      else
        Option.bind (push_all (take (nat shifted) ds) out) (\<lambda>out.
        Option.bind (push_all [0x2E] out) (push_all (drop (nat shifted) ds))))"

definition plain_decimal :: "bytes \<Rightarrow> bytes option" where
  "plain_decimal bs =
     (let e = length (takeWhile (\<lambda>b. b \<noteq> 0x45 \<and> b \<noteq> 0x65) bs)
      in if e = length bs then None
         else case leading_sign (take e bs) of (negative, mantissa) \<Rightarrow>
           Option.bind (mantissa_digits mantissa [] None) (\<lambda>(ds, point).
           if ds = [] then None
           else case leading_sign (drop (e + 1) bs) of (exp_negative, exp_digits) \<Rightarrow>
             if exp_digits = [] \<or> length exp_digits > 3 \<or> \<not> list_all is_digit exp_digits then None
             else let point = (case point of Some p \<Rightarrow> p | None \<Rightarrow> length ds);
                      exp = (if exp_negative then - exponent_value exp_digits else exponent_value exp_digits)
                  in Option.bind (if negative then push_all [0x2D] [] else Some [])
                       (push_shifted ds (int point + exp))))"

lemma push_all_eq:
  "length out \<le> PLAIN_DECIMAL_LEN \<Longrightarrow>
   push_all bs out = (if length out + length bs \<le> PLAIN_DECIMAL_LEN then Some (out @ bs) else None)"
  by (induction bs arbitrary: out) auto

text \<open>What is written, without the buffer.\<close>

definition shift_point :: "bytes \<Rightarrow> int \<Rightarrow> bytes" where
  "shift_point ds shifted =
     (if shifted \<le> 0 then [0x30, 0x2E] @ replicate (nat (- shifted)) 0x30 @ ds
      else if shifted \<ge> int (length ds) then ds @ replicate (nat (shifted - int (length ds))) 0x30
      else take (nat shifted) ds @ [0x2E] @ drop (nat shifted) ds)"

lemma push_shifted_eq:
  "length out \<le> PLAIN_DECIMAL_LEN \<Longrightarrow>
   push_shifted ds shifted out =
     (if length out + length (shift_point ds shifted) \<le> PLAIN_DECIMAL_LEN then Some (out @ shift_point ds shifted) else None)"
  by (auto simp: push_shifted_def shift_point_def push_all_eq)

lemma exponent_digits: "digits bs \<Longrightarrow> exponent_value bs = int (dec_value bs)"
proof -
  have "foldl (\<lambda>e b. e * 10 + int (unat (b - 0x30))) (int v) bs = int (foldl (\<lambda>v b. 10 * v + unat b mod 16) v bs)"
    if "digits bs" for v
    using that
  proof (induction bs arbitrary: v)
    case (Cons b bs)
    then have "unat (b - 0x30) = unat b mod 16"
      by (simp add: digit_nibble unat_sub is_digit_def)
    then have "int v * 10 + int (unat (b - 0x30)) = int (10 * v + unat b mod 16)"
      by simp
    then show ?case
      using Cons by (simp del: of_nat_add of_nat_mult of_nat_mod)
  qed simp
  from this [of 0] show "digits bs \<Longrightarrow> exponent_value bs = int (dec_value bs)"
    by (simp add: exponent_value_def dec_value_def)
qed

lemma mantissa_run:
  "digits i \<Longrightarrow> length ds \<le> PLAIN_DECIMAL_LEN \<Longrightarrow>
   mantissa_digits (i @ bs) ds point =
     (if length ds + length i \<le> PLAIN_DECIMAL_LEN then mantissa_digits bs (ds @ i) point else None)"
  by (induction i arbitrary: ds) auto

lemma mantissa_text:
  assumes "well_formed s i fo"
  shows "mantissa_digits (i @ fraction fo) [] None =
    (if length (i @ frac_digits fo) \<le> PLAIN_DECIMAL_LEN
     then Some (i @ frac_digits fo, map_option (\<lambda>_. length i) fo) else None)"
  using assms mantissa_run [of "frac_digits fo" i "[]"] mantissa_run [of i "[]"]
  by (auto simp: well_formed_def fraction_def frac_digits_def split: option.splits)

lemma leading_sign_text:
  assumes "digits bs" "s \<in> {[], [0x2D], [0x2B]}"
  shows "leading_sign (s @ bs) = (s = [0x2D], bs)"
  using assms by (cases bs) (auto simp: is_digit_def word_le_nat_alt)

lemma leading_sign_number:
  assumes "well_formed s i fo"
  shows "leading_sign (decimal_text s i fo) = (s = [0x2D], i @ fraction fo)"
proof -
  obtain b bs where "i @ fraction fo = b # bs" "b \<noteq> 0x2D" "b \<noteq> 0x2B"
    using body_cases [OF assms] by (cases "i @ fraction fo") auto
  then show ?thesis
    using assms by (auto simp: decimal_text_def well_formed_def)
qed

lemma digit_not_exponent: "is_digit b \<Longrightarrow> b \<noteq> 0x45 \<and> b \<noteq> 0x65"
  by (auto simp: is_digit_def word_le_nat_alt)

lemma number_has_no_exponent:
  assumes "well_formed s i fo" and "b \<in> set (decimal_text s i fo)"
  shows "b \<noteq> 0x45 \<and> b \<noteq> 0x65"
  using assms digit_not_exponent
  by (auto simp: decimal_text_def well_formed_def fraction_def frac_digits_def digits_def list_all_iff split: option.splits)

lemma takeWhile_number:
  "well_formed s i fo \<Longrightarrow> takeWhile (\<lambda>b. b \<noteq> 0x45 \<and> b \<noteq> 0x65) (decimal_text s i fo) = decimal_text s i fo"
  using number_has_no_exponent [of s i fo] by (subst takeWhile_eq_all_conv) blast

lemma plain_decimal_none: "well_formed s i fo \<Longrightarrow> plain_decimal (decimal_text s i fo) = None"
  by (simp add: plain_decimal_def takeWhile_number Let_def)

lemma plain_decimal_text:
  assumes "well_formed s i fo" "e \<in> {0x45, 0x65}" "es \<in> {[], [0x2D], [0x2B]}" "digits ed" "ed \<noteq> []" "length ed \<le> 3"
  defines "sign \<equiv> if s = [0x2D] then s else []"
    and "shifted \<equiv> int (length i) + (if es = [0x2D] then - int (dec_value ed) else int (dec_value ed))"
  shows "plain_decimal (decimal_text s i fo @ [e] @ es @ ed) =
    (let out = sign @ shift_point (i @ frac_digits fo) shifted
     in if length out \<le> PLAIN_DECIMAL_LEN then Some out else None)"
proof -
  let ?n = "decimal_text s i fo" and ?ds = "i @ frac_digits fo"
  have head: "takeWhile (\<lambda>b. b \<noteq> 0x45 \<and> b \<noteq> 0x65) (?n @ [e] @ es @ ed) = ?n"
    using number_has_no_exponent [OF assms(1)] assms(2) by (subst takeWhile_append2) auto
  have point: "(case map_option (\<lambda>_. length i) fo of Some p \<Rightarrow> p | None \<Rightarrow> length ?ds) = length i"
    by (cases fo) (simp_all add: frac_digits_def)
  have ds: "?ds \<noteq> []" "length ?ds \<le> length (shift_point ?ds shifted)"
    using assms(1) by (auto simp: well_formed_def shift_point_def)
  have exponent: "list_all is_digit ed" "exponent_value ed = int (dec_value ed)"
    using assms(4) exponent_digits by (simp_all add: digits_def)
  have push: "push_shifted ?ds (int (length i) + (if es = [0x2D] then - int (dec_value ed) else int (dec_value ed))) sign =
      (let out = sign @ shift_point ?ds shifted in if length out \<le> PLAIN_DECIMAL_LEN then Some out else None)"
    using push_shifted_eq [of sign ?ds shifted] by (simp add: sign_def PLAIN_DECIMAL_LEN_def shifted_def)
  have sign: "(if s = [0x2D] then push_all [0x2D] [] else Some []) = Some sign"
    by (simp add: sign_def PLAIN_DECIMAL_LEN_def)
  have parts: "take (length ?n) (?n @ [e] @ es @ ed) = ?n" "drop (length ?n + 1) (?n @ [e] @ es @ ed) = es @ ed"
    "length ?n \<noteq> length (?n @ [e] @ es @ ed)"
    by simp_all
  show ?thesis
  proof (cases "length ?ds \<le> PLAIN_DECIMAL_LEN")
    case True
    have "plain_decimal (?n @ [e] @ es @ ed) = Option.bind (Some sign)
        (push_shifted ?ds (int (length i) + (if es = [0x2D] then - int (dec_value ed) else int (dec_value ed))))"
      unfolding plain_decimal_def head Let_def parts(1,2) leading_sign_number [OF assms(1)] prod.case
        leading_sign_text [OF assms(4,3)] mantissa_text [OF assms(1)] exponent(2) if_P [OF True] Option.bind.simps point
        if_not_P [OF ds(1)] if_not_P [OF parts(3)] sign
      using assms(5,6) exponent(1) by (simp split: if_splits)
    with push show ?thesis
      by (simp del: length_append)
  next
    case False
    then have "plain_decimal (?n @ [e] @ es @ ed) = None"
      unfolding plain_decimal_def head Let_def parts(1,2) leading_sign_number [OF assms(1)] prod.case
        mantissa_text [OF assms(1)] if_not_P [OF False] Option.bind.simps if_not_P [OF parts(3)] by simp
    with False ds(2) show ?thesis
      by (simp add: Let_def)
  qed
qed

text \<open>Moving the point changes the value by a power of ten and nothing else.\<close>

lemma shift_point_value:
  assumes "digits (i @ f)" "i @ f \<noteq> []" and "shifted = int (length i) + (if negative then - int x else int x)"
  obtains j g where "shift_point (i @ f) shifted = j @ fraction g" "digits j" "digits (frac_digits g)" "j @ frac_digits g \<noteq> []"
    "dec_value (j @ frac_digits g) * 10 ^ length f * (if negative then 10 ^ x else 1)
       = dec_value (i @ f) * 10 ^ length (frac_digits g) * (if negative then 1 else 10 ^ x)"
proof -
  let ?ds = "i @ f"
  have zero: "is_digit 0x30" "dec_value (0x30 # bs) = dec_value bs" for bs
    by (simp add: is_digit_def, simp add: dec_value_Cons)
  consider "shifted \<le> 0" | "0 < shifted" "int (length ?ds) \<le> shifted" | "0 < shifted" "shifted < int (length ?ds)"
    by linarith
  then show thesis
  proof cases
    case 1
    have "length i = 0" if "\<not> negative"
      using that assms(3) 1 by (simp del: length_0_conv)
    then have "length f + (if negative then x else 0) = (nat (- shifted) + length ?ds) + (if negative then 0 else x)"
      using assms(3) 1 by (auto split: if_splits)
    then have "(10 :: nat) ^ length f * (if negative then 10 ^ x else 1) = 10 ^ (nat (- shifted) + length ?ds) * (if negative then 1 else 10 ^ x)"
      by (auto simp flip: power_add split: if_splits)
    then show thesis
      using 1 assms(1) that [of "[0x30]" "Some (replicate (nat (- shifted)) 0x30 @ ?ds)"]
      by (simp add: shift_point_def fraction_def frac_digits_def zero dec_value_append [of "replicate _ _"] algebra_simps)
  next
    case 2
    have "length f = 0" if "negative"
      using that assms(3) 2 by (simp del: length_0_conv)
    then have "nat (shifted - int (length ?ds)) + length f + (if negative then x else 0) = (if negative then 0 else x)"
      using assms(3) 2 by (auto split: if_splits)
    then have "(10 :: nat) ^ nat (shifted - int (length ?ds)) * 10 ^ length f * (if negative then 10 ^ x else 1) = (if negative then 1 else 10 ^ x)"
      by (auto simp flip: power_add split: if_splits)
    then show thesis
      using 2 assms(1,2) dec_value_append [of ?ds "replicate (nat (shifted - int (length ?ds))) 0x30"] that [of "?ds @ replicate (nat (shifted - int (length ?ds))) 0x30" None]
      by (simp add: shift_point_def fraction_def frac_digits_def algebra_simps)
  next
    case 3
    define k where "k = nat shifted"
    have k: "k < length ?ds" "0 < k"
      using 3 by (simp_all add: k_def nat_less_iff)
    have "length f + (if negative then x else 0) = (length ?ds - k) + (if negative then 0 else x)"
      using assms(3) 3 by (auto simp: k_def split: if_splits)
    then have "(10 :: nat) ^ length f * (if negative then 10 ^ x else 1) = 10 ^ (length ?ds - k) * (if negative then 1 else 10 ^ x)"
      by (auto simp flip: power_add split: if_splits)
    then show thesis
      using 3 k assms(1,2) that [of "take k ?ds" "Some (drop k ?ds)"]
      by (simp add: shift_point_def fraction_def frac_digits_def k_def [symmetric] algebra_simps del: take_append drop_append)
  qed
qed

text \<open>A text that is rewritten is a number in exponent notation.\<close>

lemma leading_sign_split:
  assumes "leading_sign bs = (negative, body)"
  obtains s where "s \<in> {[], [0x2D], [0x2B]}" "bs = s @ body" "negative \<longleftrightarrow> s = [0x2D]"
  using assms by (cases bs) (auto split: if_splits)

lemma mantissa_after_point: "mantissa_digits bs ds (Some p) = Some r \<Longrightarrow> digits bs"
  by (induction bs arbitrary: ds) (auto split: if_splits)

lemma mantissa_number:
  "mantissa_digits bs ds None = Some r \<Longrightarrow> \<exists>i fo. bs = i @ fraction fo \<and> digits i \<and> digits (frac_digits fo)"
proof (induction bs arbitrary: ds)
  case Nil
  show ?case
    by (rule exI [of _ "[]"], rule exI [of _ None]) (simp add: fraction_def frac_digits_def)
next
  case (Cons b bs)
  show ?case
  proof (cases "is_digit b")
    case True
    then obtain i fo where "bs = i @ fraction fo" "digits i" "digits (frac_digits fo)"
      using Cons.IH [of "ds @ [b]"] Cons.prems by (auto split: if_splits)
    then show ?thesis
      using True by (intro exI [of _ "b # i"] exI [of _ fo]) simp
  next
    case False
    then have "b = 0x2E" "digits bs"
      using Cons.prems mantissa_after_point by (auto split: if_splits)
    then show ?thesis
      by (intro exI [of _ "[]"] exI [of _ "Some bs"]) (simp add: fraction_def frac_digits_def)
  qed
qed

text \<open>
  The numbers that are rewritten: a decimal, \<open>E\<close> or \<open>e\<close>, and an exponent of one to three digits with an
  optional sign. What is written is their digits with the point moved by the exponent.
\<close>

definition exponent_number :: "bytes \<Rightarrow> bytes \<Rightarrow> bytes option \<Rightarrow> bytes \<Rightarrow> bytes \<Rightarrow> bytes \<Rightarrow> bool" where
  "exponent_number s i fo e es ed \<longleftrightarrow>
     well_formed s i fo \<and> e \<in> {[0x45], [0x65]} \<and> es \<in> {[], [0x2D], [0x2B]} \<and> digits ed \<and> ed \<noteq> [] \<and> length ed \<le> 3"

definition point_moved :: "bytes \<Rightarrow> bytes \<Rightarrow> bytes option \<Rightarrow> bytes \<Rightarrow> bytes \<Rightarrow> bytes" where
  "point_moved s i fo es ed =
     (if s = [0x2D] then s else []) @
     shift_point (i @ frac_digits fo) (int (length i) + (if es = [0x2D] then - int (dec_value ed) else int (dec_value ed)))"

lemma plain_decimal_number:
  assumes "plain_decimal bs = Some out"
  obtains s i fo e es ed where "exponent_number s i fo e es ed" "bs = decimal_text s i fo @ e @ es @ ed"
proof -
  define k where "k = length (takeWhile (\<lambda>b. b \<noteq> 0x45 \<and> b \<noteq> 0x65) bs)"
  obtain negative mantissa where m: "leading_sign (take k bs) = (negative, mantissa)"
    by fastforce
  obtain exp_negative ed where x: "leading_sign (drop (k + 1) bs) = (exp_negative, ed)"
    by fastforce
  have e: "k \<noteq> length bs" and body: "Option.bind (mantissa_digits mantissa [] None) (\<lambda>(ds, point).
      if ds = [] then None
      else if ed = [] \<or> length ed > 3 \<or> \<not> list_all is_digit ed then None
      else Option.bind (if negative then push_all [0x2D] [] else Some [])
             (push_shifted ds (int (case point of Some p \<Rightarrow> p | None \<Rightarrow> length ds) +
                (if exp_negative then - exponent_value ed else exponent_value ed)))) = Some out"
    using assms unfolding plain_decimal_def Let_def k_def [symmetric] m x prod.case by (auto split: if_splits)
  obtain ds point where md: "mantissa_digits mantissa [] None = Some (ds, point)"
    using body by (cases "mantissa_digits mantissa [] None") auto
  have "ds \<noteq> []" and ed: "ed \<noteq> []" "length ed \<le> 3" "list_all is_digit ed"
    using body unfolding md Option.bind.simps prod.case by (auto split: if_splits)
  note md = md this(1)
  obtain s where s: "s \<in> {[], [0x2D], [0x2B]}" "take k bs = s @ mantissa"
    using leading_sign_split [OF m] by metis
  obtain es where es: "es \<in> {[], [0x2D], [0x2B]}" "drop (k + 1) bs = es @ ed"
    using leading_sign_split [OF x] by metis
  obtain i fo where i: "mantissa = i @ fraction fo" "digits i" "digits (frac_digits fo)"
    using mantissa_number [OF md(1)] by blast
  have "i @ frac_digits fo \<noteq> []"
  proof
    assume "i @ frac_digits fo = []"
    then have "mantissa = [] \<or> mantissa = [0x2E]"
      using i(1) by (cases fo) (auto simp: fraction_def frac_digits_def)
    then show False
      using md by (auto simp: is_digit_def)
  qed
  then have wf: "well_formed s i fo"
    using s(1) i by (simp add: well_formed_def)
  have less: "k < length bs"
    using e length_takeWhile_le [of "\<lambda>b. b \<noteq> 0x45 \<and> b \<noteq> 0x65" bs] unfolding k_def by linarith
  have "bs ! k = 0x45 \<or> bs ! k = 0x65"
    using nth_length_takeWhile [OF less [unfolded k_def]] unfolding k_def by blast
  moreover have "bs = take k bs @ [bs ! k] @ drop (k + 1) bs"
    using id_take_nth_drop [OF less] by simp
  ultimately show thesis
    using that [of s i fo "[bs ! k]" es ed] wf es ed s(2) i(1)
    by (simp add: exponent_number_def decimal_text_def digits_def)
qed

text \<open>
  C38. A number in exponent notation is rewritten as the same number. \<open>plain\_decimal\<close> writes something exactly
  when the text is a decimal with an exponent of at most three digits and the rewritten number fits in 64 bytes,
  and writes then the digits of the mantissa with the point moved by the exponent - for anything else, a number
  without an exponent among it, it is \<open>None\<close>. What is written is a well-formed plain decimal with the sign of the
  mantissa, and the two are equal as decimals, the exponent a power of ten on one side. (The documentation gives
  no limit of three digits: \<open>1e-0001\<close> is not rewritten.)
\<close>

theorem plain_decimal_exact:
  "(plain_decimal bs = Some out \<longleftrightarrow>
      (\<exists>s i fo e es ed. exponent_number s i fo e es ed \<and> bs = decimal_text s i fo @ e @ es @ ed \<and>
         out = point_moved s i fo es ed \<and> length out \<le> 64)) \<and>
   (exponent_number s i fo e es ed \<longrightarrow>
      (\<exists>s' j g. point_moved s i fo es ed = decimal_text s' j g \<and> well_formed s' j g \<and> (s' = [0x2D] \<longleftrightarrow> s = [0x2D]) \<and>
         dec_value (j @ frac_digits g) * 10 ^ length (frac_digits fo) * (if es = [0x2D] then 10 ^ dec_value ed else 1)
           = dec_value (i @ frac_digits fo) * 10 ^ length (frac_digits g) * (if es = [0x2D] then 1 else 10 ^ dec_value ed)))"
proof (intro conjI impI)
  have written: "plain_decimal (decimal_text s i fo @ e @ es @ ed) =
      (if length (point_moved s i fo es ed) \<le> 64 then Some (point_moved s i fo es ed) else None)"
    if number: "exponent_number s i fo e es ed" for s i fo e es ed
  proof -
    obtain b where b: "e = [b]" "b \<in> {0x45, 0x65}"
      using number by (auto simp: exponent_number_def)
    show ?thesis
      unfolding b(1) using number b(2) plain_decimal_text [of s i fo b es ed]
      by (simp add: exponent_number_def point_moved_def PLAIN_DECIMAL_LEN_def Let_def del: append_Cons append.simps(1))
  qed
  show "plain_decimal bs = Some out \<longleftrightarrow>
      (\<exists>s i fo e es ed. exponent_number s i fo e es ed \<and> bs = decimal_text s i fo @ e @ es @ ed \<and>
         out = point_moved s i fo es ed \<and> length out \<le> 64)" (is "?l \<longleftrightarrow> ?r")
  proof
    assume plain: ?l
    then obtain s i fo e es ed where number: "exponent_number s i fo e es ed" "bs = decimal_text s i fo @ e @ es @ ed"
      by (rule plain_decimal_number)
    then have "out = point_moved s i fo es ed" "length out \<le> 64"
      using plain written [OF number(1)] by (auto split: if_splits)
    then show ?r
      using number by blast
  next
    assume ?r
    then show ?l
      using written by auto
  qed
  assume number: "exponent_number s i fo e es ed"
  let ?ds = "i @ frac_digits fo" and ?s = "if s = [0x2D] then s else []"
  let ?k = "int (length i) + (if es = [0x2D] then - int (dec_value ed) else int (dec_value ed))"
  have "digits ?ds" "?ds \<noteq> []"
    using number by (auto simp: exponent_number_def well_formed_def)
  then obtain j g where "shift_point ?ds ?k = j @ fraction g" "digits j" "digits (frac_digits g)" "j @ frac_digits g \<noteq> []"
    "dec_value (j @ frac_digits g) * 10 ^ length (frac_digits fo) * (if es = [0x2D] then 10 ^ dec_value ed else 1)
       = dec_value ?ds * 10 ^ length (frac_digits g) * (if es = [0x2D] then 1 else 10 ^ dec_value ed)"
    using shift_point_value [OF _ _ refl] by blast
  moreover have "well_formed ?s j g"
    using calculation by (auto simp: well_formed_def)
  ultimately show "\<exists>s' j g. point_moved s i fo es ed = decimal_text s' j g \<and> well_formed s' j g \<and> (s' = [0x2D] \<longleftrightarrow> s = [0x2D]) \<and>
      dec_value (j @ frac_digits g) * 10 ^ length (frac_digits fo) * (if es = [0x2D] then 10 ^ dec_value ed else 1)
        = dec_value ?ds * 10 ^ length (frac_digits g) * (if es = [0x2D] then 1 else 10 ^ dec_value ed)"
    by (intro exI [of _ ?s] exI [of _ j] exI [of _ g]) (simp add: point_moved_def decimal_text_def del: append_is_Nil_conv)
qed

text \<open>\<open>1.045E8\<close> is \<open>104500000\<close>.\<close>

theorem plain_decimal_exact_witness:
  "plain_decimal [0x31, 0x2E, 0x30, 0x34, 0x35, 0x45, 0x38] = Some [0x31, 0x30, 0x34, 0x35, 0x30, 0x30, 0x30, 0x30, 0x30] \<and>
   (\<exists>s' j g. [0x31, 0x30, 0x34, 0x35, 0x30, 0x30, 0x30, 0x30, 0x30] = decimal_text s' j g \<and>
      dec_value (j @ frac_digits g) * 10 ^ 3 = 1045 * 10 ^ length (frac_digits g) * 10 ^ 8)"
proof -
  let ?fo = "Some [0x30, 0x34, 0x35 :: u8]"
  have number: "exponent_number [] [0x31] ?fo [0x45] [] [0x38]"
    by (simp add: exponent_number_def well_formed_def frac_digits_def is_digit_def)
  have moved: "point_moved [] [0x31] ?fo [] [0x38] = [0x31, 0x30, 0x34, 0x35, 0x30, 0x30, 0x30, 0x30, 0x30]"
    by code_simp
  have same: "decimal_text [] [0x31] ?fo @ [0x45] @ [] @ [0x38] = [0x31, 0x2E, 0x30, 0x34, 0x35, 0x45, 0x38]"
    by (simp add: decimal_text_def fraction_def)
  have vals: "dec_value [0x38] = 8" "dec_value ([0x31] @ frac_digits ?fo) = 1045" "length (frac_digits ?fo) = 3"
    by (simp_all add: frac_digits_def dec_value_Cons)
  have plain: "plain_decimal [0x31, 0x2E, 0x30, 0x34, 0x35, 0x45, 0x38] = Some [0x31, 0x30, 0x34, 0x35, 0x30, 0x30, 0x30, 0x30, 0x30]"
    unfolding plain_decimal_exact [THEN conjunct1]
    by (rule exI [of _ "[]"], rule exI [of _ "[0x31]"], rule exI [of _ ?fo], rule exI [of _ "[0x45]"], rule exI [of _ "[]"],
        rule exI [of _ "[0x38]"], use number moved same in simp)
  moreover have "\<exists>s' j g. [0x31, 0x30, 0x34, 0x35, 0x30, 0x30, 0x30, 0x30, 0x30] = decimal_text s' j g \<and>
      dec_value (j @ frac_digits g) * 10 ^ 3 = 1045 * 10 ^ length (frac_digits g) * 10 ^ 8"
    using plain_decimal_exact [THEN conjunct2, THEN mp, OF number] unfolding moved vals by auto
  ultimately show ?thesis
    by blast
qed

end
