(* ===== verification/Crypto_Book.thy ===== *)
theory Crypto_Book
  imports Crypto_Json
begin

text \<open>
  What the decoders of every venue share (\<open>crates/jeed-crypto/src\<close>): the instrument and its scales
  (\<open>instrument.rs\<close>), the level arrays (\<open>json.rs\<close>), the two sides of a diff in one array (\<open>delta.rs\<close>), depth
  and emptiness (\<open>book.rs\<close>), the clock readings (\<open>time.rs\<close>) and the mask of required keys (\<open>mask.rs\<close>).
\<close>

subsection \<open>Clock readings (time.rs)\<close>

definition millis_to_nanos :: "u64 \<Rightarrow> u64" where
  "millis_to_nanos ms = saturating_mul ms 1000000"

text \<open>The digits after the point: the first six of them as a number, and how many those are.\<close>

fun millis_fraction :: "bytes \<Rightarrow> u64 \<Rightarrow> nat \<Rightarrow> (u64 \<times> nat) option" where
  "millis_fraction [] frac kept = Some (frac, kept)"
| "millis_fraction (b # bs) frac kept =
     (if \<not> is_digit b then None
      else if kept < 6 then millis_fraction bs (frac * 10 + ucast (b - 0x30)) (kept + 1)
      else millis_fraction bs frac kept)"

definition decimal_millis_to_nanos :: "bytes \<Rightarrow> u64 option" where
  "decimal_millis_to_nanos bs =
     (let whole = takeWhile is_digit bs; rest = drop (length whole) bs
      in if whole = [] then None
         else let nanos = millis_to_nanos (saturating_digits whole)
              in case rest of
                   [] \<Rightarrow> Some nanos
                 | b # ds \<Rightarrow>
                     if b \<noteq> 0x2E then None
                     else Option.bind (millis_fraction ds 0 0) (\<lambda>(frac, kept).
                       if ds = [] then None
                       else Some (saturating_add nanos (frac * 10 ^ (6 - kept)))))"

subsection \<open>Required keys (mask.rs)\<close>

definition require :: "u8 \<Rightarrow> u8 \<Rightarrow> (u8 \<times> string) list \<Rightarrow> (crypto_error, unit) res" where
  "require seen need keys =
     (if seen AND need = need then Inr ()
      else case find (\<lambda>(flag, key). need AND flag \<noteq> 0 \<and> seen AND flag = 0) keys of
             Some (flag, key) \<Rightarrow> Inl (Err (CryptoMissing key))
           | None \<Rightarrow> Inl (Err CryptoEmpty))"

subsection \<open>Depth and emptiness (book.rs)\<close>

record crypto_shape =
  cs_depth :: u8
  cs_flags :: u8

definition shape_new :: "u8 \<Rightarrow> u8 \<Rightarrow> crypto_shape" where
  "shape_new bid_depth ask_depth =
     \<lparr> cs_depth = (if bid_depth > ask_depth then bid_depth else ask_depth),
       cs_flags = (if bid_depth = 0 then BID_EMPTY else 0) OR (if ask_depth = 0 then ASK_EMPTY else 0) \<rparr>"

definition top_of_book :: "u64 \<Rightarrow> u64 \<Rightarrow> crypto_shape" where
  "top_of_book bid_qty ask_qty = shape_new (if bid_qty > 0 then 1 else 0) (if ask_qty > 0 then 1 else 0)"

subsection \<open>Instruments (instrument.rs)\<close>

text \<open>A \<open>DynamicExtractor\<close> is its number of decimals.\<close>

record instrument =
  in_venue :: venue
  in_symbol :: bytes
  in_symbol_len :: nat
  in_price :: nat
  in_qty :: nat
  in_price_scale :: scale
  in_qty_scale :: scale

definition instrument_new :: "venue \<Rightarrow> bytes \<Rightarrow> nat \<Rightarrow> nat \<Rightarrow> crypto_error + instrument" where
  "instrument_new venue symbol price_decimals qty_decimals =
     (case symbol_from_bytes symbol of
        None \<Rightarrow> Inl (CryptoInstrument InstrumentSymbol)
      | Some s \<Rightarrow>
          case scale_from_decimals price_decimals of
            None \<Rightarrow> Inl (CryptoInstrument (InstrumentScale price_decimals))
          | Some price_scale \<Rightarrow>
              case scale_from_decimals qty_decimals of
                None \<Rightarrow> Inl (CryptoInstrument (InstrumentScale qty_decimals))
              | Some qty_scale \<Rightarrow>
                  Inr \<lparr> in_venue = venue, in_symbol = s, in_symbol_len = length symbol, in_price = price_decimals,
                        in_qty = qty_decimals, in_price_scale = price_scale, in_qty_scale = qty_scale \<rparr>)"

definition instrument_symbol_bytes :: "instrument \<Rightarrow> bytes" where
  "instrument_symbol_bytes inst = symbol_bytes (in_symbol inst)"

text \<open>The number as it is written, or rewritten without its exponent.\<close>

definition without_exponent :: "bytes \<Rightarrow> bytes" where
  "without_exponent bs = (case plain_decimal bs of Some plain \<Rightarrow> plain | None \<Rightarrow> bs)"

definition instrument_price :: "instrument \<Rightarrow> bytes \<Rightarrow> string \<Rightarrow> (crypto_error, i64) res" where
  "instrument_price inst bs key = map_err (CryptoField key) (to_i64_exact (in_price inst) (without_exponent bs))"

definition instrument_qty :: "instrument \<Rightarrow> bytes \<Rightarrow> string \<Rightarrow> (crypto_error, u64) res" where
  "instrument_qty inst bs key = map_err (CryptoField key) (to_u64_exact (in_qty inst) (without_exponent bs))"

definition instrument_matches :: "instrument \<Rightarrow> bytes \<Rightarrow> bool" where
  "instrument_matches inst s \<longleftrightarrow> length s = in_symbol_len inst \<and> s = instrument_symbol_bytes inst"

definition check_symbol :: "instrument \<Rightarrow> bytes \<Rightarrow> (crypto_error, unit) res" where
  "check_symbol inst s = (if instrument_matches inst s then Inr () else Inl (Err CryptoSymbolMismatch))"

definition instrument_header :: "instrument \<Rightarrow> wire_kind \<Rightarrow> u64 \<Rightarrow> record_header" where
  "instrument_header inst kind recv_ns =
     set_scales (in_price_scale inst) (in_qty_scale inst) (header_new kind (in_venue inst) (in_symbol inst) recv_ns)"

text \<open>What every instrument that was built has.\<close>

definition instrument_ok :: "instrument \<Rightarrow> bool" where
  "instrument_ok inst \<longleftrightarrow>
     symbol_from_bytes (instrument_symbol_bytes inst) = Some (in_symbol inst) \<and>
     in_symbol_len inst = length (instrument_symbol_bytes inst) \<and>
     in_price inst = unat (scale_decimals (in_price_scale inst)) \<and> in_qty inst = unat (scale_decimals (in_qty_scale inst))"

subsection \<open>Level arrays (json.rs)\<close>

definition pair :: "instrument \<Rightarrow> bytes \<Rightarrow> nat \<Rightarrow> (crypto_error, i64 \<times> u64 \<times> nat) res" where
  "pair inst data pos =
     (case parse_scalar_bytes data (pos + 1) of (price_bytes, pos) \<Rightarrow>
      and_then (instrument_price inst price_bytes ''level price'') (\<lambda>price.
      case parse_scalar_bytes data (skip_comma data pos) of (qty_bytes, pos) \<Rightarrow>
      and_then (instrument_qty inst qty_bytes ''level quantity'') (\<lambda>qty.
      let pos = skip_ws data pos;
          pos = (if pos < length data \<and> data ! pos \<noteq> 0x5D then skip_rest_of_array data pos
                 else if pos < length data then pos + 1 else pos)
      in Inr (price, qty, pos))))"

lemma pair_bounds:
  assumes "pos < length data" "pair inst data pos = Inr (price, qty, past)"
  shows "pos < past \<and> past \<le> length data"
proof -
  obtain pb p where p: "parse_scalar_bytes data (pos + 1) = (pb, p)"
    by fastforce
  obtain qb q where q: "parse_scalar_bytes data (skip_comma data p) = (qb, q)"
    by fastforce
  let ?w = "skip_ws data q"
  have "pos + 1 \<le> p" "p \<le> length data"
    using parse_scalar_bounds [of "pos + 1" data] assms(1) p by simp_all
  moreover from this have "p \<le> skip_comma data p" "skip_comma data p \<le> length data"
    using skip_comma_bounds [of p data] by simp_all
  moreover from this have "skip_comma data p \<le> q" "q \<le> length data"
    using parse_scalar_bounds [of "skip_comma data p" data] q by simp_all
  moreover from this have "q \<le> ?w" "?w \<le> length data"
    using skip_ws_bounds [of q data] by simp_all
  moreover from this have "?w \<le> skip_rest_of_array data ?w" "skip_rest_of_array data ?w \<le> length data"
    using skip_rest_bounds [of ?w data] by simp_all
  moreover have "past = (if ?w < length data \<and> data ! ?w \<noteq> 0x5D then skip_rest_of_array data ?w
      else if ?w < length data then ?w + 1 else ?w)"
    using assms(2) unfolding pair_def p q prod.case Let_def by (auto simp: result_iffs)
  ultimately show ?thesis
    by auto
qed

text \<open>The loop of \<open>quote_levels\<close>, with the side it writes, and what is after it.\<close>

function quote_loop ::
    "instrument \<Rightarrow> bytes \<Rightarrow> nat \<Rightarrow> nat \<Rightarrow> nat \<Rightarrow> wire_level list \<Rightarrow> (crypto_error, (u8 \<times> nat) \<times> wire_level list) res" where
  "quote_loop inst data pos written depth out =
     (let pos = skip_ws data pos
      in if pos \<ge> length data then Inr ((of_nat depth, pos), out)
         else if data ! pos = 0x5D then Inr ((of_nat depth, pos + 1), out)
         else if data ! pos = 0x2C then quote_loop inst data (pos + 1) written depth out
         else if data ! pos = 0x5B then
           and_then (pair inst data pos) (\<lambda>(price, qty, past).
             if written \<ge> length out then Inl Panic
             else let out = out[written := level_new price qty];
                      written = written + 1;
                      depth = (if qty > 0 then written else depth)
                  in if written = WIRE_MAX_DEPTH then Inr ((of_nat depth, skip_rest_of_array data past), out)
                     else quote_loop inst data past written depth out)
         else quote_loop inst data (pos + 1) written depth out)"
  by pat_completeness auto
termination
proof (relation "measure (\<lambda>(inst, data, pos, _). length data - pos)")
  fix inst :: instrument and data :: bytes and pos written depth :: nat and out p past :: "nat"
  fix levels :: "wire_level list"
  assume p: "p = skip_ws data pos" "\<not> length data \<le> p"
  then have "pos \<le> p"
    using skip_ws_bounds by simp
  then show "((inst, data, p + 1, written, depth, levels), inst, data, pos, written, depth, levels)
      \<in> measure (\<lambda>(inst, data, pos, _). length data - pos)"
    "((inst, data, p + 1, written, depth, levels), inst, data, pos, written, depth, levels)
      \<in> measure (\<lambda>(inst, data, pos, _). length data - pos)"
    using p(2) by auto
next
  fix inst :: instrument and data :: bytes and pos written depth p w d :: nat and l l' :: "wire_level list" and x y z price qty past
  assume "p = skip_ws data pos" "\<not> length data \<le> p" "pair inst data p = Inr x" "(price, y) = x" "(qty, past) = y"
  moreover from this have "p < past"
    using pair_bounds [of p data inst price qty past] by simp
  ultimately show "((inst, data, past, w, d, l'), inst, data, pos, written, depth, l)
      \<in> measure (\<lambda>(inst, data, pos, _). length data - pos)"
    using skip_ws_bounds(1) [of pos data] by auto
qed auto

declare quote_loop.simps [simp del]

definition quote_levels ::
    "instrument \<Rightarrow> bytes \<Rightarrow> nat \<Rightarrow> wire_level list \<Rightarrow> (crypto_error, (u8 \<times> nat) \<times> wire_level list) res" where
  "quote_levels inst data pos out =
     (case enter_array data pos of
        None \<Rightarrow> Inr ((0, length data), out)
      | Some pos \<Rightarrow> quote_loop inst data pos 0 0 out)"

function delta_loop ::
    "instrument \<Rightarrow> bytes \<Rightarrow> nat \<Rightarrow> nat \<Rightarrow> wire_delta_level list \<Rightarrow> (crypto_error, (nat \<times> nat) \<times> wire_delta_level list) res" where
  "delta_loop inst data pos written out =
     (let pos = skip_ws data pos
      in if pos \<ge> length data then Inr ((written, pos), out)
         else if data ! pos = 0x5D then Inr ((written, pos + 1), out)
         else if data ! pos = 0x2C then delta_loop inst data (pos + 1) written out
         else if data ! pos = 0x5B then
           if written = length out then Inl (Err (CryptoDeltaOverflow WIRE_MAX_DELTA_LEVELS))
           else and_then (pair inst data pos) (\<lambda>(price, qty, past).
             if written \<ge> length out then Inl Panic
             else delta_loop inst data past (written + 1) (out[written := \<lparr> dl_price = price, dl_qty = qty \<rparr>]))
         else delta_loop inst data (pos + 1) written out)"
  by pat_completeness auto
termination
proof (relation "measure (\<lambda>(inst, data, pos, _). length data - pos)")
  fix inst :: instrument and data :: bytes and pos written p :: nat and levels :: "wire_delta_level list"
  assume p: "p = skip_ws data pos" "\<not> length data \<le> p"
  then have "pos \<le> p"
    using skip_ws_bounds by simp
  then show "((inst, data, p + 1, written, levels), inst, data, pos, written, levels)
      \<in> measure (\<lambda>(inst, data, pos, _). length data - pos)"
    "((inst, data, p + 1, written, levels), inst, data, pos, written, levels)
      \<in> measure (\<lambda>(inst, data, pos, _). length data - pos)"
    using p(2) by auto
next
  fix inst :: instrument and data :: bytes and pos written p w :: nat and l l' :: "wire_delta_level list" and x y price qty past
  assume "p = skip_ws data pos" "\<not> length data \<le> p" "pair inst data p = Inr x" "(price, y) = x" "(qty, past) = y"
  moreover from this have "p < past"
    using pair_bounds [of p data inst price qty past] by simp
  ultimately show "((inst, data, past, w, l'), inst, data, pos, written, l)
      \<in> measure (\<lambda>(inst, data, pos, _). length data - pos)"
    using skip_ws_bounds(1) [of pos data] by auto
qed auto

declare delta_loop.simps [simp del]

definition delta_levels ::
    "instrument \<Rightarrow> bytes \<Rightarrow> nat \<Rightarrow> wire_delta_level list \<Rightarrow> (crypto_error, (nat \<times> nat) \<times> wire_delta_level list) res" where
  "delta_levels inst data pos out =
     (case enter_array data pos of
        None \<Rightarrow> Inr ((0, length data), out)
      | Some pos \<Rightarrow> delta_loop inst data pos 0 out)"

subsection \<open>Two sides in one array (delta.rs)\<close>

record sides =
  si_written :: nat
  si_bid_count :: nat
  si_ask_count :: nat
  si_ask_first :: bool

definition sides_new :: sides where
  "sides_new = \<lparr> si_written = 0, si_bid_count = 0, si_ask_count = 0, si_ask_first = False \<rparr>"

text \<open>\<open>levels[self.written..]\<close> is the tail that \<open>delta_levels\<close> fills; \<open>rotate_left\<close> panics past the slice.\<close>

definition sides_read ::
    "instrument \<Rightarrow> bytes \<Rightarrow> nat \<Rightarrow> wire_delta_level list \<Rightarrow> bool \<Rightarrow> sides \<Rightarrow> (crypto_error, nat \<times> sides \<times> wire_delta_level list) res" where
  "sides_read inst payload pos levels is_bid s =
     (let s = (if \<not> is_bid \<and> si_written s = 0 \<and> si_bid_count s = 0 then s\<lparr> si_ask_first := True \<rparr> else s)
      in if si_written s > length levels then Inl Panic
         else and_then (delta_levels inst payload pos (drop (si_written s) levels)) (\<lambda>((n, next_pos), free).
           let levels = take (si_written s) levels @ free;
               s = s\<lparr> si_written := si_written s + n \<rparr>
           in Inr (next_pos, if is_bid then s\<lparr> si_bid_count := n \<rparr> else s\<lparr> si_ask_count := n \<rparr>, levels)))"

definition rotate_left :: "nat \<Rightarrow> 'a list \<Rightarrow> ('e, 'a list) res" where
  "rotate_left k xs = (if k > length xs then Inl Panic else Inr (drop k xs @ take k xs))"

definition sides_finish :: "sides \<Rightarrow> snapshot_delta_payload \<Rightarrow> (crypto_error, snapshot_delta_payload) res" where
  "sides_finish s d =
     map_ok (\<lambda>levels. d\<lparr> sd_levels := levels, sd_bid_count := of_nat (si_bid_count s), sd_ask_count := of_nat (si_ask_count s) \<rparr>)
       (if si_ask_first s then
          if si_written s > length (sd_levels d) then Inl Panic
          else map_ok (\<lambda>front. front @ drop (si_written s) (sd_levels d))
                 (rotate_left (si_ask_count s) (take (si_written s) (sd_levels d)))
        else Inr (sd_levels d))"

subsection \<open>Readers return\<close>

lemma instrument_new_ok:
  assumes "instrument_new venue symbol pd qd = Inr inst"
  shows "instrument_ok inst" "in_venue inst = venue"
proof -
  obtain s p q where s: "symbol_from_bytes symbol = Some s" "pd = unat (scale_decimals p)" "qd = unat (scale_decimals q)"
    and inst: "inst = \<lparr> in_venue = venue, in_symbol = s, in_symbol_len = length symbol, in_price = pd, in_qty = qd,
      in_price_scale = p, in_qty_scale = q \<rparr>"
    using assms by (auto simp: instrument_new_def scale_from_decimals_Some split: option.splits)
  moreover have "symbol_bytes s = symbol"
    using s(1) symbol_roundtrip by blast
  ultimately show "instrument_ok inst" "in_venue inst = venue"
    by (simp_all add: instrument_ok_def instrument_symbol_bytes_def)
qed

lemma readers_no_panic:
  assumes "instrument_ok inst"
  shows "no_panic (instrument_price inst bs key)" "no_panic (instrument_qty inst bs key)" "no_panic (check_symbol inst bs)"
proof -
  have "unat (scale_decimals s) < 2 ^ 32" for s
    by (cases s) simp_all
  then have exact: "no_panic (to_i64_exact (in_price inst) bs)" "no_panic (to_i64_exact (in_qty inst) bs)" for bs
    using to_i64_exact_only assms by (simp_all add: instrument_ok_def)
  then show "no_panic (instrument_price inst bs key)" "no_panic (instrument_qty inst bs key)" "no_panic (check_symbol inst bs)"
    by (auto simp: instrument_price_def instrument_qty_def check_symbol_def to_u64_exact_def intro!: no_panic_and_then)
qed

lemma require_returns: "returns (require seen need keys) (\<lambda>_. P) \<longleftrightarrow> (require seen need keys = Inr () \<longrightarrow> P)"
  by (auto simp: require_def split: option.splits)

lemma pair_returns:
  assumes "instrument_ok inst" "pos < length data"
  shows "returns (pair inst data pos) (\<lambda>(price, qty, past). pos < past \<and> past \<le> length data)"
proof -
  have "no_panic (pair inst data pos)"
    using readers_no_panic [OF assms(1)] by (auto simp: pair_def Let_def split: prod.split intro!: no_panic_and_then)
  then show ?thesis
    using pair_bounds [OF assms(2)] by (auto simp: returns_def)
qed

lemma quote_loop_returns:
  assumes "instrument_ok inst" "pos \<le> length data" "written < 10" "depth \<le> written" "length out = 10"
  shows "returns (quote_loop inst data pos written depth out)
    (\<lambda>((d, p), out'). d \<le> 10 \<and> pos \<le> p \<and> p \<le> length data \<and> length out' = 10)"
  using assms(2-)
proof (induction "length data - pos" arbitrary: pos written depth out rule: less_induct)
  case less
  define p where "p = skip_ws data pos"
  have p: "pos \<le> p" "p \<le> length data"
    using skip_ws_bounds less.prems(1) by (simp_all add: p_def)
  have d: "(word_of_nat n :: u8) \<le> 10" if "n \<le> 10" for n
    using that by (simp add: word_le_nat_alt unat_of_nat)
  have step: "returns (quote_loop inst data q w e out') (\<lambda>((d, p), out'). d \<le> 10 \<and> pos \<le> p \<and> p \<le> length data \<and> length out' = 10)"
    if "p < q" "q \<le> length data" "w < 10" "e \<le> w" "length out' = 10" for q w e out'
    by (rule returns_mono [OF less.hyps [of q]]) (use that p in auto)
  have rest: "pos \<le> skip_rest_of_array data q" "skip_rest_of_array data q \<le> length data" if "p < q" "q \<le> length data" for q
    using skip_rest_bounds [OF that(2)] that(1) p(1) by auto
  note eq = quote_loop.simps [of inst data pos written depth out, unfolded p_def [symmetric] Let_def]
  consider "length data \<le> p" | "p < length data" "data ! p = 0x5D" | "p < length data" "data ! p = 0x2C"
    | "p < length data" "data ! p = 0x5B" | "p < length data" "data ! p \<notin> {0x5D, 0x2C, 0x5B}"
    by force
  then show ?case
  proof cases
    case 4
    show ?thesis
      unfolding eq using 4 p less.prems d
      by (auto simp: wire_consts Let_def rest intro!: returns_and_then [OF pair_returns [OF assms(1) 4(1)]] step)
  qed (use step p less.prems d in \<open>auto simp: eq\<close>)
qed

lemma quote_levels_returns:
  assumes "instrument_ok inst" "pos \<le> length data" "length out = 10"
  shows "returns (quote_levels inst data pos out) (\<lambda>((d, p), out'). d \<le> 10 \<and> pos \<le> p \<and> p \<le> length data \<and> length out' = 10)"
proof (cases "enter_array data pos")
  case (Some p)
  then have "pos < p" "p \<le> length data"
    using enter_array_bounds by auto
  then show ?thesis
    using Some assms quote_loop_returns [of inst p data 0 0 out] by (auto simp: quote_levels_def elim: returns_mono)
qed (use assms in \<open>simp add: quote_levels_def\<close>)

lemma delta_loop_returns:
  assumes "instrument_ok inst" "pos \<le> length data" "written \<le> length out"
  shows "returns (delta_loop inst data pos written out)
    (\<lambda>((n, p), out'). pos \<le> p \<and> p \<le> length data \<and> n \<le> length out \<and> length out' = length out)"
  using assms(2-)
proof (induction "length data - pos" arbitrary: pos written out rule: less_induct)
  case less
  define p where "p = skip_ws data pos"
  have p: "pos \<le> p" "p \<le> length data"
    using skip_ws_bounds less.prems(1) by (simp_all add: p_def)
  have step: "returns (delta_loop inst data q w out')
      (\<lambda>((n, p), out''). pos \<le> p \<and> p \<le> length data \<and> n \<le> length out \<and> length out'' = length out)"
    if "p < q" "q \<le> length data" "w \<le> length out'" "length out' = length out" for q w out'
    by (rule returns_mono [OF less.hyps [of q]]) (use that p in auto)
  note eq = delta_loop.simps [of inst data pos written out, unfolded p_def [symmetric] Let_def]
  consider "length data \<le> p" | "p < length data" "data ! p = 0x5D" | "p < length data" "data ! p = 0x2C"
    | "p < length data" "data ! p = 0x5B" | "p < length data" "data ! p \<notin> {0x5D, 0x2C, 0x5B}"
    by force
  then show ?case
  proof cases
    case 4
    show ?thesis
      unfolding eq using 4 p less.prems
      by (auto intro!: returns_and_then [OF pair_returns [OF assms(1) 4(1)]] step)
  qed (use step p less.prems in \<open>auto simp: eq\<close>)
qed

lemma delta_levels_returns:
  assumes "instrument_ok inst" "pos \<le> length data"
  shows "returns (delta_levels inst data pos out)
    (\<lambda>((n, p), out'). pos \<le> p \<and> p \<le> length data \<and> n \<le> length out \<and> length out' = length out)"
proof (cases "enter_array data pos")
  case (Some p)
  then have "pos < p" "p \<le> length data"
    using enter_array_bounds by auto
  then show ?thesis
    using Some assms delta_loop_returns [of inst p data 0 out] by (auto simp: delta_levels_def elim: returns_mono)
qed (use assms in \<open>simp add: delta_levels_def\<close>)

text \<open>However often a side is sent, the counts of the two sides never exceed what was written.\<close>

definition sides_ok :: "nat \<Rightarrow> sides \<Rightarrow> bool" where
  "sides_ok n s \<longleftrightarrow> si_written s \<le> n \<and> si_bid_count s + si_ask_count s \<le> si_written s"

lemma sides_new_ok: "sides_ok n sides_new"
  by (simp add: sides_ok_def sides_new_def)

lemma sides_read_returns:
  assumes "instrument_ok inst" "pos \<le> length data" "sides_ok (length levels) s"
  shows "returns (sides_read inst data pos levels is_bid s)
    (\<lambda>(p, s', levels'). pos \<le> p \<and> p \<le> length data \<and> length levels' = length levels \<and> sides_ok (length levels) s')"
proof -
  let ?s = "if \<not> is_bid \<and> si_written s = 0 \<and> si_bid_count s = 0 then s\<lparr> si_ask_first := True \<rparr> else s"
  have s: "si_written ?s = si_written s" "si_written s \<le> length levels" "sides_ok (length levels) ?s"
    using assms(3) by (auto simp: sides_ok_def)
  show ?thesis
    unfolding sides_read_def Let_def s(1) using s(2,3)
    by (auto intro!: returns_and_then [OF delta_levels_returns [OF assms(1,2)]] simp: sides_ok_def split: if_splits)
qed

lemma sides_finish_returns:
  assumes "sides_ok 32 s" "snapshot_delta_payload_ok d"
  shows "returns (sides_finish s d) (\<lambda>d'. snapshot_delta_payload_ok d' \<and> level_count d' \<le> 32)"
proof -
  have len: "length (sd_levels d) = 32" "length (sd_pad d) = 5"
    using assms(2) by (simp_all add: snapshot_delta_payload_ok_def array_ok_def)
  have "unat (word_of_nat (si_bid_count s) :: u8) = si_bid_count s" "unat (word_of_nat (si_ask_count s) :: u8) = si_ask_count s"
    using assms(1) by (simp_all add: sides_ok_def unat_of_nat)
  then show ?thesis
    using assms(1) len
    by (auto simp: sides_finish_def rotate_left_def sides_ok_def snapshot_delta_payload_ok_def array_ok_def level_count_def)
qed

end
