(* ===== verification/Spec2Isabelle.thy ===== *)
theory Spec2Isabelle
  imports Dynamic_Extractor Record_Sink Fix_Loop Ws_Stream Crypto_Book
begin

text \<open>
  Jeed: from the bytes of an exchange to the records of a shared-memory ring.

  Jeed is a set of feed handlers. A handler reads messages of one venue, converts their ASCII fields
  to scaled integers (\<open>crates/jeed-convert\<close>), fills a fixed 640-byte record (\<open>crates/jeed-wire\<close>) and
  publishes it into a single-producer ring in shared memory (\<open>crates/jeed-shm\<close>), from which any
  number of consumers read at their own pace. \<open>crates/jeed-krx\<close> is the handler of the Korean
  exchange's multicast feed, \<open>crates/jeed-fix\<close> that of a FIX session, \<open>crates/jeed-crypto\<close> that of the
  crypto venues' WebSocket feeds; \<open>crates/jeed\<close> holds the binaries.

  \<^bold>\<open>Conventions\<close> (\<open>Jeed_Base\<close>). Machine integers are words of their width, a signed value the same word
  read by \<open>sint\<close>; arithmetic Rust leaves unchecked is word arithmetic, the wrap-around of the release
  build. \<open>Result\<close> is a sum with the error on the left; where the source can also panic, the error is
  an \<open>'e fault\<close> and a panic is the value \<open>Panic\<close>, so that a theorem that code does not panic says so.
  \<open>?\<close> is \<open>and_then\<close>. \<open>returns r P\<close> is total correctness of a result: no panic, and \<open>P\<close> of what it
  returns. A function that fills \<open>*out\<close> only where it succeeds returns the record instead.

  \<^bold>\<open>Conversion\<close> (\<open>jeed-convert/src\<close>).
  \<^item> \<open>Swar\<close>: \<open>decimal_core/le_bytes.rs\<close>, \<open>bcd.rs\<close>, \<open>check.rs\<close>, \<open>checked_conversion.rs\<close>. Digits in a register;
    shown equal to the decimal value of the bytes wherever the checks let a chunk through.
  \<^item> \<open>Squeeze_Point\<close>: \<open>decimal_core/squeeze_point.rs\<close>. Removing a decimal point from a register.
  \<^item> \<open>Time_Parse\<close>: \<open>decimal_core/hhmmss.rs\<close>. The value of every accepted clock reading.
  \<^item> \<open>Integer_Parser\<close>: \<open>integer_parser\<close>. Exactness on digit strings that fit, what an accepted string
    can look like, and the wrap-around outside.
  \<^item> \<open>Fixed_Extractor\<close>, \<open>Dynamic_Extractor\<close>: \<open>extractor\<close>. Fields of a fixed shape and numbers of any
    shape; the checked readers return the scaled value exactly and accept nothing else.

  \<^bold>\<open>The wire\<close> (\<open>jeed-wire/src\<close>).
  \<^item> \<open>Wire_Types\<close>: \<open>types.rs\<close>, \<open>kind.rs\<close>, \<open>header.rs\<close>, \<open>error.rs\<close>. Codes, symbols, the header and its validation.
  \<^item> \<open>Codec\<close>: the locale \<open>codec\<close> of encode/decode laws; \<open>Wire_Payload\<close> interprets it for every payload of
    \<open>payload.rs\<close> (and the header), field by field in \<open>repr(C)\<close> order.
  \<^item> \<open>Wire_Record\<close>: \<open>record.rs\<close>. The payload union as its bytes; typed access under the kind byte;
    validation; the byte views. A record is shown to be a header and one of ten payloads.

  \<^bold>\<open>The ring\<close> (\<open>jeed-shm/src\<close>).
  \<^item> \<open>Segment\<close>: the segment header (\<open>jeed-wire/src/segment.rs\<close>) and the slot arithmetic (\<open>ring.rs\<close>).
  \<^item> \<open>Ring\<close>: \<open>producer.rs\<close>, \<open>consumer.rs\<close>. The abstract channel is the list of everything published; the
    relation \<open>ring_implements\<close> says which slots hold which entries. Every producer operation implements
    one of the channel, every consumer read refines the channel's, and a consumer that keeps reading
    gets everything that is still in the ring. A call is atomic here: what a consumer sees in the
    middle of a producer's call is not modelled.
  \<^item> \<open>Record_Sink\<close>: \<open>jeed-wire/src/sink.rs\<close> as the locale \<open>record_sink\<close>, interpreted on the ring; the batch
    client \<open>publish_batch\<close> of \<open>jeed-crypto/src/recv/route.rs\<close> is proved against the interface only.

  \<^bold>\<open>The KRX handler\<close> (\<open>jeed-krx/src\<close>).
  \<^item> \<open>Krx_Message\<close>: \<open>trcode.rs\<close>, \<open>message.rs\<close>, \<open>field.rs\<close>, \<open>extract.rs\<close>, \<open>clock.rs\<close>. Field readers do not panic; a
    clock field is exact; at most one of the three shapes of a derivative price accepts a field; the
    day given to a dateless clock reading is the nearest.
  \<^item> \<open>Krx_Decode\<close>: \<open>decode/common.rs\<close>, \<open>decode/derivative\<close>, and the locale \<open>krx_decoder\<close>: a decoder checks the
    frame against its one length and from a framed message returns a record that validates, carries
    the instrument of the message and tells its book truly. \<open>Krx_Markets\<close>: \<open>decode/bond\<close>, \<open>securities\<close>,
    \<open>stock\<close>, \<open>etf\<close>, \<open>schedule.rs\<close>. The fourteen decoders are its interpretations.
  \<^item> \<open>Krx_Dispatch\<close>: \<open>decode/dispatch.rs\<close>, over the contract alone: decoding is safe on every datagram and
    agrees with \<open>message_len\<close> and \<open>isin_offset\<close>, which the receive path consults first.
  \<^item> \<open>Krx_Filter\<close>: \<open>recv/filter.rs\<close> with the standard library's binary search.
  \<^item> \<open>Krx_Pipeline\<close>: \<open>recv/pipeline.rs\<close>, \<open>recv/stats.rs\<close>, against \<open>record_sink\<close>. Filtering before decoding equals
    filtering after; the counters account for every datagram; a run refines a machine of two counters.
  \<^item> \<open>Krx_Receiver\<close>: \<open>recv/receiver.rs\<close>, \<open>recv/endpoint.rs\<close> and the portable part of \<open>recv/socket\<close>, over an
    arbitrary operating system. Every round keeps the invariant, whatever the sockets do.

  \<^bold>\<open>The FIX handler\<close> (\<open>jeed-fix/src\<close>).
  \<^item> \<open>Fix_Tagvalue\<close>: \<open>tagvalue.rs\<close>, \<open>error.rs\<close>. The scanner of fields and the readers of values; a decimal is
    accepted exactly where it has the scale asked for, and then its value is returned.
  \<^item> \<open>Fix_Frame\<close>: \<open>frame.rs\<close>. Checked frames and the receive buffer. A frame is accepted exactly where its
    length and checksum say so, and a stream of messages comes out whole however it was cut.
  \<^item> \<open>Fix_Market_Data\<close>: \<open>market_data.rs\<close>. The fixed-size message of a snapshot or an increment; a message as
    a venue writes it decodes to its entries, and every decoded message keeps the bounds of its arrays.
  \<^item> \<open>Fix_Session\<close>: \<open>session.rs\<close>. The verdicts on sequence numbers and the counter of lost messages.
  \<^item> \<open>Fix_Emit\<close>: \<open>recv/emit.rs\<close>. Messages out. What is emitted frames, is numbered and reads back.
  \<^item> \<open>Fix_Filter\<close>: \<open>recv/filter.rs\<close>. \<open>Fix_Adapter\<close>: the venue adapter as the locale \<open>md_adapter\<close>, interpreted
    on \<open>SnapshotAdapter\<close> (\<open>jeed/src/fix.rs\<close>). \<open>Fix_Pipeline\<close>: \<open>recv/pipeline.rs\<close>, \<open>recv/stats.rs\<close>, in the locale
    \<open>fix_feed\<close> of any sink and adapter: the counters account for every frame, and the whole path equals a
    reference that decodes first and decides afterwards.
  \<^item> \<open>Rust_Text\<close>: the string operations of the standard library. \<open>Fix_Link\<close>: \<open>recv/endpoint.rs\<close>, \<open>recv/link.rs\<close>.
    \<open>Fix_Receiver\<close>: \<open>recv/receiver.rs\<close>. \<open>Fix_Loop\<close>: the invariant of the receiver over any number of rounds;
    on each connection the counterparty is sent a logon first and consecutive numbers from there.

  \<^bold>\<open>The WebSocket feed\<close> (\<open>jeed-crypto/src\<close>).
  \<^item> \<open>Ws_Frame\<close>: \<open>recv/ws/frame.rs\<close>, \<open>assemble.rs\<close>. \<open>Ws_Handshake\<close>: \<open>recv/endpoint.rs\<close>, \<open>recv/ws/handshake.rs\<close>,
    \<open>sha1.rs\<close>. A frame written is read back as it was, through its mask; the response that carries the
    accept value of the key that was sent opens the connection.
  \<^item> \<open>Ws_Link\<close>: \<open>recv/link.rs\<close>, over the operations of the operating system and of the TLS library.
    \<open>Crypto_Pipeline\<close>: \<open>error.rs\<close>, \<open>recv/stats.rs\<close>, \<open>recv/pipeline.rs\<close>, for any router. \<open>Ws_Receiver\<close>: \<open>recv/receiver.rs\<close>.
  \<^item> \<open>Ws_Stream\<close>: a grammar of what a venue sends (messages, cut into fragments, with control frames
    between), and the round trip through link, reassembly and loop: the pipeline gets the messages.

  \<^bold>\<open>Crypto messages\<close> (\<open>jeed-crypto/src\<close>).
  \<^item> \<open>Crypto_Json\<close>: \<open>json.rs\<close>. The scanners of JSON text; positions stay in the message and move on. A number in
    exponent notation is rewritten as the same number.
  \<^item> \<open>Crypto_Book\<close>: \<open>instrument.rs\<close>, the level arrays of \<open>json.rs\<close>, \<open>delta.rs\<close>, \<open>book.rs\<close>, \<open>time.rs\<close>, \<open>mask.rs\<close>. The
    readers do not panic on any bytes and never write outside their arrays.

  \<^bold>\<open>Bounds.\<close> Recursion is structural or has a measure; the burst of a drain is its own fuel. A batch, the
  receive loops and the wait of a handshake may run for ever and are partial functions: the batch is
  shown to return for decoders that shrink; of the loops rounds are claimed, and of a WebSocket feed that
  as many rounds as the stream has frames and bytes are enough. Theorems about the ring ask that fewer
  than \<open>2 ^ 64\<close> records were published, where sequences would wrap.

  \<^bold>\<open>Not modelled.\<close> The floating-point readers of the extractors and the \<open>f64\<close> multiplier of a scale
  (floating point); \<open>Display\<close> and other formatting; operating-system calls (\<open>jeed-shm/src/mapping\<close>, the
  platform sockets, the clocks, the configuration of TLS), which are arguments; text that is parsed by
  the standard library's address or Unicode routines (the endpoints of KRX, \<open>parse_isin_list\<close>,
  \<open>parse_symbol_list\<close>); interleaving inside a ring operation; segment names; the per-venue decoders,
  the routers and the REST client of the crypto venues but for \<open>publish_batch\<close>; of \<open>crates/jeed\<close> everything but \<open>SnapshotAdapter\<close>.
\<close>

end
